(* ===== verification/Ragota_Prelude.thy ===== *)
theory Ragota_Prelude
  imports Main "HOL-Library.Multiset" "HOL-Library.Char_ord" "HOL-Library.List_Lexorder"
begin

text \<open>
  Shared ground of the development: the collections of facts that the component
  theories feed and use, and generic lemmas on lists that more than one component
  needs. Nothing here is about ragota itself.

  \<^item> \<open>go_eval\<close> collects the defining equations of the string routines, so that a closed
    term about strings evaluates by \<^theory_text>\<open>simp add: go_eval\<close>;
  \<^item> \<open>go_string\<close> collects the algebraic laws of those routines.
\<close>

named_theorems go_eval \<open>defining equations of the string and list routines\<close>
named_theorems go_string \<open>laws of the string routines\<close>

section \<open>Lists\<close>

lemma takeWhile_all_append:
  "(\<And>x. x \<in> set xs \<Longrightarrow> P x) \<Longrightarrow> takeWhile P (xs @ ys) = xs @ takeWhile P ys"
  by (induction xs) auto

lemma takeWhile_id: "(\<And>x. x \<in> set xs \<Longrightarrow> P x) \<Longrightarrow> takeWhile P xs = xs"
  by (induction xs) auto

lemma dropWhile_id: "(case xs of [] \<Rightarrow> True | x # _ \<Rightarrow> \<not> P x) \<Longrightarrow> dropWhile P xs = xs"
  by (cases xs) auto

lemma dropWhile_head: "dropWhile P xs = y # ys \<Longrightarrow> \<not> P y"
  by (induction xs) (auto split: if_splits)

lemma length_filter_one:
  assumes "distinct xs" and "x \<in> set xs"
  shows "length (filter ((=) x) xs) = 1"
  using assms by (induction xs) (auto simp: filter_empty_conv)

text \<open>
  A scan that returns the first element with a property, the shape of every lookup loop
  of the sources (\<open>for ... { if p(x) { return x } }\<close>).
\<close>

lemma find_SomeD: "List.find P xs = Some x \<Longrightarrow> x \<in> set xs \<and> P x"
  by (induction xs) (auto split: if_splits)

lemma find_NoneD: "List.find P xs = None \<Longrightarrow> x \<in> set xs \<Longrightarrow> \<not> P x"
  by (auto simp: find_None_iff)

text \<open>A list whose \<open>P\<close>-elements all precede the others splits at the number of them.\<close>

lemma filter_split:
  "sorted_wrt (\<lambda>a b. P b \<longrightarrow> P a) xs \<Longrightarrow> xs = filter P xs @ filter (\<lambda>x. \<not> P x) xs"
proof (induction xs)
  case Nil
  then show ?case by simp
next
  case (Cons x xs)
  then show ?case
  proof (cases "P x")
    case False
    then have "\<forall>y \<in> set xs. \<not> P y" using Cons.prems by auto
    then have "filter P xs = []" and "filter (\<lambda>x. \<not> P x) xs = xs" by (auto simp: filter_empty_conv)
    then show ?thesis using False by simp
  qed auto
qed

text \<open>An arrangement of the images is the image of an arrangement.\<close>

lemma arrange_map:
  "mset ys = mset (map f xs) \<Longrightarrow> \<exists>zs. mset zs = mset xs \<and> map f zs = ys"
proof (induction ys arbitrary: xs)
  case Nil
  then have "length xs = 0" by (metis length_map list.size(3) size_mset)
  then show ?case by simp
next
  case (Cons y ys)
  have "set (y # ys) = set (map f xs)" using Cons.prems by (rule mset_eq_setD)
  then have "y \<in> set (map f xs)" by auto
  then obtain x where x: "x \<in> set xs" "y = f x" by auto
  obtain us vs where xs: "xs = us @ x # vs" using split_list [OF x(1)] by blast
  have "mset ys = mset (map f (us @ vs))" using Cons.prems unfolding xs x(2) by simp
  then obtain zs where "mset zs = mset (us @ vs)" "map f zs = ys" using Cons.IH by blast
  then have "mset (x # zs) = mset xs" "map f (x # zs) = y # ys" by (simp_all add: xs x(2))
  then show ?case by (intro exI [of _ "x # zs"] conjI)
qed

section \<open>Insertion sort by a comparison function\<close>

text \<open>
  Go's \<open>sort.SliceStable\<close> and \<open>slices.SortFunc\<close> take a comparison, not a key. The routine
  below is the stable sort of a list under a strict comparison \<open>lt\<close>; for a comparison
  whose ties are only between equal elements any other sorting algorithm gives the same
  list (\<open>sort_lt_unique\<close>), which is what \<open>sort.Slice\<close> relies on.
\<close>

fun insert_lt :: "('a \<Rightarrow> 'a \<Rightarrow> bool) \<Rightarrow> 'a \<Rightarrow> 'a list \<Rightarrow> 'a list" where
  "insert_lt lt x [] = [x]"
| "insert_lt lt x (y # ys) = (if lt y x then y # insert_lt lt x ys else x # y # ys)"

fun sort_lt :: "('a \<Rightarrow> 'a \<Rightarrow> bool) \<Rightarrow> 'a list \<Rightarrow> 'a list" where
  "sort_lt lt [] = []"
| "sort_lt lt (x # xs) = insert_lt lt x (sort_lt lt xs)"

lemma mset_insert_lt [simp]: "mset (insert_lt lt x xs) = add_mset x (mset xs)"
  by (induction xs) auto

lemma mset_sort_lt [simp]: "mset (sort_lt lt xs) = mset xs"
  by (induction xs) auto

lemma set_insert_lt [simp]: "set (insert_lt lt x xs) = insert x (set xs)"
  by (induction xs) auto

lemma set_sort_lt [simp]: "set (sort_lt lt xs) = set xs"
  by (metis mset_eq_setD mset_sort_lt)

lemma length_sort_lt [simp]: "length (sort_lt lt xs) = length xs"
  by (metis mset_sort_lt size_mset)

lemma distinct_sort_lt [simp]: "distinct (sort_lt lt xs) = distinct xs"
  by (metis mset_eq_imp_distinct_iff mset_sort_lt)

text \<open>
  The contract of a comparison: a strict weak order, stated as irreflexivity, transitivity and
  transitivity of "not less". Every comparator of the sources is interpreted against it.
\<close>

locale lt_order =
  fixes lt :: "'a \<Rightarrow> 'a \<Rightarrow> bool"
  assumes lt_irrefl: "\<not> lt x x"
    and lt_trans: "lt x y \<Longrightarrow> lt y z \<Longrightarrow> lt x z"
    and not_lt_trans: "\<not> lt y x \<Longrightarrow> \<not> lt z y \<Longrightarrow> \<not> lt z x"
begin

definition in_order :: "'a list \<Rightarrow> bool" where
  "in_order = sorted_wrt (\<lambda>a b. \<not> lt b a)"

lemma lt_asym: "lt x y \<Longrightarrow> \<not> lt y x"
  using lt_irrefl lt_trans by blast

lemma in_order_insert: "in_order xs \<Longrightarrow> in_order (insert_lt lt x xs)"
proof (induction xs)
  case Nil
  then show ?case by (simp add: in_order_def)
next
  case (Cons y ys)
  from Cons.prems have y: "\<forall>b \<in> set ys. \<not> lt b y" and ys: "in_order ys"
    by (simp_all add: in_order_def)
  show ?case
  proof (cases "lt y x")
    case True
    with y ys Cons.IH show ?thesis
      by (auto simp: in_order_def dest: lt_asym)
  next
    case False
    with y have "\<forall>b \<in> set ys. \<not> lt b x" using not_lt_trans by blast
    with False y ys show ?thesis by (simp add: in_order_def)
  qed
qed

lemma in_order_sort: "in_order (sort_lt lt xs)"
  by (induction xs) (auto simp: in_order_insert, simp add: in_order_def)

lemma in_order_hd: "in_order (x # xs) \<Longrightarrow> y \<in> set xs \<Longrightarrow> \<not> lt y x"
  by (simp add: in_order_def)

lemma in_order_tl: "in_order (x # xs) \<Longrightarrow> in_order xs"
  by (simp add: in_order_def)

text \<open>
  With no ties between different elements the ordered arrangement of a multiset is unique,
  so the answer does not depend on the order the elements arrived in.
\<close>

lemma in_order_unique:
  assumes "in_order xs" and "in_order ys" and "mset xs = mset ys"
    and "\<And>a b. a \<in> set xs \<Longrightarrow> b \<in> set xs \<Longrightarrow> \<not> lt a b \<Longrightarrow> \<not> lt b a \<Longrightarrow> a = b"
  shows "xs = ys"
  using assms
proof (induction xs arbitrary: ys)
  case Nil
  then show ?case by simp
next
  case (Cons x xs)
  from Cons.prems(3) obtain y ys' where ys: "ys = y # ys'" by (cases ys) auto
  have sets: "set (x # xs) = set ys" using Cons.prems(3) by (rule mset_eq_setD)
  have "y = x \<or> y \<in> set xs" and "x = y \<or> x \<in> set ys'" using sets ys by auto
  then have "\<not> lt y x" and "\<not> lt x y"
    using in_order_hd [OF Cons.prems(1)] in_order_hd [of y ys'] Cons.prems(2) ys lt_irrefl
    by blast+
  then have "x = y" using Cons.prems(4) sets ys by auto
  moreover have "xs = ys'"
    by (rule Cons.IH) (use Cons.prems ys \<open>x = y\<close> in_order_tl in auto)
  ultimately show ?case using ys by simp
qed

lemma sort_lt_unique:
  assumes "mset xs = mset ys"
    and "\<And>a b. a \<in> set xs \<Longrightarrow> b \<in> set xs \<Longrightarrow> \<not> lt a b \<Longrightarrow> \<not> lt b a \<Longrightarrow> a = b"
  shows "sort_lt lt xs = sort_lt lt ys"
  using in_order_unique [OF in_order_sort in_order_sort] assms by simp

lemma insert_lt_id: "in_order (x # xs) \<Longrightarrow> insert_lt lt x xs = x # xs"
  by (cases xs) (auto simp: in_order_def)

lemma sort_lt_id: "in_order xs \<Longrightarrow> sort_lt lt xs = xs"
proof (induction xs)
  case Nil
  then show ?case by simp
next
  case (Cons x xs)
  then show ?case using insert_lt_id in_order_tl by fastforce
qed

lemma sort_lt_idem: "sort_lt lt (sort_lt lt xs) = sort_lt lt xs"
  by (rule sort_lt_id) (rule in_order_sort)

end

section \<open>Filtering maps\<close>

lemma set_map_filter: "set (List.map_filter f xs) = {y. \<exists>x \<in> set xs. f x = Some y}"
  by (induction xs) (auto simp: map_filter_simps split: option.split)

end
