(* ===== verification/Go_Strings.thy ===== *)
theory Go_Strings
  imports Ragota_Prelude
begin

text \<open>
  The routines of Go's \<open>strings\<close> package that the modelled sources call, over strings as lists
  of bytes. A Go string is a byte sequence and so is a HOL \<open>string\<close>; case folding and white space
  are those of ASCII, on which Go's Unicode-aware routines agree. Ranges over runes
  are ranges over bytes for the same reason: every character the modelled code compares with is
  ASCII, and such a byte never occurs inside a multi-byte rune.
\<close>

section \<open>Bytes\<close>

definition byte_of :: "char \<Rightarrow> nat" where
  "byte_of c = of_char c"

definition is_lower :: "char \<Rightarrow> bool" where
  "is_lower c \<longleftrightarrow> 97 \<le> byte_of c \<and> byte_of c \<le> 122"

definition is_upper :: "char \<Rightarrow> bool" where
  "is_upper c \<longleftrightarrow> 65 \<le> byte_of c \<and> byte_of c \<le> 90"

definition is_digit :: "char \<Rightarrow> bool" where
  "is_digit c \<longleftrightarrow> 48 \<le> byte_of c \<and> byte_of c \<le> 57"

definition is_space :: "char \<Rightarrow> bool" where
  "is_space c \<longleftrightarrow> byte_of c = 32 \<or> (9 \<le> byte_of c \<and> byte_of c \<le> 13)"

definition lower_byte :: "char \<Rightarrow> char" where
  "lower_byte c = (if is_upper c then char_of (byte_of c + 32) else c)"

definition upper_byte :: "char \<Rightarrow> char" where
  "upper_byte c = (if is_lower c then char_of (byte_of c - 32) else c)"

definition to_lower :: "string \<Rightarrow> string" where
  "to_lower s = map lower_byte s"

definition to_upper :: "string \<Rightarrow> string" where
  "to_upper s = map upper_byte s"

declare byte_of_def [go_eval] is_lower_def [go_eval] is_upper_def [go_eval] is_digit_def [go_eval]
  is_space_def [go_eval] lower_byte_def [go_eval] upper_byte_def [go_eval]
  to_lower_def [go_eval] to_upper_def [go_eval]

text \<open>For evaluation: the byte with a given numeral code, bit by bit.\<close>

lemma char_of_numeral [go_eval]:
  "char_of (numeral k :: nat) =
     Char (odd (numeral k :: nat)) (odd (numeral k div 2 :: nat)) (odd (numeral k div 4 :: nat))
       (odd (numeral k div 8 :: nat)) (odd (numeral k div 16 :: nat)) (odd (numeral k div 32 :: nat))
       (odd (numeral k div 64 :: nat)) (odd (numeral k div 128 :: nat))"
  by (simp add: char_of_def bit_iff_odd)

lemma byte_of_bound: "byte_of c < 256"
  by (simp add: byte_of_def)

lemma byte_of_char_of [simp]: "n < 256 \<Longrightarrow> byte_of (char_of n) = n"
  by (simp add: byte_of_def)

lemma byte_of_inject [simp]: "byte_of c = byte_of d \<longleftrightarrow> c = d"
  by (simp add: byte_of_def)

lemma lower_byte_not_upper [simp]: "\<not> is_upper (lower_byte c)"
  by (auto simp: lower_byte_def is_upper_def)

lemma upper_byte_not_lower [simp]: "\<not> is_lower (upper_byte c)"
  by (auto simp: upper_byte_def is_lower_def)

lemma lower_byte_idem [simp]: "lower_byte (lower_byte c) = lower_byte c"
  using lower_byte_not_upper [of c] by (simp add: lower_byte_def [of "lower_byte c"])

lemma upper_byte_idem [simp]: "upper_byte (upper_byte c) = upper_byte c"
  using upper_byte_not_lower [of c] by (simp add: upper_byte_def [of "upper_byte c"])

lemma lower_byte_id [simp]: "\<not> is_upper c \<Longrightarrow> lower_byte c = c"
  by (simp add: lower_byte_def)

lemma upper_byte_id [simp]: "\<not> is_lower c \<Longrightarrow> upper_byte c = c"
  by (simp add: upper_byte_def)

lemma to_lower_idem [simp]: "to_lower (to_lower s) = to_lower s"
  by (simp add: to_lower_def)

lemma to_upper_idem [simp]: "to_upper (to_upper s) = to_upper s"
  by (simp add: to_upper_def)

lemma to_lower_append [simp]: "to_lower (s @ t) = to_lower s @ to_lower t"
  by (simp add: to_lower_def)

lemma to_lower_Nil [simp]: "to_lower [] = []"
  by (simp add: to_lower_def)

lemma to_lower_eq_Nil [simp]: "to_lower s = [] \<longleftrightarrow> s = []"
  by (simp add: to_lower_def)

section \<open>Prefixes and suffixes\<close>

definition has_prefix :: "string \<Rightarrow> string \<Rightarrow> bool" where
  "has_prefix s p \<longleftrightarrow> take (length p) s = p"

definition has_suffix :: "string \<Rightarrow> string \<Rightarrow> bool" where
  "has_suffix s p \<longleftrightarrow> length p \<le> length s \<and> drop (length s - length p) s = p"

definition cut_prefix :: "string \<Rightarrow> string \<Rightarrow> string option" where
  "cut_prefix s p = (if has_prefix s p then Some (drop (length p) s) else None)"

definition trim_prefix :: "string \<Rightarrow> string \<Rightarrow> string" where
  "trim_prefix s p = (if has_prefix s p then drop (length p) s else s)"

definition trim_suffix :: "string \<Rightarrow> string \<Rightarrow> string" where
  "trim_suffix s p = (if has_suffix s p then take (length s - length p) s else s)"

declare has_prefix_def [go_eval] has_suffix_def [go_eval] cut_prefix_def [go_eval]
  trim_prefix_def [go_eval] trim_suffix_def [go_eval]

lemma has_prefix_append [simp]: "has_prefix (p @ s) p"
  by (simp add: has_prefix_def)

lemma has_prefix_Nil [simp]: "has_prefix s []"
  by (simp add: has_prefix_def)

lemma has_prefix_Cons [simp]:
  "has_prefix (c # s) (d # p) \<longleftrightarrow> c = d \<and> has_prefix s p"
  "\<not> has_prefix [] (d # p)"
  by (auto simp: has_prefix_def)

lemma has_prefixE: "has_prefix s p \<Longrightarrow> (\<And>t. s = p @ t \<Longrightarrow> thesis) \<Longrightarrow> thesis"
  by (metis append_take_drop_id has_prefix_def)

lemma has_prefix_iff: "has_prefix s p \<longleftrightarrow> (\<exists>t. s = p @ t)"
  by (auto elim: has_prefixE)

lemma has_suffix_append [simp]: "has_suffix (s @ p) p"
  by (simp add: has_suffix_def)

lemma has_suffix_iff: "has_suffix s p \<longleftrightarrow> (\<exists>t. s = t @ p)"
  by (auto simp: has_suffix_def) (metis append_take_drop_id)

lemma has_suffix_single: "has_suffix s [c] \<longleftrightarrow> s \<noteq> [] \<and> last s = c"
  by (auto simp: has_suffix_iff) (metis append_butlast_last_id)

lemma cut_prefix_append [simp]: "cut_prefix (p @ s) p = Some s"
  by (simp add: cut_prefix_def)

lemma cut_prefix_SomeD: "cut_prefix s p = Some t \<Longrightarrow> s = p @ t"
  by (auto simp: cut_prefix_def has_prefix_iff split: if_splits)

lemma trim_prefix_append [simp]: "trim_prefix (p @ s) p = s"
  by (simp add: trim_prefix_def)

lemma trim_suffix_append [simp]: "trim_suffix (s @ p) p = s"
  by (simp add: trim_suffix_def)

section \<open>Searching\<close>

text \<open>The first position of a byte satisfying a predicate (\<open>strings.IndexAny\<close>, \<open>IndexByte\<close>).\<close>

fun index_where :: "(char \<Rightarrow> bool) \<Rightarrow> string \<Rightarrow> nat option" where
  "index_where P [] = None"
| "index_where P (c # s) = (if P c then Some 0 else map_option Suc (index_where P s))"

text \<open>The last position of a byte (\<open>strings.LastIndex\<close> with a one-byte separator).\<close>

fun last_index :: "char \<Rightarrow> string \<Rightarrow> nat option" where
  "last_index d [] = None"
| "last_index d (c # s) =
     (case last_index d s of Some i \<Rightarrow> Some (Suc i) | None \<Rightarrow> if c = d then Some 0 else None)"

definition contains_any :: "string \<Rightarrow> string \<Rightarrow> bool" where
  "contains_any s cs \<longleftrightarrow> list_ex (\<lambda>c. c \<in> set cs) s"

text \<open>\<open>strings.Contains\<close>: some suffix of the string starts with the needle.\<close>

fun contains :: "string \<Rightarrow> string \<Rightarrow> bool" where
  "contains [] p \<longleftrightarrow> p = []"
| "contains (c # s) p \<longleftrightarrow> has_prefix (c # s) p \<or> contains s p"

declare contains_any_def [go_eval]

lemma contains_iff: "contains s p \<longleftrightarrow> (\<exists>a b. s = a @ p @ b)"
proof (induction s)
  case Nil
  then show ?case by auto
next
  case (Cons c s)
  show ?case
  proof
    assume "contains (c # s) p"
    then consider "has_prefix (c # s) p" | "contains s p" by auto
    then show "\<exists>a b. c # s = a @ p @ b"
    proof cases
      case 1
      then show ?thesis by (metis append_Nil has_prefix_iff)
    next
      case 2
      then show ?thesis using Cons.IH by (metis append_Cons)
    qed
  next
    assume "\<exists>a b. c # s = a @ p @ b"
    then obtain a b where ab: "c # s = a @ p @ b" by blast
    show "contains (c # s) p"
    proof (cases a)
      case Nil
      with ab have "has_prefix (c # s) p" by (auto simp: has_prefix_iff)
      then show ?thesis by simp
    next
      case (Cons x a')
      with ab have "s = a' @ p @ b" by simp
      then show ?thesis using Cons.IH by auto
    qed
  qed
qed

lemma index_where_takeWhile:
  "(case index_where P s of Some i \<Rightarrow> take i s | None \<Rightarrow> s) = takeWhile (\<lambda>c. \<not> P c) s"
  by (induction s) (auto split: option.splits)

lemma index_where_None: "index_where P s = None \<longleftrightarrow> (\<forall>c \<in> set s. \<not> P c)"
  by (induction s) auto

lemma index_where_SomeD: "index_where P s = Some i \<Longrightarrow> i < length s \<and> P (s ! i)"
  by (induction s arbitrary: i) (auto split: if_splits)

lemma last_index_None: "last_index d s = None \<longleftrightarrow> d \<notin> set s"
  by (induction s) (auto split: option.splits)

lemma last_index_append: "d \<notin> set t \<Longrightarrow> last_index d (s @ d # t) = Some (length s)"
  by (induction s) (auto simp: last_index_None [symmetric])

lemma last_index_SomeD:
  "last_index d s = Some i \<Longrightarrow> i < length s \<and> s = take i s @ d # drop (Suc i) s \<and> d \<notin> set (drop (Suc i) s)"
  by (induction s arbitrary: i) (auto split: option.splits if_splits simp: last_index_None)

section \<open>Trimming\<close>

definition trim_left :: "(char \<Rightarrow> bool) \<Rightarrow> string \<Rightarrow> string" where
  "trim_left P s = dropWhile P s"

definition trim_right :: "(char \<Rightarrow> bool) \<Rightarrow> string \<Rightarrow> string" where
  "trim_right P s = rev (dropWhile P (rev s))"

definition trim_both :: "(char \<Rightarrow> bool) \<Rightarrow> string \<Rightarrow> string" where
  "trim_both P s = trim_right P (trim_left P s)"

definition trim_space :: "string \<Rightarrow> string" where
  "trim_space s = trim_both is_space s"

declare trim_left_def [go_eval] trim_right_def [go_eval] trim_both_def [go_eval]
  trim_space_def [go_eval]

lemma trim_right_Nil [simp]: "trim_right P [] = []"
  by (simp add: trim_right_def)

lemma trim_left_Nil [simp]: "trim_left P [] = []"
  by (simp add: trim_left_def)

lemma trim_right_prefix: "\<exists>t. s = trim_right P s @ t \<and> (\<forall>c \<in> set t. P c)"
proof -
  have "rev s = takeWhile P (rev s) @ dropWhile P (rev s)" by simp
  then have "s = trim_right P s @ rev (takeWhile P (rev s))"
    by (metis rev_append rev_rev_ident trim_right_def)
  then show ?thesis by (metis set_rev set_takeWhileD)
qed

lemma trim_right_last: "trim_right P s \<noteq> [] \<Longrightarrow> \<not> P (last (trim_right P s))"
  by (simp add: trim_right_def last_rev hd_dropWhile del: dropWhile_eq_Nil_conv)

lemma trim_right_id: "s = [] \<or> \<not> P (last s) \<Longrightarrow> trim_right P s = s"
  by (cases s rule: rev_cases) (auto simp: trim_right_def)

lemma trim_left_id: "s = [] \<or> \<not> P (hd s) \<Longrightarrow> trim_left P s = s"
  by (cases s) (auto simp: trim_left_def)

lemma trim_left_hd: "trim_left P s \<noteq> [] \<Longrightarrow> \<not> P (hd (trim_left P s))"
  by (simp add: trim_left_def hd_dropWhile del: dropWhile_eq_Nil_conv)

lemma trim_right_hd: "trim_right P s \<noteq> [] \<Longrightarrow> hd (trim_right P s) = hd s"
  by (metis hd_append2 trim_right_prefix)

lemma trim_both_hd: "trim_both P s \<noteq> [] \<Longrightarrow> \<not> P (hd (trim_both P s))"
  unfolding trim_both_def
  by (metis trim_left_hd trim_right_Nil trim_right_hd)

lemma trim_both_last: "trim_both P s \<noteq> [] \<Longrightarrow> \<not> P (last (trim_both P s))"
  unfolding trim_both_def by (rule trim_right_last)

lemma trim_both_id: "s = [] \<or> (\<not> P (hd s) \<and> \<not> P (last s)) \<Longrightarrow> trim_both P s = s"
  by (auto simp: trim_both_def trim_left_id trim_right_id)

lemma trim_both_idem [simp]: "trim_both P (trim_both P s) = trim_both P s"
  by (rule trim_both_id) (use trim_both_hd trim_both_last in blast)

lemma trim_space_idem [simp]: "trim_space (trim_space s) = trim_space s"
  by (simp add: trim_space_def)

lemma set_trim_right: "set (trim_right P s) \<subseteq> set s"
  by (metis set_append sup_ge1 trim_right_prefix)

lemma set_trim_both: "set (trim_both P s) \<subseteq> set s"
  unfolding trim_both_def trim_left_def
  by (meson set_dropWhileD set_trim_right subsetD subsetI)

lemma set_trim_space: "set (trim_space s) \<subseteq> set s"
  by (simp add: trim_space_def set_trim_both)

section \<open>Splitting and joining\<close>

text \<open>\<open>strings.Split\<close> with a one-byte separator; never empty.\<close>

fun split_on :: "char \<Rightarrow> string \<Rightarrow> string list" where
  "split_on d [] = [[]]"
| "split_on d (c # s) =
     (if c = d then [] # split_on d s
      else case split_on d s of [] \<Rightarrow> [[c]] | h # t \<Rightarrow> (c # h) # t)"

fun join_with :: "string \<Rightarrow> string list \<Rightarrow> string" where
  "join_with sep [] = []"
| "join_with sep [x] = x"
| "join_with sep (x # y # ys) = x @ sep @ join_with sep (y # ys)"

text \<open>\<open>strings.FieldsFunc\<close>: the maximal runs of bytes that are not separators.\<close>

fun fields_run :: "(char \<Rightarrow> bool) \<Rightarrow> string \<Rightarrow> string \<Rightarrow> string list" where
  "fields_run P cur [] = (if cur = [] then [] else [rev cur])"
| "fields_run P cur (c # s) =
     (if P c then (if cur = [] then fields_run P [] s else rev cur # fields_run P [] s)
      else fields_run P (c # cur) s)"

definition fields_func :: "(char \<Rightarrow> bool) \<Rightarrow> string \<Rightarrow> string list" where
  "fields_func P s = fields_run P [] s"

definition fields :: "string \<Rightarrow> string list" where
  "fields s = fields_func is_space s"

declare fields_func_def [go_eval] fields_def [go_eval]

lemma split_on_not_Nil [simp]: "split_on d s \<noteq> []"
  by (cases s) (auto split: list.splits)

lemma join_split_on [simp]: "join_with [d] (split_on d s) = s"
proof (induction s)
  case Nil
  then show ?case by simp
next
  case (Cons c s)
  obtain h t where ht: "split_on d s = h # t" by (meson neq_Nil_conv split_on_not_Nil)
  with Cons show ?case by (cases t) auto
qed

lemma split_on_notin: "seg \<in> set (split_on d s) \<Longrightarrow> d \<notin> set seg"
  by (induction s arbitrary: seg) (auto split: list.splits if_splits)

lemma split_on_subset: "seg \<in> set (split_on d s) \<Longrightarrow> set seg \<subseteq> set s"
proof (induction s arbitrary: seg)
  case Nil
  then show ?case by simp
next
  case (Cons c s)
  obtain h t where ht: "split_on d s = h # t" by (meson neq_Nil_conv split_on_not_Nil)
  with Cons.IH have "set h \<subseteq> set s" "\<And>x. x \<in> set t \<Longrightarrow> set x \<subseteq> set s" by auto
  with ht Cons.prems show ?case by (cases "c = d") auto
qed

lemma split_on_prepend: "d \<notin> set x \<Longrightarrow> split_on d (x @ d # s) = x # split_on d s"
  by (induction x) auto

lemma split_on_id: "d \<notin> set x \<Longrightarrow> split_on d x = [x]"
  by (induction x) auto

text \<open>A separator that cannot occur in the first, or in the last, part fixes both parts.\<close>

lemma split_on_head:
  assumes "a @ d # s = b @ d # t" and "d \<notin> set a" and "d \<notin> set b"
  shows "a = b \<and> s = t"
  using assms
proof (induction a arbitrary: b)
  case Nil
  then show ?case by (cases b) auto
next
  case (Cons c a)
  then show ?case by (cases b) auto
qed

lemma split_on_tail:
  assumes "a @ d # s = b @ d # t" and "d \<notin> set s" and "d \<notin> set t"
  shows "a = b \<and> s = t"
proof -
  have "rev s @ d # rev a = rev t @ d # rev b" using arg_cong [OF assms(1), of rev] by simp
  then show ?thesis using split_on_head [of "rev s" d "rev a" "rev t" "rev b"] assms(2,3) by simp
qed

lemma split_on_join:
  "xs \<noteq> [] \<Longrightarrow> (\<And>x. x \<in> set xs \<Longrightarrow> d \<notin> set x) \<Longrightarrow> split_on d (join_with [d] xs) = xs"
  by (induction "[d]" xs rule: join_with.induct) (auto simp: split_on_prepend split_on_id)

lemma set_join_with: "set (join_with sep xs) \<subseteq> set sep \<union> (\<Union>x \<in> set xs. set x)"
  by (induction sep xs rule: join_with.induct) auto

lemma fields_run_pure:
  "f \<in> set (fields_run P cur s) \<Longrightarrow> (\<forall>c \<in> set cur. \<not> P c) \<Longrightarrow> f \<noteq> [] \<and> (\<forall>c \<in> set f. \<not> P c)"
proof (induction s arbitrary: cur)
  case Nil
  then show ?case by (auto split: if_splits)
next
  case (Cons c s)
  show ?case
  proof (cases "P c")
    case False
    then have "f \<in> set (fields_run P (c # cur) s)" and "\<forall>d \<in> set (c # cur). \<not> P d"
      using Cons.prems by auto
    then show ?thesis by (rule Cons.IH)
  next
    case True
    then have "f = rev cur \<and> cur \<noteq> [] \<or> f \<in> set (fields_run P [] s)"
      using Cons.prems(1) by (simp split: if_splits)
    then show ?thesis using Cons.IH [of "[]"] Cons.prems(2) by (metis empty_iff rev_is_Nil_conv set_empty set_rev)
  qed
qed

lemma fields_func_pure: "f \<in> set (fields_func P s) \<Longrightarrow> f \<noteq> [] \<and> (\<forall>c \<in> set f. \<not> P c)"
  unfolding fields_func_def by (rule fields_run_pure) auto

lemma fields_run_all: "(\<forall>c \<in> set s. \<not> P c) \<Longrightarrow>
    fields_run P cur s = (if rev cur @ s = [] then [] else [rev cur @ s])"
  by (induction s arbitrary: cur) auto

lemma fields_run_append:
  "(\<forall>c \<in> set s. \<not> P c) \<Longrightarrow> s \<noteq> [] \<or> cur \<noteq> [] \<Longrightarrow> P d \<Longrightarrow>
   fields_run P cur (s @ d # t) = (rev cur @ s) # fields_run P [] t"
  by (induction s arbitrary: cur) auto

lemma fields_func_single: "s \<noteq> [] \<Longrightarrow> (\<forall>c \<in> set s. \<not> P c) \<Longrightarrow> fields_func P s = [s]"
  by (simp add: fields_func_def fields_run_all)

lemma fields_func_Nil [simp]: "fields_func P [] = []"
  by (simp add: fields_func_def)

lemma concat_fields_run:
  "concat (fields_run P cur s) = rev cur @ filter (\<lambda>c. \<not> P c) s"
  by (induction P cur s rule: fields_run.induct) auto

lemma concat_fields_func: "concat (fields_func P s) = filter (\<lambda>c. \<not> P c) s"
  by (simp add: fields_func_def concat_fields_run)

section \<open>Decimal numerals\<close>

text \<open>\<open>strconv.Itoa\<close> and the \<open>%d\<close> of \<open>fmt.Sprintf\<close>.\<close>

fun dec_nat :: "nat \<Rightarrow> string" where
  "dec_nat n = (if n < 10 then [char_of (48 + n)] else dec_nat (n div 10) @ [char_of (48 + n mod 10)])"

declare dec_nat.simps [simp del]

definition itoa :: "int \<Rightarrow> string" where
  "itoa i = (if i < 0 then CHR ''-'' # dec_nat (nat (- i)) else dec_nat (nat i))"

declare dec_nat.simps [go_eval] itoa_def [go_eval]

definition dec_value :: "string \<Rightarrow> nat" where
  "dec_value s = foldl (\<lambda>a c. 10 * a + (byte_of c - 48)) 0 s"

lemma dec_value_dec_nat: "dec_value (dec_nat n) = n"
proof (induction n rule: dec_nat.induct)
  case (1 n)
  then show ?case by (subst dec_nat.simps) (auto simp: dec_value_def byte_of_def)
qed

lemma dec_nat_digits: "c \<in> set (dec_nat n) \<Longrightarrow> is_digit c"
proof (induction n rule: dec_nat.induct)
  case (1 n)
  have "is_digit (char_of (48 + n mod 10 :: nat))"
    by (simp add: is_digit_def byte_of_def)
  moreover have "n < 10 \<Longrightarrow> is_digit (char_of (48 + n))" by (simp add: is_digit_def byte_of_def)
  ultimately show ?case using 1 by (subst (asm) dec_nat.simps) (auto split: if_splits)
qed

lemma dec_nat_not_Nil [simp]: "dec_nat n \<noteq> []"
  by (subst dec_nat.simps) simp

lemma itoa_bytes: "c \<in> set (itoa i) \<Longrightarrow> is_digit c \<or> c = CHR ''-''"
  by (auto simp: itoa_def dest: dec_nat_digits split: if_splits)

lemma itoa_no_colon: "CHR '':'' \<notin> set (itoa i)"
proof
  assume "CHR '':'' \<in> set (itoa i)"
  then have "is_digit CHR '':'' \<or> CHR '':'' = CHR ''-''" by (rule itoa_bytes)
  then show False by (simp add: is_digit_def byte_of_def)
qed

lemma dec_nat_inject [simp]: "dec_nat m = dec_nat n \<longleftrightarrow> m = n"
  by (metis dec_value_dec_nat)

lemma dec_nat_no_minus: "dec_nat n \<noteq> CHR ''-'' # s"
proof
  assume "dec_nat n = CHR ''-'' # s"
  then have "is_digit CHR ''-''" using dec_nat_digits by (metis list.set_intros(1))
  then show False by (simp add: is_digit_def byte_of_def)
qed

lemma itoa_inject [simp]: "itoa i = itoa j \<longleftrightarrow> i = j"
  using dec_nat_no_minus [of "nat i"] dec_nat_no_minus [of "nat j"]
  by (cases "i < 0"; cases "j < 0") (auto simp: itoa_def dest: sym)

section \<open>Finding and replacing texts\<close>

text \<open>\<open>strings.Index\<close>.\<close>

fun find_at :: "string \<Rightarrow> string \<Rightarrow> nat option" where
  "find_at p [] = (if p = [] then Some 0 else None)"
| "find_at p (c # cs) = (if has_prefix (c # cs) p then Some 0 else map_option Suc (find_at p cs))"

lemma find_at_bound: "find_at p s = Some i \<Longrightarrow> i + length p \<le> length s"
proof (induction s arbitrary: i)
  case (Cons c cs)
  then show ?case by (auto simp: has_prefix_def split: if_splits) (metis length_Cons length_take min_def nle_le)+
qed (auto split: if_splits)

text \<open>\<open>strings.ReplaceAll\<close> of a text that is not empty.\<close>

function replace_text :: "string \<Rightarrow> string \<Rightarrow> string \<Rightarrow> string" where
  "replace_text p new [] = []"
| "replace_text p new (c # cs) =
     (if p \<noteq> [] \<and> has_prefix (c # cs) p then new @ replace_text p new (drop (length p) (c # cs))
      else c # replace_text p new cs)"
  by pat_completeness auto
termination by (relation "measure (\<lambda>(p, new, s). length s)") (auto simp: has_prefix_iff)

text \<open>\<open>strings.Count\<close> of a byte.\<close>

definition count_byte :: "char \<Rightarrow> string \<Rightarrow> nat" where
  "count_byte c s = length (filter (\<lambda>b. b = c) s)"

end
