(* ===== verification/Contract_Ident.thy ===== *)
theory Contract_Ident
  imports Go_Strings
begin

text \<open>
  The identifier and signature vocabulary of \<open>internal/contract/ident.go\<close>: the normalisations
  that the indexer applies when it stores a name and the graph applies when it reads one back.
  Index loops over a byte slice become recursions over the remaining bytes that carry the
  previous byte; the accumulating slice is kept reversed.
\<close>

section \<open>Operations\<close>

definition norm_ident :: "string \<Rightarrow> string" where
  "norm_ident s = to_lower (filter (\<lambda>c. c \<noteq> CHR ''_'') (trim_space s))"

definition is_word_byte :: "char \<Rightarrow> bool" where
  "is_word_byte b \<longleftrightarrow> b = CHR ''_'' \<or> is_lower b \<or> is_upper b \<or> is_digit b"

text \<open>
  \<open>depth\<close> counts brackets and may go negative (the code never guards its decrement);
  \<open>angle\<close> counts generic parameter lists and is only decremented when positive.
\<close>

fun split_top :: "char \<Rightarrow> char option \<Rightarrow> int \<Rightarrow> nat \<Rightarrow> string \<Rightarrow> string \<Rightarrow> string list" where
  "split_top sep prev depth angle cur [] = [rev cur]"
| "split_top sep prev depth angle cur (c # s) =
     (if c \<in> {CHR ''('', CHR ''['', CHR ''{''} then
        split_top sep (Some c) (depth + 1) angle (c # cur) s
      else if c \<in> {CHR '')'', CHR '']'', CHR ''}''} then
        split_top sep (Some c) (depth - 1) angle (c # cur) s
      else if c = CHR ''<'' then
        split_top sep (Some c) depth
          (if (case prev of None \<Rightarrow> False | Some p \<Rightarrow> is_word_byte p) \<and>
              (case s of [] \<Rightarrow> False | n # _ \<Rightarrow> n \<noteq> CHR ''='' \<and> n \<noteq> CHR ''<'')
           then angle + 1 else angle) (c # cur) s
      else if c = CHR ''>'' then
        split_top sep (Some c) depth (if 0 < angle then angle - 1 else angle) (c # cur) s
      else if c = sep \<and> depth = 0 \<and> angle = 0 then
        rev cur # split_top sep (Some c) depth angle [] s
      else split_top sep (Some c) depth angle (c # cur) s)"

definition split_top_level :: "string \<Rightarrow> char \<Rightarrow> string list" where
  "split_top_level s sep = split_top sep None 0 0 [] s"

text \<open>One iteration of the loop of \<open>ParamNames\<close>: the name a part contributes, if any.\<close>

definition param_name :: "string \<Rightarrow> string \<Rightarrow> string option" where
  "param_name language part0 =
     (let part1 = trim_space part0 in
      if part1 = [] then None
      else
        let pieces = split_top_level part1 CHR ''='';
            part = (if length pieces > 1 then trim_space (hd pieces) else part1)
        in if length pieces > 1 \<and> part = [] then None
           else if language = ''java'' \<or> language = ''csharp'' then
             (let fs = fields part in
              if fs = [] then None
              else Some (trim_left (\<lambda>c. c \<in> set ''*&@.'') (last fs)))
           else
             let name = (case index_where (\<lambda>c. c \<in> set '' :?'') part of
                           None \<Rightarrow> part
                         | Some i \<Rightarrow> if i > 0 then take i part else part)
             in Some (trim_left (\<lambda>c. c \<in> set ''*&.'') name))"

definition param_names :: "string \<Rightarrow> string \<Rightarrow> string list" where
  "param_names language signature =
     (let sig = trim_suffix (trim_prefix (trim_space signature) ''('') '')'' in
      if sig = [] then []
      else
        let names = List.map_filter (param_name language) (split_top_level sig CHR '','')
        in if language = ''python'' \<and> names \<noteq> [] \<and> (hd names = ''self'' \<or> hd names = ''cls'')
           then tl names else names)"

definition ident_tokens :: "string \<Rightarrow> string list" where
  "ident_tokens s = fields_func (\<lambda>c. \<not> is_word_byte c) s"

definition last_component :: "string \<Rightarrow> string" where
  "last_component s =
     (case last_index CHR ''.'' s of
        Some i \<Rightarrow> trim_space (drop (i + 1) s)
      | None \<Rightarrow> trim_space s)"

definition flush_component :: "string \<Rightarrow> string list" where
  "flush_component cur = (if cur = [] then [] else [to_lower (rev cur)])"

text \<open>
  An upper-case letter opens a new component when it follows a byte that is not upper-case
  (\<open>userId\<close>) or closes an acronym (\<open>HTTPServer\<close>).
\<close>

definition opens_component :: "char option \<Rightarrow> char \<Rightarrow> string \<Rightarrow> bool" where
  "opens_component prev r rs \<longleftrightarrow>
     is_upper r \<and>
     (case prev of
        None \<Rightarrow> False
      | Some p \<Rightarrow> \<not> is_upper p \<or> (case rs of [] \<Rightarrow> False | n # _ \<Rightarrow> is_lower n))"

fun split_comp :: "char option \<Rightarrow> string \<Rightarrow> string \<Rightarrow> string list" where
  "split_comp prev cur [] = flush_component cur"
| "split_comp prev cur (r # rs) =
     (if r = CHR ''_'' then flush_component cur @ split_comp (Some r) [] rs
      else if opens_component prev r rs then flush_component cur @ split_comp (Some r) [r] rs
      else split_comp (Some r) (r # cur) rs)"

definition split_components :: "string \<Rightarrow> string list" where
  "split_components tok = split_comp None [] tok"

definition token_components :: "string \<Rightarrow> string list list" where
  "token_components s = filter (\<lambda>comps. comps \<noteq> []) (map split_components (ident_tokens s))"

definition word_components :: "string \<Rightarrow> string list" where
  "word_components s = concat (token_components s)"

declare norm_ident_def [go_eval] is_word_byte_def [go_eval] split_top_level_def [go_eval]
  param_name_def [go_eval] param_names_def [go_eval] ident_tokens_def [go_eval]
  last_component_def [go_eval] flush_component_def [go_eval] opens_component_def [go_eval]
  split_components_def [go_eval]
  token_components_def [go_eval] word_components_def [go_eval]

section \<open>Splitting at the top level\<close>

lemma split_top_not_Nil [simp]: "split_top sep prev d a cur s \<noteq> []"
  by (induction sep prev d a cur s rule: split_top.induct) auto

lemma join_Cons: "xs \<noteq> [] \<Longrightarrow> join_with sep (x # xs) = x @ sep @ join_with sep xs"
  by (cases xs) auto

lemma join_split_top: "join_with [sep] (split_top sep prev d a cur s) = rev cur @ s"
  by (induction sep prev d a cur s rule: split_top.induct) (auto simp: join_Cons)

text \<open>A string without brackets is cut at every separator, as \<open>strings.Split\<close> cuts it.\<close>

abbreviation bracket :: "char \<Rightarrow> bool" where
  "bracket c \<equiv> c \<in> set ''()[]{}<>''"

lemma split_top_flat:
  "(\<forall>c \<in> set s. \<not> bracket c) \<Longrightarrow>
   split_top sep prev 0 0 cur s = (rev cur @ hd (split_on sep s)) # tl (split_on sep s)"
proof (induction s arbitrary: prev cur)
  case Nil
  then show ?case by simp
next
  case (Cons c s)
  obtain h t where ht: "split_on sep s = h # t" by (meson neq_Nil_conv split_on_not_Nil)
  show ?case
  proof (cases "c = sep")
    case True
    with Cons ht show ?thesis by auto
  next
    case False
    with Cons ht show ?thesis by auto
  qed
qed

section \<open>Components of identifiers\<close>

lemma is_word_byte_lower [simp]: "is_word_byte (lower_byte c) = is_word_byte c"
  by (auto simp: is_word_byte_def lower_byte_def is_lower_def is_upper_def is_digit_def)

lemma lower_byte_underscore [simp]: "lower_byte c = CHR ''_'' \<longleftrightarrow> c = CHR ''_''"
proof (cases "is_upper c")
  case True
  then have "byte_of (lower_byte c) \<noteq> byte_of CHR ''_''" and "byte_of c \<noteq> byte_of CHR ''_''"
    by (auto simp: lower_byte_def is_upper_def byte_of_def)
  then show ?thesis by auto
next
  case False
  then show ?thesis by simp
qed

definition component :: "string \<Rightarrow> bool" where
  "component w \<longleftrightarrow> w \<noteq> [] \<and> (\<forall>c \<in> set w. is_word_byte c \<and> \<not> is_upper c \<and> c \<noteq> CHR ''_'')"

lemma component_flush:
  "(\<forall>c \<in> set cur. is_word_byte c \<and> c \<noteq> CHR ''_'') \<Longrightarrow> w \<in> set (flush_component cur) \<Longrightarrow> component w"
  by (auto simp: flush_component_def component_def to_lower_def split: if_splits)

lemma split_comp_component:
  "(\<forall>c \<in> set s. is_word_byte c) \<Longrightarrow> (\<forall>c \<in> set cur. is_word_byte c \<and> c \<noteq> CHR ''_'') \<Longrightarrow>
   w \<in> set (split_comp prev cur s) \<Longrightarrow> component w"
proof (induction prev cur s rule: split_comp.induct)
  case (1 prev cur)
  then show ?case using component_flush by simp
next
  case (2 prev cur r rs)
  note flush = component_flush [OF "2.prems"(2)]
  consider "r = CHR ''_''" | "r \<noteq> CHR ''_''" "opens_component prev r rs"
    | "r \<noteq> CHR ''_''" "\<not> opens_component prev r rs" by blast
  then show ?case
  proof cases
    case 1
    then have "w \<in> set (flush_component cur) \<or> w \<in> set (split_comp (Some r) [] rs)"
      using "2.prems"(3) by simp
    then show ?thesis using flush "2.IH"(1) [OF 1] "2.prems" by fastforce
  next
    case 2
    then have "w \<in> set (flush_component cur) \<or> w \<in> set (split_comp (Some r) [r] rs)"
      using "2.prems"(3) by simp
    then show ?thesis using flush "2.IH"(2) [OF 2] "2.prems" 2 by fastforce
  next
    case 3
    then have "w \<in> set (split_comp (Some r) (r # cur) rs)" using "2.prems"(3) by simp
    then show ?thesis using "2.IH"(3) [OF 3] "2.prems" 3 by fastforce
  qed
qed

lemma concat_flush [simp]: "concat (flush_component cur) = to_lower (rev cur)"
  by (simp add: flush_component_def)

lemma concat_split_comp:
  "concat (split_comp prev cur s) =
     to_lower (rev cur) @ to_lower (filter (\<lambda>c. c \<noteq> CHR ''_'') s)"
  by (induction prev cur s rule: split_comp.induct) (simp_all add: to_lower_def)

lemma ident_tokens_word: "t \<in> set (ident_tokens s) \<Longrightarrow> t \<noteq> [] \<and> (\<forall>c \<in> set t. is_word_byte c)"
  unfolding ident_tokens_def by (drule fields_func_pure) auto

lemma word_components_concat:
  "word_components s = concat (map split_components (ident_tokens s))"
proof -
  have "concat (filter (\<lambda>comps. comps \<noteq> []) xss) = concat xss" for xss :: "string list list"
    by (induction xss) auto
  then show ?thesis by (simp add: word_components_def token_components_def)
qed

lemma word_components_component: "w \<in> set (word_components s) \<Longrightarrow> component w"
  unfolding word_components_concat split_components_def
  using split_comp_component [where cur = "[]"] ident_tokens_word by fastforce

lemma concat_word_components:
  "concat (word_components s) = to_lower (filter (\<lambda>c. is_word_byte c \<and> c \<noteq> CHR ''_'') s)"
proof -
  have "concat (concat (map split_components ts)) =
      to_lower (filter (\<lambda>c. c \<noteq> CHR ''_'') (concat ts))" for ts
    by (induction ts) (simp_all add: split_components_def concat_split_comp)
  then show ?thesis
    unfolding word_components_concat ident_tokens_def
    by (simp add: concat_fields_func conj_commute)
qed

text \<open>A component is read back as itself, and underscores separate.\<close>

lemma split_comp_run:
  "(\<forall>c \<in> set w. \<not> is_upper c \<and> c \<noteq> CHR ''_'') \<Longrightarrow>
   split_comp prev cur (w @ s) =
     split_comp (if w = [] then prev else Some (last w)) (rev w @ cur) s"
  by (induction w arbitrary: prev cur) (simp_all add: opens_component_def)

lemma to_lower_component: "component w \<Longrightarrow> to_lower w = w"
  by (simp add: component_def to_lower_def map_idI)

lemma split_comp_joined:
  "(\<forall>w \<in> set ws. component w) \<Longrightarrow> split_comp prev [] (join_with ''_'' ws) = ws"
proof (induction ws arbitrary: prev rule: induct_list012)
  case 1
  then show ?case by (simp add: flush_component_def)
next
  case (2 w)
  then have w: "component w" by simp
  then have nu: "\<forall>c \<in> set w. \<not> is_upper c \<and> c \<noteq> CHR ''_''" and ne: "w \<noteq> []"
    by (auto simp: component_def)
  show ?case
    using split_comp_run [OF nu, of prev "[]" "[]"] ne to_lower_component [OF w]
    by (simp add: flush_component_def)
next
  case (3 w v ws)
  then have w: "component w" by simp
  then have nu: "\<forall>c \<in> set w. \<not> is_upper c \<and> c \<noteq> CHR ''_''" and ne: "w \<noteq> []"
    by (auto simp: component_def)
  have "split_comp prev [] (join_with ''_'' (w # v # ws)) =
      flush_component (rev w) @ split_comp (Some CHR ''_'') [] (join_with ''_'' (v # ws))"
    using split_comp_run [OF nu, of prev "[]" "CHR ''_'' # join_with ''_'' (v # ws)"] by simp
  also have "\<dots> = w # v # ws"
    using 3 ne to_lower_component [OF w] by (simp add: flush_component_def)
  finally show ?case .
qed

lemma join_components_word:
  "(\<forall>w \<in> set ws. component w) \<Longrightarrow> c \<in> set (join_with ''_'' ws) \<Longrightarrow> is_word_byte c"
  using set_join_with [of "''_''" ws] by (auto simp: component_def is_word_byte_def)

lemma join_components_Nil:
  "(\<forall>w \<in> set ws. component w) \<Longrightarrow> join_with ''_'' ws = [] \<longleftrightarrow> ws = []"
  by (cases ws rule: list.exhaust; cases "tl ws") (auto simp: component_def)

lemma word_components_join:
  assumes "\<forall>w \<in> set ws. component w"
  shows "word_components (join_with ''_'' ws) = ws"
proof (cases "ws = []")
  case True
  then show ?thesis by (simp add: word_components_concat ident_tokens_def)
next
  case False
  with assms have "ident_tokens (join_with ''_'' ws) = [join_with ''_'' ws]"
    unfolding ident_tokens_def
    by (intro fields_func_single) (auto simp: join_components_Nil dest: join_components_word)
  with assms show ?thesis
    by (simp add: word_components_concat split_components_def split_comp_joined)
qed

text \<open>Separators at either end of a string carry no component.\<close>

lemma fields_run_dropWhile: "fields_run P [] (dropWhile P s) = fields_run P [] s"
  by (induction s) auto

lemma fields_run_seps: "(\<forall>d \<in> set t. P d) \<Longrightarrow> fields_run P cur (s @ t) = fields_run P cur s"
proof (induction s arbitrary: cur)
  case Nil
  have "fields_run P [] t = []" using Nil by (induction t) auto
  then show ?case using Nil by (cases t) auto
next
  case (Cons c s)
  then show ?case by simp
qed

lemma fields_func_trim_right:
  assumes "\<And>c. Q c \<Longrightarrow> P c"
  shows "fields_func P (trim_right Q s) = fields_func P s"
proof -
  obtain t where t: "s = trim_right Q s @ t" "\<forall>c \<in> set t. Q c"
    using trim_right_prefix by blast
  then show ?thesis
    unfolding fields_func_def using fields_run_seps [of t P "[]" "trim_right Q s"] assms by metis
qed

lemma fields_func_trim_left:
  assumes "\<And>c. Q c \<Longrightarrow> P c"
  shows "fields_func P (trim_left Q s) = fields_func P s"
  unfolding fields_func_def trim_left_def using assms by (induction s) auto

lemma not_word_byte [simp]: "is_space c \<Longrightarrow> \<not> is_word_byte c"
  by (auto simp: is_space_def is_word_byte_def is_lower_def is_upper_def is_digit_def byte_of_def)

lemma ident_tokens_trim_space: "ident_tokens (trim_space s) = ident_tokens s"
  unfolding ident_tokens_def trim_space_def trim_both_def
  by (simp add: fields_func_trim_right fields_func_trim_left)

section \<open>Signatures\<close>

lemma split_top_level_flat:
  "(\<forall>c \<in> set s. \<not> bracket c) \<Longrightarrow> split_top_level s sep = split_on sep s"
  by (simp add: split_top_level_def split_top_flat)

definition plain_name :: "string \<Rightarrow> bool" where
  "plain_name n \<longleftrightarrow> n \<noteq> [] \<and> (\<forall>c \<in> set n. is_word_byte c)"

lemma word_byte_plain:
  "is_word_byte c \<Longrightarrow>
     \<not> bracket c \<and> c \<noteq> CHR '','' \<and> c \<noteq> CHR ''='' \<and> \<not> is_space c \<and> c \<notin> set '' :?'' \<and> c \<notin> set ''*&@.''"
proof -
  assume w: "is_word_byte c"
  have "\<not> is_word_byte d" if "d \<in> set ''()[]{}<>,= :?*&@.''" for d
    using that by (auto simp: go_eval)
  with w show ?thesis using not_word_byte by fastforce
qed

lemma trim_space_plain:
  assumes "plain_name n" shows "trim_space (CHR '' '' # n) = n" and "trim_space n = n"
proof -
  have "\<not> is_space (hd n) \<and> \<not> is_space (last n)"
    using assms not_word_byte by (metis hd_in_set last_in_set plain_name_def)
  then show "trim_space n = n" by (simp add: trim_space_def trim_both_id)
  moreover have "trim_space (CHR '' '' # n) = trim_space n"
    by (simp add: trim_space_def trim_both_def trim_left_def is_space_def byte_of_def)
  ultimately show "trim_space (CHR '' '' # n) = n" by simp
qed

lemma param_name_plain:
  assumes n: "plain_name n" and p: "trim_space p = n"
  shows "param_name language p = Some n"
proof -
  have w: "\<forall>c \<in> set n. is_word_byte c" and ne: "n \<noteq> []" using n by (auto simp: plain_name_def)
  have split: "split_top_level n CHR ''='' = [n]"
    using w word_byte_plain by (subst split_top_level_flat) (fastforce, metis split_on_id)
  have idx: "index_where (\<lambda>c. c \<in> set '' :?'') n = None"
    using w word_byte_plain by (subst index_where_None) blast
  have flds: "fields n = [n]"
    unfolding fields_def using ne w word_byte_plain by (intro fields_func_single) auto
  have trim: "trim_left (\<lambda>c. c \<in> set ''*&@.'') n = n" "trim_left (\<lambda>c. c \<in> set ''*&.'') n = n"
    using ne w word_byte_plain [of "hd n"] by (auto intro!: trim_left_id)
  show ?thesis
    using ne split idx flds trim by (simp add: param_name_def Let_def p)
qed

fun spaced :: "string list \<Rightarrow> string list" where
  "spaced [] = []"
| "spaced (n # ns) = n # map ((#) CHR '' '') ns"

lemma join_spaced: "join_with '', '' ns = join_with '','' (spaced ns)"
proof -
  have tail: "join_with '', '' (n # ns) = join_with '','' (n # map ((#) CHR '' '') ns)" for n ns
  proof (induction ns arbitrary: n)
    case Nil
    then show ?case by simp
  next
    case (Cons m ms)
    then show ?case by (cases ms) auto
  qed
  show ?thesis using tail by (cases ns) simp_all
qed

lemma map_filter_Some: "(\<And>x. x \<in> set xs \<Longrightarrow> f x = Some (g x)) \<Longrightarrow> List.map_filter f xs = map g xs"
  by (induction xs) (simp_all add: List.map_filter_simps)

lemma map_filter_plain:
  assumes "\<forall>n \<in> set ns. plain_name n"
  shows "List.map_filter (param_name language) (spaced ns) = ns"
proof -
  have part: "param_name language p = Some (trim_space p)" if p: "p \<in> set (spaced ns)" for p
  proof -
    from p obtain n where n: "n \<in> set ns" "p = n \<or> p = CHR '' '' # n" by (cases ns) auto
    with assms have "plain_name n" "trim_space p = n" using trim_space_plain by auto
    then show ?thesis by (simp add: param_name_plain)
  qed
  have "List.map_filter (param_name language) (spaced ns) = map trim_space (spaced ns)"
    by (rule map_filter_Some) (rule part)
  also have "\<dots> = ns"
    using assms trim_space_plain by (cases ns) (simp_all add: map_idI)
  finally show ?thesis .
qed

lemma join_plain_Nil: "\<forall>n \<in> set ns. plain_name n \<Longrightarrow> join_with '', '' ns = [] \<Longrightarrow> ns = []"
  by (induction "'', ''" ns rule: join_with.induct) (simp_all add: plain_name_def)

lemma plain_name_chars:
  "plain_name n \<Longrightarrow> c \<in> set n \<Longrightarrow> \<not> bracket c \<and> c \<noteq> CHR '',''"
  using word_byte_plain unfolding plain_name_def by blast

lemma split_spaced:
  assumes ne: "ns \<noteq> []" and plain: "\<forall>n \<in> set ns. plain_name n"
  shows "split_top_level (join_with '', '' ns) CHR '','' = spaced ns"
proof -
  have "\<not> bracket c" if c: "c \<in> set (join_with '', '' ns)" for c
  proof -
    from c consider "c \<in> set '', ''" | n where "n \<in> set ns" "c \<in> set n"
      using set_join_with [of "'', ''" ns] by blast
    then show ?thesis
    proof cases
      case 1
      then show ?thesis by auto
    next
      case 2
      then show ?thesis using plain plain_name_chars by blast
    qed
  qed
  then have "split_top_level (join_with '', '' ns) CHR '','' = split_on CHR '','' (join_with '', '' ns)"
    by (intro split_top_level_flat) blast
  also have "\<dots> = split_on CHR '','' (join_with '','' (spaced ns))"
    by (simp only: join_spaced)
  also have "\<dots> = spaced ns"
  proof (rule split_on_join)
    show "spaced ns \<noteq> []" using ne by (cases ns) auto
    fix x
    assume "x \<in> set (spaced ns)"
    then obtain n where n: "n \<in> set ns" "x = n \<or> x = CHR '' '' # n" using ne by (cases ns) auto
    then have "CHR '','' \<notin> set n" using plain plain_name_chars by blast
    with n show "CHR '','' \<notin> set x" by auto
  qed
  finally show ?thesis .
qed

section \<open>Properties\<close>

text \<open>
  splitting a parameter list or an expression at its top-level separators loses nothing.
  Whatever the nesting of brackets and generic parameter lists, also when they are unbalanced,
  the parts joined with the separator are the input.
\<close>

theorem split_top_level_join: "join_with [sep] (split_top_level s sep) = s"
  by (simp add: split_top_level_def join_split_top)

text \<open>
  C9: the word decomposition is canonical. Spelling the components of any string in snake case
  and decomposing again gives the same components, so two sides of a join that spell one name as
  \<open>OrderItemRepo\<close>, \<open>order_item_repo\<close> or \<open>order.itemRepo\<close> meet in one normal form.
\<close>

theorem word_components_canonical:
  "word_components (join_with ''_'' (word_components s)) = word_components s"
  by (rule word_components_join) (blast intro: word_components_component)

text \<open>
  C15: the two normalisations of identifiers agree. For an identifier (surrounding white space
  aside) the underscore-free lower-case form of \<open>NormIdent\<close> is the concatenation of the word
  components, so identifiers with equal components are equal for \<open>NormIdent\<close>.
\<close>

theorem norm_ident_components:
  assumes "\<forall>c \<in> set (trim_space s). is_word_byte c"
  shows "norm_ident s = concat (word_components s)"
proof -
  have "concat (word_components s) = concat (word_components (trim_space s))"
    by (simp add: word_components_concat ident_tokens_trim_space)
  also have "\<dots> = to_lower (filter (\<lambda>c. is_word_byte c \<and> c \<noteq> CHR ''_'') (trim_space s))"
    by (rule concat_word_components)
  also have "filter (\<lambda>c. is_word_byte c \<and> c \<noteq> CHR ''_'') (trim_space s) =
      filter (\<lambda>c. c \<noteq> CHR ''_'') (trim_space s)"
    by (rule filter_cong) (use assms in simp_all)
  finally show ?thesis by (simp only: norm_ident_def)
qed

theorem norm_ident_components_witness:
  "norm_ident '' User_Id '' = concat (word_components '' User_Id '')
   \<and> norm_ident '' User_Id '' = ''userid''"
proof -
  have "\<forall>c \<in> set (trim_space '' User_Id ''). is_word_byte c" by (simp add: go_eval)
  from norm_ident_components [OF this] show ?thesis by (simp add: go_eval)
qed

text \<open>
  C14: a signature that lists bare parameter names yields exactly those names, in order and
  whatever the language, but for the receiver \<open>self\<close> or \<open>cls\<close> that Python keeps in the
  parameter list and not in the argument list.
\<close>

theorem param_names_bare:
  assumes "\<forall>n \<in> set ns. plain_name n"
  shows "param_names language (''('' @ join_with '', '' ns @ '')'') =
    (if language = ''python'' \<and> ns \<noteq> [] \<and> hd ns \<in> {''self'', ''cls''} then tl ns else ns)"
proof -
  let ?sig = "join_with '', '' ns"
  have "trim_space (''('' @ ?sig @ '')'') = ''('' @ ?sig @ '')''"
    unfolding trim_space_def by (rule trim_both_id) (simp add: is_space_def byte_of_def)
  then have sig: "trim_suffix (trim_prefix (trim_space (''('' @ ?sig @ '')'')) ''('') '')'' = ?sig"
    using trim_prefix_append [of "''(''" "?sig @ '')''"] trim_suffix_append [of ?sig "'')''"] by simp
  show ?thesis
  proof (cases "ns = []")
    case True
    then show ?thesis using sig by (simp add: param_names_def)
  next
    case False
    have "?sig \<noteq> []" using False assms join_plain_Nil by blast
    moreover have "split_top_level ?sig CHR '','' = spaced ns"
      using False assms by (rule split_spaced)
    ultimately show ?thesis
      using sig map_filter_plain [OF assms] unfolding param_names_def by (simp add: Let_def)
  qed
qed

theorem param_names_bare_witness:
  "param_names ''python'' (''('' @ join_with '', '' [''self'', ''user_id''] @ '')'') = [''user_id'']"
  by (subst param_names_bare) (simp_all add: plain_name_def go_eval)

end
