(* ===== verification/Contract_Keys.thy ===== *)
theory Contract_Keys
  imports Contract_Ident
begin

text \<open>
  The contract join keys of \<open>internal/contract/contract.go\<close>: how the indexer spells the key of
  an HTTP route, a gRPC method, a topic, a table or a configuration entry, and how the graph
  linker takes such a key apart. A Go parser that returns \<open>(value, ok)\<close> returns the pair here,
  with the value it returns when \<open>ok\<close> is false. A \<open>strings.Builder\<close> is the list appended to.
\<close>

section \<open>Kinds\<close>

datatype kind = KindGRPC | KindHTTP | KindTopic | KindDB | KindConfig

fun kind_string :: "kind \<Rightarrow> string" where
  "kind_string KindGRPC = ''grpc''"
| "kind_string KindHTTP = ''http''"
| "kind_string KindTopic = ''topic''"
| "kind_string KindDB = ''db''"
| "kind_string KindConfig = ''config''"

definition kind_prefix :: "kind \<Rightarrow> string" where
  "kind_prefix k = kind_string k @ '':''"

definition topic_ref_prefix :: string where
  "topic_ref_prefix = ''topic:${''"

section \<open>Constructors\<close>

definition mk_grpc :: "string \<Rightarrow> string \<Rightarrow> string" where
  "mk_grpc service meth = kind_string KindGRPC @ '':'' @ service @ ''/'' @ meth"

definition trim_query :: "string \<Rightarrow> string" where
  "trim_query path =
     (case index_where (\<lambda>c. c \<in> set ''?#'') path of Some i \<Rightarrow> take i path | None \<Rightarrow> path)"

text \<open>The scan of \<open>reduceSegment\<close>: \<open>depth\<close> counts open brace groups.\<close>

fun reduce_braces :: "nat \<Rightarrow> string \<Rightarrow> string" where
  "reduce_braces depth [] = []"
| "reduce_braces depth (r # rs) =
     (if r = CHR ''{'' then (if depth = 0 then ''{}'' else []) @ reduce_braces (depth + 1) rs
      else if r = CHR ''}'' then reduce_braces (if depth > 0 then depth - 1 else depth) rs
      else if depth = 0 then r # reduce_braces depth rs
      else reduce_braces depth rs)"

definition reduce_segment :: "string \<Rightarrow> string" where
  "reduce_segment seg =
     (case seg of
        [] \<Rightarrow> seg
      | c # _ \<Rightarrow>
          if c \<in> {CHR '':'', CHR ''<'', CHR ''[''} then ''{}''
          else if seg = ''*'' \<or> seg = ''**'' then ''{}''
          else if \<not> contains seg ''{'' then seg
          else reduce_braces 0 seg)"

definition reduce_path :: "string \<Rightarrow> string" where
  "reduce_path path =
     (if \<not> contains_any path ''{:<[*'' then path
      else join_with ''/'' (map reduce_segment (split_on CHR ''/'' path)))"

definition is_path_param :: "string \<Rightarrow> bool" where
  "is_path_param seg =
     (case seg of
        [] \<Rightarrow> False
      | c # _ \<Rightarrow>
          if c \<in> {CHR ''{'', CHR '':'', CHR ''['', CHR ''<''} then True
          else seg = ''*'' \<or> seg = ''**'')"

definition http_method :: "string \<Rightarrow> string" where
  "http_method meth =
     (let m = to_upper (trim_space meth) in if m = [] then ''ANY'' else m)"

definition http_path :: "string \<Rightarrow> string" where
  "http_path path =
     ''/'' @ trim_both (\<lambda>c. c = CHR ''/'') (trim_query (trim_space path))"

definition mk_http :: "string \<Rightarrow> string \<Rightarrow> string" where
  "mk_http meth path =
     kind_string KindHTTP @ '':'' @ http_method meth @ '' '' @ reduce_path (http_path path)"

definition mk_topic :: "string \<Rightarrow> string" where
  "mk_topic name = kind_string KindTopic @ '':'' @ name"

definition mk_topic_ref :: "string \<Rightarrow> string" where
  "mk_topic_ref ref = topic_ref_prefix @ ref @ ''}''"

definition mk_db :: "string \<Rightarrow> string" where
  "mk_db table = kind_string KindDB @ '':'' @ table"

definition mk_config :: "string \<Rightarrow> string" where
  "mk_config path = kind_string KindConfig @ '':'' @ path"

section \<open>Parsers\<close>

definition parse_grpc :: "string \<Rightarrow> string \<times> string \<times> bool" where
  "parse_grpc key =
     (case cut_prefix key (kind_prefix KindGRPC) of
        None \<Rightarrow> ([], [], False)
      | Some rest \<Rightarrow>
          (case last_index CHR ''/'' rest of
             None \<Rightarrow> ([], rest, rest \<noteq> [])
           | Some i \<Rightarrow> (take i rest, drop (i + 1) rest, drop (i + 1) rest \<noteq> [])))"

text \<open>\<open>strings.SplitN(rest, " ", 2)\<close> has two parts exactly when there is a space.\<close>

definition parse_http :: "string \<Rightarrow> string \<times> string \<times> bool" where
  "parse_http key =
     (case cut_prefix key (kind_prefix KindHTTP) of
        None \<Rightarrow> ([], [], False)
      | Some rest \<Rightarrow>
          (case index_where (\<lambda>c. c = CHR '' '') rest of
             None \<Rightarrow> ([], [], False)
           | Some i \<Rightarrow> (take i rest, trim_query (drop (i + 1) rest), True)))"

definition cut_kind :: "string \<Rightarrow> kind \<Rightarrow> string \<times> bool" where
  "cut_kind key k =
     (case cut_prefix key (kind_prefix k) of None \<Rightarrow> ([], False) | Some rest \<Rightarrow> (rest, True))"

definition parse_topic :: "string \<Rightarrow> string \<times> bool" where
  "parse_topic key = cut_kind key KindTopic"

definition parse_topic_ref :: "string \<Rightarrow> string \<times> bool" where
  "parse_topic_ref key =
     (if \<not> has_prefix key topic_ref_prefix \<or> \<not> has_suffix key ''}'' then ([], False)
      else (trim_suffix (trim_prefix key topic_ref_prefix) ''}'', True))"

definition parse_db :: "string \<Rightarrow> string \<times> bool" where
  "parse_db key = cut_kind key KindDB"

definition parse_config :: "string \<Rightarrow> string \<times> bool" where
  "parse_config key = cut_kind key KindConfig"

definition is_kind :: "string \<Rightarrow> kind \<Rightarrow> bool" where
  "is_kind key k = has_prefix key (kind_prefix k)"

definition trim_kind :: "string \<Rightarrow> kind \<Rightarrow> string" where
  "trim_kind key k = trim_prefix key (kind_prefix k)"

section \<open>Table names\<close>

definition is_vowel :: "char \<Rightarrow> bool" where
  "is_vowel b \<longleftrightarrow> b = CHR ''a'' \<or> b = CHR ''e'' \<or> b = CHR ''i'' \<or> b = CHR ''o'' \<or> b = CHR ''u''"

definition pluralize :: "string \<Rightarrow> string" where
  "pluralize s =
     (if s = [] then []
      else if has_suffix s ''s'' \<or> has_suffix s ''x'' \<or> has_suffix s ''z''
            \<or> has_suffix s ''ch'' \<or> has_suffix s ''sh'' then s @ ''es''
      else if has_suffix s ''y'' \<and> length s > 1 \<and> \<not> is_vowel (s ! (length s - 2))
      then take (length s - 1) s @ ''ies''
      else s @ ''s'')"

definition table_name :: "string \<Rightarrow> string" where
  "table_name entity =
     (let name0 = trim_left (\<lambda>c. c \<in> set ''*&'') (trim_space entity);
          name = (case last_index CHR ''.'' name0 of Some i \<Rightarrow> drop (i + 1) name0 | None \<Rightarrow> name0)
      in pluralize (join_with ''_'' (word_components name)))"

declare kind_prefix_def [go_eval] topic_ref_prefix_def [go_eval] mk_grpc_def [go_eval]
  trim_query_def [go_eval] reduce_segment_def [go_eval] reduce_path_def [go_eval]
  is_path_param_def [go_eval] http_method_def [go_eval] http_path_def [go_eval] mk_http_def [go_eval]
  mk_topic_def [go_eval] mk_topic_ref_def [go_eval] mk_db_def [go_eval] mk_config_def [go_eval]
  parse_grpc_def [go_eval] parse_http_def [go_eval] cut_kind_def [go_eval] parse_topic_def [go_eval]
  parse_topic_ref_def [go_eval] parse_db_def [go_eval] parse_config_def [go_eval]
  is_kind_def [go_eval] trim_kind_def [go_eval] is_vowel_def [go_eval] pluralize_def [go_eval]
  table_name_def [go_eval]

section \<open>Path reduction\<close>

lemma contains_single: "contains s [c] \<longleftrightarrow> c \<in> set s"
  by (auto simp: contains_iff in_set_conv_decomp)

lemma reduce_braces_twice [simp]: "reduce_braces 0 (reduce_braces d s) = reduce_braces d s"
  by (induction d s rule: reduce_braces.induct) auto

lemma set_reduce_braces: "set (reduce_braces d s) \<subseteq> set s \<union> {CHR ''{'', CHR ''}''}"
  by (induction d s rule: reduce_braces.induct) auto

lemma reduce_braces_brace: "CHR ''{'' \<in> set s \<Longrightarrow> CHR ''{'' \<in> set (reduce_braces 0 s)"
  by (induction s) auto

lemma reduce_braces_closed:
  "CHR ''{'' \<notin> set x \<Longrightarrow> CHR ''}'' \<notin> set x \<Longrightarrow> reduce_braces 1 (x @ CHR ''}'' # s) = reduce_braces 0 s"
  by (induction x) auto

lemma reduce_segment_values: "reduce_segment seg \<in> {seg, ''{}'', reduce_braces 0 seg}"
  by (cases seg) (simp_all add: reduce_segment_def)

lemma set_reduce_segment: "set (reduce_segment seg) \<subseteq> set seg \<union> {CHR ''{'', CHR ''}''}"
  using reduce_segment_values [of seg] set_reduce_braces [of 0 seg] by auto

lemma reduce_segment_plain:
  assumes "\<not> contains_any seg ''{:<[*''" shows "reduce_segment seg = seg"
proof (cases seg)
  case Nil
  then show ?thesis by (simp add: reduce_segment_def)
next
  case (Cons c t)
  have none: "x \<notin> set ''{:<[*''" if "x \<in> set seg" for x
    using assms that by (auto simp: contains_any_def list_ex_iff)
  then have "\<not> contains seg ''{''" unfolding contains_single by auto
  then show ?thesis using none [of c] Cons by (simp add: reduce_segment_def del: contains.simps)
qed

lemma reduce_path_alt:
  "reduce_path path = join_with ''/'' (map reduce_segment (split_on CHR ''/'' path))"
proof (cases "contains_any path ''{:<[*''")
  case True
  then show ?thesis by (simp add: reduce_path_def)
next
  case False
  have "reduce_segment seg = seg" if "seg \<in> set (split_on CHR ''/'' path)" for seg
    using split_on_subset [OF that] False
    by (intro reduce_segment_plain) (auto simp: contains_any_def list_ex_iff)
  then show ?thesis using False by (simp add: reduce_path_def map_idI)
qed

lemma reduce_segment_cases [consumes 1]:
  assumes "\<not> has_prefix seg ''}''"
  obtains (param) "reduce_segment seg = ''{}''" "is_path_param seg"
    | (literal) "reduce_segment seg = seg" "CHR ''{'' \<notin> set seg" "\<not> is_path_param seg"
    | (mixed) "reduce_segment seg = reduce_braces 0 seg" "CHR ''{'' \<in> set seg"
        "hd (reduce_braces 0 seg) = hd seg" "hd seg \<notin> {CHR '':'', CHR ''<'', CHR ''[''}" "seg \<noteq> []"
proof (cases seg)
  case Nil
  then show ?thesis using literal by (simp add: reduce_segment_def is_path_param_def)
next
  case (Cons c t)
  consider "c \<in> {CHR '':'', CHR ''<'', CHR ''[''} \<or> seg = ''*'' \<or> seg = ''**''"
    | "c \<notin> {CHR '':'', CHR ''<'', CHR ''[''}" "seg \<noteq> ''*''" "seg \<noteq> ''**''" "CHR ''{'' \<notin> set seg"
    | "c \<notin> {CHR '':'', CHR ''<'', CHR ''[''}" "seg \<noteq> ''*''" "seg \<noteq> ''**''" "CHR ''{'' \<in> set seg"
    by blast
  then show ?thesis
  proof cases
    case 1
    then show ?thesis using param Cons by (auto simp: reduce_segment_def is_path_param_def)
  next
    case 2
    then show ?thesis
      using literal Cons by (auto simp: reduce_segment_def is_path_param_def contains_single)
  next
    case 3
    then have "reduce_segment seg = reduce_braces 0 seg"
      using Cons by (simp only: reduce_segment_def contains_single list.case) simp
    then show ?thesis using mixed 3 Cons assms by auto
  qed
qed

lemma reduce_segment_idem:
  assumes "\<not> has_prefix seg ''}''" shows "reduce_segment (reduce_segment seg) = reduce_segment seg"
  using assms
proof (cases seg rule: reduce_segment_cases)
  case param
  then show ?thesis by (simp add: go_eval)
next
  case literal
  then show ?thesis by simp
next
  case mixed
  let ?r = "reduce_braces 0 seg"
  have brace: "CHR ''{'' \<in> set ?r" using mixed(2) by (rule reduce_braces_brace)
  then obtain c t where ct: "?r = c # t" by (cases ?r) auto
  with mixed(3,4) have "c \<notin> {CHR '':'', CHR ''<'', CHR ''[''}" by simp
  with brace ct have "reduce_segment ?r = reduce_braces 0 ?r"
    unfolding reduce_segment_def by (auto simp: contains_single)
  with mixed(1) show ?thesis by simp
qed

lemma slash_free_reduce: "CHR ''/'' \<notin> set seg \<Longrightarrow> CHR ''/'' \<notin> set (reduce_segment seg)"
  using set_reduce_segment [of seg] by auto

lemma split_reduce_path:
  "split_on CHR ''/'' (reduce_path path) = map reduce_segment (split_on CHR ''/'' path)"
  unfolding reduce_path_alt
  by (rule split_on_join) (auto intro!: slash_free_reduce dest: split_on_notin)

lemma set_reduce_path: "set (reduce_path path) \<subseteq> set path \<union> {CHR ''/'', CHR ''{'', CHR ''}''}"
  unfolding reduce_path_alt
  using set_join_with [of "''/''" "map reduce_segment (split_on CHR ''/'' path)"]
    set_reduce_segment split_on_subset by fastforce

lemma reduce_path_eq_iff:
  "reduce_path p = reduce_path q \<longleftrightarrow>
     map reduce_segment (split_on CHR ''/'' p) = map reduce_segment (split_on CHR ''/'' q)"
  by (metis reduce_path_alt split_reduce_path)

section \<open>Query strings and the HTTP key\<close>

lemma trim_query_takeWhile: "trim_query p = takeWhile (\<lambda>c. c \<notin> set ''?#'') p"
  unfolding trim_query_def by (rule index_where_takeWhile)

lemma trim_query_id: "(\<forall>c \<in> set p. c \<notin> set ''?#'') \<Longrightarrow> trim_query p = p"
  unfolding trim_query_takeWhile by (rule takeWhile_id) blast

lemma http_path_no_query: "c \<in> set (http_path p) \<Longrightarrow> c \<notin> set ''?#''"
proof -
  assume "c \<in> set (http_path p)"
  then have "c = CHR ''/'' \<or> c \<in> set (trim_query (trim_space p))"
    using set_trim_both by (auto simp: http_path_def)
  then show ?thesis by (auto simp: trim_query_takeWhile dest: set_takeWhileD)
qed

lemma trim_query_http_path: "trim_query (reduce_path (http_path p)) = reduce_path (http_path p)"
  by (rule trim_query_id) (use set_reduce_path [of "http_path p"] http_path_no_query in fastforce)

lemma index_where_append:
  "(\<forall>c \<in> set x. \<not> P c) \<Longrightarrow> P d \<Longrightarrow> index_where P (x @ d # s) = Some (length x)"
  by (induction x) auto

lemma parse_mk_http:
  assumes "CHR '' '' \<notin> set (http_method m)"
  shows "parse_http (mk_http m p) = (http_method m, reduce_path (http_path p), True)"
proof -
  let ?rest = "http_method m @ '' '' @ reduce_path (http_path p)"
  have "cut_prefix (mk_http m p) (kind_prefix KindHTTP) = Some ?rest"
    using cut_prefix_append [of "kind_prefix KindHTTP" ?rest] by (simp add: mk_http_def kind_prefix_def)
  moreover have "index_where (\<lambda>c. c = CHR '' '') ?rest = Some (length (http_method m))"
    using assms by (auto intro!: index_where_append)
  ultimately show ?thesis by (simp add: parse_http_def trim_query_http_path)
qed

section \<open>Keys that are a prefix and a value\<close>

text \<open>
  What a client of a one-value key relies on: the parser accepts exactly what the constructor
  builds. Topics, tables and configuration entries provide it.
\<close>

locale value_key =
  fixes mk :: "string \<Rightarrow> string" and parse :: "string \<Rightarrow> string \<times> bool" and k :: kind
  assumes parse_mk: "parse (mk x) = (x, True)"
    and parse_Some: "parse key = (x, True) \<Longrightarrow> key = mk x"
    and parse_foreign: "\<not> is_kind key k \<Longrightarrow> parse key = ([], False)"
    and mk_kind: "is_kind (mk x) k"
begin

lemma parse_iff: "parse key = (x, True) \<longleftrightarrow> key = mk x"
  using parse_mk parse_Some by blast

lemma mk_inject: "mk x = mk y \<longleftrightarrow> x = y"
  using parse_mk by (metis prod.inject)

lemma parse_ok_iff: "snd (parse key) \<longleftrightarrow> (\<exists>x. key = mk x)"
  by (metis parse_iff prod.collapse snd_conv)

end

lemma cut_kind_mk: "cut_kind (kind_string k @ '':'' @ x) k = (x, True)"
  using cut_prefix_append [of "kind_prefix k" x] by (simp add: cut_kind_def kind_prefix_def)

lemma cut_kind_Some: "cut_kind key k = (x, True) \<Longrightarrow> key = kind_string k @ '':'' @ x"
  by (auto simp: cut_kind_def kind_prefix_def dest: cut_prefix_SomeD split: option.splits)

lemma cut_kind_foreign: "\<not> is_kind key k \<Longrightarrow> cut_kind key k = ([], False)"
  by (simp add: cut_kind_def is_kind_def cut_prefix_def)

lemma is_kind_mk: "is_kind (kind_string k @ '':'' @ x) k"
  using has_prefix_append [of "kind_prefix k" x] by (simp add: is_kind_def kind_prefix_def)

lemmas cut_kind_laws = cut_kind_mk cut_kind_Some cut_kind_foreign is_kind_mk

interpretation topic_key: value_key mk_topic parse_topic KindTopic
  by unfold_locales (auto simp only: mk_topic_def parse_topic_def intro: cut_kind_laws)

interpretation db_key: value_key mk_db parse_db KindDB
  by unfold_locales (auto simp only: mk_db_def parse_db_def intro: cut_kind_laws)

interpretation config_key: value_key mk_config parse_config KindConfig
  by unfold_locales (auto simp only: mk_config_def parse_config_def intro: cut_kind_laws)

section \<open>Table names across spellings\<close>

definition entity_name :: "string \<Rightarrow> string" where
  "entity_name entity =
     (let name0 = trim_left (\<lambda>c. c \<in> set ''*&'') (trim_space entity)
      in case last_index CHR ''.'' name0 of Some i \<Rightarrow> drop (i + 1) name0 | None \<Rightarrow> name0)"

lemma table_name_entity: "table_name e = pluralize (join_with ''_'' (word_components (entity_name e)))"
  by (simp only: table_name_def entity_name_def Let_def)

lemma word_components_trim_right: "word_components (trim_right is_space s) = word_components s"
  unfolding word_components_concat ident_tokens_def by (simp add: fields_func_trim_right)

lemma not_word_star: "c \<in> set ''*&'' \<Longrightarrow> \<not> is_word_byte c"
  by (auto simp: go_eval)

lemma word_components_trim_left_star:
  "word_components (trim_left (\<lambda>c. c \<in> set ''*&'') s) = word_components s"
  unfolding word_components_concat ident_tokens_def
  using fields_func_trim_left [of "\<lambda>c. c \<in> set ''*&''" "\<lambda>c. \<not> is_word_byte c"] not_word_star
  by simp

lemma word_components_trim_space: "word_components (trim_space s) = word_components s"
  unfolding word_components_concat by (simp add: ident_tokens_trim_space)

lemma entity_components_plain:
  assumes "CHR ''.'' \<notin> set e" shows "word_components (entity_name e) = word_components e"
proof -
  let ?n = "trim_left (\<lambda>c. c \<in> set ''*&'') (trim_space e)"
  have "set ?n \<subseteq> set e"
    using set_trim_space [of e] by (auto simp: trim_left_def dest: set_dropWhileD)
  with assms have "last_index CHR ''.'' ?n = None" by (auto simp: last_index_None)
  then show ?thesis
    by (simp add: entity_name_def word_components_trim_left_star word_components_trim_space
        del: list.set)
qed

lemma trim_left_stop: "\<not> P d \<Longrightarrow> \<exists>q'. trim_left P (q @ d # s) = q' @ d # s"
proof (induction q)
  case Nil
  then show ?case by (simp add: trim_left_def)
next
  case (Cons c q)
  then show ?case by (cases "P c") (auto simp: trim_left_def)
qed

lemma trim_right_stop: "\<not> P d \<Longrightarrow> trim_right P (q @ d # s) = q @ d # trim_right P s"
proof (induction s rule: rev_induct)
  case Nil
  then show ?case by (simp add: trim_right_def)
next
  case (snoc c s)
  then show ?case by (cases "P c") (auto simp: trim_right_def)
qed

lemma entity_components_qualified:
  assumes "CHR ''.'' \<notin> set e"
  shows "word_components (entity_name (q @ ''.'' @ e)) = word_components e"
proof -
  have dot: "\<not> is_space CHR ''.''" "CHR ''.'' \<notin> set ''*&''" by (simp_all add: go_eval)
  obtain q1 where q1: "trim_left is_space (q @ CHR ''.'' # e) = q1 @ CHR ''.'' # e"
    using trim_left_stop [of is_space, OF dot(1)] by blast
  obtain q2 where q2: "trim_left (\<lambda>c. c \<in> set ''*&'') (q1 @ CHR ''.'' # trim_right is_space e) =
      q2 @ CHR ''.'' # trim_right is_space e"
    using trim_left_stop [of "\<lambda>c. c \<in> set ''*&''", OF dot(2)] by blast
  have "trim_left (\<lambda>c. c \<in> set ''*&'') (trim_space (q @ ''.'' @ e)) = q2 @ CHR ''.'' # trim_right is_space e"
    using q1 q2 trim_right_stop [of is_space, OF dot(1)]
    by (simp add: trim_space_def trim_both_def del: list.set)
  moreover have "last_index CHR ''.'' (q2 @ CHR ''.'' # trim_right is_space e) = Some (length q2)"
    using assms set_trim_right by (intro last_index_append) blast
  ultimately have "entity_name (q @ ''.'' @ e) = trim_right is_space e"
    by (simp add: entity_name_def del: list.set)
  then show ?thesis by (simp add: word_components_trim_right)
qed

section \<open>Properties\<close>

text \<open>
  C28: an HTTP key survives the trip through storage. Parsing the key built for a method and a
  path gives back the normalised method and the reduced path, whatever query string, fragment,
  surrounding slash or parameter syntax the path was written with. The method has to be a single
  word, which every HTTP method is: the parser cuts the key at its first space.
\<close>

theorem http_key_roundtrip:
  assumes "CHR '' '' \<notin> set (http_method m)"
  shows "parse_http (mk_http m p) = (http_method m, reduce_path (http_path p), True)"
  using assms by (rule parse_mk_http)

theorem http_key_roundtrip_witness:
  "parse_http (mk_http ''post'' ''/pets/:id/visits?limit=5'') = (''POST'', ''/pets/{}/visits'', True)"
proof -
  have h: "CHR '' '' \<notin> set (http_method ''post'')" by (simp add: go_eval)
  show ?thesis using http_key_roundtrip [OF h, of "''/pets/:id/visits?limit=5''"]
    by (simp add: go_eval)
qed

text \<open>
  C9: two HTTP keys are equal exactly when they state the same contract: the same normalised
  method and, segment by segment, the same path once every parameter is reduced. A client and a
  server that name or spell a parameter differently meet, and nothing else does.
\<close>

theorem http_key_equal_iff:
  assumes "CHR '' '' \<notin> set (http_method m)" and "CHR '' '' \<notin> set (http_method m')"
  shows "mk_http m p = mk_http m' p' \<longleftrightarrow>
    http_method m = http_method m' \<and>
    map reduce_segment (split_on CHR ''/'' (http_path p)) =
    map reduce_segment (split_on CHR ''/'' (http_path p'))"
proof
  assume "mk_http m p = mk_http m' p'"
  then have "parse_http (mk_http m p) = parse_http (mk_http m' p')" by simp
  then show "http_method m = http_method m' \<and>
      map reduce_segment (split_on CHR ''/'' (http_path p)) =
      map reduce_segment (split_on CHR ''/'' (http_path p'))"
    using assms by (simp add: parse_mk_http reduce_path_eq_iff)
next
  assume "http_method m = http_method m' \<and>
      map reduce_segment (split_on CHR ''/'' (http_path p)) =
      map reduce_segment (split_on CHR ''/'' (http_path p'))"
  then show "mk_http m p = mk_http m' p'" by (simp add: mk_http_def reduce_path_alt)
qed

theorem http_key_equal_iff_witness:
  "mk_http ''get'' ''check/{id:[0-9]{2}}/'' = mk_http ''GET'' ''/check/<int:n>''
   \<and> mk_http ''get'' ''/check/{id}N'' \<noteq> mk_http ''get'' ''/check/{id}''"
proof -
  have h: "CHR '' '' \<notin> set (http_method ''get'')" "CHR '' '' \<notin> set (http_method ''GET'')"
    by (simp_all add: go_eval)
  show ?thesis
    using http_key_equal_iff [OF h, of "''check/{id:[0-9]{2}}/''" "''/check/<int:n>''"]
      http_key_equal_iff [OF h(1) h(1), of "''/check/{id}N''" "''/check/{id}''"]
    by (simp add: go_eval)
qed

text \<open>
  reducing a path is idempotent and keeps its shape: reducing a reduced path changes nothing,
  and the reduced path has a parameter exactly in the segments where the path had one. The one
  spelling excluded is a segment that opens with a stray closing brace.
\<close>

theorem reduce_path_normal_form:
  assumes "\<forall>seg \<in> set (split_on CHR ''/'' path). \<not> has_prefix seg ''}''"
  shows "reduce_path (reduce_path path) = reduce_path path \<and>
    map is_path_param (split_on CHR ''/'' (reduce_path path)) =
    map is_path_param (split_on CHR ''/'' path)"
proof
  show "reduce_path (reduce_path path) = reduce_path path"
    using assms by (simp add: reduce_path_eq_iff split_reduce_path reduce_segment_idem)
  have "is_path_param (reduce_segment seg) = is_path_param seg" if "\<not> has_prefix seg ''}''" for seg
    using that
  proof (cases seg rule: reduce_segment_cases)
    case mixed
    have brace: "CHR ''{'' \<in> set (reduce_braces 0 seg)" using mixed(2) by (rule reduce_braces_brace)
    then obtain c t where "reduce_braces 0 seg = c # t" by (cases "reduce_braces 0 seg") auto
    moreover from mixed(5) obtain d u where "seg = d # u" by (cases seg) auto
    ultimately show ?thesis using mixed brace by (auto simp: is_path_param_def)
  qed (auto simp: is_path_param_def)
  then show "map is_path_param (split_on CHR ''/'' (reduce_path path)) =
      map is_path_param (split_on CHR ''/'' path)"
    using assms by (simp add: split_reduce_path)
qed

theorem reduce_path_normal_form_witness:
  "reduce_path (reduce_path ''/users/{id}N{tenant}/:x'') = ''/users/{}N{}/{}''
   \<and> map is_path_param (split_on CHR ''/'' (reduce_path ''/users/{id}N{tenant}/:x'')) =
      [False, False, True, True]"
proof -
  have h: "\<forall>seg \<in> set (split_on CHR ''/'' ''/users/{id}N{tenant}/:x''). \<not> has_prefix seg ''}''"
    by simp
  show ?thesis using reduce_path_normal_form [OF h] by (simp add: go_eval)
qed

text \<open>
  the namespaces of the keys are disjoint, and the parsers of the one-value keys accept
  exactly the keys their constructor builds. A topic key is never read as a table, and a value
  read out of a key is the value that was put in.
\<close>

theorem value_keys_exact:
  "(parse_topic key = (n, True) \<longleftrightarrow> key = mk_topic n) \<and>
   (parse_db key = (n, True) \<longleftrightarrow> key = mk_db n) \<and>
   (parse_config key = (n, True) \<longleftrightarrow> key = mk_config n) \<and>
   \<not> (k \<noteq> k' \<and> is_kind key k \<and> is_kind key k')"
proof -
  have "k = k'" if "is_kind key k" "is_kind key k'"
    using that by (cases k; cases k') (auto simp: is_kind_def kind_prefix_def has_prefix_iff)
  then show ?thesis
    using topic_key.parse_iff db_key.parse_iff config_key.parse_iff by blast
qed

text \<open>
  C11: an unresolved topic reference is recognised exactly when it was built as one, gives its
  reference back, and parses as a plain topic to the literal name \<open>${REF}\<close>, so a caller that
  does not ask for references first still sees a topic key.
\<close>

theorem topic_ref_exact:
  "(parse_topic_ref key = (ref, True) \<longleftrightarrow> key = mk_topic_ref ref) \<and>
   parse_topic (mk_topic_ref ref) = (''${'' @ ref @ ''}'', True)"
proof
  have "key = mk_topic_ref ref" if p: "parse_topic_ref key = (ref, True)"
  proof -
    from p have pre: "has_prefix key topic_ref_prefix" and suf: "has_suffix key ''}''"
      and ref: "ref = trim_suffix (trim_prefix key topic_ref_prefix) ''}''"
      by (auto simp: parse_topic_ref_def split: if_splits)
    from pre obtain t where t: "key = topic_ref_prefix @ t" by (auto simp: has_prefix_iff)
    with suf have "t \<noteq> []" "last t = CHR ''}''"
      by (auto simp: has_suffix_single topic_ref_prefix_def split: if_splits)
    then have "t = butlast t @ ''}''" by (metis append_butlast_last_id)
    with t ref have "ref = butlast t"
      using trim_prefix_append [of topic_ref_prefix t] trim_suffix_append [of "butlast t" "''}''"] by simp
    with t \<open>t = butlast t @ ''}''\<close> show ?thesis by (simp add: mk_topic_ref_def)
  qed
  moreover have "parse_topic_ref (mk_topic_ref ref) = (ref, True)"
    using has_suffix_append [of "topic_ref_prefix @ ref" "''}''"]
      trim_prefix_append [of topic_ref_prefix "ref @ ''}''"]
    by (simp add: parse_topic_ref_def mk_topic_ref_def)
  ultimately show "parse_topic_ref key = (ref, True) \<longleftrightarrow> key = mk_topic_ref ref" by blast
  show "parse_topic (mk_topic_ref ref) = (''${'' @ ref @ ''}'', True)"
    using topic_key.parse_mk [of "''${'' @ ref @ ''}''"]
    by (simp add: mk_topic_ref_def mk_topic_def topic_ref_prefix_def)
qed

text \<open>
  a gRPC key gives back the service and the method it was built from, package-qualified
  services and the empty service included; the key of an empty method is reported as not usable.
\<close>

theorem grpc_key_roundtrip:
  assumes "CHR ''/'' \<notin> set meth"
  shows "parse_grpc (mk_grpc service meth) = (service, meth, meth \<noteq> [])"
proof -
  have "cut_prefix (mk_grpc service meth) (kind_prefix KindGRPC) = Some (service @ CHR ''/'' # meth)"
    using cut_prefix_append [of "kind_prefix KindGRPC" "service @ CHR ''/'' # meth"]
    by (simp add: mk_grpc_def kind_prefix_def)
  then show ?thesis using assms by (simp add: parse_grpc_def last_index_append)
qed

theorem grpc_key_roundtrip_witness:
  "parse_grpc (mk_grpc ''shop.v1.Orders'' ''Place'') = (''shop.v1.Orders'', ''Place'', True)"
proof -
  have h: "CHR ''/'' \<notin> set ''Place''" by simp
  show ?thesis using grpc_key_roundtrip [OF h, of "''shop.v1.Orders''"] by simp
qed

text \<open>
  the two derivations of a table name agree. Whatever qualifier precedes the entity and
  however its words are spelled, the table an ORM write is joined on is the table the entity was
  declared against.
\<close>

theorem table_name_spelling:
  assumes "CHR ''.'' \<notin> set e" and "CHR ''.'' \<notin> set e'"
    and "word_components e = word_components e'"
  shows "table_name (q @ ''.'' @ e) = table_name e' \<and> table_name e = table_name e'"
  using assms
  by (simp add: table_name_entity entity_components_qualified entity_components_plain del: append.simps)

theorem table_name_spelling_witness:
  "table_name ''*models.User_Category'' = ''user_categories''
   \<and> table_name ''UserCategory'' = ''user_categories''"
proof -
  have h: "CHR ''.'' \<notin> set ''User_Category''" "CHR ''.'' \<notin> set ''UserCategory''" by simp_all
  have w: "word_components ''User_Category'' = word_components ''UserCategory''"
    by (simp add: go_eval)
  have "table_name ''UserCategory'' = ''user_categories''" by (simp add: go_eval)
  then show ?thesis using table_name_spelling [OF h w, of "''*models''"] by simp
qed

end
