(* ===== verification/Gitignore_Parse.thy ===== *)
theory Gitignore_Parse
  imports Go_Strings
begin

text \<open>
  The parser of \<open>pkg/gitignore/gitignore.go\<close>: the body of a \<open>.gitignore\<close> file to the list of its
  patterns. The glob library \<open>doublestar\<close> is not part of the repository; what the code asks of
  it, whether a glob is well-formed and whether it matches a path, are the parameters \<open>dvalid\<close>
  and \<open>dmatch\<close> of the definitions that call it.
\<close>

section \<open>Patterns\<close>

record pattern =
  glob :: string
  negate :: bool
  dir_only :: bool

text \<open>The loop of \<open>escaped\<close>: the number of backslashes right before position \<open>i\<close>.\<close>

fun count_backslashes :: "string \<Rightarrow> nat \<Rightarrow> nat" where
  "count_backslashes s 0 = 0"
| "count_backslashes s (Suc j) = (if s ! j = CHR 0x5C then Suc (count_backslashes s j) else 0)"

definition escaped :: "string \<Rightarrow> nat \<Rightarrow> bool" where
  "escaped s i \<longleftrightarrow> count_backslashes s i mod 2 = 1"

fun trailing_end :: "string \<Rightarrow> nat \<Rightarrow> nat" where
  "trailing_end s 0 = 0"
| "trailing_end s (Suc e) =
     (if s ! e = CHR '' '' \<or> s ! e = CHR 0x09
      then (if escaped s e then Suc e else trailing_end s e)
      else Suc e)"

definition trim_unescaped_trailing_space :: "string \<Rightarrow> string" where
  "trim_unescaped_trailing_space s = take (trailing_end s (length s)) s"

text \<open>The glob of a pattern line that has lost its negation and its trailing slash.\<close>

definition pattern_glob :: "string \<Rightarrow> string option" where
  "pattern_glob line =
     (let anchored = contains line ''/'';
          line1 = trim_prefix line ''/''
      in if line1 = [] then None
         else
           let line2 = (if \<not> anchored then ''**/'' @ line1 else line1)
           in Some (if has_suffix line2 ''/**'' then line2 @ ''/*'' else line2))"

definition parse_line :: "(string \<Rightarrow> bool) \<Rightarrow> string \<Rightarrow> pattern option" where
  "parse_line dvalid line0 =
     (let line1 = trim_unescaped_trailing_space (trim_right (\<lambda>c. c = CHR 0x0D) line0) in
      if line1 = [] \<or> has_prefix line1 ''#'' then None
      else
        let neg = has_prefix line1 ''!'';
            line2 = (if neg then drop 1 line1 else line1);
            dir = (has_suffix line2 ''/'' \<and> \<not> escaped line2 (length line2 - 1));
            line3 = (if dir then trim_suffix line2 ''/'' else line2)
        in if line3 = [] then None
           else
             (case pattern_glob line3 of
                None \<Rightarrow> None
              | Some g \<Rightarrow>
                  if \<not> dvalid g then None
                  else Some \<lparr>glob = g, negate = neg, dir_only = dir\<rparr>))"

text \<open>
  \<open>bufio.Scanner\<close> with a 1 MiB buffer: the lines without their line feed and one carriage
  return, the empty rest after a final line feed left out, and nothing from the first line that
  does not fit the buffer.
\<close>

definition max_token :: nat where
  "max_token = 1048576"

definition drop_cr :: "string \<Rightarrow> string" where
  "drop_cr s = trim_suffix s [CHR 0x0D]"

definition scan_lines :: "string \<Rightarrow> string list" where
  "scan_lines data =
     (let ls = split_on CHR 0x0A data;
          ls' = (if last ls = [] then butlast ls else ls)
      in map drop_cr (takeWhile (\<lambda>l. length l < max_token) ls'))"

definition parse_patterns :: "(string \<Rightarrow> bool) \<Rightarrow> string \<Rightarrow> pattern list" where
  "parse_patterns dvalid data = List.map_filter (parse_line dvalid) (scan_lines data)"

declare escaped_def [go_eval] trim_unescaped_trailing_space_def [go_eval] pattern_glob_def [go_eval]
  parse_line_def [go_eval]
   max_token_def [go_eval] drop_cr_def [go_eval] scan_lines_def [go_eval] parse_patterns_def [go_eval]

text \<open>
  \<open>matchIn\<close>: the verdict of the last matching pattern of one file, None when none matches (the
  \<open>matched\<close> result of the code).
\<close>

fun match_from_last :: "(string \<Rightarrow> string \<Rightarrow> bool) \<Rightarrow> pattern list \<Rightarrow> string \<Rightarrow> bool \<Rightarrow> bool option" where
  "match_from_last dmatch [] rel is_dir = None"
| "match_from_last dmatch (p # ps) rel is_dir =
     (if dir_only p \<and> \<not> is_dir then match_from_last dmatch ps rel is_dir
      else if dmatch (glob p) rel then Some (\<not> negate p)
      else match_from_last dmatch ps rel is_dir)"

definition match_in :: "(string \<Rightarrow> string \<Rightarrow> bool) \<Rightarrow> pattern list \<Rightarrow> string \<Rightarrow> bool \<Rightarrow> bool option" where
  "match_in dmatch pats rel is_dir = match_from_last dmatch (rev pats) rel is_dir"

section \<open>Matching one file\<close>

definition applies :: "(string \<Rightarrow> string \<Rightarrow> bool) \<Rightarrow> string \<Rightarrow> bool \<Rightarrow> pattern \<Rightarrow> bool" where
  "applies dmatch rel is_dir p \<longleftrightarrow> (dir_only p \<longrightarrow> is_dir) \<and> dmatch (glob p) rel"

lemma match_from_last_find:
  "match_from_last dmatch ps rel is_dir =
     map_option (\<lambda>p. \<not> negate p) (List.find (applies dmatch rel is_dir) ps)"
  by (induction ps) (auto simp: applies_def)

lemma find_rev_SomeD:
  "List.find P (rev xs) = Some x \<Longrightarrow>
     \<exists>i < length xs. xs ! i = x \<and> P x \<and> (\<forall>j. i < j \<longrightarrow> j < length xs \<longrightarrow> \<not> P (xs ! j))"
proof (induction xs rule: rev_induct)
  case Nil
  then show ?case by simp
next
  case (snoc y ys)
  show ?case
  proof (cases "P y")
    case True
    with snoc.prems show ?thesis by (intro exI [of _ "length ys"]) auto
  next
    case False
    with snoc obtain i where "i < length ys" "ys ! i = x" "P x"
      "\<forall>j. i < j \<longrightarrow> j < length ys \<longrightarrow> \<not> P (ys ! j)" by auto
    with False show ?thesis by (intro exI [of _ i]) (auto simp: nth_append less_Suc_eq)
  qed
qed

section \<open>The shape of a pattern\<close>

lemma pattern_glob_shape:
  assumes "pattern_glob line = Some g"
  shows "g \<noteq> [] \<and> \<not> has_suffix g ''/**'' \<and> (contains line ''/'' \<or> has_prefix g ''**/'')"
proof -
  define h where "h = (if \<not> contains line ''/'' then ''**/'' @ trim_prefix line ''/'' else trim_prefix line ''/'')"
  have "trim_prefix line ''/'' \<noteq> [] \<and> g = (if has_suffix h ''/**'' then h @ ''/*'' else h)"
    using assms unfolding pattern_glob_def Let_def h_def [symmetric]
    by (cases "trim_prefix line ''/'' = []") simp_all
  then have h: "g = (if has_suffix h ''/**'' then h @ ''/*'' else h)" "h \<noteq> []"
    "\<not> contains line ''/'' \<Longrightarrow> has_prefix h ''**/''"
    by (auto simp: h_def)
  show ?thesis
  proof (cases "has_suffix h ''/**''")
    case True
    then obtain t where t: "h = t @ ''/**''" by (auto simp: has_suffix_iff)
    then have "g = t @ ''/**/*''" using h True by simp
    then have "\<not> has_suffix g ''/**''" by (simp add: has_suffix_def)
    moreover have "has_prefix h ''**/'' \<Longrightarrow> has_prefix g ''**/''"
      using h(1) True by (auto simp: has_prefix_iff)
    ultimately show ?thesis using h True by auto
  next
    case False
    then show ?thesis using h by auto
  qed
qed

lemma parse_line_glob:
  assumes "parse_line dvalid line = Some p"
  shows "dvalid (glob p) \<and> (\<exists>l. pattern_glob l = Some (glob p))"
  using assms by (auto simp: parse_line_def Let_def split: if_splits option.splits)

section \<open>Properties\<close>

text \<open>
  C31: the last matching line of a file decides. Where \<open>matchIn\<close> gives a verdict there is a line
  that applies to the path (directory-only lines apply to directories alone), the verdict is that
  line's, re-inclusion for a negated line and exclusion for any other, and no later line applies;
  it gives none exactly when no line applies.
\<close>

theorem last_match_wins:
  "case match_in dmatch pats rel is_dir of
     None \<Rightarrow> \<not> list_ex (applies dmatch rel is_dir) pats
   | Some ignored \<Rightarrow>
       list_ex (\<lambda>i. applies dmatch rel is_dir (pats ! i) \<and> ignored = (\<not> negate (pats ! i)) \<and>
                   \<not> list_ex (applies dmatch rel is_dir) (drop (i + 1) pats)) [0..<length pats]"
proof (cases "List.find (applies dmatch rel is_dir) (rev pats)")
  case None
  then have "\<forall>p \<in> set pats. \<not> applies dmatch rel is_dir p" by (auto simp: find_None_iff)
  with None show ?thesis by (auto simp: match_in_def match_from_last_find list_ex_iff)
next
  case (Some p)
  from find_rev_SomeD [OF Some] obtain i where
    i: "i < length pats" "pats ! i = p" "applies dmatch rel is_dir p"
    and last: "\<forall>j. i < j \<longrightarrow> j < length pats \<longrightarrow> \<not> applies dmatch rel is_dir (pats ! j)" by blast
  have "\<not> list_ex (applies dmatch rel is_dir) (drop (i + 1) pats)"
    using last by (auto simp: list_ex_iff in_set_conv_nth)
  then have "list_ex (\<lambda>j. applies dmatch rel is_dir (pats ! j) \<and> (\<not> negate p) = (\<not> negate (pats ! j)) \<and>
      \<not> list_ex (applies dmatch rel is_dir) (drop (j + 1) pats)) [0..<length pats]"
    unfolding list_ex_iff [of _ "[0..<length pats]"] using i by (intro bexI [of _ i]) auto
  with Some show ?thesis by (simp add: match_in_def match_from_last_find)
qed

text \<open>
  C16: no pattern excludes a directory by a trailing \<open>**\<close>. Every pattern that parsing produces is
  a well-formed glob that does not end in \<open>/**\<close>, so a rule about the inside of a directory never
  matches the directory itself and a negation below it stays reachable.
\<close>

theorem parsed_glob_shape:
  assumes "parse_line dvalid line = Some p"
  shows "dvalid (glob p) \<and> glob p \<noteq> [] \<and> \<not> has_suffix (glob p) ''/**''"
  using parse_line_glob [OF assms] pattern_glob_shape by blast

theorem parsed_glob_shape_witness:
  "parse_line (\<lambda>_. True) ''!abc/**  '' = Some \<lparr>glob = ''abc/**/*'', negate = True, dir_only = False\<rparr> \<and>
   \<not> has_suffix ''abc/**/*'' ''/**''"
proof -
  have h: "parse_line (\<lambda>_. True) ''!abc/**  '' =
      Some \<lparr>glob = ''abc/**/*'', negate = True, dir_only = False\<rparr>"
    by (simp add: go_eval)
  show ?thesis using h parsed_glob_shape [OF h] by simp
qed

end
