(* ===== verification/Go_Path.thy ===== *)
theory Go_Path
  imports Go_Strings
begin

text \<open>
  Go's slash-separated path routines (\<open>path.Clean\<close>, \<open>path.Dir\<close>, \<open>filepath.Join\<close> and
  \<open>filepath.IsAbs\<close> on a Unix system), over strings, and the paths in normal form on which they act
  like the list of their segments.
\<close>

fun clean_segs :: "bool \<Rightarrow> string list \<Rightarrow> string list \<Rightarrow> string list" where
  "clean_segs rooted acc [] = rev acc"
| "clean_segs rooted acc (s # ss) =
     (if s = [] \<or> s = ''.'' then clean_segs rooted acc ss
      else if s = ''..'' then
        (if acc \<noteq> [] \<and> hd acc \<noteq> ''..'' then clean_segs rooted (tl acc) ss
         else if rooted then clean_segs rooted acc ss
         else clean_segs rooted (s # acc) ss)
      else clean_segs rooted (s # acc) ss)"

definition is_abs :: "string \<Rightarrow> bool" where
  "is_abs p = has_prefix p ''/''"

definition path_clean :: "string \<Rightarrow> string" where
  "path_clean p =
     (if p = [] then ''.''
      else let body = join_with ''/'' (clean_segs (is_abs p) [] (split_on CHR ''/'' p))
           in if is_abs p then ''/'' @ body else if body = [] then ''.'' else body)"

definition path_dir :: "string \<Rightarrow> string" where
  "path_dir p =
     (case last_index CHR ''/'' p of
        None \<Rightarrow> path_clean []
      | Some i \<Rightarrow> path_clean (take (i + 1) p))"

definition path_join :: "string list \<Rightarrow> string" where
  "path_join es =
     (let es' = filter (\<lambda>e. e \<noteq> []) es
      in if es' = [] then [] else path_clean (join_with ''/'' es'))"

declare is_abs_def [go_eval] path_clean_def [go_eval] path_dir_def [go_eval] path_join_def [go_eval]

section \<open>Paths in normal form\<close>

definition good_seg :: "string \<Rightarrow> bool" where
  "good_seg s \<longleftrightarrow> s \<noteq> [] \<and> s \<noteq> ''.'' \<and> s \<noteq> ''..'' \<and> CHR ''/'' \<notin> set s"

definition path_str :: "string list \<Rightarrow> string" where
  "path_str segs = (if segs = [] then ''.'' else join_with ''/'' segs)"

declare good_seg_def [go_eval] path_str_def [go_eval]

lemma clean_segs_good: "(\<forall>s \<in> set ss. good_seg s) \<Longrightarrow> clean_segs r acc ss = rev acc @ ss"
  by (induction ss arbitrary: acc) (auto simp: good_seg_def)

lemma clean_segs_good_snoc:
  "(\<forall>s \<in> set ss. good_seg s) \<Longrightarrow> clean_segs r acc (ss @ [[]]) = rev acc @ ss"
  by (induction ss arbitrary: acc) (auto simp: good_seg_def)

lemma join_Nil_iff: "(\<forall>s \<in> set ss. s \<noteq> []) \<Longrightarrow> join_with ''/'' ss = [] \<longleftrightarrow> ss = []"
  by (cases ss; cases "tl ss") auto

lemma join_hd: "s \<noteq> [] \<Longrightarrow> hd (join_with sep (s # ss)) = hd s"
  by (cases ss) auto

lemma join_not_abs:
  assumes "\<forall>s \<in> set ss. good_seg s" shows "\<not> is_abs (join_with ''/'' ss)"
proof (cases ss)
  case Nil
  then show ?thesis by (simp add: is_abs_def)
next
  case (Cons s t)
  then have "s \<noteq> []" and "CHR ''/'' \<notin> set s" using assms by (simp_all add: good_seg_def)
  then have "hd s \<noteq> CHR ''/''" using hd_in_set by fastforce
  then have "hd (join_with ''/'' ss) \<noteq> CHR ''/''" using Cons join_hd [OF \<open>s \<noteq> []\<close>] by simp
  then show ?thesis by (cases "join_with ''/'' ss") (auto simp: is_abs_def)
qed

lemma join_snoc: "ss \<noteq> [] \<Longrightarrow> join_with sep (ss @ [x]) = join_with sep ss @ sep @ x"
  by (induction sep ss rule: join_with.induct) auto

lemma join_append:
  "xs \<noteq> [] \<Longrightarrow> ys \<noteq> [] \<Longrightarrow> join_with sep (xs @ ys) = join_with sep xs @ sep @ join_with sep ys"
proof (induction sep xs rule: join_with.induct)
  case (2 sep x)
  then show ?case by (cases ys) auto
qed auto

lemma split_join_good:
  "ss \<noteq> [] \<Longrightarrow> (\<forall>s \<in> set ss. good_seg s) \<Longrightarrow> split_on CHR ''/'' (join_with ''/'' ss) = ss"
  by (rule split_on_join) (auto simp: good_seg_def)

lemma split_on_snoc: "split_on d (s @ [d]) = split_on d s @ [[]]"
  by (induction s) (auto split: list.splits)

lemma path_clean_dir:
  assumes "ss \<noteq> []" and "\<forall>s \<in> set ss. good_seg s"
  shows "path_clean (join_with ''/'' ss @ ''/'') = join_with ''/'' ss"
proof -
  have abs: "\<not> is_abs (join_with ''/'' ss @ ''/'')"
    using join_not_abs [OF assms(2)] assms join_Nil_iff [of ss]
    by (cases "join_with ''/'' ss") (auto simp: is_abs_def good_seg_def)
  have "split_on CHR ''/'' (join_with ''/'' ss @ ''/'') = ss @ [[]]"
    using split_join_good [OF assms] by (simp add: split_on_snoc)
  then show ?thesis
    using abs assms join_Nil_iff [of ss]
    by (auto simp: path_clean_def clean_segs_good_snoc good_seg_def)
qed

lemma path_dir_str:
  assumes "\<forall>s \<in> set (ss @ [x]). good_seg s"
  shows "path_dir (path_str (ss @ [x])) = path_str ss"
proof (cases "ss = []")
  case True
  with assms have "last_index CHR ''/'' x = None" by (auto simp: good_seg_def last_index_None)
  with True show ?thesis by (simp add: path_dir_def path_str_def path_clean_def)
next
  case False
  have x: "CHR ''/'' \<notin> set x" using assms by (auto simp: good_seg_def)
  have str: "path_str (ss @ [x]) = join_with ''/'' ss @ CHR ''/'' # x"
    using False by (simp add: path_str_def join_snoc)
  have "path_dir (path_str (ss @ [x])) = path_clean (join_with ''/'' ss @ ''/'')"
    unfolding str path_dir_def last_index_append [OF x] by simp
  then show ?thesis using path_clean_dir [OF False] assms False by (simp add: path_str_def)
qed

lemma path_str_dot: "(\<forall>s \<in> set ss. good_seg s) \<Longrightarrow> path_str ss = ''.'' \<longleftrightarrow> ss = []"
proof
  assume g: "\<forall>s \<in> set ss. good_seg s" and d: "path_str ss = ''.''"
  show "ss = []"
  proof (rule ccontr)
    assume ne: "ss \<noteq> []"
    with d have "join_with ''/'' ss = ''.''" by (simp add: path_str_def)
    with split_join_good [OF ne g] have "ss = [''.'']" by simp
    with g show False by (simp add: good_seg_def)
  qed
qed (simp add: path_str_def)

lemma path_str_inject:
  assumes "\<forall>s \<in> set xs. good_seg s" and "\<forall>s \<in> set ys. good_seg s" and "path_str xs = path_str ys"
  shows "xs = ys"
proof (cases "xs = [] \<or> ys = []")
  case True
  then show ?thesis
    using path_str_dot [OF assms(1)] path_str_dot [OF assms(2)] assms(3) by (auto simp: path_str_def)
next
  case False
  then have "join_with ''/'' xs = join_with ''/'' ys" using assms(3) by (simp add: path_str_def)
  then show ?thesis
    using False split_join_good [OF _ assms(1)] split_join_good [OF _ assms(2)] by metis
qed

lemma length_path_str: "length ss \<le> length (path_str ss)" if "\<forall>s \<in> set ss. good_seg s"
proof -
  have "length ss \<le> length (join_with ''/'' ss)"
    using that by (induction "''/''" ss rule: join_with.induct) (auto simp: good_seg_def Suc_le_eq)
  then show ?thesis by (simp add: path_str_def)
qed

section \<open>The parent of a path is shorter\<close>

text \<open>
  What makes the loops \<open>for dir := path.Dir(p); ...; dir = path.Dir(dir)\<close> end: cleaning a
  directory name drops at least its trailing slash.
\<close>

definition seg_weight :: "string list \<Rightarrow> nat" where
  "seg_weight ss = (\<Sum>s \<leftarrow> ss. length s + 1)"

lemma seg_weight_simps [simp]:
  "seg_weight [] = 0" "seg_weight (s # ss) = length s + 1 + seg_weight ss"
  "seg_weight (xs @ ys) = seg_weight xs + seg_weight ys" "seg_weight (rev ss) = seg_weight ss"
  by (simp_all add: seg_weight_def rev_map [symmetric])

lemma seg_weight_tl: "seg_weight (tl ss) \<le> seg_weight ss"
  by (cases ss) auto

lemma length_join_weight: "ss \<noteq> [] \<Longrightarrow> length (join_with ''/'' ss) + 1 = seg_weight ss"
  by (induction "''/''" ss rule: join_with.induct) auto

lemma weight_split: "seg_weight (split_on CHR ''/'' p) = length p + 1"
proof -
  have "length (join_with ''/'' (split_on CHR ''/'' p)) + 1 = seg_weight (split_on CHR ''/'' p)"
    by (rule length_join_weight) simp
  then show ?thesis by simp
qed

lemma weight_clean_segs: "seg_weight (clean_segs r acc ss) \<le> seg_weight acc + seg_weight ss"
proof (induction r acc ss rule: clean_segs.induct)
  case (1 r acc)
  then show ?case by simp
next
  case (2 r acc s ss)
  consider "s = [] \<or> s = ''.''" | "s = ''..''" "acc \<noteq> []" "hd acc \<noteq> ''..''"
    | "s = ''..''" "\<not> (acc \<noteq> [] \<and> hd acc \<noteq> ''..'')" "r"
    | "s = ''..''" "\<not> (acc \<noteq> [] \<and> hd acc \<noteq> ''..'')" "\<not> r"
    | "s \<noteq> []" "s \<noteq> ''.''" "s \<noteq> ''..''" by blast
  then show ?case
  proof cases
    case 1
    then show ?thesis using "2.IH"(1) by auto
  next
    case 2
    then show ?thesis using "2.IH"(2) seg_weight_tl [of acc] by simp
  next
    case 3
    then show ?thesis using "2.IH"(3) by auto
  next
    case 4
    then show ?thesis using "2.IH"(4) by auto
  next
    case 5
    then show ?thesis using "2.IH"(5) by simp
  qed
qed

lemma clean_segs_snoc_empty: "clean_segs r acc (ss @ [[]]) = clean_segs r acc ss"
  by (induction r acc ss rule: clean_segs.induct) auto

lemma length_path_clean_slash:
  assumes "d = e @ ''/''" and "e \<noteq> []"
  shows "length (path_clean d) < length d"
proof -
  let ?r = "is_abs d"
  let ?c = "clean_segs ?r [] (split_on CHR ''/'' e)"
  have c: "clean_segs ?r [] (split_on CHR ''/'' d) = ?c"
    using assms(1) by (simp add: split_on_snoc clean_segs_snoc_empty)
  have w: "seg_weight ?c \<le> length e + 1"
    using weight_clean_segs [of ?r "[]" "split_on CHR ''/'' e"] by (simp add: weight_split)
  show ?thesis
  proof (cases ?r)
    case False
    have "length (join_with ''/'' ?c) < length d"
      using length_join_weight [of ?c] w assms by (cases "?c = []") auto
    then show ?thesis using False c assms by (auto simp: path_clean_def Let_def)
  next
    case True
    then obtain e' where e': "e = CHR ''/'' # e'" using assms by (cases e) (auto simp: is_abs_def)
    have "seg_weight ?c \<le> length e' + 1"
      using weight_clean_segs [of ?r "[]" "split_on CHR ''/'' e'"] e' by (simp add: weight_split)
    then have "length (join_with ''/'' ?c) \<le> length e'"
      using length_join_weight [of ?c] by (cases "?c = []") auto
    then show ?thesis using True c assms e' by (simp add: path_clean_def Let_def)
  qed
qed

definition dir_rank :: "string \<Rightarrow> nat" where
  "dir_rank d = (if d = ''.'' \<or> d = ''/'' then 0 else Suc (length d))"

lemma path_dir_rank: "d \<noteq> ''.'' \<Longrightarrow> d \<noteq> ''/'' \<Longrightarrow> dir_rank (path_dir d) < dir_rank d"
proof (cases "last_index CHR ''/'' d")
  case None
  assume "d \<noteq> ''.''" and "d \<noteq> ''/''"
  then show ?thesis using None by (simp add: path_dir_def path_clean_def dir_rank_def)
next
  case (Some i)
  assume d: "d \<noteq> ''.''" "d \<noteq> ''/''"
  from last_index_SomeD [OF Some] have i: "i < length d" and "d = take i d @ CHR ''/'' # drop (Suc i) d"
    by blast+
  then have t: "take (i + 1) d = take i d @ ''/''" by (simp add: take_Suc_conv_app_nth) (metis nth_append_length length_take min.absorb4)
  have dir: "path_dir d = path_clean (take i d @ ''/'')" using Some t by (simp add: path_dir_def)
  show ?thesis
  proof (cases "take i d = []")
    case True
    then have "path_dir d = path_clean ''/''" using dir by (simp only: append_Nil)
    then have "path_dir d = ''/''" by (simp add: path_clean_def is_abs_def)
    then show ?thesis using d by (simp add: dir_rank_def)
  next
    case False
    then have "length (path_dir d) < length (take i d @ ''/'')"
      using length_path_clean_slash [OF refl False] dir by simp
    also have "\<dots> \<le> length d" using i by simp
    finally show ?thesis using d by (simp add: dir_rank_def)
  qed
qed

end
