(* ===== verification/Gitignore_Rules.thy ===== *)
theory Gitignore_Rules
  imports Gitignore_Parse Go_Path
begin

text \<open>
  The decision procedure of \<open>pkg/gitignore/gitignore.go\<close>: \<open>Rules.Ignored\<close> with its lazily loaded,
  memoised state. The record \<open>rules\<close> is the Go struct without its mutex (every operation runs
  under it); the record \<open>ignore_env\<close> is what the operations read from outside: the file system,
  the output of \<open>git ls-files -z --cached\<close> run in the checkout (None when it fails) and the two
  questions asked of the glob library. An operation takes the state and returns it updated. The
  log line of a checkout whose index cannot be read is left out.
\<close>

section \<open>State and environment\<close>

datatype fs_node = Dir | File string | Unreadable

record ignore_env =
  fs :: "string \<Rightarrow> fs_node option"
  ls_files :: "string option"
  dmatch :: "string \<Rightarrow> string \<Rightarrow> bool"
  dvalid :: "string \<Rightarrow> bool"

record rules =
  root :: string
  dirs :: "string \<Rightarrow> pattern list option"
  verdicts :: "string \<Rightarrow> bool option"
  exclude :: "pattern list"
  exclude_loaded :: bool
  tracked :: "string set option"
  tracked_loaded :: bool

definition new_rules :: "string \<Rightarrow> rules" where
  "new_rules r = \<lparr>root = path_clean r, dirs = (\<lambda>_. None), verdicts = (\<lambda>_. None), exclude = [],
     exclude_loaded = False, tracked = None, tracked_loaded = False\<rparr>"

definition read_file :: "ignore_env \<Rightarrow> string \<Rightarrow> string option" where
  "read_file E p = (case fs E p of Some (File s) \<Rightarrow> Some s | _ \<Rightarrow> None)"

section \<open>Loading\<close>

definition patterns_for :: "ignore_env \<Rightarrow> rules \<Rightarrow> string \<Rightarrow> pattern list \<times> rules" where
  "patterns_for E r dir =
     (case dirs r dir of
        Some pats \<Rightarrow> (pats, r)
      | None \<Rightarrow>
          let pats = (case read_file E (path_join [root r, dir, ''.gitignore'']) of
                        Some data \<Rightarrow> parse_patterns (dvalid E) data
                      | None \<Rightarrow> [])
          in (pats, r\<lparr>dirs := (dirs r)(dir \<mapsto> pats)\<rparr>))"

definition git_dir :: "ignore_env \<Rightarrow> rules \<Rightarrow> string option" where
  "git_dir E r =
     (let dot = path_join [root r, ''.git''];
          common = (\<lambda>dir.
            case read_file E (path_join [dir, ''commondir'']) of
              None \<Rightarrow> dir
            | Some data \<Rightarrow>
                (let c = trim_space data in
                 if c \<noteq> [] then path_clean (if is_abs c then c else path_join [dir, c]) else dir))
      in case fs E dot of
           None \<Rightarrow> None
         | Some Dir \<Rightarrow> Some (common dot)
         | Some Unreadable \<Rightarrow> None
         | Some (File data) \<Rightarrow>
             (let ptr = trim_space (trim_prefix (trim_space data) ''gitdir:'') in
              if ptr = [] then None
              else Some (common (path_clean (if is_abs ptr then ptr else path_join [root r, ptr])))))"

definition info_exclude :: "ignore_env \<Rightarrow> rules \<Rightarrow> pattern list \<times> rules" where
  "info_exclude E r =
     (if exclude_loaded r then (exclude r, r)
      else
        let r1 = r\<lparr>exclude_loaded := True\<rparr>;
            r2 = (case git_dir E r of
                    None \<Rightarrow> r1
                  | Some dir \<Rightarrow>
                      (case read_file E (path_join [dir, ''info'', ''exclude'']) of
                         None \<Rightarrow> r1
                       | Some data \<Rightarrow> r1\<lparr>exclude := parse_patterns (dvalid E) data\<rparr>))
        in (exclude r2, r2))"

text \<open>The inner loop of \<open>loadTracked\<close>: the parents of a path, up to one that is already in.\<close>

function add_parents :: "string set \<Rightarrow> string \<Rightarrow> string set" where
  "add_parents t dir =
     (if dir = ''.'' \<or> dir = ''/'' then t
      else if dir \<in> t then t
      else add_parents (insert dir t) (path_dir dir))"
  by pat_completeness auto
termination
  by (relation "measure (\<lambda>(t, dir). dir_rank dir)") (auto intro: path_dir_rank)

declare add_parents.simps [simp del]

definition add_tracked :: "string set \<Rightarrow> string \<Rightarrow> string set" where
  "add_tracked t p = (if p = [] then t else add_parents (insert p t) (path_dir p))"

definition load_tracked :: "ignore_env \<Rightarrow> rules \<Rightarrow> rules" where
  "load_tracked E r =
     (if tracked_loaded r then r
      else
        let r1 = r\<lparr>tracked_loaded := True\<rparr>
        in case ls_files E of
             None \<Rightarrow> r1
           | Some out \<Rightarrow> r1\<lparr>tracked := Some (foldl add_tracked {} (split_on CHR 0x00 out))\<rparr>)"

definition is_tracked :: "ignore_env \<Rightarrow> rules \<Rightarrow> string \<Rightarrow> bool \<times> rules" where
  "is_tracked E r rel =
     (let r1 = load_tracked E r
      in (case tracked r1 of None \<Rightarrow> False | Some t \<Rightarrow> rel \<in> t, r1))"

section \<open>Deciding\<close>

definition rel_to :: "string \<Rightarrow> string \<Rightarrow> string" where
  "rel_to base rel = (if base = [] then rel else trim_prefix rel (base @ ''/''))"

text \<open>
  The loops over parent directories end at \<open>.\<close>, which every relative path reaches. At \<open>/\<close> they
  would never end: \<open>path.Dir("/")\<close> is \<open>/\<close> again. None stands for that.
\<close>

function match_up :: "ignore_env \<Rightarrow> rules \<Rightarrow> string \<Rightarrow> string \<Rightarrow> bool \<Rightarrow> (bool \<times> rules) option" where
  "match_up E r dir rel is_dir =
     (let base = (if dir = ''.'' then [] else dir);
          (pats, r1) = patterns_for E r base
      in case match_in (dmatch E) pats (rel_to base rel) is_dir of
           Some v \<Rightarrow> Some (v, r1)
         | None \<Rightarrow>
             if dir = ''.'' then
               (let (ex, r2) = info_exclude E r1
                in Some (case match_in (dmatch E) ex rel is_dir of Some v \<Rightarrow> v | None \<Rightarrow> False, r2))
             else if dir = ''/'' then None
             else match_up E r1 (path_dir dir) rel is_dir)"
  by pat_completeness auto
termination
  by (relation "measure (\<lambda>(E, r, dir, rel, is_dir). dir_rank dir)") (auto intro: path_dir_rank)

declare match_up.simps [simp del]

definition match_rules :: "ignore_env \<Rightarrow> rules \<Rightarrow> string \<Rightarrow> bool \<Rightarrow> (bool \<times> rules) option" where
  "match_rules E r rel is_dir = match_up E r (path_dir rel) rel is_dir"

function dir_excluded :: "ignore_env \<Rightarrow> rules \<Rightarrow> string \<Rightarrow> (bool \<times> rules) option" where
  "dir_excluded E r dir =
     (case verdicts r dir of
        Some v \<Rightarrow> Some (v, r)
      | None \<Rightarrow>
          if dir = ''/'' then None
          else
            let parent = path_dir dir
            in case (if dir \<noteq> ''.'' \<and> parent \<noteq> ''.'' then dir_excluded E r parent else Some (False, r)) of
                 None \<Rightarrow> None
               | Some (v, r1) \<Rightarrow>
                   (case (if \<not> v then match_rules E r1 dir True else Some (v, r1)) of
                      None \<Rightarrow> None
                    | Some (v2, r2) \<Rightarrow> Some (v2, r2\<lparr>verdicts := (verdicts r2)(dir \<mapsto> v2)\<rparr>)))"
  by pat_completeness auto
termination
  by (relation "measure (\<lambda>(E, r, dir). dir_rank dir)") (auto intro: path_dir_rank)

declare dir_excluded.simps [simp del]

definition trim_rel :: "string \<Rightarrow> string" where
  "trim_rel rel = trim_both (\<lambda>c. c = CHR ''/'') rel"

definition ignored :: "ignore_env \<Rightarrow> rules \<Rightarrow> string \<Rightarrow> bool \<Rightarrow> (bool \<times> rules) option" where
  "ignored E r rel0 is_dir =
     (let rel = trim_rel rel0 in
      if rel = [] \<or> rel = ''.'' \<or> rel = ''..'' \<or> has_prefix rel ''../'' then Some (False, r)
      else
        let parent = path_dir rel
        in case (if parent \<noteq> ''.'' then dir_excluded E r parent else Some (False, r)) of
             None \<Rightarrow> None
           | Some (True, r1) \<Rightarrow> (let (t, r2) = is_tracked E r1 rel in Some (\<not> t, r2))
           | Some (False, r1) \<Rightarrow>
               (case match_rules E r1 rel is_dir of
                  None \<Rightarrow> None
                | Some (False, r2) \<Rightarrow> Some (False, r2)
                | Some (True, r2) \<Rightarrow> (let (t, r3) = is_tracked E r2 rel in Some (\<not> t, r3))))"

section \<open>What the answers should be\<close>

text \<open>
  The rules without caches, over the segments of a path in normal form. \<open>spec_up k\<close> consults the
  pattern files of the first \<open>k\<close> directories above the path, deepest first, and then
  \<open>.git/info/exclude\<close>; a directory is excluded when it or a directory above it is matched.
\<close>

definition file_patterns :: "ignore_env \<Rightarrow> string \<Rightarrow> string \<Rightarrow> pattern list" where
  "file_patterns E rt dir =
     (case read_file E (path_join [rt, dir, ''.gitignore'']) of
        Some data \<Rightarrow> parse_patterns (dvalid E) data
      | None \<Rightarrow> [])"

definition exclude_spec :: "ignore_env \<Rightarrow> rules \<Rightarrow> pattern list" where
  "exclude_spec E r =
     (case git_dir E r of
        None \<Rightarrow> []
      | Some dir \<Rightarrow>
          (case read_file E (path_join [dir, ''info'', ''exclude'']) of
             None \<Rightarrow> []
           | Some data \<Rightarrow> parse_patterns (dvalid E) data))"

definition tracked_spec :: "ignore_env \<Rightarrow> string set option" where
  "tracked_spec E = map_option (\<lambda>out. foldl add_tracked {} (split_on CHR 0x00 out)) (ls_files E)"

fun spec_up :: "ignore_env \<Rightarrow> rules \<Rightarrow> nat \<Rightarrow> string list \<Rightarrow> bool \<Rightarrow> bool" where
  "spec_up E r 0 segs is_dir =
     (case match_in (dmatch E) (file_patterns E (root r) []) (join_with ''/'' segs) is_dir of
        Some v \<Rightarrow> v
      | None \<Rightarrow>
          (case match_in (dmatch E) (exclude_spec E r) (join_with ''/'' segs) is_dir of
             Some v \<Rightarrow> v
           | None \<Rightarrow> False))"
| "spec_up E r (Suc k) segs is_dir =
     (case match_in (dmatch E) (file_patterns E (root r) (join_with ''/'' (take (Suc k) segs)))
             (join_with ''/'' (drop (Suc k) segs)) is_dir of
        Some v \<Rightarrow> v
      | None \<Rightarrow> spec_up E r k segs is_dir)"

definition spec_match :: "ignore_env \<Rightarrow> rules \<Rightarrow> string list \<Rightarrow> bool \<Rightarrow> bool" where
  "spec_match E r segs is_dir = spec_up E r (length segs - 1) segs is_dir"

definition spec_excluded :: "ignore_env \<Rightarrow> rules \<Rightarrow> string list \<Rightarrow> bool" where
  "spec_excluded E r segs = list_ex (\<lambda>k. spec_match E r (take k segs) True) [1..<Suc (length segs)]"

definition spec_tracked :: "ignore_env \<Rightarrow> string list \<Rightarrow> bool" where
  "spec_tracked E segs =
     (case tracked_spec E of None \<Rightarrow> False | Some t \<Rightarrow> join_with ''/'' segs \<in> t)"

definition spec_ignored :: "ignore_env \<Rightarrow> rules \<Rightarrow> string list \<Rightarrow> bool \<Rightarrow> bool" where
  "spec_ignored E r segs is_dir \<longleftrightarrow>
     (spec_excluded E r (butlast segs) \<or> spec_match E r segs is_dir) \<and> \<not> spec_tracked E segs"

definition good_path :: "string list \<Rightarrow> bool" where
  "good_path segs \<longleftrightarrow> segs \<noteq> [] \<and> (\<forall>s \<in> set segs. good_seg s)"

section \<open>The caches never disagree with the rules\<close>

text \<open>The invariant of a \<open>Rules\<close> value, relative to the rules \<open>r0\<close> it was made as.\<close>

definition cache_inv :: "ignore_env \<Rightarrow> rules \<Rightarrow> rules \<Rightarrow> bool" where
  "cache_inv E r0 r \<longleftrightarrow>
     root r = root r0 \<and>
     (\<forall>d pats. dirs r d = Some pats \<longrightarrow> pats = file_patterns E (root r0) d) \<and>
     (\<forall>segs v. good_path segs \<longrightarrow> verdicts r (join_with ''/'' segs) = Some v \<longrightarrow> v = spec_excluded E r0 segs) \<and>
     exclude r = (if exclude_loaded r then exclude_spec E r0 else []) \<and>
     tracked r = (if tracked_loaded r then tracked_spec E else None)"

lemma cache_inv_new: "cache_inv E (new_rules p) (new_rules p)"
  by (simp add: cache_inv_def new_rules_def)

lemma git_dir_root: assumes "root r = root r0" shows "git_dir E r = git_dir E r0"
  unfolding git_dir_def assms by (rule refl)

lemma patterns_for_spec:
  assumes "cache_inv E r0 r"
  shows "fst (patterns_for E r d) = file_patterns E (root r0) d"
    and "cache_inv E r0 (snd (patterns_for E r d))"
proof -
  have cached: "dirs r d = Some pats \<Longrightarrow> pats = file_patterns E (root r0) d" for pats
    using assms by (simp add: cache_inv_def)
  have rt: "root r = root r0" using assms by (simp add: cache_inv_def)
  have missing: "dirs r d = None \<Longrightarrow> patterns_for E r d =
      (file_patterns E (root r0) d, r\<lparr>dirs := (dirs r)(d \<mapsto> file_patterns E (root r0) d)\<rparr>)"
    by (simp add: patterns_for_def file_patterns_def rt Let_def)
  show "fst (patterns_for E r d) = file_patterns E (root r0) d"
    using cached missing by (cases "dirs r d") (simp_all add: patterns_for_def)
  show "cache_inv E r0 (snd (patterns_for E r d))"
  proof (cases "dirs r d")
    case None
    then show ?thesis using assms missing by (auto simp: cache_inv_def)
  next
    case (Some pats)
    then show ?thesis using assms by (simp add: patterns_for_def)
  qed
qed

lemma info_exclude_spec:
  assumes "cache_inv E r0 r"
  shows "fst (info_exclude E r) = exclude_spec E r0" and "cache_inv E r0 (snd (info_exclude E r))"
  using assms git_dir_root [of r r0 E]
  by (auto simp: info_exclude_def cache_inv_def exclude_spec_def Let_def split: option.splits)

lemma is_tracked_spec:
  assumes "cache_inv E r0 r"
  shows "fst (is_tracked E r (join_with ''/'' segs)) = spec_tracked E segs"
    and "cache_inv E r0 (snd (is_tracked E r rel))"
  using assms
  by (auto simp: is_tracked_def load_tracked_def cache_inv_def spec_tracked_def tracked_spec_def
      Let_def split: option.splits)

section \<open>Paths as the loops see them\<close>

lemma good_path_take: "good_path segs \<Longrightarrow> 0 < k \<Longrightarrow> good_path (take k segs)"
  by (auto simp: good_path_def dest: in_set_takeD)

lemma good_path_join:
  assumes "good_path segs"
  shows "join_with ''/'' segs \<noteq> []" and "join_with ''/'' segs \<noteq> ''.''"
    and "join_with ''/'' segs \<noteq> ''..''" and "join_with ''/'' segs \<noteq> ''/''"
    and "\<not> has_prefix (join_with ''/'' segs) ''../''"
proof -
  have split: "split_on CHR ''/'' (join_with ''/'' segs) = segs"
    using assms split_join_good by (simp add: good_path_def)
  have bad: "\<not> good_path ([] # t)" "\<not> good_path (''.'' # t)" "\<not> good_path (''..'' # t)" for t
    by (simp_all add: good_path_def good_seg_def)
  show "join_with ''/'' segs \<noteq> []" "join_with ''/'' segs \<noteq> ''.''" "join_with ''/'' segs \<noteq> ''..''"
    "join_with ''/'' segs \<noteq> ''/''"
    using split bad assms by auto
  show "\<not> has_prefix (join_with ''/'' segs) ''../''"
  proof
    assume "has_prefix (join_with ''/'' segs) ''../''"
    then obtain t where "join_with ''/'' segs = ''..'' @ CHR ''/'' # t" by (auto simp: has_prefix_iff)
    with split have "segs = ''..'' # split_on CHR ''/'' t" by (simp add: split_on_prepend)
    with bad assms show False by blast
  qed
qed

lemma path_str_take_0: "path_str (take 0 segs) = ''.''"
  by (simp add: path_str_def)

lemma path_str_good: "good_path segs \<Longrightarrow> path_str segs = join_with ''/'' segs"
  by (auto simp: path_str_def good_path_def)

lemma path_dir_take:
  assumes "good_path segs" and "k < length segs"
  shows "path_dir (join_with ''/'' (take (Suc k) segs)) = path_str (take k segs)"
proof -
  have "take (Suc k) segs = take k segs @ [segs ! k]" using assms(2) by (rule take_Suc_conv_app_nth)
  moreover have "\<forall>s \<in> set (take k segs @ [segs ! k]). good_seg s"
    using good_path_take [OF assms(1), of "Suc k"] \<open>take (Suc k) segs = _\<close> by (simp add: good_path_def)
  ultimately show ?thesis
    using path_dir_str by (metis path_str_def snoc_eq_iff_butlast)
qed

lemma path_dir_good:
  assumes "good_path segs" shows "path_dir (join_with ''/'' segs) = path_str (butlast segs)"
proof -
  obtain k where k: "length segs = Suc k" using assms by (cases segs) (auto simp: good_path_def)
  then show ?thesis using path_dir_take [OF assms, of k] by (simp add: butlast_conv_take)
qed

lemma rel_to_take:
  assumes "good_path segs" and "Suc k < length segs"
  shows "rel_to (join_with ''/'' (take (Suc k) segs)) (join_with ''/'' segs) =
    join_with ''/'' (drop (Suc k) segs)"
proof -
  have "join_with ''/'' segs = (join_with ''/'' (take (Suc k) segs) @ ''/'') @ join_with ''/'' (drop (Suc k) segs)"
    using join_append [of "take (Suc k) segs" "drop (Suc k) segs" "''/''"] assms
    by (simp add: good_path_def)
  moreover have "join_with ''/'' (take (Suc k) segs) \<noteq> []"
    using good_path_join(1) [OF good_path_take [OF assms(1)]] by simp
  ultimately show ?thesis unfolding rel_to_def by (metis trim_prefix_append)
qed

lemma trim_rel_good: "good_path segs \<Longrightarrow> trim_rel (join_with ''/'' segs) = join_with ''/'' segs"
proof -
  assume g: "good_path segs"
  then obtain pre x where x: "segs = pre @ [x]" by (metis good_path_def rev_exhaust)
  have gx: "x \<noteq> []" "CHR ''/'' \<notin> set x" using g x by (simp_all add: good_path_def good_seg_def)
  have "last (join_with ''/'' segs) = last x"
    using x gx by (cases "pre = []") (simp_all add: join_snoc)
  then have "last (join_with ''/'' segs) \<noteq> CHR ''/''" using gx last_in_set by fastforce
  moreover have "hd (join_with ''/'' segs) \<noteq> CHR ''/''"
    using join_not_abs [of segs] g good_path_join(1) [OF g]
    by (cases "join_with ''/'' segs") (auto simp: is_abs_def good_path_def)
  ultimately show ?thesis unfolding trim_rel_def by (intro trim_both_id) blast
qed

section \<open>The refinement\<close>

lemma match_up_spec:
  assumes "good_path segs" and "k < length segs" and "cache_inv E r0 r"
  shows "\<exists>r'. match_up E r (path_str (take k segs)) (join_with ''/'' segs) is_dir =
      Some (spec_up E r0 k segs is_dir, r') \<and> cache_inv E r0 r'"
  using assms(2,3)
proof (induction k arbitrary: r)
  case 0
  obtain pats r1 where p: "patterns_for E r [] = (pats, r1)" by fastforce
  with patterns_for_spec [OF 0(2), of "[]"] have pats: "pats = file_patterns E (root r0) []"
    and inv1: "cache_inv E r0 r1" by simp_all
  obtain ex r2 where x: "info_exclude E r1 = (ex, r2)" by fastforce
  with info_exclude_spec [OF inv1] have ex: "ex = exclude_spec E r0" and inv2: "cache_inv E r0 r2"
    by simp_all
  show ?case
    by (subst match_up.simps)
       (use inv1 inv2 in \<open>auto simp: path_str_def p pats x ex rel_to_def split: option.splits\<close>)
next
  case (Suc k)
  let ?base = "join_with ''/'' (take (Suc k) segs)"
  have g: "good_path (take (Suc k) segs)" by (rule good_path_take [OF assms(1)]) simp
  obtain pats r1 where p: "patterns_for E r ?base = (pats, r1)" by fastforce
  with patterns_for_spec [OF Suc.prems(2), of ?base] have pats: "pats = file_patterns E (root r0) ?base"
    and inv1: "cache_inv E r0 r1" by simp_all
  have "k < length segs" using Suc.prems(1) by simp
  from Suc.IH [OF this inv1] show ?case
    by (subst match_up.simps)
       (use inv1 good_path_join [OF g] in
         \<open>auto simp: path_str_good [OF g] p pats rel_to_take [OF assms(1) Suc.prems(1)]
            path_dir_take [OF assms(1) \<open>k < length segs\<close>] split: option.splits\<close>)
qed

lemma match_rules_spec:
  assumes "good_path segs" and "cache_inv E r0 r"
  shows "\<exists>r'. match_rules E r (join_with ''/'' segs) is_dir = Some (spec_match E r0 segs is_dir, r')
      \<and> cache_inv E r0 r'"
proof -
  have "length segs - 1 < length segs" using assms(1) by (cases segs) (auto simp: good_path_def)
  from match_up_spec [OF assms(1) this assms(2)] show ?thesis
    by (simp add: match_rules_def spec_match_def path_dir_good [OF assms(1)] butlast_conv_take)
qed

lemma spec_excluded_Nil [simp]: "\<not> spec_excluded E r []"
  by (simp add: spec_excluded_def)

lemma spec_excluded_snoc:
  "spec_excluded E r (segs @ [x]) \<longleftrightarrow> spec_excluded E r segs \<or> spec_match E r (segs @ [x]) True"
  by (auto simp: spec_excluded_def list_ex_iff)

lemma good_path_snoc: "good_path (segs @ [x]) \<Longrightarrow> segs \<noteq> [] \<Longrightarrow> good_path segs"
  by (simp add: good_path_def)

lemma cache_inv_verdict:
  assumes "cache_inv E r0 r" and "good_path segs" and "v = spec_excluded E r0 segs"
  shows "cache_inv E r0 (r\<lparr>verdicts := (verdicts r)(join_with ''/'' segs \<mapsto> v)\<rparr>)"
proof -
  have "segs' = segs" if "good_path segs'" "join_with ''/'' segs' = join_with ''/'' segs" for segs'
    using that assms(2) split_join_good by (metis good_path_def)
  then show ?thesis using assms by (auto simp: cache_inv_def)
qed

lemma dir_excluded_spec:
  assumes "good_path segs" and "cache_inv E r0 r"
  shows "\<exists>r'. dir_excluded E r (join_with ''/'' segs) = Some (spec_excluded E r0 segs, r')
      \<and> cache_inv E r0 r'"
  using assms
proof (induction segs arbitrary: r rule: rev_induct)
  case Nil
  then show ?case by (simp add: good_path_def)
next
  case (snoc x segs)
  let ?p = "join_with ''/'' (segs @ [x])"
  show ?case
  proof (cases "verdicts r ?p")
    case (Some v)
    with snoc.prems have "v = spec_excluded E r0 (segs @ [x])" by (simp add: cache_inv_def)
    with Some snoc.prems show ?thesis by (subst dir_excluded.simps) simp
  next
    case None
    have dir: "path_dir ?p = path_str segs" using path_dir_good [OF snoc.prems(1)] by simp
    have "\<exists>r1. (if ?p \<noteq> ''.'' \<and> path_dir ?p \<noteq> ''.'' then dir_excluded E r (path_dir ?p) else Some (False, r))
        = Some (spec_excluded E r0 segs, r1) \<and> cache_inv E r0 r1"
    proof (cases "segs = []")
      case True
      then have "path_dir ?p = ''.''" using dir by (simp add: path_str_def)
      then show ?thesis using snoc.prems True by simp
    next
      case False
      then have g: "good_path segs" using snoc.prems(1) by (rule good_path_snoc [rotated])
      show ?thesis
        using snoc.IH [OF g snoc.prems(2)] good_path_join(2) [OF g]
          good_path_join(2) [OF snoc.prems(1)] by (simp add: dir path_str_good [OF g])
    qed
    then obtain r1 where r1: "(if ?p \<noteq> ''.'' \<and> path_dir ?p \<noteq> ''.'' then dir_excluded E r (path_dir ?p)
        else Some (False, r)) = Some (spec_excluded E r0 segs, r1)" and inv1: "cache_inv E r0 r1" by blast
    obtain r2 where r2: "match_rules E r1 ?p True = Some (spec_match E r0 (segs @ [x]) True, r2)"
      and inv2: "cache_inv E r0 r2" using match_rules_spec [OF snoc.prems(1) inv1] by blast
    show ?thesis
      by (subst dir_excluded.simps)
         (use None r1 r2 inv1 inv2 good_path_join(4) [OF snoc.prems(1)] in
           \<open>auto simp: spec_excluded_snoc Let_def simp del: if_split_asm
              intro!: cache_inv_verdict [OF _ snoc.prems(1)]\<close>)
  qed
qed

lemma ignored_spec:
  assumes "good_path segs" and "cache_inv E r0 r"
  shows "\<exists>r'. ignored E r (join_with ''/'' segs) is_dir = Some (spec_ignored E r0 segs is_dir, r')
      \<and> cache_inv E r0 r'"
proof -
  let ?p = "join_with ''/'' segs"
  have dir: "path_dir ?p = path_str (butlast segs)" using assms(1) by (rule path_dir_good)
  have "\<exists>r1. (if path_dir ?p \<noteq> ''.'' then dir_excluded E r (path_dir ?p) else Some (False, r))
      = Some (spec_excluded E r0 (butlast segs), r1) \<and> cache_inv E r0 r1"
  proof (cases "butlast segs = []")
    case True
    then have "path_dir ?p = ''.''" using dir by (simp add: path_str_def)
    then show ?thesis using assms True by simp
  next
    case False
    then have g: "good_path (butlast segs)" using assms(1) by (auto simp: good_path_def dest: in_set_butlastD)
    show ?thesis using dir_excluded_spec [OF g assms(2)] good_path_join(2) [OF g]
      by (simp add: dir path_str_good [OF g])
  qed
  then obtain r1 where r1: "(if path_dir ?p \<noteq> ''.'' then dir_excluded E r (path_dir ?p) else Some (False, r))
      = Some (spec_excluded E r0 (butlast segs), r1)" and inv1: "cache_inv E r0 r1" by blast
  obtain r2 where r2: "match_rules E r1 ?p is_dir = Some (spec_match E r0 segs is_dir, r2)"
    and inv2: "cache_inv E r0 r2" using match_rules_spec [OF assms(1) inv1] by blast
  show ?thesis
    using r1 r2 inv1 inv2 good_path_join [OF assms(1)] trim_rel_good [OF assms(1)]
      is_tracked_spec(1) [OF inv1, of segs] is_tracked_spec(2) [OF inv1, of ?p]
      is_tracked_spec(1) [OF inv2, of segs] is_tracked_spec(2) [OF inv2, of ?p]
    by (auto simp: ignored_def spec_ignored_def Let_def split: bool.splits prod.splits
        simp del: if_split_asm)
qed

section \<open>Queries in any order\<close>

text \<open>
  What a caller of a memoising query relies on: under the invariant every admissible query
  returns, with the answer of the specification, and leaves the invariant in place. Then a run of
  queries gives the specified answers whatever was asked before and in whatever order.
\<close>

locale memo_query =
  fixes query :: "'s \<Rightarrow> 'q \<Rightarrow> ('a \<times> 's) option" and answer :: "'q \<Rightarrow> 'a"
    and admissible :: "'q \<Rightarrow> bool" and inv :: "'s \<Rightarrow> bool"
  assumes query_ok: "inv s \<Longrightarrow> admissible q \<Longrightarrow> \<exists>s'. query s q = Some (answer q, s') \<and> inv s'"
begin

fun run_queries :: "'s \<Rightarrow> 'q list \<Rightarrow> 'a list option" where
  "run_queries s [] = Some []"
| "run_queries s (q # qs) =
     (case query s q of
        None \<Rightarrow> None
      | Some (a, s') \<Rightarrow> map_option ((#) a) (run_queries s' qs))"

lemma run_queries_answers:
  "inv s \<Longrightarrow> (\<forall>q \<in> set qs. admissible q) \<Longrightarrow> run_queries s qs = Some (map answer qs)"
proof (induction qs arbitrary: s)
  case Nil
  then show ?case by simp
next
  case (Cons q qs)
  then obtain s' where "query s q = Some (answer q, s')" "inv s'" using query_ok by fastforce
  with Cons show ?case by simp
qed

end

text \<open>A sequence of \<open>Ignored\<close> calls on one \<open>Rules\<close> value, as a walk makes them.\<close>

fun ask_all :: "ignore_env \<Rightarrow> rules \<Rightarrow> (string list \<times> bool) list \<Rightarrow> bool list option" where
  "ask_all E r [] = Some []"
| "ask_all E r ((segs, is_dir) # qs) =
     (case ignored E r (join_with ''/'' segs) is_dir of
        None \<Rightarrow> None
      | Some (a, r') \<Rightarrow> map_option ((#) a) (ask_all E r' qs))"

interpretation walk: memo_query
  "\<lambda>r (segs, is_dir). ignored E r (join_with ''/'' segs) is_dir"
  "\<lambda>(segs, is_dir). spec_ignored E r0 segs is_dir"
  "\<lambda>(segs, is_dir). good_path segs"
  "cache_inv E r0" for E r0
  by unfold_locales (auto intro: ignored_spec)

lemma ask_all_run: "ask_all E r qs = walk.run_queries E r qs"
  by (induction qs arbitrary: r) (auto split: option.splits)

section \<open>Tracked paths\<close>

lemma join_good_inject:
  "good_path xs \<Longrightarrow> good_path ys \<Longrightarrow> join_with ''/'' xs = join_with ''/'' ys \<longleftrightarrow> xs = ys"
  unfolding good_path_def by (metis split_join_good)

definition prefixes_of :: "string list \<Rightarrow> string set" where
  "prefixes_of segs = (\<lambda>k. join_with ''/'' (take k segs)) ` {1..length segs}"

lemma prefixes_ofE:
  assumes "p \<in> prefixes_of segs"
  obtains k where "0 < k" "k \<le> length segs" "p = join_with ''/'' (take k segs)"
proof -
  from assms obtain k where "k \<in> {1..length segs}" "p = join_with ''/'' (take k segs)"
    unfolding prefixes_of_def by blast
  then show thesis using that [of k] by simp
qed

lemma prefixes_ofI: "0 < k \<Longrightarrow> k \<le> length segs \<Longrightarrow> join_with ''/'' (take k segs) \<in> prefixes_of segs"
  by (auto simp: prefixes_of_def)

lemma prefixes_of_snoc:
  "prefixes_of (segs @ [x]) = insert (join_with ''/'' (segs @ [x])) (prefixes_of segs)"
  by (auto simp: prefixes_of_def atLeastAtMostSuc_conv intro: image_eqI)

lemma add_parents_good:
  assumes "\<forall>s \<in> set segs. good_seg s"
    and "\<And>k j. k \<le> length segs \<Longrightarrow> join_with ''/'' (take k segs) \<in> t \<Longrightarrow> 0 < j \<Longrightarrow> j \<le> k \<Longrightarrow>
      join_with ''/'' (take j segs) \<in> t"
  shows "add_parents t (path_str segs) = t \<union> prefixes_of segs"
  using assms
proof (induction segs arbitrary: t rule: rev_induct)
  case Nil
  then show ?case by (simp add: add_parents.simps [of t] path_str_def prefixes_of_def)
next
  case (snoc x segs)
  let ?p = "join_with ''/'' (segs @ [x])"
  have g: "good_path (segs @ [x])" using snoc.prems(1) by (simp add: good_path_def)
  show ?case
  proof (cases "?p \<in> t")
    case True
    then have "prefixes_of (segs @ [x]) \<subseteq> t"
      using snoc.prems(2) [of "length (segs @ [x])"] by (auto elim!: prefixes_ofE)
    then show ?thesis using True good_path_join [OF g]
      by (subst add_parents.simps) (auto simp: path_str_good [OF g])
  next
    case False
    have closed: "join_with ''/'' (take j segs) \<in> insert ?p t"
      if "k \<le> length segs" "join_with ''/'' (take k segs) \<in> insert ?p t" "0 < j" "j \<le> k" for k j
    proof -
      have "good_path (take k segs)"
        using g that good_path_take [OF g, of k] by simp
      moreover have "take k segs \<noteq> segs @ [x]" using that(1) by (auto dest: arg_cong [of _ _ length])
      ultimately have "join_with ''/'' (take k segs) \<noteq> ?p" using g by (simp add: join_good_inject)
      then have "join_with ''/'' (take k (segs @ [x])) \<in> t" using that by simp
      then show ?thesis using snoc.prems(2) [of k j] that by simp
    qed
    have "add_parents t (path_str (segs @ [x])) = add_parents (insert ?p t) (path_str segs)"
      using False good_path_join [OF g] path_dir_good [OF g]
      by (subst add_parents.simps) (simp add: path_str_good [OF g])
    also have "\<dots> = insert ?p t \<union> prefixes_of segs"
      by (rule snoc.IH) (use snoc.prems(1) closed in auto)
    finally show ?thesis by (simp add: prefixes_of_snoc)
  qed
qed

lemma add_tracked_good:
  assumes g: "good_path segs" and t: "t = (\<Union>f \<in> F. prefixes_of f)" and F: "\<forall>f \<in> F. good_path f"
  shows "add_tracked t (join_with ''/'' segs) = t \<union> prefixes_of segs"
proof -
  let ?p = "join_with ''/'' segs" and ?b = "butlast segs"
  have bl: "segs = ?b @ [last segs]" using g by (simp add: good_path_def)
  have gb: "\<forall>s \<in> set ?b. good_seg s" using g by (auto simp: good_path_def dest: in_set_butlastD)
  have "add_parents (insert ?p t) (path_str ?b) = insert ?p t \<union> prefixes_of ?b"
  proof (rule add_parents_good [OF gb])
    fix k j
    assume k: "k \<le> length ?b" and el: "join_with ''/'' (take k ?b) \<in> insert ?p t" and j: "0 < j" "j \<le> k"
    have "length ?b > 0" using k j by linarith
    then have "?b \<noteq> []" by (rule length_greater_0_conv [THEN iffD1])
    then have gk: "good_path (take k ?b)" using gb k j by (auto simp: good_path_def dest: in_set_takeD)
    have "length (take k ?b) < length segs" using k j by auto
    moreover have "take k ?b \<noteq> segs" using \<open>length (take k ?b) < length segs\<close> by (metis nat_neq_iff)
    ultimately have "join_with ''/'' (take k ?b) \<noteq> ?p" using gk g join_good_inject by blast
    with el t obtain f where f: "f \<in> F" "join_with ''/'' (take k ?b) \<in> prefixes_of f" by auto
    from f(2) obtain i where i: "0 < i" "i \<le> length f"
      "join_with ''/'' (take k ?b) = join_with ''/'' (take i f)" by (rule prefixes_ofE)
    have "good_path (take i f)" using F f(1) i(1) good_path_take by blast
    with i(3) gk have "take k ?b = take i f" by (simp add: join_good_inject)
    then have "take j ?b = take (min j i) f" using j by (metis min.absorb1 take_take)
    then have "join_with ''/'' (take j ?b) \<in> prefixes_of f"
      using prefixes_ofI [of "min j i" f] j i by simp
    then show "join_with ''/'' (take j ?b) \<in> insert ?p t" using t f(1) by blast
  qed
  then have "add_tracked t ?p = insert ?p t \<union> prefixes_of ?b"
    using good_path_join(1) [OF g] path_dir_good [OF g] by (simp add: add_tracked_def)
  also have "\<dots> = t \<union> insert ?p (prefixes_of ?b)" by blast
  also have "insert ?p (prefixes_of ?b) = prefixes_of segs" by (metis bl prefixes_of_snoc)
  finally show ?thesis .
qed

lemma foldl_add_tracked:
  assumes "\<forall>f \<in> set files. good_path f"
  shows "foldl add_tracked {} (map (join_with ''/'') files) = (\<Union>f \<in> set files. prefixes_of f)"
  using assms
proof (induction files rule: rev_induct)
  case Nil
  then show ?case by simp
next
  case (snoc f files)
  then show ?case using add_tracked_good [of f "\<Union>f \<in> set files. prefixes_of f" "set files"] by auto
qed

text \<open>What \<open>git ls-files -z\<close> prints for a list of paths.\<close>

definition ls_output :: "string list list \<Rightarrow> string" where
  "ls_output files = concat (map (\<lambda>f. join_with ''/'' f @ [CHR 0x00]) files)"

definition listed :: "string list \<Rightarrow> bool" where
  "listed f \<longleftrightarrow> good_path f \<and> CHR 0x00 \<notin> set (join_with ''/'' f)"

lemma split_ls_output:
  "(\<forall>f \<in> set files. listed f) \<Longrightarrow> split_on CHR 0x00 (ls_output files) = map (join_with ''/'') files @ [[]]"
  by (induction files) (auto simp: ls_output_def listed_def split_on_prepend)

lemma spec_tracked_iff:
  assumes "ls_files E = Some (ls_output files)" and "\<forall>f \<in> set files. listed f" and "good_path segs"
  shows "spec_tracked E segs \<longleftrightarrow> (\<exists>f \<in> set files. take (length segs) f = segs)"
proof -
  have good: "\<forall>f \<in> set files. good_path f" using assms(2) by (simp add: listed_def)
  have "spec_tracked E segs \<longleftrightarrow> join_with ''/'' segs \<in> (\<Union>f \<in> set files. prefixes_of f)"
    using assms(1,2) foldl_add_tracked [OF good]
    by (simp add: spec_tracked_def tracked_spec_def split_ls_output add_tracked_def)
  also have "\<dots> \<longleftrightarrow> (\<exists>f \<in> set files. take (length segs) f = segs)"
  proof
    assume "join_with ''/'' segs \<in> (\<Union>f \<in> set files. prefixes_of f)"
    then obtain f where f: "f \<in> set files" "join_with ''/'' segs \<in> prefixes_of f" by blast
    from f(2) obtain k where k: "0 < k" "k \<le> length f"
      "join_with ''/'' segs = join_with ''/'' (take k f)" by (rule prefixes_ofE)
    have "good_path (take k f)" using f(1) k(1) good good_path_take by blast
    with k(3) assms(3) have "segs = take k f" by (simp add: join_good_inject)
    then have "take (length segs) f = segs" using k(2) by simp
    then show "\<exists>f \<in> set files. take (length segs) f = segs" using f(1) by blast
  next
    assume "\<exists>f \<in> set files. take (length segs) f = segs"
    then obtain f where f: "f \<in> set files" "take (length segs) f = segs" by blast
    then have "length segs \<le> length f" by (metis length_take min.cobounded1)
    moreover have "0 < length segs" using assms(3) by (simp add: good_path_def)
    ultimately have "join_with ''/'' segs \<in> prefixes_of f" using prefixes_ofI [of "length segs" f] f(2) by simp
    then show "join_with ''/'' segs \<in> (\<Union>f \<in> set files. prefixes_of f)" using f(1) by blast
  qed
  finally show ?thesis .
qed

section \<open>Properties\<close>

text \<open>
  C10: the lazily filled caches are invisible. Any sequence of queries on a fresh \<open>Rules\<close> value,
  in any order, returns and gives the answers of the cache-free rules: a path is ignored when a
  directory above it is excluded or the winning pattern of the deepest file that has an opinion
  matches it, and git does not track it. What was asked before never changes an answer.
\<close>

theorem ignored_history_independent:
  assumes "\<forall>(segs, is_dir) \<in> set qs. good_path segs"
  shows "ask_all E (new_rules p) qs =
    Some (map (\<lambda>(segs, is_dir). spec_ignored E (new_rules p) segs is_dir) qs)"
  unfolding ask_all_run
  using walk.run_queries_answers [OF cache_inv_new, of qs E p] assms by (auto simp: case_prod_beta')

definition sample_env :: ignore_env where
  "sample_env = \<lparr>
     fs = (\<lambda>p. if p = ''/r/.gitignore'' then Some (File (''build/'' @ [CHR 0x0A] @ ''*.log'' @ [CHR 0x0A]))
            else if p = ''/r/build/.gitignore'' then Some (File ''!keep.log'') else None),
     ls_files = Some (''build/in.c'' @ [CHR 0x00]),
     dmatch = (\<lambda>g p. g = ''**/'' @ p \<or> (g = ''**/*.log'' \<and> has_suffix p ''.log'')),
     dvalid = (\<lambda>_. True)\<rparr>"

lemma sample_patterns:
  "file_patterns sample_env ''/r'' [] =
     [\<lparr>glob = ''**/build'', negate = False, dir_only = True\<rparr>,
      \<lparr>glob = ''**/*.log'', negate = False, dir_only = False\<rparr>]"
  "file_patterns sample_env ''/r'' ''build'' = [\<lparr>glob = ''**/keep.log'', negate = True, dir_only = False\<rparr>]"
  by (simp_all add: go_eval file_patterns_def read_file_def sample_env_def List.map_filter_simps)

lemma sample_exclude: "exclude_spec sample_env (new_rules ''/r'') = []"
  by (simp add: exclude_spec_def git_dir_def sample_env_def go_eval new_rules_def)

lemma sample_root: "root (new_rules ''/r'') = ''/r''"
  by (simp add: new_rules_def go_eval)

lemma sample_tracked: "tracked_spec sample_env = Some {''build'', ''build/in.c''}"
  by (simp add: tracked_spec_def sample_env_def add_tracked_def add_parents.simps go_eval)

lemmas sample_eval = sample_patterns sample_exclude sample_root sample_tracked
  spec_ignored_def spec_excluded_def spec_match_def spec_tracked_def match_in_def numeral_2_eq_2

theorem ignored_history_independent_witness:
  "ask_all sample_env (new_rules ''/r'') [([''build'', ''keep.log''], False), ([''a.log''], False), ([''a.c''], False)] =
     Some [True, True, False]"
proof -
  have h: "\<forall>(segs, is_dir) \<in> set [([''build'', ''keep.log''], False), ([''a.log''], False), ([''a.c''], False)].
      good_path segs"
    by (simp add: good_path_def good_seg_def)
  show ?thesis
    unfolding ignored_history_independent [OF h] by (simp add: sample_eval) (simp add: sample_env_def go_eval)
qed

text \<open>
  C29: what git tracks is never hidden. A file in the output of \<open>git ls-files\<close>, and every directory
  that holds one, is not ignored, whatever the pattern files say about it or about the directories
  above it.
\<close>

theorem tracked_never_ignored:
  assumes "ls_files E = Some (ls_output files)" and "\<forall>f \<in> set files. listed f"
    and "f \<in> set files" and "0 < k" and "k \<le> length f"
  shows "map_option fst (ignored E (new_rules p) (join_with ''/'' (take k f)) is_dir) = Some False"
proof -
  have g: "good_path (take k f)" using assms by (auto simp: listed_def intro: good_path_take)
  have "spec_tracked E (take k f)"
    using spec_tracked_iff [OF assms(1,2) g] assms(3,5) by (auto intro!: bexI [of _ f])
  then have "\<not> spec_ignored E (new_rules p) (take k f) is_dir" by (simp add: spec_ignored_def)
  then show ?thesis using ignored_spec [OF g cache_inv_new, of E p is_dir] by auto
qed

theorem tracked_never_ignored_witness:
  "map_option fst (ignored sample_env (new_rules ''/r'') ''build'' True) = Some False"
proof -
  have l: "ls_files sample_env = Some (ls_output [[''build'', ''in.c'']])"
    by (simp add: sample_env_def ls_output_def)
  have h: "\<forall>f \<in> set [[''build'', ''in.c'']]. listed f"
    by (simp add: listed_def good_path_def good_seg_def)
  show ?thesis
    using tracked_never_ignored [OF l h, of "[''build'', ''in.c'']" 1 "''/r''" True] by simp
qed

text \<open>
  a negation below an excluded directory has nothing to override. Once the rules match a
  directory above an untracked path, the path is ignored, whatever any pattern file says about
  the path itself.
\<close>

theorem excluded_parent_wins:
  assumes "good_path segs" and "0 < k" and "k < length segs"
    and "spec_match E (new_rules p) (take k segs) True" and "\<not> spec_tracked E segs"
  shows "map_option fst (ignored E (new_rules p) (join_with ''/'' segs) is_dir) = Some True"
proof -
  have "spec_excluded E (new_rules p) (butlast segs)"
    unfolding spec_excluded_def list_ex_iff
  proof (rule bexI [of _ k])
    show "spec_match E (new_rules p) (take k (butlast segs)) True"
      using assms by (simp add: butlast_conv_take)
    show "k \<in> set [1..<Suc (length (butlast segs))]" using assms by auto
  qed
  then have "spec_ignored E (new_rules p) segs is_dir" using assms(5) by (simp add: spec_ignored_def)
  then show ?thesis using ignored_spec [OF assms(1) cache_inv_new, of E p is_dir] by auto
qed

theorem excluded_parent_wins_witness:
  "map_option fst (ignored sample_env (new_rules ''/r'') ''build/keep.log'' False) = Some True
   \<and> match_in (dmatch sample_env) (file_patterns sample_env ''/r'' ''build'') ''keep.log'' False = Some False"
proof -
  have g: "good_path [''build'', ''keep.log'']" by (simp add: good_path_def good_seg_def)
  have m: "spec_match sample_env (new_rules ''/r'') (take 1 [''build'', ''keep.log'']) True"
    by (simp add: sample_eval) (simp add: sample_env_def go_eval)
  have t: "\<not> spec_tracked sample_env [''build'', ''keep.log'']" by (simp add: sample_eval)
  have "match_in (dmatch sample_env) (file_patterns sample_env ''/r'' ''build'') ''keep.log'' False = Some False"
    by (simp add: sample_eval) (simp add: sample_env_def)
  then show ?thesis using excluded_parent_wins [OF g _ _ m t, of False] by simp
qed

end
