(* ===== verification/Go_Float.thy ===== *)
theory Go_Float
  imports Complex_Main Ragota_Prelude
begin

text \<open>
  Go's \<open>float32\<close> and \<open>float64\<close> as the rational numbers they denote, with the rounding of every
  operation written out: an operation of the sources is the exact operation followed by
  \<open>f32\<close> or \<open>f64\<close>, round-to-nearest-even to 24 or 53 significant bits with gradual underflow.
  Not modelled: infinities (results beyond the largest finite value), NaN and the sign of zero;
  no score of the program comes near the overflow threshold.

  What the ranking code relies on are the laws collected in the locale \<open>rounding\<close>: rounding
  is monotone, keeps zero, one and every representable number, and does not make a difference
  of distinct numbers vanish. It is interpreted on both formats, so every fact about
  fusion and reranking holds of the rounded arithmetic and not only of exact reals.
\<close>

section \<open>The binade of a positive number\<close>

lemma expo_down: "2 \<le> x \<Longrightarrow> nat \<lfloor>x / 2\<rfloor> < nat \<lfloor>x\<rfloor>" for x :: rat
proof -
  assume "2 \<le> x"
  then have "\<lfloor>x / 2\<rfloor> < \<lfloor>x\<rfloor>" by linarith
  moreover have "2 \<le> \<lfloor>x\<rfloor>" using \<open>2 \<le> x\<close> by linarith
  ultimately show ?thesis by linarith
qed

lemma expo_up:
  fixes x :: rat
  assumes "0 < x" and "x < 1 / 2"
  shows "nat \<lceil>1 / (2 * x)\<rceil> < nat \<lceil>1 / x\<rceil>"
proof -
  have two: "2 < 1 / x" using assms by (simp add: field_simps)
  have "1 / (2 * x) = (1 / x) / 2" by simp
  then have "1 / (2 * x) < 1 / x - 1" using two by linarith
  then have "\<lceil>1 / (2 * x)\<rceil> \<le> \<lceil>1 / x\<rceil> - 1" by linarith
  moreover have "0 < \<lceil>1 / x\<rceil>" using two by linarith
  ultimately show ?thesis by linarith
qed

lemma expo_half:
  fixes x :: rat
  assumes "1 / 2 \<le> x" and "x < 1"
  shows "\<lfloor>2 * x\<rfloor> = 1 \<and> \<lceil>1 / x\<rceil> = 2"
proof -
  have "1 \<le> 2 * x" and "2 * x < 2" using assms by linarith+
  moreover have "1 < 1 / x" and "1 / x \<le> 2" using assms by (simp_all add: field_simps)
  ultimately show ?thesis by linarith
qed

function expo :: "rat \<Rightarrow> int" where
  "expo x = (if x \<le> 0 then 0
     else if 2 \<le> x then 1 + expo (x / 2)
     else if x < 1 then expo (2 * x) - 1
     else 0)"
  by pat_completeness auto

termination
proof (relation "measure (\<lambda>x. if 1 \<le> x then nat \<lfloor>x\<rfloor> else nat \<lceil>1 / x\<rceil>)")
  show "wf (measure (\<lambda>x::rat. if 1 \<le> x then nat \<lfloor>x\<rfloor> else nat \<lceil>1 / x\<rceil>))" by simp
next
  fix x :: rat
  assume "\<not> x \<le> 0" and "2 \<le> x"
  then show "(x / 2, x) \<in> measure (\<lambda>x. if 1 \<le> x then nat \<lfloor>x\<rfloor> else nat \<lceil>1 / x\<rceil>)"
    using expo_down by simp
next
  fix x :: rat
  assume "\<not> x \<le> 0" and "\<not> 2 \<le> x" and "x < 1"
  then show "(2 * x, x) \<in> measure (\<lambda>x. if 1 \<le> x then nat \<lfloor>x\<rfloor> else nat \<lceil>1 / x\<rceil>)"
    using expo_up [of x] expo_half [of x] by (cases "x < 1 / 2") auto
qed

declare expo.simps [simp del]

lemma expo_bounds: "0 < x \<Longrightarrow> 2 powi expo x \<le> x \<and> x < 2 * 2 powi expo x"
proof (induction x rule: expo.induct)
  case (1 x)
  consider (big) "2 \<le> x" | (small) "x < 1" | (one) "1 \<le> x" "x < 2" by linarith
  then show ?case
  proof cases
    case big
    then have "expo x = 1 + expo (x / 2)" using 1 by (subst expo.simps) simp
    moreover have "2 powi expo (x / 2) \<le> x / 2 \<and> x / 2 < 2 * 2 powi expo (x / 2)"
      using 1 big by simp
    ultimately show ?thesis by (simp add: power_int_add)
  next
    case small
    then have "expo x = expo (2 * x) - 1" using 1 by (subst expo.simps) simp
    moreover have "2 powi expo (2 * x) \<le> 2 * x \<and> 2 * x < 2 * 2 powi expo (2 * x)"
      using 1 small by simp
    ultimately show ?thesis by (simp add: power_int_diff)
  next
    case one
    then have "expo x = 0" using 1 by (subst expo.simps) simp
    then show ?thesis using one by simp
  qed
qed

lemma powi_less_iff: "(2::rat) powi a < 2 powi b \<longleftrightarrow> a < b"
proof
  assume "(2::rat) powi a < 2 powi b"
  then show "a < b"
    using power_int_increasing [of b a "2::rat"] by (cases "a < b") auto
next
  assume "a < b"
  then show "(2::rat) powi a < 2 powi b" by (intro power_int_strict_increasing) auto
qed

lemma powi_le_iff: "(2::rat) powi a \<le> 2 powi b \<longleftrightarrow> a \<le> b"
  using powi_less_iff [of b a] by linarith

lemma expo_mono: "0 < x \<Longrightarrow> x \<le> y \<Longrightarrow> expo x \<le> expo y"
proof -
  assume "0 < x" and "x \<le> y"
  have "2 powi expo x \<le> x" using expo_bounds \<open>0 < x\<close> by blast
  also have "\<dots> \<le> y" by fact
  also have "\<dots> < 2 * 2 powi expo y" using expo_bounds \<open>0 < x\<close> \<open>x \<le> y\<close> by auto
  also have "2 * 2 powi expo y = (2::rat) powi (1 + expo y)" by (simp add: power_int_add)
  finally have "(2::rat) powi expo x < 2 powi (1 + expo y)" .
  then show ?thesis by (simp only: powi_less_iff)
qed

section \<open>Rounding\<close>

definition round_even :: "rat \<Rightarrow> int" where
  "round_even y = (let n = \<lfloor>y\<rfloor>; r = y - of_int n in
     if r < 1 / 2 then n else if 1 / 2 < r then n + 1 else if even n then n else n + 1)"

lemma round_even_mono: "x \<le> y \<Longrightarrow> round_even x \<le> round_even y"
proof -
  assume le: "x \<le> y"
  then have "\<lfloor>x\<rfloor> \<le> \<lfloor>y\<rfloor>" by (rule floor_mono)
  moreover have "\<lfloor>x\<rfloor> = \<lfloor>y\<rfloor> \<Longrightarrow> x - of_int \<lfloor>x\<rfloor> \<le> y - of_int \<lfloor>y\<rfloor>" using le by simp
  moreover have "\<lfloor>x\<rfloor> \<noteq> \<lfloor>y\<rfloor> \<Longrightarrow> \<lfloor>x\<rfloor> + 1 \<le> \<lfloor>y\<rfloor>" using calculation(1) by linarith
  ultimately show ?thesis
    by (cases "\<lfloor>x\<rfloor> = \<lfloor>y\<rfloor>") (simp add: round_even_def Let_def, linarith?, simp add: round_even_def Let_def)
qed

lemma round_even_of_int [simp]: "round_even (of_int n) = n"
  by (simp add: round_even_def)

lemma round_even_le: "y \<le> of_int n \<Longrightarrow> round_even y \<le> n"
  using round_even_mono [of y "of_int n"] by simp

lemma round_even_ge: "of_int n \<le> y \<Longrightarrow> n \<le> round_even y"
  using round_even_mono [of "of_int n" y] by simp

lemma round_even_minus: "round_even (- y) = - round_even y"
proof (cases "y = of_int \<lfloor>y\<rfloor>")
  case True
  then have "- y = of_int (- \<lfloor>y\<rfloor>)" by simp
  then have "round_even (- y) = - \<lfloor>y\<rfloor>" by (metis round_even_of_int)
  then show ?thesis using True by (metis round_even_of_int)
next
  case False
  have "\<lfloor>- y\<rfloor> = - \<lfloor>y\<rfloor> - 1"
  proof (rule floor_unique)
    show "of_int (- \<lfloor>y\<rfloor> - 1) \<le> - y" by (simp, linarith)
    show "- y < of_int (- \<lfloor>y\<rfloor> - 1) + 1" using False of_int_floor_le [of y] by linarith
  qed
  then show ?thesis by (auto simp: round_even_def Let_def)
qed

text \<open>
  \<open>ulp p emin x\<close> is the distance of neighbouring representable numbers around \<open>x\<close> in a
  format with \<open>p\<close> significant bits and least exponent \<open>emin\<close>.
\<close>

definition ulp :: "nat \<Rightarrow> int \<Rightarrow> rat \<Rightarrow> rat" where
  "ulp p emin x = 2 powi (max (expo \<bar>x\<bar>) emin - (int p - 1))"

definition round_fp :: "nat \<Rightarrow> int \<Rightarrow> rat \<Rightarrow> rat" where
  "round_fp p emin x = (if x = 0 then 0 else of_int (round_even (x / ulp p emin x)) * ulp p emin x)"

definition f32 :: "rat \<Rightarrow> rat" where "f32 = round_fp 24 (- 126)"
definition f64 :: "rat \<Rightarrow> rat" where "f64 = round_fp 53 (- 1022)"

lemma ulp_pos: "0 < ulp p emin x"
  by (simp add: ulp_def)

lemma ulp_minus: "ulp p emin (- x) = ulp p emin x"
  by (simp add: ulp_def)

lemma round_fp_minus: "round_fp p emin (- x) = - round_fp p emin x"
  by (simp add: round_fp_def ulp_minus round_even_minus)

lemma round_fp_0 [simp]: "round_fp p emin 0 = 0"
  by (simp add: round_fp_def)

lemma round_fp_nonneg: "0 \<le> x \<Longrightarrow> 0 \<le> round_fp p emin x"
  using ulp_pos [of p emin x] round_even_ge [of 0 "x / ulp p emin x"]
  by (auto simp: round_fp_def intro!: mult_nonneg_nonneg)

text \<open>Rounding does not cross a power of two: the ends of a binade are representable.\<close>

lemma round_fp_below:
  assumes "0 < x" and "0 < p" and "x \<le> 2 powi k" and "max (expo x) emin < k"
  shows "round_fp p emin x \<le> 2 powi k"
proof -
  define u where "u = ulp p emin x"
  define m where "m = k - (max (expo x) emin - (int p - 1))"
  have u: "0 < u" by (simp add: u_def ulp_pos)
  have m: "0 \<le> m" unfolding m_def using assms(2,4) by linarith
  have k: "2 powi k = of_int (2 ^ nat m) * u"
  proof -
    have "k = m + (max (expo x) emin - (int p - 1))" by (simp add: m_def)
    then have "(2::rat) powi k = 2 powi m * u"
      using assms(1) by (simp add: u_def ulp_def power_int_add)
    moreover have "(2::rat) powi m = of_int (2 ^ nat m)" using m by (simp add: power_int_def)
    ultimately show ?thesis by simp
  qed
  then have "x / u \<le> of_int (2 ^ nat m)" using assms(3) u by (simp add: field_simps)
  then have "round_even (x / u) \<le> 2 ^ nat m" by (rule round_even_le)
  then have "(of_int (round_even (x / u)) :: rat) \<le> of_int (2 ^ nat m)" by (simp only: of_int_le_iff)
  then have "of_int (round_even (x / u)) * u \<le> of_int (2 ^ nat m) * u"
    by (rule mult_right_mono) (use u in simp)
  then show ?thesis using assms(1) k by (simp add: round_fp_def u_def)
qed

lemma round_fp_above:
  assumes "0 < y" and "0 < p" and "k \<le> expo y" and "emin \<le> k"
  shows "2 powi k \<le> round_fp p emin y"
proof -
  define u where "u = ulp p emin y"
  have u: "0 < u" by (simp add: u_def ulp_pos)
  have e: "max (expo y) emin = expo y" using assms by simp
  have top: "2 powi expo y = of_int (2 ^ nat (int p - 1)) * u"
  proof -
    have "(2::rat) powi expo y = 2 powi (int p - 1) * u"
      using assms(1) by (simp add: u_def ulp_def e flip: power_int_add)
    then show ?thesis using assms(2) by (simp add: power_int_def)
  qed
  then have "of_int (2 ^ nat (int p - 1)) \<le> y / u"
    using expo_bounds [OF assms(1)] u by (simp add: field_simps)
  then have "2 ^ nat (int p - 1) \<le> round_even (y / u)" by (rule round_even_ge)
  then have "(of_int (2 ^ nat (int p - 1)) :: rat) \<le> of_int (round_even (y / u))"
    by (simp only: of_int_le_iff)
  then have "2 powi expo y \<le> of_int (round_even (y / u)) * u"
    unfolding top by (rule mult_right_mono) (use u in simp)
  moreover have "(2::rat) powi k \<le> 2 powi expo y" using assms by (simp only: powi_le_iff)
  ultimately show ?thesis using assms(1) by (simp add: round_fp_def u_def)
qed

lemma round_fp_mono_pos:
  assumes "0 < x" and "x \<le> y" and "0 < p"
  shows "round_fp p emin x \<le> round_fp p emin y"
proof (cases "max (expo x) emin = max (expo y) emin")
  case True
  then have u: "ulp p emin x = ulp p emin y" using assms by (simp add: ulp_def)
  have "x / ulp p emin y \<le> y / ulp p emin y"
    by (rule divide_right_mono) (use assms ulp_pos [of p emin y] in auto)
  then have "round_even (x / ulp p emin y) \<le> round_even (y / ulp p emin y)" by (rule round_even_mono)
  then show ?thesis
    using assms ulp_pos [of p emin y] by (auto simp: round_fp_def u intro!: mult_right_mono)
next
  case False
  have "expo x \<le> expo y" using assms by (intro expo_mono) auto
  then have lt: "max (expo x) emin < expo y" and e: "emin \<le> expo y" using False by auto
  have "x < 2 * 2 powi expo x" using expo_bounds assms by blast
  also have "\<dots> = 2 powi (1 + expo x)" by (simp add: power_int_add)
  also have "\<dots> \<le> 2 powi expo y" unfolding powi_le_iff using lt by simp
  finally have "x \<le> 2 powi expo y" by simp
  then have "round_fp p emin x \<le> 2 powi expo y" using assms lt by (intro round_fp_below) auto
  also have "\<dots> \<le> round_fp p emin y" using assms e by (intro round_fp_above) auto
  finally show ?thesis .
qed

lemma round_fp_mono:
  assumes "x \<le> y" and "0 < p"
  shows "round_fp p emin x \<le> round_fp p emin y"
proof -
  consider (pos) "0 < x" | (mid) "x \<le> 0" "0 \<le> y" | (neg) "y < 0" by linarith
  then show ?thesis
  proof cases
    case pos
    then show ?thesis using assms by (intro round_fp_mono_pos)
  next
    case mid
    have "0 \<le> round_fp p emin (- x)" using mid by (intro round_fp_nonneg) simp
    moreover have "0 \<le> round_fp p emin y" using mid by (intro round_fp_nonneg)
    ultimately show ?thesis unfolding round_fp_minus by linarith
  next
    case neg
    have "round_fp p emin (- y) \<le> round_fp p emin (- x)"
      using assms neg by (intro round_fp_mono_pos) auto
    then show ?thesis by (simp add: round_fp_minus)
  qed
qed

lemma round_fp_1: "0 < p \<Longrightarrow> emin \<le> 0 \<Longrightarrow> round_fp p emin 1 = 1"
proof -
  assume p: "0 < p" and e: "emin \<le> 0"
  have x: "expo 1 = 0" by (subst expo.simps) simp
  have "(1::rat) / 2 powi (- (int p - 1)) = of_int (2 ^ nat (int p - 1))"
    by (subst power_int_minus) (use p in \<open>simp add: power_int_def divide_inverse\<close>)
  then have "round_even (1 / 2 powi (- (int p - 1))) = 2 ^ nat (int p - 1)"
    by (metis round_even_of_int)
  moreover have "ulp p emin 1 = 2 powi (- (int p - 1))" using e by (simp add: ulp_def x)
  moreover have "(2::rat) powi (- (int p - 1)) = 1 / 2 ^ nat (int p - 1)"
    by (subst power_int_minus) (use p in \<open>simp add: power_int_def divide_inverse\<close>)
  ultimately show ?thesis by (simp add: round_fp_def)
qed

lemma expo_unique: "0 < x \<Longrightarrow> 2 powi k \<le> x \<Longrightarrow> x < 2 * 2 powi k \<Longrightarrow> expo x = k"
proof -
  assume x: "0 < x" "2 powi k \<le> x" "x < 2 * 2 powi k"
  have b: "2 powi expo x \<le> x" "x < 2 * 2 powi expo x" using expo_bounds x by auto
  have two: "2 * (2::rat) powi j = 2 powi (1 + j)" for j by (simp add: power_int_add)
  have "(2::rat) powi expo x < 2 powi (1 + k)" using b x by (simp flip: two)
  moreover have "(2::rat) powi k < 2 powi (1 + expo x)" using b x by (simp flip: two)
  ultimately show ?thesis by (simp only: powi_less_iff)
qed

lemma round_fp_on_grid: "x / ulp p emin x = of_int n \<Longrightarrow> round_fp p emin x = x"
proof -
  assume n: "x / ulp p emin x = of_int n"
  then have "x = of_int n * ulp p emin x" using ulp_pos [of p emin x] by (simp add: field_simps)
  then show ?thesis using n by (simp add: round_fp_def)
qed

text \<open>A rounded number is representable: rounding it again changes nothing.\<close>

lemma round_fp_idem_pos:
  assumes "0 < x" and "0 < p"
  shows "round_fp p emin (round_fp p emin x) = round_fp p emin x"
proof (cases "round_fp p emin x = 0")
  case True
  then show ?thesis by simp
next
  case False
  define y where "y = round_fp p emin x"
  define E where "E = max (expo x) emin"
  define n where "n = round_even (x / ulp p emin x)"
  have y: "0 < y" using False round_fp_nonneg [of x p emin] assms by (simp add: y_def)
  have yn: "y = of_int n * 2 powi (E - (int p - 1))"
    using assms by (simp add: y_def round_fp_def ulp_def E_def n_def)
  have "x < 2 * 2 powi expo x" using expo_bounds assms by blast
  also have "\<dots> = 2 powi (1 + expo x)" by (simp add: power_int_add)
  also have "\<dots> \<le> 2 powi (E + 1)" unfolding powi_le_iff by (simp add: E_def)
  finally have top: "y \<le> 2 powi (E + 1)"
    unfolding y_def using assms by (intro round_fp_below) (auto simp: E_def)
  show ?thesis
  proof (cases "y = 2 powi (E + 1)")
    case True
    then have e: "expo y = E + 1" using y by (intro expo_unique) auto
    have "y / ulp p emin y = of_int (2 ^ nat (int p - 1))"
    proof -
      have "ulp p emin y = 2 powi (E + 1 - (int p - 1))"
        using y e by (simp add: ulp_def E_def max_def)
      moreover have "y = 2 powi (E + 1 - (int p - 1)) * 2 powi (int p - 1)"
        unfolding True by (simp add: add.commute flip: power_int_add)
      ultimately show ?thesis using assms by (simp add: power_int_def)
    qed
    then show ?thesis unfolding y_def [symmetric] by (rule round_fp_on_grid)
  next
    case False
    have "2 powi expo y \<le> y" using expo_bounds y by blast
    then have "(2::rat) powi expo y < 2 powi (E + 1)" using False top by linarith
    then have up: "expo y \<le> E" by (simp only: powi_less_iff)
    have "max (expo y) emin = E"
    proof (cases "emin \<le> expo x")
      case True
      then have "E = expo x" by (simp add: E_def)
      then have "(2::rat) powi E \<le> y" unfolding y_def using True assms by (intro round_fp_above) auto
      also have "y < 2 * 2 powi expo y" using expo_bounds y by blast
      also have "2 * (2::rat) powi expo y = 2 powi (1 + expo y)" by (simp add: power_int_add)
      finally have "E < 1 + expo y" by (simp only: powi_less_iff)
      then show ?thesis using up True \<open>E = expo x\<close> by simp
    next
      case False
      then show ?thesis using up by (simp add: E_def)
    qed
    then have "y / ulp p emin y = of_int n" using y yn by (simp add: ulp_def)
    then show ?thesis unfolding y_def [symmetric] by (rule round_fp_on_grid)
  qed
qed

lemma round_fp_idem: "0 < p \<Longrightarrow> round_fp p emin (round_fp p emin x) = round_fp p emin x"
proof -
  assume p: "0 < p"
  consider "x = 0" | "0 < x" | "0 < - x" by linarith
  then show ?thesis
    using round_fp_idem_pos p round_fp_idem_pos [of "- x" p emin] by cases (auto simp: round_fp_minus)
qed

text \<open>Every rounded number is a multiple of the least positive one, so differences do not vanish.\<close>

lemma round_fp_multiple: "\<exists>n. round_fp p emin x = of_int n * 2 powi (emin - (int p - 1))"
proof (cases "x = 0")
  case True
  then have "round_fp p emin x = of_int 0 * 2 powi (emin - (int p - 1))" by simp
  then show ?thesis by blast
next
  case False
  define j where "j = max (expo \<bar>x\<bar>) emin - emin"
  have "max (expo \<bar>x\<bar>) emin - (int p - 1) = j + (emin - (int p - 1))" by (simp add: j_def)
  then have "ulp p emin x = 2 powi j * 2 powi (emin - (int p - 1))"
    unfolding ulp_def using power_int_add [of "2::rat" j "emin - (int p - 1)"]
    by (metis zero_neq_numeral)
  moreover have "(2::rat) powi j = of_int (2 ^ nat j)" by (simp add: power_int_def j_def)
  ultimately have "round_fp p emin x =
      of_int (round_even (x / ulp p emin x) * 2 ^ nat j) * 2 powi (emin - (int p - 1))"
    using False by (simp add: round_fp_def)
  then show ?thesis by blast
qed

lemma round_fp_diff_pos:
  assumes "round_fp p emin x < round_fp p emin y" and "0 < p"
  shows "0 < round_fp p emin (round_fp p emin y - round_fp p emin x)"
proof -
  define q :: rat where "q = 2 powi (emin - (int p - 1))"
  have q: "0 < q" by (simp add: q_def)
  obtain m n where mn: "round_fp p emin x = of_int m * q" "round_fp p emin y = of_int n * q"
    using round_fp_multiple unfolding q_def by meson
  then have "of_int m * q < of_int n * q" using assms(1) by simp
  then have "m < n" using q by simp
  then have "(1::rat) \<le> of_int (n - m)" by linarith
  then have "1 * q \<le> of_int (n - m) * q" using q by (intro mult_right_mono) auto
  then have "q \<le> round_fp p emin y - round_fp p emin x" by (simp add: mn left_diff_distrib)
  moreover have "round_fp p emin q = q"
  proof (rule round_fp_on_grid)
    have "expo q = emin - (int p - 1)" using q by (intro expo_unique) (auto simp: q_def)
    then have "ulp p emin q = q" using q assms(2) by (simp add: ulp_def q_def)
    then show "q / ulp p emin q = of_int 1" using q by simp
  qed
  ultimately show ?thesis using round_fp_mono [OF _ assms(2)] q by (metis less_le_trans)
qed

text \<open>For evaluation: the floor of a fraction of numerals.\<close>

lemma floor_rat_numeral: "\<lfloor>numeral a / numeral b :: rat\<rfloor> = numeral a div numeral b"
  by (metis floor_divide_of_int_eq of_int_numeral)

lemma floor_rat_one: "\<lfloor>1 / numeral b :: rat\<rfloor> = 1 div numeral b"
  by (metis floor_divide_of_int_eq of_int_1 of_int_numeral)

lemma floor_rat_minus: "\<lfloor>- (numeral a / numeral b) :: rat\<rfloor> = - numeral a div numeral b"
  by (metis divide_minus_left floor_divide_of_int_eq of_int_neg_numeral of_int_numeral)

lemmas float_eval = f32_def f64_def round_fp_def ulp_def expo.simps round_even_def
  power_int_def power_divide Let_def floor_rat_numeral floor_rat_one floor_rat_minus

section \<open>The laws the ranking code rests on\<close>

locale rounding =
  fixes rnd :: "rat \<Rightarrow> rat"
  assumes rnd_mono: "x \<le> y \<Longrightarrow> rnd x \<le> rnd y"
    and rnd_0 [simp]: "rnd 0 = 0"
    and rnd_1 [simp]: "rnd 1 = 1"
    and rnd_idem [simp]: "rnd (rnd x) = rnd x"
    and rnd_diff_pos: "rnd x < rnd y \<Longrightarrow> 0 < rnd (rnd y - rnd x)"
begin

text \<open>A number that the format can represent.\<close>

definition representable :: "rat \<Rightarrow> bool" where
  "representable x \<longleftrightarrow> rnd x = x"

lemma representable_rnd [simp]: "representable (rnd x)"
  by (simp add: representable_def)

lemma rnd_ge: "representable x \<Longrightarrow> x \<le> y \<Longrightarrow> x \<le> rnd y"
  using rnd_mono [of x y] by (simp add: representable_def)

lemma rnd_le: "representable y \<Longrightarrow> x \<le> y \<Longrightarrow> rnd x \<le> y"
  using rnd_mono [of x y] by (simp add: representable_def)

lemma diff_pos: "representable x \<Longrightarrow> representable y \<Longrightarrow> x < y \<Longrightarrow> 0 < rnd (y - x)"
  using rnd_diff_pos [of x y] by (simp add: representable_def)

lemma rnd_nonneg: "0 \<le> x \<Longrightarrow> 0 \<le> rnd x"
  using rnd_mono [of 0 x] by simp

lemma rnd_le_1: "x \<le> 1 \<Longrightarrow> rnd x \<le> 1"
  using rnd_mono [of x 1] by simp

lemma rnd_unit: "0 \<le> x \<Longrightarrow> x \<le> 1 \<Longrightarrow> 0 \<le> rnd x \<and> rnd x \<le> 1"
  using rnd_nonneg rnd_le_1 by blast

lemma rnd_less_imp: "rnd x < rnd y \<Longrightarrow> x < y"
  using rnd_mono [of y x] by linarith

text \<open>The quotient of two rounded differences of a part and the whole is a fraction.\<close>

lemma rnd_fraction:
  assumes "lo \<le> x" and "x \<le> hi"
  shows "0 \<le> rnd (rnd (x - lo) / rnd (hi - lo)) \<and> rnd (rnd (x - lo) / rnd (hi - lo)) \<le> 1"
proof -
  have 0: "0 \<le> rnd (x - lo)" using assms by (intro rnd_nonneg) simp
  have le: "rnd (x - lo) \<le> rnd (hi - lo)" using assms by (intro rnd_mono) simp
  have "0 \<le> rnd (x - lo) / rnd (hi - lo)" using 0 le by simp
  moreover have "rnd (x - lo) / rnd (hi - lo) \<le> 1"
    using 0 le by (cases "rnd (hi - lo) = 0") (auto simp: divide_le_eq)
  ultimately show ?thesis by (rule rnd_unit)
qed

lemma rnd_fraction_mono:
  assumes "x \<le> y" and "lo \<le> hi"
  shows "rnd (rnd (x - lo) / rnd (hi - lo)) \<le> rnd (rnd (y - lo) / rnd (hi - lo))"
proof -
  have "0 \<le> rnd (hi - lo)" using assms by (intro rnd_nonneg) simp
  moreover have "rnd (x - lo) \<le> rnd (y - lo)" using assms by (intro rnd_mono) simp
  ultimately have "rnd (x - lo) / rnd (hi - lo) \<le> rnd (y - lo) / rnd (hi - lo)"
    by (intro divide_right_mono)
  then show ?thesis by (rule rnd_mono)
qed

end

interpretation f32: rounding f32
  by unfold_locales (auto simp: f32_def round_fp_mono round_fp_1 round_fp_idem round_fp_diff_pos)

interpretation f64: rounding f64
  by unfold_locales (auto simp: f64_def round_fp_mono round_fp_1 round_fp_idem round_fp_diff_pos)

text \<open>A product with a factor above one half does not underflow to zero.\<close>

lemma round_fp_pos:
  assumes "0 < p" and "2 powi (emin - (int p - 1)) / 2 < y"
  shows "0 < round_fp p emin y"
proof -
  define q :: rat where "q = 2 powi (emin - (int p - 1))"
  have q: "0 < q" by (simp add: q_def)
  have ulp_q: "ulp p emin z = q" if "0 < z" "z \<le> q" for z
  proof -
    have "expo q = emin - (int p - 1)" using q by (intro expo_unique) (auto simp: q_def)
    then have "expo z \<le> emin" using expo_mono [OF that] assms(1) by simp
    then show ?thesis using that by (simp add: ulp_def q_def max_def)
  qed
  show ?thesis
  proof (cases "q \<le> y")
    case True
    have "round_fp p emin q = q" using ulp_q [of q] q by (intro round_fp_on_grid [of _ _ _ 1]) simp
    then show ?thesis using round_fp_mono [OF True assms(1), of emin] q by simp
  next
    case False
    have y: "q / 2 < y" using assms(2) by (simp add: q_def)
    then have pos: "0 < y" using q by simp
    have "1 / 2 < y / q" "y / q < 1" using y False q by (simp_all add: field_simps)
    moreover have "\<lfloor>y / q\<rfloor> = 0" using pos q \<open>y / q < 1\<close> by (intro floor_unique) simp_all
    ultimately have "round_even (y / q) = 1" by (simp add: round_even_def)
    then show ?thesis using pos q ulp_q [OF pos] False by (simp add: round_fp_def)
  qed
qed

lemma f32_scale_pos:
  assumes "f32.representable s" and "0 < s" and "1 / 2 < c"
  shows "0 < f32 (s * c)"
proof -
  define q :: rat where "q = 2 powi (- 126 - (int 24 - 1))"
  have q: "0 < q" by (simp add: q_def)
  have s: "round_fp 24 (- 126) s = s" using assms(1) unfolding f32.representable_def by (simp only: f32_def)
  obtain n where n: "s = of_int n * q"
    using round_fp_multiple [of 24 "- 126" s] unfolding s q_def by blast
  then have "0 < n" using assms(2) q by (simp add: zero_less_mult_iff)
  then have "q \<le> s" using q n by (simp add: mult_le_cancel_right2)
  then have "q * c \<le> s * c" using assms(3) by (intro mult_right_mono) simp_all
  moreover have "q / 2 < q * c" using mult_strict_left_mono [OF assms(3) q] by simp
  ultimately have "q / 2 < s * c" by simp
  then show ?thesis using round_fp_pos [of 24 "- 126" "s * c"] by (simp only: f32_def q_def zero_less_numeral True_implies_equals)
qed

end
