(* ===== verification/Search_Hits.thy ===== *)
theory Search_Hits
  imports Go_Strings Go_Float
begin

text \<open>
  The search interface of \<open>internal/index/interface.go\<close>: hits, their keys and line ranges, the
  order results are served in, queries and the filter language.

  A hit's score is the number its \<open>float32\<close> denotes. A \<open>*Hit\<close> is modelled as the record it
  points to; a nil hit is not a value of the model (the sort that every result list goes
  through dereferences each of its elements).
\<close>

section \<open>Sources, hits and results\<close>

datatype index_type = AST | Vector | BM25 | Custom

definition type_name :: "index_type \<Rightarrow> string" where
  "type_name t = (case t of AST \<Rightarrow> ''ast'' | Vector \<Rightarrow> ''vector'' | BM25 \<Rightarrow> ''bm25'' | Custom \<Rightarrow> ''custom'')"

record hit =
  h_repo :: string
  h_file :: string
  h_path :: string
  h_line :: int
  h_end :: int
  h_symbol :: string
  h_kind :: string
  h_lang :: string
  h_score :: rat
  h_snippet :: string
  h_reason :: string

definition hit_key :: "hit \<Rightarrow> string" where
  "hit_key h = h_repo h @ '':'' @ h_file h @ '':'' @ itoa (h_line h) @ '':'' @ itoa (h_end h)"

definition hit_range :: "hit \<Rightarrow> int \<times> int" where
  "hit_range h = (let s = h_line h; e = h_end h in (s, if e < s then s else e))"

definition overlaps :: "hit \<Rightarrow> hit \<Rightarrow> bool" where
  "overlaps h k =
     (if h_repo h \<noteq> h_repo k \<or> h_file h \<noteq> h_file k then False
      else let (s1, e1) = hit_range h; (s2, e2) = hit_range k in s1 \<le> e2 \<and> s2 \<le> e1)"

text \<open>The lines of a file a hit covers, as the pairs of the file and a line number.\<close>

definition hit_lines :: "hit \<Rightarrow> (string \<times> string \<times> int) set" where
  "hit_lines h = {(h_repo h, h_file h, l) | l. fst (hit_range h) \<le> l \<and> l \<le> snd (hit_range h)}"

lemma range_ordered: "fst (hit_range h) \<le> snd (hit_range h)"
  by (simp add: hit_range_def Let_def)

lemma overlaps_refl [simp]: "overlaps h h"
  by (simp add: overlaps_def hit_range_def Let_def)

lemma overlaps_sym: "overlaps h k = overlaps k h"
  by (auto simp: overlaps_def hit_range_def Let_def)

lemma overlaps_file: "overlaps h k \<Longrightarrow> h_repo h = h_repo k \<and> h_file h = h_file k"
  by (auto simp: overlaps_def split: if_splits)

text \<open>two hits overlap exactly when some line of some file belongs to both.\<close>

theorem overlaps_iff_common_line: "overlaps h k = (hit_lines h \<inter> hit_lines k \<noteq> {})"
proof
  assume o: "overlaps h k"
  obtain s1 e1 s2 e2 where r: "hit_range h = (s1, e1)" "hit_range k = (s2, e2)" by fastforce
  have "s1 \<le> e1" "s2 \<le> e2" using range_ordered [of h] range_ordered [of k] r by simp_all
  then have "(h_repo h, h_file h, max s1 s2) \<in> hit_lines h \<inter> hit_lines k"
    using o r overlaps_file [OF o] by (auto simp: hit_lines_def overlaps_def)
  then show "hit_lines h \<inter> hit_lines k \<noteq> {}" by blast
next
  assume "hit_lines h \<inter> hit_lines k \<noteq> {}"
  then show "overlaps h k" by (force simp: hit_lines_def overlaps_def split: prod.split)
qed

text \<open>
  the key of a hit identifies its repository, its file and its lines, provided repository
  identifiers hold no colon (file paths may).
\<close>

theorem hit_key_identifies:
  assumes "CHR '':'' \<notin> set (h_repo h)" and "CHR '':'' \<notin> set (h_repo k)"
  shows "hit_key h = hit_key k \<longleftrightarrow>
    h_repo h = h_repo k \<and> h_file h = h_file k \<and> h_line h = h_line k \<and> h_end h = h_end k"
proof
  let ?c = "CHR '':''"
  assume eq: "hit_key h = hit_key k"
  have last: "a = b \<and> u = v"
    if "a @ ?c # itoa u = b @ ?c # itoa v" for a b u v
    using that split_on_tail [of a ?c "itoa u" b "itoa v"] itoa_no_colon by simp
  from eq have "h_repo h @ ?c # (h_file h @ ?c # itoa (h_line h) @ ?c # itoa (h_end h))
      = h_repo k @ ?c # (h_file k @ ?c # itoa (h_line k) @ ?c # itoa (h_end k))"
    by (simp add: hit_key_def)
  then have repo: "h_repo h = h_repo k"
    and rest: "h_file h @ ?c # itoa (h_line h) @ ?c # itoa (h_end h)
      = h_file k @ ?c # itoa (h_line k) @ ?c # itoa (h_end k)"
    using split_on_head [of "h_repo h" ?c _ "h_repo k"] assms by blast+
  from rest have "(h_file h @ ?c # itoa (h_line h)) @ ?c # itoa (h_end h)
      = (h_file k @ ?c # itoa (h_line k)) @ ?c # itoa (h_end k)" by simp
  then have "h_file h @ ?c # itoa (h_line h) = h_file k @ ?c # itoa (h_line k)"
    and "h_end h = h_end k" using last by blast+
  with last repo show "h_repo h = h_repo k \<and> h_file h = h_file k \<and> h_line h = h_line k \<and> h_end h = h_end k"
    by blast
qed (simp add: hit_key_def)

theorem hit_key_identifies_witness:
  "\<exists>h k. CHR '':'' \<notin> set (h_repo h) \<and> CHR '':'' \<notin> set (h_repo k) \<and> hit_key h \<noteq> hit_key k"
proof -
  let ?h = "\<lparr> h_repo = ''r'', h_file = ''a:b'', h_path = [], h_line = 3, h_end = 9, h_symbol = [],
    h_kind = [], h_lang = [], h_score = 0, h_snippet = [], h_reason = [] \<rparr>"
  let ?k = "?h\<lparr> h_file := ''a'' \<rparr>"
  have "hit_key ?h \<noteq> hit_key ?k" by (subst hit_key_identifies) simp_all
  moreover have "CHR '':'' \<notin> set (h_repo ?h)" and "CHR '':'' \<notin> set (h_repo ?k)" by simp_all
  ultimately show ?thesis by blast
qed

section \<open>The served order\<close>

text \<open>
  The comparison of \<open>sortHits\<close>: score descending, then repository, file and line ascending.
  \<open>sort.Slice\<close> is not stable; the model takes the stable arrangement, which is the only one
  when no two hits tie on all four keys (\<open>sort_hits_deterministic\<close>).
\<close>

definition hit_lt :: "hit \<Rightarrow> hit \<Rightarrow> bool" where
  "hit_lt h k =
     (if h_score h \<noteq> h_score k then h_score k < h_score h
      else if h_repo h \<noteq> h_repo k then h_repo h < h_repo k
      else if h_file h \<noteq> h_file k then h_file h < h_file k
      else h_line h < h_line k)"

definition sort_hits :: "hit list \<Rightarrow> hit list" where
  "sort_hits hs = sort_lt hit_lt hs"

interpretation hit_order: lt_order hit_lt
proof unfold_locales
  fix x y z
  show "\<not> hit_lt x x" by (simp add: hit_lt_def)
  show "hit_lt x y \<Longrightarrow> hit_lt y z \<Longrightarrow> hit_lt x z"
    unfolding hit_lt_def by (smt (verit, best) order.strict_trans order_less_asym)
  show "\<not> hit_lt y x \<Longrightarrow> \<not> hit_lt z y \<Longrightarrow> \<not> hit_lt z x"
    unfolding hit_lt_def by (smt (verit, best) linorder_neqE order.strict_trans order_less_asym)
qed

lemma mset_sort_hits [simp]: "mset (sort_hits hs) = mset hs"
  by (simp add: sort_hits_def)

lemma set_sort_hits [simp]: "set (sort_hits hs) = set hs"
  by (simp add: sort_hits_def)

lemma length_sort_hits [simp]: "length (sort_hits hs) = length hs"
  by (simp add: sort_hits_def)

lemma in_order_scores: "hit_order.in_order hs \<Longrightarrow> sorted_wrt (\<lambda>a b. h_score b \<le> h_score a) hs"
  unfolding hit_order.in_order_def
  by (erule sorted_wrt_mono_rel [rotated]) (auto simp: hit_lt_def split: if_splits)

definition hit_place :: "hit \<Rightarrow> rat \<times> string \<times> string \<times> int" where
  "hit_place h = (h_score h, h_repo h, h_file h, h_line h)"

lemma hit_lt_ties: "\<not> hit_lt h k \<Longrightarrow> \<not> hit_lt k h \<Longrightarrow> hit_place h = hit_place k"
  unfolding hit_lt_def hit_place_def by (auto split: if_splits)

text \<open>
  the served order does not depend on the order the searcher handed its hits over in: when
  no two hits agree on score, repository, file and first line, every arrangement of the same
  hits is sorted to the same list.
\<close>

theorem sort_hits_deterministic:
  assumes "mset hs = mset ks" and "inj_on hit_place (set hs)"
  shows "sort_hits hs = sort_hits ks"
  unfolding sort_hits_def
proof (rule hit_order.sort_lt_unique)
  show "mset hs = mset ks" by fact
  show "a = b" if "a \<in> set hs" "b \<in> set hs" "\<not> hit_lt a b" "\<not> hit_lt b a" for a b
    using hit_lt_ties that assms(2) by (auto dest: inj_onD)
qed

definition example_hit :: "string \<Rightarrow> int \<Rightarrow> int \<Rightarrow> rat \<Rightarrow> hit" where
  "example_hit f s e sc = \<lparr> h_repo = ''r'', h_file = f, h_path = f, h_line = s, h_end = e, h_symbol = [],
     h_kind = [], h_lang = [], h_score = sc, h_snippet = [], h_reason = [] \<rparr>"

theorem sort_hits_deterministic_witness:
  "sort_hits [example_hit ''b'' 1 9 2, example_hit ''a'' 1 9 2] =
   sort_hits [example_hit ''a'' 1 9 2, example_hit ''b'' 1 9 2]"
  by (rule sort_hits_deterministic) (auto simp: example_hit_def hit_place_def inj_on_def)

end
