(* ===== verification/Search_Fusion.thy ===== *)
theory Search_Fusion
  imports Search_Hits
begin

text \<open>
  Fusion of the searchers' result lists (\<open>internal/search/hybrid.go\<close>): the clustering both fusion
  functions share (\<open>fuseBy\<close>), reciprocal rank fusion and convex fusion.

  The pointers to clusters that \<open>fuseBy\<close> keeps in a slice and in two maps are positions in the
  slice here, so that an update through one of them is seen through the others.
\<close>

section \<open>Configuration\<close>

record config =
  c_method :: string
  c_rrfk :: rat
  c_weights :: "index_type \<Rightarrow> rat option"
  c_no_merge :: bool

definition default_config :: config where
  "default_config = \<lparr> c_method = ''rrf'', c_rrfk = 60,
     c_weights = [Vector \<mapsto> 1, BM25 \<mapsto> 1], c_no_merge = False \<rparr>"

definition get_weight :: "config \<Rightarrow> index_type \<Rightarrow> rat" where
  "get_weight cfg t = (case c_weights cfg t of Some w \<Rightarrow> w | None \<Rightarrow> 1)"

datatype fusion_method = FusionRRF | FusionConvex

definition method_of :: "config option \<Rightarrow> fusion_method" where
  "method_of cfg = (case cfg of Some c \<Rightarrow> if c_method c = ''convex'' then FusionConvex else FusionRRF
     | None \<Rightarrow> FusionRRF)"

section \<open>Clusters\<close>

record cluster =
  cl_hit :: hit
  cl_score :: rat
  cl_rank :: nat
  cl_sources :: "index_type set"
  cl_reasons :: "string list"

definition append_reason :: "string list \<Rightarrow> string \<Rightarrow> index_type \<Rightarrow> string list" where
  "append_reason reasons reason source =
     foldl (\<lambda>rs part. let part = trim_space part in
         if part = [] then rs else if part \<notin> set rs then rs @ [part] else rs)
       reasons (split_on CHR ''+'' (if reason = [] then type_name source else reason))"

type_synonym arrival = "index_type \<times> nat \<times> hit"

record fuse_state =
  by_key :: "string \<Rightarrow> nat option"
  by_file :: "string \<Rightarrow> nat list"
  order :: "cluster list"

definition file_key :: "hit \<Rightarrow> string" where
  "file_key h = h_repo h @ char_of (0::nat) # h_file h"

definition empty_state :: fuse_state where
  "empty_state = \<lparr> by_key = Map.empty, by_file = (\<lambda>_. []), order = [] \<rparr>"

definition new_cluster :: "nat \<Rightarrow> hit \<Rightarrow> cluster" where
  "new_cluster rank h = \<lparr> cl_hit = h, cl_score = 0, cl_rank = rank, cl_sources = {}, cl_reasons = [] \<rparr>"

text \<open>The cluster a hit joins: the one created under its key, else the first of its file that
  its source has not contributed to and whose representative it overlaps.\<close>

definition find_cluster :: "fuse_state \<Rightarrow> index_type \<Rightarrow> hit \<Rightarrow> nat option" where
  "find_cluster st source h =
     (case by_key st (hit_key h) of
        Some i \<Rightarrow> Some i
      | None \<Rightarrow> List.find (\<lambda>i. source \<notin> cl_sources (order st ! i) \<and> overlaps (cl_hit (order st ! i)) h)
                  (by_file st (file_key h)))"

definition promote_hit :: "cluster \<Rightarrow> nat \<Rightarrow> hit \<Rightarrow> cluster" where
  "promote_hit c rank h = (if rank < cl_rank c then c\<lparr> cl_hit := h, cl_rank := rank \<rparr> else c)"

definition add_contribution :: "cluster \<Rightarrow> index_type \<Rightarrow> rat \<Rightarrow> hit \<Rightarrow> cluster" where
  "add_contribution c source contribution h =
     c\<lparr> cl_score := f32 (cl_score c + contribution),
        cl_sources := insert source (cl_sources c),
        cl_reasons := append_reason (cl_reasons c) (h_reason h) source \<rparr>"

definition fuse_hit :: "(index_type \<Rightarrow> nat \<Rightarrow> hit \<Rightarrow> rat) \<Rightarrow> fuse_state \<Rightarrow> arrival \<Rightarrow> fuse_state" where
  "fuse_hit contribute st arrival =
     (let (source, rank, h) = arrival; contribution = contribute source rank h in
      case find_cluster st source h of
        None \<Rightarrow>
          let i = length (order st) in
          \<lparr> by_key = (by_key st)(hit_key h \<mapsto> i),
            by_file = (by_file st)(file_key h := by_file st (file_key h) @ [i]),
            order = order st @ [add_contribution (new_cluster rank h) source contribution h] \<rparr>
      | Some i \<Rightarrow>
          st\<lparr> order := (order st)[i := add_contribution (promote_hit (order st ! i) rank h) source contribution h] \<rparr>)"

text \<open>The order hits arrive in: list after list, each from its first rank on.\<close>

type_synonym indexed = "index_type \<times> hit list"

definition arrivals_of :: "indexed \<Rightarrow> arrival list" where
  "arrivals_of r = map (\<lambda>(rank, h). (fst r, rank, h)) (enumerate 0 (snd r))"

definition arrivals :: "indexed list \<Rightarrow> arrival list" where
  "arrivals results = concat (map arrivals_of results)"

definition finish_cluster :: "cluster \<Rightarrow> hit" where
  "finish_cluster c = (cl_hit c)\<lparr> h_score := cl_score c, h_reason := join_with ''+'' (cl_reasons c) \<rparr>"

definition fuse_by :: "indexed list \<Rightarrow> (index_type \<Rightarrow> nat \<Rightarrow> hit \<Rightarrow> rat) \<Rightarrow> hit list" where
  "fuse_by results contribute =
     sort_hits (map finish_cluster (order (foldl (fuse_hit contribute) empty_state (arrivals results))))"

section \<open>The two fusion functions\<close>

definition rrf_contribution :: "config \<Rightarrow> index_type \<Rightarrow> nat \<Rightarrow> hit \<Rightarrow> rat" where
  "rrf_contribution cfg source rank h =
     (let k = (if c_rrfk cfg = 0 then 60 else c_rrfk cfg) in
      f32 (f32 (f64 (1 / f64 (k + of_nat (rank + 1)))) * get_weight cfg source))"

definition fuse_rrf :: "config \<Rightarrow> indexed list \<Rightarrow> hit list" where
  "fuse_rrf cfg results = fuse_by results (rrf_contribution cfg)"

text \<open>The least and the greatest score of one list, 0 and 0 for an empty one.\<close>

fun score_bounds_from :: "rat \<times> rat \<Rightarrow> hit list \<Rightarrow> rat \<times> rat" where
  "score_bounds_from b [] = b"
| "score_bounds_from (lo, hi) (h # hs) =
     (let lo = (if h_score h < lo then h_score h else lo); hi = (if hi < h_score h then h_score h else hi)
      in score_bounds_from (lo, hi) hs)"

definition score_bounds :: "hit list \<Rightarrow> rat \<times> rat" where
  "score_bounds hs = (case hs of [] \<Rightarrow> (0, 0) | h # hs \<Rightarrow> score_bounds_from (h_score h, h_score h) hs)"

definition score_span :: "indexed list \<Rightarrow> index_type \<Rightarrow> rat \<times> rat" where
  "score_span results =
     foldl (\<lambda>span r. span(fst r := score_bounds (snd r))) (\<lambda>_. (0, 0)) results"

definition normalised :: "rat \<times> rat \<Rightarrow> rat \<Rightarrow> rat" where
  "normalised b score =
     (let floor = (if fst b < 0 then fst b else 0) in
      if floor < snd b then f32 (f32 (score - floor) / f32 (snd b - floor)) else 1)"

definition convex_contribution :: "config \<Rightarrow> indexed list \<Rightarrow> index_type \<Rightarrow> nat \<Rightarrow> hit \<Rightarrow> rat" where
  "convex_contribution cfg results source rank h =
     f32 (normalised (score_span results source) (h_score h) * get_weight cfg source)"

definition fuse_convex :: "config \<Rightarrow> indexed list \<Rightarrow> hit list" where
  "fuse_convex cfg results = fuse_by results (convex_contribution cfg results)"

definition fuse :: "config \<Rightarrow> indexed list \<Rightarrow> hit list" where
  "fuse cfg results =
     (if method_of (Some cfg) = FusionConvex then fuse_convex cfg results else fuse_rrf cfg results)"

end
