(* ===== verification/Search_Rank.thy ===== *)
theory Search_Rank
  imports Search_Fusion
begin

text \<open>
  The rank stage of \<open>internal/search/hybrid.go\<close>: reranking the leading candidates, collapsing the
  hits that cover the same lines, and cutting the list down to the limit.
\<close>

section \<open>Metadata\<close>

datatype meta_value = MBool bool | MInt int | MString string | MStrings "string list"
  | MErrors "(string \<times> string) list"

type_synonym meta = "string \<rightharpoonup> meta_value"

text \<open>A metadata map may be nil; writing is guarded by a test for that, so a nil map stays nil.\<close>

definition meta_put :: "string \<Rightarrow> meta_value \<Rightarrow> meta option \<Rightarrow> meta option" where
  "meta_put k v m = map_option (\<lambda>m. m(k \<mapsto> v)) m"

section \<open>Collapsing overlapping spans\<close>

definition append_merge_reason :: "string \<Rightarrow> string" where
  "append_merge_reason reason = (if reason = [] then ''merged'' else reason @ ''+'' @ ''merged'')"

definition widen :: "hit \<Rightarrow> hit \<Rightarrow> hit" where
  "widen into h =
     (let (start, end) = hit_range into; (other_start, other_end) = hit_range h;
          into = (if other_start < start then into\<lparr> h_line := other_start \<rparr> else into);
          into = (if end < other_end then into\<lparr> h_end := other_end \<rparr> else into)
      in if contains (h_reason into) ''merged'' then into
         else into\<lparr> h_reason := append_merge_reason (h_reason into) \<rparr>)"

record merge_state =
  kept :: "hit list"
  files :: "string \<Rightarrow> nat list"
  merged :: nat

definition merge_hit :: "merge_state \<Rightarrow> hit \<Rightarrow> merge_state" where
  "merge_hit st h =
     (case List.find (\<lambda>i. overlaps (kept st ! i) h) (files st (file_key h)) of
        None \<Rightarrow> st\<lparr> kept := kept st @ [h],
                   files := (files st)(file_key h := files st (file_key h) @ [length (kept st)]) \<rparr>
      | Some i \<Rightarrow> st\<lparr> kept := (kept st)[i := widen (kept st ! i) h], merged := Suc (merged st) \<rparr>)"

definition no_merges :: merge_state where
  "no_merges = \<lparr> kept = [], files = (\<lambda>_. []), merged = 0 \<rparr>"

definition merge_spans :: "hit list \<Rightarrow> meta option \<Rightarrow> hit list \<times> meta option" where
  "merge_spans hits m =
     (if length hits < 2 then (hits, m)
      else let st = foldl merge_hit no_merges hits in
        (kept st, if 0 < merged st then meta_put ''merged_spans'' (MInt (int (merged st))) m else m))"

definition truncate_hits :: "hit list \<Rightarrow> int \<Rightarrow> hit list" where
  "truncate_hits hits limit =
     (if 0 < limit \<and> limit < int (length hits) then take (nat limit) hits else hits)"

section \<open>Reranking\<close>

definition rerank_max_doc_bytes :: nat where
  "rerank_max_doc_bytes = 4096"

definition rune_start :: "char \<Rightarrow> bool" where
  "rune_start c \<longleftrightarrow> byte_of c div 64 \<noteq> 2"

fun back_to_rune :: "string \<Rightarrow> nat \<Rightarrow> nat" where
  "back_to_rune doc 0 = 0"
| "back_to_rune doc (Suc n) = (if rune_start (doc ! Suc n) then Suc n else back_to_rune doc n)"

definition truncate_rerank_doc :: "string \<Rightarrow> string" where
  "truncate_rerank_doc doc =
     (if length doc \<le> rerank_max_doc_bytes then doc
      else take (back_to_rune doc rerank_max_doc_bytes) doc)"

definition non_empty :: "string list \<Rightarrow> string list" where
  "non_empty vs = filter (\<lambda>v. v \<noteq> []) vs"

definition rerank_doc :: "hit \<Rightarrow> string" where
  "rerank_doc h =
     (let doc = h_snippet h;
          doc = (if doc = [] then trim_space (join_with '' '' (non_empty [h_kind h, h_symbol h, h_path h])) else doc);
          doc = (if doc = [] then h_file h else doc)
      in truncate_rerank_doc doc)"

text \<open>The range of the blended scores: the head's scores, with the tail's best as a floor.\<close>

definition blend_bounds :: "hit list \<Rightarrow> hit list \<Rightarrow> rat \<times> rat" where
  "blend_bounds head tail =
     (let (lo, hi) = score_bounds_from (h_score (hd head), h_score (hd head)) head;
          lo = foldl (\<lambda>lo h. if lo < h_score h then h_score h else lo) lo tail
      in (lo, if hi < lo then lo else hi))"

fun float_bounds_from :: "rat \<times> rat \<Rightarrow> rat list \<Rightarrow> rat \<times> rat" where
  "float_bounds_from b [] = b"
| "float_bounds_from (lo, hi) (x # xs) =
     float_bounds_from (if x < lo then x else lo, if hi < x then x else hi) xs"

definition blend_rerank_scores :: "hit list \<Rightarrow> hit list \<Rightarrow> rat list \<Rightarrow> rat list" where
  "blend_rerank_scores head tail scores =
     (let (lo, hi) = blend_bounds head tail;
          (min_score, max_score) = float_bounds_from (hd scores, hd scores) scores in
      if max_score = min_score then map h_score head
      else
        let hi = (if hi = lo then
                    let step = (if 0 < hi then f32 (hi * f32 (1 / 1000)) else f32 (1 / 1000000))
                    in f32 (lo + f32 (step * f32 (of_nat (length head))))
                  else hi);
            span = f32 (hi - lo)
        in map (\<lambda>sc. let t = f64 (f64 (sc - min_score) / f64 (max_score - min_score))
                      in f32 (lo + f32 (f64 (t * span)))) scores)"

definition reranked_hit :: "hit \<Rightarrow> rat \<Rightarrow> hit" where
  "reranked_hit h score =
     h\<lparr> h_score := score, h_reason := (if h_reason h \<noteq> [] then h_reason h @ ''+rerank'' else ''rerank'') \<rparr>"

definition score_above :: "hit \<Rightarrow> hit \<Rightarrow> bool" where
  "score_above h k \<longleftrightarrow> h_score k < h_score h"

text \<open>
  A reranker answers a query and documents with an error text or one score per document; it is
  the remote service behind \<open>llm.Reranker\<close>.
\<close>

type_synonym reranker = "string \<Rightarrow> string list \<Rightarrow> string + rat list"

definition rerank_result :: "reranker \<Rightarrow> string \<Rightarrow> string list \<Rightarrow> string + rat list" where
  "rerank_result rr q docs =
     (case rr q docs of Inl e \<Rightarrow> Inl e
      | Inr scores \<Rightarrow>
          if length scores \<noteq> length docs
          then Inl (''got '' @ itoa (int (length scores)) @ '' scores for '' @ itoa (int (length docs)) @ '' documents'')
          else Inr scores)"

definition rerank_head :: "hit list \<Rightarrow> hit list \<Rightarrow> rat list \<Rightarrow> hit list" where
  "rerank_head head tail scores =
     sort_lt score_above (map2 reranked_hit head (blend_rerank_scores head tail scores))"

definition apply_rerank :: "reranker option \<Rightarrow> nat \<Rightarrow> string \<Rightarrow> hit list \<Rightarrow> meta option \<Rightarrow> hit list \<times> meta option" where
  "apply_rerank rr top_n q hits m =
     (case rr of None \<Rightarrow> (hits, m)
      | Some rr \<Rightarrow>
          if length hits \<le> 1 then (hits, m)
          else
            let n = (if length hits < top_n then length hits else top_n);
                docs = map rerank_doc (take n hits) in
            (case rerank_result rr q docs of
               Inl err \<Rightarrow> (hits, meta_put ''rerank_error'' (MString err) (meta_put ''reranked'' (MBool False) m))
             | Inr scores \<Rightarrow>
                 (rerank_head (take n hits) (drop n hits) scores @ drop n hits,
                  meta_put ''rerank_candidates'' (MInt (int n)) (meta_put ''reranked'' (MBool True) m))))"

definition rank :: "config option \<Rightarrow> reranker option \<Rightarrow> nat \<Rightarrow> string \<Rightarrow> hit list \<Rightarrow> meta option \<Rightarrow> int
    \<Rightarrow> hit list \<times> meta option" where
  "rank cfg rr top_n q hits m limit =
     (let (ranked, m) = apply_rerank rr top_n q hits m;
          (ranked, m) = (if (case cfg of None \<Rightarrow> True | Some c \<Rightarrow> \<not> c_no_merge c)
                         then merge_spans ranked m else (ranked, m))
      in (truncate_hits ranked limit, m))"

interpretation score_order: lt_order score_above
  by unfold_locales (auto simp: score_above_def)

end
