(* ===== verification/Search_Fusion_Facts.thy ===== *)
theory Search_Fusion_Facts
  imports Search_Fusion
begin

text \<open>
  What fusion computes. Beside the run of \<open>fuse_hit\<close> the lemmas keep the list of hits every
  cluster received (\<open>members\<close>); a cluster is a function of that list (\<open>cluster_of\<close>), which is the
  abstract specification the pointer-based code refines.
\<close>

section \<open>Clusters as lists of members\<close>

definition join_member :: "(index_type \<Rightarrow> nat \<Rightarrow> hit \<Rightarrow> rat) \<Rightarrow> cluster \<Rightarrow> arrival \<Rightarrow> cluster" where
  "join_member contribute c a = (case a of (s, r, h) \<Rightarrow>
     add_contribution (promote_hit c r h) s (contribute s r h) h)"

definition cluster_of :: "(index_type \<Rightarrow> nat \<Rightarrow> hit \<Rightarrow> rat) \<Rightarrow> arrival list \<Rightarrow> cluster" where
  "cluster_of contribute ms = foldl (join_member contribute) (case hd ms of (s, r, h) \<Rightarrow> new_cluster r h) ms"

fun member_step :: "(index_type \<Rightarrow> nat \<Rightarrow> hit \<Rightarrow> rat) \<Rightarrow> fuse_state \<times> arrival list list \<Rightarrow> arrival
    \<Rightarrow> fuse_state \<times> arrival list list" where
  "member_step contribute (st, mss) (s, r, h) =
     (fuse_hit contribute st (s, r, h),
      case find_cluster st s h of None \<Rightarrow> mss @ [[(s, r, h)]] | Some i \<Rightarrow> mss[i := mss ! i @ [(s, r, h)]])"

definition members_run :: "(index_type \<Rightarrow> nat \<Rightarrow> hit \<Rightarrow> rat) \<Rightarrow> arrival list \<Rightarrow> fuse_state \<times> arrival list list" where
  "members_run contribute as = foldl (member_step contribute) (empty_state, []) as"

definition members :: "(index_type \<Rightarrow> nat \<Rightarrow> hit \<Rightarrow> rat) \<Rightarrow> arrival list \<Rightarrow> arrival list list" where
  "members contribute as = snd (members_run contribute as)"

abbreviation "arr_hit a \<equiv> snd (snd a)"
abbreviation "arr_rank a \<equiv> fst (snd a)"

definition weight_of :: "(index_type \<Rightarrow> nat \<Rightarrow> hit \<Rightarrow> rat) \<Rightarrow> arrival \<Rightarrow> rat" where
  "weight_of contribute a = (case a of (s, r, h) \<Rightarrow> contribute s r h)"

text \<open>The sum the code accumulates: every addition is rounded to a \<open>float32\<close>.\<close>

definition f32_sum :: "rat list \<Rightarrow> rat" where
  "f32_sum xs = foldl (\<lambda>s x. f32 (s + x)) 0 xs"

lemma fst_member_step: "fst (member_step contribute p a) = fuse_hit contribute (fst p) a"
  by (cases p; cases a) simp

lemma fst_members_run: "fst (members_run contribute as) = foldl (fuse_hit contribute) empty_state as"
proof -
  have "fst (foldl (member_step contribute) p as) = foldl (fuse_hit contribute) (fst p) as" for p
    by (induction as arbitrary: p) (simp_all add: fst_member_step)
  then show ?thesis by (simp add: members_run_def)
qed

lemma cluster_of_single: "cluster_of contribute [a] = join_member contribute (new_cluster (arr_rank a) (arr_hit a)) a"
  by (simp add: cluster_of_def split: prod.split)

lemma cluster_of_snoc: "ms \<noteq> [] \<Longrightarrow> cluster_of contribute (ms @ [a]) = join_member contribute (cluster_of contribute ms) a"
  by (simp add: cluster_of_def)

text \<open>The invariant of the run: the clusters are those of the member lists, and the two maps
  point to clusters created under their key and of their file.\<close>

definition run_inv :: "(index_type \<Rightarrow> nat \<Rightarrow> hit \<Rightarrow> rat) \<Rightarrow> fuse_state \<times> arrival list list \<Rightarrow> bool" where
  "run_inv contribute p \<longleftrightarrow> (case p of (st, mss) \<Rightarrow>
     order st = map (cluster_of contribute) mss \<and>
     [] \<notin> set mss \<and>
     (\<forall>k i. by_key st k = Some i \<longrightarrow> i < length mss \<and> hit_key (arr_hit (hd (mss ! i))) = k) \<and>
     (\<forall>i < length mss. by_key st (hit_key (arr_hit (hd (mss ! i)))) = Some i) \<and>
     (\<forall>f. \<forall>i \<in> set (by_file st f). i < length mss))"

lemma run_inv_bound: "run_inv contribute (st, mss) \<Longrightarrow> find_cluster st s h = Some i \<Longrightarrow> i < length mss"
  unfolding find_cluster_def run_inv_def by (auto split: option.splits dest: find_SomeD)

lemma fuse_hit_new:
  "find_cluster st s h = None \<Longrightarrow> fuse_hit contribute st (s, r, h) =
     \<lparr> by_key = (by_key st)(hit_key h \<mapsto> length (order st)),
       by_file = (by_file st)(file_key h := by_file st (file_key h) @ [length (order st)]),
       order = order st @ [cluster_of contribute [(s, r, h)]] \<rparr>"
  by (simp add: fuse_hit_def Let_def cluster_of_single join_member_def promote_hit_def new_cluster_def)

lemma fuse_hit_join:
  "find_cluster st s h = Some i \<Longrightarrow> fuse_hit contribute st (s, r, h) =
     st\<lparr> order := (order st)[i := join_member contribute (order st ! i) (s, r, h)] \<rparr>"
  by (simp add: fuse_hit_def join_member_def)

lemma run_inv_step: "run_inv contribute p \<Longrightarrow> run_inv contribute (member_step contribute p a)"
proof -
  assume inv: "run_inv contribute p"
  obtain st mss s r h where p: "p = (st, mss)" and a: "a = (s, r, h)" by (metis prod_cases3 surj_pair)
  have ord: "order st = map (cluster_of contribute) mss" and ne: "[] \<notin> set mss"
    and keys: "\<And>k i. by_key st k = Some i \<Longrightarrow> i < length mss \<and> hit_key (arr_hit (hd (mss ! i))) = k"
    and created: "\<And>i. i < length mss \<Longrightarrow> by_key st (hit_key (arr_hit (hd (mss ! i)))) = Some i"
    and files: "\<And>f i. i \<in> set (by_file st f) \<Longrightarrow> i < length mss"
    using inv by (auto simp: p run_inv_def)
  show ?thesis
  proof (cases "find_cluster st s h")
    case None
    then have new: "by_key st (hit_key h) = None" by (simp add: find_cluster_def split: option.splits)
    then have "hit_key (arr_hit (hd (mss ! i))) \<noteq> hit_key h" if "i < length mss" for i
      using created [OF that] by auto
    moreover have "\<forall>f. \<forall>i \<in> set (by_file (fuse_hit contribute st a) f). i < Suc (length mss)"
      using files None by (auto simp: a fuse_hit_new ord less_Suc_eq split: if_splits)
    moreover have "\<forall>k i. by_key (fuse_hit contribute st a) k = Some i \<longrightarrow>
        i < Suc (length mss) \<and> hit_key (arr_hit (hd ((mss @ [[a]]) ! i))) = k"
      using keys None by (fastforce simp: a fuse_hit_new ord nth_append split: if_splits)
    ultimately show ?thesis using None ord ne created
      by (simp add: p a run_inv_def fuse_hit_new nth_append less_Suc_eq)
  next
    case (Some i)
    have i: "i < length mss" using run_inv_bound inv Some p by blast
    then have nei: "mss ! i \<noteq> []" using ne nth_mem by metis
    have hd: "hd (mss[i := mss ! i @ [a]] ! j) = hd (mss ! j)" if "j < length mss" for j
      using that i nei by (cases "j = i") auto
    have "order (fuse_hit contribute st a) = map (cluster_of contribute) (mss[i := mss ! i @ [a]])"
      using ord i Some nei by (simp add: fuse_hit_join a map_update cluster_of_snoc)
    moreover have "[] \<notin> set (mss[i := mss ! i @ [a]])"
      using ne by (auto dest: set_update_subset_insert [THEN subsetD])
    moreover have "by_key (fuse_hit contribute st a) = by_key st \<and> by_file (fuse_hit contribute st a) = by_file st"
      using Some by (simp add: fuse_hit_join a)
    ultimately show ?thesis using keys created files Some hd
      by (simp add: p a run_inv_def)
  qed
qed

lemma run_inv_members: "run_inv contribute (members_run contribute as)"
proof -
  have "run_inv contribute p \<Longrightarrow> run_inv contribute (foldl (member_step contribute) p as)" for p
    by (induction as arbitrary: p) (simp_all add: run_inv_step)
  moreover have "run_inv contribute (empty_state, [])" by (simp add: run_inv_def empty_state_def)
  ultimately show ?thesis by (simp add: members_run_def)
qed

lemma order_members:
  "order (foldl (fuse_hit contribute) empty_state as) = map (cluster_of contribute) (members contribute as)"
  using run_inv_members [of contribute as]
  by (simp add: members_def run_inv_def case_prod_beta fst_members_run)

lemma members_nonempty: "ms \<in> set (members contribute as) \<Longrightarrow> ms \<noteq> []"
  using run_inv_members [of contribute as] by (auto simp: members_def run_inv_def case_prod_beta)

lemma members_mset: "mset (concat (members contribute as)) = mset as"
proof (induction as rule: rev_induct)
  case Nil
  then show ?case by (simp add: members_def members_run_def)
next
  case (snoc a as)
  obtain st mss where p: "members_run contribute as = (st, mss)" by fastforce
  obtain s r h where a: "a = (s, r, h)" by (metis prod_cases3)
  have inv: "run_inv contribute (st, mss)" using run_inv_members p by metis
  have IH: "mset (concat mss) = mset as" using snoc p by (simp add: members_def)
  have step: "members_run contribute (as @ [a]) = member_step contribute (st, mss) a"
    using p by (simp add: members_run_def)
  show ?case
  proof (cases "find_cluster st s h")
    case None
    then show ?thesis using IH step a by (simp add: members_def)
  next
    case (Some i)
    then have i: "i < length mss" using run_inv_bound inv by blast
    have "mset (concat (mss[i := mss ! i @ [a]])) = mset (concat mss) + {#a#}"
    proof -
      have "mss = take i mss @ mss ! i # drop (Suc i) mss" using i by (simp add: id_take_nth_drop)
      then have "concat mss = concat (take i mss) @ mss ! i @ concat (drop (Suc i) mss)"
        by (metis concat.simps(2) concat_append)
      then show ?thesis using i by (simp add: upd_conv_take_nth_drop)
    qed
    then show ?thesis using IH step Some a by (simp add: members_def)
  qed
qed

section \<open>What a cluster holds\<close>

lemma join_score: "cl_score (join_member contribute c a) = f32 (cl_score c + weight_of contribute a)"
  by (simp add: join_member_def weight_of_def add_contribution_def promote_hit_def split: prod.split)

lemma cluster_of_score: "ms \<noteq> [] \<Longrightarrow> cl_score (cluster_of contribute ms) = f32_sum (map (weight_of contribute) ms)"
proof -
  have "cl_score (foldl (join_member contribute) c ms) = foldl (\<lambda>s x. f32 (s + x)) (cl_score c) (map (weight_of contribute) ms)" for c
    by (induction ms arbitrary: c) (simp_all add: join_score)
  then show ?thesis by (simp add: cluster_of_def f32_sum_def new_cluster_def split: prod.split)
qed

lemma cluster_of_sources: "ms \<noteq> [] \<Longrightarrow> cl_sources (cluster_of contribute ms) = fst ` set ms"
proof -
  have "cl_sources (foldl (join_member contribute) c ms) = cl_sources c \<union> fst ` set ms" for c
    by (induction ms arbitrary: c)
      (auto simp: join_member_def add_contribution_def promote_hit_def split: prod.split)
  then show ?thesis by (simp add: cluster_of_def new_cluster_def split: prod.split)
qed

lemma cluster_of_leader:
  "ms \<noteq> [] \<Longrightarrow> \<exists>a \<in> set ms. cl_hit (cluster_of contribute ms) = arr_hit a \<and>
     cl_rank (cluster_of contribute ms) = arr_rank a \<and> (\<forall>b \<in> set ms. arr_rank a \<le> arr_rank b)"
proof (induction ms rule: rev_nonempty_induct)
  case (single a)
  then show ?case
    by (simp add: cluster_of_single join_member_def add_contribution_def promote_hit_def new_cluster_def
        split: prod.split)
next
  case (snoc a ms)
  then obtain b where b: "b \<in> set ms" "cl_hit (cluster_of contribute ms) = arr_hit b"
    "cl_rank (cluster_of contribute ms) = arr_rank b" "\<forall>c \<in> set ms. arr_rank b \<le> arr_rank c" by blast
  show ?case
  proof (cases "arr_rank a < arr_rank b")
    case True
    then show ?thesis using snoc.hyps b
      by (intro bexI [of _ a]) (auto simp: cluster_of_snoc join_member_def add_contribution_def
          promote_hit_def split: prod.split dest: order.strict_trans2 intro: less_imp_le)
  next
    case False
    then show ?thesis using snoc.hyps b
      by (intro bexI [of _ b]) (auto simp: cluster_of_snoc join_member_def add_contribution_def
          promote_hit_def split: prod.split)
  qed
qed



end
