(* ===== verification/Search_Fusion_RRF.thy ===== *)
theory Search_Fusion_RRF
  imports Search_Fusion_Facts
begin

text \<open>
  The two fusion functions of \<open>internal/search/hybrid.go\<close>: how the groups of two searchers look,
  the weight threshold the comment on \<open>DefaultConfig\<close> warns of, and the range of a convex
  contribution.
\<close>

section \<open>Groups of two searchers\<close>

definition arr_key :: "arrival \<Rightarrow> string" where
  "arr_key a = hit_key (arr_hit a)"

lemma members_snoc:
  "members contribute (as @ [(s, r, h)]) =
     (let mss = members contribute as in
      case find_cluster (fst (members_run contribute as)) s h of
        None \<Rightarrow> mss @ [[(s, r, h)]] | Some i \<Rightarrow> mss[i := mss ! i @ [(s, r, h)]])"
  by (cases "members_run contribute as") (simp add: members_def members_run_def)

lemma found_cluster:
  assumes "find_cluster (fst (members_run contribute as)) s h = Some i"
  shows "i < length (members contribute as) \<and>
    (hit_key h = arr_key (hd (members contribute as ! i)) \<or> s \<notin> fst ` set (members contribute as ! i))"
proof -
  obtain st mss where p: "members_run contribute as = (st, mss)" by fastforce
  then have inv: "run_inv contribute (st, mss)" using run_inv_members by metis
  have i: "i < length mss" using run_inv_bound [OF inv] assms p by simp
  show ?thesis
  proof (cases "by_key st (hit_key h)")
    case None
    then have "s \<notin> cl_sources (order st ! i)"
      using assms p by (auto simp: find_cluster_def dest: find_SomeD)
    moreover have "order st ! i = cluster_of contribute (mss ! i)" and "mss ! i \<noteq> []"
      using inv i by (auto simp: run_inv_def) (metis nth_mem)
    ultimately show ?thesis using i p by (simp add: members_def cluster_of_sources)
  next
    case (Some j)
    then have "j = i" using assms p by (simp add: find_cluster_def)
    then show ?thesis using inv Some i p by (auto simp: members_def arr_key_def run_inv_def)
  qed
qed

text \<open>One searcher whose hits have distinct keys: nothing is merged.\<close>

lemma members_one_source:
  "(\<forall>a \<in> set as. fst a = s) \<Longrightarrow> distinct (map arr_key as) \<Longrightarrow> members contribute as = map (\<lambda>a. [a]) as"
proof (induction as rule: rev_induct)
  case Nil
  then show ?case by (simp add: members_def members_run_def)
next
  case (snoc a as)
  then have IH: "members contribute as = map (\<lambda>a. [a]) as" by auto
  obtain r h where a: "a = (s, r, h)" using snoc.prems(1) by (cases a) auto
  have "find_cluster (fst (members_run contribute as)) s h = None"
  proof (rule ccontr)
    assume "find_cluster (fst (members_run contribute as)) s h \<noteq> None"
    then obtain i where i: "find_cluster (fst (members_run contribute as)) s h = Some i" by auto
    have len: "i < length as" using found_cluster [OF i] IH by simp
    then have "hit_key h = arr_key (as ! i) \<or> s \<noteq> fst (as ! i)" using found_cluster [OF i] IH by simp
    then show False using len snoc.prems a by (auto simp: arr_key_def)
  qed
  then show ?case using IH a by (simp add: members_snoc)
qed

text \<open>Two searchers: the first one's hits lead a group each, what the second one adds on its own
  stays alone.\<close>

lemma members_two_sources:
  assumes "\<forall>a \<in> set as. fst a = s" and "distinct (map arr_key as)"
    and "\<forall>b \<in> set bs. fst b = t" and "distinct (map arr_key bs)" and "s \<noteq> t"
  shows "\<exists>led alone. members contribute (as @ bs) = led @ map (\<lambda>b. [b]) alone \<and> length led = length as \<and>
    (\<forall>i < length as. \<exists>ms. led ! i = as ! i # ms \<and> set ms \<subseteq> set bs) \<and> set alone \<subseteq> set bs"
  using assms(3,4)
proof (induction bs rule: rev_induct)
  case Nil
  have "members contribute as = map (\<lambda>a. [a]) as" using assms(1,2) by (rule members_one_source)
  then show ?case
    by (intro exI [of _ "map (\<lambda>a. [a]) as"] exI [of _ "[]"]) simp
next
  case (snoc b bs)
  then obtain led alone where IH: "members contribute (as @ bs) = led @ map (\<lambda>b. [b]) alone"
    "length led = length as" "\<forall>i < length as. \<exists>ms. led ! i = as ! i # ms \<and> set ms \<subseteq> set bs"
    "set alone \<subseteq> set bs" by auto
  obtain r h where b: "b = (t, r, h)" using snoc.prems(1) by (cases b) auto
  let ?find = "find_cluster (fst (members_run contribute (as @ bs))) t h"
  have step: "members contribute (as @ bs @ [b]) = (case ?find of
      None \<Rightarrow> members contribute (as @ bs) @ [[b]]
    | Some i \<Rightarrow> (members contribute (as @ bs))[i := members contribute (as @ bs) ! i @ [b]])"
    using members_snoc [of contribute "as @ bs" t r h] unfolding b Let_def by simp
  show ?case
  proof (cases ?find)
    case None
    have "\<exists>ms. led ! i = as ! i # ms \<and> set ms \<subseteq> set (bs @ [b])" if "i < length as" for i
      using IH(3) that by fastforce
    then show ?thesis using None step IH(1,2,4)
      by (intro exI [of _ led] exI [of _ "alone @ [b]"]) auto
  next
    case (Some i)
    from found_cluster [OF Some] have i: "i < length led + length alone" and
      why: "hit_key h = arr_key (hd ((led @ map (\<lambda>b. [b]) alone) ! i)) \<or>
        t \<notin> fst ` set ((led @ map (\<lambda>b. [b]) alone) ! i)"
      by (simp_all only: IH(1) length_append length_map)
    have "i < length led"
    proof (rule ccontr)
      assume ge: "\<not> i < length led"
      define c where "c = alone ! (i - length led)"
      have c: "c \<in> set alone" using i ge by (simp add: c_def)
      have "(led @ map (\<lambda>b. [b]) alone) ! i = [c]" using i ge by (simp add: nth_append c_def)
      then have "hit_key h = arr_key c \<or> t \<noteq> fst c" using why by auto
      moreover have "c \<in> set bs" using IH(4) c by blast
      ultimately show False using snoc.prems b by (auto simp: arr_key_def)
    qed
    then have il: "i < length led" .
    then have "members contribute (as @ bs @ [b]) = led[i := led ! i @ [b]] @ map (\<lambda>b. [b]) alone"
      using step Some IH(1) by (simp add: list_update_append nth_append)
    moreover have "\<exists>ms. led[i := led ! i @ [b]] ! j = as ! j # ms \<and> set ms \<subseteq> set (bs @ [b])"
      if "j < length as" for j
      using il IH(3) [rule_format, OF that] by (cases "j = i") auto
    ultimately show ?thesis using IH(2,4)
      by (intro exI [of _ "led[i := led ! i @ [b]]"] exI [of _ alone]) auto
  qed
qed

lemma arrivals_of_source: "a \<in> set (arrivals_of r) \<Longrightarrow> fst a = fst r \<and> arr_rank a < length (snd r) \<and> arr_hit a \<in> set (snd r)"
  by (force simp: arrivals_of_def in_set_enumerate_eq)

lemma arr_keys: "map arr_key (arrivals_of r) = map hit_key (snd r)"
proof -
  have "map arr_key (arrivals_of r) = map (\<lambda>p. hit_key (snd p)) (enumerate 0 (snd r))"
    by (simp add: arrivals_of_def arr_key_def case_prod_beta comp_def)
  also have "\<dots> = map hit_key (map snd (enumerate 0 (snd r)))" by (simp only: map_map comp_def)
  finally show ?thesis by simp
qed

lemma length_arrivals_of [simp]: "length (arrivals_of r) = length (snd r)"
  by (simp add: arrivals_of_def)

section \<open>Rounded sums of contributions\<close>

lemma f32_sum_ge:
  assumes "\<And>x. x \<in> set xs \<Longrightarrow> 0 \<le> x" and "f32.representable c"
  shows "c \<le> f32_sum (c # xs)"
proof -
  have "a \<le> foldl (\<lambda>s x. f32 (s + x)) a xs" if "f32.representable a" for a
    using assms(1) that
  proof (induction xs arbitrary: a)
    case Nil
    then show ?case by simp
  next
    case (Cons x xs)
    have "a \<le> f32 (a + x)" using Cons.prems by (intro f32.rnd_ge) auto
    also have "\<dots> \<le> foldl (\<lambda>s x. f32 (s + x)) (f32 (a + x)) xs"
      using Cons.prems by (intro Cons.IH) auto
    finally show ?case by simp
  qed
  then show ?thesis using assms(2) by (simp add: f32_sum_def f32.representable_def)
qed

lemma f32_sum_single: "f32.representable c \<Longrightarrow> f32_sum [c] = c"
  by (simp add: f32_sum_def f32.representable_def)

section \<open>Agreement of the searchers\<close>

lemma arrivals_two: "arrivals [r, q] = arrivals_of r @ arrivals_of q"
  by (simp add: arrivals_def)

text \<open>The answer of a fusion of two lists: what is led by the first list, and what the second
  one adds alone.\<close>

definition led_groups :: "hit list \<Rightarrow> arrival list \<Rightarrow> arrival list list \<Rightarrow> bool" where
  "led_groups hs as led \<longleftrightarrow> length led = length as \<and> (\<forall>i < length as. \<exists>ms. led ! i = as ! i # ms)"

lemma fuse_two_lists:
  assumes "distinct (map hit_key hs)" and "distinct (map hit_key ks)" and "s \<noteq> t"
  shows "\<exists>led alone.
     members contribute (arrivals [(s, hs), (t, ks)]) = led @ map (\<lambda>b. [b]) alone \<and> length led = length hs \<and>
     (\<forall>ms \<in> set led. \<exists>a bs. ms = a # bs \<and> a \<in> set (arrivals_of (s, hs)) \<and> set bs \<subseteq> set (arrivals_of (t, ks))) \<and>
     set alone \<subseteq> set (arrivals_of (t, ks))"
proof -
  let ?as = "arrivals_of (s, hs)" and ?bs = "arrivals_of (t, ks)"
  have "\<exists>led alone. members contribute (?as @ ?bs) = led @ map (\<lambda>b. [b]) alone \<and> length led = length ?as \<and>
      (\<forall>i < length ?as. \<exists>ms. led ! i = ?as ! i # ms \<and> set ms \<subseteq> set ?bs) \<and> set alone \<subseteq> set ?bs"
    by (rule members_two_sources [of _ s _ t])
      (use assms arr_keys [of "(s, hs)"] arr_keys [of "(t, ks)"] arrivals_of_source in auto)
  then obtain led alone where *: "members contribute (?as @ ?bs) = led @ map (\<lambda>b. [b]) alone"
    "length led = length ?as" "\<forall>i < length ?as. \<exists>ms. led ! i = ?as ! i # ms \<and> set ms \<subseteq> set ?bs"
    "set alone \<subseteq> set ?bs" by blast
  have "\<exists>a bs. ms = a # bs \<and> a \<in> set ?as \<and> set bs \<subseteq> set ?bs" if ms: "ms \<in> set led" for ms
  proof -
    obtain i where "i < length ?as" "ms = led ! i" using ms *(2) by (auto simp: in_set_conv_nth)
    then show ?thesis using *(3) nth_mem by metis
  qed
  then show ?thesis using * by (intro exI [of _ led] exI [of _ alone]) (simp add: arrivals_two)
qed

section \<open>Reciprocal rank fusion\<close>

lemma rrf_antimono:
  assumes "0 \<le> c_rrfk cfg" and "0 \<le> get_weight cfg s" and "r \<le> q"
  shows "rrf_contribution cfg s q h \<le> rrf_contribution cfg s r h'"
proof -
  define k where "k = (if c_rrfk cfg = 0 then 60 else c_rrfk cfg)"
  have k: "0 < k" using assms(1) by (simp add: k_def)
  have pos: "0 < f64 (k + of_nat (r + 1))"
    using f64.rnd_mono [of 1 "k + of_nat (r + 1)"] k by simp
  have "f64 (k + of_nat (r + 1)) \<le> f64 (k + of_nat (q + 1))"
    using assms(3) by (intro f64.rnd_mono) simp
  then have "1 / f64 (k + of_nat (q + 1)) \<le> 1 / f64 (k + of_nat (r + 1))"
    using pos by (intro divide_left_mono) auto
  then have "f32 (f64 (1 / f64 (k + of_nat (q + 1)))) \<le> f32 (f64 (1 / f64 (k + of_nat (r + 1))))"
    by (intro f32.rnd_mono f64.rnd_mono)
  then have "f32 (f64 (1 / f64 (k + of_nat (q + 1)))) * get_weight cfg s
      \<le> f32 (f64 (1 / f64 (k + of_nat (r + 1)))) * get_weight cfg s"
    using assms(2) by (rule mult_right_mono)
  then show ?thesis
    unfolding rrf_contribution_def k_def [symmetric] Let_def by (rule f32.rnd_mono)
qed

lemma rrf_nonneg:
  assumes "0 \<le> c_rrfk cfg" and "0 \<le> get_weight cfg s"
  shows "0 \<le> rrf_contribution cfg s r h"
proof -
  define k where "k = (if c_rrfk cfg = 0 then 60 else c_rrfk cfg)"
  have "0 < k" using assms(1) by (simp add: k_def)
  then have "0 \<le> f32 (f64 (1 / f64 (k + of_nat (r + 1))))"
    by (intro f32.rnd_nonneg f64.rnd_nonneg divide_nonneg_nonneg) simp_all
  then show ?thesis
    unfolding rrf_contribution_def k_def [symmetric] Let_def
    using assms(2) by (intro f32.rnd_nonneg [OF mult_nonneg_nonneg])
qed

lemma rrf_representable: "f32.representable (rrf_contribution cfg s r h)"
  by (simp add: rrf_contribution_def Let_def)

lemma rrf_hit_free: "rrf_contribution cfg s r h = rrf_contribution cfg s r h'"
  by (simp add: rrf_contribution_def)

lemma finish_score:
  "ms \<noteq> [] \<Longrightarrow> h_score (finish_cluster (cluster_of contribute ms)) = f32_sum (map (weight_of contribute) ms)"
  using cluster_of_score [of ms contribute] by (simp add: finish_cluster_def)

text \<open>A group led by a hit of the first list is worth at least that list's last rank; a hit the
  second list has alone is worth at most that list's first rank.\<close>

lemma rrf_led_score:
  assumes "0 \<le> c_rrfk cfg" and "0 \<le> get_weight cfg s" and "0 \<le> get_weight cfg t"
    and "a \<in> set (arrivals_of (s, hs))" and "set bs \<subseteq> set (arrivals_of (t, ks))"
  shows "rrf_contribution cfg s (length hs - 1) h0 \<le>
    h_score (finish_cluster (cluster_of (rrf_contribution cfg) (a # bs)))"
proof -
  let ?c = "rrf_contribution cfg"
  obtain r h where a: "a = (s, r, h)" and r: "r < length hs"
    using arrivals_of_source [OF assms(4)] by (cases a) auto
  have "?c s (length hs - 1) h0 \<le> ?c s r h" using assms r by (intro rrf_antimono) auto
  also have "\<dots> \<le> f32_sum (?c s r h # map (weight_of ?c) bs)"
  proof (rule f32_sum_ge [OF _ rrf_representable])
    fix x
    assume "x \<in> set (map (weight_of ?c) bs)"
    then obtain b where b: "b \<in> set bs" "x = weight_of ?c b" by auto
    then have "fst b = t" using assms(5) arrivals_of_source by fastforce
    then show "0 \<le> x" using b rrf_nonneg [OF assms(1,3)] by (auto simp: weight_of_def split: prod.split)
  qed
  finally show ?thesis by (simp add: finish_score a weight_of_def)
qed

lemma rrf_alone_score:
  assumes "0 \<le> c_rrfk cfg" and "0 \<le> get_weight cfg t" and "b \<in> set (arrivals_of (t, ks))"
  shows "h_score (finish_cluster (cluster_of (rrf_contribution cfg) [b])) \<le> rrf_contribution cfg t 0 h0"
proof -
  obtain r h where "b = (t, r, h)" using arrivals_of_source [OF assms(3)] by (cases b) auto
  then show ?thesis using rrf_antimono [OF assms(1,2), of 0 r h h0]
    by (simp add: finish_score weight_of_def f32_sum_single rrf_representable)
qed

lemma fuse_by_arrangement:
  "\<exists>gs. mset gs = mset (members contribute (arrivals results)) \<and>
     fuse_by results contribute = map (finish_cluster \<circ> cluster_of contribute) gs"
proof -
  have "mset (fuse_by results contribute) =
      mset (map (finish_cluster \<circ> cluster_of contribute) (members contribute (arrivals results)))"
    by (simp add: fuse_by_def order_members comp_def image_mset.compositionality)
  then show ?thesis using arrange_map by metis
qed

lemma ranked_apart:
  fixes score :: "'a \<Rightarrow> rat"
  assumes "mset gs = mset (high @ low)" and "sorted_wrt (\<lambda>a b. score b \<le> score a) gs"
    and "\<And>x. x \<in> set high \<Longrightarrow> P x \<and> lo \<le> score x" and "\<And>x. x \<in> set low \<Longrightarrow> \<not> P x \<and> score x \<le> hi" and "hi < lo"
  shows "gs = filter P gs @ filter (\<lambda>x. \<not> P x) gs" and "mset (filter P gs) = mset high" and "mset (filter (\<lambda>x. \<not> P x) gs) = mset low"
proof -
  have set: "set gs = set high \<union> set low" using mset_eq_setD [OF assms(1)] by simp
  have "sorted_wrt (\<lambda>a b. P b \<longrightarrow> P a) gs"
  proof (rule sorted_wrt_mono_rel [OF _ assms(2)])
    fix a b
    assume ab: "a \<in> set gs" "b \<in> set gs" "score b \<le> score a"
    show "P b \<longrightarrow> P a"
    proof (rule ccontr)
      assume no: "\<not> (P b \<longrightarrow> P a)"
      then have "a \<in> set low" "b \<in> set high" using ab(1,2) assms(3,4) unfolding set by blast+
      then show False using assms(3) [of b] assms(4) [of a] ab(3) assms(5) by linarith
    qed
  qed
  then show "gs = filter P gs @ filter (\<lambda>x. \<not> P x) gs" by (rule filter_split)
  have "filter P high = high" "filter P low = []" "filter (\<lambda>x. \<not> P x) high = []" "filter (\<lambda>x. \<not> P x) low = low"
    using assms(3,4) by (simp_all add: filter_id_conv filter_empty_conv)
  then show "mset (filter P gs) = mset high" "mset (filter (\<lambda>x. \<not> P x) gs) = mset low"
    using arg_cong [OF assms(1), of "filter_mset P"] arg_cong [OF assms(1), of "filter_mset (\<lambda>x. \<not> P x)"]
    unfolding mset_filter [symmetric] filter_append by simp_all
qed

text \<open>
  C31: the threshold the comment on \<open>DefaultConfig\<close> warns of. When the best rank of the second
  searcher is worth less than the last rank of the first one, every hit of the first searcher
  precedes every hit only the second one found: the answer starts with as many groups led by the
  first searcher as it returned hits, and after a truncation to that many the second searcher has
  contributed no result of its own.
\<close>

theorem rrf_weight_threshold:
  assumes "0 \<le> c_rrfk cfg" and "0 \<le> get_weight cfg s" and "0 \<le> get_weight cfg t" and "s \<noteq> t"
    and "distinct (map hit_key hs)" and "distinct (map hit_key ks)"
    and "rrf_contribution cfg t 0 h0 < rrf_contribution cfg s (length hs - 1) h0"
  shows "\<exists>led alone. mset (concat (led @ alone)) = mset (arrivals [(s, hs), (t, ks)]) \<and>
     fuse_rrf cfg [(s, hs), (t, ks)] = map (finish_cluster \<circ> cluster_of (rrf_contribution cfg)) (led @ alone) \<and>
     length led = length hs \<and> (\<forall>ms \<in> set led. s \<in> fst ` set ms) \<and> (\<forall>ms \<in> set alone. fst ` set ms = {t})"
proof -
  let ?c = "rrf_contribution cfg" and ?rs = "[(s, hs), (t, ks)]"
  let ?f = "finish_cluster \<circ> cluster_of ?c" and ?P = "\<lambda>ms::arrival list. s \<in> fst ` set ms"
  obtain led alone where groups: "members ?c (arrivals ?rs) = led @ map (\<lambda>b. [b]) alone"
    "length led = length hs"
    "\<forall>ms \<in> set led. \<exists>a bs. ms = a # bs \<and> a \<in> set (arrivals_of (s, hs)) \<and> set bs \<subseteq> set (arrivals_of (t, ks))"
    "set alone \<subseteq> set (arrivals_of (t, ks))"
    using fuse_two_lists [OF assms(5,6,4)] by blast
  have high: "?P ms \<and> ?c s (length hs - 1) h0 \<le> h_score (?f ms)" if led_ms: "ms \<in> set led" for ms
  proof -
    obtain a bs where ms: "ms = a # bs" "a \<in> set (arrivals_of (s, hs))" "set bs \<subseteq> set (arrivals_of (t, ks))"
      using groups(3) led_ms by blast
    then show ?thesis
      using rrf_led_score [OF assms(1-3) ms(2,3)] arrivals_of_source [OF ms(2)] by simp
  qed
  have low: "fst ` set ms = {t} \<and> h_score (?f ms) \<le> ?c t 0 h0" if alone_ms: "ms \<in> set (map (\<lambda>b. [b]) alone)" for ms
  proof -
    obtain b where b: "ms = [b]" "b \<in> set (arrivals_of (t, ks))" using alone_ms groups(4) by auto
    then show ?thesis
      using rrf_alone_score [OF assms(1,3) b(2)] arrivals_of_source [OF b(2)] by simp
  qed
  obtain gs where gs: "mset gs = mset (members ?c (arrivals ?rs))" "fuse_rrf cfg ?rs = map ?f gs"
    using fuse_by_arrangement [of ?c ?rs] unfolding fuse_rrf_def by blast
  have "sorted_wrt (\<lambda>a b. h_score b \<le> h_score a) (map ?f gs)"
    unfolding gs(2) [symmetric] fuse_rrf_def fuse_by_def sort_hits_def
    by (intro in_order_scores hit_order.in_order_sort)
  then have sorted: "sorted_wrt (\<lambda>a b. h_score (?f b) \<le> h_score (?f a)) gs" by (simp add: sorted_wrt_map)
  have "\<not> ?P ms \<and> h_score (?f ms) \<le> ?c t 0 h0" if "ms \<in> set (map (\<lambda>b. [b]) alone)" for ms
    using low [OF that] assms(4) by simp
  note apart = ranked_apart [where P = ?P, OF gs(1) [unfolded groups(1)] sorted high this assms(7)]
  have all: "mset (concat gs) = mset (arrivals ?rs)"
    using gs(1) members_mset [of ?c "arrivals ?rs"] by (simp add: mset_concat flip: sum_mset_sum_list)
  show ?thesis
  proof (intro exI conjI)
    show "mset (concat (filter ?P gs @ filter (\<lambda>ms. \<not> ?P ms) gs)) = mset (arrivals ?rs)" by (simp only: apart(1) [symmetric] all)
    show "fuse_rrf cfg ?rs = map ?f (filter ?P gs @ filter (\<lambda>ms. \<not> ?P ms) gs)" by (simp only: apart(1) [symmetric] gs(2))
    show "length (filter ?P gs) = length hs" using arg_cong [OF apart(2), of size] groups(2) by (simp only: size_mset)
    show "\<forall>ms \<in> set (filter ?P gs). ?P ms" by simp
    show "\<forall>ms \<in> set (filter (\<lambda>ms. \<not> ?P ms) gs). fst ` set ms = {t}" using low mset_eq_setD [OF apart(3)] by blast
  qed
qed

definition default_weights :: "rat \<Rightarrow> config" where
  "default_weights w = default_config\<lparr> c_weights := [Vector \<mapsto> 1, BM25 \<mapsto> w] \<rparr>"

definition twenty :: "string \<Rightarrow> hit list" where
  "twenty f = map (\<lambda>i. example_hit f (int i) (int i) 0) [0..<20]"

lemma twenty_keys: "distinct (map hit_key (twenty f))"
  unfolding distinct_map twenty_def
  by (auto simp: inj_on_def hit_key_identifies example_hit_def distinct_map)

text \<open>The figures of that comment: with twenty candidates a weight of 0.7 is below the threshold.\<close>

theorem rrf_weight_threshold_witness:
  "\<exists>led alone. mset (concat (led @ alone)) = mset (arrivals [(Vector, twenty ''a''), (BM25, twenty ''b'')]) \<and>
     fuse_rrf (default_weights (7 / 10)) [(Vector, twenty ''a''), (BM25, twenty ''b'')] =
       map (finish_cluster \<circ> cluster_of (rrf_contribution (default_weights (7 / 10)))) (led @ alone) \<and>
     length led = length (twenty ''a'') \<and> (\<forall>ms \<in> set led. Vector \<in> fst ` set ms) \<and> (\<forall>ms \<in> set alone. fst ` set ms = {BM25})"
proof (rule rrf_weight_threshold [of _ _ _ _ _ "example_hit [] 0 0 0"])
  show "rrf_contribution (default_weights (7 / 10)) BM25 0 (example_hit [] 0 0 0)
      < rrf_contribution (default_weights (7 / 10)) Vector (length (twenty ''a'') - 1) (example_hit [] 0 0 0)"
    by (simp add: twenty_def rrf_contribution_def default_weights_def default_config_def get_weight_def)
      (simp add: float_eval)
qed (simp_all add: default_weights_def default_config_def get_weight_def twenty_keys)

section \<open>Agreement\<close>

lemma members_grow:
  "ms \<in> set (members contribute as) \<Longrightarrow> \<exists>ms' \<in> set (members contribute (as @ bs)). set ms \<subseteq> set ms'"
proof (induction bs rule: rev_induct)
  case Nil
  then show ?case by auto
next
  case (snoc b bs)
  then obtain ms' where ms': "ms' \<in> set (members contribute (as @ bs))" "set ms \<subseteq> set ms'" by blast
  obtain s r h where b: "b = (s, r, h)" by (metis prod_cases3)
  let ?find = "find_cluster (fst (members_run contribute (as @ bs))) s h"
  obtain k where k: "k < length (members contribute (as @ bs))" "ms' = members contribute (as @ bs) ! k"
    using ms'(1) by (auto simp: in_set_conv_nth)
  have step: "members contribute (as @ bs @ [b]) = (case ?find of
      None \<Rightarrow> members contribute (as @ bs) @ [[b]]
    | Some i \<Rightarrow> (members contribute (as @ bs))[i := members contribute (as @ bs) ! i @ [b]])"
    using members_snoc [of contribute "as @ bs" s r h] unfolding b Let_def by simp
  have "k < length (members contribute (as @ bs @ [b])) \<and>
    set ms' \<subseteq> set (members contribute (as @ bs @ [b]) ! k)"
  proof (cases ?find)
    case None
    then show ?thesis unfolding step using k by (simp add: nth_append)
  next
    case (Some i)
    then show ?thesis unfolding step using k by (cases "k = i") auto
  qed
  then show ?case using ms'(2) by (meson nth_mem subset_trans)
qed

lemma created_cluster:
  assumes "i < length (members contribute as)"
  shows "hit_key h = arr_key (hd (members contribute as ! i)) \<Longrightarrow>
    find_cluster (fst (members_run contribute as)) s h = Some i"
  using run_inv_members [of contribute as] assms
  by (cases "members_run contribute as") (auto simp: members_def run_inv_def find_cluster_def arr_key_def)

lemma arrivals_of_nth: "i < length (snd r) \<Longrightarrow> arrivals_of r ! i = (fst r, i, snd r ! i)"
  by (simp add: arrivals_of_def nth_enumerate_eq)

lemma f32_sum_ge_mem:
  assumes "\<And>x. x \<in> set xs \<Longrightarrow> 0 \<le> x" and "x \<in> set xs" and "f32.representable x"
  shows "x \<le> f32_sum xs"
proof -
  obtain us vs where xs: "xs = us @ x # vs" using split_list [OF assms(2)] by blast
  have pos: "0 \<le> f32_sum us" using f32_sum_ge [of us 0] assms(1) xs
    by (simp add: f32_sum_def f32.representable_def)
  let ?s = "f32 (f32_sum us + x)"
  have "x \<le> ?s" using assms(3) pos by (intro f32.rnd_ge) auto
  also have "\<dots> \<le> f32_sum (?s # vs)" using assms(1) xs by (intro f32_sum_ge) auto
  also have "\<dots> = f32_sum xs" by (simp add: f32_sum_def xs)
  finally show ?thesis .
qed

lemma two_source_weight:
  assumes "0 \<le> c_rrfk cfg" and "0 \<le> get_weight cfg s" and "0 \<le> get_weight cfg t" and "a \<in> set (arrivals [(s, hs), (t, ks)])"
  shows "0 \<le> weight_of (rrf_contribution cfg) a"
proof -
  have "fst a = s \<or> fst a = t" using assms(4) by (auto simp: arrivals_two dest: arrivals_of_source)
  then show ?thesis using rrf_nonneg [OF assms(1)] assms(2,3) by (auto simp: weight_of_def split: prod.split)
qed

text \<open>
  agreement is rewarded. When two searchers return the same lines of the same file, the two
  hits are one result, worth at least what either of them would be worth on its own.
\<close>

theorem agreement_is_one_result:
  assumes "0 \<le> c_rrfk cfg" and "0 \<le> get_weight cfg s" and "0 \<le> get_weight cfg t" and "s \<noteq> t"
    and "distinct (map hit_key hs)" and "distinct (map hit_key ks)"
    and "i < length hs" and "j < length ks" and "hit_key (hs ! i) = hit_key (ks ! j)"
  shows "\<exists>ms. {(s, i, hs ! i), (t, j, ks ! j)} \<subseteq> set ms \<and>
     finish_cluster (cluster_of (rrf_contribution cfg) ms) \<in> set (fuse_rrf cfg [(s, hs), (t, ks)]) \<and>
     max (rrf_contribution cfg s i (hs ! i)) (rrf_contribution cfg t j (ks ! j))
       \<le> h_score (finish_cluster (cluster_of (rrf_contribution cfg) ms))"
proof -
  let ?c = "rrf_contribution cfg" and ?as = "arrivals_of (s, hs)" and ?bs = "arrivals_of (t, ks)"
  have "\<exists>led alone. members ?c (?as @ take j ?bs) = led @ map (\<lambda>b. [b]) alone \<and> length led = length ?as \<and>
      (\<forall>i < length ?as. \<exists>ms. led ! i = ?as ! i # ms \<and> set ms \<subseteq> set (take j ?bs)) \<and> set alone \<subseteq> set (take j ?bs)"
  proof (rule members_two_sources)
    show "\<forall>b \<in> set (take j ?bs). fst b = t" using arrivals_of_source by (fastforce dest: in_set_takeD)
    show "distinct (map arr_key (take j ?bs))" by (simp add: arr_keys assms(6) flip: take_map)
  qed (use assms(4,5) arr_keys [of "(s, hs)"] arrivals_of_source in auto)
  then obtain led alone ms where mem: "members ?c (?as @ take j ?bs) = led @ map (\<lambda>b. [b]) alone"
    and len: "length led = length hs" and lead: "led ! i = (s, i, hs ! i) # ms"
    using assms(7) by (auto simp: arrivals_of_nth)
  have "find_cluster (fst (members_run ?c (?as @ take j ?bs))) t (ks ! j) = Some i"
    by (rule created_cluster) (use assms(7) in \<open>simp_all add: mem nth_append len lead arr_key_def assms(9)\<close>)
  then have "members ?c ((?as @ take j ?bs) @ [(t, j, ks ! j)]) =
      (led @ map (\<lambda>b. [b]) alone)[i := led ! i @ [(t, j, ks ! j)]]"
    using assms(7) len by (simp only: members_snoc mem Let_def option.case nth_append if_True)
  then have "led ! i @ [(t, j, ks ! j)] \<in> set (members ?c ((?as @ take j ?bs) @ [(t, j, ks ! j)]))"
    using assms(7) len by (simp add: set_update_memI)
  then obtain ms' where ms': "ms' \<in> set (members ?c (((?as @ take j ?bs) @ [(t, j, ks ! j)]) @ drop (Suc j) ?bs))"
    "set (led ! i @ [(t, j, ks ! j)]) \<subseteq> set ms'"
    using members_grow by blast
  have "((?as @ take j ?bs) @ [(t, j, ks ! j)]) @ drop (Suc j) ?bs = arrivals [(s, hs), (t, ks)]"
    using assms(8) id_take_nth_drop [of j ?bs] by (simp add: arrivals_two arrivals_of_nth)
  then have in_all: "ms' \<in> set (members ?c (arrivals [(s, hs), (t, ks)]))" using ms'(1) by simp
  have both: "{(s, i, hs ! i), (t, j, ks ! j)} \<subseteq> set ms'" using ms'(2) lead by auto
  have "set ms' \<subseteq> set (arrivals [(s, hs), (t, ks)])"
    using in_all mset_eq_setD [OF members_mset [of ?c "arrivals [(s, hs), (t, ks)]"]] by auto
  then have "\<forall>x \<in> set (map (weight_of ?c) ms'). 0 \<le> x" using two_source_weight [OF assms(1-3)] by auto
  then have worth: "weight_of ?c a \<le> f32_sum (map (weight_of ?c) ms')" if "a \<in> set ms'" for a
    using that by (intro f32_sum_ge_mem) (auto simp: weight_of_def rrf_representable split: prod.split)
  have "finish_cluster (cluster_of ?c ms') \<in> set (fuse_rrf cfg [(s, hs), (t, ks)])"
    using in_all by (simp add: fuse_rrf_def fuse_by_def order_members)
  moreover have "h_score (finish_cluster (cluster_of ?c ms')) = f32_sum (map (weight_of ?c) ms')"
    using both by (intro finish_score) auto
  ultimately show ?thesis
    using both worth [of "(s, i, hs ! i)"] worth [of "(t, j, ks ! j)"]
    by (intro exI [of _ ms']) (simp add: weight_of_def)
qed

theorem agreement_is_one_result_witness:
  "\<exists>ms. {(Vector, 1, example_hit ''a'' 2 5 0), (BM25, 0, example_hit ''a'' 2 5 0)} \<subseteq> set ms \<and>
     finish_cluster (cluster_of (rrf_contribution default_config) ms) \<in> set (fuse_rrf default_config
       [(Vector, [example_hit ''b'' 1 9 0, example_hit ''a'' 2 5 0]), (BM25, [example_hit ''a'' 2 5 0])]) \<and>
     max (rrf_contribution default_config Vector 1 (example_hit ''a'' 2 5 0))
         (rrf_contribution default_config BM25 0 (example_hit ''a'' 2 5 0))
       \<le> h_score (finish_cluster (cluster_of (rrf_contribution default_config) ms))"
  using agreement_is_one_result [of default_config Vector BM25
      "[example_hit ''b'' 1 9 0, example_hit ''a'' 2 5 0]" "[example_hit ''a'' 2 5 0]" 1 0]
  by (simp add: default_config_def get_weight_def hit_key_identifies example_hit_def)

text \<open>
  The comment on \<open>fuseBy\<close> says that only hits of different searchers are merged. The lookup by key
  does not ask for the source: here the second list's first hit joins the first list's hit because
  they overlap, and its second hit then joins it as well because it has its key. The one result
  earns two contributions from the second searcher.
\<close>

lemma fuse_counts_source_twice:
  "map (\<lambda>h. (h_line h, h_end h, h_score h)) (fuse_by
     [(Vector, [example_hit ''a'' 1 10 0]), (BM25, [example_hit ''a'' 5 15 0, example_hit ''a'' 1 10 0])] (\<lambda>_ _ _. 1))
   = [(1, 10, 3)]"
  by (simp add: fuse_by_def arrivals_def arrivals_of_def fuse_hit_def find_cluster_def empty_state_def example_hit_def
      hit_key_def file_key_def overlaps_def hit_range_def add_contribution_def promote_hit_def new_cluster_def
      finish_cluster_def sort_hits_def go_eval)
    (simp add: float_eval)

section \<open>Convex fusion\<close>

lemma score_bounds_from:
  assumes "score_bounds_from (lo, hi) hs = (l, u)"
  shows "l \<le> lo \<and> hi \<le> u \<and> (\<forall>h \<in> set hs. l \<le> h_score h \<and> h_score h \<le> u) \<and>
    l \<in> insert lo (h_score ` set hs) \<and> u \<in> insert hi (h_score ` set hs)"
  using assms
proof (induction hs arbitrary: lo hi)
  case Nil
  then show ?case by simp
next
  case (Cons h hs)
  then have "score_bounds_from (min lo (h_score h), max hi (h_score h)) hs = (l, u)"
    by (auto simp: Let_def min_def max_def split: if_splits)
  from Cons.IH [OF this] show ?case by (auto simp: min_def max_def split: if_splits)
qed

lemma score_bounds:
  assumes "h \<in> set hs"
  shows "fst (score_bounds hs) \<le> h_score h \<and> h_score h \<le> snd (score_bounds hs) \<and>
    fst (score_bounds hs) \<in> h_score ` set hs \<and> snd (score_bounds hs) \<in> h_score ` set hs"
proof -
  obtain k ks where hs: "hs = k # ks" using assms by (cases hs) auto
  obtain l u where lu: "score_bounds (k # ks) = (l, u)" by fastforce
  then have "score_bounds_from (h_score k, h_score k) ks = (l, u)" by (simp add: score_bounds_def)
  from score_bounds_from [OF this] have "l \<le> h_score x \<and> h_score x \<le> u" if "x \<in> set (k # ks)" for x
    using that by auto
  moreover have "l \<in> h_score ` set (k # ks)" "u \<in> h_score ` set (k # ks)"
    using score_bounds_from [OF \<open>score_bounds_from (h_score k, h_score k) ks = (l, u)\<close>] by auto
  ultimately show ?thesis using assms unfolding hs lu fst_conv snd_conv by blast
qed

lemma score_span_from:
  "distinct (map fst results) \<Longrightarrow>
   foldl (\<lambda>span r. span(fst r := score_bounds (snd r))) f results s =
     (case map_of results s of Some hs \<Rightarrow> score_bounds hs | None \<Rightarrow> f s)"
proof (induction results arbitrary: f)
  case Nil
  then show ?case by simp
next
  case (Cons r rs)
  then have IH: "foldl (\<lambda>span r. span(fst r := score_bounds (snd r))) (f(fst r := score_bounds (snd r))) rs s =
     (case map_of rs s of Some hs \<Rightarrow> score_bounds hs | None \<Rightarrow> (f(fst r := score_bounds (snd r))) s)"
    by (intro Cons.IH) simp
  have "map_of rs (fst r) = None" using Cons.prems by (simp add: map_of_eq_None_iff)
  then show ?case by (simp only: foldl_Cons IH) (cases r; cases "s = fst r"; simp split: option.split)
qed

lemma score_span_of:
  assumes "distinct (map fst results)" and "(s, hs) \<in> set results"
  shows "score_span results s = score_bounds hs"
  using assms by (simp add: score_span_def score_span_from map_of_is_SomeI)

lemma normalised_range:
  assumes "fst b \<le> x" and "x \<le> snd b"
  shows "0 \<le> normalised b x \<and> normalised b x \<le> 1"
  using f32.rnd_fraction [of "if fst b < 0 then fst b else 0" x "snd b"] assms
  by (auto simp: normalised_def Let_def)

lemma normalised_mono:
  assumes "x \<le> y"
  shows "normalised b x \<le> normalised b y"
  using f32.rnd_fraction_mono [OF assms, of "if fst b < 0 then fst b else 0" "snd b"]
  by (auto simp: normalised_def Let_def)

lemma normalised_top:
  assumes "f32.representable (fst b)" and "f32.representable (snd b)"
  shows "normalised b (snd b) = 1"
proof -
  have "f32.representable (if fst b < 0 then fst b else 0)" using assms by (simp add: f32.representable_def)
  from f32.diff_pos [OF this assms(2)] show ?thesis
    by (cases "fst b < 0") (auto simp: normalised_def Let_def)
qed

text \<open>
  what a searcher contributes under convex fusion. Each hit is worth between nothing and the
  searcher's weight, a better score is never worth less, and the best hit of the list is worth the
  whole weight, however the scores of the list are scaled.
\<close>

theorem convex_contribution_range:
  assumes "distinct (map fst results)" and "(s, hs) \<in> set results" and "h \<in> set hs"
    and "\<And>k. k \<in> set hs \<Longrightarrow> f32.representable (h_score k)"
    and "f32.representable (get_weight cfg s)" and "0 \<le> get_weight cfg s"
  shows "0 \<le> convex_contribution cfg results s r h \<and>
    convex_contribution cfg results s r h \<le> get_weight cfg s \<and>
    (\<forall>k \<in> set hs. h_score k \<le> h_score h \<longrightarrow>
       convex_contribution cfg results s r' k \<le> convex_contribution cfg results s r h) \<and>
    ((\<forall>k \<in> set hs. h_score k \<le> h_score h) \<longrightarrow> convex_contribution cfg results s r h = get_weight cfg s)"
proof -
  let ?b = "score_bounds hs" and ?w = "get_weight cfg s"
  have c: "convex_contribution cfg results s q k = f32 (normalised ?b (h_score k) * ?w)" for q k
    using score_span_of [OF assms(1,2)] by (simp add: convex_contribution_def)
  note b = score_bounds [OF assms(3)]
  have n: "0 \<le> normalised ?b (h_score h)" "normalised ?b (h_score h) \<le> 1"
    using normalised_range [of ?b "h_score h"] b by auto
  have "0 \<le> f32 (normalised ?b (h_score h) * ?w)" using n assms(6) by (intro f32.rnd_nonneg mult_nonneg_nonneg)
  moreover have "f32 (normalised ?b (h_score h) * ?w) \<le> ?w"
    using n assms(5,6) by (intro f32.rnd_le mult_left_le_one_le) auto
  moreover have "f32 (normalised ?b (h_score k) * ?w) \<le> f32 (normalised ?b (h_score h) * ?w)"
    if "h_score k \<le> h_score h" for k
    using that assms(6) by (intro f32.rnd_mono mult_right_mono normalised_mono)
  moreover have "f32 (normalised ?b (h_score h) * ?w) = ?w" if top: "\<forall>k \<in> set hs. h_score k \<le> h_score h"
  proof -
    have "snd ?b = h_score h" using b top by fastforce
    then have "normalised ?b (h_score h) = 1" using normalised_top [of ?b] b assms(4) by fastforce
    then show ?thesis using assms(5) by (simp add: f32.representable_def)
  qed
  ultimately show ?thesis unfolding c by blast
qed

theorem convex_contribution_range_witness:
  "convex_contribution default_config [(Vector, [example_hit ''a'' 1 2 (1 / 2), example_hit ''b'' 1 2 (- 1)]),
     (BM25, [example_hit ''c'' 1 2 9])] Vector 0 (example_hit ''a'' 1 2 (1 / 2)) = 1"
proof -
  let ?h = "example_hit ''a'' 1 2 (1 / 2)" and ?k = "example_hit ''b'' 1 2 (- 1)"
  have "f32.representable (1 / 2)" "f32.representable (- 1)"
    unfolding f32.representable_def by (simp_all add: float_eval)
  then have rep: "f32.representable (h_score x)" if "x \<in> set [?h, ?k]" for x
    using that by (auto simp: example_hit_def)
  have "f32.representable (get_weight default_config Vector)"
    by (simp add: default_config_def get_weight_def f32.representable_def)
  then show ?thesis
    using convex_contribution_range [OF _ _ _ rep, of "[(Vector, [?h, ?k]), (BM25, [example_hit ''c'' 1 2 9])]"
        Vector _ ?h default_config 0 0]
    by (simp add: default_config_def get_weight_def example_hit_def)
qed

end
