(* ===== verification/Search_Rank_Facts.thy ===== *)
theory Search_Rank_Facts
  imports Search_Rank Search_Fusion_RRF "HOL-Library.Sublist"
begin

text \<open>
  What the rank stage guarantees: reranking permutes the leading candidates and serves them in the
  order of the scores it reports, collapsing overlapping spans loses no line, and documents are
  cut at a rune boundary.
\<close>

section \<open>Collapsing spans\<close>

definition proper :: "hit \<Rightarrow> bool" where
  "proper h \<longleftrightarrow> h_line h \<le> h_end h"

lemma proper_range: "proper h \<Longrightarrow> hit_range h = (h_line h, h_end h)"
  by (simp add: proper_def hit_range_def Let_def)

lemma widen_file [simp]: "h_repo (widen a h) = h_repo a" "h_file (widen a h) = h_file a" "h_score (widen a h) = h_score a"
  by (simp_all add: widen_def Let_def split: prod.split)

lemma widen_bounds:
  "proper a \<Longrightarrow> proper h \<Longrightarrow> h_line (widen a h) = min (h_line a) (h_line h) \<and> h_end (widen a h) = max (h_end a) (h_end h)"
  by (simp add: widen_def proper_range Let_def min_def max_def)

lemma widen_proper: "proper a \<Longrightarrow> proper h \<Longrightarrow> proper (widen a h)"
  using widen_bounds [of a h] by (simp add: proper_def)

lemma widen_lines:
  assumes "proper a" and "proper h" and "overlaps a h"
  shows "hit_lines (widen a h) = hit_lines a \<union> hit_lines h"
proof -
  have place: "h_repo h = h_repo a" "h_file h = h_file a" using overlaps_file [OF assms(3)] by auto
  have meet: "h_line a \<le> h_end h" "h_line h \<le> h_end a"
    using assms place by (simp_all add: overlaps_def proper_range)
  have "{l. min (h_line a) (h_line h) \<le> l \<and> l \<le> max (h_end a) (h_end h)} =
      {l. h_line a \<le> l \<and> l \<le> h_end a} \<union> {l. h_line h \<le> l \<and> l \<le> h_end h}"
    using assms(1,2) meet unfolding proper_def by (simp add: set_eq_iff) linarith
  then show ?thesis
    using assms(1,2) widen_bounds [OF assms(1,2)] widen_proper [OF assms(1,2)] place
    by (simp add: hit_lines_def proper_range set_eq_iff) blast
qed

definition merge_inv :: "merge_state \<Rightarrow> hit list \<Rightarrow> bool" where
  "merge_inv st hs \<longleftrightarrow>
     (\<forall>f. \<forall>i \<in> set (files st f). i < length (kept st)) \<and>
     (\<forall>h \<in> set (kept st). proper h) \<and>
     (\<Union>h \<in> set (kept st). hit_lines h) = (\<Union>h \<in> set hs. hit_lines h) \<and>
     length (kept st) + merged st = length hs \<and>
     subseq (map h_score (kept st)) (map h_score hs) \<and>
     take 1 (map h_score (kept st)) = take 1 (map h_score hs)"

lemma UN_update:
  assumes "i < length xs" and "f x = f (xs ! i) \<union> A"
  shows "(\<Union>y \<in> set (xs[i := x]). f y) = (\<Union>y \<in> set xs. f y) \<union> A"
proof -
  have "set (xs[i := x]) = insert x (set (take i xs) \<union> set (drop (Suc i) xs))"
    using assms(1) by (simp add: upd_conv_take_nth_drop)
  moreover have "set xs = insert (xs ! i) (set (take i xs) \<union> set (drop (Suc i) xs))"
    using id_take_nth_drop [OF assms(1)] by (metis Un_insert_right list.simps(15) set_append)
  ultimately show ?thesis using assms(2) by auto
qed

lemma merge_hit_inv:
  assumes inv: "merge_inv st hs" and h: "proper h"
  shows "merge_inv (merge_hit st h) (hs @ [h])"
proof (cases "List.find (\<lambda>i. overlaps (kept st ! i) h) (files st (file_key h))")
  case None
  have "take 1 (map h_score (kept st @ [h])) = take 1 (map h_score (hs @ [h]))"
    using inv by (cases "kept st"; cases hs) (auto simp: merge_inv_def)
  moreover have "subseq (map h_score (kept st @ [h])) (map h_score (hs @ [h]))"
    using inv by (simp add: merge_inv_def list_emb_append_mono)
  ultimately show ?thesis using None inv h
    by (auto simp: merge_inv_def merge_hit_def less_Suc_eq)
next
  case (Some i)
  then have i: "i < length (kept st)" and ov: "overlaps (kept st ! i) h"
    using inv by (auto simp: merge_inv_def dest: find_SomeD)
  have pi: "proper (kept st ! i)" using inv i by (simp add: merge_inv_def)
  let ?k = "(kept st)[i := widen (kept st ! i) h]"
  have st: "merge_hit st h = st\<lparr> kept := ?k, merged := Suc (merged st) \<rparr>" using Some by (simp add: merge_hit_def)
  have scores: "map h_score ?k = map h_score (kept st)"
    using i by (simp add: map_update list_update_same_conv)
  have "(\<Union>h \<in> set ?k. hit_lines h) = (\<Union>h \<in> set (kept st). hit_lines h) \<union> hit_lines h"
    by (rule UN_update [OF i]) (rule widen_lines [OF pi h ov])
  moreover have "\<forall>h \<in> set ?k. proper h"
    using inv widen_proper [OF pi h] by (auto simp: merge_inv_def dest!: set_update_subset_insert [THEN subsetD])
  moreover have "subseq (map h_score ?k) (map h_score (hs @ [h]))"
    unfolding scores using inv by (simp add: merge_inv_def subseq_rev_drop_many)
  moreover have "take 1 (map h_score ?k) = take 1 (map h_score (hs @ [h]))"
    unfolding scores using inv i by (cases hs; cases "kept st") (auto simp: merge_inv_def)
  ultimately show ?thesis using inv i
    by (simp add: st merge_inv_def Un_commute)
qed

lemma merge_run_inv:
  assumes "\<And>h. h \<in> set hs \<Longrightarrow> proper h"
  shows "merge_inv (foldl merge_hit no_merges hs) hs"
  using assms
proof (induction hs rule: rev_induct)
  case Nil
  then show ?case by (simp add: merge_inv_def no_merges_def)
next
  case (snoc h hs)
  then show ?case by (simp add: merge_hit_inv)
qed

text \<open>
  C22: collapsing overlapping hits loses nothing. The lines the kept hits cover are exactly the lines
  the given hits covered; the kept hits come in the order they were ranked in, the first one is
  ranked as the first one was, and the metadata counts the hits absorbed. (For hits whose end line
  is set; \<open>widen_without_end\<close> shows what happens to one whose end is not.)
\<close>

theorem merge_spans_covers:
  assumes "\<And>h. h \<in> set hits \<Longrightarrow> proper h"
  shows "(\<Union>h \<in> set (fst (merge_spans hits m)). hit_lines h) = (\<Union>h \<in> set hits. hit_lines h) \<and>
     subseq (map h_score (fst (merge_spans hits m))) (map h_score hits) \<and>
     take 1 (map h_score (fst (merge_spans hits m))) = take 1 (map h_score hits) \<and>
     (length (fst (merge_spans hits m)) < length hits \<longrightarrow>
        snd (merge_spans hits m) =
          meta_put ''merged_spans'' (MInt (int (length hits - length (fst (merge_spans hits m))))) m)"
proof (cases "length hits < 2")
  case True
  then show ?thesis by (simp add: merge_spans_def)
next
  case False
  define st where "st = foldl merge_hit no_merges hits"
  have inv: "merge_inv st hits" unfolding st_def using assms by (rule merge_run_inv)
  have run: "merge_spans hits m = (kept st, if 0 < merged st then meta_put ''merged_spans'' (MInt (int (merged st))) m else m)"
    using False by (simp add: merge_spans_def st_def Let_def)
  have "length (kept st) + merged st = length hits" using inv unfolding merge_inv_def by blast
  then have "length hits - length (kept st) = merged st" by linarith
  then show ?thesis using inv by (simp add: run merge_inv_def)
qed

theorem merge_spans_covers_witness:
  "fst (merge_spans [example_hit ''a'' 1 10 3, example_hit ''b'' 1 5 2, example_hit ''a'' 8 20 1] None) =
     [(example_hit ''a'' 1 20 3)\<lparr> h_reason := ''merged'' \<rparr>, example_hit ''b'' 1 5 2] \<and>
   (\<Union>h \<in> {(example_hit ''a'' 1 20 3)\<lparr> h_reason := ''merged'' \<rparr>, example_hit ''b'' 1 5 2}. hit_lines h) =
   (\<Union>h \<in> {example_hit ''a'' 1 10 3, example_hit ''b'' 1 5 2, example_hit ''a'' 8 20 1}. hit_lines h)"
proof -
  let ?hs = "[example_hit ''a'' 1 10 3, example_hit ''b'' 1 5 2, example_hit ''a'' 8 20 1]"
  have eval: "fst (merge_spans ?hs None) = [(example_hit ''a'' 1 20 3)\<lparr> h_reason := ''merged'' \<rparr>, example_hit ''b'' 1 5 2]"
    by (simp add: merge_spans_def merge_hit_def no_merges_def example_hit_def file_key_def overlaps_def hit_range_def
        widen_def append_merge_reason_def Let_def)
  have "proper h" if "h \<in> set ?hs" for h using that by (auto simp: proper_def example_hit_def)
  from merge_spans_covers [OF this, of ?hs None] show ?thesis unfolding eval by simp
qed

text \<open>A widened hit whose end line was not set covers less than it did: it moves up to the other
  hit's first line and its range collapses to that line.\<close>

lemma widen_without_end:
  "hit_lines (example_hit ''a'' 10 0 1) = {(''r'', ''a'', 10)} \<and>
   hit_lines (widen (example_hit ''a'' 10 0 1) (example_hit ''a'' 5 10 1)) = {(''r'', ''a'', 5)}"
  by (auto simp: widen_def hit_lines_def example_hit_def hit_range_def append_merge_reason_def Let_def)

text \<open>Two kept hits can overlap in the end: the second one of these three was kept because it did
  not meet the first, and the third widens the first over it.\<close>

lemma merge_spans_leaves_overlap:
  "(case fst (merge_spans [example_hit ''a'' 1 10 3, example_hit ''a'' 20 30 2, example_hit ''a'' 8 22 1] None) of
      [h, k] \<Rightarrow> overlaps h k | _ \<Rightarrow> False)"
  by (simp add: merge_spans_def merge_hit_def no_merges_def example_hit_def file_key_def overlaps_def hit_range_def
      widen_def append_merge_reason_def Let_def)

section \<open>Documents\<close>

lemma back_to_rune_le: "back_to_rune doc n \<le> n"
  by (induction n) auto

lemma back_to_rune_start: "back_to_rune doc n = 0 \<or> rune_start (doc ! back_to_rune doc n)"
  by (induction n) auto

lemma back_to_rune_last: "rune_start (doc ! j) \<Longrightarrow> j \<le> n \<Longrightarrow> j \<le> back_to_rune doc n"
  by (induction n) (auto simp: le_Suc_eq)

text \<open>
  a document sent to the reranker is a prefix of at most 4096 bytes that ends at a rune boundary,
  and in a text whose runes are at most four bytes long no more than three bytes under the cap are
  given up for that.
\<close>

theorem rerank_doc_cut:
  assumes "\<And>i. i + 3 < length doc \<Longrightarrow> \<exists>j \<le> 3. rune_start (doc ! (i + j))"
  shows "(\<exists>rest. doc = truncate_rerank_doc doc @ rest \<and>
       (rest = [] \<or> truncate_rerank_doc doc = [] \<or> rune_start (hd rest))) \<and>
     length (truncate_rerank_doc doc) \<le> rerank_max_doc_bytes \<and>
     min (length doc) (rerank_max_doc_bytes - 3) \<le> length (truncate_rerank_doc doc)"
proof (cases "length doc \<le> rerank_max_doc_bytes")
  case True
  then show ?thesis by (simp add: truncate_rerank_doc_def)
next
  case False
  define n where "n = back_to_rune doc rerank_max_doc_bytes"
  have n: "n \<le> rerank_max_doc_bytes" by (simp add: n_def back_to_rune_le)
  then have t: "truncate_rerank_doc doc = take n doc" and len: "length (take n doc) = n"
    using False by (simp_all add: truncate_rerank_doc_def n_def)
  have "rerank_max_doc_bytes - 3 + 3 < length doc" using False by (simp add: rerank_max_doc_bytes_def)
  then obtain j where j: "j \<le> 3" "rune_start (doc ! (rerank_max_doc_bytes - 3 + j))" using assms by blast
  have "rerank_max_doc_bytes - 3 + j \<le> n"
    unfolding n_def using j by (intro back_to_rune_last) (auto simp: rerank_max_doc_bytes_def)
  moreover have "hd (drop n doc) = doc ! n" using n False by (simp add: hd_drop_conv_nth)
  moreover have "n = 0 \<or> rune_start (doc ! n)" unfolding n_def by (rule back_to_rune_start)
  ultimately show ?thesis
    using n len by (intro conjI exI [of _ "drop n doc"]) (auto simp: t)
qed

theorem rerank_doc_cut_witness:
  "min (length (replicate 5000 CHR ''x'')) (rerank_max_doc_bytes - 3) \<le> length (truncate_rerank_doc (replicate 5000 CHR ''x''))"
proof -
  have "\<exists>j \<le> 3. rune_start (replicate 5000 CHR ''x'' ! (i + j))" if "i + 3 < length (replicate 5000 CHR ''x'')" for i
    using that by (intro exI [of _ 0]) (simp add: rune_start_def byte_of_def)
  from rerank_doc_cut [OF this] show ?thesis by blast
qed

section \<open>Reranking\<close>

definition by_score :: "hit list \<Rightarrow> bool" where
  "by_score = sorted_wrt (\<lambda>a b. h_score b \<le> h_score a)"

lemma in_score_order: "score_order.in_order hs \<longleftrightarrow> by_score hs"
  by (simp add: score_order.in_order_def by_score_def score_above_def not_less)

lemma float_bounds_from:
  assumes "float_bounds_from (lo, hi) xs = (l, u)"
  shows "l \<le> lo \<and> hi \<le> u \<and> (\<forall>x \<in> set xs. l \<le> x \<and> x \<le> u)"
  using assms
proof (induction xs arbitrary: lo hi)
  case Nil
  then show ?case by simp
next
  case (Cons x xs)
  from Cons.IH [OF Cons.prems [simplified]] show ?case by (auto split: if_splits)
qed

lemma foldl_max: "foldl (\<lambda>lo h. if lo < h_score h then h_score h else lo) lo tail = Max (insert lo (h_score ` set tail))"
proof (induction tail arbitrary: lo)
  case Nil
  then show ?case by simp
next
  case (Cons h tail)
  have "Max (insert lo (insert (h_score h) (h_score ` set tail))) = Max (insert (max lo (h_score h)) (h_score ` set tail))"
    by (cases "tail = []") (simp_all add: ac_simps)
  then show ?case using Cons by (simp add: max_def)
qed

lemma blend_floor:
  assumes "blend_bounds head tail = (lo, hi)" and "h \<in> set tail"
  shows "h_score h \<le> lo"
  using assms by (auto simp: blend_bounds_def foldl_max split: prod.splits intro!: Max_ge)

lemma blend_bounds_le: "blend_bounds head tail = (lo, hi) \<Longrightarrow> lo \<le> hi"
  by (auto simp: blend_bounds_def Let_def split: prod.splits if_splits)

lemma blend_bounds_representable:
  assumes "blend_bounds head tail = (lo, hi)" and "head \<noteq> []"
    and "\<And>h. h \<in> set (head @ tail) \<Longrightarrow> f32.representable (h_score h)"
  shows "f32.representable lo \<and> f32.representable hi"
proof -
  obtain l u where lu: "score_bounds_from (h_score (hd head), h_score (hd head)) head = (l, u)" by fastforce
  have "h_score (hd head) \<in> h_score ` set head" using assms(2) by simp
  then have "l \<in> h_score ` set head" "u \<in> h_score ` set head"
    using score_bounds_from [OF lu] by (auto simp: insert_absorb)
  moreover define m where "m = Max (insert l (h_score ` set tail))"
  moreover have "m \<in> insert l (h_score ` set tail)" unfolding m_def by (rule Max_in) auto
  moreover have "lo = m" "hi = (if u < m then m else u)" using assms(1) by (auto simp: blend_bounds_def lu foldl_max m_def)
  ultimately show ?thesis using assms(3) by auto
qed

text \<open>The scale that maps a reranker's score into the range of the fused ones.\<close>

definition blend_scale :: "rat \<Rightarrow> rat \<Rightarrow> rat \<Rightarrow> rat \<Rightarrow> rat \<Rightarrow> rat" where
  "blend_scale lo width mn mx sc = f32 (lo + f32 (f64 (f64 (f64 (sc - mn) / f64 (mx - mn)) * width)))"

lemma blend_scale_ge:
  assumes "mn \<le> sc" and "sc \<le> mx" and "0 \<le> width" and "f32.representable lo"
  shows "lo \<le> blend_scale lo width mn mx sc"
proof -
  have "0 \<le> f64 (f64 (sc - mn) / f64 (mx - mn)) * width"
    using f64.rnd_fraction [OF assms(1,2)] assms(3) by (intro mult_nonneg_nonneg) auto
  then have "0 \<le> f32 (f64 (f64 (f64 (sc - mn) / f64 (mx - mn)) * width))"
    by (intro f32.rnd_nonneg f64.rnd_nonneg)
  then show ?thesis unfolding blend_scale_def using assms(4) by (intro f32.rnd_ge) auto
qed

lemma blend_scale_mono:
  assumes "x \<le> y" and "mn \<le> mx" and "0 \<le> width"
  shows "blend_scale lo width mn mx x \<le> blend_scale lo width mn mx y"
  unfolding blend_scale_def
  by (intro f32.rnd_mono f64.rnd_mono add_left_mono mult_right_mono f64.rnd_fraction_mono assms)

text \<open>The two shapes of the blended scores.\<close>

lemma blend_cases:
  assumes "head \<noteq> []" and "length scores = length head"
    and "\<And>h. h \<in> set (head @ tail) \<Longrightarrow> f32.representable (h_score h)"
  obtains (same) "blend_rerank_scores head tail scores = map h_score head"
      and "\<forall>x \<in> set scores. \<forall>y \<in> set scores. x = y"
  | (scaled) lo width mn mx where "blend_rerank_scores head tail scores = map (blend_scale lo width mn mx) scores"
      and "0 \<le> width" and "f32.representable lo" and "\<forall>h \<in> set tail. h_score h \<le> lo"
      and "\<forall>x \<in> set scores. mn \<le> x \<and> x \<le> mx" and "mn \<le> mx"
proof -
  obtain lo hi where b: "blend_bounds head tail = (lo, hi)" by fastforce
  obtain mn mx where f: "float_bounds_from (hd scores, hd scores) scores = (mn, mx)" by fastforce
  define top where "top = (if hi = lo then f32 (lo + f32 ((if 0 < hi then f32 (hi * f32 (1 / 1000))
    else f32 (1 / 1000000)) * f32 (of_nat (length head)))) else hi)"
  have bounds: "\<forall>x \<in> set scores. mn \<le> x \<and> x \<le> mx" using float_bounds_from [OF f] by blast
  have rep: "f32.representable lo" using blend_bounds_representable [OF b assms(1,3)] by simp
  have shape: "blend_rerank_scores head tail scores =
      (if mx = mn then map h_score head else map (blend_scale lo (f32 (top - lo)) mn mx) scores)"
    by (simp add: blend_rerank_scores_def b f top_def blend_scale_def Let_def)
  show thesis
  proof (cases "mx = mn")
    case True
    then have "\<forall>x \<in> set scores. x = mn" using bounds by (simp add: order_antisym)
    then show thesis using shape True by (intro same) (simp, metis)
  next
    case False
    have "0 \<le> f32 ((if 0 < hi then f32 (hi * f32 (1 / 1000)) else f32 (1 / 1000000)) * f32 (of_nat (length head)))"
      by (intro f32.rnd_nonneg mult_nonneg_nonneg) (auto intro!: f32.rnd_nonneg mult_nonneg_nonneg)
    then have "hi = lo \<Longrightarrow> lo \<le> top" unfolding top_def using rep by (auto intro!: f32.rnd_ge)
    moreover have "hi \<noteq> lo \<Longrightarrow> lo \<le> top" using blend_bounds_le [OF b] by (simp add: top_def)
    ultimately have "0 \<le> f32 (top - lo)" by (intro f32.rnd_nonneg) auto
    moreover have "\<forall>h \<in> set tail. h_score h \<le> lo" using blend_floor [OF b] by blast
    moreover have "mn \<le> mx" using float_bounds_from [OF f] by linarith
    ultimately show thesis using shape bounds rep False by (intro scaled [of lo "f32 (top - lo)" mn mx]) auto
  qed
qed

lemma length_blend:
  assumes "head \<noteq> []" and "length scores = length head"
    and "\<And>h. h \<in> set (head @ tail) \<Longrightarrow> f32.representable (h_score h)"
  shows "length (blend_rerank_scores head tail scores) = length head"
  by (rule blend_cases [OF assms]) (use assms in auto)

text \<open>
  the reranker's verdict decides. A candidate it scored higher than another never gets a lower
  blended score, whatever range the cross-encoder's scores have and with every intermediate result
  rounded.
\<close>

theorem blend_follows_reranker:
  assumes "length scores = length head" and "i < length head" and "j < length head"
    and "\<And>h. h \<in> set (head @ tail) \<Longrightarrow> f32.representable (h_score h)"
    and "scores ! i < scores ! j"
  shows "blend_rerank_scores head tail scores ! i \<le> blend_rerank_scores head tail scores ! j"
proof (rule blend_cases [of head scores tail])
  assume "\<forall>x \<in> set scores. \<forall>y \<in> set scores. x = y"
  then show ?thesis using assms(1,2,3,5) nth_mem by (metis less_irrefl)
next
  fix lo width mn mx
  assume "blend_rerank_scores head tail scores = map (blend_scale lo width mn mx) scores" "0 \<le> width" "mn \<le> mx"
  then show ?thesis using assms(1,2,3,5) by (simp add: blend_scale_mono)
qed (use assms in auto)

theorem blend_follows_reranker_witness:
  "blend_rerank_scores [example_hit ''a'' 1 2 1, example_hit ''b'' 1 2 1] [] [- 3, 4] ! 0
   \<le> blend_rerank_scores [example_hit ''a'' 1 2 1, example_hit ''b'' 1 2 1] [] [- 3, 4] ! 1"
  by (rule blend_follows_reranker) (auto simp: example_hit_def f32.representable_def)

lemma rerank_head_scores:
  assumes "head \<noteq> []" and "length scores = length head"
    and "\<And>h. h \<in> set (head @ tail) \<Longrightarrow> f32.representable (h_score h)"
    and "by_score (head @ tail)" and "h \<in> set (rerank_head head tail scores)" and "k \<in> set tail"
  shows "h_score k \<le> h_score h"
proof -
  let ?b = "blend_rerank_scores head tail scores"
  from assms(5) obtain i where i: "i < length head" "i < length ?b" "h = reranked_hit (head ! i) (?b ! i)"
    by (auto simp: rerank_head_def in_set_zip set_map)
  then have s: "h_score h = ?b ! i" by (simp add: reranked_hit_def)
  show ?thesis
  proof (rule blend_cases [OF assms(1-3)])
    assume "?b = map h_score head"
    then show ?thesis using s i assms(4,6) nth_mem by (auto simp: by_score_def sorted_wrt_append)
  next
    fix lo width mn mx
    assume *: "?b = map (blend_scale lo width mn mx) scores" "0 \<le> width" "f32.representable lo"
      "\<forall>h \<in> set tail. h_score h \<le> lo" "\<forall>x \<in> set scores. mn \<le> x \<and> x \<le> mx"
    then have "lo \<le> ?b ! i" using i by (simp add: blend_scale_ge)
    then show ?thesis using * s assms(6) by force
  qed
qed

lemma rerank_head_keys:
  assumes "head \<noteq> []" and "length scores = length head"
    and "\<And>h. h \<in> set (head @ tail) \<Longrightarrow> f32.representable (h_score h)"
  shows "mset (map hit_key (rerank_head head tail scores)) = mset (map hit_key head)"
proof -
  let ?b = "blend_rerank_scores head tail scores"
  have [simp]: "hit_key (reranked_hit h x) = hit_key h" for h x by (simp add: reranked_hit_def hit_key_def)
  have keys: "length xs = length ys \<Longrightarrow> map hit_key (map2 reranked_hit xs ys) = map hit_key xs" for xs ys
    by (induction xs ys rule: list_induct2) simp_all
  have "length head = length ?b" by (rule length_blend [OF assms, symmetric])
  then have "map hit_key (map2 reranked_hit head ?b) = map hit_key head" by (rule keys)
  then have "image_mset hit_key (mset (map2 reranked_hit head ?b)) = image_mset hit_key (mset head)"
    by (simp only: mset_map [symmetric])
  then show ?thesis by (simp only: rerank_head_def mset_map mset_sort_lt)
qed

lemma rerank_by_score:
  assumes "by_score hits" and "\<And>h. h \<in> set hits \<Longrightarrow> f32.representable (h_score h)" and "0 < top_n"
    and "apply_rerank rr top_n q hits m = (out, m')"
  shows "mset (map hit_key out) = mset (map hit_key hits) \<and> drop top_n out = drop top_n hits \<and> by_score out \<and>
    (m' = meta_put ''rerank_candidates'' (MInt (int (min top_n (length hits)))) (meta_put ''reranked'' (MBool True) m) \<or> out = hits)"
proof -
  let ?n = "if length hits < top_n then length hits else top_n"
  show ?thesis
  proof (cases "\<exists>r scores. rr = Some r \<and> 1 < length hits \<and>
      rerank_result r q (map rerank_doc (take ?n hits)) = Inr scores")
    case False
    then have "out = hits"
      using assms(4) by (auto simp: apply_rerank_def Let_def split: option.splits if_splits sum.splits)
    then show ?thesis using assms(1) by simp
  next
    case True
    then obtain r scores where r: "rr = Some r" "1 < length hits"
      "rerank_result r q (map rerank_doc (take ?n hits)) = Inr scores" by blast
    let ?head = "take ?n hits" and ?tail = "drop ?n hits"
    have out: "out = rerank_head ?head ?tail scores @ ?tail"
      and m': "m' = meta_put ''rerank_candidates'' (MInt (int ?n)) (meta_put ''reranked'' (MBool True) m)"
      using assms(4) r by (auto simp: apply_rerank_def Let_def)
    have ne: "?head \<noteq> []" using r(2) assms(3) by auto
    have len: "length scores = length ?head"
      using r(3) by (auto simp: rerank_result_def split: sum.splits if_splits)
    have rep: "f32.representable (h_score h)" if "h \<in> set (?head @ ?tail)" for h
      using that assms(2) by simp
    have bs: "by_score (?head @ ?tail)" using assms(1) by simp
    have "length (blend_rerank_scores ?head ?tail scores) = length ?head" by (rule length_blend [OF ne len rep])
    then have "length (rerank_head ?head ?tail scores) = length ?head" by (simp only: rerank_head_def length_sort_lt length_map length_zip min.idem)
    then have "drop top_n out = drop top_n hits" by (auto simp: out)
    moreover have "mset (map hit_key out) = mset (map hit_key hits)"
    proof -
      have "mset (map hit_key out) = mset (map hit_key ?head) + mset (map hit_key ?tail)"
        using rerank_head_keys [OF ne len rep] by (simp only: out map_append mset_append)
      also have "\<dots> = mset (map hit_key (?head @ ?tail))" by (simp only: map_append mset_append)
      finally show ?thesis by simp
    qed
    moreover have "by_score out"
      using rerank_head_scores [OF ne len rep bs] bs score_order.in_order_sort
      unfolding out by_score_def sorted_wrt_append rerank_head_def in_score_order [unfolded by_score_def]
      by blast
    ultimately show ?thesis using m' by (simp add: min_def)
  qed
qed



end
