(* ===== verification/Search_Filters.thy ===== *)
theory Search_Filters
  imports Search_Hits
begin

text \<open>
  Search queries and the filter language of \<open>internal/index/interface.go\<close>: the untyped filter
  map of a query, its normal form and the test a document has to pass.
\<close>

section \<open>Filter values\<close>

text \<open>
  A filter map decodes from JSON, so a value is a string, a list of strings, a list of values
  or something else (a number, a boolean, an object, null). Go iterates over a map in an order of
  its own choosing: the model takes the entries in the order of one such iteration.
\<close>

datatype fvalue = FString string | FStrings "string list" | FList "fvalue list" | FOther

type_synonym raw_filter = "(string \<times> fvalue) list"

record filters =
  languages :: "string list"
  kinds :: "string list"
  path_prefix :: string

definition add_trimmed :: "string \<Rightarrow> string list" where
  "add_trimmed s = (let t = trim_space s in if t \<noteq> [] then [t] else [])"

fun to_strings :: "fvalue \<Rightarrow> string list" where
  "to_strings (FString s) = add_trimmed s"
| "to_strings (FStrings ss) = concat (map add_trimmed ss)"
| "to_strings (FList vs) = concat (map to_strings vs)"
| "to_strings FOther = []"

definition filter_key :: "string \<Rightarrow> string" where
  "filter_key k = to_lower (trim_space k)"

definition parse_filter :: "filters \<Rightarrow> string \<times> fvalue \<Rightarrow> filters" where
  "parse_filter f kv =
     (let key = filter_key (fst kv); vs = to_strings (snd kv) in
      if key = ''language'' \<or> key = ''languages'' then f\<lparr> languages := languages f @ vs \<rparr>
      else if key = ''kind'' \<or> key = ''kinds'' then f\<lparr> kinds := kinds f @ vs \<rparr>
      else if key = ''path'' \<or> key = ''path_prefix'' then
        (case vs of [] \<Rightarrow> f | v # _ \<Rightarrow> f\<lparr> path_prefix := v \<rparr>)
      else f)"

definition no_filters :: filters where
  "no_filters = \<lparr> languages = [], kinds = [], path_prefix = [] \<rparr>"

definition parse_filters :: "raw_filter \<Rightarrow> filters" where
  "parse_filters raw =
     (let f = foldl parse_filter no_filters raw
      in f\<lparr> languages := sort (languages f), kinds := sort (kinds f) \<rparr>)"

definition filters_empty :: "filters \<Rightarrow> bool" where
  "filters_empty f \<longleftrightarrow> length (languages f) = 0 \<and> length (kinds f) = 0 \<and> path_prefix f = []"

definition equal_fold :: "string \<Rightarrow> string \<Rightarrow> bool" where
  "equal_fold s t \<longleftrightarrow> to_lower s = to_lower t"

fun contains_fold_in :: "string list \<Rightarrow> string \<Rightarrow> bool" where
  "contains_fold_in [] v = False"
| "contains_fold_in (i # is) v = (if equal_fold i v then True else contains_fold_in is v)"

definition contains_fold :: "string list \<Rightarrow> string \<Rightarrow> bool" where
  "contains_fold list v = (if v = [] then False else contains_fold_in list v)"

definition filters_match :: "filters \<Rightarrow> string \<Rightarrow> string \<Rightarrow> string \<Rightarrow> bool" where
  "filters_match f language kind path =
     (if length (languages f) > 0 \<and> \<not> contains_fold (languages f) language then False
      else if length (kinds f) > 0 \<and> \<not> contains_fold (kinds f) kind then False
      else if path_prefix f \<noteq> [] \<and> \<not> has_prefix path (path_prefix f) then False
      else True)"

record query =
  q_text :: string
  q_repo :: string
  q_repos :: "string list"
  q_limit :: int
  q_filter :: raw_filter
  q_vector :: "rat list"
  q_intent :: string

section \<open>What a filter lets through\<close>

lemma contains_fold_in_iff: "contains_fold_in is v \<longleftrightarrow> to_lower v \<in> to_lower ` set is"
  by (induction "is") (auto simp: equal_fold_def)

lemma contains_fold_iff: "contains_fold is v \<longleftrightarrow> v \<noteq> [] \<and> to_lower v \<in> to_lower ` set is"
  by (simp add: contains_fold_def contains_fold_in_iff)

lemma filters_match_iff:
  "filters_match f l k p \<longleftrightarrow>
     (languages f = [] \<or> contains_fold (languages f) l) \<and>
     (kinds f = [] \<or> contains_fold (kinds f) k) \<and>
     (path_prefix f = [] \<or> has_prefix p (path_prefix f))"
  by (simp add: filters_match_def)

text \<open>The values a raw filter names under the keys of a group, in iteration order.\<close>

abbreviation "language_keys \<equiv> [''language'', ''languages'']"
abbreviation "kind_keys \<equiv> [''kind'', ''kinds'']"
abbreviation "path_keys \<equiv> [''path'', ''path_prefix'']"

definition values_under :: "string list \<Rightarrow> string \<times> fvalue \<Rightarrow> string list" where
  "values_under keys kv = (if filter_key (fst kv) \<in> set keys then to_strings (snd kv) else [])"

definition named :: "string list \<Rightarrow> raw_filter \<Rightarrow> string list" where
  "named keys raw = concat (map (values_under keys) raw)"

definition last_prefix :: "string \<Rightarrow> raw_filter \<Rightarrow> string" where
  "last_prefix p raw = foldl (\<lambda>p kv. case values_under path_keys kv of [] \<Rightarrow> p | v # _ \<Rightarrow> v) p raw"

lemma parse_filter_eq:
  "parse_filter f kv = f\<lparr> languages := languages f @ values_under language_keys kv,
     kinds := kinds f @ values_under kind_keys kv,
     path_prefix := last_prefix (path_prefix f) [kv] \<rparr>"
proof -
  consider (l) "filter_key (fst kv) = ''language''" | (ls) "filter_key (fst kv) = ''languages''"
    | (k) "filter_key (fst kv) = ''kind''" | (ks) "filter_key (fst kv) = ''kinds''"
    | (p) "filter_key (fst kv) = ''path''" | (pp) "filter_key (fst kv) = ''path_prefix''"
    | (n) "filter_key (fst kv) \<notin> {''language'', ''languages'', ''kind'', ''kinds'', ''path'', ''path_prefix''}"
    by blast
  then show ?thesis
    by cases (simp_all add: parse_filter_def values_under_def last_prefix_def Let_def split: list.split)
qed

lemma foldl_parse_filter:
  "foldl parse_filter f raw = f\<lparr> languages := languages f @ named language_keys raw,
     kinds := kinds f @ named kind_keys raw, path_prefix := last_prefix (path_prefix f) raw \<rparr>"
proof (induction raw arbitrary: f)
  case Nil
  then show ?case by (simp add: named_def last_prefix_def)
next
  case (Cons kv raw)
  show ?case by (simp add: Cons.IH parse_filter_eq [of f kv]) (simp add: named_def last_prefix_def)
qed

lemma parse_filters_eq:
  "parse_filters raw = \<lparr> languages = sort (named language_keys raw),
     kinds = sort (named kind_keys raw), path_prefix = last_prefix [] raw \<rparr>"
  by (simp add: parse_filters_def foldl_parse_filter no_filters_def Let_def)

lemma mset_named: "mset raw = mset raw' \<Longrightarrow> mset (named keys raw) = mset (named keys raw')"
  by (simp add: named_def mset_concat flip: sum_mset_sum_list)

lemma last_prefix_named: "last_prefix p raw = (if named path_keys raw = [] then p else
    hd (last (filter (\<lambda>vs. vs \<noteq> []) (map (values_under path_keys) raw))))"
proof (induction raw arbitrary: p)
  case Nil
  then show ?case by (simp add: named_def last_prefix_def)
next
  case (Cons kv raw)
  show ?case
  proof (cases "values_under path_keys kv")
    case Nil
    then have "last_prefix p (kv # raw) = last_prefix p raw" by (simp add: last_prefix_def)
    then show ?thesis using Cons.IH Nil by (simp add: named_def)
  next
    case (Cons v vs)
    then have "last_prefix p (kv # raw) = last_prefix v raw" by (simp add: last_prefix_def)
    then show ?thesis using Cons.IH Cons
      by (auto simp: named_def filter_empty_conv)
  qed
qed

text \<open>At most one entry of the map sets a path prefix.\<close>

definition one_prefix :: "raw_filter \<Rightarrow> bool" where
  "one_prefix raw \<longleftrightarrow> length (filter (\<lambda>vs. vs \<noteq> []) (map (values_under path_keys) raw)) \<le> 1"

lemma last_prefix_mset:
  assumes "mset raw = mset raw'" and "one_prefix raw"
  shows "last_prefix p raw = last_prefix p raw'"
proof -
  let ?f = "\<lambda>raw. filter (\<lambda>vs. vs \<noteq> []) (map (values_under path_keys) raw)"
  have m: "mset (?f raw) = mset (?f raw')" using assms(1) by simp
  have e: "named path_keys raw = [] \<longleftrightarrow> ?f raw = []" for raw
    by (auto simp: named_def filter_empty_conv)
  have "?f raw = ?f raw'"
  proof (cases "?f raw")
    case Nil
    then show ?thesis using m by simp
  next
    case (Cons v vs)
    then have "?f raw = [v]" using assms(2) by (simp add: one_prefix_def)
    then show ?thesis using m by (metis mset_single_iff mset.simps)
  qed
  then show ?thesis by (simp add: last_prefix_named e)
qed

text \<open>
  What a filter map means does not depend on the order Go iterates over it, provided at most
  one of its entries sets a path prefix. (With both \<open>path\<close> and \<open>path_prefix\<close> set to different
  prefixes it does: \<open>path_filters_race\<close>.)
\<close>

theorem parse_filters_order_free:
  assumes "mset raw = mset raw'" and "one_prefix raw"
  shows "parse_filters raw = parse_filters raw'"
  using mset_named [OF assms(1)] last_prefix_mset [OF assms]
  by (simp add: parse_filters_eq properties_for_sort)

theorem parse_filters_order_free_witness:
  "parse_filters [(''Kind'', FString '' class ''), (''path'', FString ''src/''), (''kinds'', FStrings [''func''])] =
   parse_filters [(''kinds'', FStrings [''func'']), (''Kind'', FString '' class ''), (''path'', FString ''src/'')]"
  by (rule parse_filters_order_free)
    (simp_all add: one_prefix_def values_under_def filter_key_def go_eval add_trimmed_def trim_space_def
       trim_both_def trim_left_def trim_right_def)

lemma path_filters_race:
  "path_prefix (parse_filters [(''path'', FString ''a''), (''path_prefix'', FString ''b'')]) = ''b'' \<and>
   path_prefix (parse_filters [(''path_prefix'', FString ''b''), (''path'', FString ''a'')]) = ''a''"
  by (simp add: parse_filters_eq last_prefix_def values_under_def filter_key_def go_eval add_trimmed_def
      trim_space_def trim_both_def trim_left_def trim_right_def)

text \<open>
  a document passes a parsed filter exactly when its language is one of the named ones
  (in any case, when any is named), its kind likewise, and its path starts with the prefix (when
  one is set); a document whose language or kind is unknown passes no filter that names one.
\<close>

theorem filters_match_meaning:
  "filters_match (parse_filters raw) l k p \<longleftrightarrow>
     (named language_keys raw = [] \<or> l \<noteq> [] \<and> to_lower l \<in> to_lower ` set (named language_keys raw)) \<and>
     (named kind_keys raw = [] \<or> k \<noteq> [] \<and> to_lower k \<in> to_lower ` set (named kind_keys raw)) \<and>
     (last_prefix [] raw = [] \<or> (\<exists>t. p = last_prefix [] raw @ t))"
  by (auto simp: filters_match_iff parse_filters_eq contains_fold_iff has_prefix_iff
      simp flip: set_empty)

end
