(* ===== verification/Search_Service.thy ===== *)
theory Search_Service
  imports Search_Rank_Facts Search_Filters
begin

text \<open>
  The search service of \<open>internal/search/hybrid.go\<close>: querying the searchers, degrading when one of
  them fails, fusing and ranking. The searchers and the reranker are the parameters of the service,
  as they are in the source; metrics, log lines and durations are left out. The goroutines of
  \<open>collectResults\<close> write to disjoint slots and are joined before anything is read, so the model
  calls the searchers in the fixed order.
\<close>

section \<open>Errors\<close>

datatype go_error = ErrIndexDamaged | ErrText string | ErrWrap string go_error

text \<open>\<open>errors.Is(err, ErrIndexDamaged)\<close> follows the chain of \<open>%w\<close> wrappers.\<close>

fun is_damaged :: "go_error \<Rightarrow> bool" where
  "is_damaged ErrIndexDamaged = True"
| "is_damaged (ErrText s) = False"
| "is_damaged (ErrWrap s e) = is_damaged e"

fun err_text :: "go_error \<Rightarrow> string" where
  "err_text ErrIndexDamaged = ''index segment is unreadable''"
| "err_text (ErrText s) = s"
| "err_text (ErrWrap s e) = s @ '': '' @ err_text e"

section \<open>The service\<close>

record search_result =
  r_hits :: "hit list"
  r_total :: int
  r_query :: string
  r_meta :: "meta option"

text \<open>A searcher returns an error or a result, which may be nil.\<close>

type_synonym searcher = "query \<Rightarrow> go_error + search_result option"

record service =
  searchers :: "index_type \<Rightarrow> searcher option"
  s_config :: "config option"
  s_reranker :: "reranker option"
  s_rerank_top_n :: int

definition default_rerank_top_n :: int where
  "default_rerank_top_n = 50"

definition search_order :: "index_type list" where
  "search_order = [Vector, BM25]"

definition new_service :: "(index_type \<Rightarrow> searcher option) \<Rightarrow> config option \<Rightarrow> service" where
  "new_service srch cfg =
     \<lparr> searchers = srch, s_config = Some (case cfg of None \<Rightarrow> default_config | Some c \<Rightarrow> c),
       s_reranker = None, s_rerank_top_n = 0 \<rparr>"

definition set_reranker :: "service \<Rightarrow> reranker option \<Rightarrow> int \<Rightarrow> service" where
  "set_reranker s r n =
     s\<lparr> s_reranker := r, s_rerank_top_n := (if n \<le> 0 then default_rerank_top_n else n) \<rparr>"

definition top_n :: "service \<Rightarrow> int" where
  "top_n s =
     (if s_reranker s = None then 0
      else if s_rerank_top_n s \<le> 0 then default_rerank_top_n
      else s_rerank_top_n s)"

definition candidate_query :: "service \<Rightarrow> query \<Rightarrow> query" where
  "candidate_query s q = (let n = top_n s in if n \<le> q_limit q then q else q\<lparr> q_limit := n \<rparr>)"

definition settle :: "search_result \<Rightarrow> search_result" where
  "settle r = r\<lparr> r_hits := sort_hits (r_hits r) \<rparr>"

definition config_of :: "service \<Rightarrow> config" where
  "config_of s = (case s_config s of Some c \<Rightarrow> c | None \<Rightarrow> default_config)"

text \<open>What one searcher's answer adds to the results and to the failures.\<close>

definition collect_one :: "query \<Rightarrow> indexed list \<times> (index_type \<times> go_error) list \<Rightarrow> index_type \<times> searcher
    \<Rightarrow> indexed list \<times> (index_type \<times> go_error) list" where
  "collect_one q acc ts =
     (case acc of (results, failures) \<Rightarrow> case ts of (t, srch) \<Rightarrow>
       (case srch q of
          Inl err \<Rightarrow> (results, failures @ [(t, err)])
        | Inr None \<Rightarrow> (results, failures @ [(t, ErrText ''searcher returned nil result'')])
        | Inr (Some r) \<Rightarrow> (results @ [(t, r_hits (settle r))], failures)))"

definition configured :: "service \<Rightarrow> (index_type \<times> searcher) list" where
  "configured s = List.map_filter (\<lambda>t. map_option (Pair t) (searchers s t)) search_order"

definition collect_results :: "service \<Rightarrow> query \<Rightarrow> indexed list \<times> (index_type \<times> go_error) list" where
  "collect_results s q = foldl (collect_one (candidate_query s q)) ([], []) (configured s)"

definition primary_failure :: "(index_type \<times> go_error) list \<Rightarrow> go_error" where
  "primary_failure fs =
     (case List.find (\<lambda>f. is_damaged (snd f)) fs of Some f \<Rightarrow> snd f | None \<Rightarrow> snd (hd fs))"

definition add_failure_metadata :: "meta option \<Rightarrow> indexed list \<Rightarrow> (index_type \<times> go_error) list \<Rightarrow> meta option" where
  "add_failure_metadata m results failures =
     (let m = meta_put ''searchers'' (MStrings (map (\<lambda>r. type_name (fst r)) results)) m in
      if failures = [] then m
      else meta_put ''searcher_errors'' (MErrors (map (\<lambda>f. (type_name (fst f), err_text (snd f))) failures))
             (meta_put ''failed_searchers'' (MStrings (map (\<lambda>f. type_name (fst f)) failures))
               (meta_put ''degraded'' (MBool True) m)))"

definition method_name :: "fusion_method \<Rightarrow> string" where
  "method_name m = (case m of FusionRRF \<Rightarrow> ''rrf'' | FusionConvex \<Rightarrow> ''convex'')"

definition candidates :: "service \<Rightarrow> query \<Rightarrow> go_error + (hit list \<times> meta option)" where
  "candidates s q =
     (let (results, failures) = collect_results s q in
      if results = [] then
        (if failures \<noteq> [] then Inl (ErrWrap ''all searchers failed'' (primary_failure failures))
         else Inr ([], Some Map.empty))
      else Inr (fuse (config_of s) results,
        meta_put ''fusion'' (MString (method_name (method_of (s_config s))))
          (add_failure_metadata (Some Map.empty) results failures)))"

definition candidates_from :: "service \<Rightarrow> index_type \<Rightarrow> query \<Rightarrow> go_error + (hit list \<times> meta option)" where
  "candidates_from s t q =
     (case searchers s t of
        None \<Rightarrow> Inr ([], Some Map.empty)
      | Some srch \<Rightarrow>
          (case srch (candidate_query s q) of
             Inl err \<Rightarrow> Inl err
           | Inr None \<Rightarrow> Inl (ErrText (''searcher '' @ type_name t @ '' returned no result''))
           | Inr (Some r) \<Rightarrow>
               let r = settle r in
               Inr (r_hits r, case r_meta r of None \<Rightarrow> Some Map.empty | Some m \<Rightarrow> Some m)))"

definition rank_for :: "service \<Rightarrow> string \<Rightarrow> hit list \<Rightarrow> meta option \<Rightarrow> int \<Rightarrow> hit list \<times> meta option" where
  "rank_for s text hits m limit = rank (s_config s) (s_reranker s) (nat (top_n s)) text hits m limit"

definition single_search :: "service \<Rightarrow> index_type \<Rightarrow> query \<Rightarrow> go_error + search_result" where
  "single_search s t q =
     (case searchers s t of
        None \<Rightarrow> Inr \<lparr> r_hits = [], r_total = 0, r_query = q_text q, r_meta = None \<rparr>
      | Some srch \<Rightarrow>
          (case srch (candidate_query s q) of
             Inl err \<Rightarrow> Inl err
           | Inr None \<Rightarrow> Inl (ErrText (''searcher '' @ type_name t @ '' returned no result''))
           | Inr (Some r) \<Rightarrow>
               let r = settle r;
                   m = (case r_meta r of None \<Rightarrow> Some Map.empty | Some m \<Rightarrow> Some m);
                   (hits, m) = rank_for s (q_text q) (r_hits r) m (q_limit q)
               in Inr (r\<lparr> r_hits := hits, r_total := int (length hits), r_meta := m \<rparr>)))"

definition search :: "service \<Rightarrow> query \<Rightarrow> bool \<Rightarrow> go_error + search_result" where
  "search s q fusion =
     (if \<not> fusion then single_search s Vector q
      else case candidates s q of
        Inl err \<Rightarrow> Inl err
      | Inr (hits, m) \<Rightarrow>
          let (hits, m) = rank_for s (q_text q) hits m (q_limit q)
          in Inr \<lparr> r_hits = hits, r_total = int (length hits), r_query = q_text q, r_meta = m \<rparr>)"

definition semantic_search :: "service \<Rightarrow> query \<Rightarrow> go_error + search_result" where
  "semantic_search s q = single_search s Vector q"

definition keyword_search :: "service \<Rightarrow> query \<Rightarrow> go_error + search_result" where
  "keyword_search s q = single_search s BM25 q"

section \<open>Collecting\<close>

text \<open>The answers of the configured searchers, split into results and failures.\<close>

definition good :: "query \<Rightarrow> index_type \<times> searcher \<Rightarrow> indexed option" where
  "good q ts = (case snd ts q of Inr (Some r) \<Rightarrow> Some (fst ts, sort_hits (r_hits r)) | _ \<Rightarrow> None)"

definition bad :: "query \<Rightarrow> index_type \<times> searcher \<Rightarrow> (index_type \<times> go_error) option" where
  "bad q ts = (case snd ts q of Inl e \<Rightarrow> Some (fst ts, e)
     | Inr None \<Rightarrow> Some (fst ts, ErrText ''searcher returned nil result'') | Inr (Some r) \<Rightarrow> None)"

lemma collect_results_eq:
  "collect_results s q = (List.map_filter (good (candidate_query s q)) (configured s),
     List.map_filter (bad (candidate_query s q)) (configured s))"
proof -
  have "foldl (collect_one p) (rs, fs) ts = (rs @ List.map_filter (good p) ts, fs @ List.map_filter (bad p) ts)" for p rs fs ts
    by (induction ts arbitrary: rs fs)
      (auto simp: collect_one_def good_def bad_def settle_def map_filter_simps split: sum.split option.split)
  then show ?thesis by (simp add: collect_results_def)
qed

lemma primary_failure_damaged:
  "fs \<noteq> [] \<Longrightarrow> is_damaged (primary_failure fs) \<longleftrightarrow> (\<exists>f \<in> set fs. is_damaged (snd f))"
proof (cases "List.find (\<lambda>f. is_damaged (snd f)) fs")
  case None
  then show "fs \<noteq> [] \<Longrightarrow> ?thesis" using find_NoneD [OF None] by (auto simp: primary_failure_def)
next
  case (Some f)
  then show "fs \<noteq> [] \<Longrightarrow> ?thesis" using find_SomeD [OF Some] by (auto simp: primary_failure_def)
qed

lemma truncate_length: "0 < limit \<Longrightarrow> length (truncate_hits hs limit) \<le> nat limit"
  by (auto simp: truncate_hits_def)

lemma map_filter_Nil_iff: "List.map_filter f xs = [] \<longleftrightarrow> (\<forall>x \<in> set xs. f x = None)"
  by (induction xs) (auto simp: map_filter_simps split: option.split)

lemma bad_none: "bad q ts = None \<longleftrightarrow> good q ts \<noteq> None"
  by (auto simp: bad_def good_def split: sum.split option.split)

lemma bad_damaged: "(\<exists>f. bad q ts = Some f \<and> is_damaged (snd f)) \<longleftrightarrow> (\<exists>e. snd ts q = Inl e \<and> is_damaged e)"
  by (cases "snd ts q") (auto simp: bad_def split: option.split)

lemma no_good: "List.map_filter (good q) xs = [] \<longleftrightarrow> (\<forall>ts \<in> set xs. good q ts = None)"
  by (simp only: map_filter_Nil_iff)

lemma some_bad: "List.map_filter (bad q) xs \<noteq> [] \<longleftrightarrow> (\<exists>ts \<in> set xs. good q ts = None)"
  unfolding map_filter_Nil_iff bad_none by (simp only: ball_simps not_not)

lemma damaged_among: "(\<exists>f \<in> set (List.map_filter (bad q) xs). is_damaged (snd f)) \<longleftrightarrow>
    (\<exists>ts \<in> set xs. \<exists>e. snd ts q = Inl e \<and> is_damaged e)"
  unfolding bad_damaged [symmetric] set_map_filter by blast

lemma search_error:
  "search s q True = Inl err \<longleftrightarrow>
     List.map_filter (good (candidate_query s q)) (configured s) = [] \<and>
     List.map_filter (bad (candidate_query s q)) (configured s) \<noteq> [] \<and>
     err = ErrWrap ''all searchers failed'' (primary_failure (List.map_filter (bad (candidate_query s q)) (configured s)))"
  by (auto simp: search_def candidates_def collect_results_eq case_prod_beta Let_def split: if_splits)

text \<open>
  a search fails only when every configured searcher does, and then an index that must be
  rebuilt stays visible in the error chain exactly when some searcher reported one.
\<close>

theorem search_fails_only_when_all_fail:
  "search s q True = Inl err \<longleftrightarrow>
     configured s \<noteq> [] \<and> (\<forall>ts \<in> set (configured s). good (candidate_query s q) ts = None) \<and>
     err = ErrWrap ''all searchers failed'' (primary_failure (List.map_filter (bad (candidate_query s q)) (configured s))) \<and>
     (is_damaged err = (\<exists>ts \<in> set (configured s). \<exists>e. snd ts (candidate_query s q) = Inl e \<and> is_damaged e))"
proof (cases "List.map_filter (good (candidate_query s q)) (configured s) = [] \<and> configured s \<noteq> []")
  case True
  from True [THEN conjunct1] have all: "\<forall>ts \<in> set (configured s). good (candidate_query s q) ts = None"
    by (simp only: no_good)
  moreover have "set (configured s) \<noteq> {}" using True by simp
  ultimately have ne: "List.map_filter (bad (candidate_query s q)) (configured s) \<noteq> []" unfolding some_bad
    by (metis ex_in_conv)
  let ?err = "ErrWrap ''all searchers failed'' (primary_failure (List.map_filter (bad (candidate_query s q)) (configured s)))"
  have damaged: "is_damaged ?err = (\<exists>ts \<in> set (configured s). \<exists>e. snd ts (candidate_query s q) = Inl e \<and> is_damaged e)"
    by (simp only: is_damaged.simps primary_failure_damaged [OF ne] damaged_among)
  have fails: "search s q True = Inl err \<longleftrightarrow> err = ?err"
    unfolding search_error using True [THEN conjunct1] ne by (simp only: simp_thms)
  show ?thesis
  proof (cases "err = ?err")
    case eq: True
    show ?thesis unfolding fails unfolding eq damaged using all True [THEN conjunct2] by (simp only: simp_thms)
  next
    case False
    then show ?thesis unfolding fails by (simp only: simp_thms)
  qed
next
  case False
  then have "\<not> (configured s \<noteq> [] \<and> (\<forall>ts \<in> set (configured s). good (candidate_query s q) ts = None))"
    by (simp only: no_good) blast
  moreover have "search s q True \<noteq> Inl err"
    unfolding search_error using False by (auto simp: map_filter_simps)
  ultimately show ?thesis by blast
qed

text \<open>
  C23: a degraded search answers from the searchers that are left: with some searcher answering, the
  result is the ranking of the fusion of exactly the lists that came back, each settled into the
  deterministic order first; it is marked as degraded exactly when some searcher failed, and never
  holds more hits than asked for.
\<close>

theorem search_degrades:
  assumes "\<exists>ts \<in> set (configured s). good (candidate_query s q) ts \<noteq> None"
  shows "\<exists>r m. search s q True = Inr r \<and>
     (r_hits r, r_meta r) = rank_for s (q_text q)
        (fuse (config_of s) (List.map_filter (good (candidate_query s q)) (configured s))) (Some m) (q_limit q) \<and>
     (m ''degraded'' = Some (MBool True) \<longleftrightarrow> (\<exists>ts \<in> set (configured s). good (candidate_query s q) ts = None)) \<and>
     r_total r = int (length (r_hits r)) \<and>
     (0 < q_limit q \<longrightarrow> r_total r \<le> q_limit q)"
proof -
  let ?q = "candidate_query s q"
  let ?good = "List.map_filter (good ?q) (configured s)" and ?bad = "List.map_filter (bad ?q) (configured s)"
  define m where "m = the (meta_put ''fusion'' (MString (method_name (method_of (s_config s))))
    (add_failure_metadata (Some Map.empty) ?good ?bad))"
  have ne: "?good \<noteq> []" using assms unfolding no_good by (simp only: ball_simps)
  have cand: "candidates s q = Inr (fuse (config_of s) ?good, Some m)"
    using ne by (simp add: candidates_def collect_results_eq m_def meta_put_def add_failure_metadata_def Let_def)
  have "m ''degraded'' = Some (MBool True) \<longleftrightarrow> ?bad \<noteq> []"
    by (simp add: m_def meta_put_def add_failure_metadata_def Let_def)
  then have degraded: "m ''degraded'' = Some (MBool True) \<longleftrightarrow> (\<exists>ts \<in> set (configured s). good ?q ts = None)"
    unfolding some_bad .
  obtain hits m' where r: "rank_for s (q_text q) (fuse (config_of s) ?good) (Some m) (q_limit q) = (hits, m')"
    by fastforce
  then have "0 < q_limit q \<longrightarrow> length hits \<le> nat (q_limit q)"
    using truncate_length by (auto simp: rank_for_def rank_def Let_def split: prod.splits)
  then have "0 < q_limit q \<longrightarrow> int (length hits) \<le> q_limit q" by linarith
  then show ?thesis using cand r degraded
    by (intro exI [of _ "\<lparr> r_hits = hits, r_total = int (length hits), r_query = q_text q, r_meta = m' \<rparr>"]
        exI [of _ m]) (simp add: search_def)
qed

text \<open>
  a searcher is always asked for enough candidates: at least the caller's limit and, when a
  reranker is configured, at least the rerank window.
\<close>

theorem candidate_query_window:
  "q_limit (candidate_query (set_reranker s r n) q) = max (q_limit q) (top_n (set_reranker s r n)) \<and>
   (r \<noteq> None \<longrightarrow> 0 < top_n (set_reranker s r n)) \<and>
   (candidate_query (set_reranker s r n) q)\<lparr> q_limit := q_limit q \<rparr> = q"
  by (auto simp: candidate_query_def set_reranker_def top_n_def default_rerank_top_n_def Let_def)

section \<open>Concrete services\<close>

definition example_query :: query where
  "example_query = \<lparr> q_text = ''parse'', q_repo = [], q_repos = [], q_limit = 5, q_filter = [], q_vector = [], q_intent = [] \<rparr>"

text \<open>A service whose vector index is damaged and whose keyword index answers with one hit.\<close>

definition half_service :: service where
  "half_service = new_service [Vector \<mapsto> (\<lambda>q. Inl (ErrWrap ''vector'' ErrIndexDamaged)),
     BM25 \<mapsto> (\<lambda>q. Inr (Some \<lparr> r_hits = [example_hit ''a'' 1 2 1], r_total = 1, r_query = q_text q, r_meta = None \<rparr>))] None"

text \<open>A service whose searchers both fail, one of them for an index that must be rebuilt.\<close>

definition broken_service :: service where
  "broken_service = new_service [Vector \<mapsto> (\<lambda>q. Inl (ErrText ''connection refused'')),
     BM25 \<mapsto> (\<lambda>q. Inl (ErrWrap ''bm25'' ErrIndexDamaged))] None"

lemmas service_eval = new_service_def configured_def search_order_def map_filter_simps candidate_query_def top_n_def
  good_def bad_def

theorem search_degrades_witness:
  "\<exists>r m. search half_service example_query True = Inr r \<and>
     (r_hits r, r_meta r) = rank_for half_service ''parse''
        (fuse default_config [(BM25, [example_hit ''a'' 1 2 1])]) (Some m) 5 \<and> m ''degraded'' = Some (MBool True)"
proof -
  have "\<exists>ts \<in> set (configured half_service). good (candidate_query half_service example_query) ts \<noteq> None"
    by (simp add: half_service_def service_eval)
  from search_degrades [OF this] show ?thesis
    by (simp add: half_service_def service_eval config_of_def example_query_def sort_hits_def) blast
qed

theorem search_fails_only_when_all_fail_witness:
  "search broken_service example_query True = Inl (ErrWrap ''all searchers failed'' (ErrWrap ''bm25'' ErrIndexDamaged))"
  unfolding search_fails_only_when_all_fail
  by (simp add: broken_service_def service_eval primary_failure_def)

theorem candidate_query_window_witness:
  "q_limit (candidate_query (set_reranker half_service (Some (\<lambda>_ _. Inl ''down'')) 0) example_query) = 50 \<and>
   0 < top_n (set_reranker half_service (Some (\<lambda>_ _. Inl ''down'')) 0)"
  using candidate_query_window [of half_service "Some (\<lambda>_ _. Inl ''down'')" 0 example_query]
  by (simp add: set_reranker_def top_n_def default_rerank_top_n_def example_query_def)

end
