(* ===== verification/Job_Store.thy ===== *)
theory Job_Store
  imports Go_Strings
begin

text \<open>
  The indexing queue and the repository table of the SQLite store
  (\<open>internal/store/sqlite/jobs.go\<close>, \<open>internal/store/sqlite/repos.go\<close> and the statements they run):
  one definition per store method, each the effect of its SQL on the rows.

  A table is the list of its rows in primary-key order. \<open>now\<close> is the value \<open>time.Now().Unix()\<close>
  returned inside the method. A job id is the integer behind its decimal spelling. The database
  itself failing is not modelled: every statement succeeds.
\<close>

section \<open>Rows\<close>

datatype job_kind = KIndex | KCommits
datatype job_status = Pending | Running | Done | Errored

record job =
  j_id :: nat
  j_repo :: string
  j_kind :: job_kind
  j_force :: bool
  j_status :: job_status
  j_error :: string
  j_created :: int
  j_claimed_at :: int
  j_heartbeat :: int
  j_claimed_by :: string
  j_payload :: string

datatype repo_status = Idle | Indexing | StatusError

record repo =
  p_id :: string
  p_name :: string
  p_source :: string
  p_url :: string
  p_path :: string
  p_branch :: string
  p_status :: repo_status
  p_last_error :: string
  p_created :: int
  p_indexed :: int
  p_last_commit :: string
  p_claimed_by :: string
  p_claim_expires :: int
  p_pending_commit :: string
  p_active :: bool

record db =
  jobs :: "job list"
  next_id :: nat
  repos :: "repo list"

datatype store_error = ErrNotFound

text \<open>\<open>UPDATE ... SET f WHERE P\<close>, and the number of rows it changes.\<close>

definition update_where :: "('r \<Rightarrow> bool) \<Rightarrow> ('r \<Rightarrow> 'r) \<Rightarrow> 'r list \<Rightarrow> 'r list" where
  "update_where P f rows = map (\<lambda>r. if P r then f r else r) rows"

definition rows_affected :: "('r \<Rightarrow> bool) \<Rightarrow> 'r list \<Rightarrow> nat" where
  "rows_affected P rows = length (filter P rows)"

section \<open>The job queue\<close>

definition new_job :: "nat \<Rightarrow> string \<Rightarrow> job_kind \<Rightarrow> bool \<Rightarrow> int \<Rightarrow> string \<Rightarrow> job" where
  "new_job i repo kind force now payload =
     \<lparr> j_id = i, j_repo = repo, j_kind = kind, j_force = force, j_status = Pending, j_error = [],
       j_created = now, j_claimed_at = 0, j_heartbeat = 0, j_claimed_by = [], j_payload = payload \<rparr>"

definition insert_job :: "string \<Rightarrow> job_kind \<Rightarrow> bool \<Rightarrow> int \<Rightarrow> string \<Rightarrow> db \<Rightarrow> db \<times> job" where
  "insert_job repo kind force now payload d =
     (let j = new_job (next_id d) repo kind force now payload
      in (d\<lparr> jobs := jobs d @ [j], next_id := Suc (next_id d) \<rparr>, j))"

text \<open>The rows the partial unique index \<open>idx_index_jobs_pending_repo\<close> covers.\<close>

definition pending_index :: "string \<Rightarrow> job \<Rightarrow> bool" where
  "pending_index repo j \<longleftrightarrow> j_repo j = repo \<and> j_status j = Pending \<and> j_kind j = KIndex"

definition enqueue_index_job :: "int \<Rightarrow> string \<Rightarrow> bool \<Rightarrow> db \<Rightarrow> db \<times> job" where
  "enqueue_index_job now repo force d =
     (case List.find (pending_index repo) (jobs d) of
        None \<Rightarrow> insert_job repo KIndex force now [] d
      | Some p \<Rightarrow>
          let p' = p\<lparr> j_force := (j_force p \<or> force) \<rparr>
          in (d\<lparr> jobs := update_where (\<lambda>j. j_id j = j_id p) (\<lambda>_. p') (jobs d) \<rparr>, p'))"

definition enqueue_commit_job :: "int \<Rightarrow> string \<Rightarrow> string \<Rightarrow> db \<Rightarrow> db \<times> job" where
  "enqueue_commit_job now repo payload d = insert_job repo KCommits False now payload d"

definition get_index_job :: "nat \<Rightarrow> db \<Rightarrow> store_error + job" where
  "get_index_job i d =
     (case List.find (\<lambda>j. j_id j = i) (jobs d) of None \<Rightarrow> Inl ErrNotFound | Some j \<Rightarrow> Inr j)"

definition list_index_jobs :: "string \<Rightarrow> int \<Rightarrow> db \<Rightarrow> job list" where
  "list_index_jobs repo limit d =
     take (nat (if limit \<le> 0 then 50 else limit)) (rev (filter (\<lambda>j. j_repo j = repo) (jobs d)))"

definition has_pending_commit_job_before :: "string \<Rightarrow> nat \<Rightarrow> db \<Rightarrow> bool" where
  "has_pending_commit_job_before repo i d =
     list_ex (\<lambda>j. j_repo j = repo \<and> j_kind j = KCommits \<and> (j_status j = Pending \<or> j_status j = Running) \<and> j_id j < i)
       (jobs d)"

definition claim_next_index_job :: "int \<Rightarrow> string \<Rightarrow> db \<Rightarrow> db \<times> (store_error + job)" where
  "claim_next_index_job now worker d =
     (case List.find (\<lambda>j. j_status j = Pending) (jobs d) of
        None \<Rightarrow> (d, Inl ErrNotFound)
      | Some p \<Rightarrow>
          let p' = p\<lparr> j_status := Running, j_claimed_by := worker, j_claimed_at := now, j_heartbeat := now \<rparr>
          in (d\<lparr> jobs := update_where (\<lambda>j. j_id j = j_id p) (\<lambda>_. p') (jobs d) \<rparr>, Inr p'))"

definition held_by :: "nat \<Rightarrow> string \<Rightarrow> job \<Rightarrow> bool" where
  "held_by i worker j \<longleftrightarrow> j_id j = i \<and> j_status j = Running \<and> j_claimed_by j = worker"

definition heartbeat_index_job :: "int \<Rightarrow> nat \<Rightarrow> string \<Rightarrow> db \<Rightarrow> db \<times> store_error option" where
  "heartbeat_index_job now i worker d =
     (d\<lparr> jobs := update_where (held_by i worker) (\<lambda>j. j\<lparr> j_heartbeat := now \<rparr>) (jobs d) \<rparr>,
      if rows_affected (held_by i worker) (jobs d) = 0 then Some ErrNotFound else None)"

definition complete_index_job :: "nat \<Rightarrow> string \<Rightarrow> string \<Rightarrow> db \<Rightarrow> db \<times> store_error option" where
  "complete_index_job i worker err d =
     (let status = (if err \<noteq> [] then Errored else Done) in
      (d\<lparr> jobs := update_where (held_by i worker)
                   (\<lambda>j. j\<lparr> j_status := status, j_error := err, j_payload := [] \<rparr>) (jobs d) \<rparr>,
       if rows_affected (held_by i worker) (jobs d) = 0 then Some ErrNotFound else None))"

definition superseded :: string where
  "superseded = ''superseded by a pending job for the same repo''"

definition back_to_pending :: "job \<Rightarrow> job" where
  "back_to_pending j = j\<lparr> j_status := Pending, j_claimed_by := [], j_claimed_at := 0, j_heartbeat := 0 \<rparr>"

definition releasable :: "job list \<Rightarrow> nat \<Rightarrow> string \<Rightarrow> job \<Rightarrow> bool" where
  "releasable rows i worker j \<longleftrightarrow>
     held_by i worker j \<and> (j_kind j \<noteq> KIndex \<or> \<not> list_ex (pending_index (j_repo j)) rows)"

definition release_index_job :: "nat \<Rightarrow> string \<Rightarrow> db \<Rightarrow> db \<times> store_error option" where
  "release_index_job i worker d =
     (if rows_affected (releasable (jobs d) i worker) (jobs d) > 0
      then (d\<lparr> jobs := update_where (releasable (jobs d) i worker) back_to_pending (jobs d) \<rparr>, None)
      else complete_index_job i worker superseded d)"

definition stale :: "int \<Rightarrow> job \<Rightarrow> bool" where
  "stale cutoff j \<longleftrightarrow> j_status j = Running \<and> j_heartbeat j < cutoff"

text \<open>\<open>SELECT MIN(j.id)\<close> over the stale index jobs of a repository.\<close>

definition first_stale :: "job list \<Rightarrow> int \<Rightarrow> string \<Rightarrow> nat option" where
  "first_stale rows cutoff repo =
     map_option j_id (List.find (\<lambda>j. j_repo j = repo \<and> stale cutoff j \<and> j_kind j = KIndex) rows)"

definition surplus :: "job list \<Rightarrow> int \<Rightarrow> job \<Rightarrow> bool" where
  "surplus rows cutoff j \<longleftrightarrow>
     stale cutoff j \<and> j_kind j = KIndex \<and>
     (list_ex (pending_index (j_repo j)) rows \<or> first_stale rows cutoff (j_repo j) \<noteq> Some (j_id j))"

definition requeue_stale_index_jobs :: "int \<Rightarrow> int \<Rightarrow> db \<Rightarrow> db \<times> nat" where
  "requeue_stale_index_jobs now older_than d =
     (let cutoff = now - older_than;
          rows = update_where (surplus (jobs d) cutoff) (\<lambda>j. j\<lparr> j_status := Errored, j_error := superseded \<rparr>) (jobs d)
      in (d\<lparr> jobs := update_where (stale cutoff) back_to_pending rows \<rparr>, rows_affected (stale cutoff) rows))"

section \<open>Repositories\<close>

definition store_repo :: "repo \<Rightarrow> db \<Rightarrow> db" where
  "store_repo r d =
     (if list_ex (\<lambda>p. p_id p = p_id r) (repos d)
      then d\<lparr> repos := update_where (\<lambda>p. p_id p = p_id r)
                (\<lambda>p. p\<lparr> p_name := p_name r, p_source := p_source r, p_url := p_url r, p_path := p_path r,
                         p_branch := p_branch r \<rparr>) (repos d) \<rparr>
      else d\<lparr> repos := repos d @ [r\<lparr> p_claimed_by := [], p_claim_expires := 0, p_pending_commit := [],
                                    p_active := True \<rparr>] \<rparr>)"

definition get_repo :: "string \<Rightarrow> db \<Rightarrow> store_error + repo" where
  "get_repo i d = (case List.find (\<lambda>p. p_id p = i) (repos d) of None \<Rightarrow> Inl ErrNotFound | Some p \<Rightarrow> Inr p)"

definition list_repos :: "db \<Rightarrow> repo list" where
  "list_repos d = sort_key p_created (repos d)"

definition list_active_repos :: "db \<Rightarrow> repo list" where
  "list_active_repos d = sort_key p_created (filter p_active (repos d))"

definition set_active_repos :: "string list \<Rightarrow> db \<Rightarrow> db" where
  "set_active_repos ids d =
     d\<lparr> repos := update_where (\<lambda>p. p_id p \<in> set ids) (\<lambda>p. p\<lparr> p_active := True \<rparr>)
                  (update_where (\<lambda>_. True) (\<lambda>p. p\<lparr> p_active := False \<rparr>) (repos d)) \<rparr>"

definition delete_repo :: "string \<Rightarrow> db \<Rightarrow> db" where
  "delete_repo i d = d\<lparr> repos := filter (\<lambda>p. p_id p \<noteq> i) (repos d) \<rparr>"

definition default_repo_claim_ttl :: int where
  "default_repo_claim_ttl = 3600"

definition claimable :: "string \<Rightarrow> int \<Rightarrow> repo \<Rightarrow> bool" where
  "claimable i now p \<longleftrightarrow> p_id p = i \<and> (p_status p \<noteq> Indexing \<or> p_claim_expires p \<le> now)"

definition claim_repo_for_indexing :: "int \<Rightarrow> string \<Rightarrow> string \<Rightarrow> int \<Rightarrow> db \<Rightarrow> db \<times> (store_error + bool)" where
  "claim_repo_for_indexing now i owner ttl d =
     (let ttl = (if ttl \<le> 0 then default_repo_claim_ttl else ttl);
          d' = d\<lparr> repos := update_where (claimable i now)
                 (\<lambda>p. p\<lparr> p_status := Indexing, p_last_error := [], p_claimed_by := owner, p_claim_expires := now + ttl \<rparr>)
                 (repos d) \<rparr>
      in (d', if rows_affected (claimable i now) (repos d) > 0 then Inr True
              else if list_ex (\<lambda>p. p_id p = i) (repos d) then Inr False else Inl ErrNotFound))"

definition repo_reset_message :: string where
  "repo_reset_message = ''indexing interrupted; reset at startup''"

definition reset_stuck_repos :: "int \<Rightarrow> bool \<Rightarrow> db \<Rightarrow> db \<times> nat" where
  "reset_stuck_repos now force d =
     (let P = (if force then (\<lambda>p. p_status p = Indexing) else (\<lambda>p. p_status p = Indexing \<and> p_claim_expires p \<le> now)) in
      (d\<lparr> repos := update_where P (\<lambda>p. p\<lparr> p_status := Idle, p_claimed_by := [], p_claim_expires := 0,
            p_pending_commit := [], p_last_error := repo_reset_message \<rparr>) (repos d) \<rparr>,
       rows_affected P (repos d)))"

definition update_repo_row :: "string \<Rightarrow> (repo \<Rightarrow> repo) \<Rightarrow> db \<Rightarrow> db \<times> store_error option" where
  "update_repo_row i f d =
     (d\<lparr> repos := update_where (\<lambda>p. p_id p = i) f (repos d) \<rparr>,
      if rows_affected (\<lambda>p. p_id p = i) (repos d) = 0 then Some ErrNotFound else None)"

definition set_repo_pending_commit :: "string \<Rightarrow> string \<Rightarrow> db \<Rightarrow> db \<times> store_error option" where
  "set_repo_pending_commit i sha = update_repo_row i (\<lambda>p. p\<lparr> p_pending_commit := sha \<rparr>)"

definition update_repo_last_commit :: "string \<Rightarrow> string \<Rightarrow> db \<Rightarrow> db \<times> store_error option" where
  "update_repo_last_commit i sha = update_repo_row i (\<lambda>p. p\<lparr> p_last_commit := sha \<rparr>)"

definition update_repo_status :: "string \<Rightarrow> repo_status \<Rightarrow> string \<Rightarrow> int \<Rightarrow> db \<Rightarrow> db \<times> store_error option" where
  "update_repo_status i status err indexed =
     update_repo_row i (\<lambda>p. p\<lparr> p_status := status, p_last_error := err, p_indexed := indexed,
       p_claimed_by := [], p_claim_expires := 0, p_pending_commit := [] \<rparr>)"

end
