(* ===== verification/Commit_Plan.thy ===== *)
theory Commit_Plan
  imports Go_Path Job_Store
begin

text \<open>
  Commit batches (\<open>internal/app/commits.go\<close>): the paths a push may name, how a batch relates to the
  repository's cursor, and the plan its commits merge into.
\<close>

section \<open>Batches\<close>

record commit_file =
  cf_path :: string
  cf_old :: string
  cf_content :: string
  cf_status :: string

record commit_event =
  ce_sha :: string
  ce_parents :: "string list"
  ce_files :: "commit_file list"

datatype app_error =
    ErrBadRequest string
  | ErrInvalidPath string
  | ErrRepoBusy string
  | ErrStore store_error
  | ErrOther string

definition validate_commit_path :: "string \<Rightarrow> app_error option" where
  "validate_commit_path path =
     (if path = [] then Some (ErrInvalidPath ''commit file path is required'')
      else if is_abs path \<or> has_prefix path ''/'' \<or> has_prefix path [char_of (92::nat)]
        then Some (ErrInvalidPath (''commit file path must be relative to the repo root: '' @ path))
      else let clean = path_clean path in
        if clean = ''..'' \<or> has_prefix clean (''..'' @ ''/'')
        then Some (ErrInvalidPath (''commit file path escapes the repo root: '' @ path))
        else None)"

fun has_parent :: "string list \<Rightarrow> string \<Rightarrow> bool" where
  "has_parent [] sha = False"
| "has_parent (p # ps) sha = (if p = sha then True else has_parent ps sha)"

datatype commit_batch_order = CommitBatchNext | CommitBatchApplied | CommitBatchTooEarly

fun covers_sha :: "commit_event list \<Rightarrow> string \<Rightarrow> bool" where
  "covers_sha [] sha = False"
| "covers_sha (c # cs) sha = (if ce_sha c = sha then True else covers_sha cs sha)"

definition commit_job_order :: "repo \<Rightarrow> commit_event list \<Rightarrow> commit_batch_order" where
  "commit_job_order repo commits =
     (if p_last_commit repo = [] \<or> has_parent (ce_parents (hd commits)) (p_last_commit repo) then CommitBatchNext
      else if covers_sha commits (p_last_commit repo) then CommitBatchApplied
      else CommitBatchTooEarly)"

section \<open>The merged plan\<close>

datatype plan_entry = PlanDelete | PlanUpsert string

type_synonym plan = "string \<rightharpoonup> plan_entry"

definition plan_file :: "plan \<Rightarrow> commit_file \<Rightarrow> plan" where
  "plan_file plan f =
     (if cf_status f = ''D'' then plan(cf_path f \<mapsto> PlanDelete)
      else if cf_status f = ''R'' then
        (let plan = (if cf_old f \<noteq> [] \<and> cf_old f \<noteq> cf_path f then plan(cf_old f \<mapsto> PlanDelete) else plan)
         in plan(cf_path f \<mapsto> PlanUpsert (cf_content f)))
      else plan(cf_path f \<mapsto> PlanUpsert (cf_content f)))"

definition merge_commit_plan :: "commit_event list \<Rightarrow> plan" where
  "merge_commit_plan commits = foldl (\<lambda>plan c. foldl plan_file plan (ce_files c)) Map.empty commits"

section \<open>What the plan means\<close>

text \<open>
  The meaning of a change is its effect on a tree of files: a deletion removes the path, a rename
  also removes the old one, and a write replaces the content. Applying the merged plan at once
  has the effect of applying the changes one after another.
\<close>

type_synonym tree = "string \<rightharpoonup> string"

definition change_tree :: "tree \<Rightarrow> commit_file \<Rightarrow> tree" where
  "change_tree t f =
     (if cf_status f = ''D'' then t(cf_path f := None)
      else if cf_status f = ''R'' then
        (if cf_old f \<noteq> [] then t(cf_old f := None) else t)(cf_path f \<mapsto> cf_content f)
      else t(cf_path f \<mapsto> cf_content f))"

definition apply_tree_plan :: "plan \<Rightarrow> tree \<Rightarrow> tree" where
  "apply_tree_plan plan t p = (case plan p of None \<Rightarrow> t p | Some PlanDelete \<Rightarrow> None | Some (PlanUpsert c) \<Rightarrow> Some c)"

lemma apply_plan_file: "apply_tree_plan (plan_file plan f) t = change_tree (apply_tree_plan plan t) f"
  by (rule ext) (auto simp: apply_tree_plan_def plan_file_def change_tree_def Let_def)

lemma apply_plan_files: "apply_tree_plan (foldl plan_file plan fs) t = foldl change_tree (apply_tree_plan plan t) fs"
  by (induction fs arbitrary: plan) (simp_all add: apply_plan_file)

lemma apply_tree_plan_empty [simp]: "apply_tree_plan Map.empty t = t"
  by (rule ext) (simp add: apply_tree_plan_def)

text \<open>
  C12: one incremental pass over the merged plan of a batch leaves every file as the batch's commits,
  applied one after another, leave it.
\<close>

theorem merged_plan_is_sequential:
  "apply_tree_plan (merge_commit_plan commits) t = foldl change_tree t (concat (map ce_files commits))"
proof -
  have "apply_tree_plan (foldl (\<lambda>plan c. foldl plan_file plan (ce_files c)) plan commits) t =
      foldl change_tree (apply_tree_plan plan t) (concat (map ce_files commits))" for plan
    by (induction commits arbitrary: plan) (simp_all add: apply_plan_files)
  then show ?thesis by (simp add: merge_commit_plan_def)
qed

section \<open>Paths stay inside the repository\<close>

lemma dotdot_stays: "''..'' \<in> set acc \<Longrightarrow> ''..'' \<in> set (clean_segs False acc ss)"
proof (induction ss arbitrary: acc)
  case Nil
  then show ?case by simp
next
  case (Cons s ss)
  then show ?case
  proof (cases "s = ''..'' \<and> acc \<noteq> [] \<and> hd acc \<noteq> ''..''")
    case True
    then have "''..'' \<in> set (tl acc)" using Cons.prems by (cases acc) auto
    then show ?thesis using Cons.IH True by simp
  next
    case False
    then show ?thesis using Cons by auto
  qed
qed

text \<open>In a cleaned relative path parent steps come first.\<close>

lemma dotdot_leads:
  "\<exists>n gs. rev acc = replicate n ''..'' @ gs \<and> ''..'' \<notin> set gs \<Longrightarrow>
   \<exists>n gs. clean_segs False acc ss = replicate n ''..'' @ gs \<and> ''..'' \<notin> set gs"
proof (induction ss arbitrary: acc)
  case Nil
  then show ?case by simp
next
  case (Cons s ss)
  then obtain n gs where acc: "rev acc = replicate n ''..'' @ gs" "''..'' \<notin> set gs" by blast
  consider (skip) "s = [] \<or> s = ''.''" | (pop) "s = ''..''" "acc \<noteq> []" "hd acc \<noteq> ''..''"
    | (up) "s = ''..''" "acc = [] \<or> hd acc = ''..''" | (push) "s \<noteq> []" "s \<noteq> ''.''" "s \<noteq> ''..''" by blast
  then show ?case
  proof cases
    case skip
    then show ?thesis using Cons by simp
  next
    case pop
    have "gs \<noteq> []"
    proof
      assume "gs = []"
      then have "acc = replicate n ''..''" using acc by (metis append_Nil2 rev_replicate rev_rev_ident)
      then show False using pop by (cases n) auto
    qed
    moreover have "rev (tl acc) = butlast (rev acc)" by (simp add: butlast_rev)
    ultimately have "rev (tl acc) = replicate n ''..'' @ butlast gs" using acc by (simp add: butlast_append)
    moreover have "''..'' \<notin> set (butlast gs)" using acc by (meson in_set_butlastD)
    ultimately show ?thesis using Cons.IH [of "tl acc"] pop by auto
  next
    case up
    have "gs = []"
    proof (rule ccontr)
      assume "gs \<noteq> []"
      moreover from this have "acc \<noteq> []" using acc by auto
      moreover have "last (rev acc) = last gs" using acc \<open>gs \<noteq> []\<close> by simp
      ultimately show False using up acc(2) last_in_set [of gs] by (metis last_rev)
    qed
    then have "rev (s # acc) = replicate (Suc n) ''..'' @ []" using acc up by (simp flip: replicate_append_same)
    then have "\<exists>n gs. rev (s # acc) = replicate n ''..'' @ gs \<and> ''..'' \<notin> set gs" by fastforce
    from Cons.IH [OF this] show ?thesis using up by auto
  next
    case push
    have "rev (s # acc) = replicate n ''..'' @ (gs @ [s]) \<and> ''..'' \<notin> set (gs @ [s])" using acc push by simp
    then have "\<exists>n gs. rev (s # acc) = replicate n ''..'' @ gs \<and> ''..'' \<notin> set gs" by blast
    from Cons.IH [OF this] show ?thesis using push by simp
  qed
qed

text \<open>A relative path with no parent step in its clean form cleans the same below any root.\<close>

lemma clean_below:
  "''..'' \<notin> set (clean_segs False acc ss) \<Longrightarrow> clean_segs True (acc @ base) ss = rev base @ clean_segs False acc ss"
proof (induction ss arbitrary: acc)
  case Nil
  then show ?case by simp
next
  case (Cons s ss)
  have no: "''..'' \<notin> set acc" using Cons.prems dotdot_stays by blast
  show ?case
  proof (cases "s = ''..'' \<and> acc = []")
    case True
    then have "''..'' \<in> set (clean_segs False acc (s # ss))" using dotdot_stays [of "[''..'']" ss] by simp
    then show ?thesis using Cons.prems by simp
  next
    case False
    have "s = ''..'' \<Longrightarrow> acc \<noteq> [] \<and> hd acc \<noteq> ''..''" using False no by (cases acc) auto
    then show ?thesis using Cons.IH [of "tl acc"] Cons.IH [of acc] Cons.IH [of "s # acc"] Cons.prems
      by (cases acc) auto
  qed
qed

definition root_str :: "string list \<Rightarrow> string" where
  "root_str rs = ''/'' @ join_with ''/'' rs"

lemma clean_segs_kept: "s \<in> set (clean_segs r acc ss) \<Longrightarrow> s \<in> set acc \<or> (s \<in> set ss \<and> s \<noteq> [] \<and> s \<noteq> ''.'')"
  by (induction r acc ss rule: clean_segs.induct) (auto split: if_splits dest: list.set_sel(2))

lemma split_join_prefix:
  "rs \<noteq> [] \<Longrightarrow> (\<forall>s \<in> set rs. CHR ''/'' \<notin> set s) \<Longrightarrow>
   split_on CHR ''/'' (join_with ''/'' rs @ ''/'' @ p) = rs @ split_on CHR ''/'' p"
  by (induction "''/''" rs rule: join_with.induct) (auto simp: split_on_prepend)

lemma clean_segs_push: "(\<forall>s \<in> set rs. good_seg s) \<Longrightarrow> clean_segs r acc (rs @ ss) = clean_segs r (rev rs @ acc) ss"
  by (induction rs arbitrary: acc) (auto simp: good_seg_def)

lemma accepted_path_clean:
  assumes "validate_commit_path path = None"
  shows "path \<noteq> [] \<and> \<not> is_abs path \<and> ''..'' \<notin> set (clean_segs False [] (split_on CHR ''/'' path))"
proof -
  let ?cl = "clean_segs False [] (split_on CHR ''/'' path)"
  have p: "path \<noteq> []" "\<not> is_abs path" and c: "path_clean path \<noteq> ''..''" "\<not> has_prefix (path_clean path) ''../''"
    using assms by (auto simp: validate_commit_path_def Let_def split: if_splits)
  obtain n gs where cl: "?cl = replicate n ''..'' @ gs" "''..'' \<notin> set gs"
    using dotdot_leads [of "[]" "split_on CHR ''/'' path"] by auto
  have "n = 0"
  proof (rule ccontr)
    assume "n \<noteq> 0"
    then obtain rest where rest: "?cl = ''..'' # rest" using cl by (cases n) auto
    then have "path_clean path = join_with ''/'' (''..'' # rest)" using p by (auto simp: path_clean_def join_Nil_iff) (cases rest; simp)+
    then show False using c by (cases rest) auto
  qed
  then show ?thesis using cl p by simp
qed

text \<open>
  C27: a pushed path that passes the check cannot leave the repository: joined with the repository's
  root it names the root itself or something below it.
\<close>

theorem commit_path_confined:
  assumes "validate_commit_path path = None" and "rs \<noteq> []" and "\<forall>s \<in> set rs. good_seg s"
  shows "\<exists>segs. (\<forall>s \<in> set segs. good_seg s) \<and> path_join [root_str rs, path] = root_str (rs @ segs)"
proof -
  let ?cl = "clean_segs False [] (split_on CHR ''/'' path)"
  have p: "path \<noteq> []" "\<not> is_abs path" and no: "''..'' \<notin> set ?cl" using accepted_path_clean [OF assms(1)] by auto
  have "good_seg s" if "s \<in> set ?cl" for s
    using clean_segs_kept [OF that] that no split_on_notin [of s "CHR ''/''" path] by (auto simp: good_seg_def)
  moreover have "path_join [root_str rs, path] = root_str (rs @ ?cl)"
  proof -
    let ?full = "''/'' @ join_with ''/'' rs @ ''/'' @ path"
    have "path_join [root_str rs, path] = path_clean ?full"
      using p by (simp add: path_join_def root_str_def)
    moreover have "split_on CHR ''/'' ?full = [] # rs @ split_on CHR ''/'' path"
      using split_join_prefix [of rs path] assms(2,3) by (simp add: good_seg_def)
    moreover have "clean_segs True [] ([] # rs @ split_on CHR ''/'' path) = rs @ ?cl"
      using clean_segs_push [OF assms(3), of True "[]"] clean_below [OF no, of "rev rs"] by simp
    ultimately show ?thesis by (simp add: path_clean_def is_abs_def root_str_def)
  qed
  ultimately show ?thesis by blast
qed

theorem commit_path_confined_witness:
  "validate_commit_path ''a/../b.go'' = None \<and> validate_commit_path ''a/../../b.go'' \<noteq> None \<and>
   (\<exists>segs. (\<forall>s \<in> set segs. good_seg s) \<and> path_join [root_str [''srv'', ''r''], ''a/../b.go''] = root_str ([''srv'', ''r''] @ segs))"
proof -
  have ok: "validate_commit_path ''a/../b.go'' = None"
    by (simp add: validate_commit_path_def is_abs_def path_clean_def char_of_numeral)
  moreover have "validate_commit_path ''a/../../b.go'' \<noteq> None"
    by (simp add: validate_commit_path_def is_abs_def path_clean_def char_of_numeral)
  moreover have "\<forall>s \<in> set [''srv'', ''r'']. good_seg s" by (simp add: good_seg_def)
  ultimately show ?thesis using commit_path_confined [OF ok, of "[''srv'', ''r'']"] by blast
qed

end
