(* ===== verification/Job_Queue.thy ===== *)
theory Job_Queue
  imports Job_Store
begin

text \<open>
  The queue as a state machine: the steps the instances sharing one database can take, the
  invariant they keep, and what the queue promises about commit batches and claims.
\<close>

section \<open>Steps\<close>

inductive queue_step :: "db \<Rightarrow> db \<Rightarrow> bool" where
  enqueue_index: "queue_step d (fst (enqueue_index_job now repo force d))"
| enqueue_commit: "queue_step d (fst (enqueue_commit_job now repo payload d))"
| claim: "queue_step d (fst (claim_next_index_job now worker d))"
| heartbeat: "queue_step d (fst (heartbeat_index_job now i worker d))"
| complete: "queue_step d (fst (complete_index_job i worker err d))"
| release: "queue_step d (fst (release_index_job i worker d))"
| requeue: "queue_step d (fst (requeue_stale_index_jobs now older_than d))"

inductive reachable :: "db \<Rightarrow> bool" where
  empty: "jobs d = [] \<Longrightarrow> reachable d"
| step: "reachable d \<Longrightarrow> queue_step d d' \<Longrightarrow> reachable d'"

inductive_cases queue_stepE: "queue_step d d'"

text \<open>
  The invariant: job ids ascend and are below the next one to be given out, no repository has two
  pending index jobs (the partial unique index, which no step may violate), and a pending job is
  nobody's.
\<close>

definition ids_ok :: "db \<Rightarrow> bool" where
  "ids_ok d \<longleftrightarrow> sorted_wrt (<) (map j_id (jobs d)) \<and> (\<forall>j \<in> set (jobs d). j_id j < next_id d)"

definition one_pending :: "db \<Rightarrow> bool" where
  "one_pending d \<longleftrightarrow> (\<forall>r. \<forall>j \<in> set (jobs d). \<forall>k \<in> set (jobs d). pending_index r j \<and> pending_index r k \<longrightarrow> j_id j = j_id k)"

definition unclaimed :: "db \<Rightarrow> bool" where
  "unclaimed d \<longleftrightarrow> (\<forall>j \<in> set (jobs d). j_status j = Pending \<longrightarrow> j_claimed_by j = [] \<and> j_heartbeat j = 0)"

definition db_ok :: "db \<Rightarrow> bool" where
  "db_ok d \<longleftrightarrow> ids_ok d \<and> one_pending d \<and> unclaimed d"

section \<open>Rows\<close>

lemma set_update_where: "set (update_where P f xs) = f ` {x \<in> set xs. P x} \<union> {x \<in> set xs. \<not> P x}"
  by (auto simp: update_where_def)

lemma map_update_where: "(\<And>x. P x \<Longrightarrow> g (f x) = g x) \<Longrightarrow> map g (update_where P f xs) = map g xs"
  by (simp add: update_where_def)

lemma update_where_none: "(\<And>x. x \<in> set xs \<Longrightarrow> \<not> P x) \<Longrightarrow> update_where P f xs = xs"
  by (simp add: update_where_def map_idI)

lemma rows_affected_0: "rows_affected P xs = 0 \<longleftrightarrow> (\<forall>x \<in> set xs. \<not> P x)"
  by (simp add: rows_affected_def filter_empty_conv)

lemma ids_distinct: "ids_ok d \<Longrightarrow> j \<in> set (jobs d) \<Longrightarrow> k \<in> set (jobs d) \<Longrightarrow> j_id j = j_id k \<Longrightarrow> j = k"
proof -
  assume "ids_ok d" "j \<in> set (jobs d)" "k \<in> set (jobs d)" "j_id j = j_id k"
  moreover from this have "distinct (map j_id (jobs d))"
    by (simp add: ids_ok_def strict_sorted_iff)
  ultimately show "j = k" by (auto simp: distinct_map inj_on_def)
qed

lemma ids_ok_update:
  assumes "ids_ok d" and "\<And>j. j \<in> set (jobs d) \<Longrightarrow> P j \<Longrightarrow> j_id (f j) = j_id j"
  shows "ids_ok (d\<lparr> jobs := update_where P f (jobs d) \<rparr>)"
proof -
  have "map j_id (update_where P f (jobs d)) = map j_id (jobs d)"
    using assms(2) by (simp add: update_where_def)
  then have "j_id ` set (update_where P f (jobs d)) = j_id ` set (jobs d)" by (metis list.set_map)
  with assms(1) \<open>map j_id _ = _\<close> show ?thesis
    unfolding ids_ok_def by simp (metis (no_types, lifting) image_iff)
qed

lemma one_pending_update:
  assumes "one_pending d"
    and "\<And>j r. j \<in> set (jobs d) \<Longrightarrow> P j \<Longrightarrow> pending_index r (f j) \<Longrightarrow> pending_index r j"
    and "\<And>j. j \<in> set (jobs d) \<Longrightarrow> P j \<Longrightarrow> j_id (f j) = j_id j"
  shows "one_pending (d\<lparr> jobs := update_where P f (jobs d) \<rparr>)"
proof -
  have origin: "\<exists>j \<in> set (jobs d). pending_index r j \<and> j_id j = j_id x"
    if "x \<in> set (update_where P f (jobs d))" and "pending_index r x" for r x
  proof -
    from that(1) consider (new) y where "y \<in> set (jobs d)" "P y" "x = f y" | (old) "x \<in> set (jobs d)"
      unfolding set_update_where by blast
    then show ?thesis using that(2) assms(2,3) by cases metis+
  qed
  show ?thesis unfolding one_pending_def
  proof (intro allI ballI impI)
    fix r a b
    assume "a \<in> set (jobs (d\<lparr> jobs := update_where P f (jobs d) \<rparr>))" "b \<in> set (jobs (d\<lparr> jobs := update_where P f (jobs d) \<rparr>))"
      and "pending_index r a \<and> pending_index r b"
    then show "j_id a = j_id b"
      using origin [of a r] origin [of b r] assms(1) unfolding one_pending_def by (simp, metis)
  qed
qed

lemma unclaimed_update:
  assumes "unclaimed d"
    and "\<And>j. j \<in> set (jobs d) \<Longrightarrow> P j \<Longrightarrow> j_status (f j) = Pending \<Longrightarrow> j_claimed_by (f j) = [] \<and> j_heartbeat (f j) = 0"
  shows "unclaimed (d\<lparr> jobs := update_where P f (jobs d) \<rparr>)"
  using assms by (auto simp: unclaimed_def set_update_where)

lemma db_ok_update:
  assumes "db_ok d"
    and "\<And>j. j \<in> set (jobs d) \<Longrightarrow> P j \<Longrightarrow> j_id (f j) = j_id j"
    and "\<And>j r. j \<in> set (jobs d) \<Longrightarrow> P j \<Longrightarrow> pending_index r (f j) \<Longrightarrow> pending_index r j"
    and "\<And>j. j \<in> set (jobs d) \<Longrightarrow> P j \<Longrightarrow> j_status (f j) = Pending \<Longrightarrow> j_claimed_by (f j) = [] \<and> j_heartbeat (f j) = 0"
  shows "db_ok (d\<lparr> jobs := update_where P f (jobs d) \<rparr>)"
  using assms ids_ok_update [of d P f] one_pending_update [of d P f] unclaimed_update [of d P f]
  unfolding db_ok_def by blast

section \<open>Every step keeps the invariant\<close>

lemma insert_job_ok:
  assumes "db_ok d" and "kind = KIndex \<Longrightarrow> \<not> list_ex (pending_index repo) (jobs d)"
  shows "db_ok (fst (insert_job repo kind force now payload d))"
proof -
  have "\<not> pending_index r j" if "j \<in> set (jobs d)" "pending_index r (new_job i repo kind force now payload)" for j r i
    using that assms(2) by (auto simp: pending_index_def new_job_def list_ex_iff)
  then show ?thesis using assms(1)
    by (auto simp: db_ok_def ids_ok_def one_pending_def unclaimed_def insert_job_def sorted_wrt_append new_job_def
        less_SucI Let_def)
qed

lemma enqueue_index_ok: "db_ok d \<Longrightarrow> db_ok (fst (enqueue_index_job now repo force d))"
proof (cases "List.find (pending_index repo) (jobs d)")
  case None
  then have "\<not> list_ex (pending_index repo) (jobs d)" by (auto simp: list_ex_iff dest: find_NoneD)
  then show "db_ok d \<Longrightarrow> ?thesis" using None insert_job_ok by (simp add: enqueue_index_job_def)
next
  case (Some p)
  assume ok: "db_ok d"
  have p: "p \<in> set (jobs d)" "pending_index repo p" using find_SomeD [OF Some] by auto
  have "j = p" if "j \<in> set (jobs d)" "j_id j = j_id p" for j
    using that p ok ids_distinct unfolding db_ok_def by blast
  then show ?thesis using Some ok p
    by (simp add: enqueue_index_job_def Let_def)
      (rule db_ok_update, auto simp: pending_index_def db_ok_def unclaimed_def)
qed

lemma claim_ok: "db_ok d \<Longrightarrow> db_ok (fst (claim_next_index_job now worker d))"
proof (cases "List.find (\<lambda>j. j_status j = Pending) (jobs d)")
  case None
  then show "db_ok d \<Longrightarrow> ?thesis" by (simp add: claim_next_index_job_def)
next
  case (Some p)
  assume ok: "db_ok d"
  show ?thesis using Some ok
    by (simp add: claim_next_index_job_def Let_def) (rule db_ok_update, auto simp: pending_index_def)
qed

lemma heartbeat_ok: "db_ok d \<Longrightarrow> db_ok (fst (heartbeat_index_job now i worker d))"
  unfolding heartbeat_index_job_def fst_conv by (rule db_ok_update) (auto simp: pending_index_def held_by_def)

lemma complete_ok: "db_ok d \<Longrightarrow> db_ok (fst (complete_index_job i worker err d))"
  unfolding complete_index_job_def Let_def fst_conv
  by (rule db_ok_update) (auto simp: pending_index_def split: if_splits)

lemma back_to_pending_ok:
  assumes "db_ok d"
    and "\<And>j. j \<in> set (jobs d) \<Longrightarrow> P j \<Longrightarrow> j_kind j = KIndex \<Longrightarrow> \<not> list_ex (pending_index (j_repo j)) (jobs d)"
    and "\<And>j k. j \<in> set (jobs d) \<Longrightarrow> k \<in> set (jobs d) \<Longrightarrow> P j \<Longrightarrow> P k \<Longrightarrow> j_kind j = KIndex \<Longrightarrow> j_kind k = KIndex
           \<Longrightarrow> j_repo j = j_repo k \<Longrightarrow> j_id j = j_id k"
  shows "db_ok (d\<lparr> jobs := update_where P back_to_pending (jobs d) \<rparr>)"
proof -
  have "one_pending (d\<lparr> jobs := update_where P back_to_pending (jobs d) \<rparr>)"
    unfolding one_pending_def
  proof (intro allI ballI impI)
    fix r a b
    let ?rows = "update_where P back_to_pending (jobs d)"
    assume a: "a \<in> set (jobs (d\<lparr> jobs := ?rows \<rparr>))" and b: "b \<in> set (jobs (d\<lparr> jobs := ?rows \<rparr>))"
      and "pending_index r a \<and> pending_index r b"
    have origin: "(x \<in> set (jobs d) \<and> pending_index r x) \<or> (\<exists>j \<in> set (jobs d). P j \<and> j_kind j = KIndex \<and> j_repo j = r \<and> j_id j = j_id x)"
      if "x \<in> set ?rows" "pending_index r x" for x
      using that by (auto simp: set_update_where back_to_pending_def pending_index_def)
    have "\<not> pending_index r x" if "x \<in> set (jobs d)" "j \<in> set (jobs d)" "P j" "j_kind j = KIndex" "j_repo j = r" for x j
      using that assms(2) by (auto simp: list_ex_iff)
    with origin [of a] origin [of b] a b \<open>pending_index r a \<and> pending_index r b\<close> assms(1,3)
    show "j_id a = j_id b" unfolding db_ok_def one_pending_def by (simp, metis)
  qed
  moreover have "ids_ok (d\<lparr> jobs := update_where P back_to_pending (jobs d) \<rparr>)"
    using assms(1) by (intro ids_ok_update) (auto simp: db_ok_def back_to_pending_def)
  moreover have "unclaimed (d\<lparr> jobs := update_where P back_to_pending (jobs d) \<rparr>)"
    using assms(1) by (intro unclaimed_update) (auto simp: db_ok_def back_to_pending_def)
  ultimately show ?thesis by (simp add: db_ok_def)
qed

lemma release_ok: "db_ok d \<Longrightarrow> db_ok (fst (release_index_job i worker d))"
proof (cases "rows_affected (releasable (jobs d) i worker) (jobs d) > 0")
  case True
  assume "db_ok d"
  then show ?thesis using True
    by (simp add: release_index_job_def) (rule back_to_pending_ok, auto simp: releasable_def held_by_def)
next
  case False
  then show "db_ok d \<Longrightarrow> ?thesis" by (simp add: release_index_job_def complete_ok)
qed

lemma requeue_ok: "db_ok d \<Longrightarrow> db_ok (fst (requeue_stale_index_jobs now older_than d))"
proof -
  assume ok: "db_ok d"
  define cutoff where "cutoff = now - older_than"
  define d1 where "d1 = d\<lparr> jobs := update_where (surplus (jobs d) cutoff)
    (\<lambda>j. j\<lparr> j_status := Errored, j_error := superseded \<rparr>) (jobs d) \<rparr>"
  have ok1: "db_ok d1" unfolding d1_def using ok by (rule db_ok_update) (auto simp: pending_index_def)
  have stale1: "j \<in> set (jobs d) \<and> \<not> surplus (jobs d) cutoff j" if "j \<in> set (jobs d1)" "stale cutoff j" for j
    using that by (auto simp: d1_def set_update_where stale_def)
  have pend: "list_ex (pending_index r) (jobs d1) \<Longrightarrow> list_ex (pending_index r) (jobs d)" for r
    by (auto simp: d1_def list_ex_iff set_update_where pending_index_def)
  have lone: "j_id j = j_id k" if "j \<in> set (jobs d1)" "k \<in> set (jobs d1)" "stale cutoff j" "stale cutoff k"
      "j_kind j = KIndex" "j_kind k = KIndex" "j_repo j = j_repo k" for j k
    using stale1 [OF that(1,3)] stale1 [OF that(2,4)] that by (simp add: surplus_def)
  have "db_ok (d1\<lparr> jobs := update_where (stale cutoff) back_to_pending (jobs d1) \<rparr>)"
  proof (rule back_to_pending_ok [OF ok1])
    fix j
    assume "j \<in> set (jobs d1)" "stale cutoff j" "j_kind j = KIndex"
    then show "\<not> list_ex (pending_index (j_repo j)) (jobs d1)"
      using stale1 [of j] pend [of "j_repo j"] by (auto simp: surplus_def)
  qed (rule lone)
  then show ?thesis
    by (simp add: requeue_stale_index_jobs_def Let_def d1_def cutoff_def)
qed

lemma enqueue_commit_ok: "db_ok d \<Longrightarrow> db_ok (fst (enqueue_commit_job now repo payload d))"
  unfolding enqueue_commit_job_def by (rule insert_job_ok) simp_all

lemma queue_step_ok: "queue_step d d' \<Longrightarrow> db_ok d \<Longrightarrow> db_ok d'"
  by (erule queue_stepE)
    (simp_all add: enqueue_index_ok enqueue_commit_ok claim_ok heartbeat_ok complete_ok release_ok requeue_ok)

text \<open>
  C14: the invariant of the queue. In every state the instances can reach by enqueueing, claiming,
  heartbeating, completing, releasing and sweeping in any order, job ids ascend, a repository has at
  most one pending index job (so no statement ever violates the unique index over them) and a
  pending job belongs to no worker.
\<close>

theorem queue_invariant: "reachable d \<Longrightarrow> db_ok d"
proof (induction rule: reachable.induct)
  case (empty d)
  then show ?case by (simp add: db_ok_def ids_ok_def one_pending_def unclaimed_def)
next
  case (step d d')
  then show ?case using queue_step_ok by blast
qed

theorem queue_invariant_witness:
  "db_ok (fst (claim_next_index_job 7 ''w'' (fst (enqueue_index_job 5 ''r'' True \<lparr> jobs = [], next_id = 1, repos = [] \<rparr>))))"
  by (intro queue_invariant reachable.step [OF _ claim] reachable.step [OF _ enqueue_index] reachable.empty) simp

section \<open>Claims and ownership\<close>

text \<open>
  claiming hands out the oldest pending job, to one worker only. The job given out was pending
  and no pending job is older; afterwards it is running under the worker's name, every other row is
  as it was, and the next claim gives out a different job.
\<close>

theorem claim_is_exclusive:
  assumes "db_ok d" and "claim_next_index_job now worker d = (d', Inr j)"
  shows "(\<exists>p \<in> set (jobs d). j_status p = Pending \<and>
       j = p\<lparr> j_status := Running, j_claimed_by := worker, j_claimed_at := now, j_heartbeat := now \<rparr> \<and>
       (\<forall>q \<in> set (jobs d). j_status q = Pending \<longrightarrow> j_id p \<le> j_id q)) \<and>
     j \<in> set (jobs d') \<and>
     {q \<in> set (jobs d'). j_id q \<noteq> j_id j} = {q \<in> set (jobs d). j_id q \<noteq> j_id j} \<and>
     (\<forall>now' worker' d'' k. claim_next_index_job now' worker' d' = (d'', Inr k) \<longrightarrow> j_id k \<noteq> j_id j)"
proof -
  obtain p where p: "List.find (\<lambda>j. j_status j = Pending) (jobs d) = Some p"
    using assms(2) by (auto simp: claim_next_index_job_def split: option.splits)
  have j: "j = p\<lparr> j_status := Running, j_claimed_by := worker, j_claimed_at := now, j_heartbeat := now \<rparr>"
    and d': "d' = d\<lparr> jobs := update_where (\<lambda>j. j_id j = j_id p) (\<lambda>_. j) (jobs d) \<rparr>"
    using assms(2) p by (auto simp: claim_next_index_job_def Let_def)
  have pin: "p \<in> set (jobs d)" "j_status p = Pending" using find_SomeD [OF p] by auto
  have first: "j_id p \<le> j_id q" if "q \<in> set (jobs d)" "j_status q = Pending" for q
  proof -
    from p obtain us vs where js: "jobs d = us @ p # vs" and us: "\<forall>u \<in> set us. j_status u \<noteq> Pending"
      by (auto simp: find_Some_iff) (metis id_take_nth_drop in_set_conv_nth length_take min_less_iff_conj nth_take)
    then have "q = p \<or> q \<in> set vs" using that by auto
    then show ?thesis using assms(1) by (auto simp: db_ok_def ids_ok_def js sorted_wrt_append)
  qed
  have rows: "set (jobs d') = insert j {q \<in> set (jobs d). j_id q \<noteq> j_id p}"
    using pin by (auto simp: d' set_update_where)
  have id: "j_id j = j_id p" by (simp add: j)
  have "j_id k \<noteq> j_id j" if next_claim: "claim_next_index_job now' worker' d' = (d'', Inr k)" for now' worker' d'' k
  proof -
    obtain q where q: "List.find (\<lambda>j. j_status j = Pending) (jobs d') = Some q" "j_id k = j_id q"
      using next_claim by (auto simp: claim_next_index_job_def Let_def split: option.splits)
    then have "q \<in> set (jobs d')" "j_status q = Pending" using find_SomeD [OF q(1)] by auto
    then show ?thesis using rows q(2) by (auto simp: j)
  qed
  then show ?thesis using pin first rows by (auto simp: j)
qed

definition two_pending :: db where
  "two_pending = \<lparr> jobs = [new_job 1 ''r'' KIndex False 0 [], new_job 2 ''r'' KCommits False 0 ''x''], next_id = 3, repos = [] \<rparr>"

theorem claim_is_exclusive_witness:
  "\<exists>d' j. claim_next_index_job 5 ''w'' two_pending = (d', Inr j) \<and> j_id j = 1 \<and>
     {q \<in> set (jobs d'). j_id q \<noteq> 1} = {new_job 2 ''r'' KCommits False 0 ''x''}"
proof -
  let ?r = "claim_next_index_job 5 ''w'' two_pending"
  let ?j = "(new_job 1 ''r'' KIndex False 0 [])\<lparr> j_status := Running, j_claimed_by := ''w'', j_claimed_at := 5, j_heartbeat := 5 \<rparr>"
  have r: "?r = (fst ?r, Inr ?j)"
    by (simp add: claim_next_index_job_def two_pending_def new_job_def Let_def)
  have "db_ok two_pending"
    by (auto simp: two_pending_def db_ok_def ids_ok_def one_pending_def unclaimed_def new_job_def pending_index_def)
  from claim_is_exclusive [OF this r]
  have "{q \<in> set (jobs (fst ?r)). j_id q \<noteq> j_id ?j} = {q \<in> set (jobs two_pending). j_id q \<noteq> j_id ?j}" by blast
  moreover have "{q \<in> set (jobs two_pending). j_id q \<noteq> j_id ?j} = {new_job 2 ''r'' KCommits False 0 ''x''}"
    by (auto simp: two_pending_def new_job_def)
  moreover have "j_id ?j = 1" by (simp add: new_job_def)
  ultimately have "{q \<in> set (jobs (fst ?r)). j_id q \<noteq> 1} = {new_job 2 ''r'' KCommits False 0 ''x''}" by simp
  then show ?thesis using r \<open>j_id ?j = 1\<close> by (intro exI conjI)
qed

text \<open>
  only its owner ends a job. A worker that no longer holds a job (it was swept as stale, released
  or given to another) cannot complete, release or heartbeat it: the attempt reports that the job was
  not found and changes nothing.
\<close>

theorem lost_job_is_untouched:
  assumes "\<forall>j \<in> set (jobs d). \<not> held_by i worker j"
  shows "complete_index_job i worker err d = (d, Some ErrNotFound) \<and>
     release_index_job i worker d = (d, Some ErrNotFound) \<and>
     heartbeat_index_job now i worker d = (d, Some ErrNotFound)"
proof -
  have "rows_affected (held_by i worker) (jobs d) = 0" using assms by (simp add: rows_affected_0)
  moreover have "update_where (held_by i worker) f (jobs d) = jobs d" for f
    using assms by (intro update_where_none) auto
  moreover have "rows_affected (releasable (jobs d) i worker) (jobs d) = 0"
    using assms by (auto simp: rows_affected_0 releasable_def)
  ultimately show ?thesis
    by (simp add: complete_index_job_def release_index_job_def heartbeat_index_job_def Let_def)
qed

theorem lost_job_is_untouched_witness:
  "complete_index_job 1 ''w'' [] two_pending = (two_pending, Some ErrNotFound)"
  using lost_job_is_untouched [of two_pending 1 "''w''" "[]" 0]
  by (simp add: two_pending_def new_job_def held_by_def)

text \<open>After a sweep no running job has a heartbeat older than the cutoff.\<close>

lemma requeue_sweeps:
  "\<forall>j \<in> set (jobs (fst (requeue_stale_index_jobs now older_than d))). \<not> stale (now - older_than) j"
  by (auto simp: requeue_stale_index_jobs_def Let_def set_update_where stale_def back_to_pending_def)

end
