(* ===== verification/Job_History.thy ===== *)
theory Job_History
  imports Job_Queue
begin

text \<open>
  What happens to commit batches over a whole history of the queue. The contract a store offers a
  client that pushes commits is the locale \<open>batch_queue\<close>; the SQLite store is an interpretation
  of it.
\<close>

section \<open>The contract\<close>

type_synonym batch = "nat \<times> string \<times> string"

locale batch_queue =
  fixes ok :: "'d \<Rightarrow> bool"
    and unfinished :: "'d \<Rightarrow> batch list"
    and bound :: "'d \<Rightarrow> nat"
    and apply_ev :: "'e \<Rightarrow> 'd \<Rightarrow> 'd"
    and accepts :: "'e \<Rightarrow> 'd \<Rightarrow> batch option"
    and finishes :: "'e \<Rightarrow> 'd \<Rightarrow> nat option"
  assumes ok_apply: "ok d \<Longrightarrow> ok (apply_ev e d)"
    and bound_apply: "ok d \<Longrightarrow> bound d \<le> bound (apply_ev e d)"
    and unfinished_bound: "ok d \<Longrightarrow> b \<in> set (unfinished d) \<Longrightarrow> fst b < bound d"
    and accepts_id: "accepts e d = Some b \<Longrightarrow> fst b = bound d \<and> finishes e d = None"
    and finishes_id: "finishes e d = Some i \<Longrightarrow> i \<in> fst ` set (unfinished d)"
    and unfinished_apply: "ok d \<Longrightarrow> unfinished (apply_ev e d) =
       filter (\<lambda>b. finishes e d \<noteq> Some (fst b)) (unfinished d) @ (case accepts e d of None \<Rightarrow> [] | Some b \<Rightarrow> [b])"
begin

fun run :: "'e list \<Rightarrow> 'd \<Rightarrow> 'd" where
  "run [] d = d"
| "run (e # es) d = run es (apply_ev e d)"

fun accepted :: "'e list \<Rightarrow> 'd \<Rightarrow> batch list" where
  "accepted [] d = []"
| "accepted (e # es) d = (case accepts e d of None \<Rightarrow> [] | Some b \<Rightarrow> [b]) @ accepted es (apply_ev e d)"

fun finished :: "'e list \<Rightarrow> 'd \<Rightarrow> nat list" where
  "finished [] d = []"
| "finished (e # es) d = (case finishes e d of None \<Rightarrow> [] | Some i \<Rightarrow> [i]) @ finished es (apply_ev e d)"

lemma accepted_bound: "ok d \<Longrightarrow> b \<in> set (accepted es d) \<Longrightarrow> bound d \<le> fst b"
proof (induction es arbitrary: d)
  case Nil
  then show ?case by simp
next
  case (Cons e es)
  show ?case
  proof (cases "b \<in> set (accepted es (apply_ev e d))")
    case True
    then show ?thesis using Cons ok_apply bound_apply by (meson le_trans)
  next
    case False
    then show ?thesis using Cons.prems accepts_id [of e d] by (cases "accepts e d") auto
  qed
qed

text \<open>Nothing is lost, nothing is reordered: what is unfinished is what was there and what was
  accepted, in that order, less what was finished.\<close>

lemma conserved:
  "ok d \<Longrightarrow> unfinished (run es d) = filter (\<lambda>b. fst b \<notin> set (finished es d)) (unfinished d @ accepted es d)"
proof (induction es arbitrary: d)
  case Nil
  then show ?case by simp
next
  case (Cons e es)
  define d' where "d' = apply_ev e d"
  have ok': "ok d'" using Cons.prems ok_apply by (simp add: d'_def)
  have "fst b \<noteq> i" if "finishes e d = Some i" and "b \<in> set (accepted es d')" for b i
  proof -
    have "i < bound d" using finishes_id [OF that(1)] unfinished_bound Cons.prems by auto
    also have "\<dots> \<le> bound d'" using bound_apply Cons.prems by (simp add: d'_def)
    also have "\<dots> \<le> fst b" using accepted_bound ok' that(2) by blast
    finally show ?thesis by simp
  qed
  then have later: "filter (\<lambda>b. fst b \<notin> set (finished (e # es) d)) (accepted es d') =
      filter (\<lambda>b. fst b \<notin> set (finished es d')) (accepted es d')"
    by (cases "finishes e d") (auto simp: d'_def intro!: filter_cong)
  have now_acc: "accepts e d = Some b \<Longrightarrow> finishes e d = None" for b using accepts_id by blast
  have "unfinished (run (e # es) d) = filter (\<lambda>b. fst b \<notin> set (finished es d')) (unfinished d' @ accepted es d')"
    using Cons.IH [OF ok'] by (simp add: d'_def)
  also have "unfinished d' = filter (\<lambda>b. finishes e d \<noteq> Some (fst b)) (unfinished d)
      @ (case accepts e d of None \<Rightarrow> [] | Some b \<Rightarrow> [b])"
    unfolding d'_def by (rule unfinished_apply [OF Cons.prems])
  finally show ?case using later now_acc
    by (auto simp: d'_def [symmetric] split: option.split intro!: filter_cong)
qed

end

section \<open>The SQLite queue keeps the contract\<close>

datatype queue_event =
    EnqueueIndex int string bool
  | EnqueueCommit int string string
  | Claim int string
  | Heartbeat int nat string
  | Complete nat string string
  | Release nat string
  | Requeue int int

fun apply_event :: "queue_event \<Rightarrow> db \<Rightarrow> db" where
  "apply_event (EnqueueIndex now repo force) d = fst (enqueue_index_job now repo force d)"
| "apply_event (EnqueueCommit now repo payload) d = fst (enqueue_commit_job now repo payload d)"
| "apply_event (Claim now worker) d = fst (claim_next_index_job now worker d)"
| "apply_event (Heartbeat now i worker) d = fst (heartbeat_index_job now i worker d)"
| "apply_event (Complete i worker err) d = fst (complete_index_job i worker err d)"
| "apply_event (Release i worker) d = fst (release_index_job i worker d)"
| "apply_event (Requeue now older_than) d = fst (requeue_stale_index_jobs now older_than d)"

definition live_commit :: "job \<Rightarrow> bool" where
  "live_commit j \<longleftrightarrow> j_kind j = KCommits \<and> (j_status j = Pending \<or> j_status j = Running)"

definition batch_of :: "job \<Rightarrow> batch" where
  "batch_of j = (j_id j, j_repo j, j_payload j)"

definition unfinished_batches :: "db \<Rightarrow> batch list" where
  "unfinished_batches d = map batch_of (filter live_commit (jobs d))"

definition accepts_batch :: "queue_event \<Rightarrow> db \<Rightarrow> batch option" where
  "accepts_batch e d = (case e of EnqueueCommit now repo payload \<Rightarrow> Some (next_id d, repo, payload) | _ \<Rightarrow> None)"

text \<open>A batch is finished by nothing but its owner completing its job.\<close>

definition finishes_batch :: "queue_event \<Rightarrow> db \<Rightarrow> nat option" where
  "finishes_batch e d = (case e of
     Complete i worker err \<Rightarrow> if list_ex (\<lambda>j. held_by i worker j \<and> j_kind j = KCommits) (jobs d) then Some i else None
   | _ \<Rightarrow> None)"

lemma event_step: "queue_step d (apply_event e d)"
  by (cases e) (auto intro: queue_step.intros)

lemma live_update:
  assumes "\<And>j. j \<in> set xs \<Longrightarrow> P j \<Longrightarrow> live_commit (f j) = live_commit j \<and> (live_commit j \<longrightarrow> batch_of (f j) = batch_of j)"
  shows "map batch_of (filter live_commit (update_where P f xs)) = map batch_of (filter live_commit xs)"
  using assms by (induction xs) (auto simp: update_where_def)

lemma complete_unfinished:
  assumes "db_ok d"
  shows "unfinished_batches (fst (complete_index_job i worker err d)) =
    filter (\<lambda>b. finishes_batch (Complete i worker err) d \<noteq> Some (fst b)) (unfinished_batches d)"
proof (cases "list_ex (\<lambda>j. held_by i worker j \<and> j_kind j = KCommits) (jobs d)")
  case True
  then obtain h where h: "h \<in> set (jobs d)" "held_by i worker h" "j_kind h = KCommits" by (auto simp: list_ex_iff)
  have "\<forall>j \<in> set (jobs d). held_by i worker j \<longleftrightarrow> j_id j = i"
    using h ids_distinct [of d] assms by (metis db_ok_def held_by_def)
  then have "map batch_of (filter live_commit (update_where (held_by i worker)
        (\<lambda>j. j\<lparr> j_status := s, j_error := err, j_payload := [] \<rparr>) xs)) =
      filter (\<lambda>b. i \<noteq> fst b) (map batch_of (filter live_commit xs))"
    if "s = Done \<or> s = Errored" and "set xs \<subseteq> set (jobs d)" for s xs
    using that by (induction xs) (auto simp: update_where_def live_commit_def batch_of_def)
  from this [of "if err \<noteq> [] then Errored else Done" "jobs d"] show ?thesis using True
    by (simp add: unfinished_batches_def complete_index_job_def finishes_batch_def Let_def)
next
  case False
  then have "map batch_of (filter live_commit (update_where (held_by i worker)
        (\<lambda>j. j\<lparr> j_status := s, j_error := err, j_payload := [] \<rparr>) (jobs d))) =
      map batch_of (filter live_commit (jobs d))" for s
    by (intro live_update) (auto simp: list_ex_iff live_commit_def)
  then show ?thesis using False
    by (simp add: unfinished_batches_def complete_index_job_def finishes_batch_def Let_def)
qed

lemma release_unfinished:
  assumes "db_ok d"
  shows "unfinished_batches (fst (release_index_job i worker d)) = unfinished_batches d"
proof (cases "rows_affected (releasable (jobs d) i worker) (jobs d) > 0")
  case True
  have "map batch_of (filter live_commit (update_where (releasable (jobs d) i worker) back_to_pending (jobs d))) =
      map batch_of (filter live_commit (jobs d))"
    by (rule live_update) (auto simp: releasable_def held_by_def back_to_pending_def live_commit_def batch_of_def)
  then show ?thesis using True by (simp add: release_index_job_def unfinished_batches_def)
next
  case False
  then have "\<not> list_ex (\<lambda>j. held_by i worker j \<and> j_kind j = KCommits) (jobs d)"
    using rows_affected_0 [of "releasable (jobs d) i worker" "jobs d"] by (auto simp: list_ex_iff releasable_def)
  then show ?thesis using False complete_unfinished [OF assms, of i worker superseded]
    by (simp add: release_index_job_def finishes_batch_def)
qed

lemma requeue_unfinished: "unfinished_batches (fst (requeue_stale_index_jobs now older_than d)) = unfinished_batches d"
proof -
  define rows where "rows = update_where (surplus (jobs d) (now - older_than))
    (\<lambda>j. j\<lparr> j_status := Errored, j_error := superseded \<rparr>) (jobs d)"
  have "map batch_of (filter live_commit (update_where (stale (now - older_than)) back_to_pending rows)) =
      map batch_of (filter live_commit rows)"
    by (rule live_update) (auto simp: stale_def back_to_pending_def live_commit_def batch_of_def)
  also have "\<dots> = map batch_of (filter live_commit (jobs d))"
    unfolding rows_def by (rule live_update) (auto simp: surplus_def live_commit_def)
  finally show ?thesis by (simp add: requeue_stale_index_jobs_def unfinished_batches_def rows_def Let_def)
qed

lemma claim_unfinished:
  assumes "db_ok d"
  shows "unfinished_batches (fst (claim_next_index_job now worker d)) = unfinished_batches d"
proof (cases "List.find (\<lambda>j. j_status j = Pending) (jobs d)")
  case None
  then show ?thesis by (simp add: claim_next_index_job_def)
next
  case (Some p)
  then have p: "p \<in> set (jobs d)" "j_status p = Pending" using find_SomeD [OF Some] by auto
  let ?q = "p\<lparr> j_status := Running, j_claimed_by := worker, j_claimed_at := now, j_heartbeat := now \<rparr>"
  have "map batch_of (filter live_commit (update_where (\<lambda>j. j_id j = j_id p) (\<lambda>_. ?q) (jobs d))) =
      map batch_of (filter live_commit (jobs d))"
  proof (rule live_update)
    fix j
    assume "j \<in> set (jobs d)" "j_id j = j_id p"
    then have "j = p" using p assms ids_distinct by (auto simp: db_ok_def)
    then show "live_commit ?q = live_commit j \<and> (live_commit j \<longrightarrow> batch_of ?q = batch_of j)"
      using p(2) by (auto simp: live_commit_def batch_of_def)
  qed
  then show ?thesis using Some by (simp add: claim_next_index_job_def unfinished_batches_def Let_def)
qed

lemma enqueue_index_unfinished:
  assumes "db_ok d"
  shows "unfinished_batches (fst (enqueue_index_job now repo force d)) = unfinished_batches d"
proof (cases "List.find (pending_index repo) (jobs d)")
  case None
  then show ?thesis
    by (simp add: enqueue_index_job_def insert_job_def new_job_def unfinished_batches_def live_commit_def Let_def)
next
  case (Some p)
  then have p: "p \<in> set (jobs d)" "pending_index repo p" using find_SomeD [OF Some] by auto
  let ?q = "p\<lparr> j_force := (j_force p \<or> force) \<rparr>"
  have "map batch_of (filter live_commit (update_where (\<lambda>j. j_id j = j_id p) (\<lambda>_. ?q) (jobs d))) =
      map batch_of (filter live_commit (jobs d))"
  proof (rule live_update)
    fix j
    assume "j \<in> set (jobs d)" "j_id j = j_id p"
    then have "j = p" using p assms ids_distinct by (auto simp: db_ok_def)
    then show "live_commit ?q = live_commit j \<and> (live_commit j \<longrightarrow> batch_of ?q = batch_of j)"
      by (auto simp: live_commit_def batch_of_def)
  qed
  then show ?thesis using Some by (simp add: enqueue_index_job_def unfinished_batches_def Let_def)
qed

lemma heartbeat_unfinished: "unfinished_batches (fst (heartbeat_index_job now i worker d)) = unfinished_batches d"
  by (simp add: heartbeat_index_job_def unfinished_batches_def live_update live_commit_def batch_of_def)

lemma commit_unfinished:
  "unfinished_batches (fst (enqueue_commit_job now repo payload d)) = unfinished_batches d @ [(next_id d, repo, payload)]"
  by (simp add: enqueue_commit_job_def insert_job_def new_job_def unfinished_batches_def live_commit_def batch_of_def Let_def)

lemma next_id_apply: "next_id d \<le> next_id (apply_event e d)"
  by (cases e) (auto simp: enqueue_index_job_def enqueue_commit_job_def insert_job_def claim_next_index_job_def
      heartbeat_index_job_def complete_index_job_def release_index_job_def requeue_stale_index_jobs_def Let_def
      split: option.split)

interpretation sqlite: batch_queue db_ok unfinished_batches next_id apply_event accepts_batch finishes_batch
proof unfold_locales
  fix d e b i
  show "db_ok d \<Longrightarrow> db_ok (apply_event e d)" using queue_step_ok event_step by blast
  show "db_ok d \<Longrightarrow> next_id d \<le> next_id (apply_event e d)" by (rule next_id_apply)
  show "db_ok d \<Longrightarrow> b \<in> set (unfinished_batches d) \<Longrightarrow> fst b < next_id d"
    by (auto simp: unfinished_batches_def batch_of_def db_ok_def ids_ok_def)
  show "accepts_batch e d = Some b \<Longrightarrow> fst b = next_id d \<and> finishes_batch e d = None"
    by (cases e) (auto simp: accepts_batch_def finishes_batch_def)
  show "finishes_batch e d = Some i \<Longrightarrow> i \<in> fst ` set (unfinished_batches d)"
    by (cases e) (force simp: finishes_batch_def unfinished_batches_def list_ex_iff held_by_def live_commit_def batch_of_def
        split: if_splits)+
  show "db_ok d \<Longrightarrow> unfinished_batches (apply_event e d) =
      filter (\<lambda>b. finishes_batch e d \<noteq> Some (fst b)) (unfinished_batches d) @
      (case accepts_batch e d of None \<Rightarrow> [] | Some b \<Rightarrow> [b])"
    by (cases e) (simp_all add: enqueue_index_unfinished commit_unfinished claim_unfinished heartbeat_unfinished
        complete_unfinished release_unfinished requeue_unfinished accepts_batch_def finishes_batch_def)
qed

fun run_events :: "queue_event list \<Rightarrow> db \<Rightarrow> db" where
  "run_events [] d = d"
| "run_events (e # es) d = run_events es (apply_event e d)"

fun accepted_batches :: "queue_event list \<Rightarrow> db \<Rightarrow> batch list" where
  "accepted_batches [] d = []"
| "accepted_batches (e # es) d =
     (case accepts_batch e d of None \<Rightarrow> [] | Some b \<Rightarrow> [b]) @ accepted_batches es (apply_event e d)"

fun finished_batches :: "queue_event list \<Rightarrow> db \<Rightarrow> nat list" where
  "finished_batches [] d = []"
| "finished_batches (e # es) d =
     (case finishes_batch e d of None \<Rightarrow> [] | Some i \<Rightarrow> [i]) @ finished_batches es (apply_event e d)"

lemma sqlite_history:
  "run_events es d = sqlite.run es d" "accepted_batches es d = sqlite.accepted es d"
  "finished_batches es d = sqlite.finished es d"
  by (induction es arbitrary: d) simp_all

text \<open>
  C6: no commit batch is lost, merged or reordered. After any sequence of queue operations by any
  number of workers, including sweeps of stale jobs, the unfinished batches are the earlier ones and
  those accepted since, in order of acceptance and with the payload they were pushed with, less those
  whose job its owner completed.
\<close>

theorem commit_batches_conserved:
  assumes "db_ok d"
  shows "unfinished_batches (run_events es d) =
    filter (\<lambda>b. fst b \<notin> set (finished_batches es d)) (unfinished_batches d @ accepted_batches es d)"
  unfolding sqlite_history by (rule sqlite.conserved [OF assms])

definition empty_db :: db where
  "empty_db = \<lparr> jobs = [], next_id = 1, repos = [] \<rparr>"

lemma empty_db_ok: "db_ok empty_db"
  by (simp add: empty_db_def db_ok_def ids_ok_def one_pending_def unclaimed_def)

lemmas queue_eval = empty_db_def enqueue_index_job_def enqueue_commit_job_def insert_job_def new_job_def
  claim_next_index_job_def complete_index_job_def release_index_job_def requeue_stale_index_jobs_def
  update_where_def rows_affected_def held_by_def releasable_def pending_index_def stale_def surplus_def first_stale_def
  back_to_pending_def accepts_batch_def finishes_batch_def Let_def

theorem commit_batches_conserved_witness:
  "unfinished_batches (run_events [EnqueueCommit 1 ''r'' ''A'', EnqueueCommit 2 ''r'' ''B'', Claim 3 ''w'',
      Requeue 99 10, Claim 100 ''v'', Complete 1 ''w'' [], Complete 1 ''v'' []] empty_db) = [(2, ''r'', ''B'')]"
  unfolding commit_batches_conserved [OF empty_db_ok]
  by (simp add: queue_eval unfinished_batches_def)

text \<open>
  A forced reindex can be lost all the same. \<open>EnqueueIndexJob\<close> keeps the force flag of a queued
  job, but a forced job that is released while a cheap one waits for the same repository is dropped
  as superseded, and the pending job stays a cheap one.
\<close>

lemma forced_release_is_swallowed:
  "map (\<lambda>j. (j_id j, j_status j, j_force j)) (jobs (run_events
      [EnqueueIndex 1 ''r'' True, Claim 2 ''w'', EnqueueIndex 3 ''r'' False, Release 1 ''w''] empty_db)) =
   [(1, Errored, True), (2, Pending, False)]"
  by (simp add: queue_eval superseded_def)

section \<open>Repository claims\<close>

definition claimed_row :: "int \<Rightarrow> string \<Rightarrow> int \<Rightarrow> repo \<Rightarrow> repo" where
  "claimed_row now owner ttl p = p\<lparr> p_status := Indexing, p_last_error := [], p_claimed_by := owner, p_claim_expires := now + ttl \<rparr>"

lemma claim_repo_eq:
  "0 < ttl \<Longrightarrow> claim_repo_for_indexing now i owner ttl d =
    (d\<lparr> repos := update_where (claimable i now) (claimed_row now owner ttl) (repos d) \<rparr>,
     if rows_affected (claimable i now) (repos d) > 0 then Inr True
     else if list_ex (\<lambda>p. p_id p = i) (repos d) then Inr False else Inl ErrNotFound)"
  by (simp add: claim_repo_for_indexing_def claimed_row_def [abs_def] Let_def)

text \<open>What a repository row says decides every claim on it.\<close>

lemma claim_refused:
  assumes "p \<in> set (repos d)" and "p_id p = i" and "\<And>p. p \<in> set (repos d) \<Longrightarrow> \<not> claimable i t p"
  shows "claim_repo_for_indexing t i owner ttl d = (d, Inr False)"
proof -
  have "rows_affected (claimable i t) (repos d) = 0" using assms(3) by (simp add: rows_affected_0)
  moreover have "list_ex (\<lambda>p. p_id p = i) (repos d)" using assms(1,2) by (auto simp: list_ex_iff)
  moreover have "update_where (claimable i t) f (repos d) = repos d" for f
    using assms(3) by (rule update_where_none)
  ultimately show ?thesis by (simp add: claim_repo_for_indexing_def Let_def)
qed

lemma claim_granted:
  assumes "p \<in> set (repos d)" and "claimable i t p"
  shows "snd (claim_repo_for_indexing t i owner ttl d) = Inr True"
proof -
  have "rows_affected (claimable i t) (repos d) \<noteq> 0" unfolding rows_affected_0 using assms by blast
  then show ?thesis by (simp add: claim_repo_for_indexing_def Let_def)
qed

text \<open>
  an indexing claim is exclusive while it lasts. After a successful claim the repository is held
  under the owner's name; until the claim expires every further claim is refused and changes nothing,
  and from then on the next one takes it over.
\<close>

theorem repo_claim_exclusive:
  assumes "claim_repo_for_indexing now i owner ttl d = (d', Inr True)" and "0 < ttl"
    and "distinct (map p_id (repos d))"
  shows "(\<exists>p \<in> set (repos d'). p_id p = i \<and> p_status p = Indexing \<and> p_claimed_by p = owner \<and> p_claim_expires p = now + ttl) \<and>
    (\<forall>t owner' ttl'. t < now + ttl \<longrightarrow> claim_repo_for_indexing t i owner' ttl' d' = (d', Inr False)) \<and>
    (\<forall>t owner' ttl'. now + ttl \<le> t \<longrightarrow> snd (claim_repo_for_indexing t i owner' ttl' d') = Inr True)"
proof -
  have rows: "repos d' = update_where (claimable i now) (claimed_row now owner ttl) (repos d)"
    and "rows_affected (claimable i now) (repos d) \<noteq> 0"
    using assms(1) unfolding claim_repo_eq [OF assms(2)] by (auto split: if_splits)
  then obtain c where c: "c \<in> set (repos d)" "claimable i now c" unfolding rows_affected_0 by blast
  define q where "q = claimed_row now owner ttl c"
  have q: "q \<in> set (repos d')" "p_id q = i" "p_status q = Indexing" "p_claimed_by q = owner" "p_claim_expires q = now + ttl"
    using c by (auto simp: rows set_update_where q_def claimed_row_def claimable_def)
  have only: "p = q" if "p \<in> set (repos d')" "p_id p = i" for p
  proof -
    have "x = c" if "x \<in> set (repos d)" "p_id x = i" for x
      using that c assms(3) by (auto simp: distinct_map inj_on_def claimable_def)
    then show ?thesis using that c(2) unfolding rows set_update_where q_def
      by (auto simp: claimed_row_def claimable_def)
  qed
  have "\<not> claimable i t p" if "t < now + ttl" "p \<in> set (repos d')" for t p
    using only [OF that(2)] that(1) q(3,5) by (auto simp: claimable_def)
  then have "\<forall>t owner' ttl'. t < now + ttl \<longrightarrow> claim_repo_for_indexing t i owner' ttl' d' = (d', Inr False)"
    using claim_refused [OF q(1,2)] by blast
  moreover have "\<forall>t owner' ttl'. now + ttl \<le> t \<longrightarrow> snd (claim_repo_for_indexing t i owner' ttl' d') = Inr True"
    using claim_granted [OF q(1)] q(2,5) by (simp add: claimable_def)
  ultimately show ?thesis using q by blast
qed

definition example_repo :: "string \<Rightarrow> repo" where
  "example_repo cursor = \<lparr> p_id = ''r'', p_name = ''r'', p_source = ''git'', p_url = [], p_path = ''/r'', p_branch = [],
     p_status = Idle, p_last_error = [], p_created = 0, p_indexed = 0, p_last_commit = cursor, p_claimed_by = [],
     p_claim_expires = 0, p_pending_commit = [], p_active = True \<rparr>"

theorem repo_claim_exclusive_witness:
  "\<exists>d'. claim_repo_for_indexing 5 ''r'' ''a'' 10 (empty_db\<lparr> repos := [example_repo []] \<rparr>) = (d', Inr True) \<and>
     claim_repo_for_indexing 14 ''r'' ''b'' 10 d' = (d', Inr False) \<and>
     snd (claim_repo_for_indexing 15 ''r'' ''b'' 10 d') = Inr True"
proof -
  let ?d = "empty_db\<lparr> repos := [example_repo []] \<rparr>"
  let ?d' = "fst (claim_repo_for_indexing 5 ''r'' ''a'' 10 ?d)"
  have claim: "claim_repo_for_indexing 5 ''r'' ''a'' 10 ?d = (?d', Inr True)"
    by (simp add: claim_repo_for_indexing_def rows_affected_def claimable_def example_repo_def Let_def)
  have "distinct (map p_id (repos ?d))" by simp
  note excl = repo_claim_exclusive [OF claim _ this]
  have "claim_repo_for_indexing 14 ''r'' ''b'' 10 ?d' = (?d', Inr False)"
    by (rule excl [THEN conjunct2, THEN conjunct1, rule_format]) simp_all
  moreover have "snd (claim_repo_for_indexing 15 ''r'' ''b'' 10 ?d') = Inr True"
    by (rule excl [THEN conjunct2, THEN conjunct2, rule_format]) simp_all
  ultimately show ?thesis using claim by (intro exI conjI)
qed

text \<open>
  \<open>UpdateRepoStatus\<close> does not ask whose claim it ends. A pass that outlived its claim and was taken
  over releases its successor's claim when it finishes, and a third pass can start while the second
  one is still running.
\<close>

lemma claim_single:
  "0 < ttl \<Longrightarrow> claimable i now p \<Longrightarrow> claim_repo_for_indexing now i owner ttl (d\<lparr> repos := [p] \<rparr>) =
     (d\<lparr> repos := [claimed_row now owner ttl p] \<rparr>, Inr True)"
  by (simp add: claim_repo_eq update_where_def rows_affected_def)

lemma status_update_ends_foreign_claim:
  "\<exists>d1 d2 d3 d4.
     claim_repo_for_indexing 0 ''r'' ''a'' 10 (empty_db\<lparr> repos := [example_repo []] \<rparr>) = (d1, Inr True) \<and>
     claim_repo_for_indexing 10 ''r'' ''b'' 10 d1 = (d2, Inr True) \<and>
     update_repo_status ''r'' Idle [] 11 d2 = (d3, None) \<and>
     claim_repo_for_indexing 12 ''r'' ''c'' 10 d3 = (d4, Inr True) \<and>
     map p_claim_expires (repos d2) = [20]"
proof -
  let ?p = "example_repo []"
  let ?p1 = "claimed_row 0 ''a'' 10 ?p"
  let ?p2 = "claimed_row 10 ''b'' 10 ?p1"
  let ?p3 = "?p2\<lparr> p_status := Idle, p_last_error := [], p_indexed := 11, p_claimed_by := [], p_claim_expires := 0,
    p_pending_commit := [] \<rparr>"
  have ids: "p_id ?p = ''r''" "p_id ?p1 = ''r''" "p_id ?p2 = ''r''" "p_id ?p3 = ''r''"
    by (simp_all add: example_repo_def claimed_row_def)
  have "claimable ''r'' 0 ?p" "claimable ''r'' 10 ?p1" "claimable ''r'' 12 ?p3"
    unfolding claimable_def ids by (simp_all add: example_repo_def claimed_row_def)
  moreover have "update_repo_status ''r'' Idle [] 11 (empty_db\<lparr> repos := [?p2] \<rparr>) = (empty_db\<lparr> repos := [?p3] \<rparr>, None)"
    by (simp add: update_repo_status_def update_repo_row_def update_where_def rows_affected_def ids)
  moreover have "map p_claim_expires (repos (empty_db\<lparr> repos := [?p2] \<rparr>)) = [20]" by (simp add: claimed_row_def)
  ultimately show ?thesis
    by (intro exI conjI) (rule claim_single, simp, assumption | assumption)+
qed

end
