(* ===== verification/Job_Worker.thy ===== *)
theory Job_Worker
  imports Commit_Plan Job_History
begin

text \<open>
  The worker and the commit ingestion of \<open>internal/app/jobs.go\<close>, \<open>internal/app/commits.go\<close> and
  \<open>internal/app/indexing.go\<close>: what a push is answered with, how a claimed job is run, and how the
  repository's status, cursor and claim move with it.

  The JSON codec, the indexers and the file system are the fields of \<open>worker_env\<close>. While a job's
  work runs, heartbeats and the other instances change the shared database; that change is the
  argument \<open>interim\<close> of \<open>run_queued_job\<close>. Log lines and contexts are left out.
\<close>

section \<open>The incremental pass\<close>

record indexed_file =
  if_path :: string
  if_hash :: string
  if_language :: string
  if_content :: string

record plan_env =
  pe_ignored :: "string \<Rightarrow> bool"
  pe_language :: "string \<Rightarrow> string"
  pe_read :: "string \<Rightarrow> string + string"
  pe_hash :: "string \<Rightarrow> string"
  pe_update_source :: "string option"
  pe_remove :: "string list \<Rightarrow> string option"
  pe_index :: "indexed_file list \<Rightarrow> string + string list"
  pe_services :: "string option"
  pe_link :: "string option"

text \<open>The plan is a Go map: \<open>entries\<close> lists it in the order of one iteration.\<close>

definition plan_deletes :: "plan_env \<Rightarrow> (string \<times> plan_entry) list \<Rightarrow> string list" where
  "plan_deletes env entries = map fst (filter (\<lambda>(p, e). e = PlanDelete \<or> pe_ignored env p) entries)"

definition needs_source_update :: "plan_env \<Rightarrow> (string \<times> plan_entry) list \<Rightarrow> bool" where
  "needs_source_update env entries = list_ex (\<lambda>(p, e). e = PlanUpsert [] \<and> \<not> pe_ignored env p) entries"

definition read_entry :: "plan_env \<Rightarrow> indexed_file list \<times> string list \<Rightarrow> string \<times> plan_entry \<Rightarrow> indexed_file list \<times> string list" where
  "read_entry env acc pe =
     (case acc of (to_index, unapplied) \<Rightarrow> case pe of (path, entry) \<Rightarrow>
       (case entry of
          PlanDelete \<Rightarrow> (to_index, unapplied)
        | PlanUpsert pushed \<Rightarrow>
            if pe_ignored env path then (to_index, unapplied)
            else let lang = pe_language env path in
              if lang = [] then (to_index, unapplied)
              else case (if pushed = [] then pe_read env path else Inr pushed) of
                Inl err \<Rightarrow> (to_index, unapplied @ [path])
              | Inr content \<Rightarrow>
                  (to_index @ [\<lparr> if_path = path, if_hash = pe_hash env content, if_language = lang, if_content = content \<rparr>],
                   unapplied)))"

definition read_plan :: "plan_env \<Rightarrow> (string \<times> plan_entry) list \<Rightarrow> indexed_file list \<times> string list" where
  "read_plan env entries = foldl (read_entry env) ([], []) entries"

definition apply_plan :: "plan_env \<Rightarrow> (string \<times> plan_entry) list \<Rightarrow> string + string list" where
  "apply_plan env entries =
     (case (if needs_source_update env entries then pe_update_source env else None) of
        Some err \<Rightarrow> Inl (''update source: '' @ err)
      | None \<Rightarrow>
          let (to_index, unapplied) = read_plan env entries in
          case pe_remove env (plan_deletes env entries) of
            Some err \<Rightarrow> Inl err
          | None \<Rightarrow>
              (case pe_index env to_index of
                 Inl err \<Rightarrow> Inl err
               | Inr failed \<Rightarrow>
                   (case pe_services env of
                      Some err \<Rightarrow> Inl (''detect services: '' @ err)
                    | None \<Rightarrow>
                        (case pe_link env of Some err \<Rightarrow> Inl err | None \<Rightarrow> Inr (sort (unapplied @ failed))))))"

section \<open>Running a pass\<close>

datatype index_outcome = IndexOk | IndexCancelled string | IndexFailed string

record worker_env =
  w_unmarshal :: "string \<Rightarrow> string + commit_event list"
  w_marshal :: "commit_event list \<Rightarrow> string + string"
  w_plan :: "repo \<Rightarrow> plan_env"
  w_entries :: "plan \<Rightarrow> (string \<times> plan_entry) list"
  w_index :: "repo \<Rightarrow> bool \<Rightarrow> index_outcome"

definition run_index :: "int \<Rightarrow> worker_env \<Rightarrow> repo \<Rightarrow> bool \<Rightarrow> db \<Rightarrow> db \<times> string option" where
  "run_index now env repo force d =
     (case w_index env repo force of
        IndexCancelled err \<Rightarrow> (fst (update_repo_status (p_id repo) Idle [] (p_indexed repo) d), Some err)
      | IndexFailed err \<Rightarrow> (fst (update_repo_status (p_id repo) StatusError err (p_indexed repo) d), Some err)
      | IndexOk \<Rightarrow> (fst (update_repo_status (p_id repo) Idle [] now d), None))"

definition do_apply_commits :: "worker_env \<Rightarrow> repo \<Rightarrow> commit_event list \<Rightarrow> string + string list" where
  "do_apply_commits env repo commits = apply_plan (w_plan env repo) (w_entries env (merge_commit_plan commits))"

definition run_apply_commits :: "int \<Rightarrow> worker_env \<Rightarrow> repo \<Rightarrow> commit_event list \<Rightarrow> db \<Rightarrow> db \<times> string option" where
  "run_apply_commits now env repo commits d =
     (case do_apply_commits env repo commits of
        Inl err \<Rightarrow> (fst (update_repo_status (p_id repo) StatusError err (p_indexed repo) d), Some err)
      | Inr unapplied \<Rightarrow>
          if 0 < length unapplied then
            let msg = ''commit batch partially applied; '' @ itoa (int (length unapplied)) @ '' path(s) left unindexed: ''
                  @ join_with '', '' unapplied
            in (fst (update_repo_status (p_id repo) StatusError msg (p_indexed repo) d), Some msg)
          else
            let d1 = fst (update_repo_last_commit (p_id repo) (ce_sha (last commits)) d)
            in (fst (update_repo_status (p_id repo) Idle [] now d1), None))"

definition encode_commit_batch :: "worker_env \<Rightarrow> commit_event list \<Rightarrow> string + string" where
  "encode_commit_batch env commits =
     (case w_marshal env commits of Inl err \<Rightarrow> Inl (''encode commit batch: '' @ err) | Inr payload \<Rightarrow> Inr payload)"

definition decode_commit_batch :: "worker_env \<Rightarrow> string \<Rightarrow> string + commit_event list" where
  "decode_commit_batch env payload =
     (case w_unmarshal env payload of
        Inl err \<Rightarrow> Inl (''decode commit batch: '' @ err)
      | Inr [] \<Rightarrow> Inl ''decode commit batch: empty batch''
      | Inr commits \<Rightarrow> Inr commits)"

definition clear_pending_commit :: "repo \<Rightarrow> string \<Rightarrow> db \<Rightarrow> db" where
  "clear_pending_commit repo target d =
     (if p_pending_commit repo \<noteq> target then d else fst (set_repo_pending_commit (p_id repo) [] d))"

section \<open>A claimed job\<close>

definition gap_message :: "commit_event list \<Rightarrow> repo \<Rightarrow> string" where
  "gap_message commits repo =
     ''commit gap: batch '' @ ce_sha (hd commits) @ ''..'' @ ce_sha (last commits) @ '' does not continue cursor ''
       @ char_of (34::nat) # p_last_commit repo @ char_of (34::nat) # '' and no preceding batch is queued; resend from the cursor or reindex''"

text \<open>What the worker does before it may touch the repository: it runs the job on, or is done with it.\<close>

definition order_commits :: "job \<Rightarrow> string \<Rightarrow> repo \<Rightarrow> commit_event list \<Rightarrow> db \<Rightarrow> db option" where
  "order_commits job worker repo commits d =
     (case commit_job_order repo commits of
        CommitBatchNext \<Rightarrow> None
      | CommitBatchApplied \<Rightarrow>
          Some (fst (complete_index_job (j_id job) worker [] (clear_pending_commit repo (ce_sha (last commits)) d)))
      | CommitBatchTooEarly \<Rightarrow>
          if has_pending_commit_job_before (j_repo job) (j_id job) d
          then Some (fst (release_index_job (j_id job) worker d))
          else Some (fst (complete_index_job (j_id job) worker (gap_message commits repo)
                           (clear_pending_commit repo (ce_sha (last commits)) d))))"

definition run_claimed :: "int \<Rightarrow> worker_env \<Rightarrow> (db \<Rightarrow> db) \<Rightarrow> job \<Rightarrow> string \<Rightarrow> repo \<Rightarrow> commit_event list \<Rightarrow> db \<Rightarrow> db" where
  "run_claimed done_at env interim job worker repo commits d =
     (let (d2, err) =
        (if j_kind job = KCommits then
           run_apply_commits done_at env repo commits
             (interim (fst (set_repo_pending_commit (j_repo job) (ce_sha (last commits)) d)))
         else run_index done_at env repo (j_force job) (interim d))
      in fst (complete_index_job (j_id job) worker (case err of None \<Rightarrow> [] | Some e \<Rightarrow> e) d2))"

definition run_queued_job :: "int \<Rightarrow> int \<Rightarrow> worker_env \<Rightarrow> (db \<Rightarrow> db) \<Rightarrow> job \<Rightarrow> string \<Rightarrow> db \<Rightarrow> db" where
  "run_queued_job now done_at env interim job worker d =
     (case (if j_kind job = KCommits then decode_commit_batch env (j_payload job) else Inr []) of
        Inl err \<Rightarrow> fst (complete_index_job (j_id job) worker err d)
      | Inr commits \<Rightarrow>
          (case get_repo (j_repo job) d of
             Inl ErrNotFound \<Rightarrow>
               fst (complete_index_job (j_id job) worker (''get repo '' @ j_repo job @ '': not found'') d)
           | Inr repo \<Rightarrow>
               (case (if j_kind job = KCommits then order_commits job worker repo commits d else None) of
                  Some d' \<Rightarrow> d'
                | None \<Rightarrow>
                    (case claim_repo_for_indexing now (j_repo job) worker default_repo_claim_ttl d of
                       (d1, Inl ErrNotFound) \<Rightarrow>
                         fst (complete_index_job (j_id job) worker (''claim repo '' @ j_repo job @ '': not found'') d1)
                     | (d1, Inr claimed) \<Rightarrow>
                         if \<not> claimed then fst (release_index_job (j_id job) worker d1)
                         else run_claimed done_at env interim job worker repo commits d1))))"

definition poll_index_jobs :: "int \<Rightarrow> int \<Rightarrow> worker_env \<Rightarrow> (db \<Rightarrow> db) \<Rightarrow> string \<Rightarrow> int \<Rightarrow> db \<Rightarrow> db" where
  "poll_index_jobs now done_at env interim worker stale_sec d =
     (let d1 = fst (requeue_stale_index_jobs now stale_sec d) in
      case claim_next_index_job now worker d1 of
        (d2, Inl ErrNotFound) \<Rightarrow> d2
      | (d2, Inr job) \<Rightarrow> run_queued_job now done_at env interim job worker d2)"

section \<open>Accepting a push\<close>

record commit_ack =
  ack_accepted :: bool
  ack_status :: string
  ack_queued :: bool
  ack_job :: "nat option"
  ack_target :: string
  ack_before :: string

definition gap_ack :: "repo \<Rightarrow> commit_ack" where
  "gap_ack repo = \<lparr> ack_accepted = False, ack_status = [], ack_queued = False, ack_job = None,
     ack_target = [], ack_before = p_last_commit repo \<rparr>"

fun validate_files :: "commit_file list \<Rightarrow> app_error option" where
  "validate_files [] = None"
| "validate_files (f # fs) =
     (case validate_commit_path (cf_path f) of
        Some err \<Rightarrow> Some err
      | None \<Rightarrow>
          (case (if cf_old f \<noteq> [] then validate_commit_path (cf_old f) else None) of
             Some err \<Rightarrow> Some err
           | None \<Rightarrow> validate_files fs))"

fun validate_commits :: "commit_event list \<Rightarrow> app_error option" where
  "validate_commits [] = None"
| "validate_commits (c # cs) =
     (if ce_sha c = [] then Some (ErrBadRequest ''commit sha is required'')
      else case validate_files (ce_files c) of Some err \<Rightarrow> Some err | None \<Rightarrow> validate_commits cs)"

text \<open>
  \<open>apply_commits\<close> answers a push. In distributed mode the batch is queued; otherwise the repository is
  claimed and the pass runs in the background, which \<open>run_apply_commits\<close> is.
\<close>

definition apply_commits :: "bool \<Rightarrow> string \<Rightarrow> int \<Rightarrow> worker_env \<Rightarrow> string \<Rightarrow> commit_event list \<Rightarrow> db \<Rightarrow> db \<times> (app_error + commit_ack)" where
  "apply_commits distributed owner now env repo_id commits d =
     (if commits = [] then (d, Inl (ErrBadRequest ''commits are required''))
      else case validate_commits commits of
        Some err \<Rightarrow> (d, Inl err)
      | None \<Rightarrow>
          (case get_repo repo_id d of
             Inl err \<Rightarrow> (d, Inl (ErrStore err))
           | Inr repo \<Rightarrow>
               if p_last_commit repo \<noteq> [] \<and> \<not> has_parent (ce_parents (hd commits)) (p_last_commit repo) then
                 (if p_pending_commit repo \<noteq> [] \<and> has_parent (ce_parents (hd commits)) (p_pending_commit repo)
                  then (d, Inl (ErrRepoBusy (repo_id @ '' is applying '' @ p_pending_commit repo)))
                  else (d, Inr (gap_ack repo)))
               else
                 let target = ce_sha (last commits) in
                 if distributed then
                   (case encode_commit_batch env commits of
                      Inl err \<Rightarrow> (d, Inl (ErrOther err))
                    | Inr payload \<Rightarrow>
                        let (d1, job) = enqueue_commit_job now repo_id payload d;
                            d2 = fst (set_repo_pending_commit repo_id target d1)
                        in (d2, Inr \<lparr> ack_accepted = True, ack_status = ''queued'', ack_queued = True,
                                      ack_job = Some (j_id job), ack_target = target, ack_before = p_last_commit repo \<rparr>))
                 else
                   (case claim_repo_for_indexing now repo_id owner default_repo_claim_ttl d of
                      (d1, Inl err) \<Rightarrow> (d1, Inl (ErrStore err))
                    | (d1, Inr claimed) \<Rightarrow>
                        if \<not> claimed then (d1, Inl (ErrRepoBusy repo_id))
                        else (fst (set_repo_pending_commit repo_id target d1),
                              Inr \<lparr> ack_accepted = True, ack_status = ''indexing'', ack_queued = False, ack_job = None,
                                    ack_target = target, ack_before = p_last_commit repo \<rparr>))))"

section \<open>The other entry points\<close>

definition apply_local_changes :: "string \<Rightarrow> int \<Rightarrow> int \<Rightarrow> worker_env \<Rightarrow> (db \<Rightarrow> db) \<Rightarrow> string \<Rightarrow> commit_file list \<Rightarrow> db \<Rightarrow> db \<times> app_error option" where
  "apply_local_changes owner now done_at env interim repo_id files d =
     (if files = [] then (d, None)
      else case validate_files files of
        Some err \<Rightarrow> (d, Some err)
      | None \<Rightarrow>
          (case get_repo repo_id d of
             Inl err \<Rightarrow> (d, Some (ErrStore err))
           | Inr repo \<Rightarrow>
               (case claim_repo_for_indexing now repo_id owner default_repo_claim_ttl d of
                  (d1, Inl err) \<Rightarrow> (d1, Some (ErrStore err))
                | (d1, Inr claimed) \<Rightarrow>
                    if \<not> claimed then (d1, Some (ErrRepoBusy repo_id))
                    else
                      let unapplied = do_apply_commits env repo [\<lparr> ce_sha = [], ce_parents = [], ce_files = files \<rparr>];
                          d2 = interim d1;
                          err = (case unapplied of
                                   Inl e \<Rightarrow> Some e
                                 | Inr ps \<Rightarrow> if 0 < length ps
                                     then Some (itoa (int (length ps)) @ '' path(s) left unindexed: '' @ join_with '', '' ps)
                                     else None)
                      in case err of
                           Some e \<Rightarrow> (fst (update_repo_status (p_id repo) StatusError e (p_indexed repo) d2), Some (ErrOther e))
                         | None \<Rightarrow> (fst (update_repo_status (p_id repo) Idle [] done_at d2), None))))"

record index_ack =
  ia_status :: string
  ia_queued :: bool
  ia_job :: "nat option"
  ia_job_status :: "job_status option"
  ia_force :: bool
  ia_queued_at :: int
  ia_claimed_by :: string
  ia_repo_status :: repo_status

text \<open>Like \<open>apply_commits\<close>, \<open>start_index\<close> hands the pass to the queue or to the background.\<close>

definition start_index :: "bool \<Rightarrow> string \<Rightarrow> int \<Rightarrow> string \<Rightarrow> bool \<Rightarrow> db \<Rightarrow> db \<times> (app_error + index_ack)" where
  "start_index distributed owner now repo_id force d =
     (case get_repo repo_id d of
        Inl err \<Rightarrow> (d, Inl (ErrStore err))
      | Inr repo \<Rightarrow>
          if distributed then
            let (d1, job) = enqueue_index_job now repo_id force d
            in (d1, Inr \<lparr> ia_status = ''queued'', ia_queued = True, ia_job = Some (j_id job), ia_job_status = Some (j_status job),
                          ia_force = j_force job, ia_queued_at = j_created job, ia_claimed_by = j_claimed_by job,
                          ia_repo_status = p_status repo \<rparr>)
          else
            (case claim_repo_for_indexing now repo_id owner default_repo_claim_ttl d of
               (d1, Inl err) \<Rightarrow> (d1, Inl (ErrStore err))
             | (d1, Inr claimed) \<Rightarrow>
                 if \<not> claimed then (d1, Inl (ErrRepoBusy repo_id))
                 else (d1, Inr \<lparr> ia_status = ''indexing'', ia_queued = False, ia_job = None, ia_job_status = None,
                                ia_force = force, ia_queued_at = 0, ia_claimed_by = [], ia_repo_status = Indexing \<rparr>)))"

definition index_repo_sync :: "string \<Rightarrow> int \<Rightarrow> int \<Rightarrow> worker_env \<Rightarrow> (db \<Rightarrow> db) \<Rightarrow> string \<Rightarrow> bool \<Rightarrow> db \<Rightarrow> db \<times> app_error option" where
  "index_repo_sync owner now done_at env interim repo_id force d =
     (case get_repo repo_id d of
        Inl err \<Rightarrow> (d, Some (ErrStore err))
      | Inr repo \<Rightarrow>
          (case claim_repo_for_indexing now repo_id owner default_repo_claim_ttl d of
             (d1, Inl err) \<Rightarrow> (d1, Some (ErrStore err))
           | (d1, Inr claimed) \<Rightarrow>
               if \<not> claimed then (d1, Some (ErrRepoBusy repo_id))
               else case run_index done_at env repo force (interim d1) of (d2, err) \<Rightarrow> (d2, map_option ErrOther err)))"

definition recover_stuck_repos :: "bool \<Rightarrow> int \<Rightarrow> db \<Rightarrow> db" where
  "recover_stuck_repos distributed now d = fst (reset_stuck_repos now (\<not> distributed) d)"

definition max_job_list_limit :: int where
  "max_job_list_limit = 200"

definition repo_jobs :: "string \<Rightarrow> int \<Rightarrow> db \<Rightarrow> store_error + job list" where
  "repo_jobs repo_id limit d =
     (case get_repo repo_id d of
        Inl err \<Rightarrow> Inl err
      | Inr _ \<Rightarrow> Inr (list_index_jobs repo_id (if limit > max_job_list_limit then max_job_list_limit else limit) d))"

definition repo_job :: "string \<Rightarrow> nat \<Rightarrow> db \<Rightarrow> store_error + job" where
  "repo_job repo_id job_id d =
     (case get_index_job job_id d of
        Inl err \<Rightarrow> Inl err
      | Inr job \<Rightarrow> if j_repo job \<noteq> repo_id then Inl ErrNotFound else Inr job)"

end
