(* ===== verification/Job_Drain.thy ===== *)
theory Job_Drain
  imports Job_Worker_Facts
begin

text \<open>
  A worker that returned has left nothing behind, and a worker that is alone empties the queue:
  every poll finishes the oldest pending job, whatever the job and however it ends.
\<close>

section \<open>Nothing is left behind\<close>

lemma ball_update_where: "(\<forall>y \<in> set (update_where P f xs). Q y) \<longleftrightarrow> (\<forall>x \<in> set xs. Q (if P x then f x else x))"
  by (auto simp: update_where_def)

lemma bex_update_where: "(\<exists>y \<in> set (update_where P f xs). Q y) \<longleftrightarrow> (\<exists>x \<in> set xs. Q (if P x then f x else x))"
  by (auto simp: update_where_def)

lemma complete_unheld: "\<not> list_ex (held_by i w) (jobs (fst (complete_index_job i w err d)))"
proof -
  have "\<not> held_by i w (j\<lparr> j_status := Errored, j_error := err, j_payload := [] \<rparr>)"
    "\<not> held_by i w (j\<lparr> j_status := Done, j_error := err, j_payload := [] \<rparr>)" for j err
    by (simp_all add: held_by_def)
  then show ?thesis by (simp add: complete_index_job_def Let_def list_ex_iff bex_update_where)
qed

lemma release_unheld:
  assumes "ids_ok d"
  shows "\<not> list_ex (held_by i w) (jobs (fst (release_index_job i w d)))"
proof (cases "rows_affected (releasable (jobs d) i w) (jobs d) > 0")
  case True
  then obtain k where k: "k \<in> set (jobs d)" "releasable (jobs d) i w k"
    using rows_affected_0 [of "releasable (jobs d) i w" "jobs d"] by auto
  have "releasable (jobs d) i w j" if "j \<in> set (jobs d)" "held_by i w j" for j
    using ids_distinct [OF assms that(1) k(1)] k(2) that(2) by (simp add: releasable_def held_by_def)
  moreover have "\<not> held_by i w (back_to_pending j)" for j by (simp add: held_by_def back_to_pending_def)
  ultimately show ?thesis using True by (auto simp: release_index_job_def list_ex_iff bex_update_where)
next
  case False
  then show ?thesis using complete_unheld by (simp add: release_index_job_def)
qed

lemma complete_repos [simp]: "repos (fst (complete_index_job i w err d)) = repos d"
  by (simp add: complete_index_job_def Let_def)

lemma release_repos [simp]: "repos (fst (release_index_job i w d)) = repos d"
  by (simp add: release_index_job_def)

lemma clear_jobs [simp]: "jobs (clear_pending_commit p t d) = jobs d"
  by (simp add: clear_pending_commit_def set_repo_pending_commit_def update_repo_row_def)

lemma claim_jobs [simp]:
  "jobs (fst (claim_repo_for_indexing now r w ttl d)) = jobs d"
  "next_id (fst (claim_repo_for_indexing now r w ttl d)) = next_id d"
  by (simp_all add: claim_repo_for_indexing_def Let_def)

text \<open>The claim on a repository, and what the writes of a run do to it.\<close>

definition holds_claim :: "db \<Rightarrow> string \<Rightarrow> string \<Rightarrow> bool" where
  "holds_claim d r w \<longleftrightarrow> (\<exists>p \<in> set (repos d). p_id p = r \<and> p_claimed_by p = w)"

lemma holds_claim_repos: "repos d = repos d' \<Longrightarrow> holds_claim d r w = holds_claim d' r w"
  by (simp add: holds_claim_def)

lemma clear_claim: "holds_claim (clear_pending_commit p t d) r w = holds_claim d r w"
  by (simp add: clear_pending_commit_def set_repo_pending_commit_def update_repo_row_def holds_claim_def bex_update_where)
    (metis (no_types, lifting) repo.select_convs repo.surjective repo.update_convs(14))

lemma refused_claim_repos:
  assumes "snd (claim_repo_for_indexing now r w ttl d) = Inr False"
  shows "repos (fst (claim_repo_for_indexing now r w' ttl' d)) = repos d"
proof -
  have "rows_affected (claimable r now) (repos d) = 0"
    using assms by (auto simp: claim_repo_for_indexing_def Let_def split: if_splits)
  then show ?thesis unfolding rows_affected_0 claim_repo_for_indexing_def Let_def fst_conv
    by (simp add: update_where_none)
qed

lemma status_frees: "w \<noteq> [] \<Longrightarrow> \<not> holds_claim (fst (update_repo_status r s e t d)) r w"
  by (simp add: holds_claim_def update_repo_status_def update_repo_row_def bex_update_where)

lemma run_index_frees: "w \<noteq> [] \<Longrightarrow> \<not> holds_claim (fst (run_index t env p f d)) (p_id p) w"
  by (auto simp: run_index_def status_frees split: index_outcome.splits)

lemma apply_frees: "w \<noteq> [] \<Longrightarrow> \<not> holds_claim (fst (run_apply_commits t env p commits d)) (p_id p) w"
  by (auto simp: run_apply_commits_def Let_def status_frees split: sum.splits)

lemma run_claimed_clean:
  assumes "w \<noteq> []" and "p_id p = j_repo job"
  shows "\<not> list_ex (held_by (j_id job) w) (jobs (run_claimed t env interim job w p commits d)) \<and>
    \<not> holds_claim (run_claimed t env interim job w p commits d) (j_repo job) w"
proof -
  let ?r = "if j_kind job = KCommits then
      run_apply_commits t env p commits (interim (fst (set_repo_pending_commit (j_repo job) (ce_sha (last commits)) d)))
    else run_index t env p (j_force job) (interim d)"
  have eq: "run_claimed t env interim job w p commits d =
      fst (complete_index_job (j_id job) w (case snd ?r of None \<Rightarrow> [] | Some e \<Rightarrow> e) (fst ?r))"
    by (simp add: run_claimed_def case_prod_beta Let_def)
  have "\<not> holds_claim (fst ?r) (j_repo job) w"
    using apply_frees [OF assms(1), of t env p] run_index_frees [OF assms(1), of t env p] assms(2) by simp
  then show ?thesis unfolding eq using complete_unheld holds_claim_repos [OF complete_repos] by simp
qed

lemma order_clean:
  assumes "order_commits job w p commits d = Some d'" and "ids_ok d"
  shows "\<not> list_ex (held_by (j_id job) w) (jobs d') \<and> holds_claim d' r w' = holds_claim d r w'"
proof -
  have "\<not> list_ex (held_by (j_id job) w) (jobs d')"
    using assms complete_unheld release_unheld by (auto simp: order_commits_def split: commit_batch_order.splits if_splits)
  moreover have "repos d' = repos d \<or> repos d' = repos (clear_pending_commit p (ce_sha (last commits)) d)"
    using assms(1) by (auto simp: order_commits_def split: commit_batch_order.splits if_splits)
  ultimately show ?thesis using holds_claim_repos clear_claim by metis
qed

text \<open>
  C15: a worker that has run a job leaves no trace of ownership: the job is no longer running under its
  name, whatever became of it, and if the worker held no claim on the repository before it holds none
  afterwards, even when the other instances changed the database while the work ran.
\<close>

theorem worker_leaves_nothing_behind:
  assumes "db_ok d" and "w \<noteq> []" and "\<not> holds_claim d (j_repo job) w"
  shows "\<not> list_ex (held_by (j_id job) w) (jobs (run_queued_job now t env interim job w d)) \<and>
    \<not> holds_claim (run_queued_job now t env interim job w d) (j_repo job) w"
proof (cases rule: run_queued_job_cases [of now t env interim job w d])
  case (failed err)
  then show ?thesis using complete_unheld assms(3) holds_claim_repos [OF complete_repos] by simp
next
  case (ordered p commits d')
  then show ?thesis using order_clean assms by (simp add: db_ok_def)
next
  case busy
  let ?d = "fst (claim_repo_for_indexing now (j_repo job) w default_repo_claim_ttl d)"
  have "ids_ok ?d" using assms(1) by (simp add: db_ok_def ids_ok_def)
  moreover have "holds_claim ?d (j_repo job) w = holds_claim d (j_repo job) w"
    using refused_claim_repos [OF busy(2)] by (rule holds_claim_repos)
  ultimately show ?thesis unfolding busy(1)
    using release_unheld assms(3) holds_claim_repos [OF release_repos] by simp
next
  case (run p commits)
  then show ?thesis using run_claimed_clean [OF assms(2)] get_repo_cursor by simp
qed

section \<open>A lone worker empties the queue\<close>

definition quiet :: "db \<Rightarrow> bool" where
  "quiet d \<longleftrightarrow> db_ok d \<and> (\<forall>j \<in> set (jobs d). j_status j \<noteq> Running) \<and> (\<forall>p \<in> set (repos d). p_status p \<noteq> Indexing)"

definition pending_jobs :: "db \<Rightarrow> job list" where
  "pending_jobs d = filter (\<lambda>j. j_status j = Pending) (jobs d)"

text \<open>One poll after another, each at its own time, with nobody else at the database.\<close>

fun polls :: "(int \<times> int) list \<Rightarrow> worker_env \<Rightarrow> string \<Rightarrow> int \<Rightarrow> db \<Rightarrow> db" where
  "polls [] env w stale_sec d = d"
| "polls ((now, t) # ticks) env w stale_sec d = polls ticks env w stale_sec (poll_index_jobs now t env (\<lambda>d. d) w stale_sec d)"

lemma requeue_quiet: "quiet d \<Longrightarrow> fst (requeue_stale_index_jobs now older_than d) = d"
  by (simp add: requeue_stale_index_jobs_def Let_def quiet_def update_where_none surplus_def stale_def)

text \<open>What a write to the repository table leaves: the jobs, and statuses other than indexing.\<close>

lemma status_not_indexing:
  assumes "s \<noteq> Indexing" and "\<And>p. p \<in> set (repos d) \<Longrightarrow> p_id p \<noteq> r \<Longrightarrow> p_status p \<noteq> Indexing"
  shows "\<exists>rs. fst (update_repo_status r s e t d) = d\<lparr> repos := rs \<rparr> \<and> (\<forall>p \<in> set rs. p_status p \<noteq> Indexing)"
  unfolding update_repo_status_def update_repo_row_def fst_conv
  by (intro exI conjI, rule refl) (use assms in \<open>simp add: ball_update_where\<close>)

definition idle_but :: "string \<Rightarrow> db \<Rightarrow> bool" where
  "idle_but r d \<longleftrightarrow> (\<forall>p \<in> set (repos d). p_id p \<noteq> r \<longrightarrow> p_status p \<noteq> Indexing)"

lemma run_index_idle:
  "idle_but (p_id p) d \<Longrightarrow> \<exists>rs. fst (run_index t env p f d) = d\<lparr> repos := rs \<rparr> \<and> (\<forall>p \<in> set rs. p_status p \<noteq> Indexing)"
  by (simp add: run_index_def idle_but_def status_not_indexing split: index_outcome.splits)

lemma last_commit_repos: "\<exists>rs. fst (update_repo_last_commit r sha d) = d\<lparr> repos := rs \<rparr>"
  unfolding update_repo_last_commit_def update_repo_row_def fst_conv by (intro exI) (rule refl)

lemma last_commit_idle: "idle_but r d \<Longrightarrow> idle_but r (fst (update_repo_last_commit r sha d))"
  by (simp add: update_repo_last_commit_def update_repo_row_def idle_but_def ball_update_where)

lemma pending_commit_idle: "idle_but r d \<Longrightarrow> idle_but r (fst (set_repo_pending_commit r sha d))"
  by (simp add: set_repo_pending_commit_def update_repo_row_def idle_but_def ball_update_where)

lemma run_apply_idle:
  assumes "idle_but (p_id p) d"
  shows "\<exists>rs. fst (run_apply_commits t env p commits d) = d\<lparr> repos := rs \<rparr> \<and> (\<forall>p \<in> set rs. p_status p \<noteq> Indexing)"
proof (cases "do_apply_commits env p commits = Inr []")
  case True
  let ?d = "fst (update_repo_last_commit (p_id p) (ce_sha (last commits)) d)"
  obtain rs where rs: "?d = d\<lparr> repos := rs \<rparr>" using last_commit_repos by blast
  have "idle_but (p_id p) ?d" using assms by (rule last_commit_idle)
  then obtain qs where "fst (update_repo_status (p_id p) Idle [] t ?d) = ?d\<lparr> repos := qs \<rparr>" "\<forall>p \<in> set qs. p_status p \<noteq> Indexing"
    using status_not_indexing [of Idle ?d "p_id p" "[]" t] by (auto simp: idle_but_def)
  then show ?thesis using rs True by (auto simp: run_apply_commits_def Let_def)
next
  case False
  then have "\<exists>e. fst (run_apply_commits t env p commits d) = fst (update_repo_status (p_id p) StatusError e (p_indexed p) d)"
    by (cases "do_apply_commits env p commits") (auto simp: run_apply_commits_def Let_def)
  then obtain e where "fst (run_apply_commits t env p commits d) = fst (update_repo_status (p_id p) StatusError e (p_indexed p) d)"
    by blast
  then show ?thesis using status_not_indexing [of StatusError d "p_id p"] assms by (simp add: idle_but_def)
qed

lemma complete_over_repos: "fst (complete_index_job i w e (d\<lparr> repos := rs \<rparr>)) = (fst (complete_index_job i w e d))\<lparr> repos := rs \<rparr>"
  by (simp add: complete_index_job_def Let_def)

lemma run_claimed_idle:
  assumes "idle_but (p_id p) d" and "p_id p = j_repo job"
  shows "\<exists>err rs. run_claimed t env (\<lambda>d. d) job w p commits d = (fst (complete_index_job (j_id job) w err d))\<lparr> repos := rs \<rparr> \<and>
    (\<forall>p \<in> set rs. p_status p \<noteq> Indexing)"
proof -
  let ?s = "fst (set_repo_pending_commit (j_repo job) (ce_sha (last commits)) d)"
  let ?r = "if j_kind job = KCommits then run_apply_commits t env p commits ?s else run_index t env p (j_force job) d"
  have eq: "run_claimed t env (\<lambda>d. d) job w p commits d =
      fst (complete_index_job (j_id job) w (case snd ?r of None \<Rightarrow> [] | Some e \<Rightarrow> e) (fst ?r))"
    by (simp add: run_claimed_def case_prod_beta Let_def)
  obtain qs where s: "?s = d\<lparr> repos := qs \<rparr>" by (simp add: set_repo_pending_commit_def update_repo_row_def)
  have "idle_but (p_id p) ?s" using assms by (simp add: pending_commit_idle)
  then obtain rs where "fst (run_apply_commits t env p commits ?s) = ?s\<lparr> repos := rs \<rparr>" "\<forall>p \<in> set rs. p_status p \<noteq> Indexing"
    using run_apply_idle by blast
  moreover have "?s\<lparr> repos := rs \<rparr> = d\<lparr> repos := rs \<rparr>" unfolding s by simp
  ultimately have "\<exists>rs. fst ?r = d\<lparr> repos := rs \<rparr> \<and> (\<forall>p \<in> set rs. p_status p \<noteq> Indexing)"
    using run_index_idle [OF assms(1), of t env "j_force job"] by (cases "j_kind job") auto
  then obtain rs where "fst ?r = d\<lparr> repos := rs \<rparr>" "\<forall>p \<in> set rs. p_status p \<noteq> Indexing" by blast
  then show ?thesis unfolding eq using complete_over_repos by metis
qed

text \<open>The job a lone worker claims is the oldest one alive, so nothing can make it wait.\<close>

definition only_running :: "job \<Rightarrow> db \<Rightarrow> bool" where
  "only_running job d \<longleftrightarrow> (\<forall>j \<in> set (jobs d). j_status j = Running \<longrightarrow> j = job) \<and>
     (\<forall>j \<in> set (jobs d). j_status j = Pending \<longrightarrow> j_id job < j_id j) \<and> (\<forall>p \<in> set (repos d). p_status p \<noteq> Indexing)"

lemma no_earlier_batch: "only_running job d \<Longrightarrow> \<not> has_pending_commit_job_before r (j_id job) d"
  by (auto simp: only_running_def has_pending_commit_job_before_def list_ex_iff)

lemma order_completes:
  assumes "order_commits job w p commits d = Some d'" and "only_running job d"
  shows "\<exists>err rs. d' = (fst (complete_index_job (j_id job) w err d))\<lparr> repos := rs \<rparr> \<and> (\<forall>p \<in> set rs. p_status p \<noteq> Indexing)"
proof -
  let ?c = "clear_pending_commit p (ce_sha (last commits)) d"
  have "\<exists>rs. ?c = d\<lparr> repos := rs \<rparr>"
    by (auto simp: clear_pending_commit_def set_repo_pending_commit_def update_repo_row_def intro: exI [of _ "repos d"])
  then obtain rs where rs: "?c = d\<lparr> repos := rs \<rparr>" by blast
  have "\<forall>p \<in> set (repos ?c). p_status p \<noteq> Indexing"
    using assms(2) by (simp add: only_running_def clear_pending_commit_def set_repo_pending_commit_def update_repo_row_def ball_update_where)
  then have idle: "\<forall>p \<in> set rs. p_status p \<noteq> Indexing" unfolding rs by simp
  have "\<exists>err. d' = fst (complete_index_job (j_id job) w err ?c)"
    using assms(1) no_earlier_batch [OF assms(2)] by (auto simp: order_commits_def split: commit_batch_order.splits)
  then show ?thesis using idle unfolding rs complete_over_repos by blast
qed

lemma claim_idle: "(\<forall>p \<in> set (repos d). p_status p \<noteq> Indexing) \<Longrightarrow> idle_but r (fst (claim_repo_for_indexing now r w ttl d))"
  by (simp add: idle_but_def claim_repo_for_indexing_def Let_def ball_update_where claimable_def)

lemma claim_never_busy:
  assumes "\<forall>p \<in> set (repos d). p_status p \<noteq> Indexing"
  shows "snd (claim_repo_for_indexing now r w ttl d) \<noteq> Inr False"
proof
  assume a: "snd (claim_repo_for_indexing now r w ttl d) = Inr False"
  then have "rows_affected (claimable r now) (repos d) = 0" and "list_ex (\<lambda>p. p_id p = r) (repos d)"
    by (auto simp: claim_repo_for_indexing_def Let_def split: if_splits)
  then show False using assms unfolding rows_affected_0 by (auto simp: list_ex_iff claimable_def)
qed

lemma lone_run_completes:
  assumes "only_running job d"
  shows "\<exists>err rs. run_queued_job now t env (\<lambda>d. d) job w d = (fst (complete_index_job (j_id job) w err d))\<lparr> repos := rs \<rparr> \<and>
    (\<forall>p \<in> set rs. p_status p \<noteq> Indexing)"
proof -
  have idle: "\<forall>p \<in> set (repos d). p_status p \<noteq> Indexing" using assms by (simp add: only_running_def)
  show ?thesis
  proof (cases rule: run_queued_job_cases [of now t env "\<lambda>d. d" job w d])
    case (failed err)
    have "fst (complete_index_job (j_id job) w err d) = (fst (complete_index_job (j_id job) w err d))\<lparr> repos := repos d \<rparr>"
      by (simp add: complete_index_job_def Let_def)
    then show ?thesis using failed idle by metis
  next
    case (ordered p commits d')
    then show ?thesis using order_completes assms by simp
  next
    case busy
    then show ?thesis using claim_never_busy [OF idle] by simp
  next
    case (run p commits)
    let ?d = "fst (claim_repo_for_indexing now (j_repo job) w default_repo_claim_ttl d)"
    have id: "p_id p = j_repo job" using get_repo_cursor [OF run(1)] by simp
    have "idle_but (p_id p) ?d" unfolding id using idle by (rule claim_idle)
    from run_claimed_idle [OF this id] obtain err rs where
      "run_claimed t env (\<lambda>d. d) job w p commits ?d = (fst (complete_index_job (j_id job) w err ?d))\<lparr> repos := rs \<rparr>"
      "\<forall>p \<in> set rs. p_status p \<noteq> Indexing" by blast
    note this(1)
    also have "(fst (complete_index_job (j_id job) w err ?d))\<lparr> repos := rs \<rparr> = (fst (complete_index_job (j_id job) w err d))\<lparr> repos := rs \<rparr>"
      by (simp add: complete_index_job_def claim_repo_for_indexing_def Let_def)
    finally show ?thesis using run(4) \<open>\<forall>p \<in> set rs. p_status p \<noteq> Indexing\<close> by metis
  qed
qed

lemma db_ok_repos: "db_ok (d\<lparr> repos := rs \<rparr>) = db_ok d"
  by (simp add: db_ok_def ids_ok_def one_pending_def unclaimed_def)

lemma earliest_pending:
  assumes "sorted_wrt (<) (map j_id js)" and "List.find (\<lambda>j. j_status j = Pending) js = Some p"
  shows "\<forall>j \<in> set js. j_status j = Pending \<longrightarrow> j = p \<or> j_id p < j_id j"
  using assms by (induction js) (auto split: if_splits)

lemma pending_after_finish:
  assumes "distinct js" and "p \<in> set js" and "j_status p = Pending" and "\<And>j. j_status (f j) \<noteq> Pending"
  shows "length (filter (\<lambda>j. j_status j = Pending) (update_where ((=) p) f js)) + 1 = length (filter (\<lambda>j. j_status j = Pending) js)"
  using assms(1-3)
proof (induction js)
  case (Cons j js)
  have step: "update_where ((=) p) f (j # js) = (if p = j then f j else j) # update_where ((=) p) f js"
    by (simp add: update_where_def)
  show ?case
  proof (cases "p = j")
    case True
    then have "update_where ((=) p) f js = js" using Cons.prems by (intro update_where_none) auto
    then show ?thesis using True Cons.prems assms(4) unfolding step by simp
  next
    case False
    then show ?thesis using Cons unfolding step by simp
  qed
qed simp

lemma poll_finishes_one:
  assumes "quiet d" and "pending_jobs d \<noteq> []"
  shows "quiet (poll_index_jobs now t env (\<lambda>d. d) w stale_sec d) \<and>
    length (pending_jobs (poll_index_jobs now t env (\<lambda>d. d) w stale_sec d)) + 1 = length (pending_jobs d)"
proof -
  have ok: "db_ok d" and none: "\<forall>j \<in> set (jobs d). j_status j \<noteq> Running" and idle: "\<forall>p \<in> set (repos d). p_status p \<noteq> Indexing"
    using assms(1) by (simp_all add: quiet_def)
  obtain p where find: "List.find (\<lambda>j. j_status j = Pending) (jobs d) = Some p"
    using assms(2) by (cases "List.find (\<lambda>j. j_status j = Pending) (jobs d)") (auto simp: pending_jobs_def find_None_iff filter_empty_conv)
  note p = find_SomeD [OF find]
  define q where "q = p\<lparr> j_status := Running, j_claimed_by := w, j_claimed_at := now, j_heartbeat := now \<rparr>"
  let ?d = "d\<lparr> jobs := update_where (\<lambda>j. j_id j = j_id p) (\<lambda>_. q) (jobs d) \<rparr>"
  have claim: "claim_next_index_job now w d = (?d, Inr q)" using find by (simp add: claim_next_index_job_def q_def Let_def)
  have same: "j_id j = j_id p \<longleftrightarrow> p = j" if "j \<in> set (jobs d)" for j
    using ids_distinct [of d j p] ok that p by (auto simp: db_ok_def)
  have early: "\<forall>j \<in> set (jobs d). j_status j = Pending \<longrightarrow> j = p \<or> j_id p < j_id j"
    using earliest_pending [OF _ find] ok by (simp add: db_ok_def ids_ok_def)
  have "only_running q ?d" unfolding only_running_def
    using none idle early same by (simp add: ball_update_where q_def) blast
  from lone_run_completes [OF this] obtain err rs where
    run: "run_queued_job now t env (\<lambda>d. d) q w ?d = (fst (complete_index_job (j_id q) w err ?d))\<lparr> repos := rs \<rparr>"
    and rs: "\<forall>p \<in> set rs. p_status p \<noteq> Indexing" by blast
  let ?e = "poll_index_jobs now t env (\<lambda>d. d) w stale_sec d"
  have e: "?e = (fst (complete_index_job (j_id q) w err ?d))\<lparr> repos := rs \<rparr>"
    using requeue_quiet [OF assms(1)] claim run by (simp add: poll_index_jobs_def Let_def)
  define g where "g = (\<lambda>j::job. q\<lparr> j_status := (if err \<noteq> [] then Errored else Done), j_error := err, j_payload := [] \<rparr>)"
  have "held_by (j_id q) w q" "\<And>j. j \<in> set (jobs d) \<Longrightarrow> \<not> held_by (j_id q) w j"
    using none by (auto simp: held_by_def q_def)
  then have jobs: "jobs ?e = update_where ((=) p) g (jobs d)"
    using same unfolding e by (simp add: complete_index_job_def Let_def update_where_def g_def)
  have "db_ok ?e" unfolding e db_ok_repos using claim_ok [OF ok, of now w] claim complete_ok by (metis fst_conv)
  moreover have "\<forall>j \<in> set (jobs ?e). j_status j \<noteq> Running" using none unfolding jobs by (simp add: ball_update_where g_def)
  moreover have "\<forall>p \<in> set (repos ?e). p_status p \<noteq> Indexing" unfolding e using rs by simp
  moreover have "distinct (jobs d)" using ok by (simp add: db_ok_def ids_ok_def strict_sorted_iff distinct_map)
  ultimately show ?thesis using pending_after_finish [of "jobs d" p g] p jobs
    by (simp add: quiet_def pending_jobs_def g_def)
qed

text \<open>
  C13: a worker that is alone empties the queue. From a state in which no job runs and no repository
  is being indexed, as many polls as there are pending jobs leave neither a pending nor a running
  job, whatever the jobs hold and whether their work succeeds or fails.
\<close>

theorem polls_drain_queue:
  assumes "quiet d" and "length ticks = length (pending_jobs d)"
  shows "quiet (polls ticks env w stale_sec d) \<and> pending_jobs (polls ticks env w stale_sec d) = []"
  using assms
proof (induction ticks arbitrary: d)
  case (Cons tick ticks)
  obtain now t where tick: "tick = (now, t)" by (cases tick)
  let ?d = "poll_index_jobs now t env (\<lambda>d. d) w stale_sec d"
  have "pending_jobs d \<noteq> []" using Cons.prems(2) by auto
  from poll_finishes_one [OF Cons.prems(1) this] Cons.prems(2)
  have "quiet ?d" "length ticks = length (pending_jobs ?d)" by (simp_all, metis Suc_inject)
  from Cons.IH [OF this] show ?case by (simp add: tick)
qed simp

end
