(* ===== verification/Job_Push.thy ===== *)
theory Job_Push
  imports Job_Drain
begin

text \<open>
  What a push is answered with (\<open>ApplyCommits\<close>), and runs of the whole path from a push to a moved
  cursor on concrete batches.
\<close>

section \<open>Accepting a push\<close>

lemma has_parent_iff: "has_parent ps sha \<longleftrightarrow> sha \<in> set ps"
  by (induction ps) auto

lemma validate_files_None:
  "validate_files fs = None \<longleftrightarrow>
     (\<forall>f \<in> set fs. validate_commit_path (cf_path f) = None \<and> (cf_old f \<noteq> [] \<longrightarrow> validate_commit_path (cf_old f) = None))"
  by (induction fs) (auto split: option.splits)

lemma validate_commits_None:
  "validate_commits cs = None \<longleftrightarrow> (\<forall>c \<in> set cs. ce_sha c \<noteq> [] \<and> validate_files (ce_files c) = None)"
  by (induction cs) (auto split: option.splits)

definition batch_valid :: "commit_event list \<Rightarrow> bool" where
  "batch_valid commits \<longleftrightarrow> commits \<noteq> [] \<and> (\<forall>c \<in> set commits. ce_sha c \<noteq> [] \<and>
     (\<forall>f \<in> set (ce_files c). validate_commit_path (cf_path f) = None \<and> (cf_old f \<noteq> [] \<longrightarrow> validate_commit_path (cf_old f) = None)))"

definition continues :: "repo \<Rightarrow> commit_event list \<Rightarrow> bool" where
  "continues p commits \<longleftrightarrow> p_last_commit p = [] \<or> p_last_commit p \<in> set (ce_parents (hd commits))"

lemma gap_test: "(p_last_commit p \<noteq> [] \<and> \<not> has_parent (ce_parents (hd commits)) (p_last_commit p)) \<longleftrightarrow> \<not> continues p commits"
  by (auto simp: continues_def has_parent_iff)

lemma pending_commit_jobs [simp]:
  "jobs (fst (set_repo_pending_commit r s d)) = jobs d"
  by (simp add: set_repo_pending_commit_def update_repo_row_def)

lemma queued_push:
  assumes "batch_valid commits" and "get_repo r d = Inr p" and "continues p commits" and "w_marshal env commits = Inr payload"
  shows "jobs (fst (apply_commits True owner now env r commits d)) = jobs d @ [new_job (next_id d) r KCommits False now payload] \<and>
    snd (apply_commits True owner now env r commits d) =
      Inr \<lparr> ack_accepted = True, ack_status = ''queued'', ack_queued = True, ack_job = Some (next_id d),
            ack_target = ce_sha (last commits), ack_before = p_last_commit p \<rparr>"
proof -
  have v: "validate_commits commits = None" "commits \<noteq> []"
    using assms(1) by (simp_all add: batch_valid_def validate_commits_None validate_files_None)
  have enc: "encode_commit_batch env commits = Inr payload" using assms(4) by (simp add: encode_commit_batch_def)
  have enq: "enqueue_commit_job now r payload d =
      (d\<lparr> jobs := jobs d @ [new_job (next_id d) r KCommits False now payload], next_id := Suc (next_id d) \<rparr>,
       new_job (next_id d) r KCommits False now payload)"
    by (simp add: enqueue_commit_job_def insert_job_def Let_def)
  show ?thesis
    unfolding apply_commits_def gap_test v(1) option.case assms(2) sum.case enc enq Let_def prod.case
    using v(2) assms(3) by (simp add: new_job_def)
qed

lemma refused_push:
  assumes "batch_valid commits" and "get_repo r d = Inr p" and "\<not> continues p commits"
  shows "fst (apply_commits distributed owner now env r commits d) = d \<and>
    (snd (apply_commits distributed owner now env r commits d) = Inr (gap_ack p) \<or>
     p_pending_commit p \<in> set (ce_parents (hd commits)) \<and>
       snd (apply_commits distributed owner now env r commits d) = Inl (ErrRepoBusy (r @ '' is applying '' @ p_pending_commit p)))"
proof -
  have v: "validate_commits commits = None" "commits \<noteq> []"
    using assms(1) by (simp_all add: batch_valid_def validate_commits_None validate_files_None)
  show ?thesis
    unfolding apply_commits_def gap_test v(1) option.case assms(2) sum.case
    using v(2) assms(3) by (simp add: has_parent_iff)
qed


section \<open>Runs\<close>

definition demo_commit :: "string \<Rightarrow> string \<Rightarrow> commit_event" where
  "demo_commit parent sha = \<lparr> ce_sha = sha, ce_parents = [parent],
     ce_files = [\<lparr> cf_path = ''x.go'', cf_old = [], cf_content = sha, cf_status = ''M'' \<rparr>] \<rparr>"

definition demo_plan :: plan_env where
  "demo_plan = \<lparr> pe_ignored = (\<lambda>_. False), pe_language = (\<lambda>_. ''go''), pe_read = (\<lambda>_. Inl ''missing''), pe_hash = (\<lambda>c. c),
     pe_update_source = None, pe_remove = (\<lambda>_. None), pe_index = (\<lambda>_. Inr []), pe_services = None, pe_link = None \<rparr>"

definition map_entries :: "plan \<Rightarrow> (string \<times> plan_entry) list" where
  "map_entries plan = map (\<lambda>k. (k, the (plan k))) (sorted_list_of_set (dom plan))"

text \<open>A codec for batches of one commit: parent and commit have one-character names.\<close>

definition demo_env :: worker_env where
  "demo_env = \<lparr>
     w_unmarshal = (\<lambda>s. case s of [a, b] \<Rightarrow> Inr [demo_commit [a] [b]] | _ \<Rightarrow> Inl ''bad''),
     w_marshal = (\<lambda>cs. case cs of
        [c] \<Rightarrow> (case (ce_parents c, ce_sha c) of ([[a]], [b]) \<Rightarrow> if c = demo_commit [a] [b] then Inr [a, b] else Inl ''bad'' | _ \<Rightarrow> Inl ''bad'')
      | _ \<Rightarrow> Inl ''bad''),
     w_plan = (\<lambda>_. demo_plan), w_entries = map_entries, w_index = (\<lambda>_ _. IndexOk) \<rparr>"

lemma finite_plan_file: "finite (dom plan) \<Longrightarrow> finite (dom (plan_file plan f))"
  by (simp add: plan_file_def Let_def)

lemma finite_plan_files: "finite (dom plan) \<Longrightarrow> finite (dom (foldl plan_file plan fs))"
  by (induction fs arbitrary: plan) (simp_all add: finite_plan_file)

lemma finite_plan: "finite (dom (merge_commit_plan commits))"
proof -
  have "finite (dom plan) \<Longrightarrow> finite (dom (foldl (\<lambda>plan c. foldl plan_file plan (ce_files c)) plan commits))" for plan
    by (induction commits arbitrary: plan) (simp_all add: finite_plan_files)
  then show ?thesis by (simp add: merge_commit_plan_def)
qed

lemma map_entries_plan: "finite (dom plan) \<Longrightarrow> map_of (map_entries plan) = plan"
  by (rule ext) (auto simp: map_entries_def map_of_map_restrict restrict_map_def dom_def)

lemma demo_entries: "\<forall>commits. map_of (w_entries demo_env (merge_commit_plan commits)) = merge_commit_plan commits"
  by (simp add: demo_env_def map_entries_plan finite_plan)

lemma demo_codec: "\<forall>cs payload. w_marshal demo_env cs = Inr payload \<longrightarrow> w_unmarshal demo_env payload = Inr cs"
  by (simp add: demo_env_def split: list.splits prod.splits if_splits)

lemma demo_apply: "do_apply_commits demo_env p [demo_commit a (b # bs)] = Inr []"
proof -
  have "merge_commit_plan [demo_commit a (b # bs)] = [''x.go'' \<mapsto> PlanUpsert (b # bs)]"
    by (simp add: merge_commit_plan_def demo_commit_def plan_file_def)
  then show ?thesis
    by (simp add: do_apply_commits_def demo_env_def map_entries_def apply_plan_def needs_source_update_def demo_plan_def
        read_plan_def read_entry_def plan_deletes_def Let_def)
qed

definition demo_job :: "nat \<Rightarrow> string \<Rightarrow> string \<Rightarrow> job" where
  "demo_job i w payload = (new_job i ''r'' KCommits False 0 payload)\<lparr> j_status := Running, j_claimed_by := w \<rparr>"

definition demo_db :: "string \<Rightarrow> job list \<Rightarrow> db" where
  "demo_db sha js = \<lparr> jobs = js, next_id = length js, repos = [example_repo sha] \<rparr>"

lemma demo_job_simps [simp]:
  "j_id (demo_job i w s) = i" "j_repo (demo_job i w s) = ''r''" "j_kind (demo_job i w s) = KCommits"
  "j_payload (demo_job i w s) = s" "held_by k v (demo_job i w s) \<longleftrightarrow> i = k \<and> w = v" "j_status (demo_job i w s) = Running"
  by (simp_all add: demo_job_def new_job_def held_by_def)

lemma demo_repo_simps [simp]:
  "get_repo ''r'' (demo_db sha js) = Inr (example_repo sha)" "jobs (demo_db sha js) = js"
  "p_id (example_repo sha) = ''r''" "p_last_commit (example_repo sha) = sha" "p_pending_commit (example_repo sha) = []"
  "p_indexed (example_repo sha) = 0"
  by (simp_all add: get_repo_def demo_db_def example_repo_def)

lemma demo_decode [simp]: "decode_commit_batch demo_env [a, b] = Inr [demo_commit [a] [b]]"
  by (simp add: decode_commit_batch_def demo_env_def)

lemma demo_commit_simps [simp]: "ce_sha (demo_commit a b) = b" "ce_parents (demo_commit a b) = [a]"
  by (simp_all add: demo_commit_def)

text \<open>A batch that continues the cursor is applied and the cursor follows.\<close>

lemma demo_run:
  assumes "sha = [] \<or> sha = [a]"
  shows "run_queued_job now t demo_env (\<lambda>d. d) (demo_job i w [a, b]) w (demo_db sha js) =
    fst (complete_index_job i w [] \<lparr> jobs = js, next_id = length js, repos = [(example_repo [b])\<lparr> p_indexed := t \<rparr>] \<rparr>)"
proof -
  have ord: "commit_job_order (example_repo sha) [demo_commit [a] [b]] = CommitBatchNext"
    using assms by (auto simp: commit_order_next)
  have claim: "claim_repo_for_indexing now ''r'' w default_repo_claim_ttl (demo_db sha js) =
      ((demo_db sha js)\<lparr> repos := [claimed_row now w default_repo_claim_ttl (example_repo sha)] \<rparr>, Inr True)"
    using claim_single [of default_repo_claim_ttl "''r''" now "example_repo sha" w "demo_db sha js"]
    by (simp add: default_repo_claim_ttl_def claimable_def demo_db_def example_repo_def)
  have "run_queued_job now t demo_env (\<lambda>d. d) (demo_job i w [a, b]) w (demo_db sha js) =
      run_claimed t demo_env (\<lambda>d. d) (demo_job i w [a, b]) w (example_repo sha) [demo_commit [a] [b]]
        ((demo_db sha js)\<lparr> repos := [claimed_row now w default_repo_claim_ttl (example_repo sha)] \<rparr>)"
    unfolding run_queued_job_def by (simp add: order_commits_def ord claim)
  also have "\<dots> = fst (complete_index_job i w [] \<lparr> jobs = js, next_id = length js, repos = [(example_repo [b])\<lparr> p_indexed := t \<rparr>] \<rparr>)"
    by (simp add: run_claimed_def run_apply_commits_def demo_apply Let_def demo_db_def update_repo_status_def
        update_repo_last_commit_def set_repo_pending_commit_def update_repo_row_def update_where_def claimed_row_def example_repo_def)
  finally show ?thesis .
qed


theorem worker_leaves_nothing_behind_witness:
  "\<not> list_ex (held_by 0 ''w'') (jobs (run_queued_job 5 6 demo_env (\<lambda>d. d) (demo_job 0 ''w'' ''0a'') ''w'' (demo_db ''0'' [demo_job 0 ''w'' ''0a''])))"
proof -
  let ?d = "demo_db ''0'' [demo_job 0 ''w'' ''0a'']"
  have "db_ok ?d" by (simp add: db_ok_def ids_ok_def one_pending_def unclaimed_def pending_index_def demo_db_def)
  moreover have "\<not> holds_claim ?d (j_repo (demo_job 0 ''w'' ''0a'')) ''w''" by (simp add: holds_claim_def demo_db_def example_repo_def)
  ultimately show ?thesis
    using worker_leaves_nothing_behind [of ?d "''w''" "demo_job 0 ''w'' ''0a''" 5 6 demo_env "\<lambda>d. d"] by simp
qed

theorem polls_drain_queue_witness:
  "pending_jobs (polls [(5, 6), (7, 8)] demo_env ''w'' 120
     (demo_db ''0'' [new_job 0 ''r'' KCommits False 0 ''0a'', new_job 1 ''q'' KIndex False 0 []])) = []"
proof -
  let ?d = "demo_db ''0'' [new_job 0 ''r'' KCommits False 0 ''0a'', new_job 1 ''q'' KIndex False 0 []]"
  have "quiet ?d"
    by (simp add: quiet_def db_ok_def ids_ok_def one_pending_def unclaimed_def pending_index_def demo_db_def new_job_def example_repo_def)
  moreover have "length [(5::int, 6::int), (7, 8)] = length (pending_jobs ?d)" by (simp add: pending_jobs_def demo_db_def new_job_def)
  ultimately show ?thesis by (rule polls_drain_queue [THEN conjunct2])
qed

lemma demo_batch_valid: "batch_valid [demo_commit [a] [b]]"
  by (simp add: batch_valid_def demo_commit_def validate_commit_path_def is_abs_def path_clean_def char_of_numeral)


text \<open>
  With an empty cursor every batch counts as the next one. Two batches accepted before the first pass
  over a fresh repository, claimed by two workers, can be applied in the wrong order: the second one
  moves the cursor, and the first, which it rests on, then fails as a gap although it was accepted first.
\<close>

lemma fresh_repo_reorders:
  "let d0 = demo_db [] [demo_job 0 ''v'' ''0a'', demo_job 1 ''w'' ''ab''];
       d1 = run_queued_job 5 6 demo_env (\<lambda>d. d) (demo_job 1 ''w'' ''ab'') ''w'' d0;
       d2 = run_queued_job 7 8 demo_env (\<lambda>d. d) (demo_job 0 ''v'' ''0a'') ''v'' d1
   in map j_status (jobs d1) = [Running, Done] \<and> cursor d1 ''r'' = Some ''b'' \<and>
      map j_status (jobs d2) = [Errored, Done] \<and> cursor d2 ''r'' = Some ''b''"
proof -
  let ?j = "(demo_job (Suc 0) ''w'' ''ab'')\<lparr> j_status := Done, j_error := [], j_payload := [] \<rparr>"
  let ?p = "(example_repo ''b'')\<lparr> p_indexed := 6 \<rparr>"
  let ?d1 = "\<lparr> jobs = [demo_job 0 ''v'' ''0a'', ?j], next_id = 2, repos = [?p] \<rparr>"
  let ?d2 = "run_queued_job 7 8 demo_env (\<lambda>d. d) (demo_job 0 ''v'' ''0a'') ''v'' ?d1"
  have d1: "run_queued_job 5 6 demo_env (\<lambda>d. d) (demo_job 1 ''w'' ''ab'') ''w'' (demo_db [] [demo_job 0 ''v'' ''0a'', demo_job 1 ''w'' ''ab'']) = ?d1"
    by (simp add: demo_run complete_index_job_def update_where_def)
  have p: "get_repo ''r'' ?d1 = Inr ?p" "p_last_commit ?p = ''b''" "p_pending_commit ?p = []"
    by (simp_all add: get_repo_def example_repo_def)
  have "commit_job_order ?p [demo_commit ''0'' ''a''] = CommitBatchTooEarly" by (simp add: commit_job_order_def p)
  moreover have "\<not> has_pending_commit_job_before ''r'' 0 ?d1" by (simp add: has_pending_commit_job_before_def)
  ultimately have d2: "?d2 = fst (complete_index_job 0 ''v'' (gap_message [demo_commit ''0'' ''a''] ?p) ?d1)"
    by (simp add: run_queued_job_def order_commits_def p clear_pending_commit_def)
  have "map j_status (jobs ?d2) = [Errored, Done]"
    unfolding d2 by (simp add: complete_index_job_def update_where_def gap_message_def held_by_def demo_job_def new_job_def)
  moreover have "cursor ?d2 ''r'' = Some ''b''" unfolding d2 by (simp add: cursor_def example_repo_def)
  ultimately show ?thesis unfolding Let_def d1 by (simp add: cursor_def example_repo_def)
qed

end
