(* ===== verification/Store_Query.thy ===== *)
theory Store_Query
  imports Go_Strings
begin

text \<open>
  The query building shared by the SQL backends (\<open>internal/store/query.go\<close>) and the path markers it
  ranks by (\<open>internal/domain/markers.go\<close>): the builder, the filters, tiers and ranking of a unit
  lookup, and the escaping of LIKE patterns.

  A statement is text with holes; the hole numbered n is what the dialect prints for its n-th
  argument, \<open>?\<close> or \<open>$n\<close>. Keeping the holes apart from the text is what lets the arguments be
  counted; \<open>render\<close> gives the string the code builds.
\<close>

section \<open>Path markers\<close>

definition test_path_markers :: "string list" where
  "test_path_markers = [''/test/'', ''/tests/'', ''/testing/'', ''/testdata/'', ''/__tests__/'',
     ''/mocks/'', ''/mock/'', ''/fixtures/'', ''/vendor/'', ''/node_modules/'', ''_test.'', ''.test.'', ''.spec.'']"

definition generated_path_markers :: "string list" where
  "generated_path_markers = [''/genproto/'', ''/generated/'', ''.pb.go'', ''.pb.cc'', ''.pb.h'',
     ''_pb2.'', ''_pb2_'', ''_pb.js'', ''_pb.d.ts'', ''.proto'']"

definition marker_path :: "string \<Rightarrow> string" where
  "marker_path path = CHR ''/'' # to_lower path"

fun matches_marker_in :: "string \<Rightarrow> string list \<Rightarrow> bool" where
  "matches_marker_in p [] = False"
| "matches_marker_in p (m # ms) = (if contains p m then True else matches_marker_in p ms)"

definition matches_marker :: "string \<Rightarrow> string list \<Rightarrow> bool" where
  "matches_marker path markers = matches_marker_in (marker_path path) markers"

definition is_test_path :: "string \<Rightarrow> bool" where
  "is_test_path path = matches_marker path test_path_markers"

definition is_generated_path :: "string \<Rightarrow> bool" where
  "is_generated_path path = matches_marker path generated_path_markers"

section \<open>Statements\<close>

datatype dialect = SQLiteDialect | PostgresDialect

datatype piece = Txt string | Hole nat

datatype arg = ArgStr string | ArgInt int

type_synonym sql = "piece list"

fun placeholder :: "dialect \<Rightarrow> nat \<Rightarrow> string" where
  "placeholder SQLiteDialect n = ''?''"
| "placeholder PostgresDialect n = CHR ''$'' # itoa (int n)"

definition render :: "dialect \<Rightarrow> sql \<Rightarrow> string" where
  "render d s = concat (map (\<lambda>p. case p of Txt t \<Rightarrow> t | Hole n \<Rightarrow> placeholder d n) s)"

fun suffix_cond :: "dialect \<Rightarrow> string \<Rightarrow> sql \<Rightarrow> nat \<Rightarrow> sql" where
  "suffix_cond SQLiteDialect col ph n = [Txt (''SUBSTR('' @ col @ '', -'' @ itoa (int n) @ '') = '')] @ ph"
| "suffix_cond PostgresDialect col ph n = [Txt (''RIGHT('' @ col @ '', '' @ itoa (int n) @ '') = '')] @ ph"

record builder =
  b_conds :: "sql list"
  b_args :: "arg list"

definition new_builder :: builder where
  "new_builder = \<lparr> b_conds = [], b_args = [] \<rparr>"

definition b_next :: "arg \<Rightarrow> builder \<Rightarrow> builder \<times> sql" where
  "b_next v b = (let b' = b\<lparr> b_args := b_args b @ [v] \<rparr> in (b', [Hole (length (b_args b'))]))"

definition add_cond :: "sql \<Rightarrow> builder \<Rightarrow> builder" where
  "add_cond c b = b\<lparr> b_conds := b_conds b @ [c] \<rparr>"

definition b_eq :: "string \<Rightarrow> arg \<Rightarrow> builder \<Rightarrow> builder" where
  "b_eq col v b = (let (b, ph) = b_next v b in add_cond (Txt (col @ '' = '') # ph) b)"

fun join_sql :: "string \<Rightarrow> sql list \<Rightarrow> sql" where
  "join_sql sep [] = []"
| "join_sql sep [s] = s"
| "join_sql sep (s # ss) = s @ Txt sep # join_sql sep ss"

text \<open>\<open>anyOf\<close> builds one condition per column, left to right; \<open>cond\<close> may register an argument.\<close>

fun any_parts :: "string list \<Rightarrow> (string \<Rightarrow> builder \<Rightarrow> builder \<times> sql) \<Rightarrow> builder \<Rightarrow> builder \<times> sql list" where
  "any_parts [] cond b = (b, [])"
| "any_parts (col # cols) cond b =
     (let (b, part) = cond col b; (b, parts) = any_parts cols cond b in (b, part # parts))"

definition any_of :: "string list \<Rightarrow> (string \<Rightarrow> builder \<Rightarrow> builder \<times> sql) \<Rightarrow> builder \<Rightarrow> builder" where
  "any_of cols cond b =
     (if cols = [] then b
      else let (b, parts) = any_parts cols cond b in
        if length parts = 1 then add_cond (hd parts) b
        else add_cond (Txt ''('' # join_sql '' OR '' parts @ [Txt '')'']) b)"

definition escape_like :: "string \<Rightarrow> string" where
  "escape_like s = concat (map (\<lambda>c. if c = CHR 0x5C \<or> c = CHR ''%'' \<or> c = CHR ''_'' then [CHR 0x5C, c] else [c]) s)"

definition eq_fold :: "string list \<Rightarrow> string \<Rightarrow> builder \<Rightarrow> builder" where
  "eq_fold cols v b =
     any_of cols (\<lambda>col b. let (b, ph) = b_next (ArgStr v) b
       in (b, Txt (''LOWER('' @ col @ '') = LOWER('') # ph @ [Txt '')''])) b"

definition contains_like :: "string list \<Rightarrow> string \<Rightarrow> builder \<Rightarrow> builder" where
  "contains_like cols v b =
     (let pattern = ''%'' @ escape_like v @ ''%'' in
      any_of cols (\<lambda>col b. let (b, ph) = b_next (ArgStr pattern) b
        in (b, Txt (''LOWER('' @ col @ '') LIKE LOWER('') # ph @ [Txt ('') ESCAPE '' @ [CHR 0x27, CHR 0x5C, CHR 0x27])])) b)"

fun b_nexts :: "arg list \<Rightarrow> builder \<Rightarrow> builder \<times> sql list" where
  "b_nexts [] b = (b, [])"
| "b_nexts (v # vs) b = (let (b, ph) = b_next v b; (b, phs) = b_nexts vs b in (b, ph # phs))"

definition not_in :: "string \<Rightarrow> arg list \<Rightarrow> builder \<Rightarrow> builder" where
  "not_in col vals b =
     (if vals = [] then b
      else let (b, phs) = b_nexts vals b in add_cond (Txt (col @ '' NOT IN ('') # join_sql '','' phs @ [Txt '')'']) b)"

definition b_in :: "string \<Rightarrow> arg list \<Rightarrow> builder \<Rightarrow> builder" where
  "b_in col vals b =
     (if vals = [] then b
      else let (b, phs) = b_nexts vals b in add_cond (Txt (col @ '' IN ('') # join_sql '','' phs @ [Txt '')'']) b)"

definition rune_start :: "char \<Rightarrow> bool" where
  "rune_start c \<longleftrightarrow> byte_of c < 128 \<or> 192 \<le> byte_of c"

text \<open>\<open>utf8.RuneCountInString\<close> of a well-formed string.\<close>

definition rune_count :: "string \<Rightarrow> nat" where
  "rune_count s = length (filter rune_start s)"

definition b_suffix :: "dialect \<Rightarrow> string \<Rightarrow> string \<Rightarrow> builder \<Rightarrow> builder" where
  "b_suffix d col suffix b =
     (if suffix = [] then b
      else let (b, ph) = b_next (ArgStr suffix) b in add_cond (suffix_cond d col ph (rune_count suffix)) b)"

definition b_lte :: "string \<Rightarrow> arg \<Rightarrow> builder \<Rightarrow> builder" where
  "b_lte col v b = (let (b, ph) = b_next v b in add_cond (Txt (col @ '' <= '') # ph) b)"

definition b_gte :: "string \<Rightarrow> arg \<Rightarrow> builder \<Rightarrow> builder" where
  "b_gte col v b = (let (b, ph) = b_next v b in add_cond (Txt (col @ '' >= '') # ph) b)"

definition b_raw :: "string \<Rightarrow> builder \<Rightarrow> builder" where
  "b_raw cond b = add_cond [Txt cond] b"

definition b_limit :: "int \<Rightarrow> builder \<Rightarrow> builder \<times> sql" where
  "b_limit n b = (let (b, ph) = b_next (ArgInt n) b in (b, Txt '' LIMIT '' # ph))"

definition b_where :: "builder \<Rightarrow> sql \<times> arg list" where
  "b_where b = (if b_conds b = [] then ([], b_args b) else (Txt '' AND '' # join_sql '' AND '' (b_conds b), b_args b))"

section \<open>Unit and edge filters\<close>

text \<open>Unit ids are the integers behind their decimal spelling; 0 stands for the empty id.\<close>

record query_opts =
  o_repo :: string
  o_repos :: "string list"
  o_file :: string
  o_language :: string
  o_kind :: string
  o_kinds :: "string list"
  o_name :: string
  o_qualified :: string
  o_qualified_suffix :: string
  o_name_or_qualified :: string
  o_fallback :: bool
  o_src :: nat
  o_dst :: nat
  o_unresolved :: bool
  o_line :: int
  o_limit :: int

datatype unit_tier = TierExact | TierSubstring | TierHandWritten | TierRemainder

fun tier_substring :: "unit_tier \<Rightarrow> bool" where
  "tier_substring t = (t = TierSubstring \<or> t = TierRemainder)"

definition unit_columns :: string where
  "unit_columns = ''id, repo_id, file_path, language, kind, name, qualified, parent_id, start_line, end_line, start_byte, end_byte, signature, doc, hash, meta''"

definition edge_columns :: string where
  "edge_columns = ''id, repo_id, src_id, dst_id, kind, dst_name, file_path, line, dst_repo_id, confidence, meta''"

definition edge_order :: string where
  "edge_order = '' ORDER BY file_path, line, kind, dst_name, meta, repo_id, id''"

definition unit_tie_break :: string where
  "unit_tie_break = ''repo_id, file_path, start_line, start_byte, kind, name, qualified, id''"

fun replace_byte :: "char \<Rightarrow> string \<Rightarrow> string \<Rightarrow> string" where
  "replace_byte c r [] = []"
| "replace_byte c r (x # xs) = (if x = c then r else [x]) @ replace_byte c r xs"

definition quote_literal :: "string \<Rightarrow> string" where
  "quote_literal s = CHR 0x27 # replace_byte (CHR 0x27) [CHR 0x27, CHR 0x27] s @ [CHR 0x27]"

definition build_penalty_path :: string where
  "build_penalty_path = join_with '' OR '' (map (\<lambda>m.
     ''LOWER('' @ [CHR 0x27] @ ''/'' @ [CHR 0x27] @ '' || file_path) LIKE '' @ quote_literal (''%'' @ escape_like m @ ''%'')
       @ '' ESCAPE '' @ [CHR 0x27, CHR 0x5C, CHR 0x27])
     (generated_path_markers @ test_path_markers))"

definition penalty_rank :: string where
  "penalty_rank = ''CASE WHEN '' @ build_penalty_path @ '' THEN 1 ELSE 0 END''"

definition unit_order :: string where
  "unit_order = '' ORDER BY '' @ penalty_rank @ '', LENGTH(name), '' @ unit_tie_break"

definition unit_term :: "unit_tier \<Rightarrow> string list \<Rightarrow> string \<Rightarrow> builder \<Rightarrow> builder" where
  "unit_term tier cols v b = (if tier_substring tier then contains_like cols v b else eq_fold cols v b)"

definition unit_terms :: "query_opts \<Rightarrow> unit_tier \<Rightarrow> builder \<Rightarrow> builder" where
  "unit_terms opts tier b =
     (let b = (if o_name opts \<noteq> [] then unit_term tier [''name''] (o_name opts) b else b);
          b = (if o_qualified opts \<noteq> [] then unit_term tier [''qualified''] (o_qualified opts) b else b)
      in if o_name_or_qualified opts \<noteq> [] then unit_term tier [''name'', ''qualified''] (o_name_or_qualified opts) b else b)"

definition unit_filters :: "dialect \<Rightarrow> query_opts \<Rightarrow> unit_tier \<Rightarrow> builder \<Rightarrow> builder" where
  "unit_filters d opts tier b =
     (let b = (if o_repo opts \<noteq> [] then b_eq ''repo_id'' (ArgStr (o_repo opts)) b else b);
          b = (if 0 < length (o_repos opts) then b_in ''repo_id'' (map ArgStr (o_repos opts)) b else b);
          b = (if o_file opts \<noteq> [] then b_eq ''file_path'' (ArgStr (o_file opts)) b else b);
          b = (if o_language opts \<noteq> [] then b_eq ''language'' (ArgStr (o_language opts)) b else b);
          b = (if o_kind opts \<noteq> [] then b_eq ''kind'' (ArgStr (o_kind opts)) b else b);
          b = (if 0 < length (o_kinds opts) then b_in ''kind'' (map ArgStr (o_kinds opts)) b else b);
          b = unit_terms opts tier b;
          b = (if o_qualified_suffix opts \<noteq> [] then b_suffix d ''qualified'' (o_qualified_suffix opts) b else b);
          b = (if o_line opts > 0 then b_gte ''end_line'' (ArgInt (o_line opts)) (b_lte ''start_line'' (ArgInt (o_line opts)) b) else b)
      in if tier = TierHandWritten then b_raw (''NOT ('' @ build_penalty_path @ '')'') b else b)"

definition unit_term_conds :: "query_opts \<Rightarrow> unit_tier \<Rightarrow> builder \<Rightarrow> builder \<times> sql list" where
  "unit_term_conds opts tier b =
     (let start = length (b_conds b); b' = unit_terms opts tier b
      in (b'\<lparr> b_conds := take start (b_conds b') \<rparr>, drop start (b_conds b')))"

definition unit_order_by :: "query_opts \<Rightarrow> unit_tier \<Rightarrow> builder \<Rightarrow> builder \<times> sql" where
  "unit_order_by opts tier b =
     (if tier \<noteq> TierRemainder then (b, [Txt unit_order])
      else let (b, exact) = unit_term_conds opts TierExact b in
        if length exact = 0 then (b, [Txt unit_order])
        else (b, Txt ('' ORDER BY '' @ penalty_rank @ '', CASE WHEN '') # join_sql '' AND '' exact
                  @ [Txt ('' THEN 0 ELSE 1 END, LENGTH(name), '' @ unit_tie_break)]))"

definition unit_query :: "dialect \<Rightarrow> query_opts \<Rightarrow> unit_tier \<Rightarrow> int \<Rightarrow> nat list \<Rightarrow> sql \<times> arg list" where
  "unit_query d opts tier limit exclude =
     (let b = unit_filters d opts tier new_builder;
          b = not_in ''id'' (map (\<lambda>i. ArgInt (int i)) exclude) b;
          (b, ord) = unit_order_by opts tier b;
          (b, lim) = (if limit > 0 then b_limit limit b else (b, []));
          (w, args) = b_where b
      in (Txt (''SELECT '' @ unit_columns @ '' FROM ast_units WHERE 1=1'') # w @ ord @ lim, args))"

definition has_unit_term :: "query_opts \<Rightarrow> bool" where
  "has_unit_term opts \<longleftrightarrow> o_name opts \<noteq> [] \<or> o_qualified opts \<noteq> [] \<or> o_name_or_qualified opts \<noteq> []"

text \<open>
  A lookup runs one or two statements. \<open>scan\<close> runs a composed statement, and \<open>row_id\<close> is the id of a
  row it returned.
\<close>

definition query_units :: "dialect \<Rightarrow> query_opts \<Rightarrow> ('u \<Rightarrow> nat) \<Rightarrow> (sql \<times> arg list \<Rightarrow> 'e + 'u list) \<Rightarrow> 'e + 'u list" where
  "query_units d opts row_id scan =
     (let widen = (o_fallback opts \<and> o_limit opts > 0 \<and> has_unit_term opts);
          first = (if widen then TierHandWritten else TierExact);
          second = (if widen then TierRemainder else TierSubstring)
      in case scan (unit_query d opts first (o_limit opts) []) of
           Inl err \<Rightarrow> Inl err
         | Inr units \<Rightarrow>
             if \<not> widen \<or> int (length units) \<ge> o_limit opts then Inr units
             else case scan (unit_query d opts second (o_limit opts - int (length units)) (map row_id units)) of
                    Inl err \<Rightarrow> Inl err
                  | Inr others \<Rightarrow> Inr (units @ others))"

definition edge_filters :: "query_opts \<Rightarrow> builder \<Rightarrow> builder" where
  "edge_filters opts b =
     (let b = (if o_repo opts \<noteq> [] then b_eq ''repo_id'' (ArgStr (o_repo opts)) b else b);
          b = (if o_file opts \<noteq> [] then b_eq ''file_path'' (ArgStr (o_file opts)) b else b);
          b = (if o_kind opts \<noteq> [] then b_eq ''kind'' (ArgStr (o_kind opts)) b else b);
          b = (if 0 < length (o_kinds opts) then b_in ''kind'' (map ArgStr (o_kinds opts)) b else b);
          b = (if o_name opts \<noteq> [] then b_eq ''dst_name'' (ArgStr (o_name opts)) b else b);
          b = (if o_src opts \<noteq> 0 then b_eq ''src_id'' (ArgInt (int (o_src opts))) b else b);
          b = (if o_dst opts \<noteq> 0 then b_eq ''dst_id'' (ArgInt (int (o_dst opts))) b else b)
      in if o_unresolved opts then b_raw ''dst_id = 0'' b else b)"

section \<open>Holes and arguments\<close>

definition holes :: "sql \<Rightarrow> nat list" where
  "holes s = List.map_filter (\<lambda>p. case p of Hole n \<Rightarrow> Some n | Txt _ \<Rightarrow> None) s"

text \<open>
  The invariant of the builder: read in order, its conditions have one hole for every argument, and
  the n-th hole is the n-th argument's.
\<close>

definition numbered :: "builder \<Rightarrow> bool" where
  "numbered b \<longleftrightarrow> concat (map holes (b_conds b)) = [1..<Suc (length (b_args b))]"

lemma holes_simps [simp]:
  "holes [] = []" "holes (Txt t # s) = holes s" "holes (Hole n # s) = n # holes s" "holes (s @ s') = holes s @ holes s'"
  by (simp_all add: holes_def List.map_filter_def)

lemma holes_join [simp]: "holes (join_sql sep ss) = concat (map holes ss)"
  by (induction sep ss rule: join_sql.induct) simp_all

lemma numbered_add:
  "numbered (add_cond c b) \<longleftrightarrow> concat (map holes (b_conds b)) @ holes c = [1..<Suc (length (b_args b))]"
  by (simp add: numbered_def add_cond_def)

text \<open>Registering arguments leaves the conditions alone and hands out the next numbers.\<close>

lemma b_next_eq: "b_next v b = (b\<lparr> b_args := b_args b @ [v] \<rparr>, [Hole (Suc (length (b_args b)))])"
  by (simp add: b_next_def Let_def)

definition registers :: "builder \<Rightarrow> builder \<Rightarrow> sql list \<Rightarrow> bool" where
  "registers b b' ss \<longleftrightarrow> b_conds b' = b_conds b \<and> length (b_args b) \<le> length (b_args b') \<and>
     concat (map holes ss) = [Suc (length (b_args b))..<Suc (length (b_args b'))]"

lemma upt_join: "i \<le> j \<Longrightarrow> j \<le> k \<Longrightarrow> [i..<j] @ [j..<k] = [i..<k]"
  using upt_add_eq_append [of i j "k - j"] by simp

lemma registers_next: "b_next v b = (b', ph) \<Longrightarrow> registers b b' [ph]"
  by (auto simp: b_next_eq registers_def)

lemma registers_nil: "registers b b []"
  by (simp add: registers_def)

lemma registers_append: "registers b b' ss \<Longrightarrow> registers b' b'' ts \<Longrightarrow> registers b b'' (ss @ ts)"
  using upt_join [of "Suc (length (b_args b))" "Suc (length (b_args b'))" "Suc (length (b_args b''))"]
  by (simp del: upt_Suc add: registers_def)

lemma registers_nexts: "b_nexts vs b = (b', phs) \<Longrightarrow> registers b b' phs"
proof (induction vs arbitrary: b phs)
  case Nil
  then show ?case by (simp add: registers_nil)
next
  case (Cons v vs)
  then show ?case
    by (auto split: prod.splits simp: Let_def dest!: registers_next Cons.IH intro: registers_append [where ss = "[x]" for x, simplified])
qed

lemma registers_parts:
  assumes "\<And>col b b' s. cond col b = (b', s) \<Longrightarrow> registers b b' [s]"
  shows "any_parts cols cond b = (b', parts) \<Longrightarrow> registers b b' parts"
proof (induction cols arbitrary: b parts)
  case Nil
  then show ?case by (simp add: registers_nil)
next
  case (Cons c cs)
  then show ?case
    by (auto split: prod.splits simp: Let_def dest!: assms Cons.IH intro: registers_append [where ss = "[x]" for x, simplified])
qed

text \<open>Every method adds conditions whose holes are those of the arguments it registered.\<close>

definition extends :: "builder \<Rightarrow> builder \<Rightarrow> bool" where
  "extends b b' \<longleftrightarrow> take (length (b_conds b)) (b_conds b') = b_conds b \<and> length (b_args b) \<le> length (b_args b') \<and>
     concat (map holes (drop (length (b_conds b)) (b_conds b'))) = [Suc (length (b_args b))..<Suc (length (b_args b'))]"

lemma extends_refl [simp]: "extends b b"
  by (simp add: extends_def)

lemma extends_trans:
  assumes "extends b b'" and "extends b' b''"
  shows "extends b b''"
proof -
  obtain xs where xs: "b_conds b' = b_conds b @ xs" using assms(1) unfolding extends_def by (metis append_take_drop_id)
  obtain ys where ys: "b_conds b'' = b_conds b' @ ys" using assms(2) unfolding extends_def by (metis append_take_drop_id)
  show ?thesis
    using assms upt_join [of "Suc (length (b_args b))" "Suc (length (b_args b'))" "Suc (length (b_args b''))"]
    by (simp del: upt_Suc add: extends_def xs ys)
qed

lemma extends_add: "registers b b' ss \<Longrightarrow> holes c = concat (map holes ss) \<Longrightarrow> extends b (add_cond c b')"
  by (simp del: upt_Suc add: extends_def registers_def add_cond_def)

lemma extends_numbered: "extends new_builder b \<Longrightarrow> numbered b"
  by (simp del: upt_Suc add: extends_def numbered_def new_builder_def)

lemma extends_eq: "extends b (b_eq col v b)"
  by (auto simp: b_eq_def b_next_eq Let_def intro!: extends_add [OF registers_next [OF b_next_eq]])

lemma extends_lte: "extends b (b_lte col v b)"
  by (auto simp: b_lte_def b_next_eq Let_def intro!: extends_add [OF registers_next [OF b_next_eq]])

lemma extends_gte: "extends b (b_gte col v b)"
  by (auto simp: b_gte_def b_next_eq Let_def intro!: extends_add [OF registers_next [OF b_next_eq]])

lemma extends_raw: "extends b (b_raw c b)"
  by (simp add: b_raw_def extends_add [OF registers_nil])

lemma extends_suffix: "extends b (b_suffix d col v b)"
  by (cases d) (auto simp: b_suffix_def b_next_eq Let_def intro!: extends_add [OF registers_next [OF b_next_eq]])

lemma extends_in: "extends b (b_in col vals b)"
  by (auto simp: b_in_def Let_def split: prod.splits intro!: extends_add [OF registers_nexts])

lemma extends_not_in: "extends b (not_in col vals b)"
  by (auto simp: not_in_def Let_def split: prod.splits intro!: extends_add [OF registers_nexts])

lemma extends_any_of:
  assumes "\<And>col b b' s. cond col b = (b', s) \<Longrightarrow> registers b b' [s]"
  shows "extends b (any_of cols cond b)"
proof -
  obtain b' parts where parts: "any_parts cols cond b = (b', parts)" by (cases "any_parts cols cond b")
  have "holes (hd parts) = concat (map holes parts)" if "length parts = 1" using that by (cases parts) auto
  then show ?thesis using registers_parts [OF assms parts]
    by (auto simp: any_of_def parts intro!: extends_add [where ss = parts])
qed

lemma extends_eq_fold: "extends b (eq_fold cols v b)"
  unfolding eq_fold_def by (rule extends_any_of) (auto simp: b_next_eq registers_def)

lemma extends_contains: "extends b (contains_like cols v b)"
  unfolding contains_like_def Let_def by (rule extends_any_of) (auto simp: b_next_eq registers_def)

lemma extends_unit_term: "extends b (unit_term tier cols v b)"
  by (simp add: unit_term_def extends_eq_fold extends_contains)

lemmas extends_ops = extends_eq extends_lte extends_gte extends_raw extends_suffix extends_in extends_not_in extends_unit_term

text \<open>A step that is taken or not extends the builder either way.\<close>

lemma extends_if: "extends b b' \<Longrightarrow> (\<And>x. extends x (f x)) \<Longrightarrow> extends b (if c then f b' else b')"
  using extends_trans by auto

lemma extends_terms: "extends b (unit_terms opts tier b)"
  unfolding unit_terms_def Let_def by (intro extends_if extends_ops extends_refl)

lemma extends_terms_after: "extends b b' \<Longrightarrow> extends b (unit_terms opts tier b')"
  using extends_trans extends_terms by blast

lemma extends_lte_gte: "extends b (b_gte c v (b_lte c' v' b))"
  using extends_trans [OF extends_lte extends_gte] .

lemma extends_unit_filters: "extends b (unit_filters d opts tier b)"
  unfolding unit_filters_def Let_def by (intro extends_if extends_lte_gte extends_terms_after extends_ops extends_refl)

lemma order_by_holes:
  assumes "unit_order_by opts tier b = (b', ord)"
  shows "b_conds b' = b_conds b \<and> length (b_args b) \<le> length (b_args b') \<and> holes ord = [Suc (length (b_args b))..<Suc (length (b_args b'))]"
proof (cases "tier = TierRemainder")
  case False
  then show ?thesis using assms by (auto simp: unit_order_by_def)
next
  case True
  let ?t = "unit_terms opts TierExact b"
  let ?new = "drop (length (b_conds b)) (b_conds ?t)"
  have e: "take (length (b_conds b)) (b_conds ?t) = b_conds b" "length (b_args b) \<le> length (b_args ?t)"
    "concat (map holes ?new) = [Suc (length (b_args b))..<Suc (length (b_args ?t))]"
    using extends_terms [of b opts TierExact] by (simp_all del: upt_Suc add: extends_def)
  have b': "b' = ?t\<lparr> b_conds := b_conds b \<rparr>"
    using assms True e(1) by (auto simp: unit_order_by_def unit_term_conds_def Let_def split: if_splits)
  show ?thesis
  proof (cases "?new = []")
    case nil: True
    then have "ord = [Txt unit_order]" using assms True by (simp add: unit_order_by_def unit_term_conds_def Let_def)
    moreover have "[] = [Suc (length (b_args b))..<Suc (length (b_args ?t))]" using e(3) unfolding nil by (simp del: upt_Suc)
    ultimately show ?thesis using e(2) unfolding b' by (simp del: upt_Suc)
  next
    case False
    then have "holes ord = concat (map holes ?new)"
      using assms True by (auto simp: unit_order_by_def unit_term_conds_def Let_def)
    then show ?thesis using e unfolding b' by (simp del: upt_Suc)
  qed
qed

text \<open>
  C25: every statement the unit lookup composes, in either dialect, binds exactly the arguments it
  carries: read from left to right the placeholders of its text are those of the first, the second,
  up to the last argument, with the ranking's arguments between those of the filters and the limit.
\<close>

theorem statement_binds_its_arguments:
  "holes (fst (unit_query d opts tier limit exclude)) = [1..<Suc (length (snd (unit_query d opts tier limit exclude)))] \<and>
   holes (fst (b_where (edge_filters opts new_builder))) = [1..<Suc (length (snd (b_where (edge_filters opts new_builder))))]"
proof -
  have where_holes: "holes (fst (b_where b)) = concat (map holes (b_conds b))" "snd (b_where b) = b_args b" for b
    by (simp_all add: b_where_def)
  define b where "b = not_in ''id'' (map (\<lambda>i. ArgInt (int i)) exclude) (unit_filters d opts tier new_builder)"
  obtain b1 ord where ord: "unit_order_by opts tier b = (b1, ord)" by (cases "unit_order_by opts tier b")
  obtain b2 lim where lim: "(if limit > 0 then b_limit limit b1 else (b1, [])) = (b2, lim)" by (cases "if limit > 0 then b_limit limit b1 else (b1, [])")
  have "numbered b" unfolding b_def using extends_numbered extends_trans [OF extends_unit_filters extends_not_in] by blast
  note o = order_by_holes [OF ord]
  have l: "b_conds b2 = b_conds b1" "length (b_args b1) \<le> length (b_args b2)" "holes lim = [Suc (length (b_args b1))..<Suc (length (b_args b2))]"
    using lim by (auto simp: b_limit_def b_next_eq Let_def split: if_splits)
  have "fst (unit_query d opts tier limit exclude) = Txt (''SELECT '' @ unit_columns @ '' FROM ast_units WHERE 1=1'') # fst (b_where b2) @ ord @ lim"
    "snd (unit_query d opts tier limit exclude) = b_args b2"
    using where_holes(2) [of b2]
    by (simp_all only: unit_query_def Let_def b_def [symmetric] ord prod.case lim case_prod_beta fst_conv snd_conv)
  then have "holes (fst (unit_query d opts tier limit exclude)) =
      [1..<Suc (length (b_args b))] @ [Suc (length (b_args b))..<Suc (length (b_args b1))] @ [Suc (length (b_args b1))..<Suc (length (b_args b2))]"
    using \<open>numbered b\<close> o l where_holes(1) [of b2] by (simp del: upt_Suc add: numbered_def)
  moreover have "[1..<Suc (length (b_args b))] @ [Suc (length (b_args b))..<Suc (length (b_args b1))] @ [Suc (length (b_args b1))..<Suc (length (b_args b2))]
      = [1..<Suc (length (b_args b2))]"
    using o l(2) by (simp del: upt_Suc add: upt_join)
  moreover have "extends new_builder (edge_filters opts new_builder)"
    unfolding edge_filters_def Let_def by (intro extends_if extends_ops extends_refl)
  ultimately show ?thesis
    using extends_numbered where_holes \<open>snd (unit_query _ _ _ _ _) = _\<close> by (simp del: upt_Suc add: numbered_def)
qed

section \<open>LIKE patterns\<close>

text \<open>
  The meaning of \<open>s LIKE pattern ESCAPE\<close> backslash: \<open>%\<close> stands for any string, \<open>_\<close> for one
  character, and an escaped character for itself. Both operands are lower case where it is used.
\<close>

fun like :: "string \<Rightarrow> string \<Rightarrow> bool" where
  "like [] s = (s = [])"
| "like (p # ps) s =
     (if p = CHR 0x5C then
        (case ps of [] \<Rightarrow> False | q # qs \<Rightarrow> (case s of [] \<Rightarrow> False | c # cs \<Rightarrow> c = q \<and> like qs cs))
      else if p = CHR ''%'' then
        like ps s \<or> (case s of [] \<Rightarrow> False | c # cs \<Rightarrow> like (p # ps) cs)
      else (case s of [] \<Rightarrow> False | c # cs \<Rightarrow> (p = CHR ''_'' \<or> c = p) \<and> like ps cs))"

declare like.simps(2) [simp del]

lemma like_percent: "like (CHR ''%'' # ps) s \<longleftrightarrow> (\<exists>a b. s = a @ b \<and> like ps b)"
proof (induction s)
  case Nil
  then show ?case by (simp add: like.simps(2) [of _ _ "[]"])
next
  case (Cons c cs)
  have "like (CHR ''%'' # ps) (c # cs) \<longleftrightarrow> like ps (c # cs) \<or> like (CHR ''%'' # ps) cs"
    by (subst like.simps(2)) simp
  also have "\<dots> \<longleftrightarrow> (\<exists>a b. c # cs = a @ b \<and> like ps b)"
    unfolding Cons.IH by (auto simp: Cons_eq_append_conv)
  finally show ?case .
qed

lemma like_escaped:
  "like (escape_like v @ ps) s \<longleftrightarrow> (\<exists>t. s = v @ t \<and> like ps t)"
proof (induction v arbitrary: s)
  case Nil
  then show ?case by (simp add: escape_like_def)
next
  case (Cons x v)
  have split: "escape_like (x # v) @ ps =
      (if x = CHR 0x5C \<or> x = CHR ''%'' \<or> x = CHR ''_'' then CHR 0x5C # x # escape_like v @ ps else x # escape_like v @ ps)"
    by (simp add: escape_like_def)
  have "like (escape_like (x # v) @ ps) s \<longleftrightarrow> (case s of [] \<Rightarrow> False | c # cs \<Rightarrow> c = x \<and> like (escape_like v @ ps) cs)"
  proof (cases "x = CHR 0x5C \<or> x = CHR ''%'' \<or> x = CHR ''_''")
    case True
    then show ?thesis unfolding split by (simp add: like.simps(2) [of "CHR 0x5C"])
  next
    case False
    then show ?thesis unfolding split by (simp add: like.simps(2) [of x] split: list.splits)
  qed
  then show ?case unfolding Cons.IH by (auto split: list.splits)
qed

lemma like_contains: "like (''%'' @ escape_like v @ ''%'') s \<longleftrightarrow> contains s v"
proof -
  have "like ''%'' t" for t by (simp add: like_percent)
  then show ?thesis by (auto simp: like_percent like_escaped contains_iff)
qed

lemma lower_byte_fixed:
  assumes "\<not> is_lower p" and "\<not> is_upper p"
  shows "lower_byte c = p \<longleftrightarrow> c = p"
proof (cases "is_upper c")
  case True
  then have "is_lower (lower_byte c)" by (auto simp: lower_byte_def is_upper_def is_lower_def byte_of_def)
  then show ?thesis using assms True by auto
next
  case False
  then show ?thesis by simp
qed

lemma to_lower_escape: "to_lower (escape_like v) = escape_like (to_lower v)"
proof -
  have "lower_byte c = CHR 0x5C \<longleftrightarrow> c = CHR 0x5C" "lower_byte c = CHR ''%'' \<longleftrightarrow> c = CHR ''%''" for c
    by (rule lower_byte_fixed; simp add: is_lower_def is_upper_def byte_of_def)+
  moreover have "lower_byte (CHR 0x5C) = CHR 0x5C" "lower_byte CHR ''%'' = CHR ''%''" "lower_byte CHR ''_'' = CHR ''_''"
    by (simp_all add: lower_byte_def is_upper_def byte_of_def)
  moreover have "lower_byte c = CHR ''_'' \<longleftrightarrow> c = CHR ''_''" for c
    by (rule lower_byte_fixed; simp add: is_lower_def is_upper_def byte_of_def)
  ultimately show ?thesis by (induction v) (auto simp: escape_like_def to_lower_def)
qed

lemma matches_marker_iff: "matches_marker_in p ms \<longleftrightarrow> list_ex (contains p) ms"
  by (induction ms) auto

text \<open>
  a search term is matched literally: the pattern built from it matches a name exactly when the
  name contains the term up to case, whatever wildcards the term holds. The path penalty written into
  the statements therefore holds for exactly the paths the Go predicates call generated or test code.
\<close>

theorem like_pattern_is_literal:
  "(like (to_lower (''%'' @ escape_like v @ ''%'')) (to_lower s) \<longleftrightarrow> contains (to_lower s) (to_lower v)) \<and>
   (list_ex (\<lambda>m. like (''%'' @ escape_like m @ ''%'') (to_lower (''/'' @ path))) (generated_path_markers @ test_path_markers)
      \<longleftrightarrow> is_generated_path path \<or> is_test_path path)"
proof -
  have low: "to_lower (''%'' @ x @ ''%'') = ''%'' @ to_lower x @ ''%''" "to_lower (''/'' @ path) = marker_path path" for x
    by (simp_all add: to_lower_def marker_path_def lower_byte_def is_upper_def byte_of_def)
  show ?thesis
    unfolding low to_lower_escape like_contains
    by (simp add: is_generated_path_def is_test_path_def matches_marker_def matches_marker_iff)
qed

section \<open>The page of a lookup\<close>

text \<open>What a statement promises: at most the rows asked for, each once, and none of those excluded.\<close>

definition honest_scan :: "dialect \<Rightarrow> ('u \<Rightarrow> nat) \<Rightarrow> (sql \<times> arg list \<Rightarrow> 'e + 'u list) \<Rightarrow> bool" where
  "honest_scan d row_id scan \<longleftrightarrow> (\<forall>opts tier limit exclude units. scan (unit_query d opts tier limit exclude) = Inr units \<longrightarrow>
     (limit > 0 \<longrightarrow> int (length units) \<le> limit) \<and> distinct (map row_id units) \<and> set (map row_id units) \<inter> set exclude = {})"

lemma query_units_page:
  assumes "honest_scan d row_id scan" and "query_units d opts row_id scan = Inr units"
  shows "distinct (map row_id units) \<and> (o_limit opts > 0 \<longrightarrow> int (length units) \<le> o_limit opts)"
proof -
  let ?widen = "o_fallback opts \<and> o_limit opts > 0 \<and> has_unit_term opts"
  obtain page where page: "scan (unit_query d opts (if ?widen then TierHandWritten else TierExact) (o_limit opts) []) = Inr page"
    using assms(2) by (auto simp: query_units_def Let_def split: sum.splits)
  have p: "distinct (map row_id page)" "o_limit opts > 0 \<longrightarrow> int (length page) \<le> o_limit opts"
    using assms(1) page unfolding honest_scan_def by blast+
  show ?thesis
  proof (cases "\<not> ?widen \<or> int (length page) \<ge> o_limit opts")
    case True
    then show ?thesis using assms(2) page p by (auto simp: query_units_def Let_def split: if_splits)
  next
    case False
    then obtain rest where rest: "scan (unit_query d opts TierRemainder (o_limit opts - int (length page)) (map row_id page)) = Inr rest"
      and units: "units = page @ rest"
      using assms(2) page by (auto simp: query_units_def Let_def split: if_splits sum.splits)
    have "o_limit opts - int (length page) > 0" using False by simp
    then have "int (length rest) \<le> o_limit opts - int (length page)" "distinct (map row_id rest)"
      "set (map row_id rest) \<inter> set (map row_id page) = {}"
      using assms(1) rest unfolding honest_scan_def by blast+
    then show ?thesis using p unfolding units by auto
  qed
qed

end
