(* ===== verification/Graph_Store.thy ===== *)
theory Graph_Store
  imports Store_Query Go_Float Job_Store "HOL-Library.Product_Lexorder"
begin

text \<open>
  The unit and edge tables of the SQLite store (\<open>internal/store/sqlite/edges.go\<close>,
  \<open>internal/store/sqlite/ast_units.go\<close>): one definition per method, each the effect of its statements
  on the rows. Ids are the integers behind their decimal spelling and 0 is the empty id, as
  \<open>IntOrZero\<close> reads it.

  Statements that cannot fail for a reason of their own are total; the writes of edge resolutions, whose
  failures the linker accounts for, take the faults of the database as an argument.
\<close>

section \<open>Rows\<close>

record ast_unit =
  u_id :: nat
  u_repo :: string
  u_file :: string
  u_language :: string
  u_kind :: string
  u_name :: string
  u_qualified :: string
  u_parent :: nat
  u_start_line :: int
  u_end_line :: int
  u_start_byte :: int
  u_end_byte :: int
  u_signature :: string
  u_doc :: string
  u_hash :: string
  u_meta :: string

record edge =
  e_id :: nat
  e_repo :: string
  e_src :: nat
  e_dst :: nat
  e_kind :: string
  e_dst_name :: string
  e_file :: string
  e_line :: int
  e_dst_repo :: string
  e_conf :: rat
  e_meta :: string

record gdb =
  g_units :: "ast_unit list"
  g_edges :: "edge list"
  g_next_unit :: nat
  g_next_edge :: nat

section \<open>Reading\<close>

definition edge_selected :: "query_opts \<Rightarrow> edge \<Rightarrow> bool" where
  "edge_selected opts e \<longleftrightarrow>
     (o_repo opts \<noteq> [] \<longrightarrow> e_repo e = o_repo opts) \<and> (o_file opts \<noteq> [] \<longrightarrow> e_file e = o_file opts) \<and>
     (o_kind opts \<noteq> [] \<longrightarrow> e_kind e = o_kind opts) \<and> (o_kinds opts \<noteq> [] \<longrightarrow> e_kind e \<in> set (o_kinds opts)) \<and>
     (o_name opts \<noteq> [] \<longrightarrow> e_dst_name e = o_name opts) \<and> (o_src opts \<noteq> 0 \<longrightarrow> e_src e = o_src opts) \<and>
     (o_dst opts \<noteq> 0 \<longrightarrow> e_dst e = o_dst opts) \<and> (o_unresolved opts \<longrightarrow> e_dst e = 0)"

definition edge_rank :: "edge \<Rightarrow> string \<times> int \<times> string \<times> string \<times> string \<times> string \<times> nat" where
  "edge_rank e = (e_file e, e_line e, e_kind e, e_dst_name e, e_meta e, e_repo e, e_id e)"

definition limited :: "int \<Rightarrow> 'a list \<Rightarrow> 'a list" where
  "limited n xs = (if n > 0 then take (nat n) xs else xs)"

definition get_edges :: "query_opts \<Rightarrow> gdb \<Rightarrow> edge list" where
  "get_edges opts d = limited (o_limit opts) (sort_key edge_rank (filter (edge_selected opts) (g_edges d)))"

definition any_opts :: query_opts where
  "any_opts = \<lparr> o_repo = [], o_repos = [], o_file = [], o_language = [], o_kind = [], o_kinds = [], o_name = [], o_qualified = [],
     o_qualified_suffix = [], o_name_or_qualified = [], o_fallback = False, o_src = 0, o_dst = 0, o_unresolved = False,
     o_line = 0, o_limit = 0 \<rparr>"

definition get_edges_by_source :: "string \<Rightarrow> nat \<Rightarrow> string \<Rightarrow> gdb \<Rightarrow> edge list" where
  "get_edges_by_source repo src kind d = get_edges (any_opts\<lparr> o_repo := repo, o_src := src, o_kind := kind \<rparr>) d"

definition get_unresolved_edges :: "string \<Rightarrow> string \<Rightarrow> gdb \<Rightarrow> edge list" where
  "get_unresolved_edges repo kind d = get_edges (any_opts\<lparr> o_repo := repo, o_kind := kind, o_unresolved := True \<rparr>) d"

definition get_edges_by_destination :: "string \<Rightarrow> nat \<Rightarrow> string \<Rightarrow> gdb \<Rightarrow> edge list" where
  "get_edges_by_destination repo dst kind d = get_edges (any_opts\<lparr> o_repo := repo, o_dst := dst, o_kind := kind \<rparr>) d"

definition get_edge :: "nat \<Rightarrow> gdb \<Rightarrow> store_error + edge" where
  "get_edge i d = (case List.find (\<lambda>e. e_id e = i) (g_edges d) of None \<Rightarrow> Inl ErrNotFound | Some e \<Rightarrow> Inr e)"

text \<open>The name terms of a lookup: as written up to case, or contained.\<close>

definition term_matches :: "unit_tier \<Rightarrow> string list \<Rightarrow> string \<Rightarrow> bool" where
  "term_matches tier cols v \<longleftrightarrow>
     v = [] \<or> list_ex (\<lambda>c. if tier_substring tier then contains (to_lower c) (to_lower v) else to_lower c = to_lower v) cols"

definition terms_match :: "query_opts \<Rightarrow> unit_tier \<Rightarrow> ast_unit \<Rightarrow> bool" where
  "terms_match opts tier u \<longleftrightarrow> term_matches tier [u_name u] (o_name opts) \<and> term_matches tier [u_qualified u] (o_qualified opts) \<and>
     term_matches tier [u_name u, u_qualified u] (o_name_or_qualified opts)"

definition penalized :: "ast_unit \<Rightarrow> bool" where
  "penalized u \<longleftrightarrow> is_generated_path (u_file u) \<or> is_test_path (u_file u)"

definition unit_selected :: "query_opts \<Rightarrow> unit_tier \<Rightarrow> ast_unit \<Rightarrow> bool" where
  "unit_selected opts tier u \<longleftrightarrow>
     (o_repo opts \<noteq> [] \<longrightarrow> u_repo u = o_repo opts) \<and> (o_repos opts \<noteq> [] \<longrightarrow> u_repo u \<in> set (o_repos opts)) \<and>
     (o_file opts \<noteq> [] \<longrightarrow> u_file u = o_file opts) \<and> (o_language opts \<noteq> [] \<longrightarrow> u_language u = o_language opts) \<and>
     (o_kind opts \<noteq> [] \<longrightarrow> u_kind u = o_kind opts) \<and> (o_kinds opts \<noteq> [] \<longrightarrow> u_kind u \<in> set (o_kinds opts)) \<and>
     terms_match opts tier u \<and> (o_qualified_suffix opts \<noteq> [] \<longrightarrow> has_suffix (u_qualified u) (o_qualified_suffix opts)) \<and>
     (o_line opts > 0 \<longrightarrow> u_start_line u \<le> o_line opts \<and> o_line opts \<le> u_end_line u) \<and>
     (tier = TierHandWritten \<longrightarrow> \<not> penalized u)"

definition unit_rank :: "query_opts \<Rightarrow> unit_tier \<Rightarrow> ast_unit \<Rightarrow>
    nat \<times> nat \<times> nat \<times> string \<times> string \<times> int \<times> int \<times> string \<times> string \<times> string \<times> nat" where
  "unit_rank opts tier u =
     (if penalized u then 1 else 0,
      if tier = TierRemainder \<and> has_unit_term opts \<and> \<not> terms_match opts TierExact u then 1 else 0,
      rune_count (u_name u), u_repo u, u_file u, u_start_line u, u_start_byte u, u_kind u, u_name u, u_qualified u, u_id u)"

definition select_units :: "query_opts \<Rightarrow> unit_tier \<Rightarrow> int \<Rightarrow> nat list \<Rightarrow> gdb \<Rightarrow> ast_unit list" where
  "select_units opts tier limit exclude d =
     limited limit (sort_key (unit_rank opts tier)
       (filter (\<lambda>u. unit_selected opts tier u \<and> u_id u \<notin> set exclude) (g_units d)))"

text \<open>\<open>get_ast_units\<close> is \<open>query_units\<close> with the rows each statement selects.\<close>

definition get_ast_units :: "query_opts \<Rightarrow> gdb \<Rightarrow> ast_unit list" where
  "get_ast_units opts d =
     (let widen = (o_fallback opts \<and> o_limit opts > 0 \<and> has_unit_term opts);
          units = select_units opts (if widen then TierHandWritten else TierExact) (o_limit opts) [] d
      in if \<not> widen \<or> int (length units) \<ge> o_limit opts then units
         else units @ select_units opts TierRemainder (o_limit opts - int (length units)) (map u_id units) d)"

definition get_ast_unit_by_id :: "nat \<Rightarrow> gdb \<Rightarrow> store_error + ast_unit" where
  "get_ast_unit_by_id i d = (case List.find (\<lambda>u. u_id u = i) (g_units d) of None \<Rightarrow> Inl ErrNotFound | Some u \<Rightarrow> Inr u)"

definition get_ast_unit_by_name :: "string \<Rightarrow> string \<Rightarrow> string \<Rightarrow> gdb \<Rightarrow> store_error + ast_unit" where
  "get_ast_unit_by_name repo nm language d =
     (case List.find (\<lambda>u. u_name u = nm \<and> u_repo u = repo \<and> (language \<noteq> [] \<longrightarrow> u_language u = language)) (g_units d) of
        None \<Rightarrow> Inl ErrNotFound | Some u \<Rightarrow> Inr u)"

definition get_ast_unit_by_qualified_name :: "string \<Rightarrow> string \<Rightarrow> gdb \<Rightarrow> store_error + ast_unit" where
  "get_ast_unit_by_qualified_name repo qualified d =
     (case List.find (\<lambda>u. u_qualified u = qualified \<and> u_repo u = repo) (g_units d) of
        None \<Rightarrow> Inl ErrNotFound | Some u \<Rightarrow> Inr u)"

definition count_ast_units_by_repo :: "string \<Rightarrow> gdb \<Rightarrow> nat" where
  "count_ast_units_by_repo repo d = length (filter (\<lambda>u. u_repo u = repo) (g_units d))"

definition count_ast_units :: "gdb \<Rightarrow> nat" where
  "count_ast_units d = length (g_units d)"

section \<open>Writing\<close>

definition path_chunk :: nat where
  "path_chunk = 400"

function each_path_chunk :: "'p list \<Rightarrow> ('p list \<Rightarrow> 'd \<Rightarrow> 'd) \<Rightarrow> 'd \<Rightarrow> 'd" where
  "each_path_chunk paths f d =
     (if paths = [] then d else each_path_chunk (drop path_chunk paths) f (f (take path_chunk paths) d))"
  by auto
termination by (relation "measure (\<lambda>(paths, _). length paths)") (auto simp: path_chunk_def)

declare each_path_chunk.simps [simp del]

definition placeholders :: "nat \<Rightarrow> string" where
  "placeholders n = (if n \<le> 0 then [] else ''?'' @ concat (replicate (n - 1) '',?''))"

definition get_ast_units_by_ids :: "nat list \<Rightarrow> gdb \<Rightarrow> ast_unit list" where
  "get_ast_units_by_ids ids d =
     each_path_chunk ids (\<lambda>batch units. units @ filter (\<lambda>u. u_id u \<in> set batch) (g_units d)) []"

definition store_edge :: "edge \<Rightarrow> gdb \<Rightarrow> gdb \<times> edge" where
  "store_edge e d =
     (let i = g_next_edge d
      in (d\<lparr> g_edges := g_edges d @ [e\<lparr> e_id := i \<rparr>], g_next_edge := Suc i \<rparr>, if e_id e = 0 then e\<lparr> e_id := i \<rparr> else e))"

fun batch_store_edges :: "edge list \<Rightarrow> gdb \<Rightarrow> gdb \<times> edge list" where
  "batch_store_edges [] d = (d, [])"
| "batch_store_edges (e # es) d =
     (let i = g_next_edge d; e' = e\<lparr> e_id := i \<rparr>;
          (d', es') = batch_store_edges es (d\<lparr> g_edges := g_edges d @ [e'], g_next_edge := Suc i \<rparr>)
      in (d', e' # es'))"

definition delete_edges :: "(edge \<Rightarrow> bool) \<Rightarrow> gdb \<Rightarrow> gdb" where
  "delete_edges P d = d\<lparr> g_edges := filter (\<lambda>e. \<not> P e) (g_edges d) \<rparr>"

definition delete_edges_by_file :: "string \<Rightarrow> string \<Rightarrow> gdb \<Rightarrow> gdb" where
  "delete_edges_by_file repo path = delete_edges (\<lambda>e. e_repo e = repo \<and> e_file e = path)"

definition delete_edges_by_files :: "string \<Rightarrow> string list \<Rightarrow> gdb \<Rightarrow> gdb" where
  "delete_edges_by_files repo paths d =
     each_path_chunk paths (\<lambda>batch. delete_edges (\<lambda>e. e_repo e = repo \<and> e_file e \<in> set batch)) d"

definition delete_edges_by_repo :: "string \<Rightarrow> gdb \<Rightarrow> gdb" where
  "delete_edges_by_repo repo = delete_edges (\<lambda>e. e_repo e = repo)"

definition delete_edges_by_kind :: "string \<Rightarrow> string \<Rightarrow> gdb \<Rightarrow> gdb" where
  "delete_edges_by_kind repo kind =
     (if repo = [] then delete_edges (\<lambda>e. e_kind e = kind) else delete_edges (\<lambda>e. e_repo e = repo \<and> e_kind e = kind))"

definition delete_edges_by_kind_and_files :: "string \<Rightarrow> string \<Rightarrow> string list \<Rightarrow> gdb \<Rightarrow> gdb" where
  "delete_edges_by_kind_and_files repo kind paths d =
     each_path_chunk paths (\<lambda>batch. delete_edges (\<lambda>e. e_repo e = repo \<and> e_kind e = kind \<and> e_file e \<in> set batch)) d"

definition delete_edges_by_kind_and_dst :: "string \<Rightarrow> string \<Rightarrow> gdb \<Rightarrow> gdb" where
  "delete_edges_by_kind_and_dst kind dst_name = delete_edges (\<lambda>e. e_kind e = kind \<and> e_dst_name e = dst_name)"

text \<open>Deleting units clears the resolution of every edge that pointed at one of them.\<close>

definition unresolve_into :: "(ast_unit \<Rightarrow> bool) \<Rightarrow> gdb \<Rightarrow> gdb" where
  "unresolve_into P d =
     d\<lparr> g_edges := update_where (\<lambda>e. e_dst e \<noteq> 0 \<and> list_ex (\<lambda>u. P u \<and> u_id u = e_dst e) (g_units d))
                    (\<lambda>e. e\<lparr> e_dst := 0, e_dst_repo := [] \<rparr>) (g_edges d) \<rparr>"

definition delete_units :: "(ast_unit \<Rightarrow> bool) \<Rightarrow> gdb \<Rightarrow> gdb" where
  "delete_units P d = d\<lparr> g_units := filter (\<lambda>u. \<not> P u) (g_units d) \<rparr>"

definition delete_ast_units_by_file :: "string \<Rightarrow> string \<Rightarrow> gdb \<Rightarrow> gdb" where
  "delete_ast_units_by_file repo path d =
     (let P = (\<lambda>u. u_repo u = repo \<and> u_file u = path) in delete_units P (unresolve_into P d))"

definition delete_ast_units_by_files :: "string \<Rightarrow> string list \<Rightarrow> gdb \<Rightarrow> gdb" where
  "delete_ast_units_by_files repo paths d =
     each_path_chunk paths (\<lambda>batch d. let P = (\<lambda>u. u_repo u = repo \<and> u_file u \<in> set batch) in delete_units P (unresolve_into P d)) d"

definition delete_ast_units_by_kind :: "string \<Rightarrow> string \<Rightarrow> gdb \<Rightarrow> gdb" where
  "delete_ast_units_by_kind repo kind = delete_units (\<lambda>u. u_repo u = repo \<and> u_kind u = kind)"

definition delete_ast_units_by_repo :: "string \<Rightarrow> gdb \<Rightarrow> gdb" where
  "delete_ast_units_by_repo repo = delete_units (\<lambda>u. u_repo u = repo)"

definition store_ast_unit :: "ast_unit \<Rightarrow> gdb \<Rightarrow> gdb \<times> ast_unit" where
  "store_ast_unit u d =
     (let i = g_next_unit d
      in (d\<lparr> g_units := g_units d @ [u\<lparr> u_id := i \<rparr>], g_next_unit := Suc i \<rparr>, if u_id u = 0 then u\<lparr> u_id := i \<rparr> else u))"

fun batch_store_ast_units :: "ast_unit list \<Rightarrow> gdb \<Rightarrow> gdb \<times> ast_unit list" where
  "batch_store_ast_units [] d = (d, [])"
| "batch_store_ast_units (u # us) d =
     (let i = g_next_unit d; u' = u\<lparr> u_id := i \<rparr>;
          (d', us') = batch_store_ast_units us (d\<lparr> g_units := g_units d @ [u'], g_next_unit := Suc i \<rparr>)
      in (d', u' # us'))"

definition update_edge_row :: "nat \<Rightarrow> (edge \<Rightarrow> edge) \<Rightarrow> gdb \<Rightarrow> gdb \<times> store_error option" where
  "update_edge_row i f d =
     (d\<lparr> g_edges := update_where (\<lambda>e. e_id e = i) f (g_edges d) \<rparr>,
      if rows_affected (\<lambda>e. e_id e = i) (g_edges d) = 0 then Some ErrNotFound else None)"

definition update_edge_dst_name :: "nat \<Rightarrow> string \<Rightarrow> gdb \<Rightarrow> gdb \<times> store_error option" where
  "update_edge_dst_name i nm = update_edge_row i (\<lambda>e. e\<lparr> e_dst_name := nm \<rparr>)"

definition update_edge_meta :: "nat \<Rightarrow> string \<Rightarrow> gdb \<Rightarrow> gdb \<times> store_error option" where
  "update_edge_meta i meta = update_edge_row i (\<lambda>e. e\<lparr> e_meta := meta \<rparr>)"

definition resolve_edges :: "string \<Rightarrow> string \<Rightarrow> string \<Rightarrow> nat \<Rightarrow> gdb \<Rightarrow> gdb" where
  "resolve_edges repo dst_name kind dst d =
     d\<lparr> g_edges := update_where (\<lambda>e. e_dst e = 0 \<and> e_repo e = repo \<and> e_dst_name e = dst_name \<and> e_kind e = kind)
                    (\<lambda>e. e\<lparr> e_dst := dst \<rparr>) (g_edges d) \<rparr>"

section \<open>Edge resolutions\<close>

record resolution =
  r_edge :: nat
  r_dst :: nat
  r_dst_repo :: string
  r_conf :: rat

text \<open>
  What can go wrong while resolutions are written: a transaction that does not begin, prepare or commit,
  a row the engine refuses, a cancelled context.
\<close>

record faults =
  f_tx :: "resolution list \<Rightarrow> bool"
  f_row :: "resolution \<Rightarrow> bool"
  f_cancelled :: bool

datatype write_error = RowMissing | RowRefused

record failure =
  fail_index :: nat
  fail_edge :: nat
  fail_error :: write_error

definition set_resolution :: "resolution \<Rightarrow> edge \<Rightarrow> edge" where
  "set_resolution r e = e\<lparr> e_dst := r_dst r, e_dst_repo := r_dst_repo r, e_conf := r_conf r \<rparr>"

definition update_edge_resolution :: "faults \<Rightarrow> resolution \<Rightarrow> gdb \<Rightarrow> gdb \<times> write_error option" where
  "update_edge_resolution flt r d =
     (if f_row flt r then (d, Some RowRefused)
      else (d\<lparr> g_edges := update_where (\<lambda>e. e_id e = r_edge r) (set_resolution r) (g_edges d) \<rparr>,
            if rows_affected (\<lambda>e. e_id e = r_edge r) (g_edges d) = 0 then Some RowMissing else None))"

fun resolution_rows :: "faults \<Rightarrow> nat \<Rightarrow> resolution list \<Rightarrow> gdb \<Rightarrow> gdb \<times> failure list" where
  "resolution_rows flt i [] d = (d, [])"
| "resolution_rows flt i (r # rs) d =
     (let (d1, err) = update_edge_resolution flt r d; (d2, fs) = resolution_rows flt (Suc i) rs d1
      in (d2, case err of None \<Rightarrow> fs | Some e \<Rightarrow> \<lparr> fail_index = i, fail_edge = r_edge r, fail_error = e \<rparr> # fs))"

text \<open>The rows of one transaction, which gives up at the first row the engine refuses.\<close>

fun tx_rows :: "faults \<Rightarrow> nat \<Rightarrow> resolution list \<Rightarrow> gdb \<Rightarrow> (gdb \<times> failure list) option" where
  "tx_rows flt i [] d = Some (d, [])"
| "tx_rows flt i (r # rs) d =
     (if f_row flt r then None
      else case tx_rows flt (Suc i) rs (d\<lparr> g_edges := update_where (\<lambda>e. e_id e = r_edge r) (set_resolution r) (g_edges d) \<rparr>) of
        None \<Rightarrow> None
      | Some (d', fs) \<Rightarrow>
          Some (d', if rows_affected (\<lambda>e. e_id e = r_edge r) (g_edges d) = 0
                    then \<lparr> fail_index = i, fail_edge = r_edge r, fail_error = RowMissing \<rparr> # fs else fs))"

definition resolution_tx :: "faults \<Rightarrow> nat \<Rightarrow> resolution list \<Rightarrow> gdb \<Rightarrow> (gdb \<times> failure list) option" where
  "resolution_tx flt i chunk d = (if f_tx flt chunk then None else tx_rows flt i chunk d)"

definition resolution_tx_rows :: nat where
  "resolution_tx_rows = 1000"

text \<open>The result is the database, the failures, and whether the batch was given up.\<close>

function batch_update_edge_resolutions :: "faults \<Rightarrow> nat \<Rightarrow> resolution list \<Rightarrow> gdb \<Rightarrow> gdb \<times> failure list \<times> bool" where
  "batch_update_edge_resolutions flt start res d =
     (if res = [] then (d, [], False)
      else let chunk = take resolution_tx_rows res in
        case (case resolution_tx flt start chunk d of
                Some r \<Rightarrow> Some r
              | None \<Rightarrow> if f_cancelled flt then None else Some (resolution_rows flt start chunk d)) of
          None \<Rightarrow> (d, [], True)
        | Some (d1, got) \<Rightarrow>
            (case batch_update_edge_resolutions flt (start + resolution_tx_rows) (drop resolution_tx_rows res) d1 of
               (d2, failures, err) \<Rightarrow> (d2, got @ failures, err)))"
  by auto
termination by (relation "measure (\<lambda>(_, _, res, _). length res)") (auto simp: resolution_tx_rows_def)

declare batch_update_edge_resolutions.simps [simp del]

end
