(* ===== verification/Graph_Match.thy ===== *)
theory Graph_Match
  imports Graph_Store Contract_Keys
begin

text \<open>
  How the linker decides what an edge refers to (\<open>internal/graph/linker.go\<close>, \<open>internal/graph/ident.go\<close>,
  \<open>internal/contract/confidence.go\<close>): config keys, local definitions and their receivers, gRPC methods,
  HTTP routes and database tables. A Go map from keys to slices is the function that gives the slice,
  empty where the map has no entry.
\<close>

section \<open>Confidence tiers\<close>

definition conf_exact :: rat where "conf_exact = f32 (95 / 100)"
definition conf_high :: rat where "conf_high = f32 (9 / 10)"
definition conf_cross_file :: rat where "conf_cross_file = f32 (8 / 10)"
definition conf_heuristic :: rat where "conf_heuristic = f32 (7 / 10)"
definition conf_weak :: rat where "conf_weak = f32 (6 / 10)"

section \<open>Components\<close>

definition has_component_suffix :: "string list \<Rightarrow> string list \<Rightarrow> bool" where
  "has_component_suffix sq suffix =
     (if length suffix = 0 \<or> length suffix > length sq then False
      else let off = length sq - length suffix in list_all (\<lambda>i. sq ! (off + i) = suffix ! i) [0..<length suffix])"

section \<open>Config keys\<close>

definition config_no_match :: nat where "config_no_match = 0"
definition config_leaf_match :: nat where "config_leaf_match = 1"
definition config_path_match :: nat where "config_path_match = 2"

definition min_leaf_components :: nat where "min_leaf_components = 2"

record indexed_config_key =
  ck_unit :: ast_unit
  ck_path :: "string list"
  ck_leaf :: "string list"

type_synonym config_index = "string \<Rightarrow> indexed_config_key list"

definition index_config_key :: "ast_unit \<Rightarrow> indexed_config_key" where
  "index_config_key u = \<lparr> ck_unit = u, ck_path = word_components (trim_kind (u_qualified u) KindConfig), ck_leaf = word_components (u_name u) \<rparr>"

definition push_to :: "'k \<Rightarrow> 'v \<Rightarrow> ('k \<Rightarrow> 'v list) \<Rightarrow> ('k \<Rightarrow> 'v list)" where
  "push_to key v idx = idx(key := idx key @ [v])"

definition add_config_key :: "config_index \<Rightarrow> ast_unit \<Rightarrow> config_index" where
  "add_config_key idx u =
     (let k = index_config_key u;
          path_last = (if 0 < length (ck_path k) then last (ck_path k) else []);
          idx = (if 0 < length (ck_path k) then push_to path_last k idx else idx)
      in if length (ck_leaf k) \<ge> min_leaf_components \<and> last (ck_leaf k) \<noteq> path_last
         then push_to (last (ck_leaf k)) k idx else idx)"

definition build_config_index :: "ast_unit list \<Rightarrow> config_index" where
  "build_config_index units = foldl add_config_key (\<lambda>_. []) units"

definition config_match_tier :: "indexed_config_key \<Rightarrow> string list \<Rightarrow> nat" where
  "config_match_tier k ref_comps =
     (if has_component_suffix (ck_path k) ref_comps then config_path_match
      else if length (ck_leaf k) \<ge> min_leaf_components \<and> has_component_suffix ref_comps (ck_leaf k) then config_leaf_match
      else config_no_match)"

definition config_step :: "string list \<Rightarrow> string \<Rightarrow> ast_unit option \<times> nat \<Rightarrow> indexed_config_key \<Rightarrow> ast_unit option \<times> nat" where
  "config_step ref_comps repo acc k =
     (case acc of (best, best_score) \<Rightarrow>
       let tier = config_match_tier k ref_comps in
       if tier = config_no_match then acc
       else let score = tier * 2 + (if u_repo (ck_unit k) = repo then 1 else 0) in
         if score > best_score \<or> (score = best_score \<and> (case best of None \<Rightarrow> False | Some b \<Rightarrow> u_qualified (ck_unit k) < u_qualified b))
         then (Some (ck_unit k), score) else acc)"

definition match_config_key_indexed :: "config_index \<Rightarrow> string \<Rightarrow> string \<Rightarrow> string" where
  "match_config_key_indexed idx ref repo =
     (let ref_comps = word_components ref in
      if length ref_comps = 0 then []
      else case fst (foldl (config_step ref_comps repo) (None, 0) (idx (last ref_comps))) of
             None \<Rightarrow> [] | Some best \<Rightarrow> u_signature best)"

definition match_config_key :: "ast_unit list \<Rightarrow> string \<Rightarrow> string \<Rightarrow> string" where
  "match_config_key keys ref repo = match_config_key_indexed (build_config_index keys) ref repo"

section \<open>Ordering candidates\<close>

definition before_in_file :: "ast_unit \<Rightarrow> ast_unit \<Rightarrow> bool" where
  "before_in_file a b =
     (if u_start_line a \<noteq> u_start_line b then u_start_line a < u_start_line b
      else if u_start_byte a \<noteq> u_start_byte b then u_start_byte a < u_start_byte b
      else if u_kind a \<noteq> u_kind b then u_kind a < u_kind b
      else u_name a < u_name b)"

definition unit_lt :: "ast_unit \<Rightarrow> ast_unit \<Rightarrow> bool" where
  "unit_lt a b =
     (if u_repo a \<noteq> u_repo b then u_repo a < u_repo b
      else if u_qualified a \<noteq> u_qualified b then u_qualified a < u_qualified b
      else if u_file a \<noteq> u_file b then u_file a < u_file b
      else before_in_file a b)"

definition sort_units :: "ast_unit list \<Rightarrow> ast_unit list" where
  "sort_units units = sort_lt unit_lt units"

section \<open>Local definitions\<close>

text \<open>
  The JSON codec of edge metadata is a parameter: \<open>jc_map\<close> decodes an object into its string fields (a
  field that is not a string reads as empty), \<open>jc_meta\<close> decodes into the fields of \<open>store.EdgeMeta\<close> that
  are used, \<open>jc_set\<close> encodes an object with one string field replaced.
\<close>

record edge_meta =
  m_topic :: string
  m_base_conf :: rat

record codec =
  jc_map :: "string \<Rightarrow> (string \<Rightarrow> string) option"
  jc_meta :: "string \<Rightarrow> edge_meta option"
  jc_set :: "string \<Rightarrow> string \<Rightarrow> string \<Rightarrow> string option"

definition meta_key_source :: string where "meta_key_source = ''source''"
definition meta_key_topic_ref :: string where "meta_key_topic_ref = ''topic_ref''"
definition meta_key_receiver :: string where "meta_key_receiver = ''receiver''"
definition meta_key_recv_type :: string where "meta_key_recv_type = ''recv_type''"

definition meta_field :: "codec \<Rightarrow> string \<Rightarrow> string \<Rightarrow> string" where
  "meta_field jc meta key = (if meta = [] then [] else case jc_map jc meta of None \<Rightarrow> [] | Some m \<Rightarrow> m key)"

definition meta_with_field :: "codec \<Rightarrow> string \<Rightarrow> string \<Rightarrow> string \<Rightarrow> string" where
  "meta_with_field jc meta key v =
     (let base = (if meta = [] \<or> jc_map jc meta = None then ''{}'' else meta)
      in case jc_set jc base key v of None \<Rightarrow> meta | Some b \<Rightarrow> b)"

definition meta_with_llm_source :: "codec \<Rightarrow> string \<Rightarrow> string" where
  "meta_with_llm_source jc meta = meta_with_field jc meta meta_key_source ''llm''"

definition meta_default_topic :: "codec \<Rightarrow> string \<Rightarrow> string" where
  "meta_default_topic jc meta =
     (if meta = [] then []
      else case jc_meta jc meta of
        None \<Rightarrow> []
      | Some m \<Rightarrow> if m_topic m = [] \<or> contains (m_topic m) ''${'' then [] else m_topic m)"

definition confidence_after_resolve :: "codec \<Rightarrow> edge \<Rightarrow> rat \<Rightarrow> rat" where
  "confidence_after_resolve jc e conf =
     (let base = (if e_meta e \<noteq> [] then
                    (case jc_meta jc (e_meta e) of
                       Some m \<Rightarrow> if m_base_conf m > 0 then m_base_conf m else e_conf e
                     | None \<Rightarrow> e_conf e)
                  else e_conf e)
      in f32 (base * conf))"

definition edge_receiver :: "codec \<Rightarrow> edge \<Rightarrow> string" where
  "edge_receiver jc e =
     (let from_meta = (if e_meta e = [] then []
                       else case jc_map jc (e_meta e) of
                         None \<Rightarrow> []
                       | Some m \<Rightarrow> if m meta_key_receiver \<noteq> [] then m meta_key_receiver else m meta_key_recv_type)
      in if from_meta \<noteq> [] then from_meta
         else case last_index CHR ''.'' (e_dst_name e) of
                Some i \<Rightarrow> if i > 0 then take i (e_dst_name e) else []
              | None \<Rightarrow> [])"

record unit_components =
  uc_qualified :: "nat \<rightharpoonup> string list"
  uc_by_tail :: "string \<rightharpoonup> (string \<Rightarrow> ast_unit list)"

definition new_unit_components :: unit_components where
  "new_unit_components = \<lparr> uc_qualified = Map.empty, uc_by_tail = Map.empty \<rparr>"

definition owner_path :: "ast_unit \<Rightarrow> string list" where
  "owner_path u =
     (let qual = word_components (u_qualified u); own = length (word_components (u_name u))
      in if own < length qual then take (length qual - own) qual else [])"

definition owner :: "unit_components \<Rightarrow> ast_unit \<Rightarrow> unit_components \<times> string list" where
  "owner c u =
     (case uc_qualified c (u_id u) of
        Some comps \<Rightarrow> (c, comps)
      | None \<Rightarrow> let comps = owner_path u in (c\<lparr> uc_qualified := (uc_qualified c)(u_id u \<mapsto> comps) \<rparr>, comps))"

fun index_tails :: "unit_components \<Rightarrow> (string \<Rightarrow> ast_unit list) \<Rightarrow> ast_unit list \<Rightarrow> unit_components \<times> (string \<Rightarrow> ast_unit list)" where
  "index_tails c idx [] = (c, idx)"
| "index_tails c idx (u # us) =
     (let (c, ow) = owner c u in index_tails c (if length ow > 0 then push_to (last ow) u idx else idx) us)"

fun owned_in :: "unit_components \<Rightarrow> string list \<Rightarrow> ast_unit list \<Rightarrow> unit_components \<times> ast_unit list" where
  "owned_in c rc [] = (c, [])"
| "owned_in c rc (u # us) =
     (let (c, ow) = owner c u; (c, owned) = owned_in c rc us
      in (c, if has_component_suffix ow rc then u # owned else owned))"

definition owned_by :: "unit_components \<Rightarrow> string \<Rightarrow> ast_unit list \<Rightarrow> string \<Rightarrow> unit_components \<times> ast_unit list" where
  "owned_by c nm cands recv =
     (let rc = word_components recv in
      if length rc = 0 then (c, [])
      else let (c, idx) = (case uc_by_tail c nm of
                             Some idx \<Rightarrow> (c, idx)
                           | None \<Rightarrow> let (c, idx) = index_tails c (\<lambda>_. []) cands
                                     in (c\<lparr> uc_by_tail := (uc_by_tail c)(nm \<mapsto> idx) \<rparr>, idx))
           in owned_in c rc (idx (last rc)))"

definition receiver_matches :: "ast_unit \<Rightarrow> string \<Rightarrow> bool" where
  "receiver_matches u recv =
     (let rc = word_components recv in
      if length rc = 0 then False
      else let qual = word_components (u_qualified u); own = length (word_components (u_name u))
           in if own \<ge> length qual then False else has_component_suffix (take (length qual - own) qual) rc)"

definition first_in_file :: "ast_unit list \<Rightarrow> string \<Rightarrow> ast_unit option" where
  "first_in_file cands path = (if path = [] then None else List.find (\<lambda>c. u_file c = path) cands)"

definition pick_definition :: "ast_unit list \<Rightarrow> string \<Rightarrow> ast_unit \<times> rat" where
  "pick_definition cands path =
     (case first_in_file cands path of
        Some u \<Rightarrow> (u, conf_exact)
      | None \<Rightarrow> if length cands = 1 then (hd cands, conf_cross_file) else (hd cands, conf_heuristic))"

definition resolve_local_target :: "codec \<Rightarrow> string \<Rightarrow> edge \<Rightarrow> ast_unit list \<Rightarrow> unit_components \<Rightarrow> unit_components \<times> (ast_unit \<times> rat)" where
  "resolve_local_target jc nm e cands comps =
     (let recv = edge_receiver jc e;
          (comps, owned) = (if recv \<noteq> [] then owned_by comps nm cands recv else (comps, []))
      in (comps, if length owned > 0 then pick_definition owned (e_file e) else pick_definition cands (e_file e)))"

end
