(* ===== verification/Graph_Contracts.thy ===== *)
theory Graph_Contracts
  imports Graph_Match
begin

text \<open>
  Matching contract edges against the contract units of all repositories (\<open>internal/graph/linker.go\<close>):
  the indexes over gRPC methods, HTTP routes and database tables, and the candidates of a key with the
  confidence of the match.
\<close>

section \<open>gRPC methods\<close>

record indexed_rpc =
  ir_unit :: ast_unit
  ir_svc :: string

type_synonym rpc_index = "string \<Rightarrow> indexed_rpc list"

definition add_rpc :: "rpc_index \<Rightarrow> ast_unit \<Rightarrow> rpc_index" where
  "add_rpc idx u = (case parse_grpc (u_qualified u) of (svc, meth, ok) \<Rightarrow>
     if ok then push_to meth \<lparr> ir_unit = u, ir_svc = svc \<rparr> idx else idx)"

definition build_rpc_index :: "ast_unit list \<Rightarrow> rpc_index" where
  "build_rpc_index units = foldl add_rpc (\<lambda>_. []) units"

definition rpc_tier :: "ast_unit list \<Rightarrow> ast_unit list \<times> rat" where
  "rpc_tier tier = (sort_units tier, if length tier = 1 then conf_exact else conf_heuristic)"

definition rpc_candidates :: "rpc_index \<Rightarrow> string \<Rightarrow> ast_unit list \<times> rat" where
  "rpc_candidates idx key =
     (case parse_grpc key of (svc, meth, ok) \<Rightarrow>
       if \<not> ok then ([], 0)
       else
         let cs = idx meth;
             exact = map ir_unit (filter (\<lambda>c. svc \<noteq> [] \<and> ir_svc c = svc) cs);
             suffix = map ir_unit (filter (\<lambda>c. svc \<noteq> [] \<and> ir_svc c \<noteq> svc \<and> has_suffix (ir_svc c) (''.'' @ svc)) cs);
             by_method = map ir_unit cs
         in if length exact \<noteq> 0 then rpc_tier exact
            else if length suffix \<noteq> 0 then rpc_tier suffix
            else if length by_method = 0 then ([], 0)
            else (sort_units by_method, conf_heuristic))"

definition match_rpc_indexed :: "rpc_index \<Rightarrow> string \<Rightarrow> (ast_unit \<times> rat) option" where
  "match_rpc_indexed idx key = (case rpc_candidates idx key of (cands, conf) \<Rightarrow> if length cands = 0 then None else Some (hd cands, conf))"

definition match_rpc :: "ast_unit list \<Rightarrow> string \<Rightarrow> (ast_unit \<times> rat) option" where
  "match_rpc units key = match_rpc_indexed (build_rpc_index units) key"

section \<open>HTTP routes\<close>

definition route_base_score :: rat where "route_base_score = conf_exact"
definition route_method_any_factor :: rat where "route_method_any_factor = f32 (8 / 10)"
definition route_path_param_factor :: rat where "route_path_param_factor = f32 (95 / 100)"

definition split_path :: "string \<Rightarrow> string list" where
  "split_path p = (let p = trim_both (\<lambda>c. c = CHR ''/'') p in if p = [] then [] else split_on CHR ''/'' p)"

definition equal_fold :: "string \<Rightarrow> string \<Rightarrow> bool" where
  "equal_fold a b \<longleftrightarrow> to_lower a = to_lower b"

fun path_score :: "rat \<Rightarrow> string list \<Rightarrow> string list \<Rightarrow> rat option" where
  "path_score s (c # cs) (r # rs) =
     (if equal_fold c r then path_score s cs rs
      else if is_path_param r \<or> is_path_param c then path_score (f32 (s * route_path_param_factor)) cs rs
      else None)"
| "path_score s _ _ = Some s"

definition route_match_score_segs :: "string \<Rightarrow> string list \<Rightarrow> string \<Rightarrow> string list \<Rightarrow> rat" where
  "route_match_score_segs call_method call_segs route_method route_segs =
     (if call_method = route_method \<or> call_method = ''ANY'' \<or> route_method = ''ANY'' then
        let method_score = (if call_method = route_method then 1 else route_method_any_factor) in
        if length call_segs \<noteq> length route_segs then 0
        else case path_score 1 call_segs route_segs of
               None \<Rightarrow> 0
             | Some ps \<Rightarrow> f32 (f32 (route_base_score * method_score) * ps)
      else 0)"

definition route_match_score :: "string \<Rightarrow> string \<Rightarrow> string \<Rightarrow> string \<Rightarrow> rat" where
  "route_match_score call_method call_path route_method route_path =
     route_match_score_segs call_method (split_path call_path) route_method (split_path route_path)"

record indexed_route =
  it_unit :: ast_unit
  it_method :: string
  it_segs :: "string list"

type_synonym route_index = "nat \<Rightarrow> indexed_route list"

definition add_route :: "route_index \<Rightarrow> ast_unit \<Rightarrow> route_index" where
  "add_route idx u = (case parse_http (u_qualified u) of (meth, path, ok) \<Rightarrow>
     if ok then let segs = split_path path in push_to (length segs) \<lparr> it_unit = u, it_method = meth, it_segs = segs \<rparr> idx
     else idx)"

definition build_route_index :: "ast_unit list \<Rightarrow> route_index" where
  "build_route_index units = foldl add_route (\<lambda>_. []) units"

record scored_route =
  sr_unit :: ast_unit
  sr_score :: rat
  sr_same_repo :: bool

definition route_lt :: "scored_route \<Rightarrow> scored_route \<Rightarrow> bool" where
  "route_lt a b =
     (if sr_score a \<noteq> sr_score b then sr_score a > sr_score b
      else if sr_same_repo a \<noteq> sr_same_repo b then \<not> sr_same_repo a
      else if u_repo (sr_unit a) \<noteq> u_repo (sr_unit b) then u_repo (sr_unit a) < u_repo (sr_unit b)
      else if u_file (sr_unit a) \<noteq> u_file (sr_unit b) then u_file (sr_unit a) < u_file (sr_unit b)
      else before_in_file (sr_unit a) (sr_unit b))"

definition score_route :: "string \<Rightarrow> string list \<Rightarrow> string \<Rightarrow> indexed_route \<Rightarrow> scored_route option" where
  "score_route meth call_segs src_repo r =
     (let score = route_match_score_segs meth call_segs (it_method r) (it_segs r)
      in if score \<le> 0 then None
         else Some \<lparr> sr_unit = it_unit r, sr_score = score, sr_same_repo = (u_repo (it_unit r) = src_repo) \<rparr>)"

definition route_candidates :: "route_index \<Rightarrow> string \<Rightarrow> string \<Rightarrow> scored_route list" where
  "route_candidates idx key src_repo =
     (case parse_http key of (meth, path, ok) \<Rightarrow>
       if \<not> ok then []
       else let call_segs = split_path path
            in sort_lt route_lt (List.map_filter (score_route meth call_segs src_repo) (idx (length call_segs))))"

definition route_ambiguity_delta :: rat where "route_ambiguity_delta = f32 (5 / 100)"

definition routes_ambiguous :: "scored_route list \<Rightarrow> bool" where
  "routes_ambiguous cands \<longleftrightarrow> length cands > 1 \<and>
     f32 (sr_score (cands ! 0) - sr_score (cands ! 1)) \<le> route_ambiguity_delta \<and>
     sr_same_repo (cands ! 0) = sr_same_repo (cands ! 1)"

definition match_route_indexed :: "route_index \<Rightarrow> string \<Rightarrow> string \<Rightarrow> (ast_unit \<times> rat) option" where
  "match_route_indexed idx key src_repo =
     (let cands = route_candidates idx key src_repo in
      if length cands = 0 then None else Some (sr_unit (hd cands), sr_score (hd cands)))"

definition match_route :: "ast_unit list \<Rightarrow> string \<Rightarrow> string \<Rightarrow> (ast_unit \<times> rat) option" where
  "match_route units key src_repo = match_route_indexed (build_route_index units) key src_repo"

section \<open>Tables\<close>

record table_index =
  ti_by_key :: "string \<Rightarrow> ast_unit list"
  ti_by_name :: "string \<Rightarrow> ast_unit list"
  ti_by_entity :: "string \<Rightarrow> ast_unit list"

definition entity_sig_prefix :: string where "entity_sig_prefix = ''entity:''"

definition signature_entity :: "string \<Rightarrow> string" where
  "signature_entity sig =
     (if \<not> has_prefix sig entity_sig_prefix then [] else trim_space (trim_prefix sig entity_sig_prefix))"

definition add_table :: "table_index \<Rightarrow> ast_unit \<Rightarrow> table_index" where
  "add_table idx u =
     (let idx = idx\<lparr> ti_by_key := push_to (u_qualified u) u (ti_by_key idx) \<rparr>;
          entity = signature_entity (u_signature u);
          key = mk_db (table_name entity);
          idx = (if entity \<noteq> [] \<and> key \<noteq> u_qualified u then idx\<lparr> ti_by_entity := push_to key u (ti_by_entity idx) \<rparr> else idx)
      in case parse_db (u_qualified u) of (table, ok) \<Rightarrow>
           if \<not> ok then idx
           else case last_index CHR ''.'' table of
                  Some i \<Rightarrow> idx\<lparr> ti_by_name := push_to (mk_db (drop (i + 1) table)) u (ti_by_name idx) \<rparr>
                | None \<Rightarrow> idx)"

definition build_table_index :: "ast_unit list \<Rightarrow> table_index" where
  "build_table_index units = foldl add_table \<lparr> ti_by_key = (\<lambda>_. []), ti_by_name = (\<lambda>_. []), ti_by_entity = (\<lambda>_. []) \<rparr> units"

definition weaker_tier :: "rat \<Rightarrow> rat" where
  "weaker_tier conf =
     (if conf > conf_high then conf_high
      else if conf > conf_cross_file then conf_cross_file
      else if conf > conf_heuristic then conf_heuristic
      else conf_weak)"

fun table_tiers :: "(ast_unit list \<times> rat \<times> rat) list \<Rightarrow> string \<Rightarrow> ast_unit list \<times> rat" where
  "table_tiers [] src_repo = ([], 0)"
| "table_tiers ((units, same_conf, cross_conf) # tiers) src_repo =
     (let same = filter (\<lambda>u. u_repo u = src_repo) units; cross = filter (\<lambda>u. u_repo u \<noteq> src_repo) units in
      if length same \<noteq> 0 then (sort_units same, if length same > 1 then weaker_tier same_conf else same_conf)
      else if length cross \<noteq> 0 then (sort_units cross, if length cross > 1 then weaker_tier cross_conf else cross_conf)
      else table_tiers tiers src_repo)"

definition table_candidates :: "table_index \<Rightarrow> string \<Rightarrow> string \<Rightarrow> ast_unit list \<times> rat" where
  "table_candidates idx key src_repo =
     (if \<not> is_kind key KindDB then ([], 0)
      else case parse_db key of (table, ok) \<Rightarrow>
        table_tiers
          ((ti_by_key idx key, conf_exact, conf_high) #
           (if ok \<and> \<not> contains table ''.''
            then [(ti_by_name idx key, conf_high, conf_cross_file), (ti_by_entity idx key, conf_cross_file, conf_heuristic)]
            else [])) src_repo)"

definition match_table_indexed :: "table_index \<Rightarrow> string \<Rightarrow> string \<Rightarrow> (ast_unit \<times> rat) option" where
  "match_table_indexed idx key src_repo =
     (case table_candidates idx key src_repo of (cands, conf) \<Rightarrow> if length cands = 0 then None else Some (hd cands, conf))"

definition match_table :: "ast_unit list \<Rightarrow> string \<Rightarrow> string \<Rightarrow> (ast_unit \<times> rat) option" where
  "match_table units key src_repo = match_table_indexed (build_table_index units) key src_repo"

section \<open>The index of a run\<close>

record contract_index =
  ci_rpc :: rpc_index
  ci_routes :: route_index
  ci_tables :: table_index
  ci_ids :: "nat set"

definition new_contract_index :: "ast_unit list \<Rightarrow> ast_unit list \<Rightarrow> ast_unit list \<Rightarrow> contract_index" where
  "new_contract_index rpc_units route_units table_units =
     \<lparr> ci_rpc = build_rpc_index rpc_units, ci_routes = build_route_index route_units, ci_tables = build_table_index table_units,
       ci_ids = set (map u_id (rpc_units @ route_units @ table_units)) \<rparr>"

end
