(* ===== verification/Graph_Match_Facts.thy ===== *)
theory Graph_Match_Facts
  imports Graph_Contracts
begin

text \<open>
  The matching of the linker against its declarative reading: the indexes are exact, so that looking a
  key up in a bucket is scanning every unit; the orders decide every tie that the sources can tell
  apart; and what wins is the best match.
\<close>

section \<open>Indexes\<close>

text \<open>
  Every index is built by filing each unit under the keys of its entries. A bucket then holds the
  entries of its key, in the order of the units.
\<close>

locale bucket_index =
  fixes add :: "('k \<Rightarrow> 'v list) \<Rightarrow> 'u \<Rightarrow> ('k \<Rightarrow> 'v list)"
    and entries :: "'u \<Rightarrow> ('k \<times> 'v) list"
  assumes add_entries: "add idx u = foldl (\<lambda>i (k, v). push_to k v i) idx (entries u)"
begin

lemma push_entries: "foldl (\<lambda>i (k, v). push_to k v i) idx es k = idx k @ map snd (filter (\<lambda>e. fst e = k) es)"
  by (induction es arbitrary: idx) (auto simp: push_to_def)

lemma bucket: "foldl add idx us k = idx k @ concat (map (\<lambda>u. map snd (filter (\<lambda>e. fst e = k) (entries u))) us)"
  by (induction us arbitrary: idx) (simp_all add: add_entries push_entries)

end

definition config_entries :: "ast_unit \<Rightarrow> (string \<times> indexed_config_key) list" where
  "config_entries u =
     (let k = index_config_key u; p = (if ck_path k \<noteq> [] then last (ck_path k) else []) in
      (if ck_path k \<noteq> [] then [(p, k)] else []) @
      (if length (ck_leaf k) \<ge> min_leaf_components \<and> last (ck_leaf k) \<noteq> p then [(last (ck_leaf k), k)] else []))"

interpretation config_buckets: bucket_index add_config_key config_entries
  by unfold_locales (auto simp: add_config_key_def config_entries_def Let_def)

definition rpc_entries :: "ast_unit \<Rightarrow> (string \<times> indexed_rpc) list" where
  "rpc_entries u = (case parse_grpc (u_qualified u) of (svc, meth, ok) \<Rightarrow> if ok then [(meth, \<lparr> ir_unit = u, ir_svc = svc \<rparr>)] else [])"

interpretation rpc_buckets: bucket_index add_rpc rpc_entries
  by unfold_locales (simp add: add_rpc_def rpc_entries_def split: prod.splits)

definition parsed_route :: "ast_unit \<Rightarrow> indexed_route option" where
  "parsed_route u = (case parse_http (u_qualified u) of (meth, path, ok) \<Rightarrow>
     if ok then Some \<lparr> it_unit = u, it_method = meth, it_segs = split_path path \<rparr> else None)"

definition route_entries :: "ast_unit \<Rightarrow> (nat \<times> indexed_route) list" where
  "route_entries u = (case parsed_route u of None \<Rightarrow> [] | Some r \<Rightarrow> [(length (it_segs r), r)])"

interpretation route_buckets: bucket_index add_route route_entries
  by unfold_locales (simp add: add_route_def route_entries_def parsed_route_def Let_def split: prod.splits)

section \<open>Component suffixes\<close>

lemma has_component_suffix_iff: "has_component_suffix sq s \<longleftrightarrow> s \<noteq> [] \<and> (\<exists>p. sq = p @ s)"
proof
  assume h: "has_component_suffix sq s"
  then have ne: "s \<noteq> []" and le: "length s \<le> length sq"
    and nth: "\<And>i. i < length s \<Longrightarrow> sq ! (length sq - length s + i) = s ! i"
    by (auto simp: has_component_suffix_def Let_def list_all_iff split: if_splits)
  have "drop (length sq - length s) sq = s"
    using le nth by (intro nth_equalityI) simp_all
  then show "s \<noteq> [] \<and> (\<exists>p. sq = p @ s)" using ne by (metis append_take_drop_id)
next
  assume "s \<noteq> [] \<and> (\<exists>p. sq = p @ s)"
  then show "has_component_suffix sq s"
    by (auto simp: has_component_suffix_def Let_def list_all_iff nth_append)
qed

section \<open>Config keys\<close>

definition config_score :: "string \<Rightarrow> string \<Rightarrow> ast_unit \<Rightarrow> nat" where
  "config_score ref repo u =
     (let tier = config_match_tier (index_config_key u) (word_components ref)
      in if tier = 0 then 0 else tier * 2 + (if u_repo u = repo then 1 else 0))"

lemma config_tier_bucket:
  assumes "config_match_tier (index_config_key u) rc \<noteq> 0"
  shows "rc \<noteq> [] \<and> map snd (filter (\<lambda>e. fst e = last rc) (config_entries u)) = [index_config_key u]"
proof -
  let ?k = "index_config_key u"
  have leaf_ne: "last (ck_leaf ?k) \<noteq> []" if "ck_leaf ?k \<noteq> []"
    using word_components_component [of "last (ck_leaf ?k)" "u_name u"] last_in_set [OF that]
    by (simp add: index_config_key_def component_def)
  from assms consider (path) "has_component_suffix (ck_path ?k) rc"
    | (leaf) "length (ck_leaf ?k) \<ge> min_leaf_components" "has_component_suffix rc (ck_leaf ?k)"
    by (auto simp: config_match_tier_def config_no_match_def split: if_splits)
  then show ?thesis
  proof cases
    case path
    then have "rc \<noteq> []" "ck_path ?k \<noteq> []" "last (ck_path ?k) = last rc" by (auto simp: has_component_suffix_iff)
    then show ?thesis by (auto simp: config_entries_def Let_def)
  next
    case leaf
    then have "rc \<noteq> []" "ck_leaf ?k \<noteq> []" "last (ck_leaf ?k) = last rc" by (auto simp: has_component_suffix_iff)
    then show ?thesis using leaf(1) leaf_ne by (auto simp: config_entries_def Let_def)
  qed
qed

lemma config_entries_one:
  "map snd (filter (\<lambda>e. fst e = c) (config_entries u)) \<in> {[], [index_config_key u]}"
  by (auto simp: config_entries_def Let_def)

lemma config_step_skip: "config_match_tier k rc = 0 \<Longrightarrow> config_step rc repo acc k = acc"
  by (cases acc) (simp add: config_step_def config_no_match_def)

text \<open>Scanning the bucket of the last component is scanning every key.\<close>

lemma config_bucket_scan:
  assumes "rc \<noteq> []"
  shows "foldl (config_step rc repo) acc (build_config_index us (last rc)) = foldl (config_step rc repo) acc (map index_config_key us)"
proof -
  have "foldl (config_step rc repo) acc (map snd (filter (\<lambda>e. fst e = last rc) (config_entries u))) =
      config_step rc repo acc (index_config_key u)" for acc u
  proof (cases "config_match_tier (index_config_key u) rc = 0")
    case True
    then have "config_step rc repo acc (index_config_key u) = acc" by (rule config_step_skip)
    then show ?thesis using config_entries_one [of "last rc" u] by auto
  next
    case False
    then show ?thesis using config_tier_bucket by simp
  qed
  then have "foldl (config_step rc repo) acc (concat (map (\<lambda>u. map snd (filter (\<lambda>e. fst e = last rc) (config_entries u))) us)) =
      foldl (config_step rc repo) acc (map index_config_key us)" for acc
    by (induction us arbitrary: acc) simp_all
  then show ?thesis by (simp add: build_config_index_def config_buckets.bucket)
qed

text \<open>What the scan keeps is the best key so far.\<close>

definition config_best :: "string \<Rightarrow> string \<Rightarrow> ast_unit list \<Rightarrow> ast_unit option \<Rightarrow> bool" where
  "config_best ref repo us best \<longleftrightarrow>
     (case best of
        None \<Rightarrow> \<forall>w \<in> set us. config_score ref repo w = 0
      | Some u \<Rightarrow> u \<in> set us \<and> config_score ref repo u > 0 \<and>
          (\<forall>w \<in> set us. config_score ref repo w < config_score ref repo u \<or>
             config_score ref repo w = config_score ref repo u \<and> u_qualified u \<le> u_qualified w))"

lemma config_step_best:
  assumes "config_best ref repo us best" and "score = (case best of None \<Rightarrow> 0 | Some u \<Rightarrow> config_score ref repo u)"
    and "config_step (word_components ref) repo (best, score) (index_config_key u) = (best', score')"
  shows "config_best ref repo (us @ [u]) best' \<and> score' = (case best' of None \<Rightarrow> 0 | Some u \<Rightarrow> config_score ref repo u)"
proof -
  let ?tier = "config_match_tier (index_config_key u) (word_components ref)"
  have unit [simp]: "ck_unit (index_config_key u) = u" by (simp add: index_config_key_def)
  show ?thesis
  proof (cases "?tier = 0")
    case True
    then have "config_score ref repo u = 0" by (simp add: config_score_def)
    moreover have "best' = best" "score' = score" using assms(3) config_step_skip [OF True] by simp_all
    ultimately show ?thesis using assms(1,2) by (auto simp: config_best_def split: option.splits)
  next
    case False
    then have s: "config_score ref repo u = ?tier * 2 + (if u_repo u = repo then 1 else 0)" "config_score ref repo u > 0"
      by (simp_all add: config_score_def)
    have step: "(best', score') =
        (if config_score ref repo u > score \<or> config_score ref repo u = score \<and> (case best of None \<Rightarrow> False | Some b \<Rightarrow> u_qualified u < u_qualified b)
         then (Some u, config_score ref repo u) else (best, score))"
      using assms(3) False unfolding config_step_def prod.case Let_def config_no_match_def unit s(1) [symmetric] by simp
    show ?thesis
    proof (cases best)
      case None
      then show ?thesis using step assms(1,2) s(2) by (auto simp: config_best_def)
    next
      case (Some b)
      then have b: "b \<in> set us" "config_score ref repo b > 0" "score = config_score ref repo b"
        "\<And>w. w \<in> set us \<Longrightarrow> config_score ref repo w < config_score ref repo b \<or>
           config_score ref repo w = config_score ref repo b \<and> u_qualified b \<le> u_qualified w"
        using assms(1,2) by (auto simp: config_best_def)
      show ?thesis
      proof (cases "config_score ref repo u > score \<or> config_score ref repo u = score \<and> u_qualified u < u_qualified b")
        case True
        then have "best' = Some u" "score' = config_score ref repo u" using step Some by simp_all
        moreover have "config_score ref repo w < config_score ref repo u \<or>
            config_score ref repo w = config_score ref repo u \<and> u_qualified u \<le> u_qualified w" if "w \<in> set us" for w
          using b(4) [OF that] True b(3) by auto
        ultimately show ?thesis using s(2) by (auto simp: config_best_def)
      next
        case False
        then have "best' = Some b" "score' = score" using step Some by (auto split: if_splits)
        moreover have "config_score ref repo u < config_score ref repo b \<or>
            config_score ref repo u = config_score ref repo b \<and> u_qualified b \<le> u_qualified u"
          using False b(3) by auto
        ultimately show ?thesis using b by (auto simp: config_best_def)
      qed
    qed
  qed
qed

lemma config_scan_best:
  "\<exists>best. config_best ref repo us best \<and>
    foldl (config_step (word_components ref) repo) (None, 0) (map index_config_key us) =
      (best, case best of None \<Rightarrow> 0 | Some u \<Rightarrow> config_score ref repo u)"
proof (induction us rule: rev_induct)
  case Nil
  show ?case by (rule exI [of _ None]) (simp add: config_best_def)
next
  case (snoc u us)
  then obtain best where best: "config_best ref repo us best"
    and fold: "foldl (config_step (word_components ref) repo) (None, 0) (map index_config_key us) =
      (best, case best of None \<Rightarrow> 0 | Some u \<Rightarrow> config_score ref repo u)" by blast
  obtain best' score' where step: "config_step (word_components ref) repo
      (best, case best of None \<Rightarrow> 0 | Some u \<Rightarrow> config_score ref repo u) (index_config_key u) = (best', score')"
    by (cases "config_step (word_components ref) repo (best, case best of None \<Rightarrow> 0 | Some u \<Rightarrow> config_score ref repo u) (index_config_key u)")
  have "config_best ref repo (us @ [u]) best' \<and> score' = (case best' of None \<Rightarrow> 0 | Some u \<Rightarrow> config_score ref repo u)"
    by (rule config_step_best [OF best refl step])
  then show ?case using fold step by (intro exI [of _ best']) simp
qed

text \<open>
  C18: the value of a config reference is that of the best matching key of all repositories, although only
  one bucket of the index is looked at: no key scores higher, and among equals none has a smaller
  qualified name. Without a matching key the answer is empty.
\<close>

theorem config_lookup_is_best_match:
  "(match_config_key us ref repo = [] \<and> (\<forall>w \<in> set us. config_score ref repo w = 0)) \<or>
   (\<exists>u \<in> set us. match_config_key us ref repo = u_signature u \<and> config_score ref repo u > 0 \<and>
      (\<forall>w \<in> set us. config_score ref repo w < config_score ref repo u \<or>
         config_score ref repo w = config_score ref repo u \<and> u_qualified u \<le> u_qualified w))"
proof (cases "word_components ref = []")
  case True
  have "config_score ref repo w = 0" for w
    using config_tier_bucket [of w "[]"] True by (auto simp: config_score_def Let_def)
  then show ?thesis using True by (simp add: match_config_key_def match_config_key_indexed_def)
next
  case False
  obtain best where best: "config_best ref repo us best"
    and fold: "foldl (config_step (word_components ref) repo) (None, 0) (map index_config_key us) =
      (best, case best of None \<Rightarrow> 0 | Some u \<Rightarrow> config_score ref repo u)"
    using config_scan_best [of ref repo us] by blast
  have "match_config_key us ref repo = (case best of None \<Rightarrow> [] | Some u \<Rightarrow> u_signature u)"
    using False by (simp add: match_config_key_def match_config_key_indexed_def config_bucket_scan fold)
  then show ?thesis using best by (auto simp: config_best_def split: option.splits)
qed

definition demo_unit :: "nat \<Rightarrow> string \<Rightarrow> string \<Rightarrow> string \<Rightarrow> string \<Rightarrow> ast_unit" where
  "demo_unit i repo nm qualified sig = \<lparr> u_id = i, u_repo = repo, u_file = ''f'', u_language = [], u_kind = [], u_name = nm,
     u_qualified = qualified, u_parent = 0, u_start_line = 1, u_end_line = 1, u_start_byte = 0, u_end_byte = 0,
     u_signature = sig, u_doc = [], u_hash = [], u_meta = [] \<rparr>"

lemma demo_config_components:
  "word_components ''ORDERS_TOPIC'' = [''orders'', ''topic'']"
  "word_components ''kafka.orders-topic'' = [''kafka'', ''orders'', ''topic'']"
  by (simp_all add: go_eval)

lemma demo_config_tier:
  "config_match_tier (index_config_key (demo_unit i repo nm ''config:kafka.orders-topic'' sig)) [''orders'', ''topic''] = 2"
proof -
  have "trim_kind ''config:kafka.orders-topic'' KindConfig = ''kafka.orders-topic''"
    by (simp add: trim_kind_def kind_prefix_def trim_prefix_def has_prefix_def)
  then have "ck_path (index_config_key (demo_unit i repo nm ''config:kafka.orders-topic'' sig)) = [''kafka'', ''orders'', ''topic'']"
    by (simp add: index_config_key_def demo_unit_def demo_config_components)
  then show ?thesis by (simp add: config_match_tier_def config_path_match_def has_component_suffix_iff)
qed

theorem config_lookup_is_best_match_witness:
  "match_config_key [demo_unit 1 ''r'' ''orders-topic'' ''config:kafka.orders-topic'' ''orders.v1''] ''ORDERS_TOPIC'' ''s'' = ''orders.v1''"
proof -
  let ?u = "demo_unit 1 ''r'' ''orders-topic'' ''config:kafka.orders-topic'' ''orders.v1''"
  have "config_score ''ORDERS_TOPIC'' ''s'' ?u > 0"
    by (simp add: config_score_def demo_config_components demo_config_tier)
  then show ?thesis using config_lookup_is_best_match [of "[?u]" "''ORDERS_TOPIC''" "''s''"]
    by (simp add: demo_unit_def)
qed

text \<open>
  Two repositories that declare the same key with different values tie in score and in qualified name.
  The one loaded first wins, so the value another repository sees depends on the order of the rows.
\<close>

lemma config_tie_depends_on_order:
  "let a = demo_unit 1 ''a'' ''orders-topic'' ''config:kafka.orders-topic'' ''orders.v1'';
       b = demo_unit 2 ''b'' ''orders-topic'' ''config:kafka.orders-topic'' ''orders.v2''
   in match_config_key [a, b] ''ORDERS_TOPIC'' ''s'' = ''orders.v1'' \<and>
      match_config_key [b, a] ''ORDERS_TOPIC'' ''s'' = ''orders.v2''"
proof -
  have rc: "word_components ''ORDERS_TOPIC'' \<noteq> []" by (simp add: demo_config_components)
  have unit: "ck_unit (index_config_key u) = u" for u by (simp add: index_config_key_def)
  show ?thesis
    unfolding Let_def match_config_key_def match_config_key_indexed_def
    unfolding config_bucket_scan [OF rc]
    unfolding demo_config_components
    by (simp add: config_step_def demo_config_tier config_no_match_def unit) (simp add: demo_unit_def)
qed

section \<open>Orders\<close>

text \<open>Both comparators are the order of a tuple of fields.\<close>

lemma lt_order_key: "lt_order (\<lambda>a b. key a < key b)" for key :: "'a \<Rightarrow> 'b::linorder"
  by unfold_locales auto

definition place_in_file :: "ast_unit \<Rightarrow> int \<times> int \<times> string \<times> string" where
  "place_in_file u = (u_start_line u, u_start_byte u, u_kind u, u_name u)"

definition unit_key :: "ast_unit \<Rightarrow> string \<times> string \<times> string \<times> int \<times> int \<times> string \<times> string" where
  "unit_key u = (u_repo u, u_qualified u, u_file u, place_in_file u)"

lemma unit_lt_key: "unit_lt a b \<longleftrightarrow> unit_key a < unit_key b"
  by (auto simp: unit_lt_def unit_key_def before_in_file_def place_in_file_def less_prod_simp)

definition route_key :: "scored_route \<Rightarrow> rat \<times> bool \<times> string \<times> string \<times> int \<times> int \<times> string \<times> string" where
  "route_key r = (- sr_score r, sr_same_repo r, u_repo (sr_unit r), u_file (sr_unit r), place_in_file (sr_unit r))"

lemma route_lt_key: "route_lt a b \<longleftrightarrow> route_key a < route_key b"
  by (auto simp: route_lt_def route_key_def before_in_file_def place_in_file_def less_prod_simp)

interpretation unit_order: lt_order unit_lt
  unfolding unit_lt_key [abs_def] by (rule lt_order_key)

interpretation route_order: lt_order route_lt
  unfolding route_lt_key [abs_def] by (rule lt_order_key)

text \<open>
  Candidates come out in one order whatever order the store returned them in, as long as no two of them
  sit at one place of one file under one name.
\<close>

lemma sort_units_stable:
  assumes "mset us = mset vs" and "inj_on unit_key (set us)"
  shows "sort_units us = sort_units vs"
  unfolding sort_units_def
  by (rule unit_order.sort_lt_unique [OF assms(1)])
    (use assms(2) in \<open>auto simp: unit_lt_key inj_on_def not_less intro: antisym\<close>)

end
