(* ===== verification/Graph_Route_Facts.thy ===== *)
theory Graph_Route_Facts
  imports Graph_Match_Facts
begin

text \<open>
  Which route an HTTP call is linked to, and which gRPC method a client key: the scores as bounds, and
  the candidates as the matching units of all repositories, best first.
\<close>

section \<open>Scores\<close>

definition seg_matches :: "string \<Rightarrow> string \<Rightarrow> bool" where
  "seg_matches c r \<longleftrightarrow> equal_fold c r \<or> is_path_param r \<or> is_path_param c"

definition methods_match :: "string \<Rightarrow> string \<Rightarrow> bool" where
  "methods_match m m' \<longleftrightarrow> m = m' \<or> m = ''ANY'' \<or> m' = ''ANY''"

lemma conf_exact_eq: "conf_exact = 15938355 / 16777216"
  by (simp add: conf_exact_def float_eval)

lemma route_factor_eq: "route_path_param_factor = 15938355 / 16777216" "route_method_any_factor = 13421773 / 16777216"
  by (simp_all add: route_path_param_factor_def route_method_any_factor_def float_eval)

lemma conf_exact_representable: "f32.representable conf_exact"
  by (simp add: conf_exact_def)

text \<open>A score loses a little with every parameter and never becomes zero.\<close>

lemma path_score_bounds:
  assumes "length cs = length rs" and "f32.representable s" and "0 < s" and "s \<le> 1"
  shows "(path_score s cs rs = None \<longleftrightarrow> \<not> list_all2 seg_matches cs rs) \<and>
    (\<forall>p. path_score s cs rs = Some p \<longrightarrow> f32.representable p \<and> 0 < p \<and> p \<le> s)"
  using assms
proof (induction cs rs arbitrary: s rule: list_induct2)
  case Nil
  then show ?case by simp
next
  case (Cons c cs r rs)
  let ?s = "f32 (s * route_path_param_factor)"
  have less: "s * route_path_param_factor \<le> s" using Cons.prems(2) by (simp add: route_factor_eq)
  have "0 < ?s" by (rule f32_scale_pos [OF Cons.prems(1,2)]) (simp add: route_factor_eq)
  moreover have "?s \<le> s" using f32.rnd_le [OF Cons.prems(1) less] .
  ultimately show ?case
    using Cons.IH [OF Cons.prems] Cons.IH [of ?s] Cons.prems(3) by (auto simp: seg_matches_def)
qed

lemma path_score_literal: "list_all2 equal_fold cs rs \<Longrightarrow> path_score s cs rs = Some s"
  by (induction rule: list_all2_induct) simp_all

lemma f32_shrink:
  assumes "f32.representable a" and "0 \<le> a" and "0 \<le> b" and "b \<le> 1"
  shows "f32 (a * b) \<le> a"
  using mult_left_mono [OF assms(4,2)] by (intro f32.rnd_le [OF assms(1)]) simp

lemma route_score_bounds:
  "(0 < route_match_score_segs m cs m' rs \<longleftrightarrow> methods_match m m' \<and> list_all2 seg_matches cs rs) \<and>
   0 \<le> route_match_score_segs m cs m' rs \<and> route_match_score_segs m cs m' rs \<le> conf_exact \<and>
   (m = m' \<and> list_all2 equal_fold cs rs \<longrightarrow> route_match_score_segs m cs m' rs = conf_exact)"
proof (cases "methods_match m m' \<and> length cs = length rs")
  case False
  then have "route_match_score_segs m cs m' rs = 0" by (auto simp: route_match_score_segs_def methods_match_def)
  then show ?thesis using False by (auto simp: conf_exact_eq methods_match_def dest: list_all2_lengthD)
next
  case True
  let ?ms = "if m = m' then 1 else route_method_any_factor"
  let ?b = "f32 (route_base_score * ?ms)"
  note ps = path_score_bounds [of cs rs 1]
  have base: "f32.representable route_base_score" "0 < route_base_score"
    by (simp_all add: route_base_score_def conf_exact_representable) (simp add: conf_exact_eq)
  have "0 < ?b" by (rule f32_scale_pos [OF base]) (simp add: route_factor_eq)
  moreover have "?b \<le> route_base_score" using base by (intro f32_shrink) (simp_all add: route_factor_eq)
  ultimately have b: "f32.representable ?b" "0 < ?b" "?b \<le> conf_exact" by (simp_all add: route_base_score_def)
  have score: "route_match_score_segs m cs m' rs = (case path_score 1 cs rs of None \<Rightarrow> 0 | Some p \<Rightarrow> f32 (?b * p))"
    using True by (simp add: route_match_score_segs_def methods_match_def)
  show ?thesis
  proof (cases "path_score 1 cs rs")
    case None
    then show ?thesis using ps True unfolding score
      by (auto simp: conf_exact_eq f32.representable_def path_score_literal)
  next
    case (Some p)
    then have p: "f32.representable p" "0 < p" "p \<le> 1" "list_all2 seg_matches cs rs"
      using ps True by (auto simp: f32.representable_def)
    have "f32.representable (3 / 4)" by (simp add: f32.representable_def) (simp add: float_eval)
    moreover have "3 / 4 \<le> route_base_score * ?ms" by (simp add: route_base_score_def conf_exact_eq route_factor_eq)
    ultimately have "3 / 4 \<le> ?b" by (rule f32.rnd_ge)
    then have "0 < f32 (p * ?b)" by (intro f32_scale_pos [OF p(1,2)]) simp
    moreover have "f32 (?b * p) \<le> ?b" using b p by (intro f32_shrink) simp_all
    moreover have "f32 (?b * p) = conf_exact" if "m = m'" "list_all2 equal_fold cs rs"
      using that Some path_score_literal [of cs rs 1] conf_exact_representable
      by (simp add: route_base_score_def f32.representable_def)
    ultimately show ?thesis using True p(4) b(3) Some unfolding score by (auto simp: mult.commute)
  qed
qed

section \<open>Routes\<close>

definition route_fits :: "string \<Rightarrow> ast_unit \<Rightarrow> bool" where
  "route_fits key u =
     (case parse_http key of (m, p, ok) \<Rightarrow> case parse_http (u_qualified u) of (m', p', ok') \<Rightarrow>
        ok \<and> ok' \<and> methods_match m m' \<and> list_all2 seg_matches (split_path p) (split_path p'))"

definition route_score_of :: "string \<Rightarrow> ast_unit \<Rightarrow> rat" where
  "route_score_of key u =
     (case parse_http key of (m, p, ok) \<Rightarrow> case parse_http (u_qualified u) of (m', p', ok') \<Rightarrow> route_match_score m p m' p')"

definition scored :: "string \<Rightarrow> string \<Rightarrow> ast_unit \<Rightarrow> scored_route" where
  "scored key src u = \<lparr> sr_unit = u, sr_score = route_score_of key u, sr_same_repo = (u_repo u = src) \<rparr>"

lemma route_bucket: "set (build_route_index us n) = {r. \<exists>u \<in> set us. parsed_route u = Some r \<and> length (it_segs r) = n}"
proof -
  have "map snd (filter (\<lambda>e. fst e = n) (route_entries u)) =
      (case parsed_route u of None \<Rightarrow> [] | Some r \<Rightarrow> if length (it_segs r) = n then [r] else [])" for u
    by (simp add: route_entries_def split: option.splits)
  then show ?thesis
    by (auto simp: build_route_index_def route_buckets.bucket split: option.splits if_splits)
qed

text \<open>The candidates of a call are the fitting routes of all repositories, although one bucket is scanned.\<close>

lemma route_candidates_set:
  "set (route_candidates (build_route_index us) key src) = scored key src ` {u \<in> set us. route_fits key u}"
proof -
  obtain m p ok where key: "parse_http key = (m, p, ok)" by (cases "parse_http key") auto
  have one: "(\<exists>r. parsed_route u = Some r \<and> length (it_segs r) = length (split_path p) \<and> score_route m (split_path p) src r = Some y)
      \<longleftrightarrow> route_fits key u \<and> y = scored key src u" if "ok" for u y
  proof -
    obtain m' p' ok' where u: "parse_http (u_qualified u) = (m', p', ok')" by (cases "parse_http (u_qualified u)") auto
    note b = route_score_bounds [of m "split_path p" m' "split_path p'"]
    have fits: "route_fits key u \<longleftrightarrow> ok' \<and> methods_match m m' \<and> list_all2 seg_matches (split_path p) (split_path p')"
      using that by (simp add: route_fits_def key u)
    have score: "route_score_of key u = route_match_score_segs m (split_path p) m' (split_path p')"
      by (simp add: route_score_of_def key u route_match_score_def)
    show ?thesis
      using b that unfolding fits
      by (auto simp: parsed_route_def u score_route_def scored_def score Let_def not_le dest: list_all2_lengthD)
  qed
  show ?thesis
  proof (cases ok)
    case True
    have "set (route_candidates (build_route_index us) key src) =
        {y. \<exists>u \<in> set us. \<exists>r. parsed_route u = Some r \<and> length (it_segs r) = length (split_path p) \<and> score_route m (split_path p) src r = Some y}"
      using True by (auto simp: route_candidates_def key set_map_filter route_bucket Let_def)
    then show ?thesis unfolding one [OF True] by auto
  next
    case False
    then show ?thesis by (simp add: route_candidates_def key route_fits_def)
  qed
qed

lemma route_candidates_order: "route_order.in_order (route_candidates (build_route_index us) key src)"
  by (auto simp: route_candidates_def route_order.in_order_sort Let_def split: prod.splits) (simp add: route_order.in_order_def)

lemma not_route_lt:
  "\<not> route_lt a b \<Longrightarrow> sr_score a < sr_score b \<or> sr_score a = sr_score b \<and> (sr_same_repo b \<longrightarrow> sr_same_repo a)"
  by (simp add: route_lt_def split: if_splits)

text \<open>
  C19: an HTTP call is linked to a route exactly when some repository declares one that fits: the same
  number of segments, each equal up to case or a parameter on either side, and compatible methods. The
  chosen route has the highest score of all that fit, another repository's before the caller's own
  among equals; the score lies above zero and reaches the exact tier for a literal match.
\<close>

theorem route_link_is_best_fit:
  "(match_route us key src = None \<longleftrightarrow> (\<forall>w \<in> set us. \<not> route_fits key w)) \<and>
   (\<forall>u s. match_route us key src = Some (u, s) \<longrightarrow>
      u \<in> set us \<and> route_fits key u \<and> s = route_score_of key u \<and> 0 < s \<and> s \<le> conf_exact \<and>
      (\<forall>w \<in> set us. route_fits key w \<longrightarrow> route_score_of key w < s \<or>
         route_score_of key w = s \<and> (u_repo u = src \<longrightarrow> u_repo w = src)))"
proof -
  let ?cs = "route_candidates (build_route_index us) key src"
  have set: "set ?cs = scored key src ` {u \<in> set us. route_fits key u}" by (rule route_candidates_set)
  have range: "route_fits key u \<Longrightarrow> 0 < route_score_of key u \<and> route_score_of key u \<le> conf_exact" for u
    using route_score_bounds by (auto simp: route_fits_def route_score_of_def route_match_score_def split: prod.splits)
  show ?thesis
  proof (cases ?cs)
    case Nil
    then have "\<forall>w \<in> set us. \<not> route_fits key w" using set by auto
    then show ?thesis using Nil by (simp add: match_route_def match_route_indexed_def)
  next
    case (Cons c cs)
    have "c \<in> scored key src ` {u \<in> set us. route_fits key u}" using set Cons by auto
    then obtain u where u: "u \<in> set us" "route_fits key u" "c = scored key src u" by auto
    have m: "match_route us key src = Some (u, route_score_of key u)"
      using Cons u(3) by (simp add: match_route_def match_route_indexed_def scored_def)
    have "\<not> route_lt (scored key src w) c" if "w \<in> set us" "route_fits key w" for w
    proof -
      have "scored key src w \<in> set (c # cs)" using that set Cons by auto
      then show ?thesis using route_candidates_order [of us key src] route_order.lt_irrefl
        unfolding Cons route_order.in_order_def by auto
    qed
    then have best: "route_score_of key w < route_score_of key u \<or>
        route_score_of key w = route_score_of key u \<and> (u_repo u = src \<longrightarrow> u_repo w = src)"
      if "w \<in> set us" "route_fits key w" for w
      using not_route_lt [of "scored key src w" c] that unfolding u(3) by (simp add: scored_def)
    show ?thesis unfolding m option.simps prod.simps
      using u(1,2) range [OF u(2)] best by blast
  qed
qed

section \<open>gRPC methods\<close>

definition rpc_parsed :: "ast_unit list \<Rightarrow> string \<Rightarrow> indexed_rpc list" where
  "rpc_parsed us meth = concat (map (\<lambda>u. case parse_grpc (u_qualified u) of (svc, m, ok) \<Rightarrow>
     if ok \<and> m = meth then [\<lparr> ir_unit = u, ir_svc = svc \<rparr>] else []) us)"

lemma rpc_bucket: "build_rpc_index us meth = rpc_parsed us meth"
proof -
  have "map snd (filter (\<lambda>e. fst e = meth) (rpc_entries u)) =
      (case parse_grpc (u_qualified u) of (svc, m, ok) \<Rightarrow> if ok \<and> m = meth then [\<lparr> ir_unit = u, ir_svc = svc \<rparr>] else [])" for u
    by (simp add: rpc_entries_def split: prod.splits)
  then show ?thesis by (simp add: build_rpc_index_def rpc_buckets.bucket rpc_parsed_def)
qed

text \<open>
  a gRPC edge is linked at exact confidence only when there is nothing to confuse it with: the key
  names a service, and one single method unit of all repositories has that service, or none has it and
  one single unit's service ends in it after a dot.
\<close>

theorem rpc_exact_link_is_unique:
  assumes "match_rpc us key = Some (u, conf)" and "conf \<ge> conf_exact"
  shows "\<exists>svc meth. parse_grpc key = (svc, meth, True) \<and> svc \<noteq> [] \<and> u \<in> set us \<and>
    (let same = filter (\<lambda>c. ir_svc c = svc) (rpc_parsed us meth);
         suffix = filter (\<lambda>c. has_suffix (ir_svc c) (''.'' @ svc)) (rpc_parsed us meth)
     in map ir_unit same = [u] \<or> same = [] \<and> map ir_unit suffix = [u])"
proof -
  obtain svc meth ok where key: "parse_grpc key = (svc, meth, ok)" by (cases "parse_grpc key") auto
  let ?cs = "rpc_parsed us meth"
  define exact where "exact = map ir_unit (filter (\<lambda>c. svc \<noteq> [] \<and> ir_svc c = svc) ?cs)"
  define suffix where "suffix = map ir_unit (filter (\<lambda>c. svc \<noteq> [] \<and> ir_svc c \<noteq> svc \<and> has_suffix (ir_svc c) (''.'' @ svc)) ?cs)"
  have low: "conf_heuristic < conf_exact" by (simp add: conf_heuristic_def conf_exact_def float_eval)
  have ok: "ok" using assms(1) by (auto simp: match_rpc_def match_rpc_indexed_def rpc_candidates_def key split: if_splits)
  have cands: "rpc_candidates (build_rpc_index us) key =
      (if exact \<noteq> [] then rpc_tier exact else if suffix \<noteq> [] then rpc_tier suffix
       else if ?cs = [] then ([], 0) else (sort_units (map ir_unit ?cs), conf_heuristic))"
    using ok by (simp add: rpc_candidates_def key rpc_bucket exact_def suffix_def Let_def)
  have single: "xs = [u]" if "rpc_tier xs = (cs, conf)" "cs \<noteq> []" "hd cs = u" for xs cs
  proof -
    have "length xs = 1" using that assms(2) low by (auto simp: rpc_tier_def split: if_splits)
    then obtain x where "xs = [x]" by (metis One_nat_def length_0_conv length_Suc_conv)
    then show ?thesis using that by (auto simp: rpc_tier_def sort_units_def)
  qed
  obtain cs where cs: "rpc_candidates (build_rpc_index us) key = (cs, conf)" "cs \<noteq> []" "hd cs = u"
    using assms(1) by (auto simp: match_rpc_def match_rpc_indexed_def split: prod.splits if_splits)
  have us: "ir_unit c \<in> set us" if "c \<in> set ?cs" for c
    using that by (auto simp: rpc_parsed_def split: prod.splits if_splits)
  from cs cands consider "exact = [u]" | "exact = []" "suffix = [u]"
    using single low assms(2) by (auto split: if_splits)
  then show ?thesis
  proof cases
    case 1
    then have s: "svc \<noteq> []" by (auto simp: exact_def)
    moreover have "u \<in> set us" using 1 us by (fastforce simp: exact_def map_eq_Cons_conv filter_eq_Cons_iff)
    ultimately show ?thesis using key ok 1 by (auto simp: exact_def Let_def)
  next
    case 2
    then have s: "svc \<noteq> []" by (auto simp: suffix_def)
    then have "filter (\<lambda>c. ir_svc c = svc) ?cs = []" using 2 by (simp add: exact_def)
    moreover from this have "filter (\<lambda>c. svc \<noteq> [] \<and> ir_svc c \<noteq> svc \<and> has_suffix (ir_svc c) (''.'' @ svc)) ?cs = filter (\<lambda>c. has_suffix (ir_svc c) (''.'' @ svc)) ?cs"
      using s by (intro filter_cong) (auto simp: filter_empty_conv)
    moreover have "u \<in> set us" using 2 us by (fastforce simp: suffix_def map_eq_Cons_conv filter_eq_Cons_iff)
    ultimately show ?thesis using key ok 2 s by (auto simp: suffix_def Let_def)
  qed
qed

section \<open>Examples\<close>

lemma demo_route_parse:
  "parse_http ''http:GET /users/42'' = (''GET'', ''/users/42'', True)"
  "parse_http ''http:GET /users/{}'' = (''GET'', ''/users/{}'', True)"
  "split_path ''/users/42'' = [''users'', ''42'']" "split_path ''/users/{}'' = [''users'', ''{}'']"
  by (simp_all add: parse_http_def split_path_def cut_kind_def kind_prefix_def go_eval)

theorem route_link_is_best_fit_witness:
  "\<exists>s. match_route [demo_unit 7 ''a'' ''users'' ''http:GET /users/{}'' []] ''http:GET /users/42'' ''b'' =
     Some (demo_unit 7 ''a'' ''users'' ''http:GET /users/{}'' [], s) \<and> 0 < s \<and> s \<le> conf_exact"
proof -
  let ?u = "demo_unit 7 ''a'' ''users'' ''http:GET /users/{}'' []"
  have "route_fits ''http:GET /users/42'' ?u"
    by (simp add: route_fits_def demo_unit_def demo_route_parse methods_match_def seg_matches_def equal_fold_def is_path_param_def)
  then have "match_route [?u] ''http:GET /users/42'' ''b'' \<noteq> None"
    using route_link_is_best_fit [of "[?u]" "''http:GET /users/42''" "''b''"] by simp
  then obtain v s where v: "match_route [?u] ''http:GET /users/42'' ''b'' = Some (v, s)" by auto
  from route_link_is_best_fit [of "[?u]" "''http:GET /users/42''" "''b''", THEN conjunct2, rule_format, OF v]
  have "v \<in> set [?u]" "0 < s" "s \<le> conf_exact" by blast+
  with v show ?thesis by simp
qed

lemma demo_rpc_parse:
  "parse_grpc ''grpc:Orders/Place'' = (''Orders'', ''Place'', True)"
  "parse_grpc ''grpc:shop.Orders/Place'' = (''shop.Orders'', ''Place'', True)"
  by (simp_all add: parse_grpc_def cut_kind_def kind_prefix_def go_eval)

theorem rpc_exact_link_is_unique_witness:
  "match_rpc [demo_unit 7 ''a'' ''Place'' ''grpc:shop.Orders/Place'' []] ''grpc:Orders/Place'' =
     Some (demo_unit 7 ''a'' ''Place'' ''grpc:shop.Orders/Place'' [], conf_exact) \<and>
   (\<exists>svc meth. parse_grpc ''grpc:Orders/Place'' = (svc, meth, True) \<and> svc \<noteq> [])"
proof -
  let ?u = "demo_unit 7 ''a'' ''Place'' ''grpc:shop.Orders/Place'' []"
  have q: "u_qualified ?u = ''grpc:shop.Orders/Place''" by (simp add: demo_unit_def)
  have "build_rpc_index [?u] ''Place'' = [\<lparr> ir_unit = ?u, ir_svc = ''shop.Orders'' \<rparr>]"
    unfolding rpc_bucket by (simp add: rpc_parsed_def q demo_rpc_parse)
  then have m: "match_rpc [?u] ''grpc:Orders/Place'' = Some (?u, conf_exact)"
    by (simp add: match_rpc_def match_rpc_indexed_def rpc_candidates_def demo_rpc_parse rpc_tier_def sort_units_def has_suffix_def)
  from rpc_exact_link_is_unique [OF m order_refl] m show ?thesis by auto
qed

end
