(* ===== verification/Graph_Linker.thy ===== *)
theory Graph_Linker
  imports Graph_Contracts
begin

text \<open>
  The linker's run (\<open>internal/graph/linker.go\<close>): local resolution, config references, contract
  resolution, derived Kafka flows, and the writer that batches edge resolutions. Reads of the store do
  not fail in the model; writes fail as \<open>link_faults\<close> says, and are counted as the code counts them.
  The chooser for ambiguous edges is a parameter.
\<close>

section \<open>Statistics and faults\<close>

record run_stats =
  st_local :: nat
  st_contracts :: nat
  st_skipped :: nat
  st_flows :: nat
  st_errors :: nat

definition new_stats :: run_stats where
  "new_stats = \<lparr> st_local = 0, st_contracts = 0, st_skipped = 0, st_flows = 0, st_errors = 0 \<rparr>"

type_synonym edge_key = "string \<times> string"

record link_faults =
  lf_batcher :: bool
  lf_write :: faults
  lf_meta :: "nat \<Rightarrow> bool"
  lf_delete :: "edge_key \<Rightarrow> bool"
  lf_restore :: "edge_key \<Rightarrow> bool"
  lf_flow :: "edge \<Rightarrow> bool"

section \<open>The resolution writer\<close>

definition resolution_buffer :: nat where
  "resolution_buffer = 1000"

record writer =
  wr_buf :: "resolution list"
  wr_applied :: nat

type_synonym link_state = "run_stats \<times> gdb"

definition new_writer :: writer where
  "new_writer = \<lparr> wr_buf = [], wr_applied = 0 \<rparr>"

definition writer_write :: "link_faults \<Rightarrow> resolution list \<Rightarrow> gdb \<Rightarrow> gdb \<times> failure list \<times> bool" where
  "writer_write lf buf d =
     (if lf_batcher lf then batch_update_edge_resolutions (lf_write lf) 0 buf d
      else case resolution_rows (lf_write lf) 0 buf d of (d', failures) \<Rightarrow> (d', failures, False))"

definition writer_flush :: "(resolution list \<Rightarrow> 'd \<Rightarrow> 'd \<times> failure list \<times> bool) \<Rightarrow> writer \<times> run_stats \<times> 'd \<Rightarrow> writer \<times> run_stats \<times> 'd" where
  "writer_flush write s =
     (case s of (w, st, d) \<Rightarrow>
       if length (wr_buf w) = 0 then s
       else case write (wr_buf w) d of (d', failures, err) \<Rightarrow>
         let applied = length (wr_buf w) - length failures;
             errors = st_errors st + (if err then applied else 0) + length failures
         in (\<lparr> wr_buf = [], wr_applied = wr_applied w + (if err then 0 else applied) \<rparr>, st\<lparr> st_errors := errors \<rparr>, d'))"

definition writer_add :: "(resolution list \<Rightarrow> 'd \<Rightarrow> 'd \<times> failure list \<times> bool) \<Rightarrow> resolution \<Rightarrow> writer \<times> run_stats \<times> 'd \<Rightarrow> writer \<times> run_stats \<times> 'd" where
  "writer_add write r s =
     (case s of (w, st, d) \<Rightarrow>
       let w' = w\<lparr> wr_buf := wr_buf w @ [r] \<rparr>
       in if length (wr_buf w') \<ge> resolution_buffer then writer_flush write (w', st, d) else (w', st, d))"

section \<open>Local edges\<close>

definition units_by_name :: "ast_unit list \<Rightarrow> string \<Rightarrow> ast_unit list" where
  "units_by_name units nm = sort_units (filter (\<lambda>u. u_name u = nm) units)"

definition local_resolution :: "codec \<Rightarrow> string \<Rightarrow> (string \<Rightarrow> ast_unit list) \<Rightarrow> unit_components \<Rightarrow> edge \<Rightarrow> unit_components \<times> resolution option" where
  "local_resolution jc repo by_name comps e =
     (let nm = last_component (e_dst_name e); cands = by_name nm in
      if length cands = 0 then (comps, None)
      else case resolve_local_target jc nm e cands comps of (comps, best, conf) \<Rightarrow>
        (comps, if e_dst e = u_id best \<and> e_dst_repo e = repo then None
                else Some \<lparr> r_edge = e_id e, r_dst = u_id best, r_dst_repo = repo, r_conf = confidence_after_resolve jc e conf \<rparr>))"

fun local_loop :: "codec \<Rightarrow> string \<Rightarrow> link_faults \<Rightarrow> (string \<Rightarrow> ast_unit list) \<Rightarrow> unit_components \<Rightarrow> edge list \<Rightarrow>
    writer \<times> run_stats \<times> gdb \<Rightarrow> writer \<times> run_stats \<times> gdb" where
  "local_loop jc repo lf by_name comps [] s = s"
| "local_loop jc repo lf by_name comps (e # es) s =
     (case local_resolution jc repo by_name comps e of (comps, r) \<Rightarrow>
       local_loop jc repo lf by_name comps es (case r of None \<Rightarrow> s | Some r \<Rightarrow> writer_add (writer_write lf) r s))"

definition resolve_local :: "codec \<Rightarrow> link_faults \<Rightarrow> string \<Rightarrow> link_state \<Rightarrow> link_state" where
  "resolve_local jc lf repo s =
     (case s of (st, d) \<Rightarrow>
       let units = get_ast_units (any_opts\<lparr> o_repo := repo, o_kinds := [''function'', ''method''] \<rparr>) d;
           edges = get_edges (any_opts\<lparr> o_repo := repo, o_kinds := [''call'', ''handled_by''] \<rparr>) d
       in case writer_flush (writer_write lf)
                 (local_loop jc repo lf (units_by_name units) new_unit_components edges (new_writer, st, d)) of
            (w, st, d) \<Rightarrow> (st\<lparr> st_local := st_local st + wr_applied w \<rparr>, d))"

section \<open>Config references\<close>

definition key_of :: "edge \<Rightarrow> edge_key" where
  "key_of e = (e_kind e, e_dst_name e)"

definition ref_of :: "codec \<Rightarrow> edge \<Rightarrow> string" where
  "ref_of jc e = (case parse_topic_ref (e_dst_name e) of (ref, ok) \<Rightarrow>
     if ok then ref else meta_field jc (e_meta e) meta_key_topic_ref)"

text \<open>The edge as its reference resolves it now, when that changes it.\<close>

definition rewrite_ref :: "codec \<Rightarrow> config_index \<Rightarrow> edge \<Rightarrow> edge option" where
  "rewrite_ref jc idx e =
     (let ref = ref_of jc e in
      if ref = [] then None
      else let found = match_config_key_indexed idx ref (e_repo e);
               v = (if found = [] then meta_default_topic jc (e_meta e) else found)
           in if v = [] then None
              else let nm = mk_topic v in
                if nm = e_dst_name e \<and> meta_field jc (e_meta e) meta_key_topic_ref = ref then None
                else Some (e\<lparr> e_dst_name := nm, e_meta := meta_with_field jc (e_meta e) meta_key_topic_ref ref \<rparr>))"

definition rewritten :: "codec \<Rightarrow> config_index \<Rightarrow> edge \<Rightarrow> edge" where
  "rewritten jc idx e = (case rewrite_ref jc idx e of None \<Rightarrow> e | Some e' \<Rightarrow> e')"

fun delete_groups :: "link_faults \<Rightarrow> edge_key list \<Rightarrow> link_state \<Rightarrow> link_state \<times> edge_key list" where
  "delete_groups lf [] s = (s, [])"
| "delete_groups lf (key # keys) s =
     (case s of (st, d) \<Rightarrow>
       if lf_delete lf key then delete_groups lf keys (st\<lparr> st_errors := Suc (st_errors st) \<rparr>, d)
       else case delete_groups lf keys (st, delete_edges_by_kind_and_dst (fst key) (snd key) d) of
              (s', pending) \<Rightarrow> (s', key # pending))"

fun restore_groups :: "link_faults \<Rightarrow> (edge_key \<Rightarrow> edge list) \<Rightarrow> edge_key list \<Rightarrow> link_state \<Rightarrow> link_state" where
  "restore_groups lf groups [] s = s"
| "restore_groups lf groups (key # keys) s =
     (case s of (st, d) \<Rightarrow>
       if lf_restore lf key then restore_groups lf groups keys (st\<lparr> st_errors := Suc (st_errors st) \<rparr>, d)
       else restore_groups lf groups keys (st, fst (batch_store_edges (map (\<lambda>e. e\<lparr> e_id := 0 \<rparr>) (groups key)) d)))"

text \<open>\<open>keys\<close> lists the keys of the group map.\<close>

definition rewrite_edge_groups :: "link_faults \<Rightarrow> edge_key list \<Rightarrow> (edge_key \<Rightarrow> edge list) \<Rightarrow> link_state \<Rightarrow> link_state" where
  "rewrite_edge_groups lf keys groups s =
     (let keys = sort (filter (\<lambda>key. groups key \<noteq> []) keys)
      in case delete_groups lf keys s of (s, pending) \<Rightarrow> restore_groups lf groups pending s)"

definition resolve_config_refs :: "codec \<Rightarrow> link_faults \<Rightarrow> link_state \<Rightarrow> link_state \<times> string list" where
  "resolve_config_refs jc lf s =
     (case s of (st, d) \<Rightarrow>
       let edges = get_edges (any_opts\<lparr> o_kinds := [''produces'', ''consumes''] \<rparr>) d in
       if filter (\<lambda>e. ref_of jc e \<noteq> []) edges = [] then (s, [])
       else
         let idx = build_config_index (get_ast_units (any_opts\<lparr> o_kind := ''config_key'' \<rparr>) d);
             moved = filter (\<lambda>e. rewrite_ref jc idx e \<noteq> None) edges;
             touched = concat (map (\<lambda>e. [e_dst_name e, e_dst_name (rewritten jc idx e)]) moved);
             dirty = remdups (map key_of moved);
             groups = (\<lambda>key. map (rewritten jc idx) (filter (\<lambda>e. key_of e = key) edges))
         in (rewrite_edge_groups lf dirty groups s, touched))"

section \<open>Disambiguation\<close>

definition max_disambig_calls :: nat where
  "max_disambig_calls = 20"

record disambig_run =
  ds_cache :: "string \<rightharpoonup> ast_unit option"
  ds_calls :: nat

definition new_disambig_run :: disambig_run where
  "new_disambig_run = \<lparr> ds_cache = Map.empty, ds_calls = 0 \<rparr>"

fun prompt_lines :: "nat \<Rightarrow> ast_unit list \<Rightarrow> string" where
  "prompt_lines i [] = []"
| "prompt_lines i (c # cs) =
     itoa (int i) @ '') '' @ u_qualified c @ '' (repo='' @ u_repo c @ '', file='' @ u_file c @ '')'' @ [CHR 0x0A] @ prompt_lines (Suc i) cs"

definition disambig_prompt :: "edge \<Rightarrow> ast_unit list \<Rightarrow> string" where
  "disambig_prompt e cands =
     ''A cross-service code graph edge has several possible destinations.'' @ [CHR 0x0A] @
     ''Call: '' @ e_dst_name e @ '' (edge kind '' @ e_kind e @ '') at '' @ e_file e @ '':'' @ itoa (e_line e) @ '' in repo '' @ e_repo e @ [CHR 0x0A] @
     ''Candidates:'' @ [CHR 0x0A] @ prompt_lines 0 cands @
     ''Which candidate is the actual destination of this call? Reply with the number only, or -1 if unsure.''"

type_synonym chooser = "string \<Rightarrow> int \<times> bool"

definition disambiguate :: "chooser \<Rightarrow> disambig_run \<Rightarrow> edge \<Rightarrow> ast_unit list \<Rightarrow> disambig_run \<times> ast_unit option" where
  "disambiguate ask ds e cands =
     (case ds_cache ds (e_dst_name e) of
        Some pick \<Rightarrow>
          (ds, case pick of
                 None \<Rightarrow> None
               | Some u \<Rightarrow> if list_ex (\<lambda>c. u_id c = u_id u) cands then Some u else None)
      | None \<Rightarrow>
          if ds_calls ds \<ge> max_disambig_calls then (ds, None)
          else let ds = ds\<lparr> ds_calls := Suc (ds_calls ds) \<rparr> in
            case ask (disambig_prompt e cands) of (choice, ok) \<Rightarrow>
              if \<not> ok \<or> choice < 0 \<or> choice \<ge> int (length cands)
              then (ds\<lparr> ds_cache := (ds_cache ds)(e_dst_name e \<mapsto> None) \<rparr>, None)
              else let u = cands ! nat choice
                   in (ds\<lparr> ds_cache := (ds_cache ds)(e_dst_name e \<mapsto> Some u) \<rparr>, Some u))"

section \<open>Contract edges\<close>

record contract_match =
  cm_cands :: "ast_unit list"
  cm_conf :: rat
  cm_ambiguous :: bool

definition contract_candidates :: "contract_index \<Rightarrow> edge \<Rightarrow> contract_match" where
  "contract_candidates idx e =
     (if e_kind e = ''rpc_call'' \<or> e_kind e = ''implements_rpc'' then
        (case rpc_candidates (ci_rpc idx) (e_dst_name e) of (cands, conf) \<Rightarrow>
          \<lparr> cm_cands = cands, cm_conf = conf, cm_ambiguous = (conf \<le> conf_heuristic \<and> length cands > 1) \<rparr>)
      else if e_kind e = ''http_call'' then
        (let cands = route_candidates (ci_routes idx) (e_dst_name e) (e_repo e) in
          \<lparr> cm_cands = map sr_unit cands, cm_conf = (if cands = [] then 0 else sr_score (hd cands)), cm_ambiguous = routes_ambiguous cands \<rparr>)
      else if e_kind e = ''writes_to'' \<or> e_kind e = ''reads_from'' then
        (case table_candidates (ci_tables idx) (e_dst_name e) (e_repo e) of (cands, conf) \<Rightarrow>
          \<lparr> cm_cands = cands, cm_conf = conf, cm_ambiguous = (conf \<le> conf_cross_file \<and> length cands > 1) \<rparr>)
      else \<lparr> cm_cands = [], cm_conf = 0, cm_ambiguous = False \<rparr>)"

text \<open>The destination of an edge, its confidence, and whether the chooser picked it.\<close>

definition contract_target :: "contract_index \<Rightarrow> chooser option \<Rightarrow> disambig_run \<Rightarrow> edge \<Rightarrow> disambig_run \<times> (ast_unit \<times> rat \<times> bool) option" where
  "contract_target idx dis ds e =
     (let cm = contract_candidates idx e in
      if cm_cands cm = [] then (ds, None)
      else case dis of
        None \<Rightarrow> (ds, Some (hd (cm_cands cm), cm_conf cm, False))
      | Some ask \<Rightarrow>
          if cm_ambiguous cm then
            (case disambiguate ask ds e (cm_cands cm) of
               (ds, Some pick) \<Rightarrow> (ds, Some (pick, conf_high, True))
             | (ds, None) \<Rightarrow> (ds, Some (hd (cm_cands cm), cm_conf cm, False)))
          else (ds, Some (hd (cm_cands cm), cm_conf cm, False)))"

record contract_state =
  cs_ds :: disambig_run
  cs_link :: writer
  cs_clear :: writer
  cs_stats :: run_stats
  cs_db :: gdb

text \<open>After the chooser's resolution is stored, the edge records where it came from.\<close>

definition mark_chosen :: "codec \<Rightarrow> link_faults \<Rightarrow> edge \<Rightarrow> disambig_run \<Rightarrow> gdb \<Rightarrow> contract_state \<Rightarrow> contract_state" where
  "mark_chosen jc lf e ds d c =
     (let failed = (lf_meta lf (e_id e) \<or> \<not> list_ex (\<lambda>x. e_id x = e_id e) (g_edges d));
          d' = (if lf_meta lf (e_id e) then d else fst (update_edge_meta (e_id e) (meta_with_llm_source jc (e_meta e)) d));
          st = cs_stats c
      in c\<lparr> cs_ds := ds, cs_db := d', cs_stats := st\<lparr> st_errors := st_errors st + (if failed then 1 else 0), st_contracts := Suc (st_contracts st) \<rparr> \<rparr>)"

definition contract_step :: "codec \<Rightarrow> link_faults \<Rightarrow> contract_index \<Rightarrow> chooser option \<Rightarrow> contract_state \<Rightarrow> edge \<Rightarrow> contract_state" where
  "contract_step jc lf idx dis c e =
     (if e_dst e \<noteq> 0 \<and> e_dst e \<in> ci_ids idx
      then c\<lparr> cs_stats := (cs_stats c)\<lparr> st_skipped := Suc (st_skipped (cs_stats c)) \<rparr> \<rparr>
      else case contract_target idx dis (cs_ds c) e of
        (ds, None) \<Rightarrow>
          if e_dst e \<noteq> 0 then
            (case writer_add (writer_write lf) \<lparr> r_edge = e_id e, r_dst = 0, r_dst_repo = [], r_conf = e_conf e \<rparr>
                    (cs_clear c, cs_stats c, cs_db c) of
               (w, st, d) \<Rightarrow> c\<lparr> cs_ds := ds, cs_clear := w, cs_stats := st, cs_db := d \<rparr>)
          else c\<lparr> cs_ds := ds \<rparr>
      | (ds, Some (dst, conf, llm)) \<Rightarrow>
          if e_dst e = u_id dst \<and> e_dst_repo e = u_repo dst then c\<lparr> cs_ds := ds \<rparr>
          else
            let r = \<lparr> r_edge = e_id e, r_dst = u_id dst, r_dst_repo = u_repo dst, r_conf = confidence_after_resolve jc e conf \<rparr> in
            if \<not> llm then
              (case writer_add (writer_write lf) r (cs_link c, cs_stats c, cs_db c) of
                 (w, st, d) \<Rightarrow> c\<lparr> cs_ds := ds, cs_link := w, cs_stats := st, cs_db := d \<rparr>)
            else
              (case update_edge_resolution (lf_write lf) r (cs_db c) of
                 (d, Some err) \<Rightarrow> c\<lparr> cs_ds := ds, cs_db := d, cs_stats := (cs_stats c)\<lparr> st_errors := Suc (st_errors (cs_stats c)) \<rparr> \<rparr>
               | (d, None) \<Rightarrow> mark_chosen jc lf e ds d c))"

definition resolve_contracts :: "codec \<Rightarrow> link_faults \<Rightarrow> chooser option \<Rightarrow> link_state \<Rightarrow> link_state" where
  "resolve_contracts jc lf dis s =
     (case s of (st, d) \<Rightarrow>
       let idx = new_contract_index (get_ast_units (any_opts\<lparr> o_kinds := [''rpc_method''] \<rparr>) d)
                   (get_ast_units (any_opts\<lparr> o_kinds := [''http_route''] \<rparr>) d) (get_ast_units (any_opts\<lparr> o_kinds := [''db_table''] \<rparr>) d);
           edges = get_edges (any_opts\<lparr> o_kinds := [''rpc_call'', ''implements_rpc'', ''http_call'', ''writes_to'', ''reads_from''] \<rparr>) d;
           c = foldl (contract_step jc lf idx dis)
                 \<lparr> cs_ds = new_disambig_run, cs_link = new_writer, cs_clear = new_writer, cs_stats = st, cs_db = d \<rparr> edges
       in case writer_flush (writer_write lf) (cs_link c, cs_stats c, cs_db c) of (link, st, d) \<Rightarrow>
          case writer_flush (writer_write lf) (cs_clear c, st, d) of (clear, st, d) \<Rightarrow>
            (st\<lparr> st_contracts := st_contracts st + wr_applied link \<rparr>, d))"

section \<open>Kafka flows\<close>

definition flow_edge :: "edge \<Rightarrow> edge \<Rightarrow> edge" where
  "flow_edge p c =
     \<lparr> e_id = 0, e_repo = e_repo p, e_src = e_src p, e_dst = e_src c, e_kind = ''kafka_flow'', e_dst_name = e_dst_name p,
       e_file = e_file p, e_line = e_line p, e_dst_repo = e_repo c,
       e_conf = f32 ((if e_conf c < e_conf p then e_conf c else e_conf p) * conf_exact), e_meta = e_meta p \<rparr>"

definition store_flow :: "link_faults \<Rightarrow> link_state \<Rightarrow> edge \<Rightarrow> link_state" where
  "store_flow lf s flow =
     (case s of (st, d) \<Rightarrow>
       if lf_flow lf flow then (st\<lparr> st_errors := Suc (st_errors st) \<rparr>, d)
       else (st\<lparr> st_flows := Suc (st_flows st) \<rparr>, fst (store_edge flow d)))"

text \<open>\<open>None\<close> stands for all topics.\<close>

definition affected_topics :: "string \<Rightarrow> string list \<Rightarrow> edge list \<Rightarrow> edge list \<Rightarrow> edge list \<Rightarrow> string list option" where
  "affected_topics repo touched produces consumes flows =
     (if repo = [] then None
      else Some (touched @ map e_dst_name (filter (\<lambda>e. e_repo e = repo) (produces @ consumes)) @
                 map e_dst_name (filter (\<lambda>f. e_repo f = repo \<or> e_dst_repo f = repo) flows)))"

definition derive_kafka_flows :: "link_faults \<Rightarrow> string \<Rightarrow> string list \<Rightarrow> link_state \<Rightarrow> link_state" where
  "derive_kafka_flows lf repo touched s =
     (case s of (st, d) \<Rightarrow>
       let produces = get_edges (any_opts\<lparr> o_kind := ''produces'' \<rparr>) d;
           consumes = get_edges (any_opts\<lparr> o_kind := ''consumes'' \<rparr>) d;
           affected = affected_topics repo touched produces consumes (get_edges (any_opts\<lparr> o_kind := ''kafka_flow'' \<rparr>) d)
       in if affected = Some [] then s
          else
            let d = (case affected of
                       None \<Rightarrow> delete_edges_by_kind [] ''kafka_flow'' d
                     | Some topics \<Rightarrow> foldl (\<lambda>d t. delete_edges_by_kind_and_dst ''kafka_flow'' t d) d topics);
                flows = concat (map (\<lambda>p. if (case affected of None \<Rightarrow> True | Some topics \<Rightarrow> e_dst_name p \<in> set topics)
                                         then map (flow_edge p) (filter (\<lambda>c. e_dst_name c = e_dst_name p) consumes) else []) produces)
            in foldl (store_flow lf) (st, d) flows)"

section \<open>A run\<close>

definition run_with_stats :: "codec \<Rightarrow> link_faults \<Rightarrow> chooser option \<Rightarrow> string \<Rightarrow> gdb \<Rightarrow> run_stats \<times> gdb" where
  "run_with_stats jc lf dis repo d =
     (let s = resolve_local jc lf repo (new_stats, d);
          (s, touched) = resolve_config_refs jc lf s;
          s = resolve_contracts jc lf dis s
      in derive_kafka_flows lf repo touched s)"

end
