(* ===== verification/Graph_Store_Facts.thy ===== *)
theory Graph_Store_Facts
  imports Graph_Store
begin

text \<open>
  Facts about the unit and edge tables: an operation run chunk by chunk is the operation run once, a
  deletion of files leaves no edge pointing at a unit that is gone, and a batch of resolutions ends the
  same way however its transactions fail.
\<close>

section \<open>Chunks\<close>

text \<open>
  \<open>eachPathChunk\<close> serves operations that may be split: doing nothing for no arguments, and taking a
  longer list as its parts one after the other. For those the chunk size does not show.
\<close>

locale splittable =
  fixes act :: "'p list \<Rightarrow> 'd \<Rightarrow> 'd"
  assumes act_nil: "act [] d = d"
    and act_append: "act (ps @ qs) d = act qs (act ps d)"
begin

lemma each_chunk: "each_path_chunk ps act d = act ps d"
proof (induction "length ps" arbitrary: ps d rule: less_induct)
  case less
  show ?case
  proof (cases "ps = []")
    case True
    then show ?thesis by (simp add: each_path_chunk.simps act_nil)
  next
    case False
    then have "each_path_chunk ps act d = act (drop path_chunk ps) (act (take path_chunk ps) d)"
      using less by (subst each_path_chunk.simps) (simp add: path_chunk_def)
    then show ?thesis using act_append [of "take path_chunk ps" "drop path_chunk ps"] by simp
  qed
qed

end

lemma delete_edges_or: "delete_edges Q (delete_edges P d) = delete_edges (\<lambda>e. P e \<or> Q e) d"
  by (simp add: delete_edges_def conj_commute)

lemma delete_edges_none: "(\<And>e. \<not> P e) \<Longrightarrow> delete_edges P d = d"
  by (simp add: delete_edges_def)

definition edges_of_files :: "string \<Rightarrow> string list \<Rightarrow> gdb \<Rightarrow> gdb" where
  "edges_of_files repo paths = delete_edges (\<lambda>e. e_repo e = repo \<and> e_file e \<in> set paths)"

definition edges_of_kind_files :: "string \<Rightarrow> string \<Rightarrow> string list \<Rightarrow> gdb \<Rightarrow> gdb" where
  "edges_of_kind_files repo kind paths = delete_edges (\<lambda>e. e_repo e = repo \<and> e_kind e = kind \<and> e_file e \<in> set paths)"

definition units_of_files :: "string \<Rightarrow> string list \<Rightarrow> gdb \<Rightarrow> gdb" where
  "units_of_files repo paths d =
     (let P = (\<lambda>u. u_repo u = repo \<and> u_file u \<in> set paths) in delete_units P (unresolve_into P d))"

interpretation file_edges: splittable "edges_of_files repo"
proof unfold_locales
  show "edges_of_files repo [] d = d" for d by (simp add: edges_of_files_def delete_edges_none)
  show "edges_of_files repo (ps @ qs) d = edges_of_files repo qs (edges_of_files repo ps d)" for ps qs d
    by (simp add: edges_of_files_def delete_edges_or conj_disj_distribL)
qed

interpretation kind_file_edges: splittable "edges_of_kind_files repo kind"
proof unfold_locales
  show "edges_of_kind_files repo kind [] d = d" for d by (simp add: edges_of_kind_files_def delete_edges_none)
  show "edges_of_kind_files repo kind (ps @ qs) d = edges_of_kind_files repo kind qs (edges_of_kind_files repo kind ps d)" for ps qs d
    by (simp add: edges_of_kind_files_def delete_edges_or conj_disj_distribL)
qed

definition points_at :: "(ast_unit \<Rightarrow> bool) \<Rightarrow> ast_unit list \<Rightarrow> edge \<Rightarrow> bool" where
  "points_at P us e \<longleftrightarrow> e_dst e \<noteq> 0 \<and> list_ex (\<lambda>u. P u \<and> u_id u = e_dst e) us"

definition unresolved :: "edge \<Rightarrow> edge" where
  "unresolved e = e\<lparr> e_dst := 0, e_dst_repo := [] \<rparr>"

lemma unresolve_eq:
  "unresolve_into P d = d\<lparr> g_edges := map (\<lambda>e. if points_at P (g_units d) e then unresolved e else e) (g_edges d) \<rparr>"
  by (simp add: unresolve_into_def update_where_def points_at_def unresolved_def)

lemma unresolve_twice:
  "(if points_at Q (filter (\<lambda>u. \<not> P u) us) (if points_at P us e then unresolved e else e)
    then unresolved (if points_at P us e then unresolved e else e)
    else if points_at P us e then unresolved e else e) =
   (if points_at (\<lambda>u. P u \<or> Q u) us e then unresolved e else e)"
proof (cases "points_at P us e")
  case True
  then have "points_at (\<lambda>u. P u \<or> Q u) us e" by (auto simp: points_at_def list_ex_iff)
  moreover have "\<not> points_at Q (filter (\<lambda>u. \<not> P u) us) (unresolved e)" by (simp add: points_at_def unresolved_def)
  ultimately show ?thesis using True by simp
next
  case False
  then have "points_at Q (filter (\<lambda>u. \<not> P u) us) e \<longleftrightarrow> points_at (\<lambda>u. P u \<or> Q u) us e"
    by (auto simp: points_at_def list_ex_iff)
  then show ?thesis using False by simp
qed

lemma delete_units_or:
  "delete_units Q (unresolve_into Q (delete_units P (unresolve_into P d))) =
   delete_units (\<lambda>u. P u \<or> Q u) (unresolve_into (\<lambda>u. P u \<or> Q u) d)"
  by (simp add: delete_units_def unresolve_eq comp_def unresolve_twice conj_commute)

interpretation file_units: splittable "units_of_files repo"
proof unfold_locales
  show "units_of_files repo [] d = d" for d
    by (simp add: units_of_files_def delete_units_def unresolve_eq points_at_def list_ex_iff Let_def)
  show "units_of_files repo (ps @ qs) d = units_of_files repo qs (units_of_files repo ps d)" for ps qs d
    by (simp add: units_of_files_def Let_def delete_units_or conj_disj_distribL)
qed

text \<open>
  deleting the rows of many files in chunks, to stay within the parameter limit of SQLite, ends and
  deletes what one statement over all the paths would: for edges, for the edges of one kind, and for
  units together with the resolutions pointing at them.
\<close>

theorem chunked_deletes_are_one_delete:
  "delete_edges_by_files repo paths d = delete_edges (\<lambda>e. e_repo e = repo \<and> e_file e \<in> set paths) d \<and>
   delete_edges_by_kind_and_files repo kind paths d =
     delete_edges (\<lambda>e. e_repo e = repo \<and> e_kind e = kind \<and> e_file e \<in> set paths) d \<and>
   delete_ast_units_by_files repo paths d =
     (let P = (\<lambda>u. u_repo u = repo \<and> u_file u \<in> set paths) in delete_units P (unresolve_into P d))"
proof -
  have "delete_ast_units_by_files repo paths d = each_path_chunk paths (units_of_files repo) d"
    by (simp add: delete_ast_units_by_files_def units_of_files_def [abs_def])
  moreover have "delete_edges_by_files repo paths d = each_path_chunk paths (edges_of_files repo) d"
    by (simp add: delete_edges_by_files_def edges_of_files_def [abs_def])
  moreover have "delete_edges_by_kind_and_files repo kind paths d = each_path_chunk paths (edges_of_kind_files repo kind) d"
    by (simp add: delete_edges_by_kind_and_files_def edges_of_kind_files_def [abs_def])
  ultimately show ?thesis
    by (simp add: file_units.each_chunk file_edges.each_chunk kind_file_edges.each_chunk)
      (simp add: units_of_files_def edges_of_files_def edges_of_kind_files_def)
qed

section \<open>Dangling edges\<close>

definition no_dangling :: "gdb \<Rightarrow> bool" where
  "no_dangling d \<longleftrightarrow> (\<forall>e \<in> set (g_edges d). e_dst e \<noteq> 0 \<longrightarrow> (\<exists>u \<in> set (g_units d). u_id u = e_dst e))"

lemma units_of_files_no_dangling: "no_dangling d \<Longrightarrow> no_dangling (units_of_files repo paths d)"
  by (auto simp: no_dangling_def units_of_files_def Let_def delete_units_def unresolve_eq points_at_def unresolved_def list_ex_iff)

section \<open>Resolutions\<close>

text \<open>What a batch means: every edge takes the resolutions that name it and are not refused, in order.\<close>

definition resolve_with :: "faults \<Rightarrow> edge \<Rightarrow> resolution \<Rightarrow> edge" where
  "resolve_with flt e r = (if \<not> f_row flt r \<and> r_edge r = e_id e then set_resolution r e else e)"

definition resolved :: "faults \<Rightarrow> resolution list \<Rightarrow> edge list \<Rightarrow> edge list" where
  "resolved flt rs es = map (\<lambda>e. foldl (resolve_with flt) e rs) es"

fun batch_failures :: "faults \<Rightarrow> nat set \<Rightarrow> nat \<Rightarrow> resolution list \<Rightarrow> failure list" where
  "batch_failures flt ids i [] = []"
| "batch_failures flt ids i (r # rs) =
     (if f_row flt r then [\<lparr> fail_index = i, fail_edge = r_edge r, fail_error = RowRefused \<rparr>]
      else if r_edge r \<notin> ids then [\<lparr> fail_index = i, fail_edge = r_edge r, fail_error = RowMissing \<rparr>] else [])
     @ batch_failures flt ids (Suc i) rs"

lemma set_resolution_id [simp]: "e_id (set_resolution r e) = e_id e"
  by (simp add: set_resolution_def)

lemma resolve_with_id [simp]: "e_id (resolve_with flt e r) = e_id e"
  by (simp add: resolve_with_def)

lemma resolve_row:
  "\<not> f_row flt r \<Longrightarrow> update_where (\<lambda>e. e_id e = r_edge r) (set_resolution r) es = map (\<lambda>e. resolve_with flt e r) es"
  by (auto simp: update_where_def resolve_with_def)

lemma affected_row: "rows_affected (\<lambda>e. e_id e = i) es = 0 \<longleftrightarrow> i \<notin> e_id ` set es"
  by (auto simp: rows_affected_def filter_empty_conv)

lemma resolution_rows_eq:
  "resolution_rows flt i rs d =
     (d\<lparr> g_edges := resolved flt rs (g_edges d) \<rparr>, batch_failures flt (e_id ` set (g_edges d)) i rs)"
proof (induction rs arbitrary: i d)
  case Nil
  then show ?case by (simp add: resolved_def)
next
  case (Cons r rs)
  have ids: "e_id ` set (map (\<lambda>e. resolve_with flt e r) es) = e_id ` set es" for es by (simp add: image_image)
  show ?case
  proof (cases "f_row flt r")
    case True
    then have "resolve_with flt e r = e" for e by (simp add: resolve_with_def)
    then show ?thesis using True Cons.IH by (simp add: update_edge_resolution_def resolved_def)
  next
    case False
    then show ?thesis
      using Cons.IH [of "Suc i" "d\<lparr> g_edges := map (\<lambda>e. resolve_with flt e r) (g_edges d) \<rparr>"] ids
      by (simp add: update_edge_resolution_def resolve_row affected_row resolved_def comp_def)
  qed
qed

lemma tx_rows_eq: "tx_rows flt i rs d = Some r \<Longrightarrow> r = resolution_rows flt i rs d"
proof (induction rs arbitrary: i d r)
  case (Cons x rs)
  then show ?case
    by (auto simp: update_edge_resolution_def Let_def split: if_splits option.splits prod.splits dest!: Cons.IH)
qed simp

lemma batch_failures_append:
  "batch_failures flt ids i (xs @ ys) = batch_failures flt ids i xs @ batch_failures flt ids (i + length xs) ys"
  by (induction xs arbitrary: i) simp_all

lemma resolved_append: "resolved flt (xs @ ys) es = resolved flt ys (resolved flt xs es)"
  by (simp add: resolved_def)

lemma resolved_ids: "e_id ` set (resolved flt rs es) = e_id ` set es"
proof -
  have "e_id (foldl (resolve_with flt) e rs) = e_id e" for e by (induction rs arbitrary: e) simp_all
  then show ?thesis by (simp add: resolved_def image_image)
qed

lemma batch_resolutions_eq:
  assumes "\<not> f_cancelled flt"
  shows "batch_update_edge_resolutions flt start res d =
    (d\<lparr> g_edges := resolved flt res (g_edges d) \<rparr>, batch_failures flt (e_id ` set (g_edges d)) start res, False)"
proof (induction "length res" arbitrary: start res d rule: less_induct)
  case less
  show ?case
  proof (cases "res = []")
    case True
    then show ?thesis by (simp add: batch_update_edge_resolutions.simps resolved_def)
  next
    case False
    let ?chunk = "take resolution_tx_rows res" and ?rest = "drop resolution_tx_rows res"
    let ?d1 = "d\<lparr> g_edges := resolved flt ?chunk (g_edges d) \<rparr>"
    have shorter: "length ?rest < length res" using False by (simp add: resolution_tx_rows_def)
    have chunk: "(case resolution_tx flt start ?chunk d of Some r \<Rightarrow> Some r
        | None \<Rightarrow> if f_cancelled flt then None else Some (resolution_rows flt start ?chunk d)) = Some (resolution_rows flt start ?chunk d)"
      using assms tx_rows_eq by (auto simp: resolution_tx_def split: option.splits)
    have rest: "batch_failures flt ids (start + min (length res) resolution_tx_rows) ?rest =
        batch_failures flt ids (start + resolution_tx_rows) ?rest" for ids
      by (cases "length res \<le> resolution_tx_rows") simp_all
    show ?thesis
      using False less.hyps [OF shorter, of "start + resolution_tx_rows" ?d1]
        batch_failures_append [of flt _ start ?chunk ?rest] resolved_append [of flt ?chunk ?rest]
      by (subst batch_update_edge_resolutions.simps) (simp add: Let_def chunk resolution_rows_eq resolved_ids rest)
  qed
qed

text \<open>
  C17: a batch of resolutions that is not cancelled ends the same whether its transactions succeed or fail
  and are retried row by row: every edge named by a resolution that is not refused is updated, and
  exactly the refused resolutions and those of missing edges are reported, each with its place in the
  batch. One bad row costs only itself.
\<close>

theorem batch_resolutions_isolated:
  assumes "\<not> f_cancelled flt"
  shows "batch_update_edge_resolutions flt start res d =
    (d\<lparr> g_edges := resolved flt res (g_edges d) \<rparr>, batch_failures flt (e_id ` set (g_edges d)) start res, False)"
  using assms by (rule batch_resolutions_eq)

definition demo_edge :: "nat \<Rightarrow> nat \<Rightarrow> string \<Rightarrow> edge" where
  "demo_edge i src nm = \<lparr> e_id = i, e_repo = ''r'', e_src = src, e_dst = 0, e_kind = ''call'', e_dst_name = nm, e_file = ''f.go'',
     e_line = 1, e_dst_repo = [], e_conf = 1, e_meta = [] \<rparr>"

theorem batch_resolutions_isolated_witness:
  "let flt = \<lparr> f_tx = (\<lambda>_. True), f_row = (\<lambda>r. r_edge r = 2), f_cancelled = False \<rparr>;
       res = map (\<lambda>i. \<lparr> r_edge = i, r_dst = 9, r_dst_repo = ''s'', r_conf = 1 \<rparr>) [1, 2, 3];
       d = \<lparr> g_units = [], g_edges = [demo_edge 1 5 ''a'', demo_edge 2 5 ''b''], g_next_unit = 1, g_next_edge = 3 \<rparr>;
       (d', failures, err) = batch_update_edge_resolutions flt 0 res d
   in map e_dst (g_edges d') = [9, 0] \<and> map fail_index failures = [1, 2] \<and> \<not> err"
proof -
  let ?flt = "\<lparr> f_tx = (\<lambda>_. True), f_row = (\<lambda>r. r_edge r = 2), f_cancelled = False \<rparr>"
  have "\<not> f_cancelled ?flt" by simp
  note batch = batch_resolutions_isolated [OF this]
  show ?thesis unfolding Let_def batch
    by (simp add: resolved_def resolve_with_def set_resolution_def demo_edge_def)
qed

end
