(* ===== verification/Graph_Writer_Facts.thy ===== *)
theory Graph_Writer_Facts
  imports Graph_Linker Graph_Store_Facts
begin

text \<open>
  The contract between the linker's resolution writer and the store it writes to. The writer's lemmas
  are proved once for any store that keeps it; the SQLite batch and the row-by-row path both do.
\<close>

section \<open>Accounting\<close>

locale resolution_sink =
  fixes put :: "resolution list \<Rightarrow> 'd \<Rightarrow> 'd \<times> failure list \<times> bool"
  assumes failures_bound: "put buf d = (d', fs, err) \<Longrightarrow> length fs \<le> length buf"
begin

definition queued :: "resolution list \<Rightarrow> writer \<times> run_stats \<times> 'd \<Rightarrow> writer \<times> run_stats \<times> 'd" where
  "queued rs s = foldl (\<lambda>s r. writer_add put r s) s rs"

definition tally :: "writer \<times> run_stats \<times> 'd \<Rightarrow> nat" where
  "tally s = wr_applied (fst s) + st_errors (fst (snd s)) + length (wr_buf (fst s))"

lemma flush_tally: "tally (writer_flush put s) = tally s \<and> wr_buf (fst (writer_flush put s)) = []"
proof -
  obtain w st d where s: "s = (w, st, d)" by (cases s) auto
  obtain d' fs err where wr: "put (wr_buf w) d = (d', fs, err)" by (cases "put (wr_buf w) d") auto
  show ?thesis using failures_bound [OF wr] by (auto simp: s writer_flush_def wr tally_def Let_def)
qed

lemma add_tally: "tally (writer_add put r s) = Suc (tally s)"
proof -
  obtain w st d where s: "s = (w, st, d)" by (cases s) auto
  have "tally (w\<lparr> wr_buf := wr_buf w @ [r] \<rparr>, st, d) = Suc (tally s)" by (simp add: s tally_def)
  then show ?thesis using flush_tally by (simp add: s writer_add_def Let_def)
qed

lemma queued_tally: "tally (queued rs s) = tally s + length rs"
proof (induction rs arbitrary: s)
  case (Cons r rs)
  then show ?case using add_tally [of r s] by (simp add: queued_def)
qed (simp add: queued_def)

lemma all_accounted:
  assumes "writer_flush put (queued rs (new_writer, st, d)) = (w', st', d')"
  shows "wr_applied w' + st_errors st' = st_errors st + length rs"
proof -
  have "tally (w', st', d') = tally (new_writer, st, d) + length rs" "wr_buf w' = []"
    using flush_tally [of "queued rs (new_writer, st, d)"] queued_tally [of rs "(new_writer, st, d)"] assms by simp_all
  then show ?thesis by (simp add: tally_def new_writer_def)
qed

text \<open>The buffer is written as soon as it is full.\<close>

lemma add_buffer: "length (wr_buf (fst s)) < resolution_buffer \<Longrightarrow> length (wr_buf (fst (writer_add put r s))) < resolution_buffer"
proof -
  obtain w st d where s: "s = (w, st, d)" by (cases s) auto
  show ?thesis using flush_tally [of "(w\<lparr> wr_buf := wr_buf w @ [r] \<rparr>, st, d)"]
    by (simp add: s writer_add_def Let_def resolution_buffer_def)
qed

end

text \<open>
  A store whose put has an effect that does not depend on how the resolutions are grouped, and that
  never gives a batch up.
\<close>

locale exact_sink = resolution_sink put for put :: "resolution list \<Rightarrow> 'd \<Rightarrow> 'd \<times> failure list \<times> bool" +
  fixes effect :: "resolution list \<Rightarrow> 'd \<Rightarrow> 'd"
  assumes write_effect: "\<exists>fs. put buf d = (effect buf d, fs, False)"
    and effect_nil: "effect [] d = d"
    and effect_append: "effect (xs @ ys) d = effect ys (effect xs d)"
begin

definition outcome :: "writer \<times> run_stats \<times> 'd \<Rightarrow> 'd" where
  "outcome s = effect (wr_buf (fst s)) (snd (snd s))"

lemma flush_outcome: "outcome (writer_flush put s) = outcome s \<and> snd (snd (writer_flush put s)) = outcome s"
proof -
  obtain w st d where s: "s = (w, st, d)" by (cases s) auto
  obtain fs where wr: "put (wr_buf w) d = (effect (wr_buf w) d, fs, False)" using write_effect by blast
  show ?thesis by (simp add: s writer_flush_def wr outcome_def Let_def effect_nil)
qed

lemma add_outcome: "outcome (writer_add put r s) = effect [r] (outcome s)"
proof -
  obtain w st d where s: "s = (w, st, d)" by (cases s) auto
  have "outcome (w\<lparr> wr_buf := wr_buf w @ [r] \<rparr>, st, d) = effect [r] (outcome s)" by (simp add: s outcome_def effect_append)
  then show ?thesis using flush_outcome by (simp add: s writer_add_def Let_def)
qed

lemma queued_outcome: "outcome (queued rs s) = effect rs (outcome s)"
proof (induction rs arbitrary: s)
  case (Cons r rs)
  then show ?case using add_outcome [of r s] effect_append [of "[r]" rs] by (simp add: queued_def)
qed (simp add: queued_def effect_nil)

lemma all_written: "snd (snd (writer_flush put (queued rs (new_writer, st, d)))) = effect rs d"
proof -
  have "outcome (new_writer, st, d) = d" by (simp add: outcome_def new_writer_def effect_nil)
  then show ?thesis by (simp add: flush_outcome queued_outcome)
qed

end

section \<open>The store\<close>

lemma batch_failures_length: "length (batch_failures flt ids i rs) \<le> length rs"
  by (induction rs arbitrary: i) (auto simp: le_SucI)

lemma batch_length: "length (fst (snd (batch_update_edge_resolutions flt i res d))) \<le> length res"
proof (induction "length res" arbitrary: i res d rule: less_induct)
  case less
  show ?case
  proof (cases "res = []")
    case True
    then show ?thesis by (simp add: batch_update_edge_resolutions.simps)
  next
    case False
    let ?chunk = "take resolution_tx_rows res" and ?rest = "drop resolution_tx_rows res"
    let ?got = "case resolution_tx flt i ?chunk d of Some r \<Rightarrow> Some r
        | None \<Rightarrow> if f_cancelled flt then None else Some (resolution_rows flt i ?chunk d)"
    have rows: "length (snd (resolution_rows flt i ?chunk d)) \<le> length ?chunk"
      unfolding resolution_rows_eq snd_conv by (rule batch_failures_length)
    have got: "length got \<le> length ?chunk" if "?got = Some (d1, got)" for d1 got
    proof -
      have "(d1, got) = resolution_rows flt i ?chunk d"
        using that tx_rows_eq [of flt i ?chunk d "(d1, got)"] by (auto simp: resolution_tx_def split: option.splits if_splits)
      then show ?thesis using rows by (metis snd_conv)
    qed
    have rest: "length (fst (snd (batch_update_edge_resolutions flt (i + resolution_tx_rows) ?rest d1))) \<le> length ?rest" for d1
      by (rule less) (use False in \<open>simp add: resolution_tx_rows_def\<close>)
    show ?thesis
    proof (cases ?got)
      case None
      then show ?thesis using False by (subst batch_update_edge_resolutions.simps) (simp add: Let_def)
    next
      case (Some r)
      obtain d1 fs where r: "r = (d1, fs)" by (cases r)
      have "length fs + length (fst (snd (batch_update_edge_resolutions flt (i + resolution_tx_rows) ?rest d1))) \<le> length res"
      proof -
        have "length ?chunk + length ?rest = length res" by (metis append_take_drop_id length_append)
        then show ?thesis using got [OF Some [unfolded r]] rest [of d1] by linarith
      qed
      then show ?thesis using False Some r
        by (subst batch_update_edge_resolutions.simps) (simp add: Let_def case_prod_beta)
    qed
  qed
qed

interpretation sqlite_sink: resolution_sink "writer_write lf"
proof unfold_locales
  fix buf d d' fs err
  assume "writer_write lf buf d = (d', fs, err)"
  then show "length fs \<le> length buf"
    using batch_length [of "lf_write lf" 0 buf d] batch_failures_length
    by (auto simp: writer_write_def resolution_rows_eq split: if_splits)
qed

definition uncancelled :: "link_faults \<Rightarrow> link_faults" where
  "uncancelled lf = lf\<lparr> lf_write := (lf_write lf)\<lparr> f_cancelled := False \<rparr> \<rparr>"

definition resolve_all :: "faults \<Rightarrow> resolution list \<Rightarrow> gdb \<Rightarrow> gdb" where
  "resolve_all flt rs d = d\<lparr> g_edges := resolved flt rs (g_edges d) \<rparr>"

interpretation sqlite_exact: exact_sink "writer_write (uncancelled lf)" "resolve_all (lf_write lf)"
proof unfold_locales
  have same: "resolved (lf_write (uncancelled lf)) = resolved (lf_write lf)" "\<not> f_cancelled (lf_write (uncancelled lf))"
    by (simp_all add: fun_eq_iff resolved_def resolve_with_def [abs_def] uncancelled_def)
  show "\<exists>fs. writer_write (uncancelled lf) buf d = (resolve_all (lf_write lf) buf d, fs, False)" for buf d
    using same by (simp add: writer_write_def batch_resolutions_eq resolution_rows_eq resolve_all_def)
  show "resolve_all (lf_write lf) [] d = d" for d by (simp add: resolve_all_def resolved_def)
  show "resolve_all (lf_write lf) (xs @ ys) d = resolve_all (lf_write lf) ys (resolve_all (lf_write lf) xs d)" for xs ys d
    by (simp add: resolve_all_def resolved_append)
qed

lemma uncancelled_id: "\<not> f_cancelled (lf_write lf) \<Longrightarrow> uncancelled lf = lf"
  by (simp add: uncancelled_def)

text \<open>
  C35: no resolution handed to the writer is lost from the books: once flushed, the number counted as
  applied and the number counted as errors grow by exactly the number queued, in batches of any outcome,
  cancelled ones included.
\<close>

theorem writer_accounts_for_everything:
  assumes "writer_flush (writer_write lf) (foldl (\<lambda>s r. writer_add (writer_write lf) r s) (new_writer, st, d) rs) = (w', st', d')"
  shows "wr_applied w' + st_errors st' = st_errors st + length rs"
  using sqlite_sink.all_accounted [of lf rs st d] assms by (simp add: sqlite_sink.queued_def)

definition no_faults :: "bool \<Rightarrow> link_faults" where
  "no_faults cancelled = \<lparr> lf_batcher = True, lf_write = \<lparr> f_tx = (\<lambda>_. cancelled), f_row = (\<lambda>_. False), f_cancelled = cancelled \<rparr>,
     lf_meta = (\<lambda>_. False), lf_delete = (\<lambda>_. False), lf_restore = (\<lambda>_. False), lf_flow = (\<lambda>_. False) \<rparr>"

definition empty_gdb :: gdb where
  "empty_gdb = \<lparr> g_units = [], g_edges = [], g_next_unit = 1, g_next_edge = 1 \<rparr>"

theorem writer_accounts_for_everything_witness:
  "\<exists>w' st' d'. writer_flush (writer_write (no_faults True))
      (foldl (\<lambda>s r. writer_add (writer_write (no_faults True)) r s) (new_writer, new_stats, empty_gdb)
        [\<lparr> r_edge = 1, r_dst = 9, r_dst_repo = [], r_conf = 1 \<rparr>]) = (w', st', d') \<and> wr_applied w' + st_errors st' = 1"
proof -
  let ?s = "writer_flush (writer_write (no_faults True))
      (foldl (\<lambda>s r. writer_add (writer_write (no_faults True)) r s) (new_writer, new_stats, empty_gdb)
        [\<lparr> r_edge = 1, r_dst = 9, r_dst_repo = [], r_conf = 1 \<rparr>])"
  obtain w' st' d' where s: "?s = (w', st', d')" by (cases ?s) auto
  from writer_accounts_for_everything [OF s] have "wr_applied w' + st_errors st' = 1" by (simp add: new_stats_def)
  with s show ?thesis by blast
qed

end
