(* ===== verification/Graph_Local_Facts.thy ===== *)
theory Graph_Local_Facts
  imports Graph_Writer_Facts Graph_Match_Facts
begin

text \<open>
  Local resolution against its reading without caches: the memo of word components and the index by
  owner never show in the answers, and the edges of a repository end up pointing where the rule for one
  edge says.
\<close>

section \<open>The caches are transparent\<close>

definition tails :: "ast_unit list \<Rightarrow> string \<Rightarrow> ast_unit list" where
  "tails us k = filter (\<lambda>u. owner_path u \<noteq> [] \<and> last (owner_path u) = k) us"

text \<open>Candidates are looked up by name; a unit id names one owner path among all of them.\<close>

definition one_owner :: "(string \<Rightarrow> ast_unit list) \<Rightarrow> bool" where
  "one_owner by_name \<longleftrightarrow> (\<forall>nm nm'. \<forall>u \<in> set (by_name nm). \<forall>v \<in> set (by_name nm'). u_id u = u_id v \<longrightarrow> owner_path u = owner_path v)"

definition cache_ok :: "(string \<Rightarrow> ast_unit list) \<Rightarrow> unit_components \<Rightarrow> bool" where
  "cache_ok by_name c \<longleftrightarrow>
     (\<forall>nm. \<forall>u \<in> set (by_name nm). \<forall>comps. uc_qualified c (u_id u) = Some comps \<longrightarrow> comps = owner_path u) \<and>
     (\<forall>nm idx. uc_by_tail c nm = Some idx \<longrightarrow> idx = tails (by_name nm))"

lemma owner_ok:
  assumes "cache_ok by_name c" and "one_owner by_name" and "u \<in> set (by_name nm)" and "owner c u = (c', comps)"
  shows "comps = owner_path u \<and> cache_ok by_name c' \<and> uc_by_tail c' = uc_by_tail c"
proof (cases "uc_qualified c (u_id u)")
  case None
  let ?c = "c\<lparr> uc_qualified := (uc_qualified c)(u_id u \<mapsto> owner_path u) \<rparr>"
  have own: "owner c u = (?c, owner_path u)" using None by (simp add: owner_def Let_def)
  have "x = owner_path v" if "v \<in> set (by_name nm')" "uc_qualified ?c (u_id v) = Some x" for nm' v x
  proof (cases "u_id v = u_id u")
    case True
    then have "owner_path v = owner_path u" using assms(2,3) that(1) unfolding one_owner_def by blast
    then show ?thesis using that(2) True by simp
  next
    case False
    then show ?thesis using assms(1) that by (simp add: cache_ok_def)
  qed
  then have "cache_ok by_name ?c" using assms(1) by (simp add: cache_ok_def)
  moreover have "c' = fst (owner c u)" "comps = snd (owner c u)" using assms(4) by simp_all
  ultimately show ?thesis unfolding own by simp
next
  case (Some x)
  then show ?thesis using assms by (auto simp: owner_def cache_ok_def)
qed

lemma index_tails_ok:
  assumes "one_owner by_name"
  shows "cache_ok by_name c \<Longrightarrow> set us \<subseteq> set (by_name nm) \<Longrightarrow> index_tails c idx us = (c', idx') \<Longrightarrow>
    idx' = (\<lambda>k. idx k @ tails us k) \<and> cache_ok by_name c' \<and> uc_by_tail c' = uc_by_tail c"
proof (induction us arbitrary: c idx)
  case Nil
  then show ?case by (simp add: tails_def)
next
  case (Cons u us)
  obtain c1 ow where ow: "owner c u = (c1, ow)" by (cases "owner c u")
  have o: "ow = owner_path u" "cache_ok by_name c1" "uc_by_tail c1 = uc_by_tail c"
    using owner_ok [OF Cons.prems(1) assms _ ow] Cons.prems(2) by auto
  have "idx' = (\<lambda>k. (if ow \<noteq> [] then push_to (last ow) u idx else idx) k @ tails us k) \<and> cache_ok by_name c' \<and> uc_by_tail c' = uc_by_tail c1"
    using Cons.IH [OF o(2), of "if ow \<noteq> [] then push_to (last ow) u idx else idx"] Cons.prems(2,3) by (simp add: ow)
  then show ?case using o by (auto simp: tails_def push_to_def fun_eq_iff)
qed

lemma owned_in_ok:
  assumes "one_owner by_name"
  shows "cache_ok by_name c \<Longrightarrow> set us \<subseteq> set (by_name nm) \<Longrightarrow> owned_in c rc us = (c', owned) \<Longrightarrow>
    owned = filter (\<lambda>u. has_component_suffix (owner_path u) rc) us \<and> cache_ok by_name c'"
proof (induction us arbitrary: c c' owned)
  case Nil
  then show ?case by simp
next
  case (Cons u us)
  obtain c1 ow where ow: "owner c u = (c1, ow)" by (cases "owner c u")
  obtain c2 rest where rest: "owned_in c1 rc us = (c2, rest)" by (cases "owned_in c1 rc us")
  have o: "ow = owner_path u" "cache_ok by_name c1" using owner_ok [OF Cons.prems(1) assms _ ow] Cons.prems(2) by auto
  have "rest = filter (\<lambda>u. has_component_suffix (owner_path u) rc) us \<and> cache_ok by_name c2"
    using Cons.IH [OF o(2) _ rest] Cons.prems(2) by simp
  then show ?case using Cons.prems(3) ow rest o(1) by auto
qed

lemma receiver_matches_owner:
  "receiver_matches u recv \<longleftrightarrow> has_component_suffix (owner_path u) (word_components recv)"
  by (auto simp: receiver_matches_def owner_path_def Let_def has_component_suffix_iff)

lemma owned_by_ok:
  assumes "cache_ok by_name c" and "one_owner by_name" and "owned_by c nm (by_name nm) recv = (c', owned)"
  shows "owned = filter (\<lambda>u. receiver_matches u recv) (by_name nm) \<and> cache_ok by_name c'"
proof (cases "word_components recv = []")
  case True
  then show ?thesis using assms by (auto simp: owned_by_def receiver_matches_owner has_component_suffix_iff filter_empty_conv)
next
  case False
  let ?rc = "word_components recv"
  obtain c1 idx where idx: "(case uc_by_tail c nm of Some idx \<Rightarrow> (c, idx)
      | None \<Rightarrow> let (c, idx) = index_tails c (\<lambda>_. []) (by_name nm) in (c\<lparr> uc_by_tail := (uc_by_tail c)(nm \<mapsto> idx) \<rparr>, idx)) = (c1, idx)"
    by (cases "case uc_by_tail c nm of Some idx \<Rightarrow> (c, idx)
      | None \<Rightarrow> let (c, idx) = index_tails c (\<lambda>_. []) (by_name nm) in (c\<lparr> uc_by_tail := (uc_by_tail c)(nm \<mapsto> idx) \<rparr>, idx)")
  have ok: "idx = tails (by_name nm) \<and> cache_ok by_name c1"
  proof (cases "uc_by_tail c nm")
    case None
    obtain c0 idx0 where i: "index_tails c (\<lambda>_. []) (by_name nm) = (c0, idx0)" by (cases "index_tails c (\<lambda>_. []) (by_name nm)")
    have "idx0 = tails (by_name nm)" "cache_ok by_name c0" "uc_by_tail c0 = uc_by_tail c"
      using index_tails_ok [OF assms(2,1) subset_refl i] by simp_all
    then show ?thesis using idx None i by (auto simp: cache_ok_def split: if_splits)
  next
    case (Some x)
    then show ?thesis using idx assms(1) by (auto simp: cache_ok_def)
  qed
  have eq: "owned_in c1 ?rc (tails (by_name nm) (last ?rc)) = (c', owned)"
    using assms(3) False idx ok by (simp add: owned_by_def Let_def)
  have "set (tails (by_name nm) (last ?rc)) \<subseteq> set (by_name nm)" by (auto simp: tails_def)
  from owned_in_ok [OF assms(2) conjunct2 [OF ok] this eq]
  have "owned = filter (\<lambda>u. has_component_suffix (owner_path u) ?rc) (tails (by_name nm) (last ?rc))" "cache_ok by_name c'" by simp_all
  moreover have "filter (\<lambda>u. has_component_suffix (owner_path u) ?rc) (tails (by_name nm) (last ?rc)) =
      filter (\<lambda>u. receiver_matches u recv) (by_name nm)"
    unfolding tails_def filter_filter receiver_matches_owner
    by (rule filter_cong) (auto simp: has_component_suffix_iff)
  ultimately show ?thesis by simp
qed

section \<open>One edge\<close>

text \<open>The definition an edge refers to, without caches.\<close>

definition local_target :: "codec \<Rightarrow> edge \<Rightarrow> ast_unit list \<Rightarrow> ast_unit \<times> rat" where
  "local_target jc e cands =
     (let owned = (if edge_receiver jc e \<noteq> [] then filter (\<lambda>u. receiver_matches u (edge_receiver jc e)) cands else [])
      in pick_definition (if owned \<noteq> [] then owned else cands) (e_file e))"

definition local_reference :: "codec \<Rightarrow> string \<Rightarrow> (string \<Rightarrow> ast_unit list) \<Rightarrow> edge \<Rightarrow> resolution option" where
  "local_reference jc repo by_name e =
     (let cands = by_name (last_component (e_dst_name e)); (best, conf) = local_target jc e cands in
      if cands = [] \<or> e_dst e = u_id best \<and> e_dst_repo e = repo then None
      else Some \<lparr> r_edge = e_id e, r_dst = u_id best, r_dst_repo = repo, r_conf = confidence_after_resolve jc e conf \<rparr>)"

lemma local_resolution_ok:
  assumes "cache_ok by_name c" and "one_owner by_name" and "local_resolution jc repo by_name c e = (c', r)"
  shows "r = local_reference jc repo by_name e \<and> cache_ok by_name c'"
proof -
  define nm where "nm = last_component (e_dst_name e)"
  show ?thesis
  proof (cases "by_name nm = []")
    case True
    then show ?thesis using assms by (auto simp: local_resolution_def local_reference_def nm_def [symmetric] Let_def split: prod.splits)
  next
    case False
    obtain c1 owned where ow: "(if edge_receiver jc e \<noteq> [] then owned_by c nm (by_name nm) (edge_receiver jc e) else (c, [])) = (c1, owned)"
      by (cases "if edge_receiver jc e \<noteq> [] then owned_by c nm (by_name nm) (edge_receiver jc e) else (c, [])")
    have o: "owned = (if edge_receiver jc e \<noteq> [] then filter (\<lambda>u. receiver_matches u (edge_receiver jc e)) (by_name nm) else []) \<and> cache_ok by_name c1"
      using ow owned_by_ok [OF assms(1,2), of nm "edge_receiver jc e" c1 owned] assms(1) by (auto split: if_splits)
    have "resolve_local_target jc nm e (by_name nm) c = (c1, local_target jc e (by_name nm))"
      using ow o by (simp add: resolve_local_target_def local_target_def Let_def)
    then show ?thesis using assms(3) False o
      by (auto simp: local_resolution_def local_reference_def nm_def [symmetric] Let_def split: prod.splits)
  qed
qed

lemma local_loop_ok:
  assumes "one_owner by_name" and "cache_ok by_name c"
  shows "local_loop jc repo lf by_name c es s =
    sqlite_sink.queued lf (List.map_filter (local_reference jc repo by_name) es) s"
  using assms(2)
proof (induction es arbitrary: c s)
  case Nil
  then show ?case by (simp add: sqlite_sink.queued_def List.map_filter_def)
next
  case (Cons e es)
  obtain c' r where r: "local_resolution jc repo by_name c e = (c', r)" by (cases "local_resolution jc repo by_name c e")
  note ok = local_resolution_ok [OF Cons.prems assms(1) r]
  show ?case using Cons.IH [of c'] ok r
    by (simp add: sqlite_sink.queued_def List.map_filter_def split: option.splits)
qed

section \<open>A repository\<close>

lemma limited_all [simp]: "limited 0 xs = xs"
  by (simp add: limited_def)

lemma plain_units: "o_fallback opts = False \<Longrightarrow> o_limit opts = 0 \<Longrightarrow> set (get_ast_units opts d) = {u \<in> set (g_units d). unit_selected opts TierExact u}"
  by (auto simp: get_ast_units_def select_units_def)

lemma plain_units_mset:
  "o_fallback opts = False \<Longrightarrow> o_limit opts = 0 \<Longrightarrow> mset (get_ast_units opts d) = filter_mset (unit_selected opts TierExact) (mset (g_units d))"
  by (simp add: get_ast_units_def select_units_def Let_def)

lemma plain_edges: "o_limit opts = 0 \<Longrightarrow> mset (get_edges opts d) = filter_mset (edge_selected opts) (mset (g_edges d))"
  by (simp add: get_edges_def)

lemma by_name_one_owner:
  assumes "distinct (map u_id (g_units d))" and "set us \<subseteq> set (g_units d)"
  shows "one_owner (units_by_name us)"
proof -
  have "u = v" if "u \<in> set us" "v \<in> set us" "u_id u = u_id v" for u v
    using that assms by (auto simp: distinct_map inj_on_def)
  then show ?thesis by (auto simp: one_owner_def units_by_name_def sort_units_def)
qed

definition local_units :: "string \<Rightarrow> gdb \<Rightarrow> ast_unit list" where
  "local_units repo d = get_ast_units (any_opts\<lparr> o_repo := repo, o_kinds := [''function'', ''method''] \<rparr>) d"

definition local_edges :: "string \<Rightarrow> gdb \<Rightarrow> edge list" where
  "local_edges repo d = get_edges (any_opts\<lparr> o_repo := repo, o_kinds := [''call'', ''handled_by''] \<rparr>) d"

text \<open>
  C8: linking the calls of a repository gives every edge the destination the rule for a single edge
  names: a definition owned by the receiver, in the same file first, then a definition of the same file,
  then any definition of the name. Neither the memo of components, nor the index by owner, nor the
  batching of the writes changes the outcome, which also does not depend on the order the store returned
  the edges in, each being resolved on its own.
\<close>

theorem local_links_follow_the_rule:
  assumes "distinct (map u_id (g_units d))" and "\<not> f_cancelled (lf_write lf)"
  shows "snd (resolve_local jc lf repo (st, d)) =
    d\<lparr> g_edges := resolved (lf_write lf)
        (List.map_filter (local_reference jc repo (units_by_name (local_units repo d))) (local_edges repo d)) (g_edges d) \<rparr>"
proof -
  let ?by_name = "units_by_name (local_units repo d)"
  let ?rs = "List.map_filter (local_reference jc repo ?by_name) (local_edges repo d)"
  have "set (local_units repo d) \<subseteq> set (g_units d)" unfolding local_units_def by (subst plain_units) (auto simp: any_opts_def)
  from by_name_one_owner [OF assms(1) this] have one: "one_owner ?by_name" .
  have empty: "cache_ok ?by_name new_unit_components" by (simp add: cache_ok_def new_unit_components_def)
  have "snd (resolve_local jc lf repo (st, d)) =
      snd (snd (writer_flush (writer_write lf) (local_loop jc repo lf ?by_name new_unit_components (local_edges repo d) (new_writer, st, d))))"
    by (simp add: resolve_local_def local_units_def local_edges_def Let_def case_prod_beta)
  also have "\<dots> = snd (snd (writer_flush (writer_write lf) (sqlite_sink.queued lf ?rs (new_writer, st, d))))"
    by (simp add: local_loop_ok [OF one empty])
  also have "\<dots> = resolve_all (lf_write lf) ?rs d"
    using sqlite_exact.all_written [of lf ?rs st d] uncancelled_id [OF assms(2)] by simp
  finally show ?thesis by (simp add: resolve_all_def)
qed

text \<open>Two definitions of one name in a database, one of them in the calling file.\<close>

definition demo_db :: gdb where
  "demo_db = empty_gdb\<lparr> g_units := [(demo_unit 7 ''r'' ''f'' ''a.f'' [])\<lparr> u_kind := ''function'', u_file := ''a.go'' \<rparr>,
                                 (demo_unit 8 ''r'' ''f'' ''b.f'' [])\<lparr> u_kind := ''function'', u_file := ''f.go'' \<rparr>],
                    g_edges := [demo_edge 3 5 ''f''] \<rparr>"

definition no_codec :: codec where
  "no_codec = \<lparr> jc_map = (\<lambda>_. None), jc_meta = (\<lambda>_. None), jc_set = (\<lambda>_ _ _. None) \<rparr>"

theorem local_links_follow_the_rule_witness:
  "snd (resolve_local no_codec (no_faults False) ''r'' (new_stats, demo_db)) =
    demo_db\<lparr> g_edges := resolved (lf_write (no_faults False))
        (List.map_filter (local_reference no_codec ''r'' (units_by_name (local_units ''r'' demo_db))) (local_edges ''r'' demo_db)) (g_edges demo_db) \<rparr>"
  by (rule local_links_follow_the_rule) (simp_all add: demo_db_def demo_unit_def no_faults_def)

end
