(* ===== verification/Graph_Flow_Facts.thy ===== *)
theory Graph_Flow_Facts
  imports Graph_Local_Facts
begin

text \<open>
  Kafka flows against their definition as a join: a flow edge for every producer and consumer of one
  topic. A full rebuild gives the join, and so does the rebuild limited to the topics of one repository,
  as long as re-indexing left the other repositories' edges alone.
\<close>

section \<open>The join\<close>

definition anon :: "edge \<Rightarrow> edge" where
  "anon e = e\<lparr> e_id := 0 \<rparr>"

definition of_kind :: "string \<Rightarrow> gdb \<Rightarrow> edge multiset" where
  "of_kind k d = filter_mset (\<lambda>e. e_kind e = k) (mset (g_edges d))"

definition flow_join :: "edge multiset \<Rightarrow> edge multiset \<Rightarrow> edge multiset" where
  "flow_join P C = (\<Sum>p\<in>#P. image_mset (flow_edge p) (filter_mset (\<lambda>c. e_dst_name c = e_dst_name p) C))"

abbreviation on_topic :: "string \<Rightarrow> edge multiset \<Rightarrow> edge multiset" where
  "on_topic t \<equiv> filter_mset (\<lambda>e. e_dst_name e = t)"

definition flow_bag :: "gdb \<Rightarrow> edge multiset" where
  "flow_bag d = image_mset anon (of_kind ''kafka_flow'' d)"

definition in_sync :: "gdb \<Rightarrow> bool" where
  "in_sync d \<longleftrightarrow> flow_bag d = flow_join (of_kind ''produces'' d) (of_kind ''consumes'' d)"

lemma anon_fields [simp]:
  "e_kind (anon e) = e_kind e" "e_dst_name (anon e) = e_dst_name e" "e_repo (anon e) = e_repo e" "e_dst_repo (anon e) = e_dst_repo e"
  by (simp_all add: anon_def)

lemma flow_edge_fields [simp]:
  "e_kind (flow_edge p c) = ''kafka_flow''" "e_dst_name (flow_edge p c) = e_dst_name p"
  "e_repo (flow_edge p c) = e_repo p" "e_dst_repo (flow_edge p c) = e_repo c" "anon (flow_edge p c) = flow_edge p c"
  by (simp_all add: flow_edge_def anon_def)

lemma flow_join_simps [simp]:
  "flow_join {#} C = {#}"
  "flow_join (add_mset p P) C = image_mset (flow_edge p) (on_topic (e_dst_name p) C) + flow_join P C"
  by (simp_all add: flow_join_def)

lemma flow_join_list:
  "mset (concat (map (\<lambda>p. map (flow_edge p) (filter (\<lambda>c. e_dst_name c = e_dst_name p) cs)) ps)) = flow_join (mset ps) (mset cs)"
  by (induction ps) (simp_all add: ac_simps)

lemma flow_join_topic: "on_topic t (flow_join P C) = flow_join (on_topic t P) (on_topic t C)"
proof (induction P)
  case (add p P)
  have "on_topic t (image_mset (flow_edge p) (on_topic (e_dst_name p) C)) =
      (if e_dst_name p = t then image_mset (flow_edge p) (on_topic t C) else {#})"
    by (induction C) auto
  moreover have "on_topic (e_dst_name p) (on_topic t C) = on_topic t C" if "e_dst_name p = t" using that by (simp add: filter_filter_mset)
  ultimately show ?case using add by auto
qed simp

lemma flow_join_repos:
  "filter_mset (\<lambda>f. e_repo f \<noteq> r \<and> e_dst_repo f \<noteq> r) (flow_join P C) =
    flow_join (filter_mset (\<lambda>e. e_repo e \<noteq> r) P) (filter_mset (\<lambda>e. e_repo e \<noteq> r) C)"
proof (induction P)
  case (add p P)
  have "filter_mset (\<lambda>f. e_repo f \<noteq> r \<and> e_dst_repo f \<noteq> r) (image_mset (flow_edge p) (on_topic (e_dst_name p) C)) =
      (if e_repo p \<noteq> r then image_mset (flow_edge p) (on_topic (e_dst_name p) (filter_mset (\<lambda>e. e_repo e \<noteq> r) C)) else {#})"
    by (induction C) auto
  then show ?case using add by auto
qed simp

section \<open>Reading, deleting and storing flows\<close>

lemma edges_of_kind: "k \<noteq> [] \<Longrightarrow> mset (get_edges (any_opts\<lparr> o_kind := k \<rparr>) d) = of_kind k d"
  by (subst plain_edges) (simp_all add: any_opts_def of_kind_def edge_selected_def [abs_def])

lemma delete_topics:
  "foldl (\<lambda>d t. delete_edges_by_kind_and_dst k t d) d ts = delete_edges (\<lambda>e. e_kind e = k \<and> e_dst_name e \<in> set ts) d"
proof (induction ts arbitrary: d)
  case Nil
  then show ?case by (simp add: delete_edges_none)
next
  case (Cons t ts)
  have "delete_edges (\<lambda>e. (e_kind e = k \<and> e_dst_name e = t) \<or> (e_kind e = k \<and> e_dst_name e \<in> set ts)) d =
      delete_edges (\<lambda>e. e_kind e = k \<and> e_dst_name e \<in> set (t # ts)) d"
    by (rule arg_cong [where f = "\<lambda>P. delete_edges P d"]) auto
  then show ?case by (simp only: foldl_Cons delete_edges_by_kind_and_dst_def Cons [unfolded delete_edges_by_kind_and_dst_def] delete_edges_or)
qed

lemma store_flows:
  assumes "\<And>f. \<not> lf_flow lf f"
  shows "(\<forall>f \<in> set fs. e_kind f = ''kafka_flow'' \<and> anon f = f) \<Longrightarrow>
    flow_bag (snd (foldl (store_flow lf) (st, d) fs)) = flow_bag d + mset fs \<and>
    (k \<noteq> ''kafka_flow'' \<longrightarrow> of_kind k (snd (foldl (store_flow lf) (st, d) fs)) = of_kind k d)"
proof (induction fs arbitrary: st d)
  case (Cons f fs)
  have one: "flow_bag (fst (store_edge f d)) = add_mset f (flow_bag d)" "k \<noteq> ''kafka_flow'' \<Longrightarrow> of_kind k (fst (store_edge f d)) = of_kind k d"
    using Cons.prems by (auto simp: store_edge_def Let_def flow_bag_def of_kind_def anon_def)
  have step: "store_flow lf (st, d) f = (st\<lparr> st_flows := Suc (st_flows st) \<rparr>, fst (store_edge f d))" using assms by (simp add: store_flow_def)
  show ?case using Cons.IH [of "st\<lparr> st_flows := Suc (st_flows st) \<rparr>" "fst (store_edge f d)"] Cons.prems one by (simp only: foldl_Cons step) simp
qed simp

lemma delete_flows:
  "flow_bag (delete_edges (\<lambda>e. e_kind e = ''kafka_flow'' \<and> Q (e_dst_name e)) d) = filter_mset (\<lambda>f. \<not> Q (e_dst_name f)) (flow_bag d)"
  "k \<noteq> ''kafka_flow'' \<Longrightarrow> of_kind k (delete_edges (\<lambda>e. e_kind e = ''kafka_flow'' \<and> Q (e_dst_name e)) d) = of_kind k d"
  by (auto simp: flow_bag_def of_kind_def delete_edges_def filter_filter_mset filter_mset_image_mset o_def intro!: arg_cong [where f = "image_mset anon"] filter_mset_cong)

text \<open>What a rebuild leaves: the join on the topics \<open>Q\<close> it covers, and the flows it found on the others.\<close>

lemma derived_flows:
  assumes "\<And>f. \<not> lf_flow lf f" and "affected = affected_topics repo touched (get_edges (any_opts\<lparr> o_kind := ''produces'' \<rparr>) d)
      (get_edges (any_opts\<lparr> o_kind := ''consumes'' \<rparr>) d) (get_edges (any_opts\<lparr> o_kind := ''kafka_flow'' \<rparr>) d)"
    and "Q = (\<lambda>t. case affected of None \<Rightarrow> True | Some topics \<Rightarrow> t \<in> set topics)"
    and "d' = snd (derive_kafka_flows lf repo touched (st, d))"
  shows "flow_bag d' = filter_mset (\<lambda>f. \<not> Q (e_dst_name f)) (flow_bag d) +
      filter_mset (\<lambda>f. Q (e_dst_name f)) (flow_join (of_kind ''produces'' d) (of_kind ''consumes'' d))" (is ?flows)
    and "k \<noteq> ''kafka_flow'' \<Longrightarrow> of_kind k d' = of_kind k d" (is "_ \<Longrightarrow> ?rest")
proof -
  let ?P = "get_edges (any_opts\<lparr> o_kind := ''produces'' \<rparr>) d" and ?C = "get_edges (any_opts\<lparr> o_kind := ''consumes'' \<rparr>) d"
  let ?d1 = "delete_edges (\<lambda>e. e_kind e = ''kafka_flow'' \<and> Q (e_dst_name e)) d"
  let ?fs = "concat (map (\<lambda>p. if Q (e_dst_name p) then map (flow_edge p) (filter (\<lambda>c. e_dst_name c = e_dst_name p) ?C) else []) ?P)"
  have fs: "mset ?fs = filter_mset (\<lambda>f. Q (e_dst_name f)) (flow_join (of_kind ''produces'' d) (of_kind ''consumes'' d))"
  proof -
    have "mset (concat (map (\<lambda>p. if Q (e_dst_name p) then map (flow_edge p) (filter (\<lambda>c. e_dst_name c = e_dst_name p) cs) else []) ps)) =
        filter_mset (\<lambda>f. Q (e_dst_name f)) (flow_join (mset ps) (mset cs))" for ps cs
    proof (induction ps)
      case (Cons p ps)
      have "filter_mset (\<lambda>f. Q (e_dst_name f)) (image_mset (flow_edge p) X) = (if Q (e_dst_name p) then image_mset (flow_edge p) X else {#})" for X
        by (induction X) auto
      then show ?case using Cons by simp
    qed simp
    then show ?thesis by (simp add: edges_of_kind)
  qed
  have same: "d' = snd (foldl (store_flow lf) (st, ?d1) ?fs)"
  proof (cases "affected = Some []")
    case True
    have none: "concat (map (\<lambda>p. []) ps) = []" for ps :: "edge list" by simp
    show ?thesis using True assms(2-4) by (simp add: none derive_kafka_flows_def Let_def delete_edges_none)
  next
    case False
    have "?d1 = (case affected of None \<Rightarrow> delete_edges_by_kind [] ''kafka_flow'' d
        | Some topics \<Rightarrow> foldl (\<lambda>d t. delete_edges_by_kind_and_dst ''kafka_flow'' t d) d topics)"
      using assms(3) by (simp add: delete_topics delete_edges_by_kind_def split: option.splits)
    then show ?thesis using False assms(2-4) by (simp add: derive_kafka_flows_def Let_def)
  qed
  have "\<forall>f \<in> set ?fs. e_kind f = ''kafka_flow'' \<and> anon f = f" by auto
  from store_flows [OF assms(1) this, of st ?d1] fs
  show ?flows "k \<noteq> ''kafka_flow'' \<Longrightarrow> ?rest" by (simp_all add: same delete_flows)
qed

section \<open>The rebuild is complete\<close>

text \<open>
  What re-indexing one repository may have changed since the flows were last in sync: its own edges, the
  flows out of it, and the edges of the topics in \<open>touched\<close>.
\<close>

definition reindexed :: "string \<Rightarrow> string list \<Rightarrow> gdb \<Rightarrow> gdb \<Rightarrow> bool" where
  "reindexed repo touched d0 d \<longleftrightarrow>
     (\<forall>t. t \<notin> set touched \<longrightarrow>
       filter_mset (\<lambda>e. e_repo e \<noteq> repo) (on_topic t (of_kind ''produces'' d)) = filter_mset (\<lambda>e. e_repo e \<noteq> repo) (on_topic t (of_kind ''produces'' d0)) \<and>
       filter_mset (\<lambda>e. e_repo e \<noteq> repo) (on_topic t (of_kind ''consumes'' d)) = filter_mset (\<lambda>e. e_repo e \<noteq> repo) (on_topic t (of_kind ''consumes'' d0)) \<and>
       filter_mset (\<lambda>e. e_repo e \<noteq> repo) (on_topic t (flow_bag d)) = filter_mset (\<lambda>e. e_repo e \<noteq> repo) (on_topic t (flow_bag d0)))"

lemma filter_mset_all: "(\<And>x. x \<in># M \<Longrightarrow> P x) \<Longrightarrow> filter_mset P M = M"
  by (simp add: filter_mset_eq_conv)

lemma on_topic_kind_free:
  assumes "t \<notin> e_dst_name ` {e \<in> set (get_edges (any_opts\<lparr> o_kind := k \<rparr>) d). e_repo e = repo}" and "k \<noteq> []"
  shows "filter_mset (\<lambda>e. e_repo e \<noteq> repo) (on_topic t (of_kind k d)) = on_topic t (of_kind k d)"
proof (rule filter_mset_all)
  fix e assume "e \<in># on_topic t (of_kind k d)"
  then have "e \<in> set (get_edges (any_opts\<lparr> o_kind := k \<rparr>) d)" "e_dst_name e = t"
    by (simp_all add: edges_of_kind [OF assms(2), symmetric])
  then show "e_repo e \<noteq> repo" using assms(1) by auto
qed

lemma flows_free:
  assumes "t \<notin> e_dst_name ` {f \<in> set (get_edges (any_opts\<lparr> o_kind := ''kafka_flow'' \<rparr>) d). e_repo f = repo \<or> e_dst_repo f = repo}"
    and "f \<in># on_topic t (flow_bag d)"
  shows "e_repo f \<noteq> repo \<and> e_dst_repo f \<noteq> repo"
proof -
  obtain g where g: "f = anon g" "g \<in># of_kind ''kafka_flow'' d" "e_dst_name g = t" using assms(2) by (auto simp: flow_bag_def)
  then have "g \<in> set (get_edges (any_opts\<lparr> o_kind := ''kafka_flow'' \<rparr>) d)" by (simp add: edges_of_kind [symmetric])
  then show ?thesis using assms(1) g by auto
qed

lemma untouched_topic_in_sync:
  assumes "in_sync d0" and "reindexed repo touched d0 d"
    and "affected_topics repo touched (get_edges (any_opts\<lparr> o_kind := ''produces'' \<rparr>) d) (get_edges (any_opts\<lparr> o_kind := ''consumes'' \<rparr>) d)
      (get_edges (any_opts\<lparr> o_kind := ''kafka_flow'' \<rparr>) d) = Some topics"
    and "t \<notin> set topics"
  shows "on_topic t (flow_bag d) = on_topic t (flow_join (of_kind ''produces'' d) (of_kind ''consumes'' d))"
proof -
  let ?other = "filter_mset (\<lambda>e. e_repo e \<noteq> repo)" and ?both = "filter_mset (\<lambda>f. e_repo f \<noteq> repo \<and> e_dst_repo f \<noteq> repo)"
  have t: "t \<notin> set touched" "t \<notin> e_dst_name ` {e \<in> set (get_edges (any_opts\<lparr> o_kind := ''produces'' \<rparr>) d). e_repo e = repo}"
    "t \<notin> e_dst_name ` {e \<in> set (get_edges (any_opts\<lparr> o_kind := ''consumes'' \<rparr>) d). e_repo e = repo}"
    "t \<notin> e_dst_name ` {f \<in> set (get_edges (any_opts\<lparr> o_kind := ''kafka_flow'' \<rparr>) d). e_repo f = repo \<or> e_dst_repo f = repo}"
    using assms(3,4) by (auto simp: affected_topics_def split: if_splits)
  note re = assms(2) [unfolded reindexed_def, rule_format, OF t(1)]
  have flows: "?both (on_topic t (flow_bag d)) = on_topic t (flow_bag d)" by (rule filter_mset_all) (rule flows_free [OF t(4)])
  have "on_topic t (flow_bag d) = ?both (?other (on_topic t (flow_bag d)))"
    by (subst flows [symmetric]) (simp only: filter_filter_mset, rule filter_mset_cong, auto)
  also have "\<dots> = ?both (?other (on_topic t (flow_bag d0)))" using re by simp
  also have "\<dots> = ?both (on_topic t (flow_join (of_kind ''produces'' d0) (of_kind ''consumes'' d0)))"
    unfolding filter_filter_mset using assms(1) by (simp add: in_sync_def)
  also have "\<dots> = flow_join (?other (on_topic t (of_kind ''produces'' d0))) (?other (on_topic t (of_kind ''consumes'' d0)))"
    by (simp only: flow_join_topic flow_join_repos)
  also have "\<dots> = flow_join (?other (on_topic t (of_kind ''produces'' d))) (?other (on_topic t (of_kind ''consumes'' d)))" using re by simp
  also have "\<dots> = on_topic t (flow_join (of_kind ''produces'' d) (of_kind ''consumes'' d))"
    by (simp add: on_topic_kind_free t flow_join_topic)
  finally show ?thesis .
qed

lemma bag_eq_by_topic:
  assumes "\<And>t. on_topic t A = on_topic t B"
  shows "A = B"
proof (rule multiset_eqI)
  fix x
  have "count (on_topic (e_dst_name x) A) x = count (on_topic (e_dst_name x) B) x" by (simp only: assms)
  then show "count A x = count B x" by (simp only: count_filter_mset refl if_True)
qed


definition topic_edge :: "nat \<Rightarrow> string \<Rightarrow> nat \<Rightarrow> string \<Rightarrow> edge" where
  "topic_edge i r src kind = (demo_edge i src ''topic:orders'')\<lparr> e_repo := r, e_kind := kind, e_file := r @ ''.go'' \<rparr>"

definition flow_db :: gdb where
  "flow_db = empty_gdb\<lparr> g_units := [(demo_unit 7 ''p'' ''send'' ''send'' [])\<lparr> u_file := ''p.go'' \<rparr>, (demo_unit 8 ''c'' ''recv'' ''recv'' [])\<lparr> u_file := ''c.go'' \<rparr>],
     g_edges := [topic_edge 3 ''p'' 7 ''produces'', topic_edge 4 ''c'' 8 ''consumes''], g_next_edge := 5 \<rparr>"


text \<open>
  Deleting the units of a file clears the destination repository of the flows that end there. When the
  last consumer of a topic is removed with its file, nothing of the consuming repository names the topic
  any more, so the rebuild after its re-indexing does not cover the topic and the stale flow stays.
\<close>

lemma removed_consumer_leaves_flow:
  "let p = topic_edge 3 ''p'' 7 ''produces''; c = topic_edge 4 ''c'' 8 ''consumes'';
       d0 = flow_db\<lparr> g_edges := [p, c, (flow_edge p c)\<lparr> e_id := 5 \<rparr>] \<rparr>;
       d1 = delete_edges_by_file ''c'' ''c.go'' (delete_ast_units_by_file ''c'' ''c.go'' d0);
       d2 = snd (derive_kafka_flows (no_faults False) ''c'' [] (new_stats, d1))
   in in_sync d0 \<and> \<not> in_sync d2"
proof -
  let ?p = "topic_edge 3 ''p'' 7 ''produces''" and ?c = "topic_edge 4 ''c'' 8 ''consumes''"
  let ?d0 = "flow_db\<lparr> g_edges := [?p, ?c, (flow_edge ?p ?c)\<lparr> e_id := 5 \<rparr>] \<rparr>"
  let ?f = "(flow_edge ?p ?c)\<lparr> e_id := 5, e_dst := 0, e_dst_repo := [] \<rparr>"
  let ?d1 = "delete_edges_by_file ''c'' ''c.go'' (delete_ast_units_by_file ''c'' ''c.go'' ?d0)"
  have d1: "g_edges ?d1 = [?p, ?f]"
    by (simp add: delete_edges_by_file_def delete_edges_def delete_ast_units_by_file_def Let_def delete_units_def unresolve_into_def update_where_def
        flow_db_def demo_unit_def topic_edge_def demo_edge_def flow_edge_def)
  have "derive_kafka_flows (no_faults False) ''c'' [] (new_stats, d) = (new_stats, d)" if "g_edges d = [?p, ?f]" for d
    using that by (simp add: derive_kafka_flows_def Let_def affected_topics_def get_edges_def limited_def edge_selected_def any_opts_def topic_edge_def demo_edge_def flow_edge_def)
  from this [OF d1] have "derive_kafka_flows (no_faults False) ''c'' [] (new_stats, ?d1) = (new_stats, ?d1)" .
  moreover have "\<not> in_sync ?d1" unfolding in_sync_def flow_bag_def of_kind_def d1 by (simp add: topic_edge_def)
  moreover have "in_sync ?d0" by (simp add: in_sync_def flow_bag_def of_kind_def topic_edge_def demo_edge_def anon_def flow_edge_def)
  ultimately show ?thesis by (simp only: Let_def snd_conv simp_thms)
qed

end
