(* ===== verification/Graph_Config_Facts.thy ===== *)
theory Graph_Config_Facts
  imports Graph_Flow_Facts
begin

text \<open>
  Rewriting config references loses no edge: what the delete-and-reinsert of whole groups leaves is, up
  to ids, every edge with its reference resolved; a group is lost only as a whole, when its insertion
  fails after its deletion succeeded.
\<close>

section \<open>Groups\<close>

definition anon_bag :: "gdb \<Rightarrow> edge multiset" where
  "anon_bag d = image_mset anon (mset (g_edges d))"

lemma batch_store_bag: "anon_bag (fst (batch_store_edges es d)) = anon_bag d + image_mset anon (mset es)"
proof (induction es arbitrary: d)
  case (Cons e es)
  show ?case using Cons [of "d\<lparr> g_edges := g_edges d @ [e\<lparr> e_id := g_next_edge d \<rparr>], g_next_edge := Suc (g_next_edge d) \<rparr>"]
    by (simp add: Let_def case_prod_beta anon_bag_def anon_def)
qed (simp add: anon_bag_def)

lemma delete_groups_eq:
  "\<exists>st'. delete_groups lf keys (st, d) =
    ((st', delete_edges (\<lambda>e. key_of e \<in> set (filter (\<lambda>k. \<not> lf_delete lf k) keys)) d), filter (\<lambda>k. \<not> lf_delete lf k) keys)"
proof (induction keys arbitrary: st d)
  case Nil
  then show ?case by (simp add: delete_edges_none)
next
  case (Cons k ks)
  show ?case
  proof (cases "lf_delete lf k")
    case True
    then show ?thesis using Cons by simp
  next
    case False
    let ?d = "delete_edges_by_kind_and_dst (fst k) (snd k) d"
    obtain st' where st': "delete_groups lf ks (st, ?d) =
        ((st', delete_edges (\<lambda>e. key_of e \<in> set (filter (\<lambda>k. \<not> lf_delete lf k) ks)) ?d), filter (\<lambda>k. \<not> lf_delete lf k) ks)"
      using Cons by blast
    have "delete_edges (\<lambda>e. key_of e \<in> set (filter (\<lambda>k. \<not> lf_delete lf k) ks)) ?d =
        delete_edges (\<lambda>e. key_of e \<in> set (filter (\<lambda>k. \<not> lf_delete lf k) (k # ks))) d"
      unfolding delete_edges_by_kind_and_dst_def delete_edges_or
      by (rule arg_cong [where f = "\<lambda>P. delete_edges P d"]) (use False in \<open>auto simp: key_of_def fun_eq_iff\<close>)
    then show ?thesis using False st' by simp
  qed
qed

lemma restore_groups_bag:
  "anon_bag (snd (restore_groups lf groups keys (st, d))) =
    anon_bag d + (\<Sum>k\<in>#mset (filter (\<lambda>k. \<not> lf_restore lf k) keys). image_mset anon (mset (groups k)))"
proof (induction keys arbitrary: st d)
  case (Cons k ks)
  have "image_mset anon (mset (map (\<lambda>e. e\<lparr> e_id := 0 \<rparr>) es)) = image_mset anon (mset es)" for es :: "edge list"
    by (induction es) (simp_all add: anon_def)
  then show ?case using Cons by (simp add: batch_store_bag ac_simps)
qed simp

lemma groups_sum:
  "distinct ks \<Longrightarrow> (\<Sum>k\<in>#mset ks. image_mset f (filter_mset (\<lambda>e. key_of e = k) M)) = image_mset f (filter_mset (\<lambda>e. key_of e \<in> set ks) M)"
proof (induction ks)
  case (Cons k ks)
  have "filter_mset (\<lambda>e. key_of e \<in> set (k # ks)) M = filter_mset (\<lambda>e. key_of e = k) M + filter_mset (\<lambda>e. key_of e \<in> set ks) M"
    using Cons.prems by (induction M) auto
  then show ?case using Cons by simp
qed simp

section \<open>A pass over the references\<close>

definition topic_edges :: "gdb \<Rightarrow> edge list" where
  "topic_edges d = get_edges (any_opts\<lparr> o_kinds := [''produces'', ''consumes''] \<rparr>) d"

definition current_config :: "gdb \<Rightarrow> config_index" where
  "current_config d = build_config_index (get_ast_units (any_opts\<lparr> o_kind := ''config_key'' \<rparr>) d)"

text \<open>The keys with an edge whose reference resolves to something new.\<close>

definition moved_keys :: "codec \<Rightarrow> gdb \<Rightarrow> edge_key set" where
  "moved_keys jc d = {k. \<exists>e \<in> set (topic_edges d). key_of e = k \<and> rewrite_ref jc (current_config d) e \<noteq> None}"

lemma topic_edges_mset: "mset (topic_edges d) = filter_mset (\<lambda>e. e_kind e = ''produces'' \<or> e_kind e = ''consumes'') (mset (g_edges d))"
  unfolding topic_edges_def by (subst plain_edges) (simp_all add: any_opts_def edge_selected_def [abs_def])

lemma moved_in_topic_edges:
  assumes "K \<subseteq> moved_keys jc d"
  shows "filter_mset (\<lambda>e. key_of e \<in> K) (mset (topic_edges d)) = filter_mset (\<lambda>e. key_of e \<in> K) (mset (g_edges d))"
proof -
  have "e_kind e = ''produces'' \<or> e_kind e = ''consumes''" if k: "key_of e \<in> K" for e
  proof -
    obtain e' where "e' \<in> set (topic_edges d)" "key_of e' = key_of e" using assms k by (auto simp: moved_keys_def)
    moreover have "e_kind e' = ''produces'' \<or> e_kind e' = ''consumes''"
      using calculation(1) unfolding set_mset_mset [symmetric] topic_edges_mset by simp
    ultimately show ?thesis by (simp add: key_of_def)
  qed
  then show ?thesis by (auto simp: topic_edges_mset filter_filter_mset intro: filter_mset_cong)
qed

text \<open>
  C16: resolving the config references of the produced and consumed topics keeps every edge. Up to fresh
  ids, the edges afterwards are those of before, each with its reference resolved against the current
  configuration; edges whose group could not be deleted stay as they were, and only a group deleted
  but refused on insertion is missing, as a whole.
\<close>

theorem config_rewrite_keeps_edges:
  "image_mset anon (mset (g_edges (snd (fst (resolve_config_refs jc lf (st, d)))))) =
    image_mset (\<lambda>e. anon (if key_of e \<in> moved_keys jc d \<and> \<not> lf_delete lf (key_of e) then rewritten jc (current_config d) e else e))
      (filter_mset (\<lambda>e. \<not> (key_of e \<in> moved_keys jc d \<and> \<not> lf_delete lf (key_of e) \<and> lf_restore lf (key_of e))) (mset (g_edges d)))"
  (is "_ = ?right")
proof -
  let ?rw = "rewritten jc (current_config d)"
  let ?groups = "\<lambda>k. map ?rw (filter (\<lambda>e. key_of e = k) (topic_edges d))"
  let ?dirty = "remdups (map key_of (filter (\<lambda>e. rewrite_ref jc (current_config d) e \<noteq> None) (topic_edges d)))"
  define keys where "keys = sort (filter (\<lambda>k. ?groups k \<noteq> []) ?dirty)"
  define pending where "pending = filter (\<lambda>k. \<not> lf_delete lf k) keys"
  define kept where "kept = filter (\<lambda>k. \<not> lf_restore lf k) pending"
  have keys: "set keys = moved_keys jc d" "distinct keys" by (force simp: keys_def moved_keys_def filter_empty_conv)+
  then have kept: "set kept = {k \<in> moved_keys jc d. \<not> lf_delete lf k \<and> \<not> lf_restore lf k}" "distinct kept"
    and pending: "set pending = {k \<in> moved_keys jc d. \<not> lf_delete lf k}" by (auto simp: kept_def pending_def)
  have no_refs: "moved_keys jc d = {}" if "filter (\<lambda>e. ref_of jc e \<noteq> []) (topic_edges d) = []"
    using that by (auto simp: moved_keys_def rewrite_ref_def filter_empty_conv)
  have run: "anon_bag (snd (fst (resolve_config_refs jc lf (st, d)))) =
      image_mset anon (filter_mset (\<lambda>e. key_of e \<notin> set pending) (mset (g_edges d))) +
      image_mset (\<lambda>e. anon (?rw e)) (filter_mset (\<lambda>e. key_of e \<in> set kept) (mset (g_edges d)))"
  proof (cases "filter (\<lambda>e. ref_of jc e \<noteq> []) (topic_edges d) = []")
    case True
    then show ?thesis using no_refs [OF True] pending kept by (simp add: resolve_config_refs_def topic_edges_def [symmetric] anon_bag_def)
  next
    case False
    obtain st' where groups: "delete_groups lf keys (st, d) = ((st', delete_edges (\<lambda>e. key_of e \<in> set pending) d), pending)"
      using delete_groups_eq [of lf keys st d] by (auto simp: pending_def)
    have "fst (resolve_config_refs jc lf (st, d)) = restore_groups lf ?groups pending (st', delete_edges (\<lambda>e. key_of e \<in> set pending) d)"
      by (simp only: resolve_config_refs_def prod.case topic_edges_def [symmetric] current_config_def [symmetric] Let_def rewrite_edge_groups_def
          keys_def [symmetric] False if_False fst_conv groups)
    moreover have "(\<Sum>k\<in>#mset kept. image_mset anon (mset (?groups k))) = image_mset (\<lambda>e. anon (?rw e)) (filter_mset (\<lambda>e. key_of e \<in> set kept) (mset (topic_edges d)))"
      using groups_sum [OF kept(2), of "\<lambda>e. anon (?rw e)" "mset (topic_edges d)"] by (simp add: image_mset.compositionality o_def)
    moreover have "filter_mset (\<lambda>e. key_of e \<in> set kept) (mset (topic_edges d)) = filter_mset (\<lambda>e. key_of e \<in> set kept) (mset (g_edges d))"
      by (rule moved_in_topic_edges) (use kept in auto)
    moreover have "anon_bag (delete_edges (\<lambda>e. key_of e \<in> set pending) d) = image_mset anon (filter_mset (\<lambda>e. key_of e \<notin> set pending) (mset (g_edges d)))"
      by (simp add: anon_bag_def delete_edges_def)
    ultimately show ?thesis by (simp add: restore_groups_bag kept_def [symmetric])
  qed
  have "image_mset anon (filter_mset (\<lambda>e. key_of e \<notin> set pending) M) + image_mset (\<lambda>e. anon (?rw e)) (filter_mset (\<lambda>e. key_of e \<in> set kept) M) =
      image_mset (\<lambda>e. anon (if key_of e \<in> moved_keys jc d \<and> \<not> lf_delete lf (key_of e) then ?rw e else e))
      (filter_mset (\<lambda>e. \<not> (key_of e \<in> moved_keys jc d \<and> \<not> lf_delete lf (key_of e) \<and> lf_restore lf (key_of e))) M)" for M
    by (induction M) (auto simp: kept pending)
  then show ?thesis using run by (simp add: anon_bag_def)
qed

end
