(* ===== verification/Graph_Contract_Facts.thy ===== *)
theory Graph_Contract_Facts
  imports Graph_Route_Facts Graph_Config_Facts
begin

text \<open>
  Contract edges after a link pass: every one of them points at a contract unit that exists, or at
  nothing; the chooser is asked a bounded number of times and decides only between candidates.
\<close>

section \<open>Candidates\<close>

lemma set_sort_units [simp]: "set (sort_units us) = set us"
  by (simp add: sort_units_def)

lemma rpc_candidates_units: "u \<in> set (fst (rpc_candidates (build_rpc_index us) key)) \<Longrightarrow> u \<in> set us"
proof -
  have bucket: "ir_unit ` set (build_rpc_index us meth) \<subseteq> set us" for meth
    by (auto simp: rpc_bucket rpc_parsed_def split: prod.splits if_splits)
  assume "u \<in> set (fst (rpc_candidates (build_rpc_index us) key))"
  then obtain meth where "u \<in> ir_unit ` set (build_rpc_index us meth)"
    by (auto simp: rpc_candidates_def rpc_tier_def Let_def split: prod.splits if_splits)
  then show ?thesis using bucket by blast
qed

lemma route_candidates_units: "u \<in> sr_unit ` set (route_candidates (build_route_index us) key src) \<Longrightarrow> u \<in> set us"
  by (auto simp: route_candidates_set scored_def)

definition table_units_in :: "ast_unit set \<Rightarrow> table_index \<Rightarrow> bool" where
  "table_units_in U idx \<longleftrightarrow> (\<forall>k. set (ti_by_key idx k) \<union> set (ti_by_name idx k) \<union> set (ti_by_entity idx k) \<subseteq> U)"

lemma add_table_in: "table_units_in U idx \<Longrightarrow> u \<in> U \<Longrightarrow> table_units_in U (add_table idx u)"
  by (auto simp: add_table_def table_units_in_def Let_def push_to_def split: prod.splits option.splits)

lemma build_table_in: "table_units_in (set us) (build_table_index us)"
proof -
  have "table_units_in U idx \<Longrightarrow> set us \<subseteq> U \<Longrightarrow> table_units_in U (foldl add_table idx us)" for U idx
    by (induction us arbitrary: idx) (auto intro: add_table_in)
  then show ?thesis by (simp add: build_table_index_def table_units_in_def)
qed

lemma table_tiers_in: "u \<in> set (fst (table_tiers tiers src)) \<Longrightarrow> \<exists>t \<in> set tiers. u \<in> set (fst t)"
  by (induction tiers src rule: table_tiers.induct) (auto simp: Let_def split: if_splits)

lemma table_candidates_units:
  assumes "u \<in> set (fst (table_candidates (build_table_index us) key src))"
  shows "u \<in> set us"
proof -
  let ?idx = "build_table_index us"
  obtain tiers where tiers: "u \<in> set (fst (table_tiers tiers src))" "fst ` set tiers \<subseteq> {ti_by_key ?idx key, ti_by_name ?idx key, ti_by_entity ?idx key}"
  proof (cases "is_kind key KindDB")
    case True
    obtain table ok where key: "parse_db key = (table, ok)" by (cases "parse_db key")
    show ?thesis using assms True key by (intro that [of "(ti_by_key ?idx key, conf_exact, conf_high) #
        (if ok \<and> \<not> contains table ''.'' then [(ti_by_name ?idx key, conf_high, conf_cross_file), (ti_by_entity ?idx key, conf_cross_file, conf_heuristic)] else [])"])
      (auto simp: table_candidates_def simp del: table_tiers.simps)
  next
    case False
    then show ?thesis using assms by (simp add: table_candidates_def)
  qed
  from table_tiers_in [OF tiers(1)] obtain t where "t \<in> set tiers" "u \<in> set (fst t)" by blast
  then have "u \<in> set (ti_by_key ?idx key) \<union> set (ti_by_name ?idx key) \<union> set (ti_by_entity ?idx key)" using tiers(2) by auto
  then show ?thesis using build_table_in [of us] unfolding table_units_in_def by blast
qed

lemma contract_candidates_ids:
  assumes "idx = new_contract_index rpcs routes tables" and "u \<in> set (cm_cands (contract_candidates idx e))"
  shows "u_id u \<in> ci_ids idx"
proof -
  have "u \<in> set (rpcs @ routes @ tables)"
    using assms(2) rpc_candidates_units [of u rpcs "e_dst_name e"] route_candidates_units [of u routes "e_dst_name e" "e_repo e"]
      table_candidates_units [of u tables "e_dst_name e" "e_repo e"]
    by (auto simp: assms(1) new_contract_index_def contract_candidates_def Let_def split: prod.splits if_splits)
  then show ?thesis by (auto simp: assms(1) new_contract_index_def)
qed

section \<open>The chooser\<close>

lemma disambiguate_picks_candidate:
  "disambiguate ask ds e cands = (ds', Some u) \<Longrightarrow> u_id u \<in> u_id ` set cands"
  by (auto simp: disambiguate_def list_ex_iff Let_def split: option.splits prod.splits if_splits intro: rev_image_eqI)

lemma contract_target_ids:
  assumes "idx = new_contract_index rpcs routes tables" and "contract_target idx dis ds e = (ds', Some (u, conf, llm))"
  shows "u_id u \<in> ci_ids idx"
proof -
  let ?cands = "cm_cands (contract_candidates idx e)"
  have "u_id u \<in> u_id ` set ?cands"
    using assms(2) disambiguate_picks_candidate [of _ ds e ?cands] hd_in_set [of ?cands]
    by (auto simp: contract_target_def Let_def split: option.splits prod.splits if_splits)
  then show ?thesis using contract_candidates_ids [OF assms(1)] by auto
qed

definition budget_ok :: "string set \<Rightarrow> disambig_run \<Rightarrow> bool" where
  "budget_ok names ds \<longleftrightarrow> ds_calls ds \<le> max_disambig_calls \<and> finite (dom (ds_cache ds)) \<and> ds_calls ds = card (dom (ds_cache ds)) \<and> dom (ds_cache ds) \<subseteq> names"

lemma budget_mono: "budget_ok names ds \<Longrightarrow> names \<subseteq> names' \<Longrightarrow> budget_ok names' ds"
  by (auto simp: budget_ok_def)

lemma disambiguate_budget:
  assumes "budget_ok names ds" and "disambiguate ask ds e cands = (ds', pick)"
  shows "budget_ok (insert (e_dst_name e) names) ds'"
proof (cases "ds_cache ds (e_dst_name e)")
  case None
  then have new: "e_dst_name e \<notin> dom (ds_cache ds)" by auto
  have "ds' = ds \<or> ds_calls ds < max_disambig_calls \<and> ds_calls ds' = Suc (ds_calls ds) \<and> dom (ds_cache ds') = insert (e_dst_name e) (dom (ds_cache ds))"
    using assms(2) None by (auto simp: disambiguate_def Let_def split: prod.splits if_splits)
  moreover have "card (insert (e_dst_name e) (dom (ds_cache ds))) = Suc (card (dom (ds_cache ds)))"
    using assms(1) new by (intro card_insert_disjoint) (simp_all add: budget_ok_def)
  ultimately show ?thesis using assms(1) by (elim disjE) (simp_all add: budget_ok_def subset_insertI2 insert_mono)
next
  case (Some p)
  then have "ds' = ds" using assms(2) by (simp add: disambiguate_def)
  then show ?thesis using assms(1) by (auto intro: budget_mono)
qed

lemma contract_target_budget:
  assumes "budget_ok names ds" and "contract_target idx dis ds e = (ds', t)"
  shows "budget_ok (insert (e_dst_name e) names) ds'"
proof -
  have "ds' = ds \<or> (\<exists>ask pick. disambiguate ask ds e (cm_cands (contract_candidates idx e)) = (ds', pick))"
    using assms(2) by (auto simp: contract_target_def Let_def split: option.splits prod.splits if_splits)
  then show ?thesis using assms(1) disambiguate_budget budget_mono by blast
qed

lemma contract_step_ds:
  assumes "contract_target idx dis (cs_ds c) e = (ds, t)"
  shows "cs_ds (contract_step jc lf idx dis c e) \<in> {cs_ds c, ds}"
proof (cases t)
  case None
  then show ?thesis by (simp add: contract_step_def assms split: prod.split)
next
  case (Some x)
  then show ?thesis by (cases x) (simp add: contract_step_def assms mark_chosen_def Let_def split: prod.split option.split)
qed

text \<open>
  over all contract edges of a link pass the language model that settles ambiguous destinations is
  asked at most twenty times, once for each destination name it is asked about, and only about names that
  occur on the edges.
\<close>

theorem chooser_budget:
  "let ds = cs_ds (foldl (contract_step jc lf idx dis)
      \<lparr> cs_ds = new_disambig_run, cs_link = link, cs_clear = clear, cs_stats = st, cs_db = d \<rparr> edges)
   in ds_calls ds \<le> 20 \<and> ds_calls ds = card (dom (ds_cache ds)) \<and> dom (ds_cache ds) \<subseteq> e_dst_name ` set edges"
proof -
  have run: "budget_ok names (cs_ds c) \<Longrightarrow> budget_ok (e_dst_name ` set es \<union> names) (cs_ds (foldl (contract_step jc lf idx dis) c es))" for es names c
  proof (induction es arbitrary: c names)
    case (Cons e es)
    have "budget_ok (insert (e_dst_name e) names) (cs_ds (contract_step jc lf idx dis c e))"
    proof -
      obtain ds t where t: "contract_target idx dis (cs_ds c) e = (ds, t)" by (cases "contract_target idx dis (cs_ds c) e")
      show ?thesis using contract_step_ds [OF t, of jc lf] contract_target_budget [OF Cons.prems t] budget_mono [OF Cons.prems subset_insertI] by auto
    qed
    from Cons.IH [OF this] show ?case by simp
  qed simp
  have "budget_ok {} new_disambig_run" by (simp add: budget_ok_def new_disambig_run_def)
  from run [of "{}" "\<lparr> cs_ds = new_disambig_run, cs_link = link, cs_clear = clear, cs_stats = st, cs_db = d \<rparr>" edges] this
  show ?thesis by (simp add: budget_ok_def max_disambig_calls_def Let_def)
qed

section \<open>Where the rows end up\<close>

definition dst_ok :: "contract_index \<Rightarrow> edge \<Rightarrow> bool" where
  "dst_ok idx e \<longleftrightarrow> e_dst e = 0 \<or> e_dst e \<in> ci_ids idx"

text \<open>The rows as they will be once both writers are flushed.\<close>

definition pending :: "contract_state \<Rightarrow> nat set" where
  "pending c = r_edge ` set (wr_buf (cs_link c) @ wr_buf (cs_clear c))"

definition final_rows :: "faults \<Rightarrow> contract_state \<Rightarrow> edge list" where
  "final_rows flt c = resolved flt (wr_buf (cs_clear c)) (resolved flt (wr_buf (cs_link c)) (g_edges (cs_db c)))"

lemma unnamed_row: "e_id e \<notin> r_edge ` set rs \<Longrightarrow> foldl (resolve_with flt) e rs = e"
  by (induction rs) (simp_all add: resolve_with_def)

lemma fold_resolve_id [simp]: "e_id (foldl (resolve_with flt) e rs) = e_id e"
  by (induction rs arbitrary: e) simp_all

lemma resolved_swap:
  assumes "r_edge ` set xs \<inter> r_edge ` set ys = {}"
  shows "resolved flt xs (resolved flt ys es) = resolved flt ys (resolved flt xs es)"
proof -
  have "foldl (resolve_with flt) (foldl (resolve_with flt) e ys) xs = foldl (resolve_with flt) (foldl (resolve_with flt) e xs) ys" for e
  proof (cases "e_id e \<in> r_edge ` set xs")
    case True
    then have "e_id e \<notin> r_edge ` set ys" using assms by blast
    then show ?thesis by (simp add: unnamed_row)
  next
    case False
    then show ?thesis by (simp add: unnamed_row)
  qed
  then show ?thesis by (simp add: resolved_def)
qed

lemma add_written:
  assumes "\<not> f_cancelled (lf_write lf)" and "writer_add (writer_write lf) r (w, st, d) = (w', st', d')"
  shows "resolved (lf_write lf) (wr_buf w') (g_edges d') = resolved (lf_write lf) [r] (resolved (lf_write lf) (wr_buf w) (g_edges d))"
    and "set (wr_buf w') \<subseteq> insert r (set (wr_buf w))" and "g_units d' = g_units d"
proof -
  let ?flt = "lf_write lf"
  have "sqlite_exact.outcome lf (w', st', d') = resolve_all ?flt [r] (sqlite_exact.outcome lf (w, st, d))"
    using sqlite_exact.add_outcome [of lf r "(w, st, d)"] assms by (simp add: uncancelled_id)
  then have "resolve_all ?flt (wr_buf w') d' = resolve_all ?flt [r] (resolve_all ?flt (wr_buf w) d)" by (simp add: sqlite_exact.outcome_def)
  then show "resolved ?flt (wr_buf w') (g_edges d') = resolved ?flt [r] (resolved ?flt (wr_buf w) (g_edges d))"
    and "g_units d' = g_units d" by (auto simp: resolve_all_def dest: arg_cong [of _ _ g_edges] arg_cong [of _ _ g_units])
  show "set (wr_buf w') \<subseteq> insert r (set (wr_buf w))"
    using assms(2) by (auto simp: writer_add_def writer_flush_def Let_def split: if_splits prod.splits)
qed

text \<open>
  One edge of a pass changes one row at most, and leaves its destination valid or empty, provided the row
  still has the destination the edge was read with.
\<close>

definition settles :: "contract_index \<Rightarrow> edge \<Rightarrow> edge list \<Rightarrow> edge list \<Rightarrow> bool" where
  "settles idx e rows rows' \<longleftrightarrow> (\<exists>f. rows' = update_where (\<lambda>x. e_id x = e_id e) f rows \<and>
     (\<forall>x. e_id (f x) = e_id x \<and> e_kind (f x) = e_kind x \<and> (e_dst x = e_dst e \<longrightarrow> dst_ok idx (f x))))"

lemma settles_keep: "dst_ok idx e \<Longrightarrow> settles idx e rows rows"
  unfolding settles_def by (rule exI [of _ id]) (auto simp: update_where_def dst_ok_def map_idI [symmetric])

lemma settles_resolution:
  assumes "r_edge r = e_id e" and "r_dst r = 0 \<or> r_dst r \<in> ci_ids idx" and "\<not> f_row flt r"
  shows "settles idx e rows (resolved flt [r] rows)"
  unfolding settles_def
  by (rule exI [of _ "set_resolution r"]) (use assms in \<open>auto simp: update_where_def resolved_def resolve_with_def set_resolution_def dst_ok_def\<close>)

lemma resolved_update_where:
  assumes "i \<notin> r_edge ` set rs" and "\<And>x. e_id (g x) = e_id x"
  shows "resolved flt rs (update_where (\<lambda>x. e_id x = i) g es) = update_where (\<lambda>x. e_id x = i) g (resolved flt rs es)"
  using assms by (auto simp: resolved_def update_where_def unnamed_row)

definition apart :: "contract_state \<Rightarrow> bool" where
  "apart c \<longleftrightarrow> r_edge ` set (wr_buf (cs_link c)) \<inter> r_edge ` set (wr_buf (cs_clear c)) = {}"

lemma queue_link:
  assumes "\<not> f_cancelled (lf_write lf)" and "r_edge r \<notin> pending c" and "apart c"
    and "writer_add (writer_write lf) r (cs_link c, cs_stats c, cs_db c) = (w, st, d)"
    and "c' = c\<lparr> cs_ds := ds, cs_link := w, cs_stats := st, cs_db := d \<rparr>"
  shows "final_rows (lf_write lf) c' = resolved (lf_write lf) [r] (final_rows (lf_write lf) c)"
    and "pending c' \<subseteq> insert (r_edge r) (pending c) \<and> apart c' \<and> g_units (cs_db c') = g_units (cs_db c)"
proof -
  let ?flt = "lf_write lf"
  note add = add_written [OF assms(1,4)]
  have "resolved ?flt (wr_buf (cs_clear c)) (resolved ?flt [r] es) = resolved ?flt [r] (resolved ?flt (wr_buf (cs_clear c)) es)" for es
    by (rule resolved_swap) (use assms(2) in \<open>auto simp: pending_def\<close>)
  then show "final_rows ?flt c' = resolved ?flt [r] (final_rows ?flt c)" by (simp add: assms(5) final_rows_def add(1))
  show "pending c' \<subseteq> insert (r_edge r) (pending c) \<and> apart c' \<and> g_units (cs_db c') = g_units (cs_db c)"
    using add(2,3) assms(2,3) by (auto simp: assms(5) pending_def apart_def)
qed

lemma disjoint_insert: "A \<subseteq> insert x C \<Longrightarrow> x \<notin> B \<Longrightarrow> B \<inter> C = {} \<Longrightarrow> A \<inter> B = {}"
  by blast

lemma union_insert: "A \<subseteq> insert x C \<Longrightarrow> B \<union> A \<subseteq> insert x (B \<union> C)"
  by blast

lemma queue_clear:
  assumes "\<not> f_cancelled (lf_write lf)" and "r_edge r \<notin> pending c" and "apart c"
    and "writer_add (writer_write lf) r (cs_clear c, cs_stats c, cs_db c) = (w, st, d)"
    and "c' = c\<lparr> cs_ds := ds, cs_clear := w, cs_stats := st, cs_db := d \<rparr>"
  shows "final_rows (lf_write lf) c' = resolved (lf_write lf) [r] (final_rows (lf_write lf) c)"
    and "pending c' \<subseteq> insert (r_edge r) (pending c) \<and> apart c' \<and> g_units (cs_db c') = g_units (cs_db c)"
proof -
  let ?flt = "lf_write lf" and ?link = "wr_buf (cs_link c)" and ?clear = "wr_buf (cs_clear c)"
  note add = add_written [OF assms(1,4)]
  have sub: "r_edge ` set (wr_buf w) \<subseteq> insert (r_edge r) (r_edge ` set ?clear)" using add(2) by auto
  have link: "r_edge r \<notin> r_edge ` set ?link" "r_edge ` set ?link \<inter> r_edge ` set ?clear = {}"
    using assms(2,3) by (simp_all add: pending_def apart_def image_Un)
  have disj: "r_edge ` set (wr_buf w) \<inter> r_edge ` set ?link = {}" by (rule disjoint_insert [OF sub link])
  have "pending c' \<subseteq> insert (r_edge r) (pending c)" unfolding assms(5) pending_def using union_insert [OF sub, of "r_edge ` set ?link"] by (simp add: image_Un)
  moreover have "apart c'" unfolding assms(5) apart_def using disj by (simp add: Int_commute)
  moreover have "g_units (cs_db c') = g_units (cs_db c)" unfolding assms(5) by (simp add: add(3))
  ultimately show "pending c' \<subseteq> insert (r_edge r) (pending c) \<and> apart c' \<and> g_units (cs_db c') = g_units (cs_db c)" by (intro conjI)
  have "resolved ?flt (wr_buf w) (resolved ?flt ?link (g_edges d)) = resolved ?flt ?link (resolved ?flt (wr_buf w) (g_edges d))"
    by (rule resolved_swap) (rule disj)
  also have "\<dots> = resolved ?flt [r] (resolved ?flt ?link (resolved ?flt ?clear (g_edges (cs_db c))))"
    unfolding add(1) by (rule resolved_swap) (use link(1) in simp)
  also have "resolved ?flt ?link (resolved ?flt ?clear (g_edges (cs_db c))) = final_rows ?flt c"
    unfolding final_rows_def by (rule resolved_swap) (rule link(2))
  finally show "final_rows ?flt c' = resolved ?flt [r] (final_rows ?flt c)" by (simp only: assms(5) final_rows_def) simp
qed

lemma write_now:
  assumes "i \<notin> pending c" and "\<And>x. e_id (g x) = e_id x" and "cs_link c' = cs_link c" and "cs_clear c' = cs_clear c"
    and "g_edges (cs_db c') = update_where (\<lambda>x. e_id x = i) g (g_edges (cs_db c))"
  shows "final_rows flt c' = update_where (\<lambda>x. e_id x = i) g (final_rows flt c)"
proof -
  have "i \<notin> r_edge ` set (wr_buf (cs_link c))" "i \<notin> r_edge ` set (wr_buf (cs_clear c))" using assms(1) by (auto simp: pending_def)
  then show ?thesis by (simp add: final_rows_def assms(2-5) resolved_update_where)
qed

lemma update_where_twice:
  "(\<And>x. e_id (f x) = e_id x) \<Longrightarrow>
    update_where (\<lambda>x. e_id x = i) g (update_where (\<lambda>x. e_id x = i) f es) = update_where (\<lambda>x. e_id x = i) (\<lambda>x. g (f x)) es"
  by (simp add: update_where_def)

lemma chosen_written:
  assumes "\<not> f_row flt r" and "r_edge r = e_id e" and "c' = (case update_edge_resolution flt r (cs_db c) of
      (d, Some err) \<Rightarrow> c\<lparr> cs_ds := ds, cs_db := d, cs_stats := (cs_stats c)\<lparr> st_errors := Suc (st_errors (cs_stats c)) \<rparr> \<rparr>
    | (d, None) \<Rightarrow> mark_chosen jc lf e ds d c)"
  shows "\<exists>g. g_edges (cs_db c') = update_where (\<lambda>x. e_id x = e_id e) g (g_edges (cs_db c)) \<and>
    (\<forall>x. e_id (g x) = e_id x \<and> e_kind (g x) = e_kind x \<and> e_dst (g x) = r_dst r) \<and>
    cs_link c' = cs_link c \<and> cs_clear c' = cs_clear c \<and> g_units (cs_db c') = g_units (cs_db c)"
proof (cases "rows_affected (\<lambda>x. e_id x = r_edge r) (g_edges (cs_db c)) \<noteq> 0 \<and> \<not> lf_meta lf (e_id e)")
  case True
  show ?thesis
    by (rule exI [of _ "\<lambda>x. (set_resolution r x)\<lparr> e_meta := meta_with_llm_source jc (e_meta e) \<rparr>"])
      (use True assms in \<open>simp add: update_edge_resolution_def mark_chosen_def Let_def update_edge_meta_def update_edge_row_def update_where_twice set_resolution_def\<close>)
next
  case False
  show ?thesis
    by (rule exI [of _ "set_resolution r"])
      (use False assms in \<open>auto simp: update_edge_resolution_def mark_chosen_def Let_def set_resolution_def\<close>)
qed

lemma contract_step_settles:
  assumes "idx = new_contract_index rpcs routes tables" and "\<not> f_cancelled (lf_write lf)" and "\<And>r. \<not> f_row (lf_write lf) r"
    and "e_id e \<notin> pending c" and "apart c" and "c' = contract_step jc lf idx dis c e"
  shows "settles idx e (final_rows (lf_write lf) c) (final_rows (lf_write lf) c') \<and>
    (pending c' \<subseteq> insert (e_id e) (pending c) \<and> apart c' \<and> g_units (cs_db c') = g_units (cs_db c))"
proof -
  let ?flt = "lf_write lf"
  have keep: ?thesis if "dst_ok idx e" "cs_db c' = cs_db c" "cs_link c' = cs_link c" "cs_clear c' = cs_clear c"
    using that assms(5) by (auto simp: final_rows_def pending_def apart_def intro: settles_keep)
  obtain ds t where t: "contract_target idx dis (cs_ds c) e = (ds, t)" by (cases "contract_target idx dis (cs_ds c) e")
  show ?thesis
  proof (cases "e_dst e \<noteq> 0 \<and> e_dst e \<in> ci_ids idx")
    case True
    then show ?thesis by (intro keep) (simp_all add: assms(6) contract_step_def dst_ok_def)
  next
    case stale: False
    show ?thesis
    proof (cases t)
      case None
      show ?thesis
      proof (cases "e_dst e = 0")
        case True
        then show ?thesis using None t by (intro keep) (simp_all add: assms(6) contract_step_def dst_ok_def)
      next
        case False
        let ?r = "\<lparr> r_edge = e_id e, r_dst = 0, r_dst_repo = [], r_conf = e_conf e \<rparr>"
        obtain w st d where add: "writer_add (writer_write lf) ?r (cs_clear c, cs_stats c, cs_db c) = (w, st, d)"
          by (cases "writer_add (writer_write lf) ?r (cs_clear c, cs_stats c, cs_db c)") auto
        have "c' = c\<lparr> cs_ds := ds, cs_clear := w, cs_stats := st, cs_db := d \<rparr>"
          using stale False None t add by (simp add: assms(6) contract_step_def)
        note q = queue_clear [OF assms(2) _ assms(5) add this]
        show ?thesis using q assms(4) settles_resolution [of ?r e idx ?flt] assms(3) by simp
      qed
    next
      case (Some x)
      obtain u conf llm where x: "x = (u, conf, llm)" by (cases x)
      have u: "u_id u \<in> ci_ids idx" using contract_target_ids [OF assms(1)] t Some x by blast
      let ?r = "\<lparr> r_edge = e_id e, r_dst = u_id u, r_dst_repo = u_repo u, r_conf = confidence_after_resolve jc e conf \<rparr>"
      note target = stale t [unfolded Some x]
      consider (same) "e_dst e = u_id u \<and> e_dst_repo e = u_repo u" | (queue) "\<not> (e_dst e = u_id u \<and> e_dst_repo e = u_repo u)" "\<not> llm"
        | (now) "\<not> (e_dst e = u_id u \<and> e_dst_repo e = u_repo u)" "llm" by blast
      then show ?thesis
      proof cases
        case same
        then show ?thesis using target u by (intro keep) (simp_all add: assms(6) contract_step_def dst_ok_def)
      next
        case queue
        obtain w st d where add: "writer_add (writer_write lf) ?r (cs_link c, cs_stats c, cs_db c) = (w, st, d)"
          by (cases "writer_add (writer_write lf) ?r (cs_link c, cs_stats c, cs_db c)") auto
        have "c' = c\<lparr> cs_ds := ds, cs_link := w, cs_stats := st, cs_db := d \<rparr>"
          unfolding assms(6) contract_step_def if_not_P [OF stale] target(2) prod.case option.case if_not_P [OF queue(1)] Let_def if_P [OF queue(2)] add ..
        note q = queue_link [OF assms(2) _ assms(5) add this]
        show ?thesis using q assms(4) settles_resolution [of ?r e idx ?flt] assms(3) u by simp
      next
        case now
        have c': "c' = (case update_edge_resolution ?flt ?r (cs_db c) of
            (d, Some err) \<Rightarrow> c\<lparr> cs_ds := ds, cs_db := d, cs_stats := (cs_stats c)\<lparr> st_errors := Suc (st_errors (cs_stats c)) \<rparr> \<rparr>
          | (d, None) \<Rightarrow> mark_chosen jc lf e ds d c)"
          unfolding assms(6) contract_step_def if_not_P [OF stale] target(2) prod.case option.case if_not_P [OF now(1)] Let_def
          using now(2) by simp
        obtain g where g: "g_edges (cs_db c') = update_where (\<lambda>x. e_id x = e_id e) g (g_edges (cs_db c))"
          "\<And>x. e_id (g x) = e_id x \<and> e_kind (g x) = e_kind x \<and> e_dst (g x) = u_id u"
          and rest: "cs_link c' = cs_link c" "cs_clear c' = cs_clear c" "g_units (cs_db c') = g_units (cs_db c)"
          using chosen_written [OF assms(3) _ c'] by auto
        have "final_rows ?flt c' = update_where (\<lambda>x. e_id x = e_id e) g (final_rows ?flt c)"
          by (rule write_now [OF assms(4) _ rest(1,2) g(1)]) (simp add: g(2))
        then have "settles idx e (final_rows ?flt c) (final_rows ?flt c')" unfolding settles_def using g(2) u by (auto simp: dst_ok_def)
        then show ?thesis using rest assms(5) by (auto simp: pending_def apart_def)
      qed
    qed
  qed
qed

section \<open>A pass\<close>

definition contract_kinds :: "string list" where
  "contract_kinds = [''rpc_call'', ''implements_rpc'', ''http_call'', ''writes_to'', ''reads_from'']"

text \<open>The rows already visited are settled, the others are as they were read.\<close>

definition pass_ok :: "contract_index \<Rightarrow> faults \<Rightarrow> edge list \<Rightarrow> nat set \<Rightarrow> contract_state \<Rightarrow> bool" where
  "pass_ok idx flt es visited c \<longleftrightarrow> pending c \<subseteq> visited \<and> apart c \<and>
     (\<forall>x \<in> set (final_rows flt c). \<exists>y \<in> set es. e_id y = e_id x \<and> e_kind y = e_kind x \<and> (if e_id x \<in> visited then dst_ok idx x else e_dst y = e_dst x))"

lemma pass_step:
  assumes "idx = new_contract_index rpcs routes tables" and "\<not> f_cancelled (lf_write lf)" and "\<And>r. \<not> f_row (lf_write lf) r"
    and "distinct (map e_id es)" and "e \<in> set es" and "e_id e \<notin> visited"
    and "pass_ok idx (lf_write lf) es visited c" and "c' = contract_step jc lf idx dis c e"
  shows "pass_ok idx (lf_write lf) es (insert (e_id e) visited) c' \<and> g_units (cs_db c') = g_units (cs_db c)"
proof -
  let ?flt = "lf_write lf"
  have pend: "e_id e \<notin> pending c" and ap: "apart c" using assms(6,7) by (auto simp: pass_ok_def)
  note step = contract_step_settles [OF assms(1-3) pend ap assms(8)]
  then obtain f where f: "final_rows ?flt c' = update_where (\<lambda>x. e_id x = e_id e) f (final_rows ?flt c)"
    "\<And>x. e_id (f x) = e_id x \<and> e_kind (f x) = e_kind x \<and> (e_dst x = e_dst e \<longrightarrow> dst_ok idx (f x))" by (auto simp: settles_def)
  have "\<exists>y \<in> set es. e_id y = e_id x' \<and> e_kind y = e_kind x' \<and> (if e_id x' \<in> insert (e_id e) visited then dst_ok idx x' else e_dst y = e_dst x')"
    if x': "x' \<in> set (final_rows ?flt c')" for x'
  proof -
    obtain x where x: "x \<in> set (final_rows ?flt c)" "x' = (if e_id x = e_id e then f x else x)" using x' by (auto simp: f(1) update_where_def)
    then obtain y where y: "y \<in> set es" "e_id y = e_id x" "e_kind y = e_kind x" "if e_id x \<in> visited then dst_ok idx x else e_dst y = e_dst x"
      using assms(7) by (auto simp: pass_ok_def)
    show ?thesis
    proof (cases "e_id x = e_id e")
      case True
      then have "y = e" using y(1,2) assms(4,5) by (auto simp: distinct_map inj_on_def)
      then have "dst_ok idx (f x)" using f(2) [of x] y(4) True assms(6) by simp
      then show ?thesis using x True y f(2) [of x] by auto
    next
      case False
      then show ?thesis using x y by auto
    qed
  qed
  moreover have "pending c' \<subseteq> insert (e_id e) visited" using step assms(7) unfolding pass_ok_def by (meson insert_mono order_trans)
  ultimately show ?thesis using step by (auto simp: pass_ok_def)
qed

lemma pass_fold:
  assumes "idx = new_contract_index rpcs routes tables" and "\<not> f_cancelled (lf_write lf)" and "\<And>r. \<not> f_row (lf_write lf) r"
    and "distinct (map e_id es)"
  shows "set todo \<subseteq> set es \<Longrightarrow> distinct (map e_id todo) \<Longrightarrow> visited \<inter> e_id ` set todo = {} \<Longrightarrow> pass_ok idx (lf_write lf) es visited c \<Longrightarrow>
    pass_ok idx (lf_write lf) es (visited \<union> e_id ` set todo) (foldl (contract_step jc lf idx dis) c todo) \<and>
    g_units (cs_db (foldl (contract_step jc lf idx dis) c todo)) = g_units (cs_db c)"
proof (induction todo arbitrary: c visited)
  case (Cons e todo)
  define c' where "c' = contract_step jc lf idx dis c e"
  have e: "e \<in> set es" "e_id e \<notin> visited" using Cons.prems(1,3) by auto
  note step = pass_step [OF assms(1-4) e Cons.prems(4) c'_def]
  have "insert (e_id e) visited \<inter> e_id ` set todo = {}" using Cons.prems(2,3) by auto
  then have "pass_ok idx (lf_write lf) es (insert (e_id e) visited \<union> e_id ` set todo) (foldl (contract_step jc lf idx dis) c' todo) \<and>
      g_units (cs_db (foldl (contract_step jc lf idx dis) c' todo)) = g_units (cs_db c')"
    using Cons.prems(1,2) step by (intro Cons.IH) simp_all
  then show ?case using step by (simp add: c'_def)
qed simp

lemma final_flush:
  assumes "\<not> f_cancelled (lf_write lf)"
    and "writer_flush (writer_write lf) (cs_link c, cs_stats c, cs_db c) = (link, st, d)"
    and "writer_flush (writer_write lf) (cs_clear c, st, d) = (clear, st', d')"
  shows "g_edges d' = final_rows (lf_write lf) c \<and> g_units d' = g_units (cs_db c)"
proof -
  have flush: "snd (snd (writer_flush (writer_write lf) s)) = resolve_all (lf_write lf) (wr_buf (fst s)) (snd (snd s))" for s
    using sqlite_exact.flush_outcome [of lf s] uncancelled_id [OF assms(1)] by (simp add: sqlite_exact.outcome_def)
  have "d = resolve_all (lf_write lf) (wr_buf (cs_link c)) (cs_db c)" using flush [of "(cs_link c, cs_stats c, cs_db c)"] assms(2) by simp
  moreover have "d' = resolve_all (lf_write lf) (wr_buf (cs_clear c)) d" using flush [of "(cs_clear c, st, d)"] assms(3) by simp
  ultimately show ?thesis by (simp add: resolve_all_def final_rows_def)
qed

lemma kind_units: "u \<in> set (get_ast_units (any_opts\<lparr> o_kinds := [k] \<rparr>) d) \<Longrightarrow> u \<in> set (g_units d) \<and> u_kind u = k"
  by (subst (asm) plain_units) (simp_all add: any_opts_def unit_selected_def)

text \<open>
  C5: after the contract edges were linked none of them dangles: each points at an RPC method, a route or a
  table that is stored, or at nothing, whatever it pointed at before, whatever the chooser answered and
  however often a transaction of the writes failed and was retried row by row.
\<close>

theorem contract_links_do_not_dangle:
  assumes "distinct (map e_id (g_edges d))" and "\<not> f_cancelled (lf_write lf)" and "\<And>r. \<not> f_row (lf_write lf) r"
    and "resolve_contracts jc lf dis (st, d) = (st', d')" and "e \<in> set (g_edges d')" and "e_kind e \<in> set contract_kinds" and "e_dst e \<noteq> 0"
  shows "\<exists>u \<in> set (g_units d'). u_id u = e_dst e \<and> u_kind u \<in> {''rpc_method'', ''http_route'', ''db_table''}"
proof -
  let ?flt = "lf_write lf"
  let ?R = "get_ast_units (any_opts\<lparr> o_kinds := [''rpc_method''] \<rparr>) d" and ?H = "get_ast_units (any_opts\<lparr> o_kinds := [''http_route''] \<rparr>) d"
    and ?T = "get_ast_units (any_opts\<lparr> o_kinds := [''db_table''] \<rparr>) d"
  define idx where "idx = new_contract_index ?R ?H ?T"
  define edges where "edges = get_edges (any_opts\<lparr> o_kinds := contract_kinds \<rparr>) d"
  define c0 where "c0 = \<lparr> cs_ds = new_disambig_run, cs_link = new_writer, cs_clear = new_writer, cs_stats = st, cs_db = d \<rparr>"
  define c where "c = foldl (contract_step jc lf idx dis) c0 edges"
  have edges: "mset edges = filter_mset (\<lambda>e. e_kind e \<in> set contract_kinds) (mset (g_edges d))"
    unfolding edges_def by (subst plain_edges) (simp_all add: any_opts_def edge_selected_def [abs_def] contract_kinds_def)
  then have sub: "set edges \<subseteq> set (g_edges d)" and kinds: "e_kind x \<in> set contract_kinds \<Longrightarrow> x \<in> set (g_edges d) \<Longrightarrow> x \<in> set edges" for x
    by (metis (no_types, lifting) filter_is_subset mset_filter set_mset_mset mem_Collect_eq set_mset_filter)+
  have "mset (map e_id edges) = mset (map e_id (filter (\<lambda>e. e_kind e \<in> set contract_kinds) (g_edges d)))" by (simp add: edges)
  from mset_eq_imp_distinct_iff [OF this] have dist: "distinct (map e_id edges)" using assms(1) by (simp add: distinct_map_filter)
  have "pass_ok idx ?flt (g_edges d) {} c0"
    by (auto simp: pass_ok_def c0_def pending_def apart_def new_writer_def final_rows_def resolved_def)
  from pass_fold [OF idx_def assms(2,3,1) sub dist _ this, of jc dis]
  have ok: "pass_ok idx ?flt (g_edges d) (e_id ` set edges) c" "g_units (cs_db c) = g_units d" by (simp_all add: c_def c0_def)
  obtain link st1 d1 where f1: "writer_flush (writer_write lf) (cs_link c, cs_stats c, cs_db c) = (link, st1, d1)"
    by (cases "writer_flush (writer_write lf) (cs_link c, cs_stats c, cs_db c)") auto
  obtain clear st2 d2 where f2: "writer_flush (writer_write lf) (cs_clear c, st1, d1) = (clear, st2, d2)"
    by (cases "writer_flush (writer_write lf) (cs_clear c, st1, d1)") auto
  have "d' = d2" using assms(4) f1 f2
    by (simp add: resolve_contracts_def Let_def idx_def [symmetric] edges_def [unfolded contract_kinds_def, symmetric] c0_def [symmetric] c_def [symmetric])
  then have d': "g_edges d' = final_rows ?flt c" "g_units d' = g_units d" using final_flush [OF assms(2) f1 f2] ok(2) by simp_all
  obtain y where "y \<in> set (g_edges d)" "e_id y = e_id e" "e_kind y = e_kind e" "if e_id e \<in> e_id ` set edges then dst_ok idx e else e_dst y = e_dst e"
    using ok(1) assms(5) by (auto simp: pass_ok_def d'(1))
  moreover from this have "e_id e \<in> e_id ` set edges" using kinds assms(6) by (metis imageI)
  ultimately have "e_dst e \<in> ci_ids idx" using assms(7) by (simp add: dst_ok_def)
  then have "e_dst e \<in> u_id ` set (?R @ ?H @ ?T)" by (simp add: idx_def new_contract_index_def image_Un)
  then obtain u where u: "e_dst e = u_id u" "u \<in> set (?R @ ?H @ ?T)" by (rule imageE)
  then have "u \<in> set (g_units d) \<and> u_kind u \<in> {''rpc_method'', ''http_route'', ''db_table''}"
    using kind_units [of u "''rpc_method''" d] kind_units [of u "''http_route''" d] kind_units [of u "''db_table''" d] by auto
  then show ?thesis using u(1) by (auto simp: d'(2))
qed

definition stale_db :: gdb where
  "stale_db = empty_gdb\<lparr> g_units := [(demo_unit 7 ''r'' ''users'' ''db:users'' [])\<lparr> u_kind := ''db_table'' \<rparr>],
     g_edges := [(demo_edge 3 5 ''db:users'')\<lparr> e_kind := ''writes_to'', e_dst := 9 \<rparr>] \<rparr>"

theorem contract_links_do_not_dangle_witness:
  "\<exists>st' d'. resolve_contracts no_codec (no_faults False) None (new_stats, stale_db) = (st', d') \<and>
    (\<forall>e \<in> set (g_edges d'). e_kind e \<in> set contract_kinds \<longrightarrow> e_dst e \<noteq> 0 \<longrightarrow>
      (\<exists>u \<in> set (g_units d'). u_id u = e_dst e \<and> u_kind u \<in> {''rpc_method'', ''http_route'', ''db_table''}))"
proof -
  obtain st' d' where run: "resolve_contracts no_codec (no_faults False) None (new_stats, stale_db) = (st', d')"
    by (cases "resolve_contracts no_codec (no_faults False) None (new_stats, stale_db)")
  have "distinct (map e_id (g_edges stale_db))" "\<not> f_cancelled (lf_write (no_faults False))" "\<And>r. \<not> f_row (lf_write (no_faults False)) r"
    by (simp_all add: stale_db_def no_faults_def)
  note ok = contract_links_do_not_dangle [OF this run]
  then show ?thesis using run by blast
qed

end
