(* ===== verification/Graph_Query.thy ===== *)
theory Graph_Query
  imports Graph_Linker
begin

text \<open>
  Queries over the linked graph (\<open>internal/graph/graph.go\<close>, \<open>internal/graph/context.go\<close>): the
  request-scoped loader, neighbours, paths, the service graph, topics, symbol lookup and the expansion
  around a search hit. Reads do not fail in the model. The JSON of unit metadata is decoded by a parameter.
\<close>

section \<open>Services\<close>

record detected_service =
  sv_name :: string
  sv_root :: string
  sv_manifest :: string
  sv_detected_by :: string

definition service_step :: "string \<Rightarrow> string \<times> int \<Rightarrow> detected_service \<Rightarrow> string \<times> int" where
  "service_step path best s =
     (if sv_root s = [] then (if snd best < 0 then (sv_name s, 0) else best)
      else if (path = sv_root s \<or> has_prefix path (sv_root s @ ''/'')) \<and> int (length (sv_root s)) > snd best
      then (sv_name s, int (length (sv_root s))) else best)"

definition service_for :: "detected_service list \<Rightarrow> string \<Rightarrow> string" where
  "service_for services path = fst (foldl (service_step path) ([], -1) services)"

record unit_meta =
  um_root :: string
  um_detected_by :: string

type_synonym unit_codec = "string \<Rightarrow> unit_meta"

definition decode_unit_meta :: "unit_codec \<Rightarrow> string \<Rightarrow> unit_meta" where
  "decode_unit_meta uc s = (if s = [] then \<lparr> um_root = [], um_detected_by = [] \<rparr> else uc s)"

definition service_unit_info :: "unit_codec \<Rightarrow> ast_unit \<Rightarrow> string \<times> string" where
  "service_unit_info uc u =
     (let meta = decode_unit_meta uc (u_meta u)
      in (if um_root meta = [] then trim_prefix (u_signature u) ''root:'' else um_root meta,
          if um_detected_by meta = [] then u_doc u else um_detected_by meta))"

definition unit_service :: "unit_codec \<Rightarrow> ast_unit \<Rightarrow> detected_service" where
  "unit_service uc su = \<lparr> sv_name = u_name su, sv_root = fst (service_unit_info uc su), sv_manifest = [], sv_detected_by = [] \<rparr>"

definition service_units :: "string \<Rightarrow> gdb \<Rightarrow> ast_unit list" where
  "service_units repo d = get_ast_units (any_opts\<lparr> o_repo := repo, o_kind := ''service'' \<rparr>) d"

definition graph_service_of :: "unit_codec \<Rightarrow> ast_unit \<Rightarrow> gdb \<Rightarrow> string \<times> detected_service list" where
  "graph_service_of uc u d =
     (let svc_units = service_units (u_repo u) d in
      if length svc_units = 0 then ([], [])
      else let services = map (unit_service uc) svc_units in (service_for services (u_file u), services))"

definition graph_service_for_unit :: "unit_codec \<Rightarrow> ast_unit \<Rightarrow> gdb \<Rightarrow> string" where
  "graph_service_for_unit uc u d =
     (if u_kind u = ''service'' then u_name u
      else let nm = fst (graph_service_of uc u d) in if nm = [] then u_repo u else nm)"

section \<open>The loader\<close>

text \<open>A unit id is absent (\<open>None\<close>), known missing (\<open>Some None\<close>), or loaded.\<close>

record loader =
  ld_units :: "nat \<rightharpoonup> ast_unit option"
  ld_services :: "string \<rightharpoonup> detected_service list"

definition new_loader :: loader where
  "new_loader = \<lparr> ld_units = Map.empty, ld_services = Map.empty \<rparr>"

definition cached :: "loader \<Rightarrow> nat \<Rightarrow> ast_unit option" where
  "cached l i = (case ld_units l i of None \<Rightarrow> None | Some u \<Rightarrow> u)"

fun missing_ids :: "loader \<Rightarrow> nat list \<Rightarrow> nat list \<Rightarrow> nat list" where
  "missing_ids l requested [] = []"
| "missing_ids l requested (i # ids) =
     (if i = 0 \<or> i \<in> set requested then missing_ids l requested ids
      else if ld_units l i = None then i # missing_ids l (i # requested) ids
      else missing_ids l (i # requested) ids)"

definition note_missing :: "loader \<Rightarrow> nat \<Rightarrow> loader" where
  "note_missing l i = (if ld_units l i = None then l\<lparr> ld_units := (ld_units l)(i \<mapsto> None) \<rparr> else l)"

definition units_by_ids :: "gdb \<Rightarrow> nat list \<Rightarrow> loader \<Rightarrow> loader" where
  "units_by_ids d ids l =
     (let missing = missing_ids l [] ids in
      if length missing = 0 then l
      else foldl note_missing
             (foldl (\<lambda>l u. l\<lparr> ld_units := (ld_units l)(u_id u \<mapsto> Some u) \<rparr>) l (get_ast_units_by_ids missing d)) missing)"

definition loader_unit :: "gdb \<Rightarrow> nat \<Rightarrow> loader \<Rightarrow> loader \<times> (store_error + ast_unit)" where
  "loader_unit d i l =
     (case ld_units l i of
        Some None \<Rightarrow> (l, Inl ErrNotFound)
      | Some (Some u) \<Rightarrow> (l, Inr u)
      | None \<Rightarrow>
          (case get_ast_unit_by_id i d of
             Inl err \<Rightarrow> (l\<lparr> ld_units := (ld_units l)(i \<mapsto> None) \<rparr>, Inl err)
           | Inr u \<Rightarrow> (l\<lparr> ld_units := (ld_units l)(i \<mapsto> Some u) \<rparr>, Inr u)))"

definition services_of :: "unit_codec \<Rightarrow> gdb \<Rightarrow> string \<Rightarrow> loader \<Rightarrow> loader \<times> detected_service list" where
  "services_of uc d repo l =
     (case ld_services l repo of
        Some svcs \<Rightarrow> (l, svcs)
      | None \<Rightarrow> let svcs = map (unit_service uc) (service_units repo d)
                in (l\<lparr> ld_services := (ld_services l)(repo \<mapsto> svcs) \<rparr>, svcs))"

definition service_of :: "unit_codec \<Rightarrow> gdb \<Rightarrow> ast_unit \<Rightarrow> loader \<Rightarrow> loader \<times> string" where
  "service_of uc d u l =
     (case services_of uc d (u_repo u) l of (l, svcs) \<Rightarrow>
        (l, if length svcs = 0 then [] else service_for svcs (u_file u)))"

definition service_for_unit :: "unit_codec \<Rightarrow> gdb \<Rightarrow> ast_unit \<Rightarrow> loader \<Rightarrow> loader \<times> string" where
  "service_for_unit uc d u l =
     (if u_kind u = ''service'' then (l, u_name u)
      else case service_of uc d u l of (l, nm) \<Rightarrow> (l, if nm \<noteq> [] then nm else u_repo u))"

section \<open>Neighbours\<close>

record node =
  n_unit :: ast_unit
  n_service :: string

record edge_with_unit =
  ew_edge :: edge
  ew_unit :: "ast_unit option"

record neighbors_result =
  nr_center :: node
  nr_out :: "edge_with_unit list"
  nr_in :: "edge_with_unit list"

definition neighbors :: "unit_codec \<Rightarrow> gdb \<Rightarrow> nat \<Rightarrow> store_error + neighbors_result" where
  "neighbors uc d unit_id =
     (case loader_unit d unit_id new_loader of
        (l, Inl err) \<Rightarrow> Inl err
      | (l, Inr u) \<Rightarrow>
          (case service_of uc d u l of (l, svc) \<Rightarrow>
             let out = get_edges (any_opts\<lparr> o_src := unit_id \<rparr>) d;
                 inc = get_edges (any_opts\<lparr> o_dst := unit_id \<rparr>) d;
                 l = units_by_ids d (map e_dst out @ map e_src inc) l
             in Inr \<lparr> nr_center = \<lparr> n_unit = u, n_service = svc \<rparr>,
                      nr_out = map (\<lambda>e. \<lparr> ew_edge = e, ew_unit = (if e_dst e \<noteq> 0 then cached l (e_dst e) else None) \<rparr>) out,
                      nr_in = map (\<lambda>e. \<lparr> ew_edge = e, ew_unit = cached l (e_src e) \<rparr>) inc \<rparr>))"

section \<open>Paths\<close>

definition traversable :: "edge \<Rightarrow> bool" where
  "traversable e \<longleftrightarrow> \<not> (e_dst e = 0 \<or> e_kind e = ''implements_rpc'')"

definition found :: "loader \<Rightarrow> (edge \<Rightarrow> nat) \<Rightarrow> edge list \<Rightarrow> (edge \<times> ast_unit) list" where
  "found l far es = List.map_filter (\<lambda>e. map_option (\<lambda>u. (e, u)) (cached l (far e))) es"

definition expand :: "gdb \<Rightarrow> nat \<Rightarrow> loader \<Rightarrow> loader \<times> (edge \<times> ast_unit) list" where
  "expand d unit_id l =
     (let out = filter traversable (get_edges (any_opts\<lparr> o_src := unit_id \<rparr>) d);
          l = units_by_ids d (unit_id # map e_dst out) l;
          result = found l e_dst out
      in case cached l unit_id of
           None \<Rightarrow> (l, result)
         | Some u \<Rightarrow>
             if u_kind u = ''rpc_method'' then
               let impls = get_edges (any_opts\<lparr> o_dst := unit_id, o_kind := ''implements_rpc'' \<rparr>) d;
                   l = units_by_ids d (map e_src impls) l
               in (l, result @ found l e_src impls)
             else (l, result))"

record path_step =
  ps_edge :: "edge option"
  ps_unit :: ast_unit
  ps_via :: string

type_synonym queue_item = "nat \<times> path_step list"

definition extend_path :: "path_step list \<Rightarrow> edge \<times> ast_unit \<Rightarrow> path_step list" where
  "extend_path path n = path @ [\<lparr> ps_edge = Some (fst n), ps_unit = snd n, ps_via = e_kind (fst n) \<rparr>]"

text \<open>The successors of one queue item: the path when one of them is the target.\<close>

fun visit :: "nat \<Rightarrow> path_step list \<Rightarrow> (edge \<times> ast_unit) list \<Rightarrow> nat set \<Rightarrow> queue_item list \<Rightarrow>
    path_step list + nat set \<times> queue_item list" where
  "visit to_id path [] visited queue = Inr (visited, queue)"
| "visit to_id path (n # ns) visited queue =
     (if u_id (snd n) \<in> visited then visit to_id path ns visited queue
      else if u_id (snd n) = to_id then Inl (extend_path path n)
      else visit to_id path ns (insert (u_id (snd n)) visited) (queue @ [(u_id (snd n), extend_path path n)]))"

text \<open>The search loop over a successor function with state, the loader; \<open>None\<close> would be a loop that does not end.\<close>

partial_function (option) path_loop ::
  "(nat \<Rightarrow> 'l \<Rightarrow> 'l \<times> (edge \<times> ast_unit) list) \<Rightarrow> nat \<Rightarrow> nat \<Rightarrow> 'l \<Rightarrow> nat set \<Rightarrow> queue_item list \<Rightarrow> (store_error + path_step list) option" where
  "path_loop ex to_id max_depth l visited queue =
     (case queue of
        [] \<Rightarrow> Some (Inl ErrNotFound)
      | item # queue \<Rightarrow>
          if length (snd item) > max_depth then path_loop ex to_id max_depth l visited queue
          else if fst item = to_id then Some (Inr (snd item))
          else case ex (fst item) l of (l, next) \<Rightarrow>
            (case visit to_id (snd item) next visited queue of
               Inl path \<Rightarrow> Some (Inr path)
             | Inr (visited, queue) \<Rightarrow> path_loop ex to_id max_depth l visited queue))"

declare path_loop.simps [code]

definition graph_path :: "gdb \<Rightarrow> nat \<Rightarrow> nat \<Rightarrow> int \<Rightarrow> (store_error + path_step list) option" where
  "graph_path d from_id to_id max_depth =
     (let max_depth = (if max_depth \<le> 0 then 10 else max_depth) in
      case loader_unit d from_id new_loader of
        (l, Inl err) \<Rightarrow> Some (Inl err)
      | (l, Inr start) \<Rightarrow>
          path_loop (expand d) to_id (nat max_depth) l {from_id}
            [(from_id, [\<lparr> ps_edge = None, ps_unit = start, ps_via = [] \<rparr>])])"

end
