(* ===== verification/Graph_Services.thy ===== *)
theory Graph_Services
  imports Graph_Query
begin

text \<open>
  Aggregated views of the graph: the links between services, the topics, the lookup of a symbol, and the
  expansion around a search hit (\<open>internal/graph/graph.go\<close>, \<open>internal/graph/context.go\<close>). A Go map
  whose entries are collected and sorted is an association list here.
\<close>

section \<open>The service graph\<close>

record service_info =
  si_repo :: string
  si_name :: string
  si_root :: string
  si_detected_by :: string
  si_unit :: nat

record service_link =
  sl_src_repo :: string
  sl_src :: string
  sl_dst_repo :: string
  sl_dst :: string
  sl_kind :: string
  sl_via :: string
  sl_count :: nat
  sl_conf :: rat

definition service_info_of :: "unit_codec \<Rightarrow> ast_unit \<Rightarrow> service_info" where
  "service_info_of uc u =
     (case service_unit_info uc u of (dir, detected) \<Rightarrow>
       \<lparr> si_repo = u_repo u, si_name = u_name u, si_root = dir, si_detected_by = detected, si_unit = u_id u \<rparr>)"

definition canonical_via :: "string \<Rightarrow> string" where
  "canonical_via dst_name =
     (case parse_http dst_name of (meth, path, ok) \<Rightarrow> if \<not> ok then dst_name else mk_http meth (to_lower path))"

text \<open>The most confident implementation of each contract, the first one among equals.\<close>

definition impl_step :: "(nat \<rightharpoonup> nat \<times> rat) \<times> nat list \<Rightarrow> edge \<Rightarrow> (nat \<rightharpoonup> nat \<times> rat) \<times> nat list" where
  "impl_step s e =
     (case s of (impl, ids) \<Rightarrow>
       (case impl (e_dst e) of
          Some (_, conf) \<Rightarrow> if e_conf e \<le> conf then s else (impl(e_dst e \<mapsto> (e_src e, e_conf e)), ids @ [e_src e])
        | None \<Rightarrow> (impl(e_dst e \<mapsto> (e_src e, e_conf e)), ids @ [e_src e])))"

definition link_key :: "service_link \<Rightarrow> string" where
  "link_key l = join_with [CHR 0x00] [sl_src_repo l, sl_src l, sl_dst_repo l, sl_dst l, sl_kind l, sl_via l]"

definition link_lt :: "service_link \<Rightarrow> service_link \<Rightarrow> bool" where
  "link_lt a b =
     (if sl_src a \<noteq> sl_src b then sl_src a < sl_src b
      else if sl_dst a \<noteq> sl_dst b then sl_dst a < sl_dst b
      else if sl_via a \<noteq> sl_via b then sl_via a < sl_via b
      else if sl_kind a \<noteq> sl_kind b then sl_kind a < sl_kind b
      else if sl_src_repo a \<noteq> sl_src_repo b then sl_src_repo a < sl_src_repo b
      else sl_dst_repo a < sl_dst_repo b)"

definition count_edge :: "rat \<Rightarrow> service_link \<Rightarrow> service_link" where
  "count_edge conf l = l\<lparr> sl_count := Suc (sl_count l), sl_conf := (if conf > sl_conf l then conf else sl_conf l) \<rparr>"

fun add_link :: "service_link \<Rightarrow> rat \<Rightarrow> service_link list \<Rightarrow> service_link list" where
  "add_link new conf [] = [count_edge conf new]"
| "add_link new conf (l # ls) = (if link_key l = link_key new then count_edge conf l # ls else l # add_link new conf ls)"

definition link_ends :: "loader \<Rightarrow> (nat \<rightharpoonup> nat \<times> rat) \<Rightarrow> edge \<Rightarrow> (ast_unit \<times> ast_unit) option" where
  "link_ends l impl e =
     (if e_dst e = 0 then None
      else case (cached l (e_src e), cached l (e_dst e)) of
        (Some src, Some dst) \<Rightarrow>
          Some (src, if u_kind dst = ''rpc_method''
                     then (case cached l (case impl (u_id dst) of None \<Rightarrow> 0 | Some (i, _) \<Rightarrow> i) of Some u \<Rightarrow> u | None \<Rightarrow> dst)
                     else dst)
      | _ \<Rightarrow> None)"

definition link_step :: "unit_codec \<Rightarrow> gdb \<Rightarrow> (nat \<rightharpoonup> nat \<times> rat) \<Rightarrow> loader \<times> service_link list \<Rightarrow> edge \<Rightarrow> loader \<times> service_link list" where
  "link_step uc d impl s e =
     (case s of (l, links) \<Rightarrow>
       (case link_ends l impl e of
          None \<Rightarrow> s
        | Some (src, dst) \<Rightarrow>
            (case service_for_unit uc d src l of (l, src_svc) \<Rightarrow>
             case service_for_unit uc d dst l of (l, dst_svc) \<Rightarrow>
               if src_svc = dst_svc \<and> u_repo src = u_repo dst then (l, links)
               else (l, add_link \<lparr> sl_src_repo = u_repo src, sl_src = src_svc, sl_dst_repo = u_repo dst, sl_dst = dst_svc,
                                   sl_kind = e_kind e, sl_via = canonical_via (e_dst_name e), sl_count = 0, sl_conf = 0 \<rparr> (e_conf e) links))))"

definition service_edges :: "gdb \<Rightarrow> edge list" where
  "service_edges d = get_edges (any_opts\<lparr> o_kinds := [''rpc_call'', ''http_call'', ''kafka_flow'', ''runtime_call''] \<rparr>) d"

definition services_graph :: "unit_codec \<Rightarrow> gdb \<Rightarrow> service_info list \<times> service_link list" where
  "services_graph uc d =
     (let services = map (service_info_of uc) (get_ast_units (any_opts\<lparr> o_kind := ''service'' \<rparr>) d);
          edges = service_edges d;
          l = units_by_ids d (concat (map (\<lambda>e. if e_dst e = 0 then [] else [e_src e, e_dst e]) edges)) new_loader;
          has_rpc = list_ex (\<lambda>e. case cached l (e_dst e) of Some u \<Rightarrow> u_kind u = ''rpc_method'' | None \<Rightarrow> False) edges;
          (impl, impl_ids) = (if has_rpc then foldl impl_step (Map.empty, []) (get_edges (any_opts\<lparr> o_kinds := [''implements_rpc''] \<rparr>) d)
                              else (Map.empty, []));
          l = units_by_ids d impl_ids l;
          links = snd (foldl (link_step uc d impl) (l, []) edges)
      in (services, sort_lt link_lt links))"

section \<open>Topics\<close>

record topic_info =
  tp_topic :: string
  tp_producers :: "node list"
  tp_consumers :: "node list"
  tp_description :: string
  tp_declared :: bool

definition new_topic :: "string \<Rightarrow> topic_info" where
  "new_topic t = \<lparr> tp_topic = t, tp_producers = [], tp_consumers = [], tp_description = [], tp_declared = False \<rparr>"

fun update_topic :: "string \<Rightarrow> (topic_info \<Rightarrow> topic_info) \<Rightarrow> topic_info list \<Rightarrow> topic_info list" where
  "update_topic t f [] = [f (new_topic t)]"
| "update_topic t f (ti # tis) = (if tp_topic ti = t then f ti # tis else ti # update_topic t f tis)"

definition topic_step :: "unit_codec \<Rightarrow> gdb \<Rightarrow> loader \<times> topic_info list \<Rightarrow> edge \<Rightarrow> loader \<times> topic_info list" where
  "topic_step uc d s e =
     (case s of (l, tis) \<Rightarrow>
       let topic = trim_kind (e_dst_name e) KindTopic in
       case cached l (e_src e) of
         None \<Rightarrow> (l, update_topic topic id tis)
       | Some u \<Rightarrow>
           (case service_for_unit uc d u l of (l, svc) \<Rightarrow>
             let nd = \<lparr> n_unit = u, n_service = svc \<rparr> in
             (l, update_topic topic
                   (\<lambda>ti. if e_kind e = ''produces'' then ti\<lparr> tp_producers := tp_producers ti @ [nd] \<rparr>
                         else ti\<lparr> tp_consumers := tp_consumers ti @ [nd] \<rparr>) tis)))"

definition declare_topic :: "topic_info list \<Rightarrow> ast_unit \<Rightarrow> topic_info list" where
  "declare_topic tis u =
     update_topic (u_name u)
       (\<lambda>ti. ti\<lparr> tp_declared := True, tp_description := (if tp_description ti = [] then u_doc u else tp_description ti) \<rparr>) tis"

definition topic_involves :: "topic_info \<Rightarrow> string \<Rightarrow> bool" where
  "topic_involves ti svc \<longleftrightarrow> list_ex (\<lambda>n. n_service n = svc) (tp_producers ti) \<or> list_ex (\<lambda>n. n_service n = svc) (tp_consumers ti)"

definition topics :: "unit_codec \<Rightarrow> gdb \<Rightarrow> string \<Rightarrow> topic_info list" where
  "topics uc d svc =
     (let edges = get_edges (any_opts\<lparr> o_kinds := [''produces'', ''consumes''] \<rparr>) d;
          l = units_by_ids d (map e_src edges) new_loader;
          tis = snd (foldl (topic_step uc d) (l, []) edges);
          tis = foldl declare_topic tis (get_ast_units (any_opts\<lparr> o_kind := ''topic_channel'' \<rparr>) d)
      in sort_lt (\<lambda>a b. tp_topic a < tp_topic b) (filter (\<lambda>ti. svc = [] \<or> topic_involves ti svc) tis))"

section \<open>Symbols\<close>

definition find_unit :: "string \<Rightarrow> string \<Rightarrow> gdb \<Rightarrow> store_error + ast_unit" where
  "find_unit repo nm d =
     (let units = get_ast_units (any_opts\<lparr> o_repo := repo, o_name := nm, o_limit := 10 \<rparr>) d;
          units = (if length units = 0 then get_ast_units (any_opts\<lparr> o_repo := repo, o_qualified := nm, o_limit := 10 \<rparr>) d else units)
      in if length units = 0 then Inl ErrNotFound
         else case List.find (\<lambda>u. u_kind u = ''function'' \<or> u_kind u = ''method'') units of
           Some u \<Rightarrow> Inr u | None \<Rightarrow> Inr (hd units))"

definition overlap_step :: "int \<Rightarrow> int \<Rightarrow> (ast_unit \<times> int) option \<Rightarrow> ast_unit \<Rightarrow> (ast_unit \<times> int) option" where
  "overlap_step start_line end_line best u =
     (let overlap = min (u_end_line u) end_line - max (u_start_line u) start_line + 1 in
      if overlap \<le> 0 then best
      else case best of
        None \<Rightarrow> Some (u, overlap)
      | Some (b, bo) \<Rightarrow> if overlap > bo \<or> overlap = bo \<and> u_start_line u > u_start_line b then Some (u, overlap) else best)"

definition unit_in_range :: "string \<Rightarrow> string \<Rightarrow> int \<Rightarrow> int \<Rightarrow> gdb \<Rightarrow> store_error + ast_unit" where
  "unit_in_range repo path start_line end_line d =
     (let end_line = (if end_line < start_line then start_line else end_line);
          units = get_ast_units (any_opts\<lparr> o_repo := repo, o_file := path, o_limit := 500 \<rparr>) d
      in case foldl (overlap_step start_line end_line) None units of
           None \<Rightarrow> Inl ErrNotFound | Some (u, _) \<Rightarrow> Inr u)"

definition unit_at :: "string \<Rightarrow> string \<Rightarrow> int \<Rightarrow> gdb \<Rightarrow> store_error + ast_unit" where
  "unit_at repo path line d = unit_in_range repo path line line d"

section \<open>Expansion\<close>

record related_unit =
  ru_unit :: ast_unit
  ru_service :: string
  ru_via :: string
  ru_direction :: string
  ru_distance :: nat

definition max_related :: nat where
  "max_related = 24"

record expansion =
  xp_loader :: loader
  xp_visited :: "nat set"
  xp_out :: "related_unit list"
  xp_next :: "nat list"

definition relate :: "unit_codec \<Rightarrow> gdb \<Rightarrow> string \<Rightarrow> nat \<Rightarrow> expansion \<Rightarrow> edge \<times> ast_unit \<Rightarrow> expansion" where
  "relate uc d direction depth x n =
     (if u_id (snd n) \<in> xp_visited x then x
      else case service_for_unit uc d (snd n) (xp_loader x) of (l, svc) \<Rightarrow>
        \<lparr> xp_loader = l, xp_visited = insert (u_id (snd n)) (xp_visited x),
          xp_out = xp_out x @ [\<lparr> ru_unit = snd n, ru_service = svc, ru_via = e_kind (fst n), ru_direction = direction, ru_distance = depth \<rparr>],
          xp_next = xp_next x @ [u_id (snd n)] \<rparr>)"

definition expand_item :: "unit_codec \<Rightarrow> gdb \<Rightarrow> nat \<Rightarrow> expansion \<Rightarrow> nat \<Rightarrow> expansion" where
  "expand_item uc d depth x i =
     (if length (xp_out x) \<ge> max_related then x
      else case expand d i (xp_loader x) of (l, succ) \<Rightarrow>
        let x = foldl (relate uc d ''out'' depth) (x\<lparr> xp_loader := l \<rparr>) succ;
            inc = get_edges (any_opts\<lparr> o_dst := i \<rparr>) d;
            l = units_by_ids d (map e_src inc) (xp_loader x)
        in foldl (relate uc d ''in'' depth) (x\<lparr> xp_loader := l \<rparr>) (found l e_src inc))"

fun expand_levels :: "unit_codec \<Rightarrow> gdb \<Rightarrow> nat \<Rightarrow> nat \<Rightarrow> expansion \<Rightarrow> expansion" where
  "expand_levels uc d 0 depth x = x"
| "expand_levels uc d (Suc n) depth x =
     (if length (xp_next x) > 0 \<and> length (xp_out x) < max_related
      then expand_levels uc d n (Suc depth) (foldl (expand_item uc d depth) (x\<lparr> xp_next := [] \<rparr>) (xp_next x))
      else x)"

definition related_units :: "unit_codec \<Rightarrow> gdb \<Rightarrow> nat \<Rightarrow> int \<Rightarrow> related_unit list" where
  "related_units uc d unit_id hops =
     (let hops = (if hops \<le> 0 then 1 else hops); hops = (if hops > 3 then 3 else hops);
          x = expand_levels uc d (nat hops) 1 \<lparr> xp_loader = new_loader, xp_visited = {unit_id}, xp_out = [], xp_next = [unit_id] \<rparr>;
          out = (if length (xp_out x) > max_related then take max_related (xp_out x) else xp_out x)
      in sort_key ru_distance out)"

end
