(* ===== verification/Graph_Trace.thy ===== *)
theory Graph_Trace
  imports Graph_Services
begin

text \<open>
  Following a parameter through the graph (\<open>internal/graph/trace.go\<close>): a depth-first walk over call and
  contract edges whose arguments or fields mention the tracked identifiers. Reads do not fail in the
  model. The JSON of edge metadata is decoded by a parameter; the maps of the decoded form are association lists.
\<close>

section \<open>Matching expressions\<close>

record call_meta =
  cm_args :: "string list"
  cm_fields :: "(string \<times> string) list"
  cm_aliases :: "(string \<times> string) list"
  cm_path :: string
  cm_method :: string

type_synonym call_codec = "string \<Rightarrow> call_meta"

definition no_call_meta :: call_meta where
  "no_call_meta = \<lparr> cm_args = [], cm_fields = [], cm_aliases = [], cm_path = [], cm_method = [] \<rparr>"

definition decode_call_meta :: "call_codec \<Rightarrow> string \<Rightarrow> call_meta" where
  "decode_call_meta mc s = (if s = [] then no_call_meta else mc s)"

definition min_loose_component :: nat where
  "min_loose_component = 3"

definition token_matches :: "string list \<Rightarrow> string list \<Rightarrow> bool" where
  "token_matches want comps =
     (if length want = 1 \<and> length (hd want) < min_loose_component
      then length comps = 1 \<and> hd comps = hd want
      else has_component_suffix comps want)"

definition expr_matches_direct :: "string \<Rightarrow> string list \<Rightarrow> bool" where
  "expr_matches_direct expr tracked =
     (let toks = token_components expr in
      toks \<noteq> [] \<and>
      list_ex (\<lambda>t. let want = word_components t in want \<noteq> [] \<and> list_ex (token_matches want) toks) tracked)"

definition max_alias_depth :: nat where
  "max_alias_depth = 4"

definition max_alias_tokens :: nat where
  "max_alias_tokens = 32"

text \<open>One level of the walk: an answer, or the tokens of the next level and what has been visited.\<close>

fun alias_level ::
  "string list \<Rightarrow> (string \<rightharpoonup> string) \<Rightarrow> string list \<Rightarrow> string set \<Rightarrow> nat \<Rightarrow> string list \<Rightarrow> bool + string list \<times> string set \<times> nat" where
  "alias_level tracked aliases [] visited considered next = Inr (next, visited, considered)"
| "alias_level tracked aliases (tok # frontier) visited considered next =
     (if tok \<in> visited then alias_level tracked aliases frontier visited considered next
      else if Suc considered > max_alias_tokens then Inl False
      else case aliases tok of
        None \<Rightarrow> alias_level tracked aliases frontier (insert tok visited) (Suc considered) next
      | Some src \<Rightarrow>
          if expr_matches_direct src tracked then Inl True
          else alias_level tracked aliases frontier (insert tok visited) (Suc considered) (next @ ident_tokens src))"

fun alias_walk :: "string list \<Rightarrow> (string \<rightharpoonup> string) \<Rightarrow> nat \<Rightarrow> string list \<Rightarrow> string set \<Rightarrow> nat \<Rightarrow> bool" where
  "alias_walk tracked aliases 0 frontier visited considered = False"
| "alias_walk tracked aliases (Suc depth) frontier visited considered =
     (if length frontier > 0 then
        (case alias_level tracked aliases frontier visited considered [] of
           Inl answer \<Rightarrow> answer
         | Inr (next, visited, considered) \<Rightarrow> alias_walk tracked aliases depth next visited considered)
      else False)"

definition expr_matches_aliased :: "string \<Rightarrow> string list \<Rightarrow> (string \<times> string) list \<Rightarrow> bool" where
  "expr_matches_aliased expr tracked aliases =
     (if expr_matches_direct expr tracked then True
      else if length aliases = 0 then False
      else alias_walk tracked (map_of aliases) max_alias_depth (ident_tokens expr) {} 0)"

fun matching_from :: "nat \<Rightarrow> string list \<Rightarrow> string list \<Rightarrow> (string \<times> string) list \<Rightarrow> nat option" where
  "matching_from i [] tracked aliases = None"
| "matching_from i (a # as) tracked aliases =
     (if expr_matches_aliased a tracked aliases then Some i else matching_from (Suc i) as tracked aliases)"

definition matching_arg_aliased :: "string list \<Rightarrow> string list \<Rightarrow> (string \<times> string) list \<Rightarrow> nat option" where
  "matching_arg_aliased args tracked aliases = matching_from 0 args tracked aliases"

definition matching_fields_aliased :: "(string \<times> string) list \<Rightarrow> string list \<Rightarrow> (string \<times> string) list \<Rightarrow> string list" where
  "matching_fields_aliased fs tracked aliases =
     (if length fs = 0 then []
      else sort (map fst (filter (\<lambda>f. expr_matches_aliased (snd f) tracked aliases) fs)))"

definition norm_all :: "string list \<Rightarrow> string list" where
  "norm_all ids = sort (map norm_ident ids)"

section \<open>Steps, chains and hops\<close>

record trace_step =
  ts_unit :: ast_unit
  ts_service :: string
  ts_tracked :: "string list"
  ts_via :: string
  ts_note :: string
  ts_line :: int
  ts_conf :: rat

record trace_chain =
  tc_steps :: "trace_step list"
  tc_truncated :: bool

record hop =
  hp_edge :: edge
  hp_unit :: ast_unit
  hp_tracked :: "string list"
  hp_note :: string
  hp_factor :: rat

definition hop_to :: "edge \<Rightarrow> string list \<Rightarrow> string \<Rightarrow> rat \<Rightarrow> ast_unit \<Rightarrow> hop" where
  "hop_to e tracked note factor u = \<lparr> hp_edge = e, hp_unit = u, hp_tracked = tracked, hp_note = note, hp_factor = factor \<rparr>"

text \<open>What an out-edge asks for: nothing, or the hop to the unit it points at when that unit is found.\<close>

definition call_hop :: "call_meta \<Rightarrow> string list \<Rightarrow> edge \<Rightarrow> (ast_unit \<Rightarrow> hop) option" where
  "call_hop meta tracked e =
     (case matching_arg_aliased (cm_args meta) tracked (cm_aliases meta) of
        None \<Rightarrow> None
      | Some i \<Rightarrow> Some (\<lambda>callee.
          let params = param_names (u_language callee) (u_signature callee);
              next = (if i < length params then [params ! i] else tracked)
          in hop_to e next (''passed as argument '' @ cm_args meta ! i @ '' to '' @ u_name callee) 1 callee))"

definition request_hop :: "call_meta \<Rightarrow> string list \<Rightarrow> edge \<Rightarrow> (ast_unit \<Rightarrow> hop) option" where
  "request_hop meta tracked e =
     (let fs = matching_fields_aliased (cm_fields meta) tracked (cm_aliases meta);
          note = (\<lambda>fs. if e_kind e = ''http_call''
                    then ''sent via HTTP '' @ cm_method meta @ '' '' @ cm_path meta @ '' field '' @ join_with '', '' fs
                    else ''sent via gRPC field '' @ join_with '', '' fs)
      in if length fs = 0
         then (if matching_arg_aliased (cm_args meta) tracked (cm_aliases meta) = None then None
               else Some (hop_to e tracked (note tracked) conf_heuristic))
         else Some (hop_to e fs (note fs) 1))"

definition flow_hop :: "call_meta \<Rightarrow> string list \<Rightarrow> edge \<Rightarrow> (ast_unit \<Rightarrow> hop) option" where
  "flow_hop meta tracked e =
     (let fs = matching_fields_aliased (cm_fields meta) tracked (cm_aliases meta);
          (fs, factor) = (if length fs = 0 then (tracked, conf_weak) else (fs, 1))
      in Some (hop_to e fs (''published to Kafka topic '' @ trim_kind (e_dst_name e) KindTopic @ '' as '' @ join_with '', '' fs) factor))"

definition write_hop :: "call_meta \<Rightarrow> string list \<Rightarrow> edge \<Rightarrow> (ast_unit \<Rightarrow> hop) option" where
  "write_hop meta tracked e =
     (let columns = matching_fields_aliased (cm_fields meta) tracked (cm_aliases meta);
          note = (\<lambda>columns. ''written to table '' @ trim_kind (e_dst_name e) KindDB @ '' column '' @ join_with '', '' columns)
      in if length columns = 0
         then (if matching_arg_aliased (cm_args meta) tracked (cm_aliases meta) = None then None
               else Some (hop_to e tracked (note tracked) conf_weak))
         else Some (hop_to e columns (note columns) 1))"

definition edge_hop :: "call_codec \<Rightarrow> string list \<Rightarrow> edge \<Rightarrow> (ast_unit \<Rightarrow> hop) option" where
  "edge_hop mc tracked e =
     (let meta = decode_call_meta mc (e_meta e) in
      if e_dst e = 0 then None
      else if e_kind e = ''call'' then call_hop meta tracked e
      else if e_kind e = ''rpc_call'' \<or> e_kind e = ''http_call'' then request_hop meta tracked e
      else if e_kind e = ''kafka_flow'' then flow_hop meta tracked e
      else if e_kind e = ''writes_to'' then write_hop meta tracked e
      else None)"

section \<open>The tracer\<close>

record tracer =
  tr_loader :: loader
  tr_expansions :: nat
  tr_on_path :: "string set"
  tr_seen :: "string set"
  tr_edges :: "string \<rightharpoonup> edge list"
  tr_discovered :: nat
  tr_completed :: "trace_chain list"

definition max_alternatives :: nat where "max_alternatives = 4"
definition max_expansions :: nat where "max_expansions = 5000"
definition max_completed_chains :: nat where "max_completed_chains = 64"

definition note_depth_limit :: string where "note_depth_limit = ''truncated: depth limit reached''"
definition note_budget_limit :: string where "note_budget_limit = ''truncated: expansion budget exhausted''"

definition edges_of :: "gdb \<Rightarrow> string \<Rightarrow> query_opts \<Rightarrow> tracer \<Rightarrow> tracer \<times> edge list" where
  "edges_of d key opts t =
     (case tr_edges t key of
        Some es \<Rightarrow> (t, es)
      | None \<Rightarrow>
          let es = get_edges opts d;
              ids = map (\<lambda>e. if o_src opts \<noteq> 0 then e_dst e else e_src e) es
          in (t\<lparr> tr_loader := units_by_ids d ids (tr_loader t), tr_edges := (tr_edges t)(key \<mapsto> es) \<rparr>, es))"

definition edge_memo_key :: "string \<Rightarrow> string \<Rightarrow> nat \<Rightarrow> string" where
  "edge_memo_key direction kind i = direction @ ''|'' @ kind @ ''|'' @ itoa (int i)"

definition out_edges :: "gdb \<Rightarrow> nat \<Rightarrow> string \<Rightarrow> tracer \<Rightarrow> tracer \<times> edge list" where
  "out_edges d i kind t = edges_of d (edge_memo_key ''out'' kind i) (any_opts\<lparr> o_src := i, o_kind := kind \<rparr>) t"

definition reverse_edges :: "gdb \<Rightarrow> nat \<Rightarrow> string \<Rightarrow> tracer \<Rightarrow> tracer \<times> edge list" where
  "reverse_edges d i kind t = edges_of d (edge_memo_key ''in'' kind i) (any_opts\<lparr> o_dst := i, o_kind := kind \<rparr>) t"

definition unit_by_id :: "gdb \<Rightarrow> nat \<Rightarrow> tracer \<Rightarrow> tracer \<times> ast_unit option" where
  "unit_by_id d i t =
     (case loader_unit d i (tr_loader t) of (l, r) \<Rightarrow>
       (t\<lparr> tr_loader := l \<rparr>, case r of Inl err \<Rightarrow> None | Inr u \<Rightarrow> Some u))"

text \<open>Turns the edges of a node into hops: \<open>want\<close> is the far end of an edge and the hop to it, if the edge is followed.\<close>

fun collect_hops :: "gdb \<Rightarrow> (edge \<Rightarrow> (nat \<times> (ast_unit \<Rightarrow> hop)) option) \<Rightarrow> edge list \<Rightarrow> tracer \<Rightarrow> hop list \<Rightarrow> tracer \<times> hop list" where
  "collect_hops d want [] t hops = (t, hops)"
| "collect_hops d want (e # es) t hops =
     (case want e of
        None \<Rightarrow> collect_hops d want es t hops
      | Some (i, mk) \<Rightarrow>
          (case unit_by_id d i t of (t, u) \<Rightarrow>
             collect_hops d want es t (case u of None \<Rightarrow> hops | Some u \<Rightarrow> hops @ [mk u])))"

definition impl_want :: "ast_unit \<Rightarrow> string list \<Rightarrow> edge \<Rightarrow> (nat \<times> (ast_unit \<Rightarrow> hop)) option" where
  "impl_want u tracked e = Some (e_src e, hop_to e tracked (''server implementation of '' @ u_qualified u) 1)"

definition handler_want :: "ast_unit \<Rightarrow> string list \<Rightarrow> edge \<Rightarrow> (nat \<times> (ast_unit \<Rightarrow> hop)) option" where
  "handler_want u tracked e =
     (if e_dst e = 0 then None else Some (e_dst e, hop_to e tracked (''handler for '' @ u_qualified u) 1))"

definition edge_want :: "call_codec \<Rightarrow> string list \<Rightarrow> edge \<Rightarrow> (nat \<times> (ast_unit \<Rightarrow> hop)) option" where
  "edge_want mc tracked e = map_option (\<lambda>mk. (e_dst e, mk)) (edge_hop mc tracked e)"

definition reader_hop :: "ast_unit \<Rightarrow> string list \<Rightarrow> edge \<Rightarrow> ast_unit \<Rightarrow> hop" where
  "reader_hop table tracked e =
     hop_to e tracked (''read from table '' @ trim_kind (u_qualified table) KindDB @ '' column '' @ join_with '', '' tracked) conf_weak"

fun collect_readers :: "gdb \<Rightarrow> ast_unit \<Rightarrow> string list \<Rightarrow> edge list \<Rightarrow> nat set \<Rightarrow> tracer \<Rightarrow> hop list \<Rightarrow> tracer \<times> hop list" where
  "collect_readers d table tracked [] seen t hops = (t, hops)"
| "collect_readers d table tracked (e # es) seen t hops =
     (if e_src e = 0 \<or> e_src e \<in> seen then collect_readers d table tracked es seen t hops
      else case unit_by_id d (e_src e) t of
        (t, None) \<Rightarrow> collect_readers d table tracked es seen t hops
      | (t, Some u) \<Rightarrow> collect_readers d table tracked es (insert (e_src e) seen) t (hops @ [reader_hop table tracked e u]))"

definition table_readers :: "gdb \<Rightarrow> ast_unit \<Rightarrow> string list \<Rightarrow> tracer \<Rightarrow> tracer \<times> hop list" where
  "table_readers d table tracked t =
     (case reverse_edges d (u_id table) ''reads_from'' t of (t, es) \<Rightarrow> collect_readers d table tracked es {} t [])"

definition expand_hops :: "call_codec \<Rightarrow> gdb \<Rightarrow> ast_unit \<Rightarrow> string list \<Rightarrow> tracer \<Rightarrow> tracer \<times> hop list" where
  "expand_hops mc d u tracked t =
     (if u_kind u = ''rpc_method'' then
        (case reverse_edges d (u_id u) ''implements_rpc'' t of (t, es) \<Rightarrow> collect_hops d (impl_want u tracked) es t [])
      else if u_kind u = ''http_route'' then
        (case out_edges d (u_id u) ''handled_by'' t of (t, es) \<Rightarrow> collect_hops d (handler_want u tracked) es t [])
      else if u_kind u = ''db_table'' then table_readers d u tracked t
      else
        (case out_edges d (u_id u) [] t of (t, es) \<Rightarrow> collect_hops d (edge_want mc tracked) es t []))"

section \<open>Recording chains\<close>

definition step_key :: "nat \<Rightarrow> string list \<Rightarrow> string" where
  "step_key i tracked = itoa (int i) @ ''|'' @ join_with '','' (norm_all tracked)"

definition chain_key :: "trace_step list \<Rightarrow> string" where
  "chain_key path = join_with ''>'' (map (\<lambda>s. step_key (u_id (ts_unit s)) (ts_tracked s)) path)"

definition with_note :: "trace_step list \<Rightarrow> string \<Rightarrow> trace_step list" where
  "with_note path note =
     (let l = last path in
      butlast path @ [l\<lparr> ts_note := (if ts_note l = [] then note else ts_note l @ '' ('' @ note @ '')'') \<rparr>])"

definition crosses :: "trace_step \<Rightarrow> bool" where
  "crosses s \<longleftrightarrow> ts_via s = ''rpc_call'' \<or> ts_via s = ''http_call'' \<or> ts_via s = ''kafka_flow''"

definition crossings :: "trace_step list \<Rightarrow> nat" where
  "crossings path = length (filter crosses path)"

definition better_chain :: "trace_step list \<Rightarrow> trace_step list \<Rightarrow> bool" where
  "better_chain a b =
     (let ac = crossings a; bc = crossings b in if ac \<noteq> bc then ac > bc else length a > length b)"

definition better_trace_chain :: "trace_chain \<Rightarrow> trace_chain \<Rightarrow> bool" where
  "better_trace_chain a b =
     (if tc_truncated a \<noteq> tc_truncated b then \<not> tc_truncated a else better_chain (tc_steps a) (tc_steps b))"

definition worst_chain :: "trace_chain list \<Rightarrow> nat" where
  "worst_chain cs = foldl (\<lambda>worst i. if better_trace_chain (cs ! worst) (cs ! i) then i else worst) 0 [1..<length cs]"

definition keep_chain :: "trace_chain \<Rightarrow> trace_chain list \<Rightarrow> trace_chain list" where
  "keep_chain chain cs =
     (if length cs < max_completed_chains then cs @ [chain]
      else let worst = worst_chain cs
           in if better_trace_chain chain (cs ! worst) then cs[worst := chain] else cs)"

definition finish :: "trace_step list \<Rightarrow> string \<Rightarrow> tracer \<Rightarrow> tracer" where
  "finish path limit t =
     (if length path \<le> 1 then t
      else let key = chain_key path in
        if key \<in> tr_seen t then t
        else let chain = \<lparr> tc_steps = (if limit \<noteq> [] then with_note path limit else path), tc_truncated = (limit \<noteq> []) \<rparr>
             in t\<lparr> tr_seen := insert key (tr_seen t), tr_discovered := Suc (tr_discovered t),
                  tr_completed := keep_chain chain (tr_completed t) \<rparr>)"

section \<open>The walk\<close>

definition step_conf :: "rat \<Rightarrow> hop \<Rightarrow> rat" where
  "step_conf conf h = f32 (f32 (conf * e_conf (hp_edge h)) * hp_factor h)"

definition step_of :: "rat \<Rightarrow> hop \<Rightarrow> string \<Rightarrow> trace_step" where
  "step_of conf h svc =
     \<lparr> ts_unit = hp_unit h, ts_service = svc, ts_tracked = hp_tracked h, ts_via = e_kind (hp_edge h), ts_note = hp_note h,
       ts_line = e_line (hp_edge h), ts_conf = step_conf conf h \<rparr>"

function dfs :: "unit_codec \<Rightarrow> call_codec \<Rightarrow> gdb \<Rightarrow> nat \<Rightarrow> ast_unit \<Rightarrow> string list \<Rightarrow> trace_step list \<Rightarrow> rat \<Rightarrow> tracer \<Rightarrow> tracer" where
  "dfs uc mc d max_depth u tracked path conf t =
     (if length path > max_depth then finish path note_depth_limit t
      else let key = step_key (u_id u) tracked in
        if key \<in> tr_on_path t then finish path [] t
        else if tr_expansions t \<ge> max_expansions then finish path note_budget_limit t
        else case expand_hops mc d u tracked (t\<lparr> tr_expansions := Suc (tr_expansions t) \<rparr>) of (t, hops) \<Rightarrow>
          if length hops = 0 then finish path [] t
          else let t = foldl (\<lambda>t h.
                     case service_for_unit uc d (hp_unit h) (tr_loader t) of (l, svc) \<Rightarrow>
                       dfs uc mc d max_depth (hp_unit h) (hp_tracked h) (path @ [step_of conf h svc]) (step_conf conf h) (t\<lparr> tr_loader := l \<rparr>))
                   (t\<lparr> tr_on_path := insert key (tr_on_path t) \<rparr>) hops
               in t\<lparr> tr_on_path := tr_on_path t - {key} \<rparr>)"
  by pat_completeness auto

termination
  by (relation "measure (\<lambda>(uc, mc, d, max_depth, u, tracked, path, conf, t). Suc max_depth - length path)") auto

declare dfs.simps [simp del]

fun is_prefix_chain :: "trace_step list \<Rightarrow> trace_step list \<Rightarrow> bool" where
  "is_prefix_chain [] b = True"
| "is_prefix_chain (x # a) [] = False"
| "is_prefix_chain (x # a) (y # b) =
     (u_id (ts_unit x) = u_id (ts_unit y) \<and>
      join_with '','' (norm_all (ts_tracked x)) = join_with '','' (norm_all (ts_tracked y)) \<and> is_prefix_chain a b)"

fun alternatives :: "trace_step list \<Rightarrow> trace_chain list \<Rightarrow> trace_step list list \<Rightarrow> trace_step list list" where
  "alternatives best [] alts = alts"
| "alternatives best (c # cs) alts =
     (if length alts \<ge> max_alternatives then alts
      else if is_prefix_chain (tc_steps c) best then alternatives best cs alts
      else alternatives best cs (alts @ [tc_steps c]))"

record trace_request =
  rq_repo :: string
  rq_symbol :: string
  rq_param :: string
  rq_max_depth :: int

record trace_result =
  rt_param :: string
  rt_steps :: "trace_step list"
  rt_alternatives :: "trace_step list list"
  rt_chains :: nat

definition new_tracer :: "loader \<Rightarrow> tracer" where
  "new_tracer l = \<lparr> tr_loader = l, tr_expansions = 0, tr_on_path = {}, tr_seen = {}, tr_edges = Map.empty, tr_discovered = 0, tr_completed = [] \<rparr>"

definition trace_depth :: "int \<Rightarrow> nat" where
  "trace_depth n = nat (if n \<le> 0 \<or> n > 24 then 16 else n)"

definition start_step :: "ast_unit \<Rightarrow> string \<Rightarrow> string \<Rightarrow> trace_step" where
  "start_step u svc param =
     \<lparr> ts_unit = u, ts_service = svc, ts_tracked = [param], ts_via = [], ts_note = ''start: parameter '' @ param, ts_line = 0, ts_conf = 1 \<rparr>"

definition report :: "string \<Rightarrow> trace_step \<Rightarrow> nat \<Rightarrow> trace_chain list \<Rightarrow> trace_result" where
  "report param start discovered completed =
     (case sort_lt better_trace_chain completed of
        [] \<Rightarrow> \<lparr> rt_param = param, rt_steps = [start], rt_alternatives = [], rt_chains = discovered \<rparr>
      | c # cs \<Rightarrow> \<lparr> rt_param = param, rt_steps = tc_steps c, rt_alternatives = alternatives (tc_steps c) cs [], rt_chains = discovered \<rparr>)"

definition trace :: "unit_codec \<Rightarrow> call_codec \<Rightarrow> trace_request \<Rightarrow> gdb \<Rightarrow> store_error + trace_result" where
  "trace uc mc req d =
     (case find_unit (rq_repo req) (rq_symbol req) d of
        Inl err \<Rightarrow> Inl err
      | Inr u \<Rightarrow>
          (case service_for_unit uc d u new_loader of (l, svc) \<Rightarrow>
             let start = start_step u svc (rq_param req);
                 t = dfs uc mc d (trace_depth (rq_max_depth req)) u [rq_param req] [start] 1 (new_tracer l)
             in Inr (report (rq_param req) start (tr_discovered t) (tr_completed t))))"

end
