(* ===== verification/Graph_Path_Facts.thy ===== *)
theory Graph_Path_Facts
  imports Graph_Services Graph_Local_Facts
begin

text \<open>
  The path search against walks in the graph: it always ends, a path it returns is a shortest walk within
  the depth limit, and it reports a missing path only when there is none. The search is proved over any
  source of successors with a hidden state; the loader is one, because its cache never shows.
\<close>

section \<open>Walks\<close>

type_synonym successors = "nat \<Rightarrow> (edge \<times> ast_unit) list"

inductive walk :: "successors \<Rightarrow> ast_unit \<Rightarrow> nat \<Rightarrow> path_step list \<Rightarrow> bool" for succs st where
  walk_start: "walk succs st (u_id st) [\<lparr> ps_edge = None, ps_unit = st, ps_via = [] \<rparr>]"
| walk_step: "walk succs st i p \<Longrightarrow> n \<in> set (succs i) \<Longrightarrow> walk succs st (u_id (snd n)) (extend_path p n)"

inductive_simps walk_from_nowhere: "walk succs st i []"

lemma length_extend_path [simp]: "length (extend_path p n) = Suc (length p)"
  by (simp add: extend_path_def)

lemma walk_nonempty: "walk succs st i p \<Longrightarrow> 0 < length p"
  by (induction rule: walk.induct) simp_all

section \<open>One queue item\<close>

lemma visit_hit:
  "visit to_id p ns V Q = Inl path \<Longrightarrow> \<exists>n \<in> set ns. u_id (snd n) = to_id \<and> path = extend_path p n"
  by (induction ns arbitrary: V Q) (auto split: if_splits)

lemma visit_miss:
  "visit to_id p ns V Q = Inr (V', Q') \<Longrightarrow>
    V' = V \<union> (\<lambda>n. u_id (snd n)) ` set ns \<and> (to_id \<in> V' \<longrightarrow> to_id \<in> V) \<and>
    (\<exists>new. Q' = Q @ new \<and> length new = card (V' - V) \<and> fst ` set new = V' - V \<and>
      (\<forall>x \<in> set new. \<exists>n \<in> set ns. x = (u_id (snd n), extend_path p n)))"
proof (induction ns arbitrary: V Q)
  case (Cons n ns)
  show ?case
  proof (cases "u_id (snd n) \<in> V")
    case True
    then have "visit to_id p ns V Q = Inr (V', Q')" using Cons.prems by simp
    from Cons.IH [OF this] True show ?thesis by (auto simp: insert_absorb)
  next
    case False
    let ?i = "u_id (snd n)" and ?x = "(u_id (snd n), extend_path p n)"
    have to: "?i \<noteq> to_id" and run: "visit to_id p ns (insert ?i V) (Q @ [?x]) = Inr (V', Q')"
      using Cons.prems False by (auto split: if_splits)
    from Cons.IH [OF run] obtain new where ih: "V' = insert ?i V \<union> (\<lambda>n. u_id (snd n)) ` set ns" "to_id \<in> V' \<longrightarrow> to_id \<in> insert ?i V"
      "Q' = (Q @ [?x]) @ new" "length new = card (V' - insert ?i V)" "fst ` set new = V' - insert ?i V"
      "\<forall>x \<in> set new. \<exists>n \<in> set ns. x = (u_id (snd n), extend_path p n)" by blast
    have diff: "V' - V = insert ?i (V' - insert ?i V)" using ih(1) False by blast
    have "finite (V' - insert ?i V)" by (rule finite_subset [of _ "(\<lambda>n. u_id (snd n)) ` set ns"]) (use ih(1) in auto)
    then have "card (V' - V) = Suc (card (V' - insert ?i V))" unfolding diff by (subst card_insert_disjoint) auto
    then show ?thesis using ih to diff by (intro conjI exI [of _ "?x # new"]) auto
  qed
qed simp

section \<open>The search\<close>

locale successor_source =
  fixes ex :: "nat \<Rightarrow> 'l \<Rightarrow> 'l \<times> (edge \<times> ast_unit) list" and ok :: "'l \<Rightarrow> bool"
    and succs :: successors and nodes :: "nat set"
  assumes ex_pure: "ok l \<Longrightarrow> \<exists>l'. ex i l = (l', succs i) \<and> ok l'"
    and finite_nodes: "finite nodes"
    and succs_nodes: "n \<in> set (succs i) \<Longrightarrow> u_id (snd n) \<in> nodes"
begin

text \<open>
  What holds between two items: queued paths are shortest walks in order of length, a visited node is
  queued, or has all its successors visited, or is too far away to matter, and the target has not been
  visited except as the start.
\<close>

definition item_ok :: "ast_unit \<Rightarrow> nat set \<Rightarrow> queue_item \<Rightarrow> bool" where
  "item_ok st V x \<longleftrightarrow> walk succs st (fst x) (snd x) \<and> fst x \<in> V \<and> (\<forall>q. walk succs st (fst x) q \<longrightarrow> length (snd x) \<le> length q)"

definition node_ok :: "ast_unit \<Rightarrow> nat \<Rightarrow> nat set \<Rightarrow> queue_item list \<Rightarrow> nat \<Rightarrow> bool" where
  "node_ok st m V Q v \<longleftrightarrow>
     v \<in> fst ` set Q \<or> (\<forall>n \<in> set (succs v). u_id (snd n) \<in> V) \<or> (\<forall>q. walk succs st v q \<longrightarrow> m < length q)"

definition searching :: "ast_unit \<Rightarrow> nat \<Rightarrow> nat \<Rightarrow> nat set \<Rightarrow> queue_item list \<Rightarrow> bool" where
  "searching st to_id m V Q \<longleftrightarrow>
     (\<forall>x \<in> set Q. item_ok st V x) \<and>
     sorted (map (\<lambda>x. length (snd x)) Q) \<and> (\<forall>x \<in> set Q. length (snd x) \<le> Suc (length (snd (hd Q)))) \<and>
     (\<forall>v \<in> V. node_ok st m V Q v) \<and>
     u_id st \<in> V \<and> V \<subseteq> insert (u_id st) nodes \<and>
     (to_id \<in> V \<longrightarrow> (\<exists>p. Q = [(to_id, p)] \<and> length p \<le> m))"

lemma searchingD:
  assumes "searching st to_id m V Q"
  shows "x \<in> set Q \<Longrightarrow> item_ok st V x" and "sorted (map (\<lambda>x. length (snd x)) Q)" and "x \<in> set Q \<Longrightarrow> length (snd x) \<le> Suc (length (snd (hd Q)))"
    and "v \<in> V \<Longrightarrow> node_ok st m V Q v" and "u_id st \<in> V" and "V \<subseteq> insert (u_id st) nodes"
    and "to_id \<in> V \<Longrightarrow> \<exists>p. Q = [(to_id, p)] \<and> length p \<le> m"
  using assms by (auto simp: searching_def)

lemma start_searching: "1 \<le> m \<Longrightarrow> searching st to_id m {u_id st} [(u_id st, [\<lparr> ps_edge = None, ps_unit = st, ps_via = [] \<rparr>])]"
  using walk_start [of succs st] walk_nonempty [of succs st] by (simp add: searching_def item_ok_def node_ok_def Suc_le_eq)

lemma walks_covered:
  assumes "searching st to_id m V Q" and "walk succs st v q" and "\<forall>x \<in> set Q. length q \<le> length (snd x)" and "length q \<le> Suc m"
  shows "v \<in> V"
  using assms(2-4)
proof (induction rule: walk.induct)
  case walk_start
  then show ?case using searchingD(5) [OF assms(1)] by simp
next
  case (walk_step i p n)
  have i: "i \<in> V" by (rule walk_step.IH) (use walk_step.prems in \<open>auto simp: Suc_le_eq intro: less_imp_le\<close>)
  have "i \<notin> fst ` set Q"
  proof
    assume "i \<in> fst ` set Q"
    then obtain x where x: "x \<in> set Q" "fst x = i" by auto
    then have "length (snd x) \<le> length p" using searchingD(1) [OF assms(1) x(1)] walk_step.hyps(1) by (simp add: item_ok_def)
    then show False using walk_step.prems(1) x(1) by fastforce
  qed
  moreover have "\<not> (\<forall>q. walk succs st i q \<longrightarrow> m < length q)" using walk_step.hyps(1) walk_step.prems(2) by (auto simp: not_less)
  ultimately show ?case using searchingD(4) [OF assms(1) i] walk_step.hyps(2) unfolding node_ok_def by blast
qed

lemma head_shortest: "searching st to_id m V (x # Q) \<Longrightarrow> y \<in> set (x # Q) \<Longrightarrow> length (snd x) \<le> length (snd y)"
  using searchingD(2) [of st to_id m V "x # Q"] by auto

lemma drop_deep:
  assumes "searching st to_id m V (x # Q)" and "m < length (snd x)"
  shows "searching st to_id m V Q"
proof -
  have deep: "m < length q" if "walk succs st (fst x) q" for q
    using searchingD(1) [OF assms(1), of x] assms(2) that by (fastforce simp: item_ok_def)
  have spread: "length (snd y) \<le> Suc (length (snd (hd Q)))" if y: "y \<in> set Q" for y
  proof -
    have "length (snd y) \<le> Suc (length (snd x))" using searchingD(3) [OF assms(1), of y] y by simp
    moreover have "hd Q \<in> set (x # Q)" using y by (cases Q) auto
    ultimately show ?thesis using head_shortest [OF assms(1), of "hd Q"] by linarith
  qed
  have "node_ok st m V Q v" if v: "v \<in> V" for v
    using searchingD(4) [OF assms(1) v] deep by (cases "v = fst x") (auto simp: node_ok_def)
  moreover have "to_id \<notin> V" using searchingD(7) [OF assms(1)] assms(2) by (auto simp: not_less [symmetric])
  ultimately show ?thesis unfolding searching_def
    using searchingD(1,2,5,6) [OF assms(1)] spread by (intro conjI ballI) simp_all
qed

lemma not_visited_yet: "searching st to_id m V (x # Q) \<Longrightarrow> fst x \<noteq> to_id \<Longrightarrow> to_id \<notin> V"
  using searchingD(7) [of st to_id m V "x # Q"] by auto

lemma new_node_shortest:
  assumes "searching st to_id m V (x # Q)" and "length (snd x) \<le> m" and "v \<notin> V" and "walk succs st v q"
  shows "Suc (length (snd x)) \<le> length q"
proof (rule ccontr)
  assume "\<not> ?thesis"
  then have short: "length q \<le> length (snd x)" by simp
  then have "\<forall>y \<in> set (x # Q). length q \<le> length (snd y)" using head_shortest [OF assms(1)] order_trans by blast
  from walks_covered [OF assms(1,4) this] short assms(2,3) show False by simp
qed

lemma sorted_const: "\<forall>y \<in> set bs. y = b \<Longrightarrow> sorted bs"
  by (induction bs) auto

lemma sorted_level:
  "sorted (a # as) \<Longrightarrow> \<forall>y \<in> set as. y \<le> Suc a \<Longrightarrow> \<forall>y \<in> set bs. y = Suc a \<Longrightarrow> sorted (as @ bs)"
  using sorted_const by (auto simp: sorted_append)

lemma expand_head:
  assumes "searching st to_id m V (x # Q)" and "length (snd x) \<le> m" and "fst x \<noteq> to_id"
    and "visit to_id (snd x) (succs (fst x)) V Q = Inr (V', Q')"
  shows "searching st to_id m V' Q'"
    and "card (insert (u_id st) nodes - V') + length Q' < card (insert (u_id st) nodes - V) + length (x # Q)"
proof -
  let ?N = "insert (u_id st) nodes"
  obtain new where new: "V' = V \<union> (\<lambda>n. u_id (snd n)) ` set (succs (fst x))" "to_id \<in> V' \<longrightarrow> to_id \<in> V" "Q' = Q @ new"
    "length new = card (V' - V)" "fst ` set new = V' - V"
    "\<forall>y \<in> set new. \<exists>n \<in> set (succs (fst x)). y = (u_id (snd n), extend_path (snd x) n)"
    using visit_miss [OF assms(4)] by blast
  note inv = searchingD [OF assms(1)]
  have to: "to_id \<notin> V'" using not_visited_yet [OF assms(1,3)] new(2) by blast
  have start: "u_id st \<in> V'" using inv(5) new(1) by blast
  have sub: "V' \<subseteq> ?N" using new(1) inv(6) succs_nodes by auto
  have len: "\<forall>y \<in> set new. length (snd y) = Suc (length (snd x))" using new(6) by auto
  have old: "item_ok st V' y" if "y \<in> set Q" for y using inv(1) [of y] that new(1) by (simp add: item_ok_def)
  have fresh: "item_ok st V' y" if y: "y \<in> set new" for y
  proof -
    obtain n where n: "n \<in> set (succs (fst x))" "y = (u_id (snd n), extend_path (snd x) n)" using new(6) y by blast
    have "walk succs st (fst x) (snd x)" using inv(1) [of x] by (simp add: item_ok_def)
    from walk_step [OF this n(1)] have "walk succs st (fst y) (snd y)" using n(2) by simp
    moreover have node: "fst y \<in> V' - V" using y new(5) by blast
    moreover have "length (snd y) \<le> length q" if "walk succs st (fst y) q" for q
      using new_node_shortest [OF assms(1,2) _ that] len y node by simp
    ultimately show ?thesis by (simp add: item_ok_def)
  qed
  have tail: "\<forall>y \<in> set Q. length (snd y) \<le> Suc (length (snd x))" using inv(3) by simp
  have "sorted (map (\<lambda>y. length (snd y)) Q')"
    unfolding new(3) map_append by (rule sorted_level [of "length (snd x)"]) (use inv(2) tail len in auto)
  moreover have "length (snd y) \<le> Suc (length (snd (hd Q')))" if y: "y \<in> set Q'" for y
  proof -
    have "length (snd y) \<le> Suc (length (snd x))" using y tail len unfolding new(3) set_append by (metis UnE order_refl)
    moreover have "hd Q' \<in> set Q \<or> hd Q' \<in> set new" using y unfolding new(3) by (cases Q; cases new) auto
    then have "length (snd x) \<le> length (snd (hd Q'))" using head_shortest [OF assms(1), of "hd Q'"] len by (metis le_SucI list.set_intros(2) order_refl)
    ultimately show ?thesis by linarith
  qed
  moreover have "node_ok st m V' Q' v" if v: "v \<in> V'" for v
  proof (cases "v \<in> V \<and> v \<noteq> fst x")
    case True
    then have "node_ok st m V (x # Q) v" using inv(4) by blast
    then show ?thesis using True new(1,3) by (auto simp: node_ok_def)
  next
    case False
    then have "v = fst x \<or> v \<in> fst ` set new" using v new(5) by blast
    then show ?thesis using new(1,3) by (auto simp: node_ok_def)
  qed
  moreover have "item_ok st V' y" if "y \<in> set Q'" for y using that old [of y] fresh [of y] new(3) by (cases "y \<in> set Q") simp_all
  ultimately show "searching st to_id m V' Q'" unfolding searching_def using start sub to by blast
  have "?N - V = (?N - V') \<union> (V' - V)" "(?N - V') \<inter> (V' - V) = {}" using sub new(1) by auto
  then have "card (?N - V) = card (?N - V') + card (V' - V)"
    using card_Un_disjoint [of "?N - V'" "V' - V"] finite_nodes finite_subset [OF sub] by auto
  then show "card (?N - V') + length Q' < card (?N - V) + length (x # Q)" using new(3,4) by simp
qed

text \<open>The answers that are right for a limit of \<open>m\<close> hops.\<close>

definition right_answer :: "ast_unit \<Rightarrow> nat \<Rightarrow> nat \<Rightarrow> store_error + path_step list \<Rightarrow> bool" where
  "right_answer st to_id m r \<longleftrightarrow>
     (case r of
        Inl err \<Rightarrow> err = ErrNotFound \<and> (\<forall>q. walk succs st to_id q \<longrightarrow> Suc m < length q)
      | Inr p \<Rightarrow> walk succs st to_id p \<and> length p \<le> Suc m \<and> (\<forall>q. walk succs st to_id q \<longrightarrow> length p \<le> length q))"

lemma hit_right:
  assumes "searching st to_id m V (x # Q)" and "length (snd x) \<le> m" and "fst x \<noteq> to_id"
    and "visit to_id (snd x) (succs (fst x)) V Q = Inl path"
  shows "right_answer st to_id m (Inr path)"
proof -
  obtain n where n: "n \<in> set (succs (fst x))" "u_id (snd n) = to_id" "path = extend_path (snd x) n" using visit_hit [OF assms(4)] by blast
  have "walk succs st (fst x) (snd x)" using searchingD(1) [OF assms(1), of x] by (simp add: item_ok_def)
  from walk_step [OF this n(1)] have "walk succs st to_id path" using n(2,3) by simp
  then show ?thesis using new_node_shortest [OF assms(1,2) not_visited_yet [OF assms(1,3)]] n(3) assms(2)
    by (simp add: right_answer_def)
qed

theorem search_right:
  "ok l \<Longrightarrow> searching st to_id m V Q \<Longrightarrow> \<exists>r. path_loop ex to_id m l V Q = Some r \<and> right_answer st to_id m r"
proof (induction "card (insert (u_id st) nodes - V) + length Q" arbitrary: l V Q rule: less_induct)
  case less
  show ?case
  proof (cases Q)
    case Nil
    then have "to_id \<notin> V" using searchingD(7) [OF less.prems(2)] by auto
    then have "Suc m < length q" if "walk succs st to_id q" for q
      using walks_covered [OF less.prems(2) that] Nil by (auto simp: not_less [symmetric])
    then have "right_answer st to_id m (Inl ErrNotFound)" by (simp add: right_answer_def)
    then show ?thesis using Nil by (subst path_loop.simps) simp
  next
    case (Cons x Q')
    note inv = less.prems(2) [unfolded Cons]
    consider (deep) "m < length (snd x)" | (target) "length (snd x) \<le> m" "fst x = to_id" | (inner) "length (snd x) \<le> m" "fst x \<noteq> to_id" by linarith
    then show ?thesis
    proof cases
      case deep
      have "\<exists>r. path_loop ex to_id m l V Q' = Some r \<and> right_answer st to_id m r"
        using less.hyps [OF _ less.prems(1) drop_deep [OF inv deep]] Cons by simp
      then show ?thesis using deep Cons by (subst path_loop.simps) simp
    next
      case target
      have "right_answer st to_id m (Inr (snd x))"
        using searchingD(1) [OF inv, of x] target by (simp add: right_answer_def item_ok_def)
      then show ?thesis using target Cons by (subst path_loop.simps) simp
    next
      case inner
      obtain l' where l': "ex (fst x) l = (l', succs (fst x))" "ok l'" using ex_pure [OF less.prems(1)] by blast
      show ?thesis
      proof (cases "visit to_id (snd x) (succs (fst x)) V Q'")
        case (Inl path)
        then show ?thesis using hit_right [OF inv inner Inl] inner Cons l'(1) by (subst path_loop.simps) simp
      next
        case (Inr s)
        obtain V2 Q2 where s: "s = (V2, Q2)" by (cases s)
        note next_ok = expand_head [OF inv inner Inr [unfolded s]]
        have "\<exists>r. path_loop ex to_id m l' V2 Q2 = Some r \<and> right_answer st to_id m r"
          using less.hyps [OF _ l'(2) next_ok(1)] next_ok(2) Cons by simp
        then show ?thesis using inner Cons l'(1) Inr s by (subst path_loop.simps) simp
      qed
    qed
  qed
qed

end

section \<open>The loader\<close>

definition lookup_unit :: "gdb \<Rightarrow> nat \<Rightarrow> ast_unit option" where
  "lookup_unit d i = List.find (\<lambda>u. u_id u = i) (g_units d)"

definition valid_ids :: "gdb \<Rightarrow> bool" where
  "valid_ids d \<longleftrightarrow> distinct (map u_id (g_units d)) \<and> 0 \<notin> u_id ` set (g_units d)"

text \<open>What is in the cache is what the store has.\<close>

definition loader_ok :: "gdb \<Rightarrow> loader \<Rightarrow> bool" where
  "loader_ok d l \<longleftrightarrow> (\<forall>i u. ld_units l i = Some u \<longrightarrow> u = lookup_unit d i)"

lemma lookup_in: "lookup_unit d i = Some u \<Longrightarrow> u \<in> set (g_units d) \<and> u_id u = i"
  unfolding lookup_unit_def by (drule find_SomeD) simp

lemma lookup_of:
  assumes "valid_ids d" and "u \<in> set (g_units d)"
  shows "lookup_unit d (u_id u) = Some u"
proof (cases "lookup_unit d (u_id u)")
  case None
  then show ?thesis using find_NoneD [of "\<lambda>v. u_id v = u_id u" "g_units d" u] assms(2) by (simp add: lookup_unit_def)
next
  case (Some v)
  then have "v \<in> set (g_units d)" "u_id v = u_id u" using lookup_in by auto
  then have "v = u" using assms by (auto simp: valid_ids_def distinct_map inj_on_def)
  then show ?thesis using Some by simp
qed

lemma lookup_none: "lookup_unit d i = None \<longleftrightarrow> i \<notin> u_id ` set (g_units d)"
  by (auto simp: lookup_unit_def find_None_iff)

lemma no_unit_zero: "valid_ids d \<Longrightarrow> lookup_unit d 0 = None"
  by (simp add: lookup_none valid_ids_def)

lemma units_by_id_set: "set (get_ast_units_by_ids ids d) = {u \<in> set (g_units d). u_id u \<in> set ids}"
proof -
  have "set (each_path_chunk ids (\<lambda>batch units. units @ filter (\<lambda>u. u_id u \<in> set batch) (g_units d)) us) =
      set us \<union> {u \<in> set (g_units d). u_id u \<in> set ids}" for us
  proof (induction "length ids" arbitrary: ids us rule: less_induct)
    case less
    show ?case
    proof (cases "ids = []")
      case True
      then show ?thesis by (simp add: each_path_chunk.simps)
    next
      case False
      have "set ids = set (take path_chunk ids) \<union> set (drop path_chunk ids)" by (metis append_take_drop_id set_append)
      then show ?thesis using False less by (subst each_path_chunk.simps) (auto simp: path_chunk_def)
    qed
  qed
  then show ?thesis by (simp add: get_ast_units_by_ids_def)
qed

lemma missing_ids_set: "set (missing_ids l requested ids) = {i \<in> set ids. i \<noteq> 0 \<and> i \<notin> set requested \<and> ld_units l i = None}"
proof (induction ids arbitrary: requested)
  case (Cons i ids)
  then show ?case by (cases "i = 0 \<or> i \<in> set requested"; cases "ld_units l i") (auto split: if_splits)
qed simp

lemma load_units:
  "ld_units (foldl (\<lambda>l u. l\<lparr> ld_units := (ld_units l)(u_id u \<mapsto> Some u) \<rparr>) l us) i =
    (if i \<in> u_id ` set us then Some (Some (last (filter (\<lambda>u. u_id u = i) us))) else ld_units l i)"
  by (induction us arbitrary: l rule: rev_induct) auto

lemma note_missing_all:
  "ld_units (foldl note_missing l is) i = (if i \<in> set is \<and> ld_units l i = None then Some None else ld_units l i)"
  by (induction "is" arbitrary: l) (auto simp: note_missing_def)

lemma units_by_ids_eq:
  assumes "valid_ids d" and "loader_ok d l"
  shows "ld_units (units_by_ids d ids l) i = (if i \<in> set ids \<and> i \<noteq> 0 then Some (lookup_unit d i) else ld_units l i)"
proof -
  let ?m = "missing_ids l [] ids" and ?us = "get_ast_units_by_ids (missing_ids l [] ids) d"
  have m: "set ?m = {i \<in> set ids. i \<noteq> 0 \<and> ld_units l i = None}" by (simp add: missing_ids_set)
  have have_already: "i \<in> set ids \<Longrightarrow> i \<noteq> 0 \<Longrightarrow> i \<notin> set ?m \<Longrightarrow> ld_units l i = Some (lookup_unit d i)"
    using assms(2) m by (auto simp: loader_ok_def)
  have last: "Some (last (filter (\<lambda>u. u_id u = i) ?us)) = lookup_unit d i" if i: "i \<in> u_id ` set ?us"
  proof -
    have "filter (\<lambda>u. u_id u = i) ?us \<noteq> []" using i by (auto simp: filter_empty_conv)
    then have "last (filter (\<lambda>u. u_id u = i) ?us) \<in> set (filter (\<lambda>u. u_id u = i) ?us)" by (rule last_in_set)
    then show ?thesis using lookup_of [OF assms(1), of "last (filter (\<lambda>u. u_id u = i) ?us)"] by (simp add: units_by_id_set)
  qed
  have gone: "lookup_unit d i = None" if "i \<in> set ?m" "i \<notin> u_id ` set ?us"
    using that by (auto simp: units_by_id_set lookup_none)
  show ?thesis
  proof (cases "?m = []")
    case True
    then show ?thesis using have_already by (auto simp: units_by_ids_def)
  next
    case False
    then have res: "ld_units (units_by_ids d ids l) i =
        (if i \<in> u_id ` set ?us then Some (lookup_unit d i) else if i \<in> set ?m \<and> ld_units l i = None then Some None else ld_units l i)"
      using last by (simp add: units_by_ids_def Let_def note_missing_all load_units)
    show ?thesis
    proof (cases "i \<in> set ?m")
      case True
      then show ?thesis using res gone m by (cases "i \<in> u_id ` set ?us") simp_all
    next
      case no: False
      then have "i \<notin> u_id ` set ?us" by (auto simp: units_by_id_set)
      then show ?thesis using res have_already no by simp
    qed
  qed
qed

lemma units_by_ids_ok: "valid_ids d \<Longrightarrow> loader_ok d l \<Longrightarrow> loader_ok d (units_by_ids d ids l)"
  unfolding loader_ok_def [of d "units_by_ids d ids l"] by (simp add: units_by_ids_eq) (simp add: loader_ok_def)

lemma cached_lookup:
  "valid_ids d \<Longrightarrow> loader_ok d l \<Longrightarrow> i = 0 \<or> ld_units l i \<noteq> None \<Longrightarrow> cached l i = lookup_unit d i"
  by (auto simp: cached_def loader_ok_def no_unit_zero split: option.splits)

section \<open>Paths of the graph\<close>

definition resolved_ends :: "gdb \<Rightarrow> (edge \<Rightarrow> nat) \<Rightarrow> edge list \<Rightarrow> (edge \<times> ast_unit) list" where
  "resolved_ends d far es = List.map_filter (\<lambda>e. map_option (\<lambda>u. (e, u)) (lookup_unit d (far e))) es"

text \<open>
  Where a path may go on from a unit: along its resolved edges except \<open>implements_rpc\<close>, and from an RPC
  method to its implementations.
\<close>

definition graph_succs :: "gdb \<Rightarrow> successors" where
  "graph_succs d i =
     resolved_ends d e_dst (filter traversable (get_edges (any_opts\<lparr> o_src := i \<rparr>) d)) @
     (case lookup_unit d i of
        None \<Rightarrow> []
      | Some u \<Rightarrow> if u_kind u = ''rpc_method''
                  then resolved_ends d e_src (get_edges (any_opts\<lparr> o_dst := i, o_kind := ''implements_rpc'' \<rparr>) d) else [])"

lemma found_resolved:
  assumes "valid_ids d" and "loader_ok d l" and "\<forall>e \<in> set es. far e = 0 \<or> ld_units l (far e) \<noteq> None"
  shows "found l far es = resolved_ends d far es"
  using assms(3) by (induction es) (auto simp: found_def resolved_ends_def map_filter_simps cached_lookup [OF assms(1,2)] split: option.split)

lemma expand_pure:
  assumes "valid_ids d" and "loader_ok d l"
  shows "\<exists>l'. expand d i l = (l', graph_succs d i) \<and> loader_ok d l'"
proof -
  let ?out = "filter traversable (get_edges (any_opts\<lparr> o_src := i \<rparr>) d)" and ?impls = "get_edges (any_opts\<lparr> o_dst := i, o_kind := ''implements_rpc'' \<rparr>) d"
  define l1 where "l1 = units_by_ids d (i # map e_dst ?out) l"
  define l2 where "l2 = units_by_ids d (map e_src ?impls) l1"
  have ok: "loader_ok d l1" "loader_ok d l2" unfolding l1_def l2_def using assms by (simp_all add: units_by_ids_ok)
  have "found l1 e_dst ?out = resolved_ends d e_dst ?out"
    by (rule found_resolved [OF assms(1) ok(1)]) (simp add: l1_def units_by_ids_eq [OF assms])
  moreover have "found l2 e_src ?impls = resolved_ends d e_src ?impls"
    by (rule found_resolved [OF assms(1) ok(2)]) (simp add: l2_def units_by_ids_eq [OF assms(1) ok(1)])
  moreover have "cached l1 i = lookup_unit d i"
    by (rule cached_lookup [OF assms(1) ok(1)]) (simp add: l1_def units_by_ids_eq [OF assms])
  ultimately show ?thesis using ok
    by (simp add: expand_def Let_def graph_succs_def l1_def [symmetric] l2_def [symmetric] split: option.split)
qed

lemma graph_succs_in: "n \<in> set (graph_succs d i) \<Longrightarrow> u_id (snd n) \<in> u_id ` set (g_units d)"
  using lookup_in by (fastforce simp: graph_succs_def resolved_ends_def set_map_filter split: option.splits if_splits)

interpretation graph_paths: successor_source "if valid_ids d then expand d else (\<lambda>i l. (l, graph_succs d i))"
  "\<lambda>l. valid_ids d \<longrightarrow> loader_ok d l" "graph_succs d" "u_id ` set (g_units d)"
  by unfold_locales (auto simp: graph_succs_in dest: expand_pure)

definition hop_limit :: "int \<Rightarrow> nat" where
  "hop_limit max_depth = nat (if max_depth \<le> 0 then 10 else max_depth)"

text \<open>
  C4: the path query between two units always answers. A path it returns is a walk along resolved edges
  from the one unit to the other, of at most the allowed number of hops, and no walk between them is
  shorter; it answers not-found only when the start does not exist or every walk between them is longer
  than allowed.
\<close>

theorem path_is_shortest:
  assumes "valid_ids d"
  shows "case graph_path d from_id to_id max_depth of
      None \<Rightarrow> False
    | Some (Inr p) \<Rightarrow> (\<exists>st. lookup_unit d from_id = Some st \<and> walk (graph_succs d) st to_id p \<and> length p \<le> Suc (hop_limit max_depth) \<and>
        (\<forall>q. walk (graph_succs d) st to_id q \<longrightarrow> length p \<le> length q))
    | Some (Inl err) \<Rightarrow> err = ErrNotFound \<and>
        (\<forall>st q. lookup_unit d from_id = Some st \<longrightarrow> walk (graph_succs d) st to_id q \<longrightarrow> Suc (hop_limit max_depth) < length q)"
proof (cases "lookup_unit d from_id")
  case None
  then have "graph_path d from_id to_id max_depth = Some (Inl ErrNotFound)"
    by (simp add: graph_path_def loader_unit_def new_loader_def get_ast_unit_by_id_def lookup_unit_def Let_def)
  then show ?thesis using None by simp
next
  case (Some st)
  let ?l = "new_loader\<lparr> ld_units := [from_id \<mapsto> Some st] \<rparr>" and ?Q = "[(u_id st, [\<lparr> ps_edge = None, ps_unit = st, ps_via = [] \<rparr>])]"
  have id: "u_id st = from_id" using lookup_in [OF Some] by simp
  have ok: "loader_ok d ?l" using Some by (simp add: loader_ok_def new_loader_def)
  have run: "graph_path d from_id to_id max_depth = path_loop (expand d) to_id (hop_limit max_depth) ?l {u_id st} ?Q"
    using Some by (simp add: graph_path_def loader_unit_def new_loader_def get_ast_unit_by_id_def lookup_unit_def Let_def hop_limit_def id)
  have inv: "graph_paths.searching d st to_id (hop_limit max_depth) {u_id st} ?Q"
    by (rule graph_paths.start_searching) (simp add: hop_limit_def le_nat_iff)
  obtain r where "path_loop (expand d) to_id (hop_limit max_depth) ?l {u_id st} ?Q = Some r" "graph_paths.right_answer d st to_id (hop_limit max_depth) r"
    using graph_paths.search_right [OF _ inv, of ?l] assms ok by auto
  then show ?thesis using Some run by (cases r) (auto simp: graph_paths.right_answer_def)
qed

definition path_db :: gdb where
  "path_db = empty_gdb\<lparr> g_units := [demo_unit 7 ''r'' ''f'' ''a.f'' [], demo_unit 8 ''r'' ''g'' ''a.g'' []],
     g_edges := [(demo_edge 3 7 ''g'')\<lparr> e_dst := 8 \<rparr>] \<rparr>"

theorem path_is_shortest_witness:
  "case graph_path path_db 7 8 0 of
      None \<Rightarrow> False
    | Some (Inr p) \<Rightarrow> (\<exists>st. lookup_unit path_db 7 = Some st \<and> walk (graph_succs path_db) st 8 p \<and> length p \<le> Suc (hop_limit 0) \<and>
        (\<forall>q. walk (graph_succs path_db) st 8 q \<longrightarrow> length p \<le> length q))
    | Some (Inl err) \<Rightarrow> err = ErrNotFound \<and>
        (\<forall>st q. lookup_unit path_db 7 = Some st \<longrightarrow> walk (graph_succs path_db) st 8 q \<longrightarrow> Suc (hop_limit 0) < length q)"
  by (rule path_is_shortest) (simp add: valid_ids_def path_db_def demo_unit_def)

end
