(* ===== verification/Graph_Trace_Facts.thy ===== *)
theory Graph_Trace_Facts
  imports Graph_Trace Graph_Path_Facts
begin

text \<open>
  The tracer against the walks it stands for. The loader, the memo of edge queries and the set of keys on
  the current path never show: the tracer is a depth-first enumeration of flows over the stored edges,
  each recorded once per key, of which the best sixty-four are kept.
\<close>

section \<open>Services through the cache\<close>

definition services_ok :: "unit_codec \<Rightarrow> gdb \<Rightarrow> loader \<Rightarrow> bool" where
  "services_ok uc d l \<longleftrightarrow>
     (\<forall>repo svcs. ld_services l repo = Some svcs \<longrightarrow> svcs = map (unit_service uc) (service_units repo d))"

definition loader_sound :: "unit_codec \<Rightarrow> gdb \<Rightarrow> loader \<Rightarrow> bool" where
  "loader_sound uc d l \<longleftrightarrow> loader_ok d l \<and> services_ok uc d l"

lemma new_loader_ok: "loader_sound uc d new_loader"
  by (simp add: loader_sound_def loader_ok_def services_ok_def new_loader_def)

lemma loading_keeps_services [simp]: "ld_services (units_by_ids d ids l) = ld_services l"
proof -
  have load: "ld_services (foldl (\<lambda>l u. l\<lparr> ld_units := (ld_units l)(u_id u \<mapsto> Some u) \<rparr>) l us) = ld_services l" for us l
    by (induction us arbitrary: l) simp_all
  have noted: "ld_services (foldl note_missing l is) = ld_services l" for l "is"
    by (induction "is" arbitrary: l) (simp_all add: note_missing_def)
  show ?thesis by (simp add: units_by_ids_def Let_def load noted)
qed

lemma units_by_ids_sound: "valid_ids d \<Longrightarrow> loader_sound uc d l \<Longrightarrow> loader_sound uc d (units_by_ids d ids l)"
  by (simp add: loader_sound_def units_by_ids_ok services_ok_def)

lemma loader_unit_pure:
  assumes "loader_sound uc d l"
  shows "\<exists>l'. loader_unit d i l = (l', case lookup_unit d i of None \<Rightarrow> Inl ErrNotFound | Some u \<Rightarrow> Inr u) \<and> loader_sound uc d l'"
proof (cases "ld_units l i")
  case None
  then show ?thesis using assms
    by (cases "lookup_unit d i")
      (auto simp: loader_unit_def get_ast_unit_by_id_def lookup_unit_def loader_sound_def loader_ok_def services_ok_def split: if_splits)
next
  case (Some u)
  then have "u = lookup_unit d i" using assms by (simp add: loader_sound_def loader_ok_def)
  then show ?thesis using Some assms by (cases "lookup_unit d i") (simp_all add: loader_unit_def)
qed

lemma service_for_unit_pure:
  assumes "loader_sound uc d l"
  shows "\<exists>l'. service_for_unit uc d u l = (l', graph_service_for_unit uc u d) \<and> loader_sound uc d l'"
proof -
  have "\<exists>l'. services_of uc d (u_repo u) l = (l', map (unit_service uc) (service_units (u_repo u) d)) \<and> loader_sound uc d l'"
    using assms by (cases "ld_services l (u_repo u)") (auto simp: services_of_def Let_def loader_sound_def services_ok_def loader_ok_def)
  then obtain l' where l': "services_of uc d (u_repo u) l = (l', map (unit_service uc) (service_units (u_repo u) d))" "loader_sound uc d l'" by blast
  then show ?thesis using assms
    by (simp add: service_for_unit_def service_of_def graph_service_for_unit_def graph_service_of_def Let_def)
qed

section \<open>Hops without caches\<close>

definition wanted_hops :: "gdb \<Rightarrow> (edge \<Rightarrow> (nat \<times> (ast_unit \<Rightarrow> hop)) option) \<Rightarrow> edge list \<Rightarrow> hop list" where
  "wanted_hops d want es =
     List.map_filter (\<lambda>e. case want e of None \<Rightarrow> None | Some (i, mk) \<Rightarrow> map_option mk (lookup_unit d i)) es"

fun reader_hops :: "gdb \<Rightarrow> ast_unit \<Rightarrow> string list \<Rightarrow> edge list \<Rightarrow> nat set \<Rightarrow> hop list" where
  "reader_hops d table tracked [] seen = []"
| "reader_hops d table tracked (e # es) seen =
     (if e_src e = 0 \<or> e_src e \<in> seen then reader_hops d table tracked es seen
      else case lookup_unit d (e_src e) of
        None \<Rightarrow> reader_hops d table tracked es seen
      | Some u \<Rightarrow> reader_hop table tracked e u # reader_hops d table tracked es (insert (e_src e) seen))"

definition edges_from :: "gdb \<Rightarrow> nat \<Rightarrow> string \<Rightarrow> edge list" where
  "edges_from d i kind = get_edges (any_opts\<lparr> o_src := i, o_kind := kind \<rparr>) d"

definition edges_into :: "gdb \<Rightarrow> nat \<Rightarrow> string \<Rightarrow> edge list" where
  "edges_into d i kind = get_edges (any_opts\<lparr> o_dst := i, o_kind := kind \<rparr>) d"

definition hops_of :: "call_codec \<Rightarrow> gdb \<Rightarrow> ast_unit \<Rightarrow> string list \<Rightarrow> hop list" where
  "hops_of mc d u tracked =
     (if u_kind u = ''rpc_method'' then wanted_hops d (impl_want u tracked) (edges_into d (u_id u) ''implements_rpc'')
      else if u_kind u = ''http_route'' then wanted_hops d (handler_want u tracked) (edges_from d (u_id u) ''handled_by'')
      else if u_kind u = ''db_table'' then reader_hops d u tracked (edges_into d (u_id u) ''reads_from'') {}
      else wanted_hops d (edge_want mc tracked) (edges_from d (u_id u) []))"

text \<open>The memo: only kinds without the separator are asked for, so no two queries share a key.\<close>

definition memo_ok :: "gdb \<Rightarrow> (string \<rightharpoonup> edge list) \<Rightarrow> bool" where
  "memo_ok d m \<longleftrightarrow>
     (\<forall>kind i es. CHR ''|'' \<notin> set kind \<longrightarrow>
       (m (edge_memo_key ''out'' kind i) = Some es \<longrightarrow> es = edges_from d i kind) \<and>
       (m (edge_memo_key ''in'' kind i) = Some es \<longrightarrow> es = edges_into d i kind))"

definition tracer_ok :: "unit_codec \<Rightarrow> gdb \<Rightarrow> tracer \<Rightarrow> bool" where
  "tracer_ok uc d t \<longleftrightarrow> loader_sound uc d (tr_loader t) \<and> memo_ok d (tr_edges t)"

text \<open>What expanding a node leaves alone.\<close>

definition same_record :: "tracer \<Rightarrow> tracer \<Rightarrow> bool" where
  "same_record t t' \<longleftrightarrow> tr_expansions t' = tr_expansions t \<and> tr_on_path t' = tr_on_path t \<and> tr_seen t' = tr_seen t \<and>
     tr_discovered t' = tr_discovered t \<and> tr_completed t' = tr_completed t"

definition gives :: "unit_codec \<Rightarrow> gdb \<Rightarrow> tracer \<Rightarrow> tracer \<times> 'a \<Rightarrow> 'a \<Rightarrow> bool" where
  "gives uc d t r x \<longleftrightarrow> snd r = x \<and> tracer_ok uc d (fst r) \<and> same_record t (fst r)"

lemma gives_self: "tracer_ok uc d t \<Longrightarrow> gives uc d t (t, x) x"
  by (simp add: gives_def same_record_def)

lemma gives_bind:
  assumes "gives uc d t r x" and "\<And>t'. tracer_ok uc d t' \<Longrightarrow> gives uc d t' (k x t') y"
  shows "gives uc d t (case r of (t', x') \<Rightarrow> k x' t') y"
proof -
  obtain t1 where r: "r = (t1, x)" "tracer_ok uc d t1" "same_record t t1" using assms(1) by (cases r) (auto simp: gives_def)
  have "gives uc d t1 (k x t1) y" using assms(2) r(2) by blast
  then show ?thesis using r by (simp add: gives_def same_record_def)
qed

lemma bar_split: "CHR ''|'' \<notin> set k \<Longrightarrow> CHR ''|'' \<notin> set k' \<Longrightarrow> k @ CHR ''|'' # a = k' @ CHR ''|'' # b \<longleftrightarrow> k = k' \<and> a = b"
  by (auto simp: append_eq_append_conv2 Cons_eq_append_conv append_eq_Cons_conv)

lemma edge_memo_key_inject:
  assumes "CHR ''|'' \<notin> set dir" and "CHR ''|'' \<notin> set dir'" and "CHR ''|'' \<notin> set kind" and "CHR ''|'' \<notin> set kind'"
  shows "edge_memo_key dir kind i = edge_memo_key dir' kind' j \<longleftrightarrow> dir = dir' \<and> kind = kind' \<and> i = j"
  using assms by (simp add: edge_memo_key_def bar_split)

lemma edges_of_pure:
  assumes "valid_ids d" and "tracer_ok uc d t" and "CHR ''|'' \<notin> set kind"
  shows "gives uc d t (out_edges d i kind t) (edges_from d i kind)"
    and "gives uc d t (reverse_edges d i kind t) (edges_into d i kind)"
proof -
  have memo: "memo_ok d (tr_edges t)" and cache: "loader_sound uc d (tr_loader t)" using assms(2) by (simp_all add: tracer_ok_def)
  have add_out: "memo_ok d ((tr_edges t)(edge_memo_key ''out'' kind i \<mapsto> edges_from d i kind))"
    using memo by (simp add: memo_ok_def edge_memo_key_inject assms(3))
  have add_in: "memo_ok d ((tr_edges t)(edge_memo_key ''in'' kind i \<mapsto> edges_into d i kind))"
    using memo by (simp add: memo_ok_def edge_memo_key_inject assms(3))
  show "gives uc d t (out_edges d i kind t) (edges_from d i kind)"
  proof (cases "tr_edges t (edge_memo_key ''out'' kind i)")
    case None
    then show ?thesis using add_out units_by_ids_sound [OF assms(1) cache]
      by (simp add: gives_def out_edges_def edges_of_def Let_def edges_from_def [symmetric] tracer_ok_def same_record_def)
  next
    case (Some es)
    then have "es = edges_from d i kind" using memo assms(3) by (simp add: memo_ok_def)
    then show ?thesis using Some gives_self [OF assms(2)] by (simp add: out_edges_def edges_of_def)
  qed
  show "gives uc d t (reverse_edges d i kind t) (edges_into d i kind)"
  proof (cases "tr_edges t (edge_memo_key ''in'' kind i)")
    case None
    then show ?thesis using add_in units_by_ids_sound [OF assms(1) cache]
      by (simp add: gives_def reverse_edges_def edges_of_def Let_def edges_into_def [symmetric] tracer_ok_def same_record_def)
  next
    case (Some es)
    then have "es = edges_into d i kind" using memo assms(3) by (simp add: memo_ok_def)
    then show ?thesis using Some gives_self [OF assms(2)] by (simp add: reverse_edges_def edges_of_def)
  qed
qed

lemma unit_by_id_pure:
  assumes "tracer_ok uc d t"
  shows "gives uc d t (unit_by_id d i t) (lookup_unit d i)"
proof -
  obtain l' where "loader_unit d i (tr_loader t) = (l', case lookup_unit d i of None \<Rightarrow> Inl ErrNotFound | Some u \<Rightarrow> Inr u)" "loader_sound uc d l'"
    using loader_unit_pure [of uc d "tr_loader t" i] assms by (auto simp: tracer_ok_def)
  then show ?thesis using assms
    by (simp add: gives_def unit_by_id_def tracer_ok_def same_record_def split: option.split)
qed

lemma collect_hops_pure:
  "tracer_ok uc d t \<Longrightarrow> gives uc d t (collect_hops d want es t hops) (hops @ wanted_hops d want es)"
proof (induction es arbitrary: t hops)
  case Nil
  then show ?case by (simp add: wanted_hops_def map_filter_simps gives_self)
next
  case (Cons e es)
  show ?case
  proof (cases "want e")
    case None
    then show ?thesis using Cons by (simp add: wanted_hops_def map_filter_simps)
  next
    case (Some w)
    obtain i mk where w: "w = (i, mk)" by (cases w)
    have "gives uc d t (case unit_by_id d i t of (t', u) \<Rightarrow> collect_hops d want es t' (case u of None \<Rightarrow> hops | Some u \<Rightarrow> hops @ [mk u]))
        ((case lookup_unit d i of None \<Rightarrow> hops | Some u \<Rightarrow> hops @ [mk u]) @ wanted_hops d want es)"
      by (rule gives_bind [OF unit_by_id_pure [OF Cons.prems] Cons.IH])
    then show ?thesis using Some w by (cases "lookup_unit d i") (simp_all add: wanted_hops_def map_filter_simps)
  qed
qed

lemma collect_readers_pure:
  "tracer_ok uc d t \<Longrightarrow> gives uc d t (collect_readers d table tracked es seen t hops) (hops @ reader_hops d table tracked es seen)"
proof (induction es arbitrary: t hops seen)
  case Nil
  then show ?case by (simp add: gives_self)
next
  case (Cons e es)
  show ?case
  proof (cases "e_src e = 0 \<or> e_src e \<in> seen")
    case True
    then show ?thesis using Cons by auto
  next
    case False
    let ?k = "\<lambda>u t'. case u of None \<Rightarrow> collect_readers d table tracked es seen t' hops
      | Some u \<Rightarrow> collect_readers d table tracked es (insert (e_src e) seen) t' (hops @ [reader_hop table tracked e u])"
    have "gives uc d t' (?k (lookup_unit d (e_src e)) t') (hops @ reader_hops d table tracked (e # es) seen)" if "tracer_ok uc d t'" for t'
    proof (cases "lookup_unit d (e_src e)")
      case None
      then show ?thesis using Cons.IH [OF that] False by simp
    next
      case (Some u)
      then show ?thesis using Cons.IH [OF that, where hops = "hops @ [reader_hop table tracked e u]" and seen = "insert (e_src e) seen"] False by simp
    qed
    then have "gives uc d t (case unit_by_id d (e_src e) t of (t', u) \<Rightarrow> ?k u t') (hops @ reader_hops d table tracked (e # es) seen)"
      by (rule gives_bind [OF unit_by_id_pure [OF Cons.prems]])
    moreover have "collect_readers d table tracked (e # es) seen t hops = (case unit_by_id d (e_src e) t of (t', u) \<Rightarrow> ?k u t')"
      using False by (cases "unit_by_id d (e_src e) t") (simp split: option.split)
    ultimately show ?thesis by simp
  qed
qed

lemma expand_hops_pure:
  assumes "valid_ids d" and "tracer_ok uc d t"
  shows "gives uc d t (expand_hops mc d u tracked t) (hops_of mc d u tracked)"
proof -
  note asked = edges_of_pure [OF assms]
  note collected = collect_hops_pure [where hops = "[]", simplified] and read = collect_readers_pure [where hops = "[]", simplified]
  consider "u_kind u = ''rpc_method''" | "u_kind u = ''http_route''" | "u_kind u = ''db_table''"
    | "u_kind u \<noteq> ''rpc_method''" "u_kind u \<noteq> ''http_route''" "u_kind u \<noteq> ''db_table''" by blast
  then show ?thesis
  proof cases
    case 1
    then show ?thesis by (simp add: expand_hops_def hops_of_def) (rule gives_bind [OF asked(2) collected], simp_all)
  next
    case 2
    then show ?thesis by (simp add: expand_hops_def hops_of_def) (rule gives_bind [OF asked(1) collected], simp_all)
  next
    case 3
    then show ?thesis by (simp add: expand_hops_def hops_of_def table_readers_def) (rule gives_bind [OF asked(2) read], simp_all)
  next
    case 4
    then show ?thesis by (simp add: expand_hops_def hops_of_def) (rule gives_bind [OF asked(1) collected], simp_all)
  qed
qed

end
