(* ===== verification/Graph_Trace_Search.thy ===== *)
theory Graph_Trace_Search
  imports Graph_Trace_Facts
begin

text \<open>
  The depth-first search of the tracer as an enumeration of flows. A flow is a chain of hops; it ends at the
  depth limit, at a repeated node, at a node without hops, or where the expansion budget is used up.
\<close>

section \<open>Flows\<close>

definition node_key :: "trace_step \<Rightarrow> string" where
  "node_key s = step_key (u_id (ts_unit s)) (ts_tracked s)"

definition next_hops :: "call_codec \<Rightarrow> gdb \<Rightarrow> trace_step list \<Rightarrow> hop list" where
  "next_hops mc d p = hops_of mc d (ts_unit (last p)) (ts_tracked (last p))"

definition take_hop :: "unit_codec \<Rightarrow> gdb \<Rightarrow> trace_step list \<Rightarrow> hop \<Rightarrow> trace_step list" where
  "take_hop uc d p h = p @ [step_of (ts_conf (last p)) h (graph_service_for_unit uc (hp_unit h) d)]"

definition ending :: "call_codec \<Rightarrow> gdb \<Rightarrow> nat \<Rightarrow> trace_step list \<Rightarrow> string option" where
  "ending mc d max_depth p =
     (if length p > max_depth then Some note_depth_limit
      else if node_key (last p) \<in> node_key ` set (butlast p) then Some []
      else if next_hops mc d p = [] then Some [] else None)"

inductive leads :: "unit_codec \<Rightarrow> call_codec \<Rightarrow> gdb \<Rightarrow> nat \<Rightarrow> trace_step list \<Rightarrow> trace_step list \<Rightarrow> bool" for uc mc d max_depth p where
  leads_self: "leads uc mc d max_depth p p"
| leads_step: "leads uc mc d max_depth p q \<Longrightarrow> ending mc d max_depth q = None \<Longrightarrow> h \<in> set (next_hops mc d q) \<Longrightarrow>
    leads uc mc d max_depth p (take_hop uc d q h)"

lemma leads_first:
  "leads uc mc d m p q \<Longrightarrow> q = p \<or> (ending mc d m p = None \<and> (\<exists>h \<in> set (next_hops mc d p). leads uc mc d m (take_hop uc d p h) q))"
proof (induction rule: leads.induct)
  case (leads_step q h)
  then show ?case by (cases "q = p") (blast intro: leads.intros)+
qed simp

lemma leads_from:
  assumes "ending mc d m p = None" and "h \<in> set (next_hops mc d p)" and "leads uc mc d m (take_hop uc d p h) q"
  shows "leads uc mc d m p q"
  using assms(3)
proof (induction rule: leads.induct)
  case leads_self
  then show ?case using assms(1,2) by (blast intro: leads.intros)
qed (blast intro: leads.intros)

section \<open>The enumeration\<close>

type_synonym ended_walk = "trace_step list \<times> string"

function search :: "unit_codec \<Rightarrow> call_codec \<Rightarrow> gdb \<Rightarrow> nat \<Rightarrow> trace_step list \<Rightarrow> nat \<Rightarrow> ended_walk list \<times> nat" where
  "search uc mc d max_depth p n =
     (if length p > max_depth then ([(p, note_depth_limit)], n)
      else if node_key (last p) \<in> node_key ` set (butlast p) then ([(p, [])], n)
      else if n \<ge> max_expansions then ([(p, note_budget_limit)], n)
      else if next_hops mc d p = [] then ([(p, [])], Suc n)
      else foldl (\<lambda>s h. case search uc mc d max_depth (take_hop uc d p h) (snd s) of (ws, n) \<Rightarrow> (fst s @ ws, n)) ([], Suc n) (next_hops mc d p))"
  by pat_completeness auto

termination
  by (relation "measure (\<lambda>(uc, mc, d, max_depth, p, n). Suc max_depth - length p)") (auto simp: take_hop_def)

declare search.simps [simp del]

lemma limit_notes [simp]: "note_depth_limit \<noteq> []" "note_budget_limit \<noteq> []" "note_depth_limit \<noteq> note_budget_limit"
  by (simp_all add: note_depth_limit_def note_budget_limit_def)

text \<open>A fold that appends what each element gives and threads a counter.\<close>

definition gather :: "('h \<Rightarrow> nat \<Rightarrow> 'w list \<times> nat) \<Rightarrow> 'w list \<times> nat \<Rightarrow> 'h list \<Rightarrow> 'w list \<times> nat" where
  "gather f = foldl (\<lambda>s h. case f h (snd s) of (ws, n) \<Rightarrow> (fst s @ ws, n))"

lemma gather_simps [simp]:
  "gather f s [] = s"
  "gather f s (h # hs) = gather f (fst s @ fst (f h (snd s)), snd (f h (snd s))) hs"
  "gather f s (hs @ [h]) = (fst (gather f s hs) @ fst (f h (snd (gather f s hs))), snd (f h (snd (gather f s hs))))"
  by (simp_all add: gather_def case_prod_beta)

lemma gather_grows: "(\<And>h n. h \<in> set hs \<Longrightarrow> n \<le> snd (f h n)) \<Longrightarrow> snd s \<le> snd (gather f s hs)"
proof (induction hs arbitrary: s)
  case (Cons h hs)
  have "snd s \<le> snd (f h (snd s))" using Cons.prems by simp
  also have "\<dots> \<le> snd (gather f (fst s @ fst (f h (snd s)), snd (f h (snd s))) hs)"
    using Cons.IH [of "(fst s @ fst (f h (snd s)), snd (f h (snd s)))"] Cons.prems by simp
  finally show ?case by simp
qed simp

lemma gather_all:
  assumes "\<And>h n w. h \<in> set hs \<Longrightarrow> w \<in> set (fst (f h n)) \<Longrightarrow> P w" and "\<forall>w \<in> set (fst s). P w"
  shows "\<forall>w \<in> set (fst (gather f s hs)). P w"
proof -
  have "\<forall>h \<in> set hs. \<forall>n. \<forall>w \<in> set (fst (f h n)). P w" using assms(1) by blast
  then show ?thesis using assms(2)
  proof (induction hs arbitrary: s)
    case (Cons h hs)
    have "\<forall>w \<in> set (fst s @ fst (f h (snd s))). P w" using Cons.prems by auto
    then show ?case using Cons.IH [of "(fst s @ fst (f h (snd s)), snd (f h (snd s)))"] Cons.prems(1) by simp
  qed simp
qed

lemma gather_keeps: "w \<in> set (fst s) \<Longrightarrow> w \<in> set (fst (gather f s hs))"
  by (induction hs arbitrary: s) simp_all

text \<open>Below a bound that no element lets the counter pass, what each element says of its walks holds of all.\<close>

lemma gather_none:
  assumes "\<And>h n. h \<in> set hs \<Longrightarrow> n \<le> snd (f h n)" and "\<And>h n. h \<in> set hs \<Longrightarrow> snd (f h n) < m \<Longrightarrow> w \<notin> set (fst (f h n))"
    and "snd (gather f s hs) < m" and "w \<notin> set (fst s)"
  shows "w \<notin> set (fst (gather f s hs))"
  using assms
proof (induction hs arbitrary: s)
  case (Cons h hs)
  let ?s = "(fst s @ fst (f h (snd s)), snd (f h (snd s)))"
  have "snd ?s \<le> snd (gather f ?s hs)" by (rule gather_grows) (simp add: Cons.prems(1))
  then have "snd (f h (snd s)) < m" using Cons.prems(3) by simp
  then have "w \<notin> set (fst ?s)" using Cons.prems(2) [of h "snd s"] Cons.prems(4) by simp
  moreover have "snd (gather f ?s hs) < m" using Cons.prems(3) by simp
  ultimately have "w \<notin> set (fst (gather f ?s hs))" using Cons.IH [of ?s] Cons.prems(1,2) by simp
  then show ?case by simp
qed simp

lemma gather_some:
  assumes "\<And>h n. h \<in> set hs \<Longrightarrow> n \<le> snd (f h n)" and "h \<in> set hs" and "\<And>n. snd (f h n) < m \<Longrightarrow> w \<in> set (fst (f h n))"
    and "snd (gather f s hs) < m"
  shows "w \<in> set (fst (gather f s hs))"
  using assms
proof (induction hs arbitrary: s)
  case (Cons h' hs)
  let ?s = "(fst s @ fst (f h' (snd s)), snd (f h' (snd s)))"
  have le: "snd ?s \<le> snd (gather f ?s hs)" by (rule gather_grows) (simp add: Cons.prems(1))
  have lt: "snd (gather f ?s hs) < m" using Cons.prems(4) by simp
  show ?case
  proof (cases "h = h'")
    case True
    then have "w \<in> set (fst ?s)" using Cons.prems(3) [of "snd s"] le lt by simp
    then show ?thesis using gather_keeps [of w ?s f hs] by simp
  next
    case False
    then have "w \<in> set (fst (gather f ?s hs))" using Cons.IH [of ?s] Cons.prems(1,2,3) lt by simp
    then show ?thesis by simp
  qed
qed simp

section \<open>What the enumeration finds\<close>

definition search_from :: "unit_codec \<Rightarrow> call_codec \<Rightarrow> gdb \<Rightarrow> nat \<Rightarrow> trace_step list \<Rightarrow> hop \<Rightarrow> nat \<Rightarrow> ended_walk list \<times> nat" where
  "search_from uc mc d m p h n = search uc mc d m (take_hop uc d p h) n"

lemma search_unfold:
  "search uc mc d m p n =
     (if length p > m then ([(p, note_depth_limit)], n)
      else if node_key (last p) \<in> node_key ` set (butlast p) then ([(p, [])], n)
      else if n \<ge> max_expansions then ([(p, note_budget_limit)], n)
      else if next_hops mc d p = [] then ([(p, [])], Suc n)
      else gather (search_from uc mc d m p) ([], Suc n) (next_hops mc d p))"
  by (subst search.simps) (simp add: gather_def search_from_def)

text \<open>Induction along the search.\<close>

lemma search_induct:
  assumes "\<And>p. (\<And>h. length p \<le> m \<Longrightarrow> P (take_hop uc d p h)) \<Longrightarrow> P p"
  shows "P p"
proof (induction "Suc m - length p" arbitrary: p rule: less_induct)
  case less
  show ?case
  proof (rule assms)
    fix h
    assume "length p \<le> m"
    then show "P (take_hop uc d p h)" by (intro less) (simp add: take_hop_def)
  qed
qed

lemma search_grows: "n \<le> snd (search uc mc d m p n)"
proof (induction p arbitrary: n rule: search_induct [where m = m and uc = uc and d = d])
  case (1 p)
  show ?case
  proof (cases "length p \<le> m")
    case True
    then have "Suc n \<le> snd (gather (search_from uc mc d m p) ([], Suc n) (next_hops mc d p))"
      using gather_grows [of "next_hops mc d p" "search_from uc mc d m p" "([], Suc n)"] 1 by (simp add: search_from_def)
    then show ?thesis by (subst search_unfold) simp
  qed (simp add: search_unfold)
qed

lemma search_sound:
  "\<forall>w \<in> set (fst (search uc mc d m p n)). leads uc mc d m p (fst w) \<and> (ending mc d m (fst w) = Some (snd w) \<or> snd w = note_budget_limit)"
proof (induction p arbitrary: n rule: search_induct [where m = m and uc = uc and d = d])
  case (1 p)
  show ?case
  proof (cases "ending mc d m p = None")
    case True
    then have short: "length p \<le> m" by (simp add: ending_def split: if_splits)
    have "\<forall>w \<in> set (fst (gather (search_from uc mc d m p) ([], Suc n) (next_hops mc d p))).
        leads uc mc d m p (fst w) \<and> (ending mc d m (fst w) = Some (snd w) \<or> snd w = note_budget_limit)"
    proof (rule gather_all)
      fix h k w
      assume h: "h \<in> set (next_hops mc d p)" and w: "w \<in> set (fst (search_from uc mc d m p h k))"
      have "leads uc mc d m (take_hop uc d p h) (fst w) \<and> (ending mc d m (fst w) = Some (snd w) \<or> snd w = note_budget_limit)"
        using bspec [OF 1 [OF short]] w by (simp add: search_from_def)
      then show "leads uc mc d m p (fst w) \<and> (ending mc d m (fst w) = Some (snd w) \<or> snd w = note_budget_limit)"
        using leads_from [OF True h] by blast
    qed simp
    then show ?thesis using leads_self [of uc mc d m p] True by (subst search_unfold) (simp add: ending_def split: if_splits)
  next
    case False
    then show ?thesis using leads_self [of uc mc d m p] by (subst search_unfold) (auto simp: ending_def)
  qed
qed

lemma search_complete:
  assumes "leads uc mc d m p q" and "ending mc d m q = Some l"
  shows "snd (search uc mc d m p n) < max_expansions \<Longrightarrow> (q, l) \<in> set (fst (search uc mc d m p n))"
  using assms
proof (induction p arbitrary: n rule: search_induct [where m = m and uc = uc and d = d])
  case (1 p)
  from leads_first [OF 1(3)] consider "q = p" "ending mc d m p \<noteq> None"
    | h where "ending mc d m p = None" "h \<in> set (next_hops mc d p)" "leads uc mc d m (take_hop uc d p h) q"
    using 1(4) by auto
  then show ?case
  proof cases
    case 1
    have "n < max_expansions" using search_grows [of n uc mc d m p] \<open>snd (search uc mc d m p n) < max_expansions\<close> by simp
    then show ?thesis using 1 \<open>ending mc d m q = Some l\<close> by (subst search_unfold) (auto simp: ending_def split: if_splits)
  next
    case (2 h)
    then have short: "length p \<le> m" by (simp add: ending_def split: if_splits)
    have n: "n < max_expansions" using search_grows [of n uc mc d m p] 1(2) by simp
    have run: "search uc mc d m p n = gather (search_from uc mc d m p) ([], Suc n) (next_hops mc d p)"
      using 2(1) n by (subst search_unfold) (auto simp: ending_def split: if_splits)
    have "(q, l) \<in> set (fst (gather (search_from uc mc d m p) ([], Suc n) (next_hops mc d p)))"
    proof (rule gather_some [OF _ 2(2)])
      show "k \<le> snd (search_from uc mc d m p h' k)" for h' k by (simp add: search_from_def search_grows)
      show "snd (search_from uc mc d m p h k) < max_expansions \<Longrightarrow> (q, l) \<in> set (fst (search_from uc mc d m p h k))" for k
        using 1(1) [OF short _ 2(3) 1(4)] by (simp add: search_from_def)
      show "snd (gather (search_from uc mc d m p) ([], Suc n) (next_hops mc d p)) < max_expansions" using 1(2) run by simp
    qed
    then show ?thesis using run by simp
  qed
qed

lemma search_uncut:
  "snd (search uc mc d m p n) < max_expansions \<Longrightarrow> (q, note_budget_limit) \<notin> set (fst (search uc mc d m p n))"
proof (induction p arbitrary: n rule: search_induct [where m = m and uc = uc and d = d])
  case (1 p)
  have n: "n < max_expansions" using search_grows [of n uc mc d m p] 1(2) by simp
  show ?case
  proof (cases "ending mc d m p = None")
    case True
    then have short: "length p \<le> m" by (simp add: ending_def split: if_splits)
    have run: "search uc mc d m p n = gather (search_from uc mc d m p) ([], Suc n) (next_hops mc d p)"
      using True n by (subst search_unfold) (auto simp: ending_def split: if_splits)
    have "(q, note_budget_limit) \<notin> set (fst (gather (search_from uc mc d m p) ([], Suc n) (next_hops mc d p)))"
    proof (rule gather_none)
      show "k \<le> snd (search_from uc mc d m p h k)" for h k by (simp add: search_from_def search_grows)
      show "snd (search_from uc mc d m p h k) < max_expansions \<Longrightarrow> (q, note_budget_limit) \<notin> set (fst (search_from uc mc d m p h k))" for h k
        using 1(1) [OF short] by (simp add: search_from_def)
      show "snd (gather (search_from uc mc d m p) ([], Suc n) (next_hops mc d p)) < max_expansions" using 1(2) run by simp
    qed simp
    then show ?thesis using run by simp
  next
    case False
    have "note_budget_limit \<noteq> note_depth_limit" "note_budget_limit \<noteq> []" using limit_notes by metis+
    then show ?thesis using False n by (subst search_unfold) (auto simp: ending_def)
  qed
qed

end
