(* ===== verification/Graph_Trace_Props.thy ===== *)
theory Graph_Trace_Props
  imports Graph_Trace_Search
begin

text \<open>
  What a trace reports: every flow is discovered unless the expansion budget is used up, the best chains are
  kept, and each chain is a sequence of stored edges along which the confidence does not rise.
\<close>

section \<open>Recording\<close>

definition chain_of :: "ended_walk \<Rightarrow> trace_chain" where
  "chain_of w = \<lparr> tc_steps = (if snd w \<noteq> [] then with_note (fst w) (snd w) else fst w), tc_truncated = (snd w \<noteq> []) \<rparr>"

type_synonym recording = "string set \<times> nat \<times> trace_chain list"

definition recorded :: "tracer \<Rightarrow> recording" where
  "recorded t = (tr_seen t, tr_discovered t, tr_completed t)"

definition record_walk :: "recording \<Rightarrow> ended_walk \<Rightarrow> recording" where
  "record_walk r w =
     (case r of (seen, n, cs) \<Rightarrow>
       if length (fst w) \<le> 1 \<or> chain_key (fst w) \<in> seen then r
       else (insert (chain_key (fst w)) seen, Suc n, keep_chain (chain_of w) cs))"

definition finished :: "unit_codec \<Rightarrow> gdb \<Rightarrow> tracer \<Rightarrow> ended_walk list \<times> nat \<Rightarrow> tracer \<Rightarrow> bool" where
  "finished uc d t s t' \<longleftrightarrow> tracer_ok uc d t' \<and> tr_on_path t' = tr_on_path t \<and> tr_expansions t' = snd s \<and>
     recorded t' = foldl record_walk (recorded t) (fst s)"

lemma finish_records:
  "recorded (finish p l t) = record_walk (recorded t) (p, l)"
  "tr_expansions (finish p l t) = tr_expansions t" "tr_on_path (finish p l t) = tr_on_path t"
  "tracer_ok uc d (finish p l t) = tracer_ok uc d t"
  by (simp_all add: finish_def recorded_def record_walk_def chain_of_def Let_def tracer_ok_def)

lemma finish_finished: "tracer_ok uc d t \<Longrightarrow> tr_expansions t = n \<Longrightarrow> finished uc d t ([(p, l)], n) (finish p l t)"
  by (simp add: finished_def finish_records)

lemma finished_trans:
  "finished uc d t s t' \<Longrightarrow> finished uc d t' s' t'' \<Longrightarrow> finished uc d t (fst s @ fst s', snd s') t''"
  by (simp add: finished_def)

section \<open>The depth-first search\<close>

definition dfs_hop :: "unit_codec \<Rightarrow> call_codec \<Rightarrow> gdb \<Rightarrow> nat \<Rightarrow> trace_step list \<Rightarrow> rat \<Rightarrow> tracer \<Rightarrow> hop \<Rightarrow> tracer" where
  "dfs_hop uc mc d m path conf t h =
     (case service_for_unit uc d (hp_unit h) (tr_loader t) of (l, svc) \<Rightarrow>
        dfs uc mc d m (hp_unit h) (hp_tracked h) (path @ [step_of conf h svc]) (step_conf conf h) (t\<lparr> tr_loader := l \<rparr>))"

definition dfs_at :: "unit_codec \<Rightarrow> call_codec \<Rightarrow> gdb \<Rightarrow> nat \<Rightarrow> trace_step list \<Rightarrow> tracer \<Rightarrow> tracer" where
  "dfs_at uc mc d m p t = dfs uc mc d m (ts_unit (last p)) (ts_tracked (last p)) p (ts_conf (last p)) t"

lemma dfs_at_unfold:
  "dfs_at uc mc d m p t =
     (if length p > m then finish p note_depth_limit t
      else if node_key (last p) \<in> tr_on_path t then finish p [] t
      else if tr_expansions t \<ge> max_expansions then finish p note_budget_limit t
      else case expand_hops mc d (ts_unit (last p)) (ts_tracked (last p)) (t\<lparr> tr_expansions := Suc (tr_expansions t) \<rparr>) of (t, hops) \<Rightarrow>
        if hops = [] then finish p [] t
        else let t = foldl (dfs_hop uc mc d m p (ts_conf (last p))) (t\<lparr> tr_on_path := insert (node_key (last p)) (tr_on_path t) \<rparr>) hops
             in t\<lparr> tr_on_path := tr_on_path t - {node_key (last p)} \<rparr>)"
  unfolding dfs_at_def by (subst dfs.simps) (simp add: node_key_def dfs_hop_def [abs_def] Let_def split: prod.split)

lemma dfs_hop_at:
  assumes "tracer_ok uc d t"
  shows "\<exists>t'. dfs_hop uc mc d m p (ts_conf (last p)) t h = dfs_at uc mc d m (take_hop uc d p h) t' \<and> tracer_ok uc d t' \<and> same_record t t'"
proof -
  have "loader_sound uc d (tr_loader t)" using assms by (simp add: tracer_ok_def)
  from service_for_unit_pure [OF this, of "hp_unit h"] obtain l where
    "service_for_unit uc d (hp_unit h) (tr_loader t) = (l, graph_service_for_unit uc (hp_unit h) d)" "loader_sound uc d l" by blast
  then show ?thesis using assms
    by (intro exI [of _ "t\<lparr> tr_loader := l \<rparr>"]) (simp add: dfs_hop_def dfs_at_def take_hop_def step_of_def tracer_ok_def same_record_def)
qed

lemma finished_fold:
  assumes "\<And>t h. tracer_ok uc d t \<Longrightarrow> tr_on_path t = P \<Longrightarrow> finished uc d t (f h (tr_expansions t)) (g t h)"
  shows "tracer_ok uc d t \<Longrightarrow> tr_on_path t = P \<Longrightarrow> finished uc d t (gather f ([], tr_expansions t) hs) (foldl g t hs)"
proof (induction hs rule: rev_induct)
  case Nil
  then show ?case by (simp add: finished_def)
next
  case (snoc h hs)
  let ?t = "foldl g t hs" and ?s = "gather f ([], tr_expansions t) hs"
  have 1: "finished uc d t ?s ?t" using snoc by blast
  then have "tracer_ok uc d ?t" "tr_on_path ?t = P" "tr_expansions ?t = snd ?s" using snoc.prems by (simp_all add: finished_def)
  then have "finished uc d ?t (f h (snd ?s)) (g ?t h)" using assms [of ?t h] by simp
  from finished_trans [OF 1 this] show ?case by simp
qed

text \<open>The tracer does what the enumeration says.\<close>

lemma dfs_searches:
  assumes "valid_ids d"
  shows "p \<noteq> [] \<Longrightarrow> tracer_ok uc d t \<Longrightarrow> tr_on_path t = node_key ` set (butlast p) \<Longrightarrow>
    finished uc d t (search uc mc d m p (tr_expansions t)) (dfs_at uc mc d m p t)"
proof (induction p arbitrary: t rule: search_induct [where m = m and uc = uc and d = d])
  case (1 p)
  note ok = 1(3) and on_path = 1(4)
  consider (stop) "length p > m \<or> node_key (last p) \<in> tr_on_path t \<or> tr_expansions t \<ge> max_expansions"
    | (expand) "length p \<le> m" "node_key (last p) \<notin> tr_on_path t" "tr_expansions t < max_expansions" by linarith
  then show ?case
  proof cases
    case stop
    then show ?thesis using finish_finished [OF ok refl] on_path
      by (subst search_unfold, subst dfs_at_unfold) auto
  next
    case expand
    let ?k = "node_key (last p)" and ?t0 = "t\<lparr> tr_expansions := Suc (tr_expansions t) \<rparr>"
    have "tracer_ok uc d ?t0" using ok by (simp add: tracer_ok_def)
    from expand_hops_pure [OF assms this, of mc "ts_unit (last p)" "ts_tracked (last p)"]
    obtain t1 where t1: "expand_hops mc d (ts_unit (last p)) (ts_tracked (last p)) ?t0 = (t1, next_hops mc d p)" "tracer_ok uc d t1" "same_record ?t0 t1"
      by (cases "expand_hops mc d (ts_unit (last p)) (ts_tracked (last p)) ?t0") (auto simp: gives_def next_hops_def)
    have same: "tr_expansions t1 = Suc (tr_expansions t)" "tr_on_path t1 = tr_on_path t" "recorded t1 = recorded t"
      using t1(3) by (simp_all add: same_record_def recorded_def)
    show ?thesis
    proof (cases "next_hops mc d p = []")
      case True
      then have "dfs_at uc mc d m p t = finish p [] t1" using expand t1 by (subst dfs_at_unfold) simp
      moreover have "search uc mc d m p (tr_expansions t) = ([(p, [])], Suc (tr_expansions t))"
        using expand True on_path by (subst search_unfold) simp
      ultimately show ?thesis using t1(2) same by (simp add: finished_def finish_records)
    next
      case False
      let ?t2 = "t1\<lparr> tr_on_path := insert ?k (tr_on_path t) \<rparr>" and ?g = "dfs_hop uc mc d m p (ts_conf (last p))"
      let ?s = "gather (search_from uc mc d m p) ([], tr_expansions ?t2) (next_hops mc d p)"
      have keys: "insert ?k (tr_on_path t) = node_key ` set p"
        using on_path \<open>p \<noteq> []\<close> by (cases p rule: rev_cases) simp_all
      have "finished uc d t' (search_from uc mc d m p h (tr_expansions t')) (?g t' h)"
        if t': "tracer_ok uc d t'" "tr_on_path t' = node_key ` set p" for t' h
      proof -
        obtain t3 where t3: "?g t' h = dfs_at uc mc d m (take_hop uc d p h) t3" "tracer_ok uc d t3" "same_record t' t3"
          using dfs_hop_at [OF t'(1)] by blast
        have "finished uc d t3 (search uc mc d m (take_hop uc d p h) (tr_expansions t3)) (dfs_at uc mc d m (take_hop uc d p h) t3)"
          by (rule 1(1) [OF expand(1)]) (use t3 t' in \<open>simp_all add: take_hop_def same_record_def\<close>)
        then show ?thesis using t3 by (simp add: search_from_def finished_def same_record_def recorded_def)
      qed
      then have fin: "finished uc d ?t2 ?s (foldl ?g ?t2 (next_hops mc d p))"
        by (rule finished_fold [where P = "node_key ` set p"]) (use t1(2) keys in \<open>simp_all add: tracer_ok_def\<close>)
      have "dfs_at uc mc d m p t = (foldl ?g ?t2 (next_hops mc d p))\<lparr> tr_on_path := tr_on_path (foldl ?g ?t2 (next_hops mc d p)) - {?k} \<rparr>"
        using expand t1(1) False same by (subst dfs_at_unfold) (simp add: Let_def)
      moreover have "search uc mc d m p (tr_expansions t) = ?s"
        using expand False on_path same by (subst search_unfold) simp
      moreover have "tr_on_path ?t2 - {?k} = tr_on_path t" using expand by simp
      ultimately show ?thesis using fin same by (simp add: finished_def recorded_def tracer_ok_def)
    qed
  qed
qed

section \<open>Keeping the best\<close>

interpretation trace_order: lt_order better_trace_chain
  by unfold_locales (auto simp: better_trace_chain_def better_chain_def Let_def split: if_splits)

definition worst_before :: "trace_chain list \<Rightarrow> nat \<Rightarrow> nat" where
  "worst_before cs k = foldl (\<lambda>worst i. if better_trace_chain (cs ! worst) (cs ! i) then i else worst) 0 [1..<k]"

lemma worst_before_step:
  "worst_before cs (Suc (Suc k)) =
    (if better_trace_chain (cs ! worst_before cs (Suc k)) (cs ! Suc k) then Suc k else worst_before cs (Suc k))"
  by (simp add: worst_before_def)

lemma worst_before_ok:
  "worst_before cs (Suc k) < Suc k \<and> (\<forall>i < Suc k. \<not> better_trace_chain (cs ! worst_before cs (Suc k)) (cs ! i))"
proof (induction k)
  case 0
  then show ?case by (simp add: worst_before_def trace_order.lt_irrefl)
next
  case (Suc k)
  let ?w = "worst_before cs (Suc k)"
  show ?case
  proof (cases "better_trace_chain (cs ! ?w) (cs ! Suc k)")
    case True
    have "\<not> better_trace_chain (cs ! Suc k) (cs ! i)" if "i < Suc (Suc k)" for i
    proof (cases "i = Suc k")
      case True
      then show ?thesis by (simp add: trace_order.lt_irrefl)
    next
      case False
      then have "\<not> better_trace_chain (cs ! ?w) (cs ! i)" using Suc that by simp
      then show ?thesis using True trace_order.lt_trans by blast
    qed
    then show ?thesis using True by (simp only: worst_before_step if_True) simp
  next
    case False
    then show ?thesis using Suc by (simp only: worst_before_step if_False) (simp add: less_Suc_eq)
  qed
qed

lemma worst_is_worst:
  assumes "cs \<noteq> []"
  shows "worst_chain cs < length cs \<and> (\<forall>i < length cs. \<not> better_trace_chain (cs ! worst_chain cs) (cs ! i))"
proof -
  have "worst_chain cs = worst_before cs (length cs)" by (simp only: worst_chain_def worst_before_def)
  then show ?thesis using worst_before_ok [of cs "length cs - 1"] assms by simp
qed

text \<open>What has been kept and what has been dropped: nothing dropped is better than anything kept.\<close>

definition best_kept :: "trace_chain list \<Rightarrow> trace_chain list \<Rightarrow> bool" where
  "best_kept offered kept \<longleftrightarrow> length kept \<le> max_completed_chains \<and>
     (\<exists>dropped. mset offered = mset kept + dropped \<and> (\<forall>c \<in># dropped. \<forall>k \<in> set kept. \<not> better_trace_chain c k) \<and>
       (length kept < max_completed_chains \<longrightarrow> dropped = {#}))"

lemma keep_chain_best:
  assumes "best_kept offered kept"
  shows "best_kept (offered @ [c]) (keep_chain c kept)"
proof -
  obtain dropped where len: "length kept \<le> max_completed_chains" and split: "mset offered = mset kept + dropped"
    and no_better: "\<forall>c \<in># dropped. \<forall>k \<in> set kept. \<not> better_trace_chain c k"
    and full: "length kept < max_completed_chains \<longrightarrow> dropped = {#}"
    using assms by (auto simp: best_kept_def)
  show ?thesis
  proof (cases "length kept < max_completed_chains")
    case True
    then show ?thesis using split full by (simp add: best_kept_def keep_chain_def)
  next
    case False
    let ?w = "worst_chain kept"
    have "kept \<noteq> []" using False by (auto simp: max_completed_chains_def)
    note w = worst_is_worst [OF this]
    then have worst: "\<forall>k \<in> set kept. \<not> better_trace_chain (kept ! ?w) k" by (auto simp: in_set_conv_nth)
    show ?thesis
    proof (cases "better_trace_chain c (kept ! ?w)")
      case True
      have "mset (kept[?w := c]) = add_mset c (mset kept - {#kept ! ?w#})" using w by (simp add: mset_update)
      moreover have "kept ! ?w \<in># mset kept" using w by simp
      ultimately have "mset (offered @ [c]) = mset (kept[?w := c]) + add_mset (kept ! ?w) dropped" using split by simp
      moreover have "\<forall>k \<in> set (kept[?w := c]). \<not> better_trace_chain x k" if x: "x = kept ! ?w \<or> x \<in># dropped" for x
      proof
        fix k
        assume "k \<in> set (kept[?w := c])"
        then have k: "k = c \<or> k \<in> set kept" using set_update_subset_insert by fastforce
        have "\<not> better_trace_chain x (kept ! ?w)" using x worst no_better w trace_order.lt_irrefl nth_mem by metis
        moreover have "\<forall>k \<in> set kept. \<not> better_trace_chain x k" using x worst no_better by blast
        ultimately show "\<not> better_trace_chain x k" using k True trace_order.lt_trans by blast
      qed
      ultimately show ?thesis using False len True by (auto simp: best_kept_def keep_chain_def Let_def)
    next
      case no: False
      have "mset (offered @ [c]) = mset kept + add_mset c dropped" using split by simp
      moreover have "\<forall>k \<in> set kept. \<not> better_trace_chain c k" using no worst trace_order.not_lt_trans by blast
      ultimately show ?thesis using False len no no_better by (auto simp: best_kept_def keep_chain_def Let_def)
    qed
  qed
qed

fun new_walks :: "string set \<Rightarrow> ended_walk list \<Rightarrow> ended_walk list" where
  "new_walks seen [] = []"
| "new_walks seen (w # ws) =
     (if length (fst w) \<le> 1 \<or> chain_key (fst w) \<in> seen then new_walks seen ws
      else w # new_walks (insert (chain_key (fst w)) seen) ws)"

lemma record_walks:
  "foldl record_walk (seen, n, cs) ws =
    (seen \<union> (chain_key \<circ> fst) ` set (new_walks seen ws), n + length (new_walks seen ws), foldl (\<lambda>cs c. keep_chain c cs) cs (map chain_of (new_walks seen ws)))"
  by (induction ws arbitrary: seen n cs) (auto simp: record_walk_def)

lemma new_walks_sub: "w \<in> set (new_walks seen ws) \<Longrightarrow> w \<in> set ws \<and> 1 < length (fst w) \<and> chain_key (fst w) \<notin> seen"
  by (induction ws arbitrary: seen) (auto split: if_splits)

lemma new_walks_cover:
  "w \<in> set ws \<Longrightarrow> 1 < length (fst w) \<Longrightarrow> chain_key (fst w) \<notin> seen \<Longrightarrow> \<exists>v \<in> set (new_walks seen ws). chain_key (fst v) = chain_key (fst w)"
proof (induction ws arbitrary: seen)
  case (Cons v ws)
  show ?case
  proof (cases "length (fst v) \<le> 1 \<or> chain_key (fst v) \<in> seen")
    case True
    then show ?thesis using Cons by auto
  next
    case False
    then show ?thesis using Cons by (cases "chain_key (fst w) = chain_key (fst v)") auto
  qed
qed simp

lemma new_walks_distinct: "distinct (map (chain_key \<circ> fst) (new_walks seen ws))"
  by (induction ws arbitrary: seen) (auto dest: new_walks_sub)

lemma kept_of_fold: "best_kept cs (foldl (\<lambda>cs c. keep_chain c cs) [] cs)"
  by (induction cs rule: rev_induct) (auto intro: keep_chain_best simp: best_kept_def [of "[]"])

section \<open>Hops are stored edges\<close>

definition hop_ok :: "gdb \<Rightarrow> ast_unit \<Rightarrow> hop \<Rightarrow> bool" where
  "hop_ok d u h \<longleftrightarrow> hp_edge h \<in> set (g_edges d) \<and> hp_unit h \<in> set (g_units d) \<and>
     (e_src (hp_edge h), e_dst (hp_edge h)) \<in> {(u_id u, u_id (hp_unit h)), (u_id (hp_unit h), u_id u)} \<and>
     hp_factor h \<in> {1, conf_heuristic, conf_weak}"

lemma edges_from_stored: "e \<in> set (edges_from d i kind) \<Longrightarrow> e \<in> set (g_edges d) \<and> (i \<noteq> 0 \<longrightarrow> e_src e = i)"
  by (auto simp: edges_from_def get_edges_def edge_selected_def any_opts_def limited_def)

lemma edges_into_stored: "e \<in> set (edges_into d i kind) \<Longrightarrow> e \<in> set (g_edges d) \<and> (i \<noteq> 0 \<longrightarrow> e_dst e = i)"
  by (auto simp: edges_into_def get_edges_def edge_selected_def any_opts_def limited_def)

definition want_ok :: "(edge \<Rightarrow> nat) \<Rightarrow> (edge \<Rightarrow> (nat \<times> (ast_unit \<Rightarrow> hop)) option) \<Rightarrow> bool" where
  "want_ok far want \<longleftrightarrow> (\<forall>e i mk. want e = Some (i, mk) \<longrightarrow> i = far e \<and>
     (\<forall>u. hp_edge (mk u) = e \<and> hp_unit (mk u) = u \<and> hp_factor (mk u) \<in> {1, conf_heuristic, conf_weak}))"

lemma hop_to_simps [simp]:
  "hp_edge (hop_to e tracked note f u) = e" "hp_unit (hop_to e tracked note f u) = u" "hp_factor (hop_to e tracked note f u) = f"
  by (simp_all add: hop_to_def)

lemma wants_ok: "want_ok e_src (impl_want u tracked)" "want_ok e_dst (handler_want u tracked)" "want_ok e_dst (edge_want mc tracked)"
proof -
  show "want_ok e_src (impl_want u tracked)" "want_ok e_dst (handler_want u tracked)"
    by (auto simp: want_ok_def impl_want_def handler_want_def)
  have "hp_edge (mk v) = e \<and> hp_unit (mk v) = v \<and> hp_factor (mk v) \<in> {1, conf_heuristic, conf_weak}" if "edge_hop mc tracked e = Some mk" for e mk v
    using that
    by (auto simp: edge_hop_def call_hop_def request_hop_def flow_hop_def write_hop_def Let_def split: if_splits option.splits)
  then show "want_ok e_dst (edge_want mc tracked)" by (simp add: want_ok_def edge_want_def)
qed

lemma wanted_hops_ok:
  assumes "want_ok far want" and "h \<in> set (wanted_hops d want es)"
  shows "hp_edge h \<in> set es \<and> hp_unit h \<in> set (g_units d) \<and> u_id (hp_unit h) = far (hp_edge h) \<and> hp_factor h \<in> {1, conf_heuristic, conf_weak}"
proof -
  obtain e i mk u where h: "e \<in> set es" "want e = Some (i, mk)" "lookup_unit d i = Some u" "h = mk u"
    using assms(2) by (auto simp: wanted_hops_def set_map_filter split: option.splits)
  then show ?thesis using assms(1) lookup_in [OF h(3)] by (simp add: want_ok_def)
qed

lemma reader_hops_ok:
  "h \<in> set (reader_hops d table tracked es seen) \<Longrightarrow>
    hp_edge h \<in> set es \<and> hp_unit h \<in> set (g_units d) \<and> u_id (hp_unit h) = e_src (hp_edge h) \<and> hp_factor h = conf_weak"
proof (induction es arbitrary: seen)
  case (Cons e es)
  show ?case
  proof (cases "h \<in> set (reader_hops d table tracked es seen) \<or> h \<in> set (reader_hops d table tracked es (insert (e_src e) seen))")
    case True
    then show ?thesis using Cons.IH by auto
  next
    case False
    then obtain u where "lookup_unit d (e_src e) = Some u" "h = reader_hop table tracked e u"
      using Cons.prems by (auto split: if_splits option.splits)
    then show ?thesis using lookup_in by (simp add: reader_hop_def)
  qed
qed simp

lemma hops_ok:
  assumes "u_id u \<noteq> 0" and "h \<in> set (hops_of mc d u tracked)"
  shows "hop_ok d u h"
proof -
  consider "h \<in> set (wanted_hops d (impl_want u tracked) (edges_into d (u_id u) ''implements_rpc''))"
    | "h \<in> set (wanted_hops d (handler_want u tracked) (edges_from d (u_id u) ''handled_by''))"
    | "h \<in> set (reader_hops d u tracked (edges_into d (u_id u) ''reads_from'') {})"
    | "h \<in> set (wanted_hops d (edge_want mc tracked) (edges_from d (u_id u) []))"
    using assms(2) unfolding hops_of_def by presburger
  then show ?thesis
  proof cases
    case 1
    then show ?thesis using wanted_hops_ok [OF wants_ok(1) 1] edges_into_stored assms(1) by (fastforce simp: hop_ok_def)
  next
    case 2
    then show ?thesis using wanted_hops_ok [OF wants_ok(2) 2] edges_from_stored assms(1) by (fastforce simp: hop_ok_def)
  next
    case 3
    then show ?thesis using reader_hops_ok [OF 3] edges_into_stored assms(1) by (fastforce simp: hop_ok_def)
  next
    case 4
    then show ?thesis using wanted_hops_ok [OF wants_ok(3) 4] edges_from_stored assms(1) by (fastforce simp: hop_ok_def)
  qed
qed

text \<open>One step of a chain: along a stored edge, with a confidence that does not rise.\<close>

definition linked :: "gdb \<Rightarrow> trace_step \<Rightarrow> trace_step \<Rightarrow> bool" where
  "linked d a b \<longleftrightarrow> ts_unit b \<in> set (g_units d) \<and> 0 \<le> ts_conf b \<and> ts_conf b \<le> ts_conf a \<and>
     (\<exists>e \<in> set (g_edges d). ts_via b = e_kind e \<and> ts_line b = e_line e \<and>
       (e_src e, e_dst e) \<in> {(u_id (ts_unit a), u_id (ts_unit b)), (u_id (ts_unit b), u_id (ts_unit a))})"

definition fair_edges :: "gdb \<Rightarrow> bool" where
  "fair_edges d \<longleftrightarrow> (\<forall>e \<in> set (g_edges d). 0 \<le> e_conf e \<and> e_conf e \<le> 1)"

lemma factor_range: "f \<in> {1, conf_heuristic, conf_weak} \<Longrightarrow> 0 \<le> f \<and> f \<le> 1"
  by (auto simp: conf_heuristic_def conf_weak_def intro: f32.rnd_nonneg f32.rnd_le_1)

lemma scaled_down:
  assumes "f32.representable c" and "0 \<le> c" and "0 \<le> x" and "x \<le> 1"
  shows "0 \<le> f32 (c * x) \<and> f32 (c * x) \<le> c"
  using assms by (intro conjI f32.rnd_nonneg f32.rnd_le) (simp_all add: mult_left_le)

lemma step_conf_down:
  assumes "f32.representable c" and "0 \<le> c" and "fair_edges d" and "hop_ok d u h"
  shows "f32.representable (step_conf c h) \<and> 0 \<le> step_conf c h \<and> step_conf c h \<le> c"
proof -
  have "0 \<le> e_conf (hp_edge h) \<and> e_conf (hp_edge h) \<le> 1" using assms(3,4) by (simp add: fair_edges_def hop_ok_def)
  then have 1: "0 \<le> f32 (c * e_conf (hp_edge h)) \<and> f32 (c * e_conf (hp_edge h)) \<le> c" using scaled_down [OF assms(1,2)] by simp
  have "0 \<le> hp_factor h \<and> hp_factor h \<le> 1" using assms(4) factor_range by (simp only: hop_ok_def)
  then have "0 \<le> step_conf c h \<and> step_conf c h \<le> f32 (c * e_conf (hp_edge h))"
    unfolding step_conf_def using 1 by (intro scaled_down) simp_all
  then show ?thesis using 1 by (simp add: step_conf_def)
qed

definition sound_chain :: "gdb \<Rightarrow> trace_step \<Rightarrow> trace_step list \<Rightarrow> bool" where
  "sound_chain d st p \<longleftrightarrow> p \<noteq> [] \<and> successively (linked d) p \<and> ts_unit (hd p) = ts_unit st \<and> ts_tracked (hd p) = ts_tracked st"

lemma leads_sound:
  assumes "valid_ids d" and "fair_edges d" and "ts_unit st \<in> set (g_units d)" and "ts_conf st = 1"
  shows "leads uc mc d m [st] q \<Longrightarrow> sound_chain d st q \<and> length q \<le> Suc m \<or> q = [st]"
    and "leads uc mc d m [st] q \<Longrightarrow> q \<noteq> [] \<and> f32.representable (ts_conf (last q)) \<and> 0 \<le> ts_conf (last q) \<and> ts_unit (last q) \<in> set (g_units d)"
proof -
  have both: "leads uc mc d m [st] q \<Longrightarrow> sound_chain d st q \<and> (length q \<le> Suc m \<or> q = [st]) \<and>
      f32.representable (ts_conf (last q)) \<and> 0 \<le> ts_conf (last q) \<and> ts_unit (last q) \<in> set (g_units d)"
  proof (induction rule: leads.induct)
    case leads_self
    then show ?case using assms(3,4) by (simp add: sound_chain_def f32.representable_def)
  next
    case (leads_step q h)
    have "u_id (ts_unit (last q)) \<noteq> 0" using assms(1) leads_step.IH by (auto simp: valid_ids_def)
    then have ok: "hop_ok d (ts_unit (last q)) h" using hops_ok leads_step.hyps(3) by (simp add: next_hops_def)
    note conf = step_conf_down [OF _ _ assms(2) ok, of "ts_conf (last q)"]
    have "length q \<le> m" using leads_step.hyps(2) by (simp add: ending_def split: if_splits)
    moreover have "linked d (last q) (step_of (ts_conf (last q)) h (graph_service_for_unit uc (hp_unit h) d))"
      using ok conf leads_step.IH by (auto simp: linked_def step_of_def hop_ok_def)
    ultimately show ?case using leads_step.IH conf ok
      by (auto simp: take_hop_def sound_chain_def successively_append_iff step_of_def hop_ok_def)
  qed
  show "leads uc mc d m [st] q \<Longrightarrow> sound_chain d st q \<and> length q \<le> Suc m \<or> q = [st]"
    and "leads uc mc d m [st] q \<Longrightarrow> q \<noteq> [] \<and> f32.representable (ts_conf (last q)) \<and> 0 \<le> ts_conf (last q) \<and> ts_unit (last q) \<in> set (g_units d)"
    using both by (auto simp: sound_chain_def)
qed

lemma with_note_sound:
  assumes "sound_chain d st p"
  shows "sound_chain d st (with_note p note) \<and> length (with_note p note) = length p"
proof (cases p rule: rev_cases)
  case Nil
  then show ?thesis using assms by (simp add: sound_chain_def)
next
  case (snoc q l)
  have "successively (linked d) (q @ [l\<lparr> ts_note := x \<rparr>]) = successively (linked d) (q @ [l])" for x
    by (simp only: successively_append_iff) (simp add: linked_def)
  then show ?thesis using assms snoc by (cases q) (simp_all add: sound_chain_def with_note_def Let_def del: successively.simps append_Cons)
qed

end
