(* ===== verification/Graph_Trace_Report.thy ===== *)
theory Graph_Trace_Report
  imports Graph_Trace_Props
begin

text \<open>The properties of a whole trace, read off the enumeration of its flows.\<close>

section \<open>From the request to the enumeration\<close>

lemma unit_rows_stored: "u \<in> set (get_ast_units opts d) \<Longrightarrow> u \<in> set (g_units d)"
  by (auto simp: get_ast_units_def select_units_def limited_def Let_def split: if_splits dest: in_set_takeD)

lemma find_unit_stored:
  assumes "find_unit repo nm d = Inr u"
  shows "u \<in> set (g_units d)"
proof -
  define us where "us = (let named = get_ast_units (any_opts\<lparr> o_repo := repo, o_name := nm, o_limit := 10 \<rparr>) d
    in if length named = 0 then get_ast_units (any_opts\<lparr> o_repo := repo, o_qualified := nm, o_limit := 10 \<rparr>) d else named)"
  have sub: "set us \<subseteq> set (g_units d)" using unit_rows_stored by (auto simp: us_def Let_def)
  have run: "find_unit repo nm d = (if length us = 0 then Inl ErrNotFound
      else case List.find (\<lambda>u. u_kind u = ''function'' \<or> u_kind u = ''method'') us of Some u \<Rightarrow> Inr u | None \<Rightarrow> Inr (hd us))"
    by (simp only: find_unit_def us_def Let_def)
  show ?thesis
  proof (cases "List.find (\<lambda>u. u_kind u = ''function'' \<or> u_kind u = ''method'') us")
    case None
    then show ?thesis using assms run sub hd_in_set [of us] by (auto split: if_splits)
  next
    case (Some v)
    then show ?thesis using assms run sub find_SomeD [OF Some] by (auto split: if_splits)
  qed
qed

definition trace_start :: "unit_codec \<Rightarrow> gdb \<Rightarrow> string \<Rightarrow> ast_unit \<Rightarrow> trace_step" where
  "trace_start uc d param u = start_step u (graph_service_for_unit uc u d) param"

text \<open>How many nodes a trace expands.\<close>

definition trace_expansions :: "unit_codec \<Rightarrow> call_codec \<Rightarrow> trace_request \<Rightarrow> gdb \<Rightarrow> ast_unit \<Rightarrow> nat" where
  "trace_expansions uc mc req d u =
     (case service_for_unit uc d u new_loader of (l, svc) \<Rightarrow>
        tr_expansions (dfs uc mc d (trace_depth (rq_max_depth req)) u [rq_param req] [start_step u svc (rq_param req)] 1 (new_tracer l)))"

lemma trace_searches:
  assumes "valid_ids d" and "find_unit (rq_repo req) (rq_symbol req) d = Inr u"
  shows "\<exists>ws. search uc mc d (trace_depth (rq_max_depth req)) [trace_start uc d (rq_param req) u] 0 = (ws, trace_expansions uc mc req d u) \<and>
    trace uc mc req d = Inr (report (rq_param req) (trace_start uc d (rq_param req) u) (length (new_walks {} ws))
      (foldl (\<lambda>cs c. keep_chain c cs) [] (map chain_of (new_walks {} ws))))"
proof -
  let ?st = "trace_start uc d (rq_param req) u" and ?m = "trace_depth (rq_max_depth req)"
  obtain l where l: "service_for_unit uc d u new_loader = (l, graph_service_for_unit uc u d)" "loader_sound uc d l"
    using service_for_unit_pure [OF new_loader_ok] by blast
  let ?t = "dfs uc mc d ?m u [rq_param req] [?st] 1 (new_tracer l)"
  obtain ws n where s: "search uc mc d ?m [?st] 0 = (ws, n)" by fastforce
  have at: "?t = dfs_at uc mc d ?m [?st] (new_tracer l)" by (simp add: dfs_at_def trace_start_def start_step_def)
  have "finished uc d (new_tracer l) (search uc mc d ?m [?st] (tr_expansions (new_tracer l))) (dfs_at uc mc d ?m [?st] (new_tracer l))"
    by (rule dfs_searches [OF assms(1)]) (simp_all add: new_tracer_def tracer_ok_def memo_ok_def l(2))
  then have "tr_expansions ?t = n" "recorded ?t = foldl record_walk ({}, 0, []) ws"
    using s at by (simp_all add: finished_def new_tracer_def recorded_def)
  then have fin: "tr_expansions ?t = n" "tr_discovered ?t = length (new_walks {} ws)"
      "tr_completed ?t = foldl (\<lambda>cs c. keep_chain c cs) [] (map chain_of (new_walks {} ws))"
    by (simp_all add: record_walks recorded_def)
  then show ?thesis using s l assms(2)
    by (simp add: trace_expansions_def trace_def Let_def trace_start_def [symmetric])
qed

lemma alternatives_from:
  "length alts \<le> max_alternatives \<Longrightarrow>
    length (alternatives best cs alts) \<le> max_alternatives \<and>
    (\<forall>a \<in> set (alternatives best cs alts). a \<in> set alts \<or> a \<in> tc_steps ` set cs \<and> \<not> is_prefix_chain a best)"
proof (induction cs arbitrary: alts)
  case (Cons c cs)
  then show ?case using Cons.IH [of alts] Cons.IH [of "alts @ [tc_steps c]"] by (auto split: if_splits)
qed simp

text \<open>What is reported, in terms of the chains kept.\<close>

lemma report_cases:
  assumes "kept \<noteq> []"
  shows "\<exists>best \<in> set kept. rt_steps (report param st n kept) = tc_steps best \<and> (\<forall>c \<in> set kept. \<not> better_trace_chain c best) \<and>
    rt_chains (report param st n kept) = n \<and> length (rt_alternatives (report param st n kept)) \<le> max_alternatives \<and>
    (\<forall>a \<in> set (rt_alternatives (report param st n kept)). a \<in> tc_steps ` set kept \<and> \<not> is_prefix_chain a (tc_steps best))"
proof -
  obtain best cs where sorted: "sort_lt better_trace_chain kept = best # cs"
    using assms set_sort_lt [of better_trace_chain kept] by (cases "sort_lt better_trace_chain kept") auto
  have top: "\<forall>c \<in> set cs. \<not> better_trace_chain c best"
    using trace_order.in_order_sort [of kept] trace_order.in_order_hd unfolding sorted by blast
  have elems: "set kept = insert best (set cs)" using set_sort_lt [of better_trace_chain kept] sorted by simp
  have "length (alternatives (tc_steps best) cs []) \<le> max_alternatives \<and>
      (\<forall>a \<in> set (alternatives (tc_steps best) cs []). a \<in> tc_steps ` set cs \<and> \<not> is_prefix_chain a (tc_steps best))"
    using alternatives_from [of "[]"] by simp
  then show ?thesis using sorted top elems trace_order.lt_irrefl
    by (intro bexI [of _ best]) (auto simp: report_def)
qed

section \<open>The properties\<close>

text \<open>A complete flow of at least one hop, and how it ended.\<close>

definition flow :: "unit_codec \<Rightarrow> call_codec \<Rightarrow> gdb \<Rightarrow> nat \<Rightarrow> trace_step \<Rightarrow> ended_walk \<Rightarrow> bool" where
  "flow uc mc d m st w \<longleftrightarrow> leads uc mc d m [st] (fst w) \<and> ending mc d m (fst w) = Some (snd w) \<and> 1 < length (fst w)"

lemma found_flows:
  assumes "search uc mc d m [st] 0 = (ws, n)" and "n < max_expansions"
  shows "w \<in> set (new_walks {} ws) \<Longrightarrow> flow uc mc d m st w"
    and "flow uc mc d m st w \<Longrightarrow> \<exists>v \<in> set (new_walks {} ws). chain_key (fst v) = chain_key (fst w)"
proof -
  show "flow uc mc d m st w" if "w \<in> set (new_walks {} ws)"
  proof -
    have "w \<in> set ws" "1 < length (fst w)" using new_walks_sub [OF that] by simp_all
    moreover have "snd w \<noteq> note_budget_limit" using search_uncut [of uc mc d m "[st]" 0 "fst w"] assms \<open>w \<in> set ws\<close> by (cases w) auto
    moreover have "leads uc mc d m [st] (fst w) \<and> (ending mc d m (fst w) = Some (snd w) \<or> snd w = note_budget_limit)"
      by (rule bspec [OF search_sound [of uc mc d m "[st]" 0]]) (simp add: assms(1) \<open>w \<in> set ws\<close>)
    ultimately show ?thesis by (simp add: flow_def)
  qed
  show "\<exists>v \<in> set (new_walks {} ws). chain_key (fst v) = chain_key (fst w)" if w: "flow uc mc d m st w"
  proof (rule new_walks_cover)
    show "w \<in> set ws" using search_complete [of uc mc d m "[st]" "fst w" "snd w" 0] w assms by (simp add: flow_def)
    show "1 < length (fst w)" using w by (simp add: flow_def)
  qed simp
qed

lemma keys_covered:
  assumes "\<And>w. w \<in> set n \<Longrightarrow> w \<in> F" and "\<And>w. w \<in> F \<Longrightarrow> \<exists>v \<in> set n. k v = k w"
  shows "k ` F = set (map k n)"
proof
  show "set (map k n) \<subseteq> k ` F" using assms(1) by auto
  show "k ` F \<subseteq> set (map k n)"
  proof
    fix x
    assume "x \<in> k ` F"
    then obtain w where "w \<in> F" "x = k w" by blast
    then obtain v where "v \<in> set n" "k v = x" using assms(2) [of w] by blast
    then show "x \<in> set (map k n)" by (simp add: image_iff) blast
  qed
qed

lemma kept_some: "cs \<noteq> [] \<Longrightarrow> foldl (\<lambda>cs c. keep_chain c cs) [] cs \<noteq> []"
  using kept_of_fold [of cs] by (auto simp: best_kept_def max_completed_chains_def)

lemma kept_sub: "set (foldl (\<lambda>cs c. keep_chain c cs) [] cs) \<subseteq> set cs"
  using kept_of_fold [of cs] by (metis best_kept_def mset_subset_eq_add_left set_mset_mono set_mset_mset)

lemma kept_top:
  assumes "best \<in> set (foldl (\<lambda>cs c. keep_chain c cs) [] cs)" and "\<forall>c \<in> set (foldl (\<lambda>cs c. keep_chain c cs) [] cs). \<not> better_trace_chain c best"
    and "c \<in> set cs"
  shows "\<not> better_trace_chain c best"
proof -
  let ?k = "foldl (\<lambda>cs c. keep_chain c cs) [] cs"
  obtain dropped where d: "mset cs = mset ?k + dropped" "\<forall>c \<in># dropped. \<forall>k \<in> set ?k. \<not> better_trace_chain c k"
    using kept_of_fold [of cs] by (auto simp: best_kept_def)
  have "c \<in># mset ?k + dropped" using assms(3) d(1) by (metis set_mset_mset)
  then show ?thesis using d(2) assms(1,2) by auto
qed


definition trace_db :: gdb where
  "trace_db = empty_gdb\<lparr> g_units := [(demo_unit 7 ''r'' ''f'' ''a.f'' [])\<lparr> u_kind := ''function'', u_signature := ''(id int)'' \<rparr>,
       (demo_unit 8 ''r'' ''g'' ''a.g'' [])\<lparr> u_kind := ''function'', u_signature := ''(user int)'' \<rparr>],
     g_edges := [(demo_edge 3 7 ''g'')\<lparr> e_dst := 8, e_kind := ''call'', e_meta := ''m'', e_conf := 1 \<rparr>] \<rparr>"

definition trace_db_args :: call_codec where
  "trace_db_args s = no_call_meta\<lparr> cm_args := [''id''] \<rparr>"

definition trace_db_meta :: unit_codec where
  "trace_db_meta s = \<lparr> um_root = [], um_detected_by = [] \<rparr>"

definition trace_ask :: trace_request where
  "trace_ask = \<lparr> rq_repo = ''r'', rq_symbol = ''f'', rq_param = ''id'', rq_max_depth = 0 \<rparr>"

lemma trace_db_valid: "valid_ids trace_db"
  by (simp add: valid_ids_def trace_db_def demo_unit_def)

text \<open>In the example the identifier is passed on once: there is one chain, of two steps.\<close>

lemma trace_db_start: "find_unit (rq_repo trace_ask) (rq_symbol trace_ask) trace_db = Inr (g_units trace_db ! 0)"
  by code_simp

lemma trace_db_work: "trace_expansions trace_db_meta trace_db_args trace_ask trace_db (g_units trace_db ! 0) < max_expansions"
  by code_simp


lemma search_bounded: "n \<le> max_expansions \<Longrightarrow> snd (search uc mc d m p n) \<le> max_expansions"
proof (induction p arbitrary: n rule: search_induct [where m = m and uc = uc and d = d])
  case (1 p)
  have each: "length p \<le> m \<Longrightarrow> snd s \<le> max_expansions \<Longrightarrow> snd (gather (search_from uc mc d m p) s hs) \<le> max_expansions" for s hs
    by (induction hs arbitrary: s) (simp_all add: search_from_def 1(1))
  show ?case using 1(2) each [of "([], Suc n)"] by (subst search_unfold) simp
qed

text \<open>
  C38: The work of a trace is bounded whatever the graph: it ends, with at most five thousand expansions, at most
  sixty-four chains kept, none of them kept without being counted, and nothing left on the current path.
\<close>
theorem trace_work_is_bounded:
  assumes "valid_ids d"
  shows "let t = dfs uc mc d m u [param] [start_step u svc param] 1 (new_tracer new_loader) in
    tr_expansions t \<le> max_expansions \<and> length (tr_completed t) \<le> max_completed_chains \<and>
    length (tr_completed t) \<le> tr_discovered t \<and> card (tr_seen t) = tr_discovered t \<and> tr_on_path t = {}"
proof -
  let ?st = "start_step u svc param"
  let ?t = "dfs uc mc d m u [param] [?st] 1 (new_tracer new_loader)"
  obtain ws n where s: "search uc mc d m [?st] 0 = (ws, n)" by fastforce
  have at: "?t = dfs_at uc mc d m [?st] (new_tracer new_loader)" by (simp add: dfs_at_def start_step_def)
  have "finished uc d (new_tracer new_loader) (search uc mc d m [?st] (tr_expansions (new_tracer new_loader))) (dfs_at uc mc d m [?st] (new_tracer new_loader))"
    by (rule dfs_searches [OF assms]) (simp_all add: new_tracer_def tracer_ok_def memo_ok_def new_loader_ok)
  then have fin: "tr_expansions ?t = n" "tr_on_path ?t = {}" "recorded ?t = foldl record_walk ({}, 0, []) ws"
    using s at by (simp_all add: finished_def new_tracer_def recorded_def)
  then have rec: "tr_discovered ?t = length (new_walks {} ws)" "tr_seen ?t = (chain_key \<circ> fst) ` set (new_walks {} ws)"
      "tr_completed ?t = foldl (\<lambda>cs c. keep_chain c cs) [] (map chain_of (new_walks {} ws))"
    by (simp_all add: record_walks recorded_def)
  have best: "best_kept (map chain_of (new_walks {} ws)) (tr_completed ?t)" using kept_of_fold rec(3) by simp
  then have "length (tr_completed ?t) \<le> max_completed_chains" by (simp add: best_kept_def)
  moreover have "length (tr_completed ?t) \<le> tr_discovered ?t"
    using best rec(1) by (auto simp: best_kept_def dest: arg_cong [of _ _ size])
  moreover have "card (tr_seen ?t) = tr_discovered ?t"
    using new_walks_distinct [of "{}" ws] rec(1,2) by (metis distinct_card length_map set_map)
  moreover have "tr_expansions ?t \<le> max_expansions" using search_bounded [of 0 uc mc d m "[?st]"] s fin(1) by simp
  ultimately show ?thesis using fin(2) by (simp add: Let_def)
qed

theorem trace_work_is_bounded_witness:
  "let t = dfs trace_db_meta trace_db_args trace_db 16 (g_units trace_db ! 0) [''id''] [start_step (g_units trace_db ! 0) ''r'' ''id''] 1 (new_tracer new_loader) in
    tr_expansions t \<le> max_expansions \<and> length (tr_completed t) \<le> max_completed_chains \<and>
    length (tr_completed t) \<le> tr_discovered t \<and> card (tr_seen t) = tr_discovered t \<and> tr_on_path t = {}"
  by (rule trace_work_is_bounded [OF trace_db_valid])

text \<open>
  C37: Every chain a trace reports starts at the symbol asked for with the parameter asked for, and goes from step to
  step along a stored edge between the two units, with a confidence that never rises; it is no longer than the depth
  limit allows, and there are at most four alternatives.
\<close>
theorem traced_chains_are_sound:
  assumes "valid_ids d" and "fair_edges d" and "trace uc mc req d = Inr r"
  shows "length (rt_alternatives r) \<le> max_alternatives \<and>
    (\<forall>p \<in> set (rt_steps r # rt_alternatives r). length p \<le> Suc (trace_depth (rq_max_depth req)) \<and>
      (\<exists>u. find_unit (rq_repo req) (rq_symbol req) d = Inr u \<and> sound_chain d (trace_start uc d (rq_param req) u) p))"
proof -
  obtain u where u: "find_unit (rq_repo req) (rq_symbol req) d = Inr u"
    using assms(3) by (auto simp: trace_def split: sum.splits)
  let ?m = "trace_depth (rq_max_depth req)" and ?st = "trace_start uc d (rq_param req) u"
  let ?keep = "\<lambda>cs. foldl (\<lambda>cs c. keep_chain c cs) [] cs"
  obtain ws where ws: "search uc mc d ?m [?st] 0 = (ws, trace_expansions uc mc req d u)"
    and run: "trace uc mc req d = Inr (report (rq_param req) ?st (length (new_walks {} ws)) (?keep (map chain_of (new_walks {} ws))))"
    using trace_searches [OF assms(1) u] by blast
  have stored: "ts_unit ?st \<in> set (g_units d)" "ts_conf ?st = 1"
    using find_unit_stored [OF u] by (simp_all add: trace_start_def start_step_def)
  have one: "1 \<le> ?m" by (auto simp: trace_depth_def le_nat_iff)
  have start: "sound_chain d ?st [?st]" by (simp add: sound_chain_def)
  have ok: "length (tc_steps (chain_of w)) \<le> Suc ?m \<and> sound_chain d ?st (tc_steps (chain_of w))" if "w \<in> set (new_walks {} ws)" for w
  proof -
    have "w \<in> set ws" using new_walks_sub [OF that] by simp
    then have "leads uc mc d ?m [?st] (fst w)" using bspec [OF search_sound [of uc mc d ?m "[?st]" 0]] ws by simp
    then have "sound_chain d ?st (fst w) \<and> length (fst w) \<le> Suc ?m"
      using leads_sound(1) [OF assms(1,2) stored] start one by fastforce
    then show ?thesis using with_note_sound [of d ?st "fst w" "snd w"] by (simp add: chain_of_def)
  qed
  have r: "r = report (rq_param req) ?st (length (new_walks {} ws)) (?keep (map chain_of (new_walks {} ws)))" using run assms(3) by simp
  show ?thesis
  proof (cases "new_walks {} ws = []")
    case True
    then show ?thesis using r u start one by (simp add: report_def)
  next
    case False
    then have "?keep (map chain_of (new_walks {} ws)) \<noteq> []" by (simp add: kept_some)
    from report_cases [OF this, of "rq_param req" ?st "length (new_walks {} ws)"]
    have "length (rt_alternatives r) \<le> max_alternatives" "set (rt_steps r # rt_alternatives r) \<subseteq> tc_steps ` set (?keep (map chain_of (new_walks {} ws)))"
      unfolding r [symmetric] by auto
    moreover have "set (?keep (map chain_of (new_walks {} ws))) \<subseteq> chain_of ` set (new_walks {} ws)" using kept_sub [of "map chain_of (new_walks {} ws)"] by simp
    ultimately show ?thesis using ok u by blast
  qed
qed

theorem traced_chains_are_sound_witness:
  "\<exists>r. trace trace_db_meta trace_db_args trace_ask trace_db = Inr r \<and> length (rt_alternatives r) \<le> max_alternatives \<and>
    (\<forall>p \<in> set (rt_steps r # rt_alternatives r). length p \<le> Suc (trace_depth (rq_max_depth trace_ask)))"
proof -
  have fair: "fair_edges trace_db" by (simp add: fair_edges_def trace_db_def)
  obtain r where "trace trace_db_meta trace_db_args trace_ask trace_db = Inr r"
    using trace_searches [OF trace_db_valid trace_db_start] by blast
  then show ?thesis using traced_chains_are_sound [OF trace_db_valid fair] by blast
qed

end
