(* ===== verification/Store_Files.thy ===== *)
theory Store_Files
  imports Graph_Store_Facts Job_Store
begin

text \<open>
  The file table and the coverage table (\<open>internal/store/sqlite/files.go\<close>,
  \<open>internal/store/sqlite/coverage.go\<close>) as lists of rows; a row is known by its repository and path, a
  coverage row by its repository and kind. Statements do not fail in the model.
\<close>

section \<open>Files\<close>

record file_row =
  fr_repo :: string
  fr_path :: string
  fr_hash :: string
  fr_language :: string
  fr_size :: int
  fr_mod_time :: int
  fr_indexed :: bool

type_synonym file_table = "file_row list"

definition same_file :: "file_row \<Rightarrow> file_row \<Rightarrow> bool" where
  "same_file a b \<longleftrightarrow> fr_repo a = fr_repo b \<and> fr_path a = fr_path b"

text \<open>\<open>INSERT ... ON CONFLICT DO UPDATE\<close>.\<close>

fun store_file :: "file_row \<Rightarrow> file_table \<Rightarrow> file_table" where
  "store_file f [] = [f]"
| "store_file f (r # rs) = (if same_file r f then f # rs else r # store_file f rs)"

definition batch_store_files :: "file_row list \<Rightarrow> file_table \<Rightarrow> file_table" where
  "batch_store_files fs t = foldl (\<lambda>t f. store_file f t) t fs"

definition delete_files_batch :: "string \<Rightarrow> string list \<Rightarrow> file_table \<Rightarrow> file_table" where
  "delete_files_batch repo batch t = filter (\<lambda>r. \<not> (fr_repo r = repo \<and> fr_path r \<in> set batch)) t"

definition delete_files_by_paths :: "string \<Rightarrow> string list \<Rightarrow> file_table \<Rightarrow> file_table" where
  "delete_files_by_paths repo paths t = each_path_chunk paths (delete_files_batch repo) t"

definition get_file :: "string \<Rightarrow> string \<Rightarrow> file_table \<Rightarrow> store_error + file_row" where
  "get_file repo path t =
     (case List.find (\<lambda>r. fr_repo r = repo \<and> fr_path r = path) t of None \<Rightarrow> Inl ErrNotFound | Some r \<Rightarrow> Inr r)"

definition get_files_by_repo :: "string \<Rightarrow> file_table \<Rightarrow> file_row list" where
  "get_files_by_repo repo t = sort_key fr_path (filter (\<lambda>r. fr_repo r = repo) t)"

definition delete_file :: "string \<Rightarrow> string \<Rightarrow> file_table \<Rightarrow> file_table" where
  "delete_file repo path t = filter (\<lambda>r. \<not> (fr_repo r = repo \<and> fr_path r = path)) t"

definition delete_files_by_repo :: "string \<Rightarrow> file_table \<Rightarrow> file_table" where
  "delete_files_by_repo repo t = filter (\<lambda>r. fr_repo r \<noteq> repo) t"

definition get_files_by_hash :: "string \<Rightarrow> string \<Rightarrow> file_table \<Rightarrow> file_row list" where
  "get_files_by_hash repo hash t = filter (\<lambda>r. fr_repo r = repo \<and> fr_hash r = hash) t"

definition mark_batch :: "string \<Rightarrow> string list \<Rightarrow> file_table \<Rightarrow> file_table" where
  "mark_batch repo batch t = map (\<lambda>r. if fr_repo r = repo \<and> fr_path r \<in> set batch then r\<lparr> fr_indexed := True \<rparr> else r) t"

definition mark_files_indexed :: "string \<Rightarrow> string list \<Rightarrow> file_table \<Rightarrow> file_table" where
  "mark_files_indexed repo paths t = (if length paths = 0 then t else each_path_chunk paths (mark_batch repo) t)"

subsection \<open>What a table says of a file\<close>

definition keyed :: "file_table \<Rightarrow> bool" where
  "keyed t \<longleftrightarrow> distinct (map (\<lambda>r. (fr_repo r, fr_path r)) t)"

definition file_at :: "file_table \<Rightarrow> string \<Rightarrow> string \<Rightarrow> file_row option" where
  "file_at t repo path = List.find (\<lambda>r. fr_repo r = repo \<and> fr_path r = path) t"

lemma file_at_store [simp]:
  "file_at (store_file f t) repo path = (if fr_repo f = repo \<and> fr_path f = path then Some f else file_at t repo path)"
  by (induction t) (auto simp: file_at_def same_file_def)

lemma store_keys: "set (map (\<lambda>r. (fr_repo r, fr_path r)) (store_file f t)) = insert (fr_repo f, fr_path f) (set (map (\<lambda>r. (fr_repo r, fr_path r)) t))"
  by (induction t) (auto simp: same_file_def)

lemma keyed_store [simp]: "keyed t \<Longrightarrow> keyed (store_file f t)"
proof (induction t)
  case (Cons r t)
  then show ?case using store_keys [of f t] by (auto simp: keyed_def same_file_def)
qed (simp add: keyed_def)

lemma keyed_batch [simp]: "keyed t \<Longrightarrow> keyed (batch_store_files fs t)"
  unfolding batch_store_files_def by (induction fs arbitrary: t) simp_all

lemma file_at_batch:
  "file_at (batch_store_files fs t) repo path =
    (case filter (\<lambda>f. fr_repo f = repo \<and> fr_path f = path) fs of [] \<Rightarrow> file_at t repo path | gs \<Rightarrow> Some (last gs))"
  unfolding batch_store_files_def by (induction fs arbitrary: t) (auto split: list.splits)

interpretation file_paths: splittable "delete_files_batch repo"
  by unfold_locales (auto simp: delete_files_batch_def intro: filter_cong)

interpretation marked_paths: splittable "mark_batch repo"
  by unfold_locales (auto simp: mark_batch_def)

lemma delete_files_eq: "delete_files_by_paths repo paths t = delete_files_batch repo paths t"
  by (simp add: delete_files_by_paths_def file_paths.each_chunk)

lemma file_at_filter: "file_at (filter P t) repo path = List.find (\<lambda>r. fr_repo r = repo \<and> fr_path r = path \<and> P r) t"
  by (induction t) (auto simp: file_at_def)

lemma file_at_delete:
  "file_at (delete_files_by_paths repo paths t) repo' path =
    (if repo' = repo \<and> path \<in> set paths then None else file_at t repo' path)"
proof (induction t)
  case Nil
  then show ?case by (simp add: file_at_def delete_files_eq delete_files_batch_def)
next
  case (Cons r t)
  then show ?case by (auto simp: delete_files_eq delete_files_batch_def file_at_def)
qed

lemma keyed_filter [simp]: "keyed t \<Longrightarrow> keyed (filter P t)"
  by (simp add: keyed_def distinct_map_filter)

lemma keyed_delete [simp]: "keyed t \<Longrightarrow> keyed (delete_files_by_paths repo paths t)"
  by (simp add: delete_files_eq delete_files_batch_def)

lemma file_at_iff: "keyed t \<Longrightarrow> file_at t repo path = Some r \<longleftrightarrow> r \<in> set t \<and> fr_repo r = repo \<and> fr_path r = path"
proof (induction t)
  case (Cons x t)
  then show ?case by (auto simp: file_at_def keyed_def rev_image_eqI)
qed (simp add: file_at_def)

section \<open>Coverage\<close>

record coverage_counts =
  cc_candidates :: int
  cc_edges :: int

record coverage_row =
  cr_repo :: string
  cr_kind :: string
  cr_counts :: coverage_counts
  cr_updated :: int

record repo_coverage =
  rc_repo :: string
  rc_updated :: int
  rc_kinds :: "(string \<times> coverage_counts) list"

definition delete_repo_coverage :: "string \<Rightarrow> coverage_row list \<Rightarrow> coverage_row list" where
  "delete_repo_coverage repo t = filter (\<lambda>r. cr_repo r \<noteq> repo) t"

definition store_repo_coverage :: "repo_coverage \<Rightarrow> coverage_row list \<Rightarrow> coverage_row list \<times> string option" where
  "store_repo_coverage c t =
     (if rc_repo c = [] then (t, Some ''store coverage: repo id is required'')
      else (delete_repo_coverage (rc_repo c) t @
              map (\<lambda>(kind, counts). \<lparr> cr_repo = rc_repo c, cr_kind = kind, cr_counts = counts, cr_updated = rc_updated c \<rparr>) (rc_kinds c), None))"

definition get_repo_coverage :: "string \<Rightarrow> coverage_row list \<Rightarrow> store_error + repo_coverage" where
  "get_repo_coverage repo t =
     (let rows = filter (\<lambda>r. cr_repo r = repo) t in
      if length rows = 0 then Inl ErrNotFound
      else Inr \<lparr> rc_repo = repo, rc_updated = foldl (\<lambda>m r. if cr_updated r > m then cr_updated r else m) 0 rows,
                rc_kinds = map (\<lambda>r. (cr_kind r, cr_counts r)) rows \<rparr>)"

end
