(* ===== verification/Index_Pass.thy ===== *)
theory Index_Pass
  imports Store_Files Graph_Linker Graph_Query Job_Worker
begin

text \<open>
  A full index pass (\<open>internal/app/indexing.go\<close>) and the coverage it stores
  (\<open>internal/app/coverage.go\<close>): listing, stale sweep, scan, the indexers over one window of files at a
  time, service detection and linking.

  The indexers are the values of the interface \<open>index.Indexer\<close>: records of functions on a state of
  their own. They run concurrently on independent backends in the code; here they run one after another in
  the order of their types. The listing, the file system, the hash, the detectors, the enrichment passes and
  the JSON codecs are parameters of the pass. The database does not fail; metrics, progress events, log
  lines and durations are left out.
\<close>

section \<open>Indexers\<close>

record 'b backend =
  bk_gdb :: gdb
  bk_rest :: 'b

record index_result =
  ir_failed :: int
  ir_errors :: "string list"
  ir_coverage :: "(string \<times> coverage_counts) list option"

record 'b indexer =
  ix_type :: string
  ix_name :: string
  ix_index :: "repo \<Rightarrow> indexed_file list \<Rightarrow> bool \<Rightarrow> 'b backend \<Rightarrow> 'b backend \<times> (string + index_result option)"
  ix_remove :: "string \<Rightarrow> string list \<Rightarrow> 'b backend \<Rightarrow> 'b backend \<times> string option"
  ix_coverage :: "'b backend \<Rightarrow> (string \<times> coverage_counts) list option"
  ix_compact :: "('b backend \<Rightarrow> 'b backend \<times> string option) option"
  ix_auto_compact :: bool

definition indexer_runs :: "'b indexer list \<Rightarrow> 'b indexer list" where
  "indexer_runs indexers = sort_key ix_type indexers"

section \<open>Coverage of a pass\<close>

type_synonym coverage_acc = "(string \<times> coverage_counts) list \<times> bool"

definition no_coverage :: coverage_acc where
  "no_coverage = ([], False)"

definition add_counts :: "coverage_counts \<Rightarrow> coverage_counts \<Rightarrow> coverage_counts" where
  "add_counts a c = \<lparr> cc_candidates = cc_candidates a + cc_candidates c, cc_edges = cc_edges a + cc_edges c \<rparr>"

fun tally :: "(string \<times> coverage_counts) list \<Rightarrow> string \<times> coverage_counts \<Rightarrow> (string \<times> coverage_counts) list" where
  "tally [] kc = [kc]"
| "tally (x # xs) kc = (if fst x = fst kc then (fst x, add_counts (snd x) (snd kc)) # xs else x # tally xs kc)"

definition coverage_add :: "(string \<times> coverage_counts) list \<Rightarrow> coverage_acc \<Rightarrow> coverage_acc" where
  "coverage_add counts a = (foldl tally (fst a) counts, True)"

definition coverage_collect :: "'b backend \<Rightarrow> 'b indexer \<Rightarrow> index_result option \<Rightarrow> coverage_acc \<Rightarrow> coverage_acc" where
  "coverage_collect w ix res a =
     (case Option.bind res ir_coverage of
        Some counts \<Rightarrow> coverage_add counts a
      | None \<Rightarrow> (case ix_coverage ix w of Some counts \<Rightarrow> coverage_add counts a | None \<Rightarrow> a))"

section \<open>Indexing a set of files\<close>

definition entry_path :: "string \<Rightarrow> string option" where
  "entry_path e = (let sep = '': '' in
     case List.find (\<lambda>i. take 2 (drop i e) = sep) [0..<length e] of None \<Rightarrow> None | Some i \<Rightarrow> Some (take i e))"

text \<open>The entries of an error list that name a file of the batch.\<close>

definition attributed :: "string list \<Rightarrow> indexed_file list \<Rightarrow> string list" where
  "attributed errs batch = filter (\<lambda>p. p \<in> if_path ` set batch) (List.map_filter entry_path errs)"

definition attribute_failures :: "string list \<Rightarrow> indexed_file list \<Rightarrow> string set \<Rightarrow> string set \<times> int" where
  "attribute_failures errs batch failed = (failed \<union> set (attributed errs batch), int (length (attributed errs batch)))"

text \<open>Every indexer runs, whatever the others answer.\<close>

fun run_indexers :: "repo \<Rightarrow> indexed_file list \<Rightarrow> bool \<Rightarrow> 'b indexer list \<Rightarrow> 'b backend \<Rightarrow>
    'b backend \<times> ('b indexer \<times> (string + index_result option)) list" where
  "run_indexers repo files force [] w = (w, [])"
| "run_indexers repo files force (ix # ixs) w =
     (case ix_index ix repo files force w of (w, r) \<Rightarrow>
        case run_indexers repo files force ixs w of (w, rs) \<Rightarrow> (w, (ix, r) # rs))"

fun check_runs :: "indexed_file list \<Rightarrow> 'b backend \<Rightarrow> ('b indexer \<times> (string + index_result option)) list \<Rightarrow>
    string set \<Rightarrow> coverage_acc \<Rightarrow> string + string set \<times> coverage_acc" where
  "check_runs to_index w [] failed cov = Inr (failed, cov)"
| "check_runs to_index w ((ix, r) # runs) failed cov =
     (case r of
        Inl err \<Rightarrow> Inl (ix_type ix @ '' indexer: '' @ err)
      | Inr res \<Rightarrow>
          let cov = coverage_collect w ix res cov in
          (case res of
             None \<Rightarrow> check_runs to_index w runs failed cov
           | Some ir \<Rightarrow>
               if ir_failed ir = 0 then check_runs to_index w runs failed cov
               else case attribute_failures (ir_errors ir) to_index failed of (failed, n) \<Rightarrow>
                 check_runs to_index w runs (if n < ir_failed ir then failed \<union> if_path ` set to_index else failed) cov))"

record 'b index_world =
  iw_files :: file_table
  iw_coverage :: "coverage_row list"
  iw_back :: "'b backend"

definition index_file_set ::
  "'b indexer list \<Rightarrow> repo \<Rightarrow> indexed_file list \<Rightarrow> file_row list \<Rightarrow> bool \<Rightarrow> coverage_acc \<Rightarrow> 'b index_world \<Rightarrow>
   'b index_world \<times> (string + string set \<times> coverage_acc)" where
  "index_file_set indexers repo to_index processed force cov w =
     (if length to_index = 0 then (w, Inr ({}, cov))
      else case run_indexers repo to_index force (indexer_runs indexers) (iw_back w) of (b, runs) \<Rightarrow>
        let w = w\<lparr> iw_back := b \<rparr> in
        case check_runs to_index b runs {} cov of
          Inl err \<Rightarrow> (w, Inl err)
        | Inr (failed, cov) \<Rightarrow>
            (w\<lparr> iw_files := batch_store_files (filter (\<lambda>f. fr_path f \<notin> failed) processed) (iw_files w) \<rparr>, Inr (failed, cov)))"

fun compact_indexes :: "'b indexer list \<Rightarrow> 'b backend \<Rightarrow> 'b backend" where
  "compact_indexes [] w = w"
| "compact_indexes (ix # ixs) w =
     compact_indexes ixs (case ix_compact ix of None \<Rightarrow> w | Some f \<Rightarrow> if ix_auto_compact ix then fst (f w) else w)"

section \<open>Removing paths\<close>

fun remove_from_indexers :: "string \<Rightarrow> string list \<Rightarrow> 'b indexer list \<Rightarrow> 'b backend \<Rightarrow> 'b backend \<times> string option" where
  "remove_from_indexers repo paths [] w = (w, None)"
| "remove_from_indexers repo paths (ix # ixs) w =
     (case ix_remove ix repo paths w of
        (w, Some err) \<Rightarrow> (w, Some (''remove from indexer '' @ ix_name ix @ '': '' @ err))
      | (w, None) \<Rightarrow> remove_from_indexers repo paths ixs w)"

definition forget_paths :: "string \<Rightarrow> string list \<Rightarrow> gdb \<Rightarrow> gdb" where
  "forget_paths repo paths g = delete_edges_by_files repo paths (delete_ast_units_by_files repo paths g)"

definition remove_indexed_paths :: "'b indexer list \<Rightarrow> string \<Rightarrow> string list \<Rightarrow> 'b index_world \<Rightarrow> 'b index_world \<times> string option" where
  "remove_indexed_paths indexers repo paths w =
     (if length paths = 0 then (w, None)
      else case remove_from_indexers repo paths indexers (iw_back w) of
        (b, Some err) \<Rightarrow> (w\<lparr> iw_back := b \<rparr>, Some err)
      | (b, None) \<Rightarrow>
          (w\<lparr> iw_back := b\<lparr> bk_gdb := forget_paths repo paths (bk_gdb b) \<rparr>, iw_files := delete_files_by_paths repo paths (iw_files w) \<rparr>, None))"

record repo_file =
  rf_path :: string
  rf_language :: string
  rf_size :: int

definition stale_paths :: "file_row list \<Rightarrow> repo_file list \<Rightarrow> string list" where
  "stale_paths stored current = filter (\<lambda>p. p \<notin> rf_path ` set current) (map fr_path stored)"

definition remove_stale_files :: "'b indexer list \<Rightarrow> string \<Rightarrow> file_row list \<Rightarrow> repo_file list \<Rightarrow> 'b index_world \<Rightarrow> 'b index_world \<times> string option" where
  "remove_stale_files indexers repo stored current w =
     (let stale = stale_paths stored current in
      if length stored = 0 \<or> length stale = 0 then (w, None) else remove_indexed_paths indexers repo stale w)"

definition indexed_paths_under :: "string \<Rightarrow> string \<Rightarrow> file_table \<Rightarrow> string list" where
  "indexed_paths_under repo dir t =
     (let prefix = (if dir \<noteq> [] \<and> dir \<noteq> ''.'' then path_clean dir @ ''/'' else [])
      in map fr_path (filter (\<lambda>f. prefix = [] \<or> has_prefix (fr_path f) prefix) (get_files_by_repo repo t)))"

section \<open>Scanning\<close>

datatype file_stat = StatError string | Irregular string | Regular

record 'b index_env =
  ie_files :: "repo \<Rightarrow> (string + repo_file list) option"
  ie_stat :: "repo \<Rightarrow> string \<Rightarrow> file_stat"
  ie_read :: "repo \<Rightarrow> string \<Rightarrow> string + string"
  ie_hash :: "string \<Rightarrow> string"
  ie_summary_budget :: int
  ie_recon :: "(repo \<Rightarrow> 'b backend \<Rightarrow> 'b backend) option"
  ie_detect :: "repo \<Rightarrow> string + detected_service list"
  ie_hints :: "repo \<Rightarrow> 'b backend \<Rightarrow> detected_service list"
  ie_unit_meta :: "string \<Rightarrow> string \<Rightarrow> string"
  ie_summarize :: "repo \<Rightarrow> indexed_file list \<Rightarrow> 'b backend \<Rightarrow> 'b backend"
  ie_summarize_symbols :: "repo \<Rightarrow> 'b backend \<Rightarrow> 'b backend"
  ie_link :: "string \<Rightarrow> gdb \<Rightarrow> gdb"
  ie_refine :: "(repo \<Rightarrow> gdb \<Rightarrow> gdb) option"

datatype scanned = Unreadable string | Skipped | Scanned indexed_file file_row

definition scan_file :: "'b index_env \<Rightarrow> repo \<Rightarrow> repo_file \<Rightarrow> (string \<rightharpoonup> file_row) \<Rightarrow> scanned" where
  "scan_file env repo f known =
     (case ie_stat env repo (rf_path f) of
        StatError err \<Rightarrow> Unreadable (''stat file '' @ rf_path f @ '': '' @ err)
      | Irregular mode \<Rightarrow> Unreadable (''file '' @ rf_path f @ '' is not a regular file ('' @ mode @ '')'')
      | Regular \<Rightarrow>
          (case ie_read env repo (rf_path f) of
             Inl err \<Rightarrow> Unreadable (''read file '' @ rf_path f @ '': '' @ err)
           | Inr content \<Rightarrow>
               let hash = ie_hash env content in
               if (case known (rf_path f) of None \<Rightarrow> False | Some stored \<Rightarrow> fr_indexed stored \<and> fr_hash stored = hash) then Skipped
               else Scanned \<lparr> if_path = rf_path f, if_hash = hash, if_language = rf_language f, if_content = content \<rparr>
                      \<lparr> fr_repo = p_id repo, fr_path = rf_path f, fr_hash = hash, fr_language = rf_language f,
                        fr_size = rf_size f, fr_mod_time = 0, fr_indexed = True \<rparr>))"

definition known_files :: "bool \<Rightarrow> file_row list \<Rightarrow> string \<rightharpoonup> file_row" where
  "known_files force stored = (if force then Map.empty else foldl (\<lambda>m f. m(fr_path f \<mapsto> f)) Map.empty stored)"

section \<open>Services\<close>

definition merge_hint :: "detected_service list \<times> string set \<Rightarrow> detected_service \<Rightarrow> detected_service list \<times> string set" where
  "merge_hint s h =
     (if sv_name h = [] then s
      else let dir = trim_both (\<lambda>c. c = CHR ''/'') (sv_root h) in
        if dir \<in> snd s then s
        else (fst s @ [h\<lparr> sv_root := dir, sv_detected_by := ''llm'' \<rparr>], insert dir (snd s)))"

definition merge_service_hints :: "detected_service list \<Rightarrow> detected_service list \<Rightarrow> detected_service list" where
  "merge_service_hints detected hints =
     sort_key sv_name (fst (foldl merge_hint (detected, (\<lambda>s. trim_both (\<lambda>c. c = CHR ''/'') (sv_root s)) ` set detected) hints))"

definition service_row :: "'b index_env \<Rightarrow> repo \<Rightarrow> detected_service \<Rightarrow> ast_unit" where
  "service_row env repo sv =
     \<lparr> u_id = 0, u_repo = p_id repo, u_file = sv_manifest sv, u_language = [], u_kind = ''service'', u_name = sv_name sv,
       u_qualified = ''service:'' @ p_name repo @ ''/'' @ sv_name sv, u_parent = 0, u_start_line = 1, u_end_line = 1,
       u_start_byte = 0, u_end_byte = 0, u_signature = ''root:'' @ sv_root sv, u_doc = sv_detected_by sv, u_hash = [],
       u_meta = ie_unit_meta env (sv_root sv) (sv_detected_by sv) \<rparr>"

definition detect_services :: "'b index_env \<Rightarrow> repo \<Rightarrow> 'b backend \<Rightarrow> 'b backend \<times> string option" where
  "detect_services env repo w =
     (case ie_detect env repo of
        Inl err \<Rightarrow> (w, Some err)
      | Inr services \<Rightarrow>
          let hints = ie_hints env repo w;
              services = (if length hints > 0 then merge_service_hints services hints else services);
              g = delete_ast_units_by_kind (p_id repo) ''service'' (bk_gdb w)
          in (w\<lparr> bk_gdb := foldl (\<lambda>g sv. fst (store_ast_unit (service_row env repo sv) g)) g services \<rparr>, None))"

section \<open>The pass\<close>

definition index_batch_files :: nat where
  "index_batch_files = 512"

fun collect_summary_from :: "nat \<Rightarrow> indexed_file list \<Rightarrow> indexed_file list \<Rightarrow> string set \<Rightarrow> indexed_file list" where
  "collect_summary_from limit acc [] failed = acc"
| "collect_summary_from limit acc (f # fs) failed =
     (if length acc \<ge> limit then acc
      else collect_summary_from limit (if if_path f \<notin> failed then acc @ [f] else acc) fs failed)"

definition collect_summary_files :: "int \<Rightarrow> indexed_file list \<Rightarrow> indexed_file list \<Rightarrow> string set \<Rightarrow> indexed_file list" where
  "collect_summary_files limit acc batch failed =
     (if limit \<le> 0 then [] else collect_summary_from (nat limit) acc batch failed)"

record pass_acc =
  pa_failed :: "string set"
  pa_indexed :: nat
  pa_skipped :: nat
  pa_unreadable :: nat
  pa_coverage :: coverage_acc
  pa_summary :: "indexed_file list"

definition new_pass :: pass_acc where
  "new_pass = \<lparr> pa_failed = {}, pa_indexed = 0, pa_skipped = 0, pa_unreadable = 0, pa_coverage = no_coverage, pa_summary = [] \<rparr>"

definition to_index_of :: "scanned list \<Rightarrow> indexed_file list" where
  "to_index_of ss = List.map_filter (\<lambda>s. case s of Scanned f r \<Rightarrow> Some f | _ \<Rightarrow> None) ss"

definition processed_of :: "scanned list \<Rightarrow> file_row list" where
  "processed_of ss = List.map_filter (\<lambda>s. case s of Scanned f r \<Rightarrow> Some r | _ \<Rightarrow> None) ss"

definition skipped_of :: "scanned list \<Rightarrow> nat" where
  "skipped_of ss = length (filter (\<lambda>s. s = Skipped) ss)"

definition unreadable_of :: "scanned list \<Rightarrow> nat" where
  "unreadable_of ss = length (filter (\<lambda>s. case s of Unreadable err \<Rightarrow> True | _ \<Rightarrow> False) ss)"

text \<open>One window of files.\<close>

definition index_window ::
  "'b index_env \<Rightarrow> 'b indexer list \<Rightarrow> repo \<Rightarrow> bool \<Rightarrow> (string \<rightharpoonup> file_row) \<Rightarrow> repo_file list \<Rightarrow> pass_acc \<Rightarrow> 'b index_world \<Rightarrow>
   'b index_world \<times> (string + pass_acc)" where
  "index_window env indexers repo force known batch pa w =
     (let ss = map (\<lambda>f. scan_file env repo f known) batch; to_index = to_index_of ss in
      case index_file_set indexers repo to_index (processed_of ss) force (pa_coverage pa) w of
        (w, Inl err) \<Rightarrow> (w, Inl err)
      | (w, Inr (failed, cov)) \<Rightarrow>
          (w, Inr \<lparr> pa_failed = pa_failed pa \<union> failed, pa_indexed = pa_indexed pa + length to_index,
                    pa_skipped = pa_skipped pa + skipped_of ss, pa_unreadable = pa_unreadable pa + unreadable_of ss,
                    pa_coverage = cov, pa_summary = collect_summary_files (ie_summary_budget env) (pa_summary pa) to_index failed \<rparr>))"

function index_windows ::
  "'b index_env \<Rightarrow> 'b indexer list \<Rightarrow> repo \<Rightarrow> bool \<Rightarrow> (string \<rightharpoonup> file_row) \<Rightarrow> repo_file list \<Rightarrow> pass_acc \<Rightarrow> 'b index_world \<Rightarrow>
   'b index_world \<times> (string + pass_acc)" where
  "index_windows env indexers repo force known files pa w =
     (if files = [] then (w, Inr pa)
      else case index_window env indexers repo force known (take index_batch_files files) pa w of
        (w, Inl err) \<Rightarrow> (w, Inl err)
      | (w, Inr pa) \<Rightarrow> index_windows env indexers repo force known (drop index_batch_files files) pa w)"
  by pat_completeness auto

termination
  by (relation "measure (\<lambda>(env, indexers, repo, force, known, files, pa, w). length files)") (auto simp: index_batch_files_def)

declare index_windows.simps [simp del]

definition coverage_summary :: "string \<Rightarrow> int \<Rightarrow> coverage_acc \<Rightarrow> repo_coverage option" where
  "coverage_summary repo now a =
     (if \<not> snd a then None else Some \<lparr> rc_repo = repo, rc_updated = now, rc_kinds = fst a \<rparr>)"

definition store_coverage :: "int \<Rightarrow> string \<Rightarrow> coverage_acc \<Rightarrow> bool \<Rightarrow> coverage_row list \<Rightarrow> coverage_row list" where
  "store_coverage now repo a whole t =
     (case coverage_summary repo now a of
        None \<Rightarrow> t
      | Some summary \<Rightarrow> if \<not> whole then t else fst (store_repo_coverage summary t))"

definition link_repo :: "'b index_env \<Rightarrow> repo \<Rightarrow> gdb \<Rightarrow> gdb" where
  "link_repo env repo g = (let g = ie_link env (p_id repo) g in case ie_refine env of None \<Rightarrow> g | Some refine \<Rightarrow> refine repo g)"

text \<open>What follows the windows: the layout, the coverage, the enrichment passes, services and links.\<close>

definition finish_pass :: "int \<Rightarrow> 'b index_env \<Rightarrow> 'b indexer list \<Rightarrow> repo \<Rightarrow> pass_acc \<Rightarrow> 'b index_world \<Rightarrow> 'b index_world \<times> string option" where
  "finish_pass now env indexers repo pa w =
     (let b = (if pa_indexed pa > 0 then compact_indexes (indexer_runs indexers) (iw_back w) else iw_back w);
          b = (case ie_recon env of None \<Rightarrow> b | Some recon \<Rightarrow> recon repo b);
          w = w\<lparr> iw_coverage := store_coverage now (p_id repo) (pa_coverage pa) (pa_skipped pa = 0) (iw_coverage w), iw_back := b \<rparr>
      in case detect_services env repo b of
        (b, Some err) \<Rightarrow> (w\<lparr> iw_back := b \<rparr>, Some (''detect services: '' @ err))
      | (b, None) \<Rightarrow>
          let b = ie_summarize_symbols env repo (ie_summarize env repo (pa_summary pa) b);
              b = b\<lparr> bk_gdb := link_repo env repo (bk_gdb b) \<rparr>
          in (w\<lparr> iw_back := b \<rparr>,
              if card (pa_failed pa) > 0
              then Some (itoa (int (card (pa_failed pa))) @ '' of '' @ itoa (int (pa_indexed pa)) @
                ('' files could not be indexed (see logs); they stay unindexed and will be retried''))
              else None))"

definition do_index :: "int \<Rightarrow> 'b index_env \<Rightarrow> 'b indexer list \<Rightarrow> repo \<Rightarrow> bool \<Rightarrow> 'b index_world \<Rightarrow> 'b index_world \<times> string option" where
  "do_index now env indexers repo force w =
     (case ie_files env repo of
        None \<Rightarrow> (w, Some (''source not available for repo '' @ p_id repo))
      | Some (Inl err) \<Rightarrow> (w, Some (''get files: '' @ err))
      | Some (Inr files) \<Rightarrow>
          let stored = get_files_by_repo (p_id repo) (iw_files w) in
          case remove_stale_files indexers (p_id repo) stored files w of
            (w, Some err) \<Rightarrow> (w, Some (''remove stale files: '' @ err))
          | (w, None) \<Rightarrow>
              (case index_windows env indexers repo force (known_files force stored) files new_pass w of
                 (w, Inl err) \<Rightarrow> (w, Some err)
               | (w, Inr pa) \<Rightarrow> finish_pass now env indexers repo pa w))"

section \<open>The coverage report\<close>

record coverage_kind =
  ck_kind :: string
  ck_candidates :: int
  ck_edges :: int
  ck_ratio :: rat

record coverage_report =
  cp_repo :: string
  cp_reported :: bool
  cp_updated :: int
  cp_indexed :: int
  cp_kinds :: "coverage_kind list"
  cp_totals :: coverage_kind

definition contract_kinds :: "string list" where
  "contract_kinds = [''http'', ''rpc'', ''messaging'', ''db'']"

definition coverage_ratio :: "int \<Rightarrow> int \<Rightarrow> rat" where
  "coverage_ratio candidates edges = (if candidates \<le> 0 then 1 else f64 (f64 (of_int edges) / f64 (of_int candidates)))"

definition coverage_kind_of :: "string \<Rightarrow> coverage_counts \<Rightarrow> coverage_kind" where
  "coverage_kind_of kind c =
     \<lparr> ck_kind = kind, ck_candidates = cc_candidates c, ck_edges = cc_edges c, ck_ratio = coverage_ratio (cc_candidates c) (cc_edges c) \<rparr>"

definition counts_of :: "(string \<times> coverage_counts) list \<Rightarrow> string \<Rightarrow> coverage_counts" where
  "counts_of m kind = (case map_of m kind of None \<Rightarrow> \<lparr> cc_candidates = 0, cc_edges = 0 \<rparr> | Some c \<Rightarrow> c)"

definition no_totals :: coverage_kind where
  "no_totals = \<lparr> ck_kind = [], ck_candidates = 0, ck_edges = 0, ck_ratio = 0 \<rparr>"

definition coverage_report_of :: "repo \<Rightarrow> store_error + repo_coverage \<Rightarrow> coverage_report" where
  "coverage_report_of repo cov =
     (case cov of
        Inl err \<Rightarrow> \<lparr> cp_repo = p_id repo, cp_reported = False, cp_updated = 0, cp_indexed = p_indexed repo, cp_kinds = [], cp_totals = no_totals \<rparr>
      | Inr cov \<Rightarrow>
          let kinds = map (\<lambda>k. coverage_kind_of k (counts_of (rc_kinds cov) k)) contract_kinds @
                map (\<lambda>(k, c). coverage_kind_of k c) (filter (\<lambda>(k, c). k \<notin> set contract_kinds) (rc_kinds cov));
              candidates = sum_list (map (\<lambda>(k, c). cc_candidates c) (rc_kinds cov));
              edges = sum_list (map (\<lambda>(k, c). cc_edges c) (rc_kinds cov))
          in \<lparr> cp_repo = p_id repo, cp_reported = True, cp_updated = rc_updated cov, cp_indexed = p_indexed repo, cp_kinds = sort_key ck_kind kinds,
               cp_totals = \<lparr> ck_kind = ''all'', ck_candidates = candidates, ck_edges = edges, ck_ratio = coverage_ratio candidates edges \<rparr> \<rparr>)"

definition repo_coverage_report :: "string \<Rightarrow> db \<Rightarrow> coverage_row list \<Rightarrow> store_error + coverage_report" where
  "repo_coverage_report repo d t =
     (case get_repo repo d of Inl err \<Rightarrow> Inl err | Inr r \<Rightarrow> Inr (coverage_report_of r (get_repo_coverage repo t)))"

end
