(* ===== verification/Index_Pass_Facts.thy ===== *)
theory Index_Pass_Facts
  imports Index_Pass
begin

text \<open>
  When a pass may say it succeeded. \<open>holds t w p\<close> is the hash of the content indexer \<open>t\<close> holds for path
  \<open>p\<close> of the repository: what it says is the contract of the interface \<open>index.Indexer\<close>, stated as the
  predicates \<open>lawful_indexer\<close> and \<open>lawful_env\<close>. Against it, a successful pass leaves every readable
  file of the listing recorded with the hash that every indexer holds.
\<close>

section \<open>The contract of an indexer\<close>

type_synonym 'b holding = "string \<Rightarrow> 'b backend \<Rightarrow> string \<Rightarrow> string option"

definition missed :: "indexed_file list \<Rightarrow> (string \<Rightarrow> string option) \<Rightarrow> string set" where
  "missed files held = if_path ` {f \<in> set files. held (if_path f) \<noteq> Some (if_hash f)}"

text \<open>Failures are counted, and an error entry that names a file of the batch names one that failed, once.\<close>

definition reports :: "indexed_file list \<Rightarrow> (string \<Rightarrow> string option) \<Rightarrow> index_result option \<Rightarrow> bool" where
  "reports files held res \<longleftrightarrow>
     (case res of
        None \<Rightarrow> missed files held = {}
      | Some ir \<Rightarrow> int (card (missed files held)) \<le> ir_failed ir \<and>
          distinct (attributed (ir_errors ir) files) \<and> set (attributed (ir_errors ir) files) \<subseteq> missed files held)"

definition indexes_lawfully :: "'b holding \<Rightarrow> repo \<Rightarrow> 'b indexer \<Rightarrow> bool" where
  "indexes_lawfully holds repo ix \<longleftrightarrow>
     (\<forall>files force w w' r. ix_index ix repo files force w = (w', r) \<longrightarrow>
       (\<forall>t p. t \<noteq> ix_type ix \<or> p \<notin> if_path ` set files \<longrightarrow> holds t w' p = holds t w p) \<and>
       (\<forall>res. r = Inr res \<and> distinct (map if_path files) \<longrightarrow> reports files (holds (ix_type ix) w') res))"

definition removes_lawfully :: "'b holding \<Rightarrow> repo \<Rightarrow> 'b indexer \<Rightarrow> bool" where
  "removes_lawfully holds repo ix \<longleftrightarrow>
     (\<forall>paths w w' err. ix_remove ix (p_id repo) paths w = (w', err) \<longrightarrow> (\<forall>t p. p \<notin> set paths \<longrightarrow> holds t w' p = holds t w p))"

definition compacts_lawfully :: "'b holding \<Rightarrow> 'b indexer \<Rightarrow> bool" where
  "compacts_lawfully holds ix \<longleftrightarrow> (\<forall>f. ix_compact ix = Some f \<longrightarrow> (\<forall>t w p. holds t (fst (f w)) p = holds t w p))"

definition lawful_indexer :: "'b holding \<Rightarrow> repo \<Rightarrow> 'b indexer \<Rightarrow> bool" where
  "lawful_indexer holds repo ix \<longleftrightarrow> indexes_lawfully holds repo ix \<and> removes_lawfully holds repo ix \<and> compacts_lawfully holds ix"

definition lawful_graph :: "'b holding \<Rightarrow> string set \<Rightarrow> (gdb \<Rightarrow> gdb) \<Rightarrow> bool" where
  "lawful_graph holds lost f \<longleftrightarrow> (\<forall>w t p. p \<notin> lost \<longrightarrow> holds t (w\<lparr> bk_gdb := f (bk_gdb w) \<rparr>) p = holds t w p)"

definition store_services :: "'b index_env \<Rightarrow> repo \<Rightarrow> detected_service list \<Rightarrow> gdb \<Rightarrow> gdb" where
  "store_services env repo services g =
     foldl (\<lambda>g sv. fst (store_ast_unit (service_row env repo sv) g)) (delete_ast_units_by_kind (p_id repo) ''service'' g) services"

definition lawful_env :: "'b holding \<Rightarrow> 'b index_env \<Rightarrow> repo \<Rightarrow> bool" where
  "lawful_env holds env repo \<longleftrightarrow>
     (\<forall>f w t p. ie_recon env = Some f \<longrightarrow> holds t (f repo w) p = holds t w p) \<and>
     (\<forall>fs w t p. holds t (ie_summarize env repo fs w) p = holds t w p) \<and>
     (\<forall>w t p. holds t (ie_summarize_symbols env repo w) p = holds t w p) \<and>
     lawful_graph holds {} (link_repo env repo) \<and> (\<forall>services. lawful_graph holds {} (store_services env repo services)) \<and>
     (\<forall>paths. lawful_graph holds (set paths) (forget_paths (p_id repo) paths))"

section \<open>One set of files\<close>

lemma missed_attributed:
  assumes "reports files held (Some ir)" and "ir_failed ir \<le> int (length (attributed (ir_errors ir) files))"
  shows "missed files held = set (attributed (ir_errors ir) files)"
proof -
  let ?a = "attributed (ir_errors ir) files"
  have fin: "finite (missed files held)" by (simp add: missed_def)
  have "card (missed files held) \<le> card (set ?a)" using assms by (simp add: reports_def distinct_card)
  then show ?thesis using assms(1) card_subset_eq [OF fin, of "set ?a"] card_mono [OF fin, of "set ?a"] by (simp add: reports_def)
qed

lemma check_runs_sound:
  "check_runs files w runs failed cov = Inr (failed', cov') \<Longrightarrow>
    failed \<subseteq> failed' \<and> failed' \<subseteq> failed \<union> if_path ` set files \<and>
    (\<forall>x \<in> set runs. \<exists>res. snd x = Inr res \<and> (\<forall>held. reports files held res \<longrightarrow> missed files held \<subseteq> failed'))"
proof (induction runs arbitrary: failed cov)
  case (Cons x runs)
  obtain ix r where x: "x = (ix, r)" by (cases x)
  obtain res where res: "r = Inr res" using Cons.prems x by (cases r) auto
  let ?cov = "coverage_collect w ix res cov"
  show ?case
  proof (cases "res = None \<or> (\<exists>ir. res = Some ir \<and> ir_failed ir = 0)")
    case True
    then have run: "check_runs files w runs failed ?cov = Inr (failed', cov')" using Cons.prems x res by (auto simp: Let_def)
    have "reports files held res \<Longrightarrow> missed files held = {}" for held
      using True by (auto simp: reports_def missed_def card_eq_0_iff)
    then show ?thesis using Cons.IH [OF run] x res by auto
  next
    case False
    then obtain ir where ir: "res = Some ir" "ir_failed ir \<noteq> 0" by (cases res) auto
    let ?a = "attributed (ir_errors ir) files"
    let ?f = "if int (length ?a) < ir_failed ir then failed \<union> set ?a \<union> if_path ` set files else failed \<union> set ?a"
    have run: "check_runs files w runs ?f ?cov = Inr (failed', cov')"
      using Cons.prems x res ir by (simp add: Let_def attribute_failures_def)
    have sub: "set ?a \<subseteq> if_path ` set files" by (auto simp: attributed_def)
    have "missed files held \<subseteq> ?f" if r: "reports files held res" for held
    proof (cases "int (length ?a) < ir_failed ir")
      case True
      then show ?thesis by (auto simp: missed_def)
    next
      case no: False
      then show ?thesis using missed_attributed [of files held ir] r ir by auto
    qed
    then have "\<forall>held. reports files held res \<longrightarrow> missed files held \<subseteq> failed'" using Cons.IH [OF run] by blast
    moreover have "failed \<subseteq> failed'" using Cons.IH [OF run] by (auto split: if_splits)
    moreover have "failed' \<subseteq> failed \<union> if_path ` set files" using Cons.IH [OF run] sub by (auto split: if_splits)
    ultimately show ?thesis using Cons.IH [OF run] x res by simp
  qed
qed simp

lemma lawful_run:
  assumes "lawful_indexer holds repo ix" and "ix_index ix repo files force w = (w', r)"
  shows "t \<noteq> ix_type ix \<or> p \<notin> if_path ` set files \<Longrightarrow> holds t w' p = holds t w p"
    and "r = Inr res \<Longrightarrow> distinct (map if_path files) \<Longrightarrow> reports files (holds (ix_type ix) w') res"
  using assms unfolding lawful_indexer_def indexes_lawfully_def by blast+

lemma lawful_removal:
  "lawful_indexer holds repo ix \<Longrightarrow> ix_remove ix (p_id repo) paths w = (w', err) \<Longrightarrow> p \<notin> set paths \<Longrightarrow> holds t w' p = holds t w p"
  unfolding lawful_indexer_def removes_lawfully_def by blast

lemma lawful_compact: "lawful_indexer holds repo ix \<Longrightarrow> ix_compact ix = Some f \<Longrightarrow> holds t (fst (f w)) p = holds t w p"
  unfolding lawful_indexer_def compacts_lawfully_def by blast

definition same_paths :: "'b holding \<Rightarrow> string set \<Rightarrow> 'b backend \<Rightarrow> 'b backend \<Rightarrow> bool" where
  "same_paths holds lost b b' \<longleftrightarrow> (\<forall>t p. p \<notin> lost \<longrightarrow> holds t b' p = holds t b p)"

lemma same_paths_refl [simp]: "same_paths holds lost b b"
  by (simp add: same_paths_def)

lemma same_paths_trans: "same_paths holds lost b b' \<Longrightarrow> same_paths holds lost b' b'' \<Longrightarrow> same_paths holds lost b b''"
  by (simp add: same_paths_def)

lemma same_paths_mono: "same_paths holds lost b b' \<Longrightarrow> lost \<subseteq> lost' \<Longrightarrow> same_paths holds lost' b b'"
  by (auto simp: same_paths_def)

lemma run_indexers_sound:
  assumes "\<forall>ix \<in> set ixs. lawful_indexer holds repo ix" and "distinct (map ix_type ixs)" and "run_indexers repo files force ixs b = (b', runs)"
    and "distinct (map if_path files)"
  shows "map fst runs = ixs \<and> same_paths holds (if_path ` set files) b b' \<and> (\<forall>t p. t \<notin> ix_type ` set ixs \<longrightarrow> holds t b' p = holds t b p) \<and>
    (\<forall>x \<in> set runs. \<forall>res. snd x = Inr res \<longrightarrow> reports files (holds (ix_type (fst x)) b') res)"
  using assms
proof (induction ixs arbitrary: b runs)
  case (Cons ix ixs)
  obtain b1 r where r: "ix_index ix repo files force b = (b1, r)" by fastforce
  obtain rs where rs: "run_indexers repo files force ixs b1 = (b', rs)" "runs = (ix, r) # rs"
    using Cons.prems(3) r by (auto split: prod.splits)
  have "lawful_indexer holds repo ix" using Cons.prems(1) by simp
  note law = lawful_run [OF this r]
  have laws: "\<forall>ix \<in> set ixs. lawful_indexer holds repo ix" "distinct (map ix_type ixs)" "ix_type ix \<notin> ix_type ` set ixs"
    using Cons.prems(1,2) by simp_all
  note ih = Cons.IH [OF laws(1,2) rs(1) Cons.prems(4)]
  have "holds (ix_type ix) b' = holds (ix_type ix) b1" using ih laws(3) by (simp add: fun_eq_iff)
  moreover have "map fst runs = ix # ixs" using ih rs(2) by simp
  moreover have "same_paths holds (if_path ` set files) b b'" using ih law(1) by (simp add: same_paths_def)
  moreover have "\<forall>t p. t \<notin> ix_type ` set (ix # ixs) \<longrightarrow> holds t b' p = holds t b p" using ih law(1) by simp
  ultimately show ?case using ih law(2) rs(2) Cons.prems(4) by simp
qed simp

lemma runs_members: "set (indexer_runs ixs) = set ixs" "distinct (map ix_type ixs) \<Longrightarrow> distinct (map ix_type (indexer_runs ixs))"
  by (auto simp: indexer_runs_def distinct_map)

text \<open>A path is settled at a hash when its row says so and every indexer holds that content.\<close>

definition settled :: "'b holding \<Rightarrow> 'b indexer list \<Rightarrow> repo \<Rightarrow> 'b index_world \<Rightarrow> string \<Rightarrow> string \<Rightarrow> bool" where
  "settled holds ixs repo w p h \<longleftrightarrow>
     (\<exists>r. file_at (iw_files w) (p_id repo) p = Some r \<and> fr_indexed r \<and> fr_hash r = h) \<and>
     (\<forall>ix \<in> set ixs. holds (ix_type ix) (iw_back w) p = Some h)"

definition untouched :: "'b holding \<Rightarrow> repo \<Rightarrow> string set \<Rightarrow> 'b index_world \<Rightarrow> 'b index_world \<Rightarrow> bool" where
  "untouched holds repo lost w w' \<longleftrightarrow> same_paths holds lost (iw_back w) (iw_back w') \<and>
     (\<forall>p. p \<notin> lost \<longrightarrow> file_at (iw_files w') (p_id repo) p = file_at (iw_files w) (p_id repo) p)"

lemma untouched_refl [simp]: "untouched holds repo lost w w"
  by (simp add: untouched_def)

lemma untouched_trans:
  "untouched holds repo lost w w' \<Longrightarrow> untouched holds repo lost w' w'' \<Longrightarrow> untouched holds repo lost w w''"
  by (auto simp: untouched_def intro: same_paths_trans)

lemma untouched_mono: "untouched holds repo lost w w' \<Longrightarrow> lost \<subseteq> lost' \<Longrightarrow> untouched holds repo lost' w w'"
  by (auto simp: untouched_def intro: same_paths_mono)

lemma untouched_settled: "untouched holds repo lost w w' \<Longrightarrow> p \<notin> lost \<Longrightarrow> settled holds ixs repo w' p h = settled holds ixs repo w p h"
  by (simp add: untouched_def settled_def same_paths_def)

definition pair_ok :: "repo \<Rightarrow> indexed_file \<times> file_row \<Rightarrow> bool" where
  "pair_ok repo z \<longleftrightarrow> fr_repo (snd z) = p_id repo \<and> fr_path (snd z) = if_path (fst z) \<and> fr_hash (snd z) = if_hash (fst z) \<and> fr_indexed (snd z)"

lemma one_row:
  "distinct (map (\<lambda>z. fr_path (snd z)) zs) \<Longrightarrow> z \<in> set zs \<Longrightarrow> P (snd z) \<Longrightarrow> \<forall>z \<in> set zs. fr_repo (snd z) = repo \<Longrightarrow>
    filter (\<lambda>f. fr_repo f = repo \<and> fr_path f = fr_path (snd z)) (filter P (map snd zs)) = [snd z]"
proof (induction zs)
  case (Cons y zs)
  show ?case
  proof (cases "z = y")
    case True
    have "filter (\<lambda>f. fr_repo f = repo \<and> fr_path f = fr_path (snd y)) (filter P (map snd zs)) = []"
    proof -
      have "fr_path (snd x) \<noteq> fr_path (snd y)" if "x \<in> set zs" for x using Cons.prems(1) that by (metis (no_types, lifting) distinct.simps(2) image_eqI list.simps(9) list.set_map)
      then show ?thesis by (auto simp: filter_empty_conv)
    qed
    then show ?thesis using True Cons.prems by simp
  next
    case False
    then have "z \<in> set zs" "fr_path (snd y) \<noteq> fr_path (snd z)" using Cons.prems(1,2) by force+
    then show ?thesis using Cons by simp
  qed
qed simp

lemma index_file_set_sound:
  assumes laws: "\<forall>ix \<in> set ixs. lawful_indexer holds repo ix" and types: "distinct (map ix_type ixs)"
    and run: "index_file_set ixs repo (map fst zs) (map snd zs) force cov w = (w', Inr (failed, cov'))"
    and rows: "\<forall>z \<in> set zs. pair_ok repo z" and paths: "distinct (map (if_path \<circ> fst) zs)"
  shows "failed \<subseteq> if_path ` fst ` set zs \<and> untouched holds repo (if_path ` fst ` set zs) w w' \<and>
    (\<forall>z \<in> set zs. if_path (fst z) \<notin> failed \<longrightarrow> settled holds ixs repo w' (if_path (fst z)) (if_hash (fst z))) \<and>
    (\<forall>p \<in> failed. file_at (iw_files w') (p_id repo) p = file_at (iw_files w) (p_id repo) p)"
proof (cases "zs = []")
  case True
  then show ?thesis using run by (auto simp: index_file_set_def)
next
  case False
  obtain b runs where b: "run_indexers repo (map fst zs) force (indexer_runs ixs) (iw_back w) = (b, runs)" by fastforce
  then have check: "check_runs (map fst zs) b runs {} cov = Inr (failed, cov')"
      and w': "w' = w\<lparr> iw_back := b, iw_files := batch_store_files (filter (\<lambda>f. fr_path f \<notin> failed) (map snd zs)) (iw_files w) \<rparr>"
    using run False by (auto simp: index_file_set_def Let_def split: sum.splits)
  have laws': "\<forall>ix \<in> set (indexer_runs ixs). lawful_indexer holds repo ix" using laws by (simp add: runs_members)
  have "distinct (map if_path (map fst zs))" using paths by simp
  note ran = run_indexers_sound [OF laws' runs_members(2) [OF types] b this]
  note checked = check_runs_sound [OF check]
  have held: "holds (ix_type ix) b (if_path (fst z)) = Some (if_hash (fst z))"
    if ix: "ix \<in> set ixs" and z: "z \<in> set zs" "if_path (fst z) \<notin> failed" for ix z
  proof -
    have "ix \<in> fst ` set runs" using ran ix runs_members(1) [of ixs] by (metis set_map)
    then obtain x where x: "x \<in> set runs" "fst x = ix" by blast
    then obtain res where res: "snd x = Inr res" "reports (map fst zs) (holds (ix_type ix) b) res" using checked ran by blast
    then have "missed (map fst zs) (holds (ix_type ix) b) \<subseteq> failed" using checked x(1) by (metis sum.inject(2))
    then show ?thesis using z by (force simp: missed_def)
  qed
  have row: "file_at (iw_files w') (p_id repo) (if_path (fst z)) = Some (snd z)" if z: "z \<in> set zs" "if_path (fst z) \<notin> failed" for z
  proof -
    have same: "fr_path (snd z) = if_path (fst z)" using rows z(1) by (simp add: pair_ok_def)
    have eq: "map (\<lambda>z. fr_path (snd z)) zs = map (if_path \<circ> fst) zs" using rows by (auto simp: pair_ok_def)
    have "distinct (map (\<lambda>z. fr_path (snd z)) zs)" unfolding eq by (rule paths)
    then have "filter (\<lambda>f. fr_repo f = p_id repo \<and> fr_path f = fr_path (snd z)) (filter (\<lambda>f. fr_path f \<notin> failed) (map snd zs)) = [snd z]"
      using rows z same by (intro one_row) (simp_all add: pair_ok_def)
    then show ?thesis using w' same by (simp add: file_at_batch)
  qed
  have old: "file_at (iw_files w') (p_id repo) p = file_at (iw_files w) (p_id repo) p"
    if p: "p \<notin> if_path ` fst ` set zs \<or> p \<in> failed" for p
  proof -
    have "filter (\<lambda>f. fr_repo f = p_id repo \<and> fr_path f = p) (filter (\<lambda>f. fr_path f \<notin> failed) (map snd zs)) = []"
      using p rows by (auto simp: filter_empty_conv pair_ok_def image_iff)
    then show ?thesis using w' by (simp add: file_at_batch)
  qed
  have "settled holds ixs repo w' (if_path (fst z)) (if_hash (fst z))" if z: "z \<in> set zs" "if_path (fst z) \<notin> failed" for z
    using row [OF z] held [OF _ z] rows z(1) w' by (simp add: settled_def pair_ok_def)
  moreover have "untouched holds repo (if_path ` fst ` set zs) w w'"
    using ran old w' by (simp add: untouched_def image_image)
  moreover have "failed \<subseteq> if_path ` fst ` set zs" using checked by (simp add: image_image)
  ultimately show ?thesis using old by blast
qed

section \<open>Windows\<close>

definition content_hash :: "'b index_env \<Rightarrow> repo \<Rightarrow> string \<Rightarrow> string option" where
  "content_hash env repo p =
     (if ie_stat env repo p = Regular then (case ie_read env repo p of Inl err \<Rightarrow> None | Inr content \<Rightarrow> Some (ie_hash env content)) else None)"

definition scanned_pairs :: "scanned list \<Rightarrow> (indexed_file \<times> file_row) list" where
  "scanned_pairs ss = List.map_filter (\<lambda>s. case s of Scanned f r \<Rightarrow> Some (f, r) | _ \<Rightarrow> None) ss"

lemma pairs_split: "to_index_of ss = map fst (scanned_pairs ss)" "processed_of ss = map snd (scanned_pairs ss)"
  by (induction ss) (auto simp: to_index_of_def processed_of_def scanned_pairs_def map_filter_simps split: scanned.split)

text \<open>What the scan makes of a file.\<close>

lemma scan_file_cases:
  "scan_file env repo f known = Scanned g r \<Longrightarrow> pair_ok repo (g, r) \<and> if_path g = rf_path f \<and> content_hash env repo (rf_path f) = Some (if_hash g)"
  "scan_file env repo f known = Skipped \<Longrightarrow>
    \<exists>row. known (rf_path f) = Some row \<and> fr_indexed row \<and> content_hash env repo (rf_path f) = Some (fr_hash row)"
  "scan_file env repo f known = Unreadable err \<Longrightarrow> content_hash env repo (rf_path f) = None"
  by (auto simp: scan_file_def content_hash_def pair_ok_def Let_def split: file_stat.splits sum.splits option.splits if_splits)

lemma scanned_pairs_in:
  "z \<in> set (scanned_pairs (map (\<lambda>f. scan_file env repo f known) batch)) \<longleftrightarrow>
    (\<exists>f \<in> set batch. scan_file env repo f known = Scanned (fst z) (snd z))"
proof (induction batch)
  case (Cons f batch)
  then show ?case by (cases "scan_file env repo f known"; cases z) (auto simp: scanned_pairs_def map_filter_simps)
qed (simp add: scanned_pairs_def map_filter_simps)

lemma scanned_pairs_paths:
  "if_path ` fst ` set (scanned_pairs (map (\<lambda>f. scan_file env repo f known) batch)) \<subseteq> rf_path ` set batch"
proof
  fix p
  assume "p \<in> if_path ` fst ` set (scanned_pairs (map (\<lambda>f. scan_file env repo f known) batch))"
  then obtain z where z: "z \<in> set (scanned_pairs (map (\<lambda>f. scan_file env repo f known) batch))" "p = if_path (fst z)" by blast
  then obtain f where "f \<in> set batch" "scan_file env repo f known = Scanned (fst z) (snd z)" using scanned_pairs_in by blast
  then show "p \<in> rf_path ` set batch" using scan_file_cases(1) z(2) by blast
qed

lemma scanned_pairs_distinct:
  "distinct (map rf_path batch) \<Longrightarrow> distinct (map (if_path \<circ> fst) (scanned_pairs (map (\<lambda>f. scan_file env repo f known) batch)))"
proof (induction batch)
  case (Cons f batch)
  let ?zs = "scanned_pairs (map (\<lambda>f. scan_file env repo f known) batch)"
  show ?case
  proof (cases "scan_file env repo f known")
    case (Scanned g r)
    then have "if_path g = rf_path f" using scan_file_cases(1) by blast
    then have "if_path g \<notin> (if_path \<circ> fst) ` set ?zs"
      using scanned_pairs_paths [of env repo known batch] Cons.prems by (auto simp: image_comp)
    then show ?thesis using Cons Scanned by (simp add: scanned_pairs_def map_filter_simps)
  qed (use Cons in \<open>simp_all add: scanned_pairs_def map_filter_simps\<close>)
qed (simp add: scanned_pairs_def map_filter_simps)

definition rows_true :: "'b holding \<Rightarrow> 'b indexer list \<Rightarrow> repo \<Rightarrow> 'b index_world \<Rightarrow> bool" where
  "rows_true holds ixs repo w \<longleftrightarrow>
     (\<forall>p r. file_at (iw_files w) (p_id repo) p = Some r \<and> fr_indexed r \<longrightarrow> (\<forall>ix \<in> set ixs. holds (ix_type ix) (iw_back w) p = Some (fr_hash r)))"

text \<open>What the pass already knows of a file is what the table says, and the index agrees with it.\<close>

definition knows :: "'b holding \<Rightarrow> 'b indexer list \<Rightarrow> repo \<Rightarrow> (string \<rightharpoonup> file_row) \<Rightarrow> string set \<Rightarrow> 'b index_world \<Rightarrow> bool" where
  "knows holds ixs repo known P w \<longleftrightarrow> (\<forall>p \<in> P. \<forall>row. known p = Some row \<and> fr_indexed row \<longrightarrow> settled holds ixs repo w p (fr_hash row))"

lemma index_window_sound:
  assumes laws: "\<forall>ix \<in> set ixs. lawful_indexer holds repo ix" "distinct (map ix_type ixs)"
    and run: "index_window env ixs repo force known batch pa w = (w', Inr pa')"
    and batch: "distinct (map rf_path batch)" "knows holds ixs repo known (rf_path ` set batch) w"
  shows "pa_failed pa \<subseteq> pa_failed pa' \<and> (finite (pa_failed pa) \<longrightarrow> finite (pa_failed pa')) \<and> untouched holds repo (rf_path ` set batch) w w' \<and>
    (\<forall>f \<in> set batch. \<forall>h. rf_path f \<notin> pa_failed pa' \<longrightarrow> content_hash env repo (rf_path f) = Some h \<longrightarrow> settled holds ixs repo w' (rf_path f) h) \<and>
    (\<forall>f \<in> set batch. content_hash env repo (rf_path f) = None \<longrightarrow> untouched holds repo (- {rf_path f}) w w')"
proof -
  let ?ss = "map (\<lambda>f. scan_file env repo f known) batch" and ?zs = "scanned_pairs (map (\<lambda>f. scan_file env repo f known) batch)"
  obtain failed cov where set: "index_file_set ixs repo (map fst ?zs) (map snd ?zs) force (pa_coverage pa) w = (w', Inr (failed, cov))"
    and failed: "pa_failed pa' = pa_failed pa \<union> failed"
    using run by (auto simp: index_window_def Let_def pairs_split split: prod.splits sum.splits)
  have rows: "\<forall>z \<in> set ?zs. pair_ok repo z" using scanned_pairs_in scan_file_cases(1) by (metis prod.collapse)
  note one = index_file_set_sound [OF laws set rows scanned_pairs_distinct [OF batch(1)]]
  note sub = scanned_pairs_paths [of env repo known batch]
  have settled: "settled holds ixs repo w' (rf_path f) h"
    if f: "f \<in> set batch" "rf_path f \<notin> pa_failed pa'" "content_hash env repo (rf_path f) = Some h" for f h
  proof (cases "scan_file env repo f known")
    case (Scanned g r)
    then have "(g, r) \<in> set ?zs" using f(1) by (simp add: scanned_pairs_in) blast
    moreover have "if_path g = rf_path f" "if_hash g = h" using f(3) scan_file_cases(1) [OF Scanned] by simp_all
    moreover have "rf_path f \<notin> failed" using f(2) failed by simp
    ultimately show ?thesis using bspec [OF conjunct1 [OF conjunct2 [OF conjunct2 [OF one]]], of "(g, r)"] by simp
  next
    case Skipped
    obtain row where row: "known (rf_path f) = Some row" "fr_indexed row" "fr_hash row = h" using scan_file_cases(2) [OF Skipped] f(3) by auto
    then have "settled holds ixs repo w (rf_path f) h" using batch(2) f(1) by (auto simp: knows_def)
    moreover have "rf_path f \<notin> if_path ` fst ` set ?zs"
    proof
      assume "rf_path f \<in> if_path ` fst ` set ?zs"
      then obtain z where z: "z \<in> set ?zs" "if_path (fst z) = rf_path f" by force
      then obtain g where g: "g \<in> set batch" "scan_file env repo g known = Scanned (fst z) (snd z)" using scanned_pairs_in by blast
      then have "rf_path g = rf_path f" using scan_file_cases(1) [OF g(2)] z(2) by simp
      then have "g = f" using batch(1) f(1) g(1) by (auto simp: distinct_map inj_on_def)
      then show False using g(2) Skipped by simp
    qed
    ultimately show ?thesis using untouched_settled [OF conjunct1 [OF conjunct2 [OF one]], of "rf_path f" ixs h] by simp
  next
    case (Unreadable err)
    then show ?thesis using scan_file_cases(3) [OF Unreadable] f(3) by simp
  qed
  have gone: "untouched holds repo (- {rf_path f}) w w'" if f: "f \<in> set batch" "content_hash env repo (rf_path f) = None" for f
  proof -
    have "rf_path f \<notin> if_path ` fst ` set ?zs"
    proof
      assume "rf_path f \<in> if_path ` fst ` set ?zs"
      then obtain z where z: "z \<in> set ?zs" "if_path (fst z) = rf_path f" by force
      then obtain g where g: "scan_file env repo g known = Scanned (fst z) (snd z)" using scanned_pairs_in by blast
      then show False using scan_file_cases(1) [OF g] z(2) f(2) by simp
    qed
    then show ?thesis by (intro untouched_mono [OF conjunct1 [OF conjunct2 [OF one]]]) auto
  qed
  have "finite failed" by (rule finite_subset [OF conjunct1 [OF one]]) simp
  moreover have "untouched holds repo (rf_path ` set batch) w w'" by (rule untouched_mono [OF conjunct1 [OF conjunct2 [OF one]] sub])
  ultimately show ?thesis using settled gone failed by simp
qed

lemma knows_subset: "knows holds ixs repo known P w \<Longrightarrow> Q \<subseteq> P \<Longrightarrow> knows holds ixs repo known Q w"
  unfolding knows_def by blast

lemma knows_untouched:
  assumes "knows holds ixs repo known P w" and "untouched holds repo lost w w'" and "P \<inter> lost = {}"
  shows "knows holds ixs repo known P w'"
  unfolding knows_def
proof (intro ballI allI impI)
  fix p row
  assume p: "p \<in> P" and row: "known p = Some row \<and> fr_indexed row"
  have "p \<notin> lost" using assms(3) p by blast
  then show "settled holds ixs repo w' p (fr_hash row)"
    using assms(1) p row untouched_settled [OF assms(2), of p ixs "fr_hash row"] by (simp add: knows_def)
qed

text \<open>What a run over a list of files leaves behind.\<close>

definition covers_files :: "'b holding \<Rightarrow> 'b index_env \<Rightarrow> 'b indexer list \<Rightarrow> repo \<Rightarrow> repo_file list \<Rightarrow> string set \<Rightarrow> 'b index_world \<Rightarrow> 'b index_world \<Rightarrow> bool" where
  "covers_files holds env ixs repo files failed w w' \<longleftrightarrow> untouched holds repo (rf_path ` set files) w w' \<and>
    (\<forall>f \<in> set files. \<forall>h. rf_path f \<notin> failed \<longrightarrow> content_hash env repo (rf_path f) = Some h \<longrightarrow> settled holds ixs repo w' (rf_path f) h) \<and>
    (\<forall>f \<in> set files. content_hash env repo (rf_path f) = None \<longrightarrow> untouched holds repo (- {rf_path f}) w w')"

lemma covers_append:
  assumes "covers_files holds env ixs repo fs failed w w1" and "covers_files holds env ixs repo gs failed' w1 w2"
    and "failed \<subseteq> failed'" and "rf_path ` set fs \<inter> rf_path ` set gs = {}"
  shows "covers_files holds env ixs repo (fs @ gs) failed' w w2"
proof -
  let ?F = "rf_path ` set fs" and ?G = "rf_path ` set gs"
  have u: "untouched holds repo ?F w w1" "untouched holds repo ?G w1 w2" using assms(1,2) by (simp_all add: covers_files_def)
  have "untouched holds repo (?F \<union> ?G) w w2"
    by (rule untouched_trans [OF untouched_mono [OF u(1)] untouched_mono [OF u(2)]]) auto
  moreover have "settled holds ixs repo w2 (rf_path f) h"
    if f: "f \<in> set (fs @ gs)" "rf_path f \<notin> failed'" "content_hash env repo (rf_path f) = Some h" for f h
  proof (cases "f \<in> set gs")
    case True
    then show ?thesis using assms(2) f by (simp add: covers_files_def)
  next
    case False
    then have "f \<in> set fs" using f(1) by simp
    moreover have "rf_path f \<notin> failed" using f(2) assms(3) by blast
    ultimately have "settled holds ixs repo w1 (rf_path f) h" using assms(1) f(3) by (simp add: covers_files_def)
    moreover have "rf_path f \<notin> ?G" using \<open>f \<in> set fs\<close> assms(4) by blast
    ultimately show ?thesis using untouched_settled [OF u(2)] by simp
  qed
  moreover have "untouched holds repo (- {rf_path f}) w w2" if f: "f \<in> set (fs @ gs)" "content_hash env repo (rf_path f) = None" for f
  proof (cases "f \<in> set fs")
    case True
    then have a: "untouched holds repo (- {rf_path f}) w w1" using assms(1) f(2) by (simp add: covers_files_def)
    have b: "?G \<subseteq> - {rf_path f}" using True assms(4) by blast
    show ?thesis by (rule untouched_trans [OF a untouched_mono [OF u(2) b]])
  next
    case False
    then have "f \<in> set gs" using f(1) by simp
    then have b: "untouched holds repo (- {rf_path f}) w1 w2" using assms(2) f(2) by (simp add: covers_files_def)
    have a: "?F \<subseteq> - {rf_path f}" using \<open>f \<in> set gs\<close> assms(4) by blast
    show ?thesis by (rule untouched_trans [OF untouched_mono [OF u(1) a] b])
  qed
  ultimately show ?thesis by (simp add: covers_files_def image_Un)
qed

lemma index_windows_sound:
  assumes laws: "\<forall>ix \<in> set ixs. lawful_indexer holds repo ix" "distinct (map ix_type ixs)"
  shows "index_windows env ixs repo force known files pa w = (w', Inr pa') \<Longrightarrow> distinct (map rf_path files) \<Longrightarrow>
    knows holds ixs repo known (rf_path ` set files) w \<Longrightarrow> finite (pa_failed pa) \<Longrightarrow>
    pa_failed pa \<subseteq> pa_failed pa' \<and> finite (pa_failed pa') \<and> covers_files holds env ixs repo files (pa_failed pa') w w'"
proof (induction "length files" arbitrary: files pa w rule: less_induct)
  case less
  show ?case
  proof (cases "files = []")
    case True
    then show ?thesis using less.prems by (simp add: index_windows.simps covers_files_def)
  next
    case False
    let ?a = "take index_batch_files files" and ?b = "drop index_batch_files files"
    obtain w1 pa1 where w1: "index_window env ixs repo force known ?a pa w = (w1, Inr pa1)"
        and rest: "index_windows env ixs repo force known ?b pa1 w1 = (w', Inr pa')"
      using less.prems(1) False by (subst (asm) index_windows.simps) (auto split: prod.splits sum.splits)
    have parts: "distinct (map rf_path ?a)" "distinct (map rf_path ?b)" "rf_path ` set ?a \<inter> rf_path ` set ?b = {}"
      "rf_path ` set ?a \<union> rf_path ` set ?b = rf_path ` set files"
    proof -
      have "map rf_path ?a @ map rf_path ?b = map rf_path files" by (simp only: map_append [symmetric] append_take_drop_id)
      then have "distinct (map rf_path ?a @ map rf_path ?b)" "set (map rf_path ?a @ map rf_path ?b) = set (map rf_path files)"
        using less.prems(2) by simp_all
      then show "distinct (map rf_path ?a)" "distinct (map rf_path ?b)" "rf_path ` set ?a \<inter> rf_path ` set ?b = {}"
        "rf_path ` set ?a \<union> rf_path ` set ?b = rf_path ` set files" by (simp_all only: distinct_append set_append set_map)
    qed
    have k: "knows holds ixs repo known (rf_path ` set ?a) w" "knows holds ixs repo known (rf_path ` set ?b) w"
      by (rule knows_subset [OF less.prems(3)], use parts(4) in blast)+
    note one = index_window_sound [OF laws w1 parts(1) k(1)]
    then have cov1: "covers_files holds env ixs repo ?a (pa_failed pa1) w w1" by (simp add: covers_files_def)
    have k1: "knows holds ixs repo known (rf_path ` set ?b) w1"
      by (rule knows_untouched [OF k(2)]) (use one parts(3) in blast)+
    have "length ?b < length files" using False by (simp add: index_batch_files_def)
    from less.hyps [OF this rest parts(2) k1] one less.prems(4)
    have two: "pa_failed pa1 \<subseteq> pa_failed pa' \<and> finite (pa_failed pa') \<and> covers_files holds env ixs repo ?b (pa_failed pa') w1 w'" by blast
    have "covers_files holds env ixs repo (?a @ ?b) (pa_failed pa') w w'"
      by (rule covers_append [OF cov1 _ _ parts(3)]) (use two in blast)+
    then show ?thesis using one two by (simp only: append_take_drop_id) blast
  qed
qed

section \<open>Before and after the windows\<close>

lemma remove_from_sound:
  "\<forall>ix \<in> set ixs. lawful_indexer holds repo ix \<Longrightarrow> remove_from_indexers (p_id repo) paths ixs b = (b', None) \<Longrightarrow> same_paths holds (set paths) b b'"
proof (induction ixs arbitrary: b)
  case (Cons ix ixs)
  obtain b1 where b1: "ix_remove ix (p_id repo) paths b = (b1, None)" "remove_from_indexers (p_id repo) paths ixs b1 = (b', None)"
    using Cons.prems(2) by (auto split: prod.splits option.splits)
  have "lawful_indexer holds repo ix" using Cons.prems(1) by simp
  then have "same_paths holds (set paths) b b1" using lawful_removal [OF _ b1(1)] by (simp add: same_paths_def)
  moreover have "same_paths holds (set paths) b1 b'" using Cons.IH [OF _ b1(2)] Cons.prems(1) by simp
  ultimately show ?case by (rule same_paths_trans)
qed simp

lemma file_at_in: "file_at t repo p = Some r \<Longrightarrow> r \<in> set t \<and> fr_repo r = repo \<and> fr_path r = p"
  unfolding file_at_def by (drule find_SomeD) simp

lemma stored_paths: "fr_path ` set (get_files_by_repo repo t) = {p. file_at t repo p \<noteq> None}"
  by (auto simp: get_files_by_repo_def file_at_def find_None_iff)

lemma remove_stale_sound:
  assumes "\<forall>ix \<in> set ixs. lawful_indexer holds repo ix" and "lawful_env holds env repo"
    and "remove_stale_files ixs (p_id repo) (get_files_by_repo (p_id repo) (iw_files w)) files w = (w', None)"
  shows "untouched holds repo (- rf_path ` set files) w w' \<and> (\<forall>p. p \<notin> rf_path ` set files \<longrightarrow> file_at (iw_files w') (p_id repo) p = None)"
proof -
  let ?stored = "get_files_by_repo (p_id repo) (iw_files w)" and ?stale = "stale_paths (get_files_by_repo (p_id repo) (iw_files w)) files"
  have stale: "set ?stale = {p. file_at (iw_files w) (p_id repo) p \<noteq> None} - rf_path ` set files"
    using stored_paths [of "p_id repo" "iw_files w"] by (auto simp: stale_paths_def)
  show ?thesis
  proof (cases "?stale = []")
    case True
    then have "w' = w" using assms(3) by (simp add: remove_stale_files_def Let_def)
    then show ?thesis using stale True by auto
  next
    case False
    then have "?stored \<noteq> []" by (auto simp: stale_paths_def)
    then obtain b where b: "remove_from_indexers (p_id repo) ?stale ixs (iw_back w) = (b, None)"
      and w': "w' = w\<lparr> iw_back := b\<lparr> bk_gdb := forget_paths (p_id repo) ?stale (bk_gdb b) \<rparr>, iw_files := delete_files_by_paths (p_id repo) ?stale (iw_files w) \<rparr>"
      using assms(3) False by (auto simp: remove_stale_files_def remove_indexed_paths_def Let_def split: prod.splits option.splits)
    have "same_paths holds (set ?stale) b (b\<lparr> bk_gdb := forget_paths (p_id repo) ?stale (bk_gdb b) \<rparr>)"
      using assms(2) by (simp add: lawful_env_def lawful_graph_def same_paths_def)
    then have "same_paths holds (set ?stale) (iw_back w) (iw_back w')" using w' same_paths_trans [OF remove_from_sound [OF assms(1) b]] by simp
    moreover have "file_at (iw_files w') (p_id repo) p = (if p \<in> set ?stale then None else file_at (iw_files w) (p_id repo) p)" for p
      using w' by (simp add: file_at_delete)
    ultimately have "untouched holds repo (set ?stale) w w'" "\<forall>p. p \<notin> rf_path ` set files \<longrightarrow> file_at (iw_files w') (p_id repo) p = None"
      using stale by (auto simp: untouched_def)
    moreover have "set ?stale \<subseteq> - rf_path ` set files" using stale by blast
    ultimately show ?thesis using untouched_mono by metis
  qed
qed

lemma compact_sound: "\<forall>ix \<in> set ixs. lawful_indexer holds repo ix \<Longrightarrow> same_paths holds {} b (compact_indexes ixs b)"
proof (induction ixs arbitrary: b)
  case (Cons ix ixs)
  let ?b = "case ix_compact ix of None \<Rightarrow> b | Some f \<Rightarrow> if ix_auto_compact ix then fst (f b) else b"
  have "lawful_indexer holds repo ix" using Cons.prems by simp
  then have "same_paths holds {} b ?b" by (auto simp: same_paths_def lawful_compact split: option.split)
  moreover have "same_paths holds {} ?b (compact_indexes ixs ?b)" using Cons by simp
  ultimately have "same_paths holds {} b (compact_indexes ixs ?b)" by (rule same_paths_trans)
  then show ?case by simp
qed simp

lemma detect_sound:
  assumes "lawful_env holds env repo" and "detect_services env repo b = (b', None)"
  shows "same_paths holds {} b b'"
proof -
  obtain services where "b' = b\<lparr> bk_gdb := store_services env repo services (bk_gdb b) \<rparr>"
    using assms(2) by (auto simp: detect_services_def store_services_def Let_def split: sum.splits)
  moreover have "lawful_graph holds {} (store_services env repo services)" using assms(1) by (simp add: lawful_env_def)
  ultimately show ?thesis by (simp add: lawful_graph_def same_paths_def)
qed

lemma finish_pass_sound:
  assumes "\<forall>ix \<in> set ixs. lawful_indexer holds repo ix" and "lawful_env holds env repo" and "finish_pass now env ixs repo pa w = (w', None)"
    and "finite (pa_failed pa)"
  shows "pa_failed pa = {} \<and> untouched holds repo {} w w'"
proof -
  let ?b0 = "if pa_indexed pa > 0 then compact_indexes (indexer_runs ixs) (iw_back w) else iw_back w"
  let ?b1 = "case ie_recon env of None \<Rightarrow> ?b0 | Some recon \<Rightarrow> recon repo ?b0"
  obtain b2 where b2: "detect_services env repo ?b1 = (b2, None)"
    using assms(3) by (auto simp: finish_pass_def Let_def split: prod.splits option.splits)
  let ?b3 = "ie_summarize_symbols env repo (ie_summarize env repo (pa_summary pa) b2)"
  have res: "iw_files w' = iw_files w" "iw_back w' = ?b3\<lparr> bk_gdb := link_repo env repo (bk_gdb ?b3) \<rparr>" "card (pa_failed pa) = 0"
    using assms(3) b2 by (auto simp: finish_pass_def Let_def split: if_splits)
  have "same_paths holds {} (iw_back w) ?b0" using compact_sound [of "indexer_runs ixs"] assms(1) by (simp add: runs_members)
  moreover have "same_paths holds {} ?b0 ?b1" using assms(2) by (simp add: same_paths_def lawful_env_def split: option.split)
  moreover have "same_paths holds {} ?b1 b2" by (rule detect_sound [OF assms(2) b2])
  moreover have "same_paths holds {} b2 ?b3" using assms(2) by (simp add: same_paths_def lawful_env_def)
  moreover have "same_paths holds {} ?b3 (iw_back w')" using assms(2) res(2) by (simp add: same_paths_def lawful_env_def lawful_graph_def)
  ultimately have "same_paths holds {} (iw_back w) (iw_back w')" by (meson same_paths_trans)
  then show ?thesis using res(1,3) assms(4) by (simp add: untouched_def)
qed

end
