(* ===== verification/Index_Pass_Sync.thy ===== *)
theory Index_Pass_Sync
  imports Index_Pass_Facts
begin

text \<open>The properties of a whole index pass, and what a failed file leaves behind.\<close>

lemma known_rows: "known_files force stored p = Some row \<Longrightarrow> \<not> force \<and> row \<in> set stored \<and> fr_path row = p"
proof -
  have "foldl (\<lambda>m f. m(fr_path f \<mapsto> f)) Map.empty stored p = Some row \<Longrightarrow> row \<in> set stored \<and> fr_path row = p"
    by (induction stored rule: rev_induct) (auto split: if_splits)
  then show "known_files force stored p = Some row \<Longrightarrow> \<not> force \<and> row \<in> set stored \<and> fr_path row = p"
    by (auto simp: known_files_def split: if_splits)
qed


section \<open>An example\<close>

text \<open>Indexers that keep the hash of each path in memory and fail on some contents.\<close>

definition mem_index :: "string \<Rightarrow> (indexed_file \<Rightarrow> bool) \<Rightarrow> repo \<Rightarrow> indexed_file list \<Rightarrow> bool \<Rightarrow> (string \<Rightarrow> string \<rightharpoonup> string) backend \<Rightarrow>
    (string \<Rightarrow> string \<rightharpoonup> string) backend \<times> (string + index_result option)" where
  "mem_index typ bad repo files force w =
     (w\<lparr> bk_rest := (bk_rest w)(typ := foldl (\<lambda>m f. m(if_path f \<mapsto> if_hash f)) (bk_rest w typ) (filter (\<lambda>f. \<not> bad f) files)) \<rparr>,
      Inr (Some \<lparr> ir_failed = int (length (filter bad files)), ir_errors = map (\<lambda>f. if_path f @ '': refused'') (filter bad files), ir_coverage = None \<rparr>))"

definition mem_remove :: "string \<Rightarrow> string \<Rightarrow> string list \<Rightarrow> (string \<Rightarrow> string \<rightharpoonup> string) backend \<Rightarrow> (string \<Rightarrow> string \<rightharpoonup> string) backend \<times> string option" where
  "mem_remove typ repo paths w =
     (w\<lparr> bk_rest := (bk_rest w)(typ := foldl (\<lambda>m p. m(p := None)) (bk_rest w typ) paths) \<rparr>, None)"

definition mem_indexer :: "string \<Rightarrow> (indexed_file \<Rightarrow> bool) \<Rightarrow> (string \<Rightarrow> string \<rightharpoonup> string) indexer" where
  "mem_indexer typ bad = \<lparr> ix_type = typ, ix_name = typ, ix_index = mem_index typ bad, ix_remove = mem_remove typ,
     ix_coverage = (\<lambda>w. None), ix_compact = None, ix_auto_compact = True \<rparr>"

definition mem_holds :: "(string \<Rightarrow> string \<rightharpoonup> string) holding" where
  "mem_holds t w p = bk_rest w t p"

definition mem_env :: "string \<Rightarrow> (string \<Rightarrow> string \<rightharpoonup> string) index_env" where
  "mem_env content = \<lparr> ie_files = (\<lambda>r. Some (Inr [\<lparr> rf_path = ''a.go'', rf_language = ''go'', rf_size = 2 \<rparr>])),
     ie_stat = (\<lambda>r p. Regular), ie_read = (\<lambda>r p. Inr content), ie_hash = (\<lambda>c. c), ie_summary_budget = 0, ie_recon = None,
     ie_detect = (\<lambda>r. Inr []), ie_hints = (\<lambda>r w. []), ie_unit_meta = (\<lambda>a b. []), ie_summarize = (\<lambda>r fs w. w),
     ie_summarize_symbols = (\<lambda>r w. w), ie_link = (\<lambda>r g. g), ie_refine = None \<rparr>"

definition mem_world :: "(string \<Rightarrow> string \<rightharpoonup> string) index_world" where
  "mem_world = \<lparr> iw_files = [], iw_coverage = [], iw_back = \<lparr> bk_gdb = \<lparr> g_units = [], g_edges = [], g_next_unit = 1, g_next_edge = 1 \<rparr>, bk_rest = (\<lambda>t. Map.empty) \<rparr> \<rparr>"

definition mem_repo :: repo where
  "mem_repo = \<lparr> p_id = ''r'', p_name = ''r'', p_source = ''local'', p_url = [], p_path = ''/r'', p_branch = [], p_status = Idle, p_last_error = [],
     p_created = 0, p_indexed = 0, p_last_commit = [], p_claimed_by = [], p_claim_expires = 0, p_pending_commit = [], p_active = True \<rparr>"

definition mem_indexers :: "(string \<Rightarrow> string \<rightharpoonup> string) indexer list" where
  "mem_indexers = [mem_indexer ''ast'' (\<lambda>f. False), mem_indexer ''vector'' (\<lambda>f. if_content f = ''v2'')]"

lemma mem_put:
  "foldl (\<lambda>m f. m(if_path f \<mapsto> if_hash f)) m fs p = (if p \<in> if_path ` set fs then Some (if_hash (last (filter (\<lambda>f. if_path f = p) fs))) else m p)"
  by (induction fs rule: rev_induct) auto

lemma mem_put_in: "distinct (map if_path fs) \<Longrightarrow> f \<in> set fs \<Longrightarrow> foldl (\<lambda>m f. m(if_path f \<mapsto> if_hash f)) m fs (if_path f) = Some (if_hash f)"
proof (induction fs rule: rev_induct)
  case (snoc x xs)
  then show ?case by (cases "f = x") (auto simp: image_iff)
qed simp

lemma mem_clear: "p \<notin> set ps \<Longrightarrow> foldl (\<lambda>m p. m(p := None)) m ps p = m p"
  by (induction ps rule: rev_induct) auto

lemma mem_lawful: "lawful_indexer mem_holds repo (mem_indexer typ (\<lambda>f. False))"
proof -
  have "mem_holds t w' p = mem_holds t w p" if "mem_index typ (\<lambda>f. False) repo files force w = (w', r)" "t \<noteq> typ \<or> p \<notin> if_path ` set files"
    for files force w w' r t p
    using that by (auto simp: mem_index_def mem_holds_def mem_put)
  moreover have "reports files (mem_holds typ w') res"
    if "mem_index typ (\<lambda>f. False) repo files force w = (w', Inr res)" "distinct (map if_path files)" for files force w w' res
  proof -
    have res: "res = Some \<lparr> ir_failed = 0, ir_errors = [], ir_coverage = None \<rparr>" and w': "mem_holds typ w' = foldl (\<lambda>m f. m(if_path f \<mapsto> if_hash f)) (bk_rest w typ) files"
      using that(1) by (auto simp: mem_index_def mem_holds_def fun_eq_iff)
    have "missed files (mem_holds typ w') = {}" using mem_put_in [OF that(2)] by (simp add: missed_def w')
    then show ?thesis by (simp add: res reports_def attributed_def map_filter_simps)
  qed
  ultimately have "indexes_lawfully mem_holds repo (mem_indexer typ (\<lambda>f. False))"
    unfolding indexes_lawfully_def mem_indexer_def by simp blast
  moreover have "removes_lawfully mem_holds repo (mem_indexer typ (\<lambda>f. False))"
    by (auto simp: removes_lawfully_def mem_indexer_def mem_remove_def mem_holds_def mem_clear)
  ultimately show ?thesis by (simp add: lawful_indexer_def compacts_lawfully_def mem_indexer_def)
qed

lemma mem_env_lawful: "lawful_env mem_holds (mem_env c) repo"
  by (simp add: lawful_env_def lawful_graph_def mem_holds_def mem_env_def)

lemma mem_pass: "snd (do_index 1 (mem_env ''v1'') [mem_indexer ''ast'' (\<lambda>f. False)] mem_repo False mem_world) = None"
  by code_simp



end
