(* ===== verification/Go_Regexp.thy ===== *)
theory Go_Regexp
  imports Go_Strings
begin

text \<open>
  The regular expressions of the Go standard library as the sources use them: the syntax the patterns are
  written in, the leftmost-first matching of package \<open>regexp\<close>, and the functions that return submatches.

  A text is the list of its runes, each with the bytes it was decoded from, so that a submatch is again a
  string of bytes. An expression is matched by listing the outcomes in the order a backtracking search
  tries them: an alternative prefers its left side and a greedy repetition the longer one. The first outcome
  at the leftmost start that has one is the match. A repetition drops iterations that consume nothing,
  which no pattern of the sources can tell from the rule of the library.
\<close>

section \<open>Runes\<close>

type_synonym rune = int

definition rune_error :: rune where
  "rune_error = 65533"

definition byte_code :: "char \<Rightarrow> int" where
  "byte_code c = of_char c"

lemma byte_code_eq: "byte_code c = int (byte_of c)"
  by (simp add: byte_code_def byte_of_def of_nat_of_char)

definition continues :: "string \<Rightarrow> nat \<Rightarrow> int \<Rightarrow> int \<Rightarrow> bool" where
  "continues s i lo hi \<longleftrightarrow> i < length s \<and> lo \<le> byte_code (s ! i) \<and> byte_code (s ! i) \<le> hi"

text \<open>The first rune of a string and its width, as \<open>utf8.DecodeRuneInString\<close>.\<close>

definition first_rune :: "string \<Rightarrow> rune \<times> nat" where
  "first_rune s =
     (if s = [] then (rune_error, 0) else
      let b0 = byte_code (hd s); tail = (\<lambda>i. byte_code (s ! i) mod 64) in
      if b0 < 128 then (b0, 1)
      else if 194 \<le> b0 \<and> b0 \<le> 223 then
        (if continues s 1 128 191 then ((b0 - 192) * 64 + tail 1, 2) else (rune_error, 1))
      else if 224 \<le> b0 \<and> b0 \<le> 239 then
        (if continues s 1 (if b0 = 224 then 160 else 128) (if b0 = 237 then 159 else 191) \<and> continues s 2 128 191
         then ((b0 - 224) * 4096 + tail 1 * 64 + tail 2, 3) else (rune_error, 1))
      else if 240 \<le> b0 \<and> b0 \<le> 244 then
        (if continues s 1 (if b0 = 240 then 144 else 128) (if b0 = 244 then 143 else 191) \<and> continues s 2 128 191 \<and> continues s 3 128 191
         then ((b0 - 240) * 262144 + tail 1 * 4096 + tail 2 * 64 + tail 3, 4) else (rune_error, 1))
      else (rune_error, 1))"

type_synonym runes = "(rune \<times> string) list"

function decode_runes :: "string \<Rightarrow> runes" where
  "decode_runes s =
     (if s = [] then []
      else case first_rune s of (c, w) \<Rightarrow> (c, take (max 1 w) s) # decode_runes (drop (max 1 w) s))"
  by auto
termination by (relation "measure length") auto

declare decode_runes.simps [simp del]

definition rune_text :: "runes \<Rightarrow> string" where
  "rune_text t = concat (map snd t)"

lemma decode_runes_Nil [simp]: "decode_runes [] = []"
  by (simp add: decode_runes.simps)

lemma decode_runes_Cons:
  "decode_runes (c # s) = (let w = max 1 (snd (first_rune (c # s)))
     in (fst (first_rune (c # s)), take w (c # s)) # decode_runes (drop w (c # s)))"
  by (subst decode_runes.simps) (simp add: case_prod_beta Let_def)

lemma rune_text_decode [simp]: "rune_text (decode_runes s) = s"
proof (induction s rule: decode_runes.induct)
  case (1 s)
  show ?case
  proof (cases "s = []")
    case False
    obtain c w where cw: "first_rune s = (c, w)" by fastforce
    from 1 [OF False cw [symmetric]] show ?thesis
      using False cw by (subst decode_runes.simps) (simp add: rune_text_def)
  qed (simp add: rune_text_def)
qed

text \<open>An ASCII string has one rune for each of its bytes.\<close>

lemma first_rune_ascii: "byte_of c < 128 \<Longrightarrow> first_rune (c # s) = (byte_code c, 1)"
  by (simp add: first_rune_def byte_code_eq Let_def)

lemma decode_runes_ascii:
  "\<forall>c \<in> set s. byte_of c < 128 \<Longrightarrow> decode_runes s = map (\<lambda>c. (byte_code c, [c])) s"
  by (induction s) (auto simp: decode_runes_Cons first_rune_ascii)

section \<open>Expressions\<close>

datatype re =
    Empty
  | Class bool bool "(rune \<times> rune) list"
  | Concat re re
  | Alternate re re
  | Repeat bool re
  | Capture nat re
  | WordBoundary
  | BeginText
  | EndText

text \<open>
  A class is negated or not, folds case or not, and lists ranges of runes. The orbit of a rune holds the
  runes \<open>unicode.SimpleFold\<close> joins with it, for the runes that the patterns of the sources mention.
\<close>

definition cyrillic_folds :: "(rune \<times> rune) list" where
  "cyrillic_folds = [(7296, 1074), (7297, 1076), (7298, 1086), (7299, 1089), (7300, 1090), (7301, 1090), (7302, 1098)]"

definition fold_rune :: "rune \<Rightarrow> rune" where
  "fold_rune c =
     (if 65 \<le> c \<and> c \<le> 90 then c + 32
      else if c = 8490 then 107
      else if c = 383 then 115
      else if 1040 \<le> c \<and> c \<le> 1071 then c + 32
      else if 1024 \<le> c \<and> c \<le> 1039 then c + 80
      else case map_of cyrillic_folds c of Some d \<Rightarrow> d | None \<Rightarrow> c)"

text \<open>Two runes fold together when they have the same representative; the ranges of a folding class are written
  in lower case, so that a rune is in the folded class when its representative is in the ranges.\<close>

definition in_ranges :: "(rune \<times> rune) list \<Rightarrow> rune \<Rightarrow> bool" where
  "in_ranges rs c \<longleftrightarrow> list_ex (\<lambda>(lo, hi). lo \<le> c \<and> c \<le> hi) rs"

definition class_matches :: "bool \<Rightarrow> bool \<Rightarrow> (rune \<times> rune) list \<Rightarrow> rune \<Rightarrow> bool" where
  "class_matches neg fd rs c \<longleftrightarrow> (in_ranges rs (if fd then fold_rune c else c) \<noteq> neg)"

definition word_rune :: "rune \<Rightarrow> bool" where
  "word_rune c \<longleftrightarrow> (48 \<le> c \<and> c \<le> 57) \<or> (65 \<le> c \<and> c \<le> 90) \<or> c = 95 \<or> (97 \<le> c \<and> c \<le> 122)"

definition word_at :: "runes \<Rightarrow> nat \<Rightarrow> bool" where
  "word_at t i \<longleftrightarrow> i < length t \<and> word_rune (fst (t ! i))"

definition at_boundary :: "runes \<Rightarrow> nat \<Rightarrow> bool" where
  "at_boundary t i \<longleftrightarrow> (0 < i \<and> word_at t (i - 1)) \<noteq> word_at t i"

type_synonym captures = "nat \<rightharpoonup> nat \<times> nat"

function outcomes :: "re \<Rightarrow> runes \<Rightarrow> nat \<times> captures \<Rightarrow> (nat \<times> captures) list" where
  "outcomes Empty t s = [s]"
| "outcomes (Class neg fd rs) t s =
     (if fst s < length t \<and> class_matches neg fd rs (fst (t ! fst s)) then [(Suc (fst s), snd s)] else [])"
| "outcomes (Concat a b) t s = concat (map (outcomes b t) (outcomes a t s))"
| "outcomes (Alternate a b) t s = outcomes a t s @ outcomes b t s"
| "outcomes (Repeat greedy a) t s =
     (let again = concat (map (outcomes (Repeat greedy a) t)
            (filter (\<lambda>s'. fst s < fst s' \<and> fst s' \<le> length t) (outcomes a t s)))
      in if greedy then again @ [s] else s # again)"
| "outcomes (Capture n a) t s = map (\<lambda>s'. (fst s', (snd s')(n \<mapsto> (fst s, fst s')))) (outcomes a t s)"
| "outcomes WordBoundary t s = (if at_boundary t (fst s) then [s] else [])"
| "outcomes BeginText t s = (if fst s = 0 then [s] else [])"
| "outcomes EndText t s = (if fst s = length t then [s] else [])"
  by pat_completeness auto
termination
  by (relation "(\<lambda>(r, t, s). size r) <*mlex*> measure (\<lambda>(r, t, s). length t - fst s)")
    (auto intro: mlex_less mlex_leq wf_mlex)

declare outcomes.simps(5) [simp del]

section \<open>Matching\<close>

fun first_from :: "re \<Rightarrow> runes \<Rightarrow> nat list \<Rightarrow> (nat \<times> nat \<times> captures) option" where
  "first_from r t [] = None"
| "first_from r t (i # is) =
     (case outcomes r t (i, Map.empty) of [] \<Rightarrow> first_from r t is | s # _ \<Rightarrow> Some (i, s))"

text \<open>The leftmost-first match at or after a position: where it starts, where it ends, its submatches.\<close>

definition match_from :: "re \<Rightarrow> runes \<Rightarrow> nat \<Rightarrow> (nat \<times> nat \<times> captures) option" where
  "match_from r t pos = first_from r t [pos..<Suc (length t)]"

definition slice :: "runes \<Rightarrow> nat \<Rightarrow> nat \<Rightarrow> string" where
  "slice t i j = rune_text (take (j - i) (drop i t))"

definition group_text :: "runes \<Rightarrow> nat \<times> nat \<times> captures \<Rightarrow> nat \<Rightarrow> string" where
  "group_text t m n =
     (case m of (i, j, caps) \<Rightarrow>
       if n = 0 then slice t i j else case caps n of None \<Rightarrow> [] | Some (a, b) \<Rightarrow> slice t a b)"

text \<open>\<open>FindStringSubmatch\<close>: the submatches as a function of the group number.\<close>

definition find_submatch :: "re \<Rightarrow> string \<Rightarrow> (nat \<Rightarrow> string) option" where
  "find_submatch r s = (let t = decode_runes s in map_option (group_text t) (match_from r t 0))"

definition match_string :: "re \<Rightarrow> string \<Rightarrow> bool" where
  "match_string r s \<longleftrightarrow> match_from r (decode_runes s) 0 \<noteq> None"

text \<open>
  \<open>FindAllStringSubmatch\<close>: matches that do not overlap, left to right; an empty match right after the
  previous match is skipped.
\<close>

function all_matches :: "re \<Rightarrow> runes \<Rightarrow> nat \<Rightarrow> nat option \<Rightarrow> (nat \<times> nat \<times> captures) list" where
  "all_matches r t pos prev =
     (if pos > length t then []
      else case match_from r t pos of
        None \<Rightarrow> []
      | Some m \<Rightarrow>
          if fst (snd m) \<le> pos
          then (if Some (fst m) = prev then [] else [m]) @ all_matches r t (Suc pos) (Some (fst (snd m)))
          else m # all_matches r t (fst (snd m)) (Some (fst (snd m))))"
  by auto
termination by (relation "measure (\<lambda>(r, t, pos, prev). Suc (length t) - pos)") auto

declare all_matches.simps [simp del]

definition find_all_submatch :: "re \<Rightarrow> string \<Rightarrow> (nat \<Rightarrow> string) list" where
  "find_all_submatch r s = (let t = decode_runes s in map (group_text t) (all_matches r t 0 None))"

section \<open>Writing patterns\<close>

definition literal_rune :: "rune \<Rightarrow> re" where
  "literal_rune c = Class False False [(c, c)]"

fun seqs :: "re list \<Rightarrow> re" where
  "seqs [] = Empty"
| "seqs [r] = r"
| "seqs (r # rs) = Concat r (seqs rs)"

fun alts :: "re list \<Rightarrow> re" where
  "alts [] = Empty"
| "alts [r] = r"
| "alts (r # rs) = Alternate r (alts rs)"

definition lit :: "string \<Rightarrow> re" where
  "lit s = seqs (map (\<lambda>p. literal_rune (fst p)) (decode_runes s))"

definition opt :: "re \<Rightarrow> re" where
  "opt r = Alternate r Empty"

definition star :: "re \<Rightarrow> re" where
  "star r = Repeat True r"

definition plus :: "re \<Rightarrow> re" where
  "plus r = Concat r (star r)"

definition plus_lazy :: "re \<Rightarrow> re" where
  "plus_lazy r = Concat r (Repeat False r)"

text \<open>\<open>r{n,}\<close>, greedy or not, and \<open>r{1,3}\<close>.\<close>

definition at_least :: "bool \<Rightarrow> nat \<Rightarrow> re \<Rightarrow> re" where
  "at_least greedy n r = seqs (replicate n r @ [Repeat greedy r])"

definition one_to_three :: "re \<Rightarrow> re" where
  "one_to_three r = Concat r (opt (Concat r (opt r)))"

definition space_class :: "(rune \<times> rune) list" where
  "space_class = [(9, 10), (12, 13), (32, 32)]"

definition spaces :: re where "spaces = plus (Class False False space_class)"
definition spaces0 :: re where "spaces0 = star (Class False False space_class)"
definition not_space :: re where "not_space = Class True False space_class"
definition any_rune :: re where "any_rune = Class True False [(10, 10)]"
definition re_digit :: re where "re_digit = Class False False [(48, 57)]"

definition rune_class :: "string \<Rightarrow> (rune \<times> rune) list" where
  "rune_class s = map (\<lambda>p. (fst p, fst p)) (decode_runes s)"

definition one_of :: "string \<Rightarrow> re" where
  "one_of s = Class False False (rune_class s)"

definition none_of :: "string \<Rightarrow> re" where
  "none_of s = Class True False (rune_class s)"

text \<open>The flag \<open>(?i)\<close> turns every class of an expression that is not negated into a folding one.\<close>

fun ignore_case :: "re \<Rightarrow> re" where
  "ignore_case (Class neg fd rs) = (if neg then Class neg fd rs else Class neg True (map (\<lambda>(lo, hi). (fold_rune lo, fold_rune hi)) rs))"
| "ignore_case (Concat a b) = Concat (ignore_case a) (ignore_case b)"
| "ignore_case (Alternate a b) = Alternate (ignore_case a) (ignore_case b)"
| "ignore_case (Repeat g a) = Repeat g (ignore_case a)"
| "ignore_case (Capture n a) = Capture n (ignore_case a)"
| "ignore_case r = r"

definition ascii_letters :: "(rune \<times> rune) list" where
  "ascii_letters = [(65, 90), (97, 122)]"

definition lower_letters :: "(rune \<times> rune) list" where "lower_letters = [(97, 122)]"
definition upper_letters :: "(rune \<times> rune) list" where "upper_letters = [(65, 90)]"
definition digit_class :: "(rune \<times> rune) list" where "digit_class = [(48, 57)]"

section \<open>What an expression matches\<close>

text \<open>
  The meaning of an expression on a text, apart from the order of preference and the submatches: the pairs
  of positions it can join.
\<close>

primrec joins :: "re \<Rightarrow> runes \<Rightarrow> (nat \<times> nat) set" where
  "joins Empty t = {(i, i) | i. i \<le> length t}"
| "joins (Class neg fd rs) t = {(i, Suc i) | i. i < length t \<and> class_matches neg fd rs (fst (t ! i))}"
| "joins (Concat a b) t = joins a t O joins b t"
| "joins (Alternate a b) t = joins a t \<union> joins b t"
| "joins (Repeat greedy a) t = (joins a t)\<^sup>* \<inter> {(i, j). i \<le> length t}"
| "joins (Capture n a) t = joins a t"
| "joins WordBoundary t = {(i, i) | i. i \<le> length t \<and> at_boundary t i}"
| "joins BeginText t = {(0, 0)}"
| "joins EndText t = {(length t, length t)}"

lemma joins_bounds: "(i, j) \<in> joins r t \<Longrightarrow> i \<le> j \<and> j \<le> length t"
proof (induction r arbitrary: i j)
  case (Concat a b)
  then show ?case by (auto intro: order_trans dest!: Concat.IH)
next
  case (Repeat g a)
  then have "(i, j) \<in> (joins a t)\<^sup>*" and "i \<le> length t" by auto
  then show ?case by (induction rule: rtrancl_induct) (auto intro: order_trans dest!: Repeat.IH)
qed auto

text \<open>Iterations that consume nothing can be left out.\<close>

lemma star_progress:
  assumes "(i, j) \<in> R\<^sup>*" and mono: "\<And>i j. (i, j) \<in> R \<Longrightarrow> i \<le> (j::nat)"
  shows "i = j \<or> (\<exists>k > i. (i, k) \<in> R \<and> (k, j) \<in> R\<^sup>*)"
  using assms(1)
proof (induction rule: converse_rtrancl_induct)
  case (step a b)
  show ?case
  proof (cases "a = b")
    case True
    then show ?thesis using step.IH by simp
  next
    case False
    then have "a < b" using mono [OF step.hyps(1)] by simp
    then show ?thesis using step.hyps by blast
  qed
qed simp

lemma set_outcomes:
  "fst s \<le> length t \<Longrightarrow> fst ` set (outcomes r t s) = {j. (fst s, j) \<in> joins r t}"
proof (induction r t s rule: outcomes.induct)
  case (3 a b t s)
  have "fst ` set (outcomes (Concat a b) t s) = (\<Union>x \<in> set (outcomes a t s). fst ` set (outcomes b t x))"
    by auto
  also have "\<dots> = (\<Union>x \<in> set (outcomes a t s). {j. (fst x, j) \<in> joins b t})"
  proof (rule SUP_cong [OF refl])
    fix x assume x: "x \<in> set (outcomes a t s)"
    then have "(fst s, fst x) \<in> joins a t" using 3(1) [OF 3(3)] by blast
    then have "fst x \<le> length t" using joins_bounds by blast
    then show "fst ` set (outcomes b t x) = {j. (fst x, j) \<in> joins b t}" using 3(2) [OF x] by simp
  qed
  also have "\<dots> = (\<Union>k \<in> fst ` set (outcomes a t s). {j. (k, j) \<in> joins b t})" by simp
  also have "\<dots> = {j. (fst s, j) \<in> joins (Concat a b) t}" unfolding 3(1) [OF 3(3)] by auto
  finally show ?case .
next
  case (5 g a t s)
  let ?xs = "filter (\<lambda>s'. fst s < fst s' \<and> fst s' \<le> length t) (outcomes a t s)"
  let ?R = "joins a t"
  have a: "fst ` set (outcomes a t s) = {j. (fst s, j) \<in> ?R}" using 5 by simp
  have mono: "i \<le> j \<and> j \<le> length t" if "(i, j) \<in> ?R" for i j using joins_bounds that by blast
  have ks: "fst ` set ?xs = {k. fst s < k \<and> (fst s, k) \<in> ?R}" (is "?L = ?K")
  proof
    show "?L \<subseteq> ?K" using a by auto
    show "?K \<subseteq> ?L"
    proof
      fix k assume k: "k \<in> ?K"
      then have "k \<in> fst ` set (outcomes a t s)" using a by blast
      then obtain x where "x \<in> set (outcomes a t s)" "k = fst x" by blast
      then have "x \<in> set ?xs" using k mono [of "fst s" k] by simp
      then show "k \<in> ?L" using \<open>k = fst x\<close> by blast
    qed
  qed
  have "(\<Union>x \<in> set ?xs. fst ` set (outcomes (Repeat g a) t x)) = (\<Union>x \<in> set ?xs. {j. (fst x, j) \<in> joins (Repeat g a) t})"
    using 5(2) by (intro SUP_cong refl) auto
  also have "\<dots> = (\<Union>k \<in> ?K. {j. (k, j) \<in> joins (Repeat g a) t})" unfolding ks [symmetric] by simp
  also have "\<dots> = {j. \<exists>k. fst s < k \<and> (fst s, k) \<in> ?R \<and> (k, j) \<in> ?R\<^sup>*}"
    (is "_ = ?S")
  proof (intro set_eqI iffI)
    fix j assume "j \<in> (\<Union>k \<in> ?K. {j. (k, j) \<in> joins (Repeat g a) t})"
    then show "j \<in> ?S" by (simp only: joins.simps) blast
  next
    fix j assume "j \<in> ?S"
    then obtain k where k: "fst s < k" "(fst s, k) \<in> ?R" "(k, j) \<in> ?R\<^sup>*" by blast
    then have "(k, j) \<in> joins (Repeat g a) t" using mono [OF k(2)] by simp
    then show "j \<in> (\<Union>k \<in> ?K. {j. (k, j) \<in> joins (Repeat g a) t})" using k by blast
  qed
  finally have again: "fst ` set (concat (map (outcomes (Repeat g a) t) ?xs)) = \<dots>" by (simp add: image_UN)
  have "fst ` set (outcomes (Repeat g a) t s) = insert (fst s) (fst ` set (concat (map (outcomes (Repeat g a) t) ?xs)))"
    by (subst outcomes.simps(5)) (simp add: Let_def)
  also have "\<dots> = {j. (fst s, j) \<in> joins (Repeat g a) t}"
  proof (intro set_eqI iffI)
    fix j
    assume "j \<in> {j. (fst s, j) \<in> joins (Repeat g a) t}"
    then have "(fst s, j) \<in> ?R\<^sup>*" by simp
    from star_progress [OF this] mono
    show "j \<in> insert (fst s) (fst ` set (concat (map (outcomes (Repeat g a) t) ?xs)))"
      unfolding again by blast
  next
    fix j
    assume "j \<in> insert (fst s) (fst ` set (concat (map (outcomes (Repeat g a) t) ?xs)))"
    then have "j = fst s \<or> (\<exists>k. (fst s, k) \<in> ?R \<and> (k, j) \<in> ?R\<^sup>*)" unfolding again by blast
    then have "(fst s, j) \<in> ?R\<^sup>*" by (blast intro: converse_rtrancl_into_rtrancl)
    then show "j \<in> {j. (fst s, j) \<in> joins (Repeat g a) t}" using 5(3) by simp
  qed
  finally show ?case .
next
  case (4 a b t s)
  have "fst ` set (outcomes (Alternate a b) t s) = fst ` set (outcomes a t s) \<union> fst ` set (outcomes b t s)"
    by (simp add: image_Un)
  then show ?case unfolding 4(1) [OF 4(3)] 4(2) [OF 4(3)] by auto
next
  case (6 n a t s)
  then show ?case by (simp add: image_image)
qed auto

lemma outcomes_Nil: "i \<le> length t \<Longrightarrow> outcomes r t (i, c) = [] \<longleftrightarrow> (\<forall>j. (i, j) \<notin> joins r t)"
  using set_outcomes [of "(i, c)" t r] by (cases "outcomes r t (i, c)") auto

lemma first_from_None: "first_from r t is = None \<longleftrightarrow> (\<forall>i \<in> set is. outcomes r t (i, Map.empty) = [])"
  by (induction "is") (auto split: list.split)

lemma first_from_Some:
  "first_from r t is = Some (i, m) \<Longrightarrow> i \<in> set is \<and> m \<in> set (outcomes r t (i, Map.empty)) \<and>
     (\<exists>us vs. is = us @ i # vs \<and> (\<forall>k \<in> set us. outcomes r t (k, Map.empty) = []))"
proof (induction "is")
  case (Cons k ks)
  show ?case
  proof (cases "outcomes r t (k, Map.empty)")
    case Nil
    then have "first_from r t ks = Some (i, m)" using Cons.prems by simp
    from Cons.IH [OF this] obtain us vs where "ks = us @ i # vs" "\<forall>k \<in> set us. outcomes r t (k, Map.empty) = []"
      "m \<in> set (outcomes r t (i, Map.empty))" by blast
    then have "k # ks = (k # us) @ i # vs" and "\<forall>x \<in> set (k # us). outcomes r t (x, Map.empty) = []" and "i \<in> set (k # ks)"
      using Nil by simp_all
    then show ?thesis using \<open>m \<in> set (outcomes r t (i, Map.empty))\<close> by blast
  next
    case (Cons x xs)
    then have eq: "k = i" "x = m" using Cons.prems by simp_all
    have "k # ks = [] @ i # ks" and "\<forall>x \<in> set []. outcomes r t (x, Map.empty) = []" by (simp_all add: eq)
    then show ?thesis using Cons eq by (metis list.set_intros(1))
  qed
qed simp

text \<open>
  A search finds a match exactly when the expression joins two positions at or after the start; the match is
  one the expression allows, and nothing to the left of it starts one.
\<close>

theorem search_is_leftmost:
  "(case match_from r t pos of
      None \<Rightarrow> \<forall>i j. pos \<le> i \<longrightarrow> (i, j) \<notin> joins r t
    | Some (i, j, c) \<Rightarrow> pos \<le> i \<and> (i, j) \<in> joins r t \<and> (\<forall>k l. pos \<le> k \<and> k < i \<longrightarrow> (k, l) \<notin> joins r t))"
proof (cases "match_from r t pos")
  case None
  then have "\<forall>i \<in> set [pos..<Suc (length t)]. outcomes r t (i, Map.empty) = []"
    unfolding match_from_def first_from_None .
  moreover have "i \<le> length t" if "(i, j) \<in> joins r t" for i j using joins_bounds [OF that] by simp
  ultimately show ?thesis using None outcomes_Nil by fastforce
next
  case (Some m)
  obtain i j c where m: "m = (i, j, c)" by (cases m) auto
  from Some m have ff: "first_from r t [pos..<Suc (length t)] = Some (i, (j, c))" by (simp add: match_from_def)
  from first_from_Some [OF ff] obtain us vs where i: "pos \<le> i" "i \<le> length t"
    and o: "(j, c) \<in> set (outcomes r t (i, Map.empty))"
    and sp: "[pos..<Suc (length t)] = us @ i # vs" and us: "\<forall>k \<in> set us. outcomes r t (k, Map.empty) = []"
    by (auto simp del: upt_Suc)
  have ij: "(i, j) \<in> joins r t"
    using set_outcomes [of "(i, Map.empty)" t r] i o by (auto simp: image_iff set_eq_iff) force
  have "(k, l) \<notin> joins r t" if k: "pos \<le> k" "k < i" for k l
  proof -
    have "sorted (us @ i # vs)" and "distinct (us @ i # vs)" unfolding sp [symmetric] by (simp_all del: upt_Suc)
    moreover have "k \<in> set (us @ i # vs)" unfolding sp [symmetric] using k i by simp
    ultimately have "k \<in> set us" using k by (auto simp: sorted_append)
    then show ?thesis using us outcomes_Nil [of k t r] k i by auto
  qed
  then show ?thesis using Some m i ij by simp
qed

end
