(* ===== verification/Promote_Intent.thy ===== *)
theory Promote_Intent
  imports Go_Regexp Search_Service Graph_Services
begin

text \<open>
  The intent of a question (\<open>internal/app/promote/promote.go\<close>, \<open>internal/app/promote/intent.go\<close>): the patterns
  that recognise a question about callers, the callee they capture, and which handling a request asks for.
  Reads of the store and of the graph over it do not fail in the model of this package.
\<close>

section \<open>The promoter\<close>

record promoter =
  pr_store :: "gdb option"
  pr_graph :: "gdb option"
  pr_intent_off :: bool

definition new_promoter :: "gdb option \<Rightarrow> gdb option \<Rightarrow> string \<Rightarrow> promoter" where
  "new_promoter st g intent_mode =
     \<lparr> pr_store = st, pr_graph = g, pr_intent_off = equal_fold (trim_space intent_mode) ''off'' \<rparr>"

section \<open>Patterns\<close>

text \<open>A word with an optional final s, and a word given by its runes.\<close>

definition s_opt :: "string \<Rightarrow> re" where
  "s_opt w = Concat (lit w) (opt (lit ''s''))"

definition lit_runes :: "rune list \<Rightarrow> re" where
  "lit_runes cs = seqs (map literal_rune cs)"

definition action_verbs :: re where
  "action_verbs = alts
    [s_opt ''call'', s_opt ''invoke'', s_opt ''use'', s_opt ''read'', s_opt ''consume'', s_opt ''create'', s_opt ''instantiate'', s_opt ''construct'', s_opt ''register'', s_opt ''trigger'', s_opt ''ask'', s_opt ''schedule'', s_opt ''start'', s_opt ''launche'', s_opt ''open'', s_opt ''close'', s_opt ''delete'', s_opt ''update'',
     lit ''queries'', s_opt ''fetche'', s_opt ''load'', s_opt ''save'', s_opt ''emit'', s_opt ''dispatche'', s_opt ''send'', s_opt ''publishe'', s_opt ''produce'',
     Concat (s_opt ''write'') (opt (Concat spaces (lit ''to''))),
     seqs [s_opt ''wire'', spaces0, opt (lit ''up'')],
     seqs [s_opt ''listen'', spaces, lit ''to''], seqs [s_opt ''subscribe'', spaces, lit ''to'']]"

text \<open>The described thing is the last three or more runes of a pattern, as submatch 1.\<close>

definition callee_group :: re where
  "callee_group = Capture 1 (at_least True 3 any_rune)"

definition what_calls_re :: re where
  "what_calls_re = ignore_case (seqs [BeginText, spaces0, alts [lit ''what'', lit ''who'', lit ''which''],
     opt (Concat spaces (plus (Class False False lower_letters))), spaces, action_verbs, spaces, callee_group, EndText])"

definition callers_of_re :: re where
  "callers_of_re = ignore_case (seqs [WordBoundary, alts [s_opt ''caller'', seqs [lit ''call'', spaces0, s_opt ''site''],
     s_opt ''usage'', s_opt ''user'', s_opt ''consumer''], spaces, lit ''of'', spaces, callee_group, EndText])"

definition where_called_re :: re where
  "where_called_re = ignore_case (seqs [BeginText, spaces0, lit ''where'', spaces, alts [lit ''is'', lit ''are''], spaces,
     Capture 1 (at_least False 3 any_rune), spaces,
     alts [lit ''called'', lit ''used'', lit ''invoked'', lit ''referenced'', lit ''instantiated'', lit ''created'', lit ''constructed'',
       lit ''registered'', lit ''read'', lit ''written'', lit ''consumed'', seqs [lit ''wired'', spaces0, opt (lit ''up'')]], WordBoundary])"

definition where_does_re :: re where
  "where_does_re = ignore_case (seqs [BeginText, spaces0, lit ''where'', spaces, alts [lit ''do'', lit ''does''], spaces,
     one_to_three (Concat (plus (Class False False (lower_letters @ digit_class @ rune_class ''_.-''))) spaces),
     action_verbs, spaces, callee_group, EndText])"

definition how_does_re :: re where
  "how_does_re = ignore_case (seqs [BeginText, spaces0, lit ''how'', spaces, lit ''do'', opt (lit ''es''), spaces,
     at_least False 3 any_rune, spaces,
     alts [s_opt ''call'', s_opt ''check'', Concat (lit ''verif'') (alts [lit ''y'', lit ''ies'']), s_opt ''validate'',
       Concat (lit ''reach'') (opt (lit ''es'')), seqs [s_opt ''talk'', spaces, lit ''to''], lit ''queries'',
       Concat (lit ''fetch'') (opt (lit ''es'')), s_opt ''read'', s_opt ''use'', s_opt ''invoke''],
     spaces, callee_group, EndText])"

text \<open>The two Russian patterns: who or what calls, and where something is called.\<close>

definition russian_who_re :: re where
  "russian_who_re = ignore_case (seqs [BeginText, spaces0,
     alts [lit_runes [1082, 1090, 1086], lit_runes [1095, 1090, 1086],
       seqs [lit_runes [1082, 1072, 1082, 1086, 1081], spaces, plus not_space],
       seqs [lit_runes [1082, 1072, 1082, 1072, 1103], spaces, plus not_space],
       seqs [lit_runes [1082, 1072, 1082, 1080, 1077], spaces, plus not_space]], spaces,
     alts [lit_runes [1074, 1099, 1079, 1099, 1074, 1072, 1077, 1090],
       lit_runes [1074, 1099, 1079, 1099, 1074, 1072, 1102, 1090],
       lit_runes [1080, 1089, 1087, 1086, 1083, 1100, 1079, 1091, 1077, 1090],
       lit_runes [1080, 1089, 1087, 1086, 1083, 1100, 1079, 1091, 1102, 1090],
       lit_runes [1095, 1080, 1090, 1072, 1077, 1090],
       lit_runes [1089, 1086, 1079, 1076, 1072, 1077, 1090],
       lit_runes [1089, 1086, 1079, 1076, 1072, 1105, 1090],
       lit_runes [1088, 1077, 1075, 1080, 1089, 1090, 1088, 1080, 1088, 1091, 1077, 1090],
       lit_runes [1079, 1072, 1087, 1091, 1089, 1082, 1072, 1077, 1090],
       lit_runes [1087, 1091, 1073, 1083, 1080, 1082, 1091, 1077, 1090],
       lit_runes [1087, 1086, 1090, 1088, 1077, 1073, 1083, 1103, 1077, 1090],
       lit_runes [1096, 1083, 1077, 1090],
       lit_runes [1096, 1083, 1105, 1090]],
     spaces, callee_group, EndText])"

definition russian_where_re :: re where
  "russian_where_re = ignore_case (seqs [BeginText, spaces0, lit_runes [1075, 1076, 1077], spaces,
     alts [lit_runes [1074, 1099, 1079, 1099, 1074, 1072, 1077, 1090, 1089, 1103],
       lit_runes [1080, 1089, 1087, 1086, 1083, 1100, 1079, 1091, 1077, 1090, 1089, 1103],
       lit_runes [1095, 1080, 1090, 1072, 1077, 1090, 1089, 1103],
       lit_runes [1089, 1086, 1079, 1076, 1072, 1077, 1090, 1089, 1103],
       lit_runes [1089, 1086, 1079, 1076, 1072, 1105, 1090, 1089, 1103],
       lit_runes [1088, 1077, 1075, 1080, 1089, 1090, 1088, 1080, 1088, 1091, 1077, 1090, 1089, 1103],
       lit_runes [1079, 1072, 1087, 1091, 1089, 1082, 1072, 1077, 1090, 1089, 1103]],
     spaces, callee_group, EndText])"

definition callers_patterns :: "re list" where
  "callers_patterns = [what_calls_re, callers_of_re, where_called_re, where_does_re, how_does_re, russian_who_re, russian_where_re]"

section \<open>Detection\<close>

fun strip_word :: "string list \<Rightarrow> string \<Rightarrow> string" where
  "strip_word [] s = s"
| "strip_word (w # ws) s =
     (if length w < length s \<and> equal_fold (take (length w) s) w then trim_space (drop (length w) s) else strip_word ws s)"

definition clean_callee :: "string \<Rightarrow> string" where
  "clean_callee s =
     (let s = trim_space s;
          s = strip_word [''that '', ''if '', ''whether ''] s;
          s = strip_word [''the '', ''a '', ''an ''] s
      in if length s < 3 then [] else s)"

fun detect_in :: "re list \<Rightarrow> string \<Rightarrow> (string \<times> bool)" where
  "detect_in [] q = ([], False)"
| "detect_in (r # rs) q =
     (case find_submatch r q of
        None \<Rightarrow> detect_in rs q
      | Some m \<Rightarrow> let callee = clean_callee (m 1) in if callee \<noteq> [] then (callee, True) else detect_in rs q)"

definition detect_callers_intent :: "string \<Rightarrow> string \<times> bool" where
  "detect_callers_intent question =
     (let q = trim_space question; q = trim_suffix q ''?''; q = trim_space q in detect_in callers_patterns q)"

section \<open>The intent of a request\<close>

definition intent_auto :: string where "intent_auto = ''auto''"
definition intent_callers :: string where "intent_callers = ''callers''"
definition intent_none :: string where "intent_none = ''none''"

datatype intent_error = UnknownIntent string

definition intent_enabled :: "promoter \<Rightarrow> query \<Rightarrow> bool" where
  "intent_enabled p q =
     (let i = to_lower (trim_space (q_intent q)) in
      if i = intent_none then False
      else if i = [] \<or> i = intent_auto then \<not> pr_intent_off p
      else True)"

definition resolve_intent :: "promoter \<Rightarrow> query \<Rightarrow> intent_error + string \<times> string" where
  "resolve_intent p q =
     (let i = to_lower (trim_space (q_intent q)) in
      if i = [] \<or> i = intent_auto then
        (if pr_intent_off p then Inr ([], [])
         else case detect_callers_intent (q_text q) of
           (callee, ok) \<Rightarrow> if ok then Inr (intent_callers, callee) else Inr ([], []))
      else if i = intent_callers then
        (case detect_callers_intent (q_text q) of
           (callee, ok) \<Rightarrow> if ok then Inr (intent_callers, callee) else Inr (intent_callers, trim_space (q_text q)))
      else if i = intent_none then Inr ([], [])
      else Inl (UnknownIntent (q_intent q)))"

end
