(* ===== verification/Promote_Callers.thy ===== *)
theory Promote_Callers
  imports Promote_Intent
begin

text \<open>
  Answering a question about callers from the graph (\<open>internal/app/promote/callers.go\<close>): the callees a
  description can mean, their incoming edges in order, the hits at the call sites, and putting what the
  graph knows in front of the ranked text hits.
\<close>

section \<open>Small helpers\<close>

fun dedup_in :: "string list \<Rightarrow> string list \<Rightarrow> string list" where
  "dedup_in seen [] = []"
| "dedup_in seen (s # ss) = (if s = [] \<or> s \<in> set seen then dedup_in seen ss else s # dedup_in (s # seen) ss)"

definition dedup_strings :: "string list \<Rightarrow> string list" where
  "dedup_strings ss = dedup_in [] ss"

definition repo_allowed :: "string list \<Rightarrow> string \<Rightarrow> bool" where
  "repo_allowed allowed repo \<longleftrightarrow> length allowed = 0 \<or> list_ex (\<lambda>r. r = repo) allowed"

definition overlaps_any :: "hit \<Rightarrow> hit list \<Rightarrow> bool" where
  "overlaps_any h hs \<longleftrightarrow> list_ex (\<lambda>p. overlaps p h) hs"

fun first_non_empty :: "string list \<Rightarrow> string" where
  "first_non_empty [] = []"
| "first_non_empty (v # vs) = (if v \<noteq> [] then v else first_non_empty vs)"

definition first_doc_line :: "string \<Rightarrow> string" where
  "first_doc_line doc = first_non_empty (map trim_space (split_on (CHR 0x0A) doc))"

fun shape_scan :: "bool \<Rightarrow> bool \<Rightarrow> bool \<Rightarrow> bool \<Rightarrow> bool \<Rightarrow> string \<Rightarrow> bool" where
  "shape_scan prev_lower lower upper digit change [] = (if change then True else digit \<and> (lower \<or> upper))"
| "shape_scan prev_lower lower upper digit change (c # cs) =
     (if is_lower c then shape_scan True True upper digit change cs
      else if is_upper c then shape_scan False lower True digit (change \<or> prev_lower) cs
      else if is_digit c then shape_scan False lower upper True change cs
      else shape_scan False lower upper digit change cs)"

definition identifier_shaped :: "string \<Rightarrow> bool" where
  "identifier_shaped tok \<longleftrightarrow> contains tok ''_'' \<or> shape_scan False False False False False tok"

definition ident_byte :: "char \<Rightarrow> bool" where
  "ident_byte c \<longleftrightarrow> c = CHR ''_'' \<or> is_lower c \<or> is_upper c \<or> is_digit c"

definition identifier_tokens :: "string \<Rightarrow> string list" where
  "identifier_tokens s =
     dedup_strings (filter (\<lambda>tok. length tok \<ge> 3 \<and> identifier_shaped tok) (fields_func (\<lambda>c. \<not> ident_byte c) s))"

definition name_described :: "string \<Rightarrow> string list \<Rightarrow> bool" where
  "name_described nm words =
     (let comps = word_components nm in
      if length comps = 0 then False
      else list_all (\<lambda>c. c \<in> set words) comps \<and> sum_list (map length comps) \<ge> 4)"

text \<open>Units by id; the id 0 is the empty one.\<close>

fun dedup_ids :: "nat list \<Rightarrow> nat list \<Rightarrow> nat list" where
  "dedup_ids seen [] = []"
| "dedup_ids seen (i # is) = (if i = 0 \<or> i \<in> set seen then dedup_ids seen is else i # dedup_ids (i # seen) is)"

definition promoter_units :: "gdb \<Rightarrow> nat list \<Rightarrow> nat \<rightharpoonup> ast_unit" where
  "promoter_units d ids =
     (if length ids = 0 then Map.empty
      else foldl (\<lambda>m u. m(u_id u \<mapsto> u)) Map.empty (get_ast_units_by_ids (dedup_ids [] ids) d))"

section \<open>Putting hits in front\<close>

definition promoted_score_step :: rat where
  "promoted_score_step = f32 (1 / 1000)"

definition top_score :: "hit list \<Rightarrow> rat" where
  "top_score hits = (case hits of [] \<Rightarrow> 1 | h # _ \<Rightarrow> if h_score h > 0 then h_score h else 1)"

definition promoted_score :: "rat \<Rightarrow> nat \<Rightarrow> rat" where
  "promoted_score t k = f32 (t + f32 (promoted_score_step * f32 (of_nat k)))"

definition prepend_promoted :: "hit list \<Rightarrow> hit list \<Rightarrow> hit list" where
  "prepend_promoted promoted hits =
     (let t = top_score hits;
          promoted = map (\<lambda>(i, h). h\<lparr> h_score := promoted_score t (length promoted - i) \<rparr>) (enumerate 0 promoted)
      in promoted @ filter (\<lambda>h. \<not> overlaps_any h promoted) hits)"

section \<open>The order of edges\<close>

definition structural_edge_kinds :: "string list" where
  "structural_edge_kinds = [''import'', ''implements_rpc'', ''runtime_call'']"

definition caller_kind_rank :: "(string \<times> nat) list" where
  "caller_kind_rank = [(''call'', 0), (''rpc_call'', 1), (''http_call'', 2), (''handled_by'', 3), (''produces'', 4), (''consumes'', 5),
     (''writes_to'', 6), (''reads_from'', 7), (''rpc_request'', 8), (''rpc_response'', 9), (''kafka_flow'', 10)]"

definition caller_kind_verb :: "(string \<times> string) list" where
  "caller_kind_verb = [(''call'', ''calls''), (''rpc_call'', ''rpc call to''), (''http_call'', ''http call to''),
     (''handled_by'', ''routes to''), (''produces'', ''publishes to''), (''consumes'', ''consumes''), (''writes_to'', ''writes''),
     (''reads_from'', ''reads''), (''rpc_request'', ''uses message''), (''rpc_response'', ''uses message''), (''kafka_flow'', ''feeds'')]"

definition caller_verb :: "string \<Rightarrow> string" where
  "caller_verb k = (case map_of caller_kind_verb k of Some v \<Rightarrow> v | None \<Rightarrow> ''uses'')"

definition kind_rank :: "string \<Rightarrow> nat" where
  "kind_rank k = (case map_of caller_kind_rank k of Some r \<Rightarrow> r | None \<Rightarrow> length caller_kind_rank)"

definition resolved_edge :: "edge \<Rightarrow> bool" where
  "resolved_edge e \<longleftrightarrow> e_dst e \<noteq> 0"

definition edge_before :: "(string \<Rightarrow> nat) \<Rightarrow> edge \<Rightarrow> edge \<Rightarrow> bool" where
  "edge_before rk a b =
     (if rk (e_kind a) \<noteq> rk (e_kind b) then rk (e_kind a) < rk (e_kind b)
      else if is_test_path (e_file a) \<noteq> is_test_path (e_file b) then \<not> is_test_path (e_file a)
      else if resolved_edge a \<noteq> resolved_edge b then resolved_edge a
      else if e_conf a \<noteq> e_conf b then e_conf a > e_conf b
      else if e_file a \<noteq> e_file b then e_file a < e_file b
      else e_line a < e_line b)"

definition sort_edges_by :: "(string \<Rightarrow> nat) \<Rightarrow> edge list \<Rightarrow> edge list" where
  "sort_edges_by rk edges = sort_lt (edge_before rk) edges"

definition sort_caller_edges :: "edge list \<Rightarrow> edge list" where
  "sort_caller_edges edges = sort_edges_by kind_rank edges"

section \<open>Callees\<close>

record callee_group =
  cg_key :: string
  cg_repr :: ast_unit
  cg_ids :: "nat list"

definition callee_max_units :: nat where "callee_max_units = 8"
definition callee_ids_per_group :: nat where "callee_ids_per_group = 25"
definition callee_from_hits :: nat where "callee_from_hits = 6"
definition callee_rank_gate :: nat where "callee_rank_gate = 2"
definition callee_name_lookup :: int where "callee_name_lookup = 60"

definition callee_key :: "ast_unit \<Rightarrow> string" where
  "callee_key u = (if u_qualified u = [] then u_kind u @ [CHR 0x00] @ u_name u else u_qualified u)"

definition add_id :: "nat \<Rightarrow> callee_group \<Rightarrow> callee_group" where
  "add_id i g = (if length (cg_ids g) < callee_ids_per_group then g\<lparr> cg_ids := cg_ids g @ [i] \<rparr> else g)"

definition add_callee :: "callee_group list \<Rightarrow> ast_unit \<Rightarrow> callee_group list" where
  "add_callee gs u =
     (if u_id u = 0 then gs
      else let key = callee_key u in
        if list_ex (\<lambda>g. cg_key g = key) gs then map (\<lambda>g. if cg_key g = key then add_id (u_id u) g else g) gs
        else if length gs \<ge> callee_max_units then gs
        else gs @ [\<lparr> cg_key = key, cg_repr = u, cg_ids = [u_id u] \<rparr>])"

definition rank_gate_kind :: "string \<Rightarrow> bool" where
  "rank_gate_kind k \<longleftrightarrow> k \<noteq> ''config_key'' \<and> k \<noteq> ''summary''"

definition named_callees :: "gdb \<Rightarrow> query \<Rightarrow> callee_group list \<Rightarrow> string \<Rightarrow> callee_group list" where
  "named_callees d q gs tok =
     (let opts = any_opts\<lparr> o_name := tok, o_limit := callee_name_lookup \<rparr>;
          opts = (if length (q_repos q) = 1 then opts\<lparr> o_repo := hd (q_repos q) \<rparr> else opts)
      in foldl add_callee gs (filter (\<lambda>u. repo_allowed (q_repos q) (u_repo u)) (get_ast_units opts d)))"

fun hit_callees :: "gdb \<Rightarrow> string list \<Rightarrow> nat \<Rightarrow> callee_group list \<Rightarrow> hit list \<Rightarrow> callee_group list" where
  "hit_callees d words i gs [] = gs"
| "hit_callees d words i gs (h # hs) =
     (if i \<ge> callee_from_hits \<or> length gs \<ge> callee_max_units then gs
      else case unit_in_range (h_repo h) (h_file h) (h_line h) (h_end h) d of
        Inl _ \<Rightarrow> hit_callees d words (Suc i) gs hs
      | Inr u \<Rightarrow>
          let gated = (i < callee_rank_gate \<and> \<not> is_test_path (h_file h) \<and> rank_gate_kind (u_kind u))
          in hit_callees d words (Suc i) (if gated \<or> name_described (u_name u) words then add_callee gs u else gs) hs)"

definition callee_units :: "gdb \<Rightarrow> gdb \<Rightarrow> query \<Rightarrow> string \<Rightarrow> hit list \<Rightarrow> callee_group list" where
  "callee_units d g q callee hits =
     hit_callees g (word_components callee) 0 (foldl (named_callees d q) [] (identifier_tokens callee)) hits"

section \<open>Call sites\<close>

definition caller_edge_limit :: int where "caller_edge_limit = 50"
definition max_promoted_callers :: nat where "max_promoted_callers = 10"

definition edges_into :: "gdb \<Rightarrow> edge list \<Rightarrow> nat \<Rightarrow> edge list" where
  "edges_into d edges i =
     (if int (length edges) \<ge> caller_edge_limit then edges
      else edges @ get_edges (any_opts\<lparr> o_dst := i, o_limit := caller_edge_limit - int (length edges) \<rparr>) d)"

definition incoming_edges :: "gdb \<Rightarrow> callee_group \<Rightarrow> edge list" where
  "incoming_edges d g =
     (let edges = foldl (edges_into d) [] (cg_ids g);
          edges = (if int (length edges) < caller_edge_limit
                   then edges @ get_edges (any_opts\<lparr> o_repo := u_repo (cg_repr g), o_name := u_name (cg_repr g), o_unresolved := True,
                                                     o_limit := caller_edge_limit - int (length edges) \<rparr>) d
                   else edges)
      in filter (\<lambda>e. e_kind e \<notin> set structural_edge_kinds \<and> e_src e \<notin> set (cg_ids g)) edges)"

definition unit_head :: "ast_unit \<Rightarrow> string" where
  "unit_head u =
     (if u_kind u \<noteq> [] then u_kind u @ '' '' else []) @ first_non_empty [u_qualified u, u_name u] @ u_signature u @
     (let doc = first_doc_line (u_doc u) in if doc \<noteq> [] then CHR 0x0A # doc else [])"

definition caller_snippet :: "edge \<Rightarrow> ast_unit option \<Rightarrow> ast_unit \<Rightarrow> string \<Rightarrow> string" where
  "caller_snippet e src callee verb =
     (case src of None \<Rightarrow> [] | Some u \<Rightarrow> unit_head u @ [CHR 0x0A]) @ verb @ '' '' @ first_non_empty [u_qualified callee, u_name callee] @
     '' at '' @ e_file e @ '':'' @ itoa (e_line e)"

definition edge_site :: "edge \<Rightarrow> string \<Rightarrow> hit" where
  "edge_site e reason =
     \<lparr> h_repo = e_repo e, h_file = e_file e, h_path = e_file e, h_line = e_line e, h_end = e_line e, h_symbol = [], h_kind = [],
       h_lang = [], h_score = 0, h_snippet = [], h_reason = reason \<rparr>"

definition of_source :: "ast_unit option \<Rightarrow> hit \<Rightarrow> hit" where
  "of_source src h =
     (case src of None \<Rightarrow> h | Some u \<Rightarrow> h\<lparr> h_symbol := u_name u, h_kind := u_kind u, h_lang := u_language u \<rparr>)"

definition caller_hit :: "edge \<Rightarrow> ast_unit option \<Rightarrow> ast_unit \<Rightarrow> hit" where
  "caller_hit e src callee =
     (let verb = caller_verb (e_kind e) in
      (of_source src (edge_site e (verb @ '' '' @ u_name callee)))\<lparr> h_snippet := caller_snippet e src callee verb \<rparr>)"

definition site_key :: "edge \<Rightarrow> string" where
  "site_key e = e_repo e @ [CHR 0x00] @ e_file e @ [CHR 0x00] @ itoa (e_line e)"

definition passes :: "filters \<Rightarrow> hit \<Rightarrow> bool" where
  "passes f h \<longleftrightarrow> filters_empty f \<or> filters_match f (h_lang h) (h_kind h) (h_file h)"

type_synonym sites = "hit list \<times> string list \<times> bool"

definition visit_callee :: "query \<Rightarrow> filters \<Rightarrow> (nat \<rightharpoonup> ast_unit) \<Rightarrow> nat \<Rightarrow> sites \<Rightarrow> callee_group \<times> edge list \<Rightarrow> sites" where
  "visit_callee q f srcs rnd st ge =
     (case st of (out, seen, advanced) \<Rightarrow> case ge of (g, edges) \<Rightarrow>
       if rnd \<ge> length edges \<or> length out \<ge> max_promoted_callers then st
       else let e = edges ! rnd in
         if \<not> repo_allowed (q_repos q) (e_repo e) then (out, seen, True)
         else if site_key e \<in> set seen then (out, seen, True)
         else let h = caller_hit e (srcs (e_src e)) (cg_repr g) in
           if \<not> passes f h then (out, seen, True)
           else (out @ [h], site_key e # seen, True))"

definition caller_round :: "query \<Rightarrow> filters \<Rightarrow> (nat \<rightharpoonup> ast_unit) \<Rightarrow> (callee_group \<times> edge list) list \<Rightarrow> nat \<Rightarrow> hit list \<times> string list \<Rightarrow> sites" where
  "caller_round q f srcs per_callee rnd st = foldl (visit_callee q f srcs rnd) (fst st, snd st, False) per_callee"

lemma visit_advanced:
  "snd (snd (visit_callee q f srcs rnd st ge)) \<Longrightarrow> snd (snd st) \<or> rnd < length (snd ge)"
  by (cases st; cases ge) (auto simp: visit_callee_def Let_def split: if_splits)

lemma round_advanced:
  "snd (snd (foldl (visit_callee q f srcs rnd) st per_callee)) \<Longrightarrow> snd (snd st) \<or> (\<exists>ge \<in> set per_callee. rnd < length (snd ge))"
proof (induction per_callee arbitrary: st)
  case (Cons ge ges)
  then show ?case using visit_advanced [of q f srcs rnd st ge] by fastforce
qed simp

function caller_rounds :: "query \<Rightarrow> filters \<Rightarrow> (nat \<rightharpoonup> ast_unit) \<Rightarrow> (callee_group \<times> edge list) list \<Rightarrow> nat \<Rightarrow> hit list \<times> string list \<Rightarrow> hit list" where
  "caller_rounds q f srcs per_callee rnd st =
     (if length (fst st) \<ge> max_promoted_callers then fst st
      else case caller_round q f srcs per_callee rnd st of (out, seen, advanced) \<Rightarrow>
        if advanced then caller_rounds q f srcs per_callee (Suc rnd) (out, seen) else out)"
  by auto
termination
proof (relation "measure (\<lambda>(q, f, srcs, per_callee, rnd, st). sum_list (map (length \<circ> snd) per_callee) - rnd)")
  fix q f srcs rnd out y seen advanced and per_callee :: "(callee_group \<times> edge list) list" and st :: "hit list \<times> string list"
  assume "(out, y) = caller_round q f srcs per_callee rnd st" and "(seen, advanced) = y" and "advanced"
  then have "snd (snd (foldl (visit_callee q f srcs rnd) (fst st, snd st, False) per_callee))"
    by (metis caller_round_def snd_conv)
  from round_advanced [OF this] obtain ge where ge: "ge \<in> set per_callee" "rnd < length (snd ge)" by auto
  then have "length (snd ge) \<le> sum_list (map (length \<circ> snd) per_callee)" by (intro member_le_sum_list) auto
  then show "((q, f, srcs, per_callee, Suc rnd, out, seen), q, f, srcs, per_callee, rnd, st)
      \<in> measure (\<lambda>(q, f, srcs, per_callee, rnd, st). sum_list (map (length \<circ> snd) per_callee) - rnd)"
    using ge by simp
qed simp

declare caller_rounds.simps [simp del]

definition caller_hits :: "gdb \<Rightarrow> query \<Rightarrow> callee_group list \<Rightarrow> hit list" where
  "caller_hits d q callees =
     (let f = parse_filters (q_filter q);
          per_callee = map (\<lambda>g. (g, sort_caller_edges (incoming_edges d g))) callees;
          src_ids = concat (map (\<lambda>ge. filter (\<lambda>i. i \<noteq> 0) (map e_src (snd ge))) per_callee);
          srcs = promoter_units d src_ids
      in caller_rounds q f srcs per_callee 0 ([], []))"

text \<open>The metadata map of a result is written in place; it is never nil here.\<close>

definition promote_callers :: "promoter \<Rightarrow> query \<Rightarrow> string \<Rightarrow> hit list \<times> meta \<Rightarrow> hit list \<times> meta" where
  "promote_callers p q callee hm =
     (case hm of (hits, m) \<Rightarrow>
      (case (pr_store p, pr_graph p) of
        (Some d, Some g) \<Rightarrow>
          let m = m(''intent'' \<mapsto> MString intent_callers);
              callees = callee_units d g q callee hits
          in if length callees = 0 then (hits, m)
             else let m = m(''intent_callees'' \<mapsto> MStrings (map (\<lambda>g. u_name (cg_repr g)) callees));
                      promoted = caller_hits d q callees
                  in if length promoted = 0 then (hits, m)
                     else (prepend_promoted promoted hits, m(''intent_promoted'' \<mapsto> MInt (int (length promoted))))
      | _ \<Rightarrow> (hits, m)))"

end
