(* ===== verification/Promote_Contracts.thy ===== *)
theory Promote_Contracts
  imports Promote_Callers
begin

text \<open>
  Answering a question that names a contract (\<open>internal/app/promote/contracts.go\<close>): the literal keys of a
  question, the code that declares and serves them, and the implementations of a described rpc.
\<close>

section \<open>Patterns\<close>

definition name_start :: re where "name_start = Class False False (ascii_letters @ rune_class ''_'')"
definition name_rest :: re where "name_rest = star (Class False False (ascii_letters @ digit_class @ rune_class ''_''))"
definition dotted_rest :: re where "dotted_rest = star (Class False False (ascii_letters @ digit_class @ rune_class ''_.''))"
definition dashed_rest :: re where "dashed_rest = star (Class False False (ascii_letters @ digit_class @ rune_class ''_.-''))"

definition quote_runes :: string where
  "quote_runes = [CHR 0x22, CHR 0x27, CHR 0x60]"

definition http_verb_alts :: re where
  "http_verb_alts = alts [lit ''GET'', lit ''POST'', lit ''PUT'', lit ''PATCH'', lit ''DELETE'', lit ''HEAD'', lit ''OPTIONS'']"

definition http_key_re :: re where
  "http_key_re = ignore_case (seqs [WordBoundary, Capture 1 http_verb_alts, spaces,
     Capture 2 (Concat (lit ''/'') (star (Class True False (space_class @ rune_class (('','' @ '';'' @ '')'') @ [CHR 0x22, CHR 0x27])))))])"

text \<open>The introducer, the quote and the name after a keyword.\<close>

definition introduced :: "re \<Rightarrow> re" where
  "introduced nm = seqs [opt (Capture 1 (alts [Concat (lit ''named'') spaces, Concat (lit ''called'') spaces])),
     opt (Capture 2 (one_of quote_runes)), Capture 3 nm]"

definition table_after_re :: re where
  "table_after_re = ignore_case (seqs [WordBoundary, lit ''table'', opt (lit ''s''), spaces, introduced (Concat name_start name_rest)])"

definition table_before_re :: re where
  "table_before_re = ignore_case (seqs [WordBoundary, Capture 1 (Concat name_start name_rest), spaces, lit ''table'', opt (lit ''s''), WordBoundary])"

definition channel_words :: re where
  "channel_words = Concat (alts [lit ''topic'', lit ''queue'', lit ''channel'', lit ''subject'', lit ''stream'']) (opt (lit ''s''))"

definition topic_after_re :: re where
  "topic_after_re = ignore_case (seqs [WordBoundary, channel_words, spaces, introduced (Concat name_start dashed_rest)])"

definition topic_before_re :: re where
  "topic_before_re = ignore_case (seqs [WordBoundary, Capture 1 (Concat name_start dashed_rest), spaces, channel_words, WordBoundary])"

definition upper_start :: re where "upper_start = Class False False upper_letters"

definition grpc_pair_re :: re where
  "grpc_pair_re = seqs [WordBoundary, Capture 1 (Concat name_start dotted_rest), lit ''/'', Capture 2 (Concat upper_start name_rest), WordBoundary]"

definition grpc_method_re :: re where
  "grpc_method_re = ignore_case (seqs [WordBoundary, alts [lit ''grpc'', lit ''rpc''], spaces,
     opt (alts [Concat (lit ''method'') spaces, Concat (lit ''call'') spaces]), Capture 1 (Concat upper_start name_rest), WordBoundary])"

definition rpc_mention_re :: re where
  "rpc_mention_re = ignore_case (seqs [WordBoundary, alts [lit ''grpc'', lit ''rpc''], WordBoundary])"

section \<open>The keys of a question\<close>

record contract_ref =
  cr_kind :: kind
  cr_key :: string

definition max_contract_keys :: nat where "max_contract_keys = 4"

definition contract_noise :: "string list" where
  "contract_noise = [''a'', ''an'', ''the'', ''this'', ''that'', ''its'', ''database'', ''db'', ''sql'', ''message'', ''event'',
     ''kafka'', ''rabbitmq'', ''nats'', ''sqs'', ''pubsub'', ''same'', ''which'', ''what'', ''one'', ''each'']"

fun entity_scan :: "bool \<Rightarrow> string \<Rightarrow> bool" where
  "entity_scan prev_lower [] = False"
| "entity_scan prev_lower (c # cs) =
     (if c = CHR ''_'' \<or> c = CHR ''.'' \<or> c = CHR ''-'' then True
      else if is_digit c then True
      else if is_upper c \<and> prev_lower then True
      else entity_scan (is_lower c) cs)"

definition entity_shaped :: "string \<Rightarrow> bool" where
  "entity_shaped nm = entity_scan False nm"

definition named_entities :: "string \<Rightarrow> re \<Rightarrow> re \<Rightarrow> string list" where
  "named_entities question after before =
     (let named_after = map (\<lambda>m. m 3) (filter (\<lambda>m. m 1 \<noteq> [] \<or> m 2 \<noteq> [] \<or> entity_shaped (m 3)) (find_all_submatch after question));
          named_before = map (\<lambda>m. m 1) (find_all_submatch before question);
          trimmed = map (trim_both (\<lambda>c. c \<in> set quote_runes)) (named_after @ named_before)
      in dedup_strings (filter (\<lambda>nm. length nm \<ge> 3 \<and> to_lower nm \<notin> set contract_noise) trimmed))"

definition add_key :: "contract_ref list \<Rightarrow> contract_ref \<Rightarrow> contract_ref list" where
  "add_key out r =
     (if cr_key r = [] \<or> list_ex (\<lambda>o'. cr_key o' = cr_key r) out \<or> length out \<ge> max_contract_keys then out else out @ [r])"

definition contract_keys :: "string \<Rightarrow> contract_ref list" where
  "contract_keys question =
     foldl add_key []
       (map (\<lambda>m. \<lparr> cr_kind = KindHTTP, cr_key = mk_http (m 1) (m 2) \<rparr>) (find_all_submatch http_key_re question) @
        map (\<lambda>nm. \<lparr> cr_kind = KindDB, cr_key = mk_db (to_lower nm) \<rparr>) (named_entities question table_after_re table_before_re) @
        map (\<lambda>nm. \<lparr> cr_kind = KindTopic, cr_key = mk_topic nm \<rparr>) (named_entities question topic_after_re topic_before_re) @
        map (\<lambda>m. \<lparr> cr_kind = KindGRPC, cr_key = mk_grpc (m 1) (m 2) \<rparr>) (find_all_submatch grpc_pair_re question) @
        map (\<lambda>m. \<lparr> cr_kind = KindGRPC, cr_key = mk_grpc [] (m 1) \<rparr>) (find_all_submatch grpc_method_re question))"

section \<open>Hits for units and edges\<close>

definition contract_edge_rank :: "(string \<times> nat) list" where
  "contract_edge_rank = [(''handled_by'', 0), (''implements_rpc'', 0), (''produces'', 1), (''writes_to'', 1), (''consumes'', 2), (''reads_from'', 2)]"

definition contract_client_edges :: "string list" where
  "contract_client_edges = [''http_call'', ''rpc_call'']"

definition contract_edge_verb :: "string \<Rightarrow> string" where
  "contract_edge_verb k =
     (case map_of [(''handled_by'', ''handles''), (''implements_rpc'', ''implements''), (''produces'', ''publishes to''),
         (''writes_to'', ''writes''), (''consumes'', ''consumes''), (''reads_from'', ''reads'')] k of
        Some v \<Rightarrow> v | None \<Rightarrow> ''uses'')"

definition contract_rank :: "string \<Rightarrow> nat" where
  "contract_rank k = (case map_of contract_edge_rank k of Some r \<Rightarrow> r | None \<Rightarrow> length contract_edge_rank)"

definition sort_contract_edges :: "edge list \<Rightarrow> edge list" where
  "sort_contract_edges edges = sort_edges_by contract_rank edges"

definition contract_declares :: "string \<Rightarrow> string" where
  "contract_declares k =
     (if k = ''http_route'' then ''declares the route''
      else if k = ''db_table'' then ''declares the table''
      else if k = ''rpc_method'' then ''declares the rpc method''
      else if k = ''topic_channel'' then ''declares the channel''
      else ''declares the contract'')"

definition unit_snippet :: "ast_unit \<Rightarrow> string \<Rightarrow> string" where
  "unit_snippet u reason = unit_head u @ (if reason \<noteq> [] then CHR 0x0A # reason else [])"

definition unit_hit :: "ast_unit \<Rightarrow> string \<Rightarrow> hit" where
  "unit_hit u reason =
     \<lparr> h_repo = u_repo u, h_file = u_file u, h_path = u_file u, h_line = u_start_line u, h_end = u_end_line u, h_symbol = u_name u,
       h_kind = u_kind u, h_lang = u_language u, h_score = 0, h_snippet = unit_snippet u reason, h_reason = reason \<rparr>"

definition contract_edge_hit :: "edge \<Rightarrow> ast_unit option \<Rightarrow> string \<Rightarrow> string \<Rightarrow> hit" where
  "contract_edge_hit e src key verb =
     (of_source src (edge_site e (verb @ '' '' @ key)))\<lparr> h_snippet :=
        (case src of None \<Rightarrow> [] | Some u \<Rightarrow> unit_head u @ [CHR 0x0A]) @ verb @ '' '' @ key @ '' at '' @ e_file e @ '':'' @ itoa (e_line e) \<rparr>"

section \<open>One key\<close>

definition max_promoted_contracts :: nat where "max_promoted_contracts = 10"
definition contract_edge_limit :: int where "contract_edge_limit = 50"

definition units_by_key :: "gdb \<Rightarrow> query \<Rightarrow> string \<Rightarrow> ast_unit list" where
  "units_by_key d q key =
     (let opts = any_opts\<lparr> o_qualified := key, o_limit := 5 \<rparr>;
          opts = (if length (q_repos q) = 1 then opts\<lparr> o_repo := hd (q_repos q) \<rparr> else opts);
          units = get_ast_units opts d;
          units = (if length units = 0 then get_ast_units (opts\<lparr> o_qualified := [], o_qualified_suffix := key \<rparr>) d else units)
      in filter (\<lambda>u. repo_allowed (q_repos q) (u_repo u)) units)"

definition handlers_of :: "gdb \<Rightarrow> ast_unit \<Rightarrow> hit list" where
  "handlers_of d route =
     (let edges = get_edges (any_opts\<lparr> o_src := u_id route, o_kind := ''handled_by'', o_limit := 10 \<rparr>) d;
          by_id = promoter_units d (map e_dst edges)
      in List.map_filter (\<lambda>e. map_option (\<lambda>u. unit_hit u (''handles '' @ u_name route)) (by_id (e_dst e))) edges)"

definition hit_site :: "hit \<Rightarrow> string" where
  "hit_site h = h_repo h @ [CHR 0x00] @ h_file h @ [CHR 0x00] @ itoa (h_line h)"

text \<open>A site is recorded only when its hit is: the list of the hits holds the sites that were seen.\<close>

definition push_hit :: "hit list \<Rightarrow> hit \<Rightarrow> hit list" where
  "push_hit out h = (if list_ex (\<lambda>k. hit_site k = hit_site h) out \<or> length out \<ge> max_promoted_contracts then out else out @ [h])"

definition serving_edge :: "query \<Rightarrow> edge \<Rightarrow> bool" where
  "serving_edge q e \<longleftrightarrow> \<not> (e_kind e = ''call'' \<or> \<not> repo_allowed (q_repos q) (e_repo e) \<or> e_kind e \<in> set contract_client_edges \<or> is_test_path (e_file e))"

definition contract_hits :: "gdb \<Rightarrow> query \<Rightarrow> contract_ref \<Rightarrow> hit list" where
  "contract_hits d q r =
     (let units = units_by_key d q (cr_key r);
          out = foldl push_hit [] (concat (map (handlers_of d) (filter (\<lambda>u. u_kind u = ''http_route'') units)));
          out = foldl push_hit out (map (\<lambda>u. unit_hit u (contract_declares (u_kind u))) units);
          kept = sort_contract_edges (filter (serving_edge q) (get_edges (any_opts\<lparr> o_name := cr_key r, o_limit := contract_edge_limit \<rparr>) d));
          srcs = promoter_units d (map e_src kept);
          out = foldl push_hit out (map (\<lambda>e. contract_edge_hit e (srcs (e_src e)) (cr_key r) (contract_edge_verb (e_kind e))) kept);
          f = parse_filters (q_filter q)
      in if filters_empty f then out else filter (\<lambda>h. filters_match f (h_lang h) (h_kind h) (h_file h)) out)"

section \<open>Promotion\<close>

fun resolve_refs :: "gdb \<Rightarrow> query \<Rightarrow> string list \<times> hit list \<Rightarrow> contract_ref list \<Rightarrow> string list \<times> hit list" where
  "resolve_refs d q acc [] = acc"
| "resolve_refs d q acc (r # rs) =
     (case acc of (resolved, promoted) \<Rightarrow>
       let hs = contract_hits d q r in
       if length hs = 0 then resolve_refs d q acc rs
       else let promoted = promoted @ hs in
         if length promoted \<ge> max_promoted_contracts then (resolved @ [cr_key r], take max_promoted_contracts promoted)
         else resolve_refs d q (resolved @ [cr_key r], promoted) rs)"

definition promote_contracts :: "promoter \<Rightarrow> query \<Rightarrow> hit list \<times> meta \<Rightarrow> hit list \<times> meta" where
  "promote_contracts p q hm =
     (case hm of (hits, m) \<Rightarrow>
      (case pr_store p of
        None \<Rightarrow> (hits, m)
      | Some d \<Rightarrow>
          let refs = contract_keys (q_text q) in
          if length refs = 0 then (hits, m)
          else (case resolve_refs d q ([], []) refs of (resolved, promoted) \<Rightarrow>
            if length promoted = 0 then (hits, m)
            else (prepend_promoted promoted hits,
                  m(''contract_keys'' \<mapsto> MStrings resolved, ''contract_promoted'' \<mapsto> MInt (int (length promoted)))))))"

section \<open>Implementations of an rpc\<close>

definition rpc_stop_words :: "string list" where
  "rpc_stop_words = [''grpc'', ''rpc'', ''method'', ''service'', ''server'', ''where'', ''is'', ''are'', ''the'', ''a'', ''an'',
     ''implemented'', ''implementation'', ''implements'', ''handler'', ''in'', ''of'', ''for'', ''which'', ''what'', ''does'',
     ''api'', ''client'', ''call'', ''calls'']"

definition rpc_impl_scan_limit :: int where "rpc_impl_scan_limit = 2000"

definition components_described :: "string \<Rightarrow> string list \<Rightarrow> bool" where
  "components_described nm words =
     (let content = filter (\<lambda>c. c \<notin> set rpc_stop_words) (word_components nm)
      in list_all (\<lambda>c. c \<in> set words) content \<and> length content > 0)"

definition rpc_key_described :: "string \<Rightarrow> string list \<Rightarrow> bool" where
  "rpc_key_described key words =
     (case parse_grpc key of (svc, meth, ok) \<Rightarrow>
       if \<not> ok then False else components_described meth words \<or> components_described svc words)"

text \<open>The repositories a lookup runs over; the empty id stands for every one.\<close>

definition scan_repos :: "query \<Rightarrow> string list" where
  "scan_repos q = (if length (q_repos q) = 0 then [[]] else q_repos q)"

fun impl_hits :: "(nat \<rightharpoonup> ast_unit) \<Rightarrow> string list \<Rightarrow> edge list \<Rightarrow> hit list" where
  "impl_hits srcs seen [] = []"
| "impl_hits srcs seen (e # es) =
     (if site_key e \<in> set seen then impl_hits srcs seen es
      else contract_edge_hit e (srcs (e_src e)) (e_dst_name e) ''implements'' # impl_hits srcs (site_key e # seen) es)"

definition promote_rpc_implementations :: "promoter \<Rightarrow> query \<Rightarrow> hit list \<times> meta \<Rightarrow> hit list \<times> meta" where
  "promote_rpc_implementations p q hm =
     (case hm of (hits, m) \<Rightarrow>
      (case pr_store p of
        None \<Rightarrow> (hits, m)
      | Some d \<Rightarrow>
          if \<not> match_string rpc_mention_re (q_text q) then (hits, m)
          else let words = filter (\<lambda>w. w \<notin> set rpc_stop_words) (word_components (q_text q)) in
            if length words = 0 then (hits, m)
            else let matched = concat (map (\<lambda>repo.
                         filter (\<lambda>e. \<not> is_test_path (e_file e) \<and> rpc_key_described (e_dst_name e) words)
                           (get_edges (any_opts\<lparr> o_repo := repo, o_kind := ''implements_rpc'', o_limit := rpc_impl_scan_limit \<rparr>) d)) (scan_repos q))
              in if length matched = 0 then (hits, m)
                 else let matched = sort_contract_edges matched;
                          matched = (if length matched > max_promoted_contracts then take max_promoted_contracts matched else matched);
                          promoted = impl_hits (promoter_units d (map e_src matched)) [] matched
                   in (prepend_promoted promoted hits, m(''rpc_implementations'' \<mapsto> MInt (int (length promoted))))))"

end
