(* ===== verification/Promote_Uses.thy ===== *)
theory Promote_Uses
  imports Promote_Contracts
begin

text \<open>
  The far side of a contract (\<open>internal/app/promote/contractusers.go\<close>): which edges a question asks about,
  when it describes the key of one, and the use sites it promotes.
\<close>

section \<open>What a question asks for\<close>

definition consume_verb_re :: re where
  "consume_verb_re = ignore_case (seqs [WordBoundary, alts [s_opt ''consume'', s_opt ''consumer'', s_opt ''subscribe'', s_opt ''subscriber'',
     s_opt ''listen'', s_opt ''receive'', s_opt ''react'', s_opt ''handle'', lit ''processes''], WordBoundary])"

definition produce_verb_re :: re where
  "produce_verb_re = ignore_case (seqs [WordBoundary, alts [s_opt ''publishe'', s_opt ''publisher'', s_opt ''produce'', s_opt ''producer'',
     s_opt ''emit'', s_opt ''dispatche'', s_opt ''raise'', s_opt ''fire''], WordBoundary])"

definition contract_use_kinds :: "string \<Rightarrow> bool \<Rightarrow> string list" where
  "contract_use_kinds question callers =
     (if callers then [''rpc_call'', ''http_call''] else []) @
     (if match_string consume_verb_re question then [''consumes''] else []) @
     (if match_string produce_verb_re question then [''produces''] else [])"

definition http_verb_re :: re where
  "http_verb_re = ignore_case (seqs [WordBoundary, Capture 1 http_verb_alts, opt (lit ''s''), WordBoundary])"

definition http_verbs_named :: "string \<Rightarrow> string list" where
  "http_verbs_named question = map (\<lambda>m. to_upper (m 1)) (find_all_submatch http_verb_re question)"

definition api_version_re :: re where
  "api_version_re = ignore_case (seqs [BeginText, lit ''v'', plus re_digit, EndText])"

section \<open>The vocabulary\<close>

definition stem_word :: "string \<Rightarrow> string" where
  "stem_word w =
     (if length w < 5 then w
      else let stem =
          (if has_suffix w ''ies'' then take (length w - 3) w @ ''y''
           else if has_suffix w ''ing'' then take (length w - 3) w
           else if has_suffix w ''ed'' then take (length w - 2) w
           else if has_suffix w ''ss'' then w
           else if has_suffix w ''es'' then take (length w - 2) w
           else if has_suffix w ''s'' then take (length w - 1) w
           else w);
          stem = trim_suffix stem ''e''
        in if length stem < 4 then w else stem)"

definition contract_scaffolding :: "string list" where
  "contract_scaffolding = map stem_word
     [''grpc'', ''rpc'', ''http'', ''api'', ''service'', ''server'', ''client'', ''method'',
      ''handler'', ''call'', ''endpoint'', ''route'', ''topic'', ''queue'', ''channel'',
      ''message'', ''event'', ''integration'', ''command'', ''request'', ''response'',
      ''code'', ''class'', ''project'', ''module'', ''package'', ''function'',
      ''the'', ''a'', ''an'', ''which'', ''what'', ''who'', ''where'', ''when'', ''how'',
      ''is'', ''are'', ''do'', ''does'', ''did'', ''to'', ''from'', ''in'', ''of'', ''for'',
      ''and'', ''or'', ''its'', ''it'', ''this'', ''that'', ''with'', ''on'', ''at'', ''by'']"

definition content_component :: "string \<Rightarrow> string option" where
  "content_component w =
     (let stem = stem_word (to_lower w) in
      if stem \<in> set contract_scaffolding \<or> match_string api_version_re w then None else Some stem)"

definition question_words :: "string \<Rightarrow> string list" where
  "question_words question = List.map_filter content_component (word_components question)"

text \<open>The components are taken in turn: those seen, how many are described, how many there are.\<close>

fun described_in :: "string list \<Rightarrow> string list \<Rightarrow> nat \<Rightarrow> nat \<Rightarrow> string list \<Rightarrow> nat \<times> bool" where
  "described_in words seen described content [] = (described, content > 0 \<and> described = content)"
| "described_in words seen described content (raw # raws) =
     (case content_component raw of
        None \<Rightarrow> described_in words seen described content raws
      | Some c \<Rightarrow>
          if c \<in> set seen then described_in words seen described content raws
          else described_in words (c # seen) (if c \<in> set words then Suc described else described) (Suc content) raws)"

definition fully_described :: "string \<Rightarrow> string list \<Rightarrow> nat \<times> bool" where
  "fully_described nm words = described_in words [] 0 0 (word_components nm)"

definition trim_path_params :: "string \<Rightarrow> string" where
  "trim_path_params path =
     concat (map (\<lambda>seg. CHR ''/'' # seg)
       (filter (\<lambda>seg. \<not> (seg = [] \<or> has_prefix seg ''{'' \<or> has_prefix seg '':'' \<or> has_prefix seg ''*'')) (split_on CHR ''/'' path)))"

definition after_last_dot :: "string \<Rightarrow> string" where
  "after_last_dot s = (case last_index CHR ''.'' s of None \<Rightarrow> s | Some i \<Rightarrow> drop (Suc i) s)"

definition key_described :: "string \<Rightarrow> string list \<Rightarrow> string list \<Rightarrow> nat \<times> bool" where
  "key_described key words verbs =
     (if is_kind key KindGRPC then
        (case parse_grpc key of (svc, meth, ok) \<Rightarrow>
          if \<not> ok then (0, False)
          else (case fully_described meth words of (n, full) \<Rightarrow>
            if \<not> full then (0, False)
            else (case fully_described (after_last_dot svc) words of (sn, s_full) \<Rightarrow>
              if n < 2 \<and> \<not> s_full then (0, False) else (n + sn, True))))
      else if is_kind key KindHTTP then
        (case parse_http key of (meth, path, ok) \<Rightarrow>
          if \<not> ok then (0, False)
          else if length verbs > 0 \<and> to_upper meth \<notin> set verbs then (0, False)
          else (case fully_described (trim_path_params path) words of (n, full) \<Rightarrow>
            if \<not> full \<or> n < 2 then (0, False) else (n, True)))
      else if is_kind key KindTopic then
        (if snd (parse_topic_ref key) then (0, False)
         else (case fully_described (fst (parse_topic key)) words of (n, full) \<Rightarrow> if \<not> full then (0, False) else (n, True)))
      else (0, False))"

definition synthetic_markers :: "string list" where
  "synthetic_markers = [''locustfile'', ''loadgen'', ''load-gen'', ''load_gen'', ''loadtest'', ''load-test'', ''load_test'',
     ''/benchmarks/'', ''/gatling/'', ''/jmeter/'']"

definition synthetic_traffic_path :: "string \<Rightarrow> bool" where
  "synthetic_traffic_path path = list_ex (\<lambda>m. contains (to_lower path) m) synthetic_markers"

section \<open>Promotion\<close>

definition contract_use_scan_limit :: int where "contract_use_scan_limit = 2000"
definition max_promoted_contract_uses :: nat where "max_promoted_contract_uses = 10"

definition use_edge :: "query \<Rightarrow> string list \<Rightarrow> string list \<Rightarrow> edge \<Rightarrow> bool" where
  "use_edge q words verbs e \<longleftrightarrow>
     \<not> (is_test_path (e_file e) \<or> synthetic_traffic_path (e_file e)) \<and> repo_allowed (q_repos q) (e_repo e) \<and>
     snd (key_described (e_dst_name e) words verbs)"

fun use_hits :: "filters \<Rightarrow> (nat \<rightharpoonup> ast_unit) \<Rightarrow> hit list \<times> string list \<times> string list \<Rightarrow> edge list \<Rightarrow> hit list \<times> string list \<times> string list" where
  "use_hits f srcs acc [] = acc"
| "use_hits f srcs acc (e # es) =
     (case acc of (promoted, seen, keys) \<Rightarrow>
       if length promoted \<ge> max_promoted_contract_uses then acc
       else if site_key e \<in> set seen then use_hits f srcs acc es
       else let h = contract_edge_hit e (srcs (e_src e)) (e_dst_name e) (caller_verb (e_kind e)) in
         if \<not> passes f h then use_hits f srcs acc es
         else use_hits f srcs (promoted @ [h], site_key e # seen, e_dst_name e # keys) es)"

definition use_edges :: "gdb \<Rightarrow> query \<Rightarrow> string list \<Rightarrow> string list \<Rightarrow> string list \<Rightarrow> edge list" where
  "use_edges d q kds words verbs =
     (let edges = concat (map (\<lambda>repo. filter (use_edge q words verbs)
            (get_edges (any_opts\<lparr> o_repo := repo, o_kinds := kds, o_limit := contract_use_scan_limit \<rparr>) d)) (scan_repos q));
          described = (\<lambda>e. fst (key_described (e_dst_name e) words verbs))
      in sort_lt (\<lambda>a b. described a > described b) (sort_edges_by kind_rank edges))"

definition promote_contract_uses :: "promoter \<Rightarrow> query \<Rightarrow> string \<Rightarrow> hit list \<times> meta \<Rightarrow> hit list \<times> meta" where
  "promote_contract_uses p q intent hm =
     (case hm of (hits, m) \<Rightarrow>
      (case pr_store p of
        None \<Rightarrow> (hits, m)
      | Some d \<Rightarrow>
          let kds = contract_use_kinds (q_text q) (intent = intent_callers) in
          if length kds = 0 then (hits, m)
          else let words = question_words (q_text q) in
            if length words = 0 then (hits, m)
            else let edges = use_edges d q kds words (http_verbs_named (q_text q)) in
              if length edges = 0 then (hits, m)
              else (case use_hits (parse_filters (q_filter q)) (promoter_units d (map e_src edges)) ([], [], []) edges of
                (promoted, seen, keys) \<Rightarrow>
                  if length promoted = 0 then (hits, m)
                  else (prepend_promoted promoted hits,
                        m(''contract_use_keys'' \<mapsto> MStrings (sort (remdups keys)), ''contract_uses'' \<mapsto> MInt (int (length promoted)))))))"

end
