(* ===== verification/Enrich_Assist.thy ===== *)
theory Enrich_Assist
  imports Go_Strings
begin

text \<open>
  Rewriting a question into a search query (\<open>internal/app/enrich/assist.go\<close>): what is done to the answer of
  the assistant model before it reaches the search engine. The model behind \<open>llm.Generator\<close> is a parameter.
\<close>

section \<open>Rewriting a query\<close>

definition max_rewritten_query_len :: nat where "max_rewritten_query_len = 200"

definition rewrite_prefixes :: "string list" where
  "rewrite_prefixes = [''query:'', ''search query:'', ''rewritten query:'', ''rewrite:'', ''keywords:'',
     ''search:'', ''answer:'', ''output:'', ''result:'']"

function strip_think_blocks :: "string \<Rightarrow> string" where
  "strip_think_blocks s =
     (case find_at ''<think>'' (to_lower s) of
        None \<Rightarrow> s
      | Some i \<Rightarrow>
          let rest = drop (i + 7) s in
          (case find_at ''</think>'' (to_lower rest) of
             None \<Rightarrow> take i s
           | Some j \<Rightarrow> strip_think_blocks (take i s @ drop (j + 8) rest)))"
  by auto
termination
proof (relation "measure length")
  fix s :: string and i rest j
  assume "find_at ''<think>'' (to_lower s) = Some i" and "rest = drop (i + 7) s"
  then have "i + 7 \<le> length s" and "rest = drop (i + 7) s" using find_at_bound by (fastforce simp: to_lower_def)+
  then show "(take i s @ drop (j + 8) rest, s) \<in> measure length" by simp
qed simp

fun strip_label_in :: "string list \<Rightarrow> string \<Rightarrow> string" where
  "strip_label_in [] line = line"
| "strip_label_in (p # ps) line =
     (if has_prefix (to_lower line) p then trim_space (drop (length p) line) else strip_label_in ps line)"

definition strip_label :: "string \<Rightarrow> string" where
  "strip_label line = strip_label_in rewrite_prefixes line"

lemma length_trim_space: "length (trim_space s) \<le> length s"
  by (simp add: trim_space_def trim_both_def trim_right_def trim_left_def)
    (metis length_dropWhile_le length_rev order_trans)

definition wrapped :: "string \<Rightarrow> bool" where
  "wrapped line \<longleftrightarrow> length line \<ge> 2 \<and> hd line = last line \<and> hd line \<in> {CHR 0x22, CHR 0x27, CHR 0x60} \<and>
     hd line \<notin> set (take (length line - 2) (tl line))"

function strip_quotes :: "string \<Rightarrow> string" where
  "strip_quotes line = (if wrapped line then strip_quotes (trim_space (take (length line - 2) (tl line))) else line)"
  by auto
termination
proof (relation "measure length")
  fix line assume "wrapped line"
  then have two: "2 \<le> length line" by (simp add: wrapped_def)
  have "length (trim_space (take (length line - 2) (tl line))) \<le> length (take (length line - 2) (tl line))"
    by (rule length_trim_space)
  also have "\<dots> \<le> length line - 2" by simp
  also have "\<dots> < length line" using two by simp
  finally show "(trim_space (take (length line - 2) (tl line)), line) \<in> measure length" by simp
qed simp

declare strip_think_blocks.simps [simp del] strip_quotes.simps [simp del]

definition strip_wrapping_quotes :: "string \<Rightarrow> string" where
  "strip_wrapping_quotes line = trim_left (\<lambda>c. is_space c \<or> c \<in> set ''*#-'') (strip_quotes line)"

definition cut_line :: "string \<Rightarrow> string" where
  "cut_line line =
     (if length line > max_rewritten_query_len
      then let line = take max_rewritten_query_len line in
        (case last_index CHR '' '' line of Some i \<Rightarrow> if i > 0 then take i line else line | None \<Rightarrow> line)
      else line)"

definition sanitize_rewritten_query :: "string \<Rightarrow> string" where
  "sanitize_rewritten_query out =
     (let ls = filter (\<lambda>l. l \<noteq> [] \<and> \<not> has_prefix l (replicate 3 (CHR 0x60))) (map trim_space (split_on (CHR 0x0A) (strip_think_blocks out))) in
      case ls of
        [] \<Rightarrow> []
      | line # _ \<Rightarrow>
          let line = strip_label (strip_wrapping_quotes (strip_label line));
              line = map (\<lambda>c. if c = CHR 0x22 \<or> c = CHR 0x60 then CHR '' '' else c) line
          in trim_space (cut_line (join_with '' '' (fields line))))"

text \<open>The assistant answers a question with an error or a text; it is the remote model behind \<open>llm.Generator\<close>.\<close>

type_synonym rewriter = "string \<Rightarrow> string + string"

definition rewrite_query :: "rewriter option \<Rightarrow> string \<Rightarrow> string \<times> bool" where
  "rewrite_query gen question =
     (case gen of
        None \<Rightarrow> (question, False)
      | Some g \<Rightarrow>
          if trim_space question = [] then (question, False)
          else (case g question of
            Inl err \<Rightarrow> (question, False)
          | Inr out \<Rightarrow>
              let rewritten = sanitize_rewritten_query out in
              if rewritten = [] \<or> rewritten = question then (question, False) else (rewritten, True)))"

section \<open>What reaches the search engine\<close>

lemma fields_run_set:
  "w \<in> set (fields_run P cur s) \<Longrightarrow> \<forall>c \<in> set cur. \<not> P c \<Longrightarrow> (\<forall>c \<in> set w. \<not> P c) \<and> set w \<subseteq> set cur \<union> set s"
proof (induction s arbitrary: cur)
  case Nil
  then show ?case by (simp split: if_splits)
next
  case (Cons c s)
  show ?case
  proof (cases "P c")
    case True
    then have "w \<in> set (fields_run P [] s) \<or> w = rev cur" using Cons.prems(1) by (simp split: if_splits) blast
    then show ?thesis
    proof
      assume "w \<in> set (fields_run P [] s)"
      from Cons.IH [OF this] show ?thesis by simp blast
    next
      assume "w = rev cur"
      then show ?thesis using Cons.prems(2) by auto
    qed
  next
    case False
    then have "w \<in> set (fields_run P (c # cur) s)" using Cons.prems(1) by simp
    from Cons.IH [OF this] show ?thesis using False Cons.prems(2) by simp
  qed
qed

lemma set_joined: "set (join_with sep ss) \<subseteq> set sep \<union> \<Union> (set ` set ss)"
  by (induction sep ss rule: join_with.induct) auto

lemma set_cut_line: "set (cut_line l) \<subseteq> set l"
  by (auto simp: cut_line_def Let_def dest!: in_set_takeD split: option.splits if_splits)

lemma length_cut_line: "length (cut_line l) \<le> max_rewritten_query_len"
  by (auto simp: cut_line_def Let_def split: option.splits)

text \<open>
  A rewritten query is at most 200 bytes on one line, holds no quote that a query parser would read as a
  phrase delimiter, and no white space but single blanks between words: whatever the model answered.
\<close>

theorem rewritten_query_is_plain:
  "length (sanitize_rewritten_query out) \<le> 200 \<and>
   (\<forall>c \<in> set (sanitize_rewritten_query out). c \<noteq> CHR 0x22 \<and> c \<noteq> CHR 0x60 \<and> (is_space c \<longrightarrow> c = CHR '' ''))"
proof (cases "filter (\<lambda>l. l \<noteq> [] \<and> \<not> has_prefix l (replicate 3 (CHR 0x60))) (map trim_space (split_on (CHR 0x0A) (strip_think_blocks out)))")
  case Nil
  then show ?thesis by (simp add: sanitize_rewritten_query_def)
next
  case (Cons l ls)
  let ?q = "\<lambda>c. if c = CHR 0x22 \<or> c = CHR 0x60 then CHR '' '' else c"
  let ?line = "map ?q (strip_label (strip_wrapping_quotes (strip_label l)))"
  have eq: "sanitize_rewritten_query out = trim_space (cut_line (join_with '' '' (fields ?line)))"
    unfolding sanitize_rewritten_query_def Let_def Cons by simp
  have "length (sanitize_rewritten_query out) \<le> 200"
    unfolding eq using order_trans [OF length_trim_space length_cut_line] by (simp add: max_rewritten_query_len_def)
  moreover have "c \<noteq> CHR 0x22 \<and> c \<noteq> CHR 0x60 \<and> (is_space c \<longrightarrow> c = CHR '' '')" if c: "c \<in> set (sanitize_rewritten_query out)" for c
  proof -
    have "c \<in> set (join_with '' '' (fields ?line))"
      using c set_trim_space set_cut_line unfolding eq by blast
    then consider "c = CHR '' ''" | w where "w \<in> set (fields ?line)" "c \<in> set w"
      using set_joined [of "'' ''" "fields ?line"] by auto
    then show ?thesis
    proof cases
      case 2
      from fields_run_set [OF 2(1) [unfolded fields_def fields_func_def]] 2(2)
      have "\<not> is_space c" and "c \<in> set ?line" by auto
      then show ?thesis by auto
    qed auto
  qed
  ultimately show ?thesis by blast
qed

end
