(* ===== verification/App_Search.thy ===== *)
theory App_Search
  imports Promote_Uses Enrich_Assist
begin

text \<open>
  The search request of the application service (\<open>internal/app/service.go\<close>, \<open>internal/app/active.go\<close>):
  validation, the repositories a request may read, retrieval, ranking and the promotions from the graph.
  Reads of the store do not fail; durations are left out.
\<close>

section \<open>Scope\<close>

definition retrieval_scope :: "string list \<Rightarrow> db \<Rightarrow> string list \<times> bool" where
  "retrieval_scope requested d =
     (if length requested > 0 then (requested, False)
      else let all_repos = list_repos d; active = map p_id (filter p_active all_repos) in
        if length active = length all_repos then ([], False) else (active, length active = 0))"

section \<open>Search\<close>

datatype bad_request = QueryRequired | EmptyQuery | BadIntent intent_error | UnknownMode string | NoSelector

datatype app_error = BadRequest bad_request | SearchUnavailable | SearchFailed go_error | StorageUnavailable

definition default_search_limit :: int where "default_search_limit = 10"
definition max_search_limit :: int where "max_search_limit = 100"

definition mode_semantic :: string where "mode_semantic = ''semantic''"
definition mode_keyword :: string where "mode_keyword = ''keyword''"
definition mode_hybrid :: string where "mode_hybrid = ''hybrid''"

record app =
  a_search :: "service option"
  a_promoter :: promoter
  a_repos :: db
  a_store :: "gdb option"
  a_graph :: gdb
  a_assistant :: "rewriter option"

record app_result = search_result +
  r_mode :: string

definition clamp_limit :: "int \<Rightarrow> int" where
  "clamp_limit n = (if n \<le> 0 then default_search_limit else if n > max_search_limit then max_search_limit else n)"

text \<open>The query the searchers get: a callers question retrieves by the description of the callee.\<close>

definition exec_query :: "query \<Rightarrow> string \<Rightarrow> string \<Rightarrow> query" where
  "exec_query q intent callee =
     (if intent = intent_callers \<and> callee \<noteq> [] \<and> callee \<noteq> q_text q then q\<lparr> q_text := callee \<rparr> else q)"

definition retrieve :: "service \<Rightarrow> string \<Rightarrow> query \<Rightarrow> app_error + hit list \<times> meta option" where
  "retrieve s mode q =
     (if mode = mode_semantic then map_sum SearchFailed id (candidates_from s Vector q)
      else if mode = mode_keyword then map_sum SearchFailed id (candidates_from s BM25 q)
      else if mode = mode_hybrid then map_sum SearchFailed id (candidates s q)
      else Inl (BadRequest (UnknownMode mode)))"

definition graph_answers :: "promoter \<Rightarrow> query \<Rightarrow> string \<Rightarrow> string \<Rightarrow> hit list \<times> meta \<Rightarrow> hit list \<times> meta" where
  "graph_answers p q intent callee hm =
     (let hm = (if intent = intent_callers then promote_callers p q callee hm else hm) in
      if intent_enabled p q then
        let hm = promote_contracts p q hm;
            hm = (if intent \<noteq> intent_callers then promote_rpc_implementations p q hm else hm)
        in promote_contract_uses p q intent hm
      else hm)"

definition search_in_scope :: "service \<Rightarrow> promoter \<Rightarrow> query \<Rightarrow> string \<Rightarrow> string \<Rightarrow> string \<Rightarrow> app_error + app_result" where
  "search_in_scope s p q mode intent callee =
     (case retrieve s mode (exec_query q intent callee) of
        Inl err \<Rightarrow> Inl err
      | Inr (hits, m) \<Rightarrow>
          let m = (case m of None \<Rightarrow> Map.empty | Some m \<Rightarrow> m);
              (hits, m) = rank_for s (q_text q) hits (Some m) (q_limit q);
              (hits, m) = graph_answers p q intent callee (hits, the m);
              hits = (if q_limit q > 0 \<and> int (length hits) > q_limit q then take (nat (q_limit q)) hits else hits)
          in Inr \<lparr> r_hits = hits, r_total = int (length hits), r_query = q_text q, r_meta = Some m, r_mode = mode \<rparr>)"

definition app_search :: "app \<Rightarrow> query option \<Rightarrow> string \<Rightarrow> app_error + app_result" where
  "app_search a rq mode =
     (case rq of
        None \<Rightarrow> Inl (BadRequest QueryRequired)
      | Some q \<Rightarrow>
          if trim_space (q_text q) = [] \<and> length (q_vector q) = 0 then Inl (BadRequest EmptyQuery)
          else
            let q = q\<lparr> q_limit := clamp_limit (q_limit q) \<rparr>; mode = (if mode = [] then mode_hybrid else mode) in
            (case a_search a of
               None \<Rightarrow> Inl SearchUnavailable
             | Some s \<Rightarrow>
                 (case resolve_intent (a_promoter a) q of
                    Inl err \<Rightarrow> Inl (BadRequest (BadIntent err))
                  | Inr (intent, callee) \<Rightarrow>
                      (case retrieval_scope (q_repos q) (a_repos a) of (scope, nothing) \<Rightarrow>
                        if nothing then
                          Inr \<lparr> r_hits = [], r_total = 0, r_query = q_text q, r_meta = Some Map.empty, r_mode = mode \<rparr>
                        else search_in_scope s (a_promoter a) (q\<lparr> q_repos := scope \<rparr>) mode intent callee))))"

end
