(* ===== verification/App_Context.thy ===== *)
theory App_Context
  imports App_Search
begin

text \<open>
  Graph-expanded retrieval (\<open>internal/app/context.go\<close>) and the navigation lookups (\<open>internal/app/nav.go\<close>) of the
  application service. Reads of the store do not fail; the JSON of unit metadata is decoded by a parameter.
\<close>

section \<open>Context packages\<close>

record context_item =
  ci_hit :: hit
  ci_unit :: "ast_unit option"
  ci_service :: string
  ci_related :: "related_unit list"

record context_result =
  cx_query :: string
  cx_mode :: string
  cx_rewritten :: string
  cx_items :: "context_item list"

definition context_over_fetch :: int where "context_over_fetch = 4"

definition context_query :: "string \<Rightarrow> string list \<Rightarrow> int \<Rightarrow> string \<Rightarrow> query" where
  "context_query question rs limit intent =
     \<lparr> q_text = question, q_repo = [], q_repos = rs, q_limit = limit * context_over_fetch, q_filter = [], q_vector = [], q_intent = intent \<rparr>"

definition search_for_context :: "app \<Rightarrow> string \<Rightarrow> string list \<Rightarrow> string \<Rightarrow> int \<Rightarrow> string \<Rightarrow> app_error + app_result" where
  "search_for_context a question rs mode limit intent = app_search a (Some (context_query question rs limit intent)) mode"

text \<open>One hit: the key that tells its item from the others, and the item.\<close>

definition context_item_of :: "unit_codec \<Rightarrow> app \<Rightarrow> int \<Rightarrow> hit \<Rightarrow> string \<times> context_item" where
  "context_item_of uc a hops h =
     (case unit_in_range (h_repo h) (h_file h) (h_line h) (h_end h) (a_graph a) of
        Inl _ \<Rightarrow> (h_repo h @ [CHR 0x00] @ h_file h, \<lparr> ci_hit = h, ci_unit = None, ci_service = [], ci_related = [] \<rparr>)
      | Inr u \<Rightarrow> (itoa (int (u_id u)),
           \<lparr> ci_hit = h, ci_unit = Some u, ci_service = graph_service_for_unit uc u (a_graph a),
             ci_related = related_units uc (a_graph a) (u_id u) hops \<rparr>))"

fun context_items :: "unit_codec \<Rightarrow> app \<Rightarrow> int \<Rightarrow> int \<Rightarrow> string list \<Rightarrow> context_item list \<Rightarrow> hit list \<Rightarrow> context_item list" where
  "context_items uc a limit hops seen out [] = out"
| "context_items uc a limit hops seen out (h # hs) =
     (if int (length out) \<ge> limit then out
      else case context_item_of uc a hops h of (key, item) \<Rightarrow>
        if key \<in> set seen then context_items uc a limit hops seen out hs
        else context_items uc a limit hops (key # seen) (out @ [item]) hs)"

definition context_limit :: "int \<Rightarrow> int" where
  "context_limit limit = (let limit = (if limit \<le> 0 then 5 else limit) in if limit > 20 then 20 else limit)"

definition build_context :: "unit_codec \<Rightarrow> app \<Rightarrow> string \<Rightarrow> string list \<Rightarrow> string \<Rightarrow> int \<Rightarrow> int \<Rightarrow> string \<Rightarrow> app_error + context_result" where
  "build_context uc a question rs mode limit hops intent =
     (let limit = context_limit limit; mode = (if mode = [] then ''keyword'' else mode) in
      case resolve_intent (a_promoter a) (context_query question [] 0 intent) of
        Inl err \<Rightarrow> Inl (BadRequest (BadIntent err))
      | Inr (resolved, _) \<Rightarrow>
          let intent = (if resolved \<noteq> [] then resolved else intent);
              (text, rewritten) = (if resolved \<noteq> [] then (question, False) else rewrite_query (a_assistant a) question)
          in (case search_for_context a text rs mode limit intent of
                Inl err \<Rightarrow> Inl err
              | Inr res \<Rightarrow>
                  let (res, text, rewritten) =
                        (if rewritten \<and> length (r_hits res) = 0
                         then (case search_for_context a question rs mode limit intent of
                                 Inl _ \<Rightarrow> (res, text, rewritten)
                               | Inr original \<Rightarrow> if length (r_hits original) > 0 then (original, question, False) else (res, text, rewritten))
                         else (res, text, rewritten))
                  in Inr \<lparr> cx_query = question, cx_mode = mode, cx_rewritten = (if rewritten then text else []),
                           cx_items = context_items uc a limit hops [] [] (r_hits res) \<rparr>))"

section \<open>Navigation\<close>

definition nav_units :: "app \<Rightarrow> query_opts \<Rightarrow> app_error + ast_unit list" where
  "nav_units a opts = (case a_store a of None \<Rightarrow> Inl StorageUnavailable | Some d \<Rightarrow> Inr (get_ast_units opts d))"

definition nav_edges :: "app \<Rightarrow> query_opts \<Rightarrow> app_error + edge list" where
  "nav_edges a opts = (case a_store a of None \<Rightarrow> Inl StorageUnavailable | Some d \<Rightarrow> Inr (get_edges opts d))"

definition default_symbol_limit :: int where "default_symbol_limit = 50"
definition max_symbol_limit :: int where "max_symbol_limit = 500"

definition no_selector :: "query_opts \<Rightarrow> bool" where
  "no_selector opts \<longleftrightarrow> o_repo opts = [] \<and> o_name opts = [] \<and> o_kind opts = [] \<and> length (o_kinds opts) = 0 \<and>
     o_qualified opts = [] \<and> o_qualified_suffix opts = [] \<and> o_name_or_qualified opts = [] \<and> o_file opts = []"

definition symbols :: "app \<Rightarrow> query_opts \<Rightarrow> app_error + ast_unit list" where
  "symbols a opts =
     (if no_selector opts then Inl (BadRequest NoSelector)
      else if a_store a = None then Inl StorageUnavailable
      else
        let opts = (if o_limit opts \<le> 0 then opts\<lparr> o_limit := default_symbol_limit \<rparr> else opts);
            opts = (if o_limit opts > max_symbol_limit then opts\<lparr> o_limit := max_symbol_limit \<rparr> else opts);
            opts = opts\<lparr> o_fallback := True \<rparr>;
            requested = o_repos opts @ (if o_repo opts \<noteq> [] then [o_repo opts] else [])
        in (case retrieval_scope requested (a_repos a) of (scope, nothing) \<Rightarrow>
              if nothing then Inr []
              else nav_units a (if length requested = 0 then opts\<lparr> o_repos := scope \<rparr> else opts)))"

definition max_units_per_line :: int where "max_units_per_line = 64"

definition innermost_step :: "ast_unit option \<Rightarrow> ast_unit \<Rightarrow> ast_unit option" where
  "innermost_step best u =
     (case best of None \<Rightarrow> Some u | Some b \<Rightarrow> if u_start_line u > u_start_line b then Some u else best)"

definition nav_definition :: "app \<Rightarrow> string \<Rightarrow> string \<Rightarrow> int \<Rightarrow> app_error + ast_unit option" where
  "nav_definition a repo path line =
     (if line \<le> 0 then Inr None
      else case nav_units a (any_opts\<lparr> o_repo := repo, o_file := path, o_line := line, o_limit := max_units_per_line \<rparr>) of
        Inl err \<Rightarrow> Inl err
      | Inr units \<Rightarrow> Inr (foldl innermost_step None units))"

definition default_reference_limit :: int where "default_reference_limit = 50"
definition max_reference_limit :: int where "max_reference_limit = 500"

definition reference_limit :: "int \<Rightarrow> int" where
  "reference_limit limit =
     (let limit = (if limit \<le> 0 then default_reference_limit else limit) in if limit > max_reference_limit then max_reference_limit else limit)"

definition references :: "app \<Rightarrow> string \<Rightarrow> string \<Rightarrow> int \<Rightarrow> int \<Rightarrow> app_error + edge list" where
  "references a repo path line limit =
     (case nav_definition a repo path line of
        Inl err \<Rightarrow> Inl err
      | Inr None \<Rightarrow> Inr []
      | Inr (Some u) \<Rightarrow>
          let limit = reference_limit limit in
          (case nav_edges a (any_opts\<lparr> o_dst := u_id u, o_limit := limit \<rparr>) of
             Inl err \<Rightarrow> Inl err
           | Inr refs \<Rightarrow>
               let room = limit - int (length refs) in
               if room > 0 then
                 (case nav_edges a (any_opts\<lparr> o_repo := repo, o_name := u_name u, o_unresolved := True, o_limit := room \<rparr>) of
                    Inl err \<Rightarrow> Inl err
                  | Inr unresolved \<Rightarrow> Inr (refs @ unresolved))
               else Inr refs))"

end
