(* ===== verification/Promote_Facts.thy ===== *)
theory Promote_Facts
  imports Promote_Uses
begin

text \<open>
  What promotion does to a result list, and which call sites a callers question is answered with.
\<close>

section \<open>Scores\<close>

lemma promoted_step_nonneg: "0 \<le> promoted_score_step"
  using f32.rnd_mono [of 0 "1 / 1000"] by (simp add: promoted_score_step_def)

lemma promoted_score_mono: "k \<le> l \<Longrightarrow> promoted_score t k \<le> promoted_score t l"
  unfolding promoted_score_def
  by (intro f32.rnd_mono add_left_mono mult_left_mono promoted_step_nonneg) simp

lemma promoted_score_ge: "f32.representable t \<Longrightarrow> t \<le> promoted_score t k"
proof -
  assume rep: "f32.representable t"
  have "0 \<le> f32 (of_nat k)" using f32.rnd_mono [of 0 "of_nat k"] by simp
  then have "0 \<le> promoted_score_step * f32 (of_nat k)" using promoted_step_nonneg by simp
  then have "0 \<le> f32 (promoted_score_step * f32 (of_nat k))" using f32.rnd_mono by fastforce
  then have "f32 t \<le> promoted_score t k" unfolding promoted_score_def by (intro f32.rnd_mono) simp
  then show ?thesis using rep by (simp add: f32.representable_def)
qed

lemma promoted_score_representable: "f32.representable (promoted_score t k)"
  by (simp add: promoted_score_def f32.representable_def)

text \<open>The hits that are put in front, with the scores they get.\<close>

definition scored :: "rat \<Rightarrow> hit list \<Rightarrow> hit list" where
  "scored t ps = map (\<lambda>(i, h). h\<lparr> h_score := promoted_score t (length ps - i) \<rparr>) (enumerate 0 ps)"

lemma length_scored [simp]: "length (scored t ps) = length ps"
  by (simp add: scored_def)

lemma scored_nth: "i < length ps \<Longrightarrow> scored t ps ! i = (ps ! i)\<lparr> h_score := promoted_score t (length ps - i) \<rparr>"
  by (simp add: scored_def nth_enumerate_eq)

lemma unscored [simp]: "map (h_score_update (\<lambda>_. c)) (scored t ps) = map (h_score_update (\<lambda>_. c)) ps"
  by (rule nth_equalityI) (simp_all add: scored_nth)

lemma prepend_promoted_eq:
  "prepend_promoted ps hits = scored (top_score hits) ps @ filter (\<lambda>h. \<not> overlaps_any h (scored (top_score hits) ps)) hits"
  by (simp add: prepend_promoted_def scored_def Let_def)

lemma hit_lines_score [simp]: "hit_lines (h_score_update f h) = hit_lines h"
  by (simp add: hit_lines_def hit_range_def)

lemma hit_lines_scored: "hit_lines ` set (scored t ps) = hit_lines ` set ps"
proof -
  have blank: "hit_lines ` set hs = hit_lines ` set (map (h_score_update (\<lambda>_. 0)) hs)" for hs
    by (simp add: image_comp comp_def)
  show ?thesis unfolding blank [of "scored t ps"] blank [of ps] unscored ..
qed

lemma overlaps_any_lines: "overlaps_any h ps \<longleftrightarrow> (\<exists>L \<in> hit_lines ` set ps. L \<inter> hit_lines h \<noteq> {})"
  by (auto simp: overlaps_any_def list_ex_iff overlaps_iff_common_line)

lemma top_score_bounds:
  assumes "by_score hits" and "\<forall>h \<in> set hits. f32.representable (h_score h)"
  shows "f32.representable (top_score hits)" and "\<forall>h \<in> set hits. h_score h \<le> top_score hits"
proof -
  show "f32.representable (top_score hits)"
    using assms(2) by (auto simp: top_score_def f32.representable_def split: list.split)
  show "\<forall>h \<in> set hits. h_score h \<le> top_score hits"
  proof (cases hits)
    case (Cons k ks)
    then have "\<forall>h \<in> set hits. h_score h \<le> h_score k" using assms(1) by (simp add: by_score_def)
    moreover have "h_score k \<le> top_score hits" by (simp add: Cons top_score_def)
    ultimately show ?thesis by (meson order_trans)
  qed simp
qed

lemma scored_descends: "by_score (scored t ps)"
  unfolding by_score_def sorted_wrt_iff_nth_less
  by (auto simp: scored_nth intro!: promoted_score_mono)

lemma scored_above:
  "f32.representable t \<Longrightarrow> h \<in> set (scored t ps) \<Longrightarrow> t \<le> h_score h \<and> f32.representable (h_score h)"
  by (auto simp: in_set_conv_nth scored_nth promoted_score_ge promoted_score_representable)

lemma prepend_by_score:
  assumes "by_score hits" and "\<forall>h \<in> set hits. f32.representable (h_score h)"
  shows "by_score (prepend_promoted ps hits) \<and> (\<forall>h \<in> set (prepend_promoted ps hits). f32.representable (h_score h))"
proof -
  note t = top_score_bounds [OF assms]
  let ?front = "scored (top_score hits) ps" and ?rest = "filter (\<lambda>h. \<not> overlaps_any h (scored (top_score hits) ps)) hits"
  have front: "top_score hits \<le> h_score h \<and> f32.representable (h_score h)" if "h \<in> set ?front" for h
    using scored_above [OF t(1) that] .
  have "by_score ?rest" using assms(1) unfolding by_score_def by (rule sorted_wrt_filter)
  moreover have "h_score k \<le> h_score h" if "h \<in> set ?front" "k \<in> set ?rest" for h k
    using front [OF that(1)] t(2) that(2) by fastforce
  ultimately have "by_score (?front @ ?rest)"
    using scored_descends unfolding by_score_def sorted_wrt_append by blast
  moreover have "\<forall>h \<in> set (?front @ ?rest). f32.representable (h_score h)" using front assms(2) by auto
  ultimately show ?thesis unfolding prepend_promoted_eq by blast
qed

text \<open>
  Promotion leads, loses nothing and keeps the order: the promoted hits come first in their order, after them
  exactly the text hits that share no line with a promoted one, and the scores still descend over the whole
  list, so that a client sorting by score sees the served order.
\<close>

theorem promotion_keeps_order:
  assumes "by_score hits" and "\<forall>h \<in> set hits. f32.representable (h_score h)"
  shows "by_score (prepend_promoted ps hits) \<and>
    map (h_score_update (\<lambda>_. 0)) (take (length ps) (prepend_promoted ps hits)) = map (h_score_update (\<lambda>_. 0)) ps \<and>
    drop (length ps) (prepend_promoted ps hits) = filter (\<lambda>h. \<forall>p \<in> set ps. hit_lines p \<inter> hit_lines h = {}) hits"
proof -
  have free: "filter (\<lambda>h. \<not> overlaps_any h (scored (top_score hits) ps)) hits = filter (\<lambda>h. \<forall>p \<in> set ps. hit_lines p \<inter> hit_lines h = {}) hits"
    unfolding overlaps_any_lines hit_lines_scored by simp
  have "drop (length ps) (prepend_promoted ps hits) = filter (\<lambda>h. \<forall>p \<in> set ps. hit_lines p \<inter> hit_lines h = {}) hits"
    unfolding prepend_promoted_eq free by simp
  moreover have "map (h_score_update (\<lambda>_. 0)) (take (length ps) (prepend_promoted ps hits)) = map (h_score_update (\<lambda>_. 0)) ps"
    unfolding prepend_promoted_eq by simp
  ultimately show ?thesis using prepend_by_score [OF assms] by blast
qed

definition site_hit :: "string \<Rightarrow> int \<Rightarrow> rat \<Rightarrow> hit" where
  "site_hit path line score =
     \<lparr> h_repo = ''r'', h_file = path, h_path = path, h_line = line, h_end = line + 4, h_symbol = [], h_kind = [], h_lang = [],
       h_score = score, h_snippet = [], h_reason = [] \<rparr>"

theorem promotion_keeps_order_witness:
  "by_score [site_hit ''a.go'' 1 1, site_hit ''b.go'' 1 0] \<and>
   drop 1 (prepend_promoted [site_hit ''a.go'' 3 0] [site_hit ''a.go'' 1 1, site_hit ''b.go'' 1 0]) = [site_hit ''b.go'' 1 0] \<and>
   by_score (prepend_promoted [site_hit ''a.go'' 3 0] [site_hit ''a.go'' 1 1, site_hit ''b.go'' 1 0])"
proof -
  let ?hits = "[site_hit ''a.go'' 1 1, site_hit ''b.go'' 1 0]" and ?p = "[site_hit ''a.go'' 3 0]"
  have desc: "by_score ?hits" by (simp add: by_score_def site_hit_def)
  have rep: "\<forall>h \<in> set ?hits. f32.representable (h_score h)" by (simp add: site_hit_def f32.representable_def)
  have "hit_lines (site_hit ''a.go'' 3 0) \<inter> hit_lines (site_hit ''a.go'' 1 1) \<noteq> {}"
    unfolding overlaps_iff_common_line [symmetric] by (simp add: overlaps_def hit_range_def site_hit_def)
  moreover have "hit_lines (site_hit ''a.go'' 3 0) \<inter> hit_lines (site_hit ''b.go'' 1 0) = {}"
    by (auto simp: hit_lines_def site_hit_def)
  ultimately show ?thesis using promotion_keeps_order [OF desc rep, of ?p] desc by simp
qed

section \<open>Call sites\<close>

lemma hit_site_caller: "hit_site (caller_hit e src g) = site_key e"
  by (simp add: hit_site_def caller_hit_def site_key_def of_source_def edge_site_def Let_def split: option.split)

text \<open>A use of a callee that may be answered with: in an allowed repository, and let through by the filter.\<close>

definition eligible :: "query \<Rightarrow> filters \<Rightarrow> (nat \<rightharpoonup> ast_unit) \<Rightarrow> callee_group \<Rightarrow> edge \<Rightarrow> bool" where
  "eligible q f srcs g e \<longleftrightarrow> repo_allowed (q_repos q) (e_repo e) \<and> passes f (caller_hit e (srcs (e_src e)) (cg_repr g))"

definition sound_sites :: "query \<Rightarrow> filters \<Rightarrow> (nat \<rightharpoonup> ast_unit) \<Rightarrow> (callee_group \<times> edge list) list \<Rightarrow> hit list \<times> string list \<Rightarrow> bool" where
  "sound_sites q f srcs per st \<longleftrightarrow>
     length (fst st) \<le> max_promoted_callers \<and> distinct (map hit_site (fst st)) \<and> set (snd st) = hit_site ` set (fst st) \<and>
     (\<forall>h \<in> set (fst st). \<exists>g es e. (g, es) \<in> set per \<and> e \<in> set es \<and> eligible q f srcs g e \<and> h = caller_hit e (srcs (e_src e)) (cg_repr g))"

lemma visit_sound:
  assumes "sound_sites q f srcs per (fst st, fst (snd st))" and "ge \<in> set per" and "visit_callee q f srcs r st ge = st'"
  shows "sound_sites q f srcs per (fst st', fst (snd st'))"
proof -
  obtain out seen adv where st: "st = (out, seen, adv)" by (cases st)
  obtain g es where ge: "ge = (g, es)" by (cases ge)
  let ?e = "es ! r"
  let ?h = "caller_hit ?e (srcs (e_src ?e)) (cg_repr g)"
  consider "(fst st', fst (snd st')) = (out, seen)"
    | "r < length es" "length out < max_promoted_callers" "repo_allowed (q_repos q) (e_repo ?e)" "site_key ?e \<notin> set seen" "passes f ?h"
      "st' = (out @ [?h], site_key ?e # seen, True)"
    using assms(3) unfolding st ge by (auto simp: visit_callee_def Let_def not_le split: if_splits)
  then show ?thesis
  proof cases
    case 1
    then show ?thesis using assms(1) st by simp
  next
    case 2
    have mem: "?e \<in> set es" using 2(1) by simp
    have el: "eligible q f srcs g ?e" using 2 by (simp add: eligible_def)
    from assms(1) have ih: "distinct (map hit_site out)" "set seen = hit_site ` set out"
      and src: "\<forall>h \<in> set out. \<exists>g es e. (g, es) \<in> set per \<and> e \<in> set es \<and> eligible q f srcs g e \<and> h = caller_hit e (srcs (e_src e)) (cg_repr g)"
      unfolding st sound_sites_def by simp_all
    have "\<forall>h \<in> set (out @ [?h]). \<exists>g es e. (g, es) \<in> set per \<and> e \<in> set es \<and> eligible q f srcs g e \<and> h = caller_hit e (srcs (e_src e)) (cg_repr g)"
      using src mem el assms(2) unfolding ge by (simp only: set_append list.set Un_iff) blast
    then show ?thesis
      using 2 ih unfolding sound_sites_def by (simp add: hit_site_caller)
  qed
qed

lemma visit_grows:
  "visit_callee q f srcs r st ge = st' \<Longrightarrow> set (fst (snd st)) \<subseteq> set (fst (snd st')) \<and> length (fst st) \<le> length (fst st') \<and> (snd (snd st) \<longrightarrow> snd (snd st'))"
  by (cases st; cases ge) (auto simp: visit_callee_def Let_def split: if_splits)

lemma visit_covers:
  "visit_callee q f srcs r st (g, es) = st' \<Longrightarrow> length (fst st') < max_promoted_callers \<Longrightarrow>
     (r < length es \<longrightarrow> snd (snd st') \<and> (eligible q f srcs g (es ! r) \<longrightarrow> site_key (es ! r) \<in> set (fst (snd st'))))"
  by (cases st) (auto simp: visit_callee_def eligible_def Let_def split: if_splits)

lemma round_sound:
  assumes "sound_sites q f srcs per (fst st, fst (snd st))" and "set ges \<subseteq> set per" and "foldl (visit_callee q f srcs r) st ges = st'"
  shows "sound_sites q f srcs per (fst st', fst (snd st'))"
  using assms
proof (induction ges arbitrary: st)
  case (Cons ge ges)
  have "sound_sites q f srcs per (fst (visit_callee q f srcs r st ge), fst (snd (visit_callee q f srcs r st ge)))"
    using Cons.prems by (intro visit_sound [OF Cons.prems(1) _ refl]) simp
  then show ?case using Cons.IH Cons.prems by simp
qed simp

lemma round_grows:
  "foldl (visit_callee q f srcs r) st ges = st' \<Longrightarrow> set (fst (snd st)) \<subseteq> set (fst (snd st')) \<and> length (fst st) \<le> length (fst st') \<and> (snd (snd st) \<longrightarrow> snd (snd st'))"
proof (induction ges arbitrary: st)
  case (Cons ge ges)
  from visit_grows [OF refl, of st q f srcs r ge] Cons.IH [of "visit_callee q f srcs r st ge"] Cons.prems
  show ?case by (simp only: foldl_Cons) (meson order_trans)
qed simp

lemma round_covers:
  assumes "foldl (visit_callee q f srcs r) st ges = st'" and "length (fst st') < max_promoted_callers" and "(g, es) \<in> set ges" and "r < length es"
  shows "snd (snd st') \<and> (eligible q f srcs g (es ! r) \<longrightarrow> site_key (es ! r) \<in> set (fst (snd st')))"
proof -
  obtain us vs where ges: "ges = us @ (g, es) # vs" using split_list [OF assms(3)] by blast
  let ?m = "visit_callee q f srcs r (foldl (visit_callee q f srcs r) st us) (g, es)"
  have rest: "foldl (visit_callee q f srcs r) ?m vs = st'" using assms(1) unfolding ges by simp
  from round_grows [OF rest] have g: "set (fst (snd ?m)) \<subseteq> set (fst (snd st'))" "length (fst ?m) \<le> length (fst st')" "snd (snd ?m) \<longrightarrow> snd (snd st')"
    by blast+
  have "length (fst ?m) < max_promoted_callers" using g(2) assms(2) by simp
  from visit_covers [OF refl this] assms(4)
  have "snd (snd ?m) \<and> (eligible q f srcs g (es ! r) \<longrightarrow> site_key (es ! r) \<in> set (fst (snd ?m)))" by blast
  then show ?thesis using g by blast
qed

definition all_covered :: "query \<Rightarrow> filters \<Rightarrow> (nat \<rightharpoonup> ast_unit) \<Rightarrow> (callee_group \<times> edge list) list \<Rightarrow> nat \<Rightarrow> string set \<Rightarrow> bool" where
  "all_covered q f srcs per r seen \<longleftrightarrow>
     (\<forall>g es i. (g, es) \<in> set per \<longrightarrow> i < r \<longrightarrow> i < length es \<longrightarrow> eligible q f srcs g (es ! i) \<longrightarrow> site_key (es ! i) \<in> seen)"

lemma rounds_result:
  assumes "sound_sites q f srcs per st" and "length (fst st) < max_promoted_callers \<Longrightarrow> all_covered q f srcs per r (set (snd st))"
    and "caller_rounds q f srcs per r st = out"
  shows "sound_sites q f srcs per (out, map hit_site out) \<and>
    (length out < max_promoted_callers \<longrightarrow> (\<forall>g es e. (g, es) \<in> set per \<longrightarrow> e \<in> set es \<longrightarrow> eligible q f srcs g e \<longrightarrow> site_key e \<in> hit_site ` set out))"
  using assms
proof (induction q f srcs per r st rule: caller_rounds.induct)
  case (1 q f srcs per r st)
  show ?case
  proof (cases "length (fst st) \<ge> max_promoted_callers")
    case True
    then have "out = fst st" using 1(4) by (subst (asm) caller_rounds.simps) simp
    then show ?thesis using 1(2) True by (simp add: sound_sites_def)
  next
    case False
    obtain out' seen' adv where st': "caller_round q f srcs per r st = (out', seen', adv)" by (cases "caller_round q f srcs per r st") auto
    have fold: "foldl (visit_callee q f srcs r) (fst st, snd st, False) per = (out', seen', adv)" using st' by (simp add: caller_round_def)
    have snd': "sound_sites q f srcs per (out', seen')" using round_sound [OF _ subset_refl fold] 1(2) by simp
    have cov: "all_covered q f srcs per (Suc r) (set seen')" if "length out' < max_promoted_callers"
    proof -
      have old: "all_covered q f srcs per r (set (snd st))" using 1(3) False by simp
      have "set (snd st) \<subseteq> set seen'" using round_grows [OF fold] by simp
      moreover have "r < length es \<Longrightarrow> eligible q f srcs g (es ! r) \<Longrightarrow> site_key (es ! r) \<in> set seen'" if "(g, es) \<in> set per" for g es
        using round_covers [OF fold _ that] \<open>length out' < max_promoted_callers\<close> by simp
      ultimately show ?thesis using old unfolding all_covered_def less_Suc_eq by blast
    qed
    show ?thesis
    proof (cases adv)
      case True
      have run: "caller_rounds q f srcs per (Suc r) (out', seen') = out"
        using 1(4) False st' True by (subst (asm) caller_rounds.simps) simp
      show ?thesis using 1(1) [OF False st' [symmetric] refl True] snd' cov run by simp
    next
      case no: False
      have out: "out = out'" using 1(4) False st' no by (subst (asm) caller_rounds.simps) simp
      have "sound_sites q f srcs per (out, map hit_site out)" using snd' unfolding sound_sites_def out by simp
      moreover have "site_key e \<in> hit_site ` set out"
        if len: "length out < max_promoted_callers" and ge: "(g, es) \<in> set per" "e \<in> set es" "eligible q f srcs g e" for g es e
      proof -
        have "length es \<le> r" using round_covers [OF fold _ ge(1)] no len unfolding out by fastforce
        moreover obtain i where i: "i < length es" "e = es ! i" using ge(2) by (auto simp: in_set_conv_nth)
        ultimately have "site_key e \<in> set seen'" using cov len ge i unfolding out all_covered_def by fastforce
        then show ?thesis using snd' unfolding sound_sites_def out by simp
      qed
      ultimately show ?thesis by blast
    qed
  qed
qed

text \<open>The units behind the call sites of a list of callees.\<close>

definition call_sources :: "gdb \<Rightarrow> callee_group list \<Rightarrow> nat \<rightharpoonup> ast_unit" where
  "call_sources d callees =
     promoter_units d (concat (map (\<lambda>g. filter (\<lambda>i. i \<noteq> 0) (map e_src (sort_caller_edges (incoming_edges d g)))) callees))"

definition usable :: "gdb \<Rightarrow> query \<Rightarrow> callee_group list \<Rightarrow> callee_group \<Rightarrow> edge \<Rightarrow> bool" where
  "usable d q callees g e \<longleftrightarrow>
     g \<in> set callees \<and> e \<in> set (incoming_edges d g) \<and> eligible q (parse_filters (q_filter q)) (call_sources d callees) g e"

lemma call_sites_answered:
  "length (caller_hits d q callees) \<le> 10 \<and> distinct (map hit_site (caller_hits d q callees)) \<and>
   (\<forall>h \<in> set (caller_hits d q callees). \<exists>g e. usable d q callees g e \<and> h = caller_hit e (call_sources d callees (e_src e)) (cg_repr g)) \<and>
   (length (caller_hits d q callees) < 10 \<longrightarrow> (\<forall>g e. usable d q callees g e \<longrightarrow> site_key e \<in> hit_site ` set (caller_hits d q callees)))"
proof -
  let ?f = "parse_filters (q_filter q)" and ?per = "map (\<lambda>g. (g, sort_caller_edges (incoming_edges d g))) callees"
  let ?s = "call_sources d callees"
  have out: "caller_rounds q ?f ?s ?per 0 ([], []) = caller_hits d q callees"
    by (simp add: caller_hits_def call_sources_def Let_def comp_def)
  have start: "sound_sites q ?f ?s ?per ([], [])" by (simp add: sound_sites_def)
  have none: "all_covered q ?f ?s ?per 0 (set (snd ([] :: hit list, [])))" by (simp add: all_covered_def)
  note r = rounds_result [OF start none out]
  have per: "(g, es) \<in> set ?per \<longleftrightarrow> g \<in> set callees \<and> es = sort_caller_edges (incoming_edges d g)" for g es by auto
  have edges: "set (sort_caller_edges es) = set es" for es by (simp add: sort_caller_edges_def sort_edges_by_def)
  have sound: "length (caller_hits d q callees) \<le> 10" "distinct (map hit_site (caller_hits d q callees))"
    "\<forall>h \<in> set (caller_hits d q callees). \<exists>g es e. (g, es) \<in> set ?per \<and> e \<in> set es \<and> eligible q ?f ?s g e \<and> h = caller_hit e (?s (e_src e)) (cg_repr g)"
    using r [THEN conjunct1] unfolding sound_sites_def fst_conv max_promoted_callers_def by blast+
  have "\<forall>h \<in> set (caller_hits d q callees). \<exists>g e. usable d q callees g e \<and> h = caller_hit e (?s (e_src e)) (cg_repr g)"
    using sound(3) unfolding per usable_def by (metis edges)
  moreover have "length (caller_hits d q callees) < 10 \<longrightarrow>
      (\<forall>g e. usable d q callees g e \<longrightarrow> site_key e \<in> hit_site ` set (caller_hits d q callees))"
    using r [THEN conjunct2] unfolding per max_promoted_callers_def usable_def using edges by blast
  ultimately show ?thesis using sound(1, 2) by blast
qed


section \<open>A graph with one callee\<close>

definition plain_unit :: "nat \<Rightarrow> string \<Rightarrow> string \<Rightarrow> string \<Rightarrow> ast_unit" where
  "plain_unit i kd nm path =
     \<lparr> u_id = i, u_repo = ''r'', u_file = path, u_language = ''go'', u_kind = kd, u_name = nm, u_qualified = nm, u_parent = 0,
       u_start_line = 1, u_end_line = 9, u_start_byte = 0, u_end_byte = 9, u_signature = [], u_doc = [], u_hash = [], u_meta = [] \<rparr>"

definition plain_edge :: "nat \<Rightarrow> nat \<Rightarrow> nat \<Rightarrow> string \<Rightarrow> string \<Rightarrow> string \<Rightarrow> edge" where
  "plain_edge i src dst kd nm path =
     \<lparr> e_id = i, e_repo = ''r'', e_src = src, e_dst = dst, e_kind = kd, e_dst_name = nm, e_file = path, e_line = 4, e_dst_repo = [],
       e_conf = 1, e_meta = [] \<rparr>"

definition ship_db :: gdb where
  "ship_db = \<lparr> g_units = [plain_unit 1 ''function'' ''shipOrder'' ''ship.go'', plain_unit 2 ''function'' ''checkout'' ''cart.go''],
     g_edges = [plain_edge 1 2 1 ''call'' ''shipOrder'' ''cart.go'', plain_edge 2 1 1 ''call'' ''shipOrder'' ''ship.go''],
     g_next_unit = 3, g_next_edge = 3 \<rparr>"

definition ship_query :: query where
  "ship_query = \<lparr> q_text = ''what calls shipOrder'', q_repo = [], q_repos = [''r''], q_limit = 5, q_filter = [], q_vector = [], q_intent = [] \<rparr>"

definition ship_group :: callee_group where
  "ship_group = \<lparr> cg_key = ''shipOrder'', cg_repr = plain_unit 1 ''function'' ''shipOrder'' ''ship.go'', cg_ids = [1] \<rparr>"


end
