(* ===== verification/App_Search_Facts.thy ===== *)
theory App_Search_Facts
  imports App_Context Promote_Facts Search_Fusion_RRF Graph_Trace_Report
begin

text \<open>
  What a search request answers with: the promotions and the ranking keep the hits ordered by score and
  within the repositories of the request.
\<close>

section \<open>Good hits\<close>

text \<open>A score that is a \<open>float32\<close>, and a repository the request may read.\<close>

definition good_hit :: "string list \<Rightarrow> hit \<Rightarrow> bool" where
  "good_hit rs h \<longleftrightarrow> f32.representable (h_score h) \<and> repo_allowed rs (h_repo h)"

definition good_hits :: "string list \<Rightarrow> hit list \<Rightarrow> bool" where
  "good_hits rs hs \<longleftrightarrow> by_score hs \<and> (\<forall>h \<in> set hs. good_hit rs h)"

lemma good_take: "good_hits rs hs \<Longrightarrow> good_hits rs (take n hs)"
  by (auto simp: good_hits_def by_score_def sorted_wrt_take dest: in_set_takeD)

lemma good_Nil [simp]: "good_hits rs []"
  by (simp add: good_hits_def by_score_def)

section \<open>Fusion and ranking\<close>

definition allowed_clusters :: "string list \<Rightarrow> fuse_state \<Rightarrow> bool" where
  "allowed_clusters rs st \<longleftrightarrow> (\<forall>c \<in> set (order st). repo_allowed rs (h_repo (cl_hit c)) \<and> f32.representable (cl_score c))"

lemma contributed: "repo_allowed rs (h_repo (cl_hit c)) \<Longrightarrow> repo_allowed rs (h_repo h) \<Longrightarrow>
    repo_allowed rs (h_repo (cl_hit (add_contribution (promote_hit c r h) s x h))) \<and> f32.representable (cl_score (add_contribution (promote_hit c r h) s x h))"
  by (simp add: add_contribution_def promote_hit_def f32.representable_def)

lemma allowed_fuse_hit:
  assumes "allowed_clusters rs st" and "repo_allowed rs (h_repo (snd (snd a)))"
  shows "allowed_clusters rs (fuse_hit f st a)"
proof -
  obtain s r h where a: "a = (s, r, h)" by (cases a)
  show ?thesis
  proof (cases "find_cluster st s h")
    case None
    then show ?thesis using assms
      by (auto simp: a fuse_hit_def allowed_clusters_def new_cluster_def add_contribution_def f32.representable_def Let_def)
  next
    case (Some i)
    let ?c = "add_contribution (promote_hit (order st ! i) r h) s (f s r h) h"
    have new: "order (fuse_hit f st a) = (order st)[i := ?c]" by (simp add: a fuse_hit_def Some)
    show ?thesis
    proof (cases "i < length (order st)")
      case True
      have "order st ! i \<in> set (order st)" using True by simp
      then have "repo_allowed rs (h_repo (cl_hit (order st ! i)))" using assms(1) unfolding allowed_clusters_def by blast
      then have "repo_allowed rs (h_repo (cl_hit ?c)) \<and> f32.representable (cl_score ?c)"
        using contributed assms(2) by (simp add: a)
      then show ?thesis using assms(1) set_update_subset_insert [of "order st" i ?c] unfolding allowed_clusters_def new by blast
    next
      case False
      then show ?thesis using assms(1) unfolding allowed_clusters_def new by (simp add: list_update_beyond)
    qed
  qed
qed

lemma allowed_fuse: "\<forall>a \<in> set as. repo_allowed rs (h_repo (snd (snd a))) \<Longrightarrow> allowed_clusters rs st \<Longrightarrow>
    allowed_clusters rs (foldl (fuse_hit f) st as)"
  by (induction as arbitrary: st) (simp_all add: allowed_fuse_hit)

lemma sort_hits_by_score: "by_score (sort_hits hs)"
proof -
  have "hit_order.in_order (sort_hits hs)" unfolding sort_hits_def by (rule hit_order.in_order_sort)
  then show ?thesis unfolding hit_order.in_order_def by_score_def
    by (rule sorted_wrt_mono_rel [rotated]) (auto simp: hit_lt_def split: if_splits)
qed

lemma good_fuse_by:
  assumes "\<forall>r \<in> set results. \<forall>h \<in> set (snd r). repo_allowed rs (h_repo h)"
  shows "good_hits rs (fuse_by results f)"
proof -
  have "\<forall>a \<in> set (arrivals results). repo_allowed rs (h_repo (snd (snd a)))"
    using assms by (auto simp: arrivals_def arrivals_of_def in_set_enumerate_eq)
  from allowed_fuse [OF this, of empty_state f]
  have "allowed_clusters rs (foldl (fuse_hit f) empty_state (arrivals results))"
    by (simp add: allowed_clusters_def empty_state_def)
  then show ?thesis
    by (auto simp: good_hits_def good_hit_def fuse_by_def sort_hits_by_score finish_cluster_def allowed_clusters_def)
qed

lemma good_fuse: "\<forall>r \<in> set results. \<forall>h \<in> set (snd r). repo_allowed rs (h_repo h) \<Longrightarrow> good_hits rs (fuse cfg results)"
  by (auto simp: fuse_def fuse_rrf_def fuse_convex_def good_fuse_by split: fusion_method.split)

lemma good_sort: "\<forall>h \<in> set hs. good_hit rs h \<Longrightarrow> good_hits rs (sort_hits hs)"
  by (simp add: good_hits_def sort_hits_by_score)

text \<open>Merging keeps some of the hits, with their scores and repositories.\<close>

abbreviation score_and_repo :: "hit \<Rightarrow> rat \<times> string" where
  "score_and_repo h \<equiv> (h_score h, h_repo h)"

lemma merge_subseq: "subseq (map score_and_repo (kept (foldl merge_hit st hs))) (map score_and_repo (kept st @ hs))"
proof (induction hs arbitrary: st)
  case (Cons h hs)
  have step: "subseq (map score_and_repo (kept (merge_hit st h))) (map score_and_repo (kept st @ [h]))"
  proof (cases "List.find (\<lambda>i. overlaps (kept st ! i) h) (files st (file_key h))")
    case (Some i)
    have "map score_and_repo ((kept st)[i := widen (kept st ! i) h]) = map score_and_repo (kept st)"
      by (cases "i < length (kept st)") (auto intro!: nth_equalityI simp: nth_list_update list_update_beyond)
    moreover have "subseq (map score_and_repo (kept st)) (map score_and_repo (kept st @ [h]))"
      by (simp add: subseq_rev_drop_many)
    ultimately show ?thesis using Some by (simp only: merge_hit_def) simp
  qed (simp add: merge_hit_def)
  have "subseq (map score_and_repo (kept (foldl merge_hit (merge_hit st h) hs))) (map score_and_repo (kept (merge_hit st h) @ hs))"
    by (rule Cons.IH)
  also have "subseq (map score_and_repo (kept (merge_hit st h) @ hs)) (map score_and_repo ((kept st @ [h]) @ hs))"
    using list_emb_append_mono [OF step subseq_order.order_refl] by (simp only: map_append)
  finally show ?case by simp
qed simp

lemma subseq_set: "subseq xs ys \<Longrightarrow> \<forall>y \<in> set ys. P y \<Longrightarrow> \<forall>x \<in> set xs. P x"
  by (induction rule: list_emb.induct) auto

lemma subseq_sorted_wrt: "subseq xs ys \<Longrightarrow> sorted_wrt R ys \<Longrightarrow> sorted_wrt R xs"
proof (induction rule: list_emb.induct)
  case (list_emb_Cons2 x y xs ys)
  then show ?case using subseq_set [of xs ys "R y"] by simp
qed simp_all

lemma good_by_view:
  "good_hits rs hs \<longleftrightarrow> sorted_wrt (\<lambda>a b. fst b \<le> fst a) (map score_and_repo hs) \<and>
     (\<forall>p \<in> set (map score_and_repo hs). f32.representable (fst p) \<and> repo_allowed rs (snd p))"
  by (simp add: good_hits_def good_hit_def by_score_def sorted_wrt_map)

lemma good_merge: "good_hits rs hs \<Longrightarrow> good_hits rs (fst (merge_spans hs m))"
proof -
  assume good: "good_hits rs hs"
  have sub: "subseq (map score_and_repo (fst (merge_spans hs m))) (map score_and_repo hs)"
    using merge_subseq [of no_merges hs] by (simp add: merge_spans_def no_merges_def Let_def)
  show ?thesis unfolding good_by_view
    using good [unfolded good_by_view] subseq_sorted_wrt [OF sub] subseq_set [OF sub] by (intro conjI) blast+
qed

lemma blend_representable:
  assumes "\<forall>h \<in> set head. f32.representable (h_score h)" and "x \<in> set (blend_rerank_scores head tail scores)"
  shows "f32.representable x"
  using assms by (auto simp: blend_rerank_scores_def f32.representable_def Let_def split: prod.splits if_splits)

lemma good_rerank_hit:
  assumes "\<forall>h \<in> set hs. good_hit rs h" and "h \<in> set (fst (apply_rerank rr n q hs m))"
  shows "good_hit rs h"
proof -
  let ?n = "if length hs < n then length hs else n"
  have "h \<in> set hs \<or> (\<exists>scores. h \<in> set (rerank_head (take ?n hs) (drop ?n hs) scores))"
    using assms(2) by (auto simp: apply_rerank_def Let_def split: option.splits if_splits sum.splits dest: in_set_dropD)
  then show ?thesis
  proof
    assume "\<exists>scores. h \<in> set (rerank_head (take ?n hs) (drop ?n hs) scores)"
    then obtain scores where "h \<in> set (map2 reranked_hit (take ?n hs) (blend_rerank_scores (take ?n hs) (drop ?n hs) scores))"
      unfolding rerank_head_def by auto
    then obtain k x where k: "h = reranked_hit k x" "k \<in> set (take ?n hs)" "x \<in> set (blend_rerank_scores (take ?n hs) (drop ?n hs) scores)"
      by (auto dest: set_zip_leftD set_zip_rightD)
    have "\<forall>h \<in> set (take ?n hs). f32.representable (h_score h)" using assms(1) in_set_takeD unfolding good_hit_def by metis
    from blend_representable [OF this k(3)] assms(1) in_set_takeD [OF k(2)]
    show ?thesis by (simp add: k(1) reranked_hit_def good_hit_def)
  qed (use assms in blast)
qed

lemma good_rerank:
  assumes "good_hits rs hs" and "rr = None \<or> 0 < n"
  shows "good_hits rs (fst (apply_rerank rr n q hs m))"
proof (cases "0 < n")
  case False
  then show ?thesis using assms by (simp add: apply_rerank_def)
next
  case True
  have "by_score (fst (apply_rerank rr n q hs m))"
    using rerank_by_score [of hs n rr q m "fst (apply_rerank rr n q hs m)" "snd (apply_rerank rr n q hs m)"] assms(1) True
    by (simp add: good_hits_def good_hit_def)
  then show ?thesis using assms(1) good_rerank_hit unfolding good_hits_def by blast
qed

lemma good_rank: "good_hits rs hs \<Longrightarrow> good_hits rs (fst (rank_for s text hs m limit))"
proof -
  assume "good_hits rs hs"
  moreover have "s_reranker s = None \<or> 0 < nat (top_n s)" by (simp add: top_n_def default_rerank_top_n_def)
  ultimately have "good_hits rs (fst (apply_rerank (s_reranker s) (nat (top_n s)) text hs m))" by (rule good_rerank)
  then show ?thesis
    by (auto simp: rank_for_def rank_def truncate_hits_def Let_def case_prod_beta intro: good_take good_merge)
qed

section \<open>Retrieval\<close>

text \<open>
  What a searcher promises: it reads the repositories its query names and no others, and a score is a
  \<open>float32\<close> (the type of the field).
\<close>

definition scoped_searcher :: "searcher \<Rightarrow> bool" where
  "scoped_searcher srch \<longleftrightarrow> (\<forall>q r. srch q = Inr (Some r) \<longrightarrow> (\<forall>h \<in> set (r_hits r). good_hit (q_repos q) h))"

definition scoped_service :: "service \<Rightarrow> bool" where
  "scoped_service s \<longleftrightarrow> (\<forall>t srch. searchers s t = Some srch \<longrightarrow> scoped_searcher srch)"

lemma candidate_repos [simp]: "q_repos (candidate_query s q) = q_repos q"
  by (simp add: candidate_query_def Let_def)

lemma good_candidates_from:
  assumes "scoped_service s" and "candidates_from s t q = Inr (hits, m)"
  shows "good_hits (q_repos q) hits"
proof (cases "searchers s t")
  case None
  then show ?thesis using assms(2) by (simp add: candidates_from_def)
next
  case (Some srch)
  then obtain r where r: "srch (candidate_query s q) = Inr (Some r)" "hits = sort_hits (r_hits r)"
    using assms(2) by (auto simp: candidates_from_def settle_def Let_def split: sum.splits option.splits)
  have "scoped_searcher srch" using assms(1) Some by (simp add: scoped_service_def)
  then have "\<forall>h \<in> set (r_hits r). good_hit (q_repos q) h"
    using r(1) unfolding scoped_searcher_def by (metis candidate_repos)
  then show ?thesis unfolding r(2) by (rule good_sort)
qed

lemma good_answers:
  assumes "scoped_service s" and "x \<in> set (List.map_filter (good (candidate_query s q)) (configured s))"
  shows "\<forall>h \<in> set (snd x). repo_allowed (q_repos q) (h_repo h)"
proof -
  from assms(2) obtain t srch where t: "(t, srch) \<in> set (configured s)" "good (candidate_query s q) (t, srch) = Some x"
    by (auto simp: set_map_filter)
  then obtain r where r: "srch (candidate_query s q) = Inr (Some r)" "x = (t, sort_hits (r_hits r))"
    by (auto simp: good_def split: sum.splits option.splits)
  have "searchers s t = Some srch" using t(1) by (auto simp: configured_def set_map_filter)
  then have "scoped_searcher srch" using assms(1) by (simp add: scoped_service_def)
  then have "\<forall>h \<in> set (r_hits r). good_hit (q_repos q) h"
    using r(1) unfolding scoped_searcher_def by (metis candidate_repos)
  then show ?thesis unfolding r(2) by (simp add: good_hit_def)
qed

lemma good_all_candidates:
  assumes "scoped_service s" and "candidates s q = Inr (hits, m)"
  shows "good_hits (q_repos q) hits"
proof -
  have "hits = [] \<or> hits = fuse (config_of s) (List.map_filter (good (candidate_query s q)) (configured s))"
    using assms(2) by (auto simp: candidates_def collect_results_eq Let_def split: if_splits)
  moreover have "good_hits (q_repos q) (fuse (config_of s) (List.map_filter (good (candidate_query s q)) (configured s)))"
    by (rule good_fuse) (use good_answers [OF assms(1)] in blast)
  ultimately show ?thesis by auto
qed

lemma good_retrieve: "scoped_service s \<Longrightarrow> retrieve s mode q = Inr (hits, m) \<Longrightarrow> good_hits (q_repos q) hits"
  by (auto simp: retrieve_def map_sum_def id_def intro: good_candidates_from good_all_candidates split: if_splits sum.splits)

section \<open>Promotion\<close>

text \<open>A route and its handlers are in one repository, which is how the linker resolves \<open>handled_by\<close> edges.\<close>

definition handlers_local :: "gdb \<Rightarrow> bool" where
  "handlers_local d \<longleftrightarrow> 0 \<notin> u_id ` set (g_units d) \<and>
     (\<forall>e \<in> set (g_edges d). e_kind e = ''handled_by'' \<longrightarrow>
        (\<forall>u \<in> set (g_units d). \<forall>v \<in> set (g_units d). u_id u = e_src e \<longrightarrow> u_id v = e_dst e \<longrightarrow> u_repo v = u_repo u))"

lemma good_prepend:
  assumes "good_hits rs hs" and "\<forall>p \<in> set ps. repo_allowed rs (h_repo p)"
  shows "good_hits rs (prepend_promoted ps hs)"
proof -
  have "by_score (prepend_promoted ps hs) \<and> (\<forall>h \<in> set (prepend_promoted ps hs). f32.representable (h_score h))"
    using assms(1) by (intro prepend_by_score) (simp_all add: good_hits_def good_hit_def)
  moreover have "\<forall>h \<in> set (scored t ps). repo_allowed rs (h_repo h)" for t
    using assms(2) by (auto simp: scored_def in_set_enumerate_eq)
  then have "\<forall>h \<in> set (prepend_promoted ps hs). repo_allowed rs (h_repo h)"
    using assms(1) unfolding prepend_promoted_eq good_hits_def good_hit_def by auto
  ultimately show ?thesis unfolding good_hits_def good_hit_def by blast
qed

lemma map_of_units: "foldl (\<lambda>m u. m(u_id u \<mapsto> u)) m us i = Some v \<Longrightarrow> m i = Some v \<or> v \<in> set us \<and> u_id v = i"
  by (induction us arbitrary: m) (fastforce split: if_splits)+

lemma promoter_unit: "promoter_units d ids i = Some v \<Longrightarrow> v \<in> set (g_units d) \<and> u_id v = i"
  using map_of_units [of Map.empty "get_ast_units_by_ids (dedup_ids [] ids) d" i v]
  by (auto simp: promoter_units_def units_by_id_set split: if_splits)

lemma edge_rows: "e \<in> set (get_edges opts d) \<Longrightarrow> e \<in> set (g_edges d) \<and> edge_selected opts e"
  by (auto simp: get_edges_def limited_def split: if_splits dest: in_set_takeD)

lemma units_by_key_rows: "u \<in> set (units_by_key d q key) \<Longrightarrow> u \<in> set (g_units d) \<and> repo_allowed (q_repos q) (u_repo u)"
  by (auto simp: units_by_key_def Let_def split: if_splits dest: unit_rows_stored)

lemma handlers_allowed:
  assumes "handlers_local d" and "u \<in> set (units_by_key d q key)" and "h \<in> set (handlers_of d u)"
  shows "repo_allowed (q_repos q) (h_repo h)"
proof -
  let ?opts = "any_opts\<lparr> o_src := u_id u, o_kind := ''handled_by'', o_limit := 10 \<rparr>"
  let ?m = "promoter_units d (map e_dst (get_edges ?opts d))"
  have "handlers_of d u = List.map_filter (\<lambda>e. map_option (\<lambda>v. unit_hit v (''handles '' @ u_name u)) (?m (e_dst e))) (get_edges ?opts d)"
    by (simp add: handlers_of_def Let_def)
  then obtain e v where e: "e \<in> set (get_edges ?opts d)" "?m (e_dst e) = Some v" "h = unit_hit v (''handles '' @ u_name u)"
    using assms(3) by (auto simp: set_map_filter)
  have v: "v \<in> set (g_units d)" "u_id v = e_dst e" using promoter_unit [OF e(2)] by auto
  have u: "u \<in> set (g_units d)" "repo_allowed (q_repos q) (u_repo u)" using units_by_key_rows [OF assms(2)] by auto
  have row: "e \<in> set (g_edges d)" "edge_selected ?opts e" using edge_rows [OF e(1)] by auto
  then have k: "e_kind e = ''handled_by''" and src: "u_id u \<noteq> 0 \<longrightarrow> e_src e = u_id u"
    by (auto simp: edge_selected_def any_opts_def)
  have "u_id u \<noteq> 0" using assms(1) u(1) unfolding handlers_local_def by (metis imageI)
  then have "u_repo v = u_repo u" using assms(1) row(1) k u(1) v src unfolding handlers_local_def by metis
  then show ?thesis using u(2) by (simp add: e(3) unit_hit_def)
qed

lemma set_push: "set (foldl push_hit out hs) \<subseteq> set out \<union> set hs"
proof (induction hs arbitrary: out)
  case (Cons h hs)
  have "set (push_hit out h) \<subseteq> insert h (set out)" by (auto simp: push_hit_def)
  then show ?case using Cons.IH [of "push_hit out h"] by auto
qed simp

lemma edge_hit_repo [simp]: "h_repo (contract_edge_hit e src key verb) = e_repo e" "h_repo (caller_hit e src g) = e_repo e"
  by (simp_all add: contract_edge_hit_def caller_hit_def of_source_def edge_site_def Let_def split: option.split)

lemma contract_hits_allowed:
  assumes "handlers_local d" and "h \<in> set (contract_hits d q r)"
  shows "repo_allowed (q_repos q) (h_repo h)"
proof -
  let ?us = "units_by_key d q (cr_key r)"
  let ?kept = "sort_contract_edges (filter (serving_edge q) (get_edges (any_opts\<lparr> o_name := cr_key r, o_limit := contract_edge_limit \<rparr>) d))"
  let ?m = "promoter_units d (map e_src ?kept)"
  let ?a = "concat (map (handlers_of d) (filter (\<lambda>u. u_kind u = ''http_route'') ?us))"
  let ?b = "map (\<lambda>u. unit_hit u (contract_declares (u_kind u))) ?us"
  let ?c = "map (\<lambda>e. contract_edge_hit e (?m (e_src e)) (cr_key r) (contract_edge_verb (e_kind e))) ?kept"
  let ?out = "foldl push_hit (foldl push_hit (foldl push_hit [] ?a) ?b) ?c"
  have "set (contract_hits d q r) \<subseteq> set ?out" by (simp add: contract_hits_def Let_def)
  also have "set ?out \<subseteq> set ?a \<union> set ?b \<union> set ?c"
    using set_push [of "foldl push_hit (foldl push_hit [] ?a) ?b" ?c] set_push [of "foldl push_hit [] ?a" ?b] set_push [of "[]" ?a]
    by (simp only: list.set) blast
  finally have "h \<in> set ?a \<union> set ?b \<union> set ?c" using assms(2) by blast
  then consider u where "u \<in> set ?us" "h \<in> set (handlers_of d u)" | u where "u \<in> set ?us" "h = unit_hit u (contract_declares (u_kind u))"
    | e where "e \<in> set ?kept" "h_repo h = e_repo e" by auto
  then show ?thesis
  proof cases
    case 1
    then show ?thesis by (rule handlers_allowed [OF assms(1)])
  next
    case 2
    then show ?thesis using units_by_key_rows by (simp add: unit_hit_def)
  next
    case 3
    then show ?thesis by (auto simp: sort_contract_edges_def sort_edges_by_def serving_edge_def)
  qed
qed

lemma resolve_refs_hits:
  "h \<in> set (snd (resolve_refs d q acc refs)) \<Longrightarrow> h \<in> set (snd acc) \<or> (\<exists>r. h \<in> set (contract_hits d q r))"
proof (induction refs arbitrary: acc)
  case (Cons r rs)
  obtain resolved ps where acc: "acc = (resolved, ps)" by (cases acc)
  let ?hs = "contract_hits d q r"
  consider "h \<in> set (snd (resolve_refs d q (resolved, ps) rs))" | "h \<in> set (ps @ ?hs)" | "h \<in> set (snd (resolve_refs d q (resolved @ [cr_key r], ps @ ?hs) rs))"
    using Cons.prems by (auto simp: acc Let_def split: if_splits dest: in_set_takeD)
  then show ?case using Cons.IH [of "(resolved, ps)"] Cons.IH [of "(resolved @ [cr_key r], ps @ ?hs)"] by cases (auto simp: acc)
qed simp

lemma impl_hits_edges: "h \<in> set (impl_hits srcs seen es) \<Longrightarrow> \<exists>e \<in> set es. h_repo h = e_repo e"
  by (induction srcs seen es rule: impl_hits.induct) (auto split: if_splits)

lemma use_hits_edges: "h \<in> set (fst (use_hits f srcs acc es)) \<Longrightarrow> h \<in> set (fst acc) \<or> (\<exists>e \<in> set es. h_repo h = e_repo e)"
  by (induction f srcs acc es rule: use_hits.induct) (auto simp: Let_def split: if_splits prod.splits)

lemma scanned_edge:
  assumes "[] \<notin> set (q_repos q)" and "repo \<in> set (scan_repos q)" and "e \<in> set (get_edges (any_opts\<lparr> o_repo := repo, o_kind := k, o_limit := n \<rparr>) d)"
  shows "repo_allowed (q_repos q) (e_repo e)"
  using assms edge_rows [OF assms(3)]
  by (auto simp: scan_repos_def repo_allowed_def edge_selected_def any_opts_def list_ex_iff split: if_splits)

text \<open>Every promotion leaves the hits alone or puts some in front, and keeps good hits good.\<close>

lemma promote_callers_shape:
  "fst (promote_callers p q callee hm) = fst hm \<or> (\<exists>d cs. fst (promote_callers p q callee hm) = prepend_promoted (caller_hits d q cs) (fst hm))"
  by (cases hm; cases "pr_store p"; cases "pr_graph p") (simp_all add: promote_callers_def Let_def, blast)

lemma good_promote_callers:
  assumes "good_hits (q_repos q) (fst hm)"
  shows "good_hits (q_repos q) (fst (promote_callers p q callee hm))"
proof -
  have "repo_allowed (q_repos q) (h_repo h)" if "h \<in> set (caller_hits d q cs)" for h d cs
  proof -
    note call_sites_answered [of d q cs, THEN conjunct2, THEN conjunct2, THEN conjunct1]
    from bspec [OF this that] obtain g e where "usable d q cs g e" "h = caller_hit e (call_sources d cs (e_src e)) (cg_repr g)"
      by (elim exE conjE)
    then show ?thesis by (simp add: usable_def eligible_def)
  qed
  then have "good_hits (q_repos q) (prepend_promoted (caller_hits d q cs) (fst hm))" for d cs
    using assms by (intro good_prepend) auto
  then show ?thesis using assms promote_callers_shape [of p q callee hm] by metis
qed

lemma promote_contracts_shape:
  "fst (promote_contracts p q hm) = fst hm \<or>
   (\<exists>d refs. pr_store p = Some d \<and> fst (promote_contracts p q hm) = prepend_promoted (snd (resolve_refs d q ([], []) refs)) (fst hm))"
  by (cases hm; cases "pr_store p") (simp_all add: promote_contracts_def Let_def case_prod_beta, blast)

lemma good_promote_contracts:
  assumes "good_hits (q_repos q) (fst hm)" and "\<And>d. pr_store p = Some d \<Longrightarrow> handlers_local d"
  shows "good_hits (q_repos q) (fst (promote_contracts p q hm))"
proof -
  have "good_hits (q_repos q) (prepend_promoted (snd (resolve_refs d q ([], []) refs)) (fst hm))" if "pr_store p = Some d" for d refs
  proof (rule good_prepend [OF assms(1)], rule ballI)
    fix h assume "h \<in> set (snd (resolve_refs d q ([], []) refs))"
    then obtain r where "h \<in> set (contract_hits d q r)" using resolve_refs_hits [of h d q "([], [])" refs] by auto
    then show "repo_allowed (q_repos q) (h_repo h)" by (rule contract_hits_allowed [OF assms(2) [OF that]])
  qed
  then show ?thesis using assms(1) promote_contracts_shape [of p q hm] by metis
qed

lemma promote_rpc_shape:
  "fst (promote_rpc_implementations p q hm) = fst hm \<or>
   (\<exists>d P m es. set es \<subseteq> (\<Union>repo \<in> set (scan_repos q). set (get_edges (any_opts\<lparr> o_repo := repo, o_kind := ''implements_rpc'', o_limit := rpc_impl_scan_limit \<rparr>) d)) \<and>
      fst (promote_rpc_implementations p q hm) = prepend_promoted (impl_hits m [] es) (fst hm))"
proof -
  obtain hits mt where hm: "hm = (hits, mt)" by (cases hm)
  show ?thesis
  proof (cases "pr_store p")
    case None
    then show ?thesis by (simp add: hm promote_rpc_implementations_def)
  next
    case (Some d)
    define es where "es = (let words = filter (\<lambda>w. w \<notin> set rpc_stop_words) (word_components (q_text q));
        matched = sort_contract_edges (concat (map (\<lambda>repo. filter (\<lambda>e. \<not> is_test_path (e_file e) \<and> rpc_key_described (e_dst_name e) words)
          (get_edges (any_opts\<lparr> o_repo := repo, o_kind := ''implements_rpc'', o_limit := rpc_impl_scan_limit \<rparr>) d)) (scan_repos q)))
      in if length matched > max_promoted_contracts then take max_promoted_contracts matched else matched)"
    have "set es \<subseteq> (\<Union>repo \<in> set (scan_repos q). set (get_edges (any_opts\<lparr> o_repo := repo, o_kind := ''implements_rpc'', o_limit := rpc_impl_scan_limit \<rparr>) d))"
      by (auto simp: es_def Let_def sort_contract_edges_def sort_edges_by_def split: if_splits dest!: in_set_takeD)
    moreover have "fst (promote_rpc_implementations p q hm) = fst hm \<or>
        fst (promote_rpc_implementations p q hm) = prepend_promoted (impl_hits (promoter_units d (map e_src es)) [] es) (fst hm)"
      by (simp add: hm promote_rpc_implementations_def Some es_def Let_def)
    ultimately show ?thesis by blast
  qed
qed

lemma good_promote_rpc:
  assumes "good_hits (q_repos q) (fst hm)" and "[] \<notin> set (q_repos q)"
  shows "good_hits (q_repos q) (fst (promote_rpc_implementations p q hm))"
proof -
  have "good_hits (q_repos q) (prepend_promoted (impl_hits m [] es) (fst hm))"
    if es: "set es \<subseteq> (\<Union>repo \<in> set (scan_repos q). set (get_edges (any_opts\<lparr> o_repo := repo, o_kind := ''implements_rpc'', o_limit := rpc_impl_scan_limit \<rparr>) d))" for d m es
  proof (rule good_prepend [OF assms(1)], rule ballI)
    fix h assume "h \<in> set (impl_hits m [] es)"
    from impl_hits_edges [OF this] obtain e where e: "e \<in> set es" "h_repo h = e_repo e" by blast
    then obtain repo where "repo \<in> set (scan_repos q)"
      "e \<in> set (get_edges (any_opts\<lparr> o_repo := repo, o_kind := ''implements_rpc'', o_limit := rpc_impl_scan_limit \<rparr>) d)" using es by blast
    from scanned_edge [OF assms(2) this] show "repo_allowed (q_repos q) (h_repo h)" by (simp add: e(2))
  qed
  then show ?thesis using assms(1) promote_rpc_shape [of p q hm] by metis
qed

lemma use_edges_allowed: "e \<in> set (use_edges d q kds words verbs) \<Longrightarrow> repo_allowed (q_repos q) (e_repo e)"
  by (auto simp: use_edges_def sort_edges_by_def use_edge_def Let_def)

lemma promote_uses_shape:
  "fst (promote_contract_uses p q intent hm) = fst hm \<or>
   (\<exists>d f m kds words verbs. fst (promote_contract_uses p q intent hm) =
      prepend_promoted (fst (use_hits f m ([], [], []) (use_edges d q kds words verbs))) (fst hm))"
  by (cases hm; cases "pr_store p") (simp_all add: promote_contract_uses_def Let_def case_prod_beta, blast)

lemma good_promote_uses:
  assumes "good_hits (q_repos q) (fst hm)"
  shows "good_hits (q_repos q) (fst (promote_contract_uses p q intent hm))"
proof -
  have "good_hits (q_repos q) (prepend_promoted (fst (use_hits f m ([], [], []) (use_edges d q kds words verbs))) (fst hm))" for d f m kds words verbs
  proof (rule good_prepend [OF assms], rule ballI)
    fix h assume "h \<in> set (fst (use_hits f m ([], [], []) (use_edges d q kds words verbs)))"
    from use_hits_edges [OF this] obtain e where "e \<in> set (use_edges d q kds words verbs)" "h_repo h = e_repo e" by auto
    then show "repo_allowed (q_repos q) (h_repo h)" using use_edges_allowed by simp
  qed
  then show ?thesis using assms promote_uses_shape [of p q intent hm] by metis
qed

section \<open>The whole request\<close>

lemma good_graph_answers:
  assumes "good_hits (q_repos q) (fst hm)" and "\<And>d. pr_store p = Some d \<Longrightarrow> handlers_local d" and "[] \<notin> set (q_repos q)"
  shows "good_hits (q_repos q) (fst (graph_answers p q intent callee hm))"
  using assms by (simp add: graph_answers_def Let_def good_promote_callers good_promote_contracts good_promote_rpc good_promote_uses)

lemma exec_repos [simp]: "q_repos (exec_query q intent callee) = q_repos q"
  by (simp add: exec_query_def)

lemma search_in_scope_good:
  assumes "search_in_scope s p q mode intent callee = Inr r"
    and "scoped_service s" and "\<And>d. pr_store p = Some d \<Longrightarrow> handlers_local d" and "[] \<notin> set (q_repos q)" and "0 < q_limit q"
  shows "good_hits (q_repos q) (r_hits r) \<and> r_total r = int (length (r_hits r)) \<and> r_total r \<le> q_limit q"
proof -
  obtain hits m where ret: "retrieve s mode (exec_query q intent callee) = Inr (hits, m)"
    using assms(1) by (auto simp: search_in_scope_def split: sum.splits)
  have "good_hits (q_repos q) hits" using good_retrieve [OF assms(2) ret] by simp
  then have ranked: "good_hits (q_repos q) (fst (rank_for s (q_text q) hits (Some mt) (q_limit q)))" for mt by (rule good_rank)
  define mt where "mt = (case m of None \<Rightarrow> Map.empty | Some m \<Rightarrow> m)"
  obtain hs1 m1 where r1: "rank_for s (q_text q) hits (Some mt) (q_limit q) = (hs1, m1)" by fastforce
  obtain hs2 m2 where r2: "graph_answers p q intent callee (hs1, the m1) = (hs2, m2)" by fastforce
  let ?out = "if q_limit q > 0 \<and> int (length hs2) > q_limit q then take (nat (q_limit q)) hs2 else hs2"
  have r: "r_hits r = ?out" "r_total r = int (length ?out)"
    using assms(1) by (auto simp: search_in_scope_def ret r1 r2 Let_def simp flip: mt_def)
  have "good_hits (q_repos q) hs2"
    using good_graph_answers [of q "(hs1, the m1)" p intent callee] ranked [of mt] assms(3, 4) r1 r2 by simp
  then show ?thesis using assms(5) by (simp add: r good_take)
qed

text \<open>What a request may see: the repositories it names, else the active ones, else everything when all are active.\<close>

definition in_scope :: "app \<Rightarrow> query \<Rightarrow> string \<Rightarrow> bool" where
  "in_scope a q repo \<longleftrightarrow>
     (if q_repos q \<noteq> [] then repo \<in> set (q_repos q)
      else (\<forall>p \<in> set (repos (a_repos a)). p_active p) \<or> (\<exists>p \<in> set (repos (a_repos a)). p_active p \<and> p_id p = repo))"

lemma scope_ids:
  assumes "retrieval_scope (q_repos q) (a_repos a) = (scope, False)" and "repo_allowed scope repo"
  shows "in_scope a q repo"
proof (cases "q_repos q = []")
  case False
  then have "scope = q_repos q" using assms(1) by (simp add: retrieval_scope_def)
  then show ?thesis using False assms(2) by (simp add: in_scope_def repo_allowed_def list_ex_iff)
next
  case True
  let ?all = "list_repos (a_repos a)"
  have all: "set ?all = set (repos (a_repos a))" by (simp add: list_repos_def)
  have q: "q_repos q = []" using True .
  show ?thesis
  proof (cases "length (filter p_active ?all) = length ?all")
    case True
    then have "\<forall>p \<in> set ?all. p_active p" by (metis filter_id_conv length_filter_less less_irrefl)
    then show ?thesis using q all by (simp add: in_scope_def)
  next
    case False
    then have "scope = map p_id (filter p_active ?all)" "length scope \<noteq> 0"
      using assms(1) q by (auto simp: retrieval_scope_def Let_def)
    then show ?thesis using assms(2) q all by (auto simp: in_scope_def repo_allowed_def list_ex_iff)
  qed
qed

lemma clamp_positive: "0 < clamp_limit n" "clamp_limit n \<le> 100"
  by (simp_all add: clamp_limit_def default_search_limit_def max_search_limit_def)


section \<open>A request over two repositories, one of them active\<close>

definition two_hits :: searcher where
  "two_hits q = Inr (Some \<lparr> r_hits = filter (\<lambda>h. repo_allowed (q_repos q) (h_repo h))
       [(site_hit ''a.go'' 1 1)\<lparr> h_repo := ''old'' \<rparr>, site_hit ''b.go'' 1 0], r_total = 2, r_query = q_text q, r_meta = None \<rparr>)"

definition catalog_repo :: "string \<Rightarrow> bool \<Rightarrow> repo" where
  "catalog_repo i active =
     \<lparr> p_id = i, p_name = i, p_source = ''local'', p_url = [], p_path = [], p_branch = [], p_status = Idle, p_last_error = [], p_created = 0,
       p_indexed = 0, p_last_commit = [], p_claimed_by = [], p_claim_expires = 0, p_pending_commit = [], p_active = active \<rparr>"

definition two_repo_app :: app where
  "two_repo_app = \<lparr> a_search = Some (new_service [BM25 \<mapsto> two_hits] None), a_promoter = new_promoter (Some ship_db) (Some ship_db) [],
     a_repos = \<lparr> jobs = [], next_id = 1, repos = [catalog_repo ''old'' False, catalog_repo ''r'' True] \<rparr>,
     a_store = Some ship_db, a_graph = ship_db, a_assistant = None \<rparr>"

definition plain_request :: query where
  "plain_request = \<lparr> q_text = ''ship'', q_repo = [], q_repos = [], q_limit = 0, q_filter = [], q_vector = [], q_intent = ''none'' \<rparr>"


end
