(* ===== verification/Promote_Gaps.thy ===== *)
theory Promote_Gaps
  imports Promote_Facts
begin

text \<open>Where the promotions fall short of what their comments say.\<close>

section \<open>Package-qualified keys\<close>

lemma key_rows:
  assumes "u \<in> set (units_by_key d q key)"
  shows "to_lower (u_qualified u) = to_lower key \<or> has_suffix (u_qualified u) key \<or> key = []"
proof -
  have sel: "unit_selected opts TierExact u" if "u \<in> set (get_ast_units opts d)" "\<not> o_fallback opts" for opts
    using that by (auto simp: get_ast_units_def select_units_def limited_def Let_def split: if_splits dest: in_set_takeD)
  from assms obtain rs where "u \<in> set (get_ast_units (any_opts\<lparr> o_qualified := key, o_limit := 5, o_repo := rs \<rparr>) d) \<or>
      u \<in> set (get_ast_units (any_opts\<lparr> o_qualified := [], o_qualified_suffix := key, o_limit := 5, o_repo := rs \<rparr>) d)"
    by (auto simp: units_by_key_def Let_def any_opts_def split: if_splits)
  then show ?thesis
    using sel [of "any_opts\<lparr> o_qualified := key, o_limit := 5, o_repo := rs \<rparr>"]
      sel [of "any_opts\<lparr> o_qualified := [], o_qualified_suffix := key, o_limit := 5, o_repo := rs \<rparr>"]
    by (auto simp: any_opts_def unit_selected_def terms_match_def term_matches_def)
qed

lemma no_suffix_past_prefix: "\<not> has_suffix (mk_grpc (pkg @ ''.'' @ svc) meth) (mk_grpc svc meth)"
proof
  assume "has_suffix (mk_grpc (pkg @ ''.'' @ svc) meth) (mk_grpc svc meth)"
  then obtain t where t: "mk_grpc (pkg @ ''.'' @ svc) meth = t @ mk_grpc svc meth" by (auto simp: has_suffix_iff)
  then have "''grpc:'' @ pkg @ ''.'' = t @ ''grpc:''" by (simp add: mk_grpc_def)
  then have "last (''grpc:'' @ pkg @ ''.'') = last (t @ ''grpc:'')" by (simp only:)
  then show False by (simp add: last_append)
qed

text \<open>
  The suffix lookup does not survive the package prefix it was written for: the key of a service and method
  never finds the declaration of that service inside a package, because the suffix searched for starts with
  the kind and the package stands after it.
\<close>

theorem package_prefix_hides_the_method:
  "mk_grpc (pkg @ ''.'' @ svc) meth \<notin> u_qualified ` set (units_by_key d q (mk_grpc svc meth))"
proof
  assume "mk_grpc (pkg @ ''.'' @ svc) meth \<in> u_qualified ` set (units_by_key d q (mk_grpc svc meth))"
  then obtain u where u: "u \<in> set (units_by_key d q (mk_grpc svc meth))" "u_qualified u = mk_grpc (pkg @ ''.'' @ svc) meth" by auto
  have "length (to_lower (u_qualified u)) \<noteq> length (to_lower (mk_grpc svc meth))"
    by (simp add: u(2) mk_grpc_def to_lower_def)
  then have "to_lower (u_qualified u) \<noteq> to_lower (mk_grpc svc meth)" by metis
  then show False using key_rows [OF u(1)] no_suffix_past_prefix by (simp add: u(2)) (simp add: mk_grpc_def)
qed

section \<open>Filters\<close>

text \<open>
  The implementations of an rpc are promoted whatever the filter of the request says: a request for Python
  code is answered first with a Go file.
\<close>

definition basket_db :: gdb where
  "basket_db = \<lparr> g_units = [plain_unit 1 ''method'' ''AddItem'' ''basket.go''],
     g_edges = [plain_edge 1 1 0 ''implements_rpc'' ''grpc:Basket/AddItem'' ''basket.go''], g_next_unit = 2, g_next_edge = 2 \<rparr>"

definition python_query :: query where
  "python_query = \<lparr> q_text = ''basket grpc'', q_repo = [], q_repos = [], q_limit = 5, q_filter = [(''language'', FString ''python'')],
     q_vector = [], q_intent = [] \<rparr>"

lemma basket_hits:
  "map (\<lambda>h. (h_lang h, h_file h)) (impl_hits (promoter_units basket_db [1]) [] (g_edges basket_db)) = [(''go'', ''basket.go'')]"
  by code_simp

lemma basket_scan:
  "match_string rpc_mention_re ''basket grpc''"
  "filter (\<lambda>w. w \<notin> set rpc_stop_words) (word_components ''basket grpc'') = [''basket'']"
  "filter (\<lambda>e. \<not> is_test_path (e_file e) \<and> rpc_key_described (e_dst_name e) [''basket''])
     (get_edges (any_opts\<lparr> o_repo := [], o_kind := ''implements_rpc'', o_limit := rpc_impl_scan_limit \<rparr>) basket_db) = g_edges basket_db"
  "scan_repos python_query = [[]]"
  "sort_contract_edges (g_edges basket_db) = g_edges basket_db"
  "map e_src (g_edges basket_db) = [1]" "length (g_edges basket_db) = 1"
  by code_simp+

lemma promoted_files: "map (\<lambda>h. (h_lang h, h_file h)) (prepend_promoted ps []) = map (\<lambda>h. (h_lang h, h_file h)) ps"
  by (simp add: prepend_promoted_eq) (rule nth_equalityI, simp_all add: scored_nth)

theorem rpc_promotion_ignores_the_filter:
  "map (\<lambda>h. (h_lang h, h_file h)) (fst (promote_rpc_implementations (new_promoter (Some basket_db) None []) python_query ([], Map.empty))) =
     [(''go'', ''basket.go'')] \<and> \<not> filters_match (parse_filters (q_filter python_query)) ''go'' ''method'' ''basket.go''"
proof
  have question: "q_text python_query = ''basket grpc''" by (simp add: python_query_def)
  show "map (\<lambda>h. (h_lang h, h_file h)) (fst (promote_rpc_implementations (new_promoter (Some basket_db) None []) python_query ([], Map.empty))) =
     [(''go'', ''basket.go'')]"
    unfolding promote_rpc_implementations_def Let_def question using basket_scan basket_hits
    by (simp add: new_promoter_def promoted_files max_promoted_contracts_def)
qed code_simp

text \<open>
  The pattern for \<open>the gRPC method AddItem\<close> folds case, so its leading capital asks for nothing: any word after
  \<open>grpc\<close> is taken for the name of a method.
\<close>

theorem grpc_word_is_taken_for_a_method:
  "map cr_key (contract_keys ''a grpc call'') = [''grpc:/call'']"
  by code_simp

end
