(* ===== verification/Ast_Strings.thy ===== *)
theory Ast_Strings
  imports Go_Regexp Graph_Contracts
begin

text \<open>
  String helpers of the source parsers (\<open>internal/index/ast/strings.go\<close> and the expression half of
  \<open>internal/index/ast/aliases.go\<close>): string literals, request targets and their templates, placeholders,
  casing, and the local aliases an edge carries. A Go function that returns \<open>(value, ok)\<close> returns an option.
\<close>

section \<open>Literals\<close>

definition trim_set :: "string \<Rightarrow> string \<Rightarrow> string" where
  "trim_set chars s = trim_both (\<lambda>c. c \<in> set chars) s"

definition quotes :: string where
  "quotes = [CHR 0x22, CHR 0x27, CHR 0x60]"

definition unquote :: "string \<Rightarrow> string option" where
  "unquote s =
     (let s = trim_prefix (trim_space s) ''@'' in
      if length s < 2 then None
      else if hd s \<noteq> last s \<or> hd s \<notin> set quotes then None
      else let body = take (length s - 2) (drop 1 s) in
           if hd s \<in> set body then None else Some body)"

definition is_ident_like :: "string \<Rightarrow> bool" where
  "is_ident_like s \<longleftrightarrow> list_all is_word_byte s \<and> s \<noteq> []"

definition trim_generic_args :: "string \<Rightarrow> string" where
  "trim_generic_args typ =
     (case index_where (\<lambda>c. c = CHR ''<'') typ of Some i \<Rightarrow> trim_space (take i typ) | None \<Rightarrow> trim_space typ)"

text \<open>The split of a list of type arguments at its top level; \<open>cur\<close> is the argument read so far, reversed.\<close>

fun split_args :: "int \<Rightarrow> string \<Rightarrow> string \<Rightarrow> string list" where
  "split_args depth cur [] = (let s = trim_space (rev cur) in if s \<noteq> [] then [s] else [])"
| "split_args depth cur (c # cs) =
     (if c \<in> set ''<[('' then split_args (depth + 1) (c # cur) cs
      else if c \<in> set ''>])'' then split_args (depth - 1) (c # cur) cs
      else if c = CHR '','' \<and> depth = 0 then trim_space (rev cur) # split_args depth [] cs
      else split_args depth (c # cur) cs)"

definition generic_args :: "string \<Rightarrow> string list" where
  "generic_args typ =
     (case (index_where (\<lambda>c. c = CHR ''<'') typ, last_index (CHR ''>'') typ) of
        (Some lo, Some hi) \<Rightarrow> if hi \<le> lo then [] else split_args 0 [] (take (hi - lo - 1) (drop (lo + 1) typ))
      | _ \<Rightarrow> [])"

definition has_suffix_fold :: "string \<Rightarrow> string \<Rightarrow> bool" where
  "has_suffix_fold s suf \<longleftrightarrow> length suf \<le> length s \<and> equal_fold (drop (length s - length suf) s) suf"

definition has_any_suffix_fold :: "string \<Rightarrow> string list \<Rightarrow> bool" where
  "has_any_suffix_fold s sufs = list_ex (\<lambda>suf. length s > length suf \<and> has_suffix_fold s suf) sufs"

fun capitalize_first :: "string \<Rightarrow> string" where
  "capitalize_first [] = []"
| "capitalize_first (c # cs) = (if is_lower c then upper_byte c # cs else c # cs)"

section \<open>Request targets\<close>

fun url_schemes :: "string list \<Rightarrow> string \<Rightarrow> (string \<times> string) option" where
  "url_schemes [] u = None"
| "url_schemes (sch # schs) u =
     (case cut_prefix u sch of
        Some rest \<Rightarrow>
          Some (case index_where (\<lambda>c. c = CHR ''/'') rest of
                  Some i \<Rightarrow> (take i rest, drop i rest)
                | None \<Rightarrow> (rest, ''/''))
      | None \<Rightarrow> url_schemes schs u)"

definition split_url :: "string \<Rightarrow> string \<times> string" where
  "split_url u =
     (case url_schemes [''http://'', ''https://'', ''grpc://''] u of
        Some hp \<Rightarrow> hp
      | None \<Rightarrow> ([], if has_prefix u ''/'' then u else ''/'' @ u))"

definition join_path :: "string \<Rightarrow> string \<Rightarrow> string" where
  "join_path base sub =
     (let base = trim_set ''/'' base; sub = trim_set ''/'' sub in
      if base = [] \<and> sub = [] then ''/''
      else if base = [] then ''/'' @ sub
      else if sub = [] then ''/'' @ base
      else ''/'' @ base @ ''/'' @ sub)"

section \<open>Interpolation\<close>

definition printf_verb :: re where
  "printf_verb = seqs [lit ''%'', star (one_of ''-+# 0''), star (Class False False ((42, 42) # digit_class)),
     opt (Concat (lit ''.'') (plus (Class False False ((42, 42) # digit_class)))), Class False False ascii_letters]"

definition brace_interp :: re where
  "brace_interp = seqs [lit ''${'', star (none_of ''}''), lit ''}'']"

text \<open>\<open>Regexp.ReplaceAllStringFunc\<close> for an expression that does not match the empty text.\<close>

fun splice :: "runes \<Rightarrow> (string \<Rightarrow> string) \<Rightarrow> nat \<Rightarrow> (nat \<times> nat \<times> captures) list \<Rightarrow> string" where
  "splice t f i [] = slice t i (length t)"
| "splice t f i ((a, b, caps) # ms) = slice t i a @ f (slice t a b) @ splice t f b ms"

definition replace_matches :: "re \<Rightarrow> (string \<Rightarrow> string) \<Rightarrow> string \<Rightarrow> string" where
  "replace_matches r f s = (let t = decode_runes s in splice t f 0 (all_matches r t 0 None))"

definition placeholderize :: "string \<Rightarrow> string" where
  "placeholderize literal =
     replace_text ''%%'' ''%'' (replace_matches printf_verb (\<lambda>_. ''{}'') (replace_matches brace_interp (\<lambda>_. ''{}'') literal))"

definition has_literal_segment :: "string \<Rightarrow> bool" where
  "has_literal_segment t =
     list_ex (\<lambda>seg. seg \<noteq> [] \<and> \<not> contains_any seg ''{}'') (split_on (CHR ''/'') (trim_set ''/'' (snd (split_url t))))"

text \<open>
  The scan of an expression: the template built from its literals, and whether a runtime value was seen since
  the last of them. An unterminated literal ends the scan with no template.
\<close>

function scan_template :: "string \<Rightarrow> string \<Rightarrow> bool \<Rightarrow> (string \<times> bool) option" where
  "scan_template b [] gap = Some (b, gap)"
| "scan_template b (c # cs) gap =
     (if c \<in> set quotes then
        (case index_where (\<lambda>d. d = c) cs of
           None \<Rightarrow> None
         | Some j \<Rightarrow>
             scan_template (b @ (if gap \<and> length b > 0 then ''{}'' else []) @ placeholderize (take j cs)) (drop (Suc j) cs) False)
      else if is_word_byte c then scan_template b (dropWhile is_word_byte cs) True
      else scan_template b cs gap)"
  by pat_completeness auto
termination
  by (relation "measure (\<lambda>(b, s, gap). length s)") (auto simp: less_Suc_eq_le length_dropWhile_le)

text \<open>A template that does not open on a slash is rooted, or loses the run before its first slash.\<close>

definition root_template :: "bool \<Rightarrow> string \<Rightarrow> string" where
  "root_template relative t =
     (if contains t ''://'' \<or> has_prefix t ''/'' then t
      else let sep = index_where (\<lambda>c. c = CHR ''/'') t in
        if relative \<and> sep \<noteq> None \<and> \<not> contains_any (take (the sep) t) ''{}'' then ''/'' @ t
        else case sep of Some i \<Rightarrow> if i > 0 then drop i t else t | None \<Rightarrow> t)"

definition blanks :: string where
  "blanks = [CHR '' '', CHR 0x09, CHR 0x0A]"

definition interpolated_template :: "string \<Rightarrow> bool \<Rightarrow> string option" where
  "interpolated_template expr relative =
     (case scan_template [] expr False of
        None \<Rightarrow> None
      | Some (t, gap) \<Rightarrow>
          let t = (if gap \<and> has_suffix t ''/'' then t @ ''{}'' else t);
              t = (case index_where (\<lambda>c. c \<in> set ''?#'') t of Some i \<Rightarrow> take i t | None \<Rightarrow> t);
              t = root_template relative t
          in if contains_any t blanks then None
             else if \<not> has_prefix t ''/'' \<and> \<not> contains t ''://'' then None
             else if \<not> has_literal_segment t then None
             else Some t)"

definition interpolated_path :: "string \<Rightarrow> string option" where
  "interpolated_path expr = interpolated_template expr False"

section \<open>Placeholders\<close>

text \<open>The key and the default of a placeholder, and whether it has one.\<close>

definition split_placeholder_default :: "string \<Rightarrow> string \<times> string \<times> bool" where
  "split_placeholder_default s =
     (let s = trim_space s in
      if \<not> has_prefix s ''${'' \<or> \<not> has_suffix s ''}'' then ([], [], False)
      else let body = take (length s - 3) (drop 2 s) in
        case index_where (\<lambda>c. c = CHR '':'') body of
          None \<Rightarrow> (body, [], False)
        | Some i \<Rightarrow> (take i body, trim_prefix (drop (i + 1) body) ''-'', True))"

definition apply_placeholder_defaults :: "string \<Rightarrow> string" where
  "apply_placeholder_defaults v =
     replace_matches brace_interp
       (\<lambda>m. case split_placeholder_default m of (_, def, ok) \<Rightarrow> if ok then def else m) v"

section \<open>Casing\<close>

definition is_lower_or_digit :: "char \<Rightarrow> bool" where
  "is_lower_or_digit b \<longleftrightarrow> is_lower b \<or> is_digit b"

fun snake_run :: "char option \<Rightarrow> string \<Rightarrow> string" where
  "snake_run prev [] = []"
| "snake_run prev (c # cs) =
     (if is_upper c then
        (if prev \<noteq> None \<and> (is_lower_or_digit (the prev) \<or> (cs \<noteq> [] \<and> is_lower (hd cs))) then ''_'' else []) @ [lower_byte c]
      else [c]) @ snake_run (Some c) cs"

definition snake_case :: "string \<Rightarrow> string" where
  "snake_case s = trim_set ''_'' (snake_run None s)"

section \<open>Constants\<close>

text \<open>
  Go maps from names to texts are association lists whose order is the order Go happens to iterate in; a
  look-up takes the one entry of a key.
\<close>

type_synonym texts = "(string \<times> string) list"

type_synonym resolver = "string \<Rightarrow> string option"

definition const_resolve :: "texts \<Rightarrow> resolver" where
  "const_resolve consts expr = (case unquote expr of Some v \<Rightarrow> Some v | None \<Rightarrow> map_of consts (trim_space expr))"

definition literal_only :: resolver where
  "literal_only expr = unquote expr"

section \<open>Aliases\<close>

definition max_file_aliases :: nat where "max_file_aliases = 64"
definition max_edge_aliases :: nat where "max_edge_aliases = 8"

definition alias_literals :: "string list" where
  "alias_literals = [''true'', ''false'', ''nil'', ''null'', ''None'', ''True'', ''False'', ''undefined'', ''this'']"

record alias_entry =
  al_name :: string
  al_expr :: string
  al_start :: int
  al_end :: int

text \<open>Recording an alias in the scope \<open>[start, end)\<close> of the declaration that encloses it.\<close>

definition alias_record :: "alias_entry list \<Rightarrow> int \<times> int \<Rightarrow> string \<Rightarrow> string \<Rightarrow> alias_entry list" where
  "alias_record entries scope nm expr =
     (let nm = trim_space nm; expr = trim_space expr in
      if nm = [] \<or> expr = [] \<or> nm = expr \<or> expr \<in> set alias_literals then entries
      else if length entries \<ge> max_file_aliases then entries
      else entries @ [\<lparr> al_name = nm, al_expr = expr, al_start = fst scope, al_end = snd scope \<rparr>])"

definition see_alias :: "int \<Rightarrow> (string \<rightharpoonup> string \<times> int) \<Rightarrow> alias_entry \<Rightarrow> (string \<rightharpoonup> string \<times> int)" where
  "see_alias pos vis e =
     (if pos < al_start e \<or> pos \<ge> al_end e then vis
      else let w = al_end e - al_start e in
        case vis (al_name e) of
          Some (_, prev) \<Rightarrow> if prev < w then vis else vis(al_name e \<mapsto> (al_expr e, w))
        | None \<Rightarrow> vis(al_name e \<mapsto> (al_expr e, w)))"

definition aliases_at :: "alias_entry list \<Rightarrow> int \<Rightarrow> (string \<rightharpoonup> string)" where
  "aliases_at entries pos = (\<lambda>n. map_option fst (foldl (see_alias pos) Map.empty entries n))"

definition is_alias_expr :: "string \<Rightarrow> bool" where
  "is_alias_expr s =
     (let s = trim_space s in
      s \<noteq> [] \<and> \<not> is_digit (hd s) \<and> hd s \<noteq> CHR ''.'' \<and> list_all (\<lambda>c. is_word_byte c \<or> c = CHR ''.'') s)"

text \<open>
  One pass over the identifiers of an expression: the aliases found so far and the names found for the first
  time, in the order found.
\<close>

fun scan_aliases :: "(string \<rightharpoonup> string) \<Rightarrow> string list \<Rightarrow> texts \<times> string list \<Rightarrow> texts \<times> string list" where
  "scan_aliases aliases [] st = st"
| "scan_aliases aliases (tok # toks) (found, direct) =
     (if length found \<ge> max_edge_aliases then (found, direct)
      else case aliases tok of
        Some v \<Rightarrow>
          if tok \<in> fst ` set found then scan_aliases aliases toks (found, direct)
          else scan_aliases aliases toks (found @ [(tok, v)], direct @ [tok])
      | None \<Rightarrow> scan_aliases aliases toks (found, direct))"

definition scan_expr :: "(string \<rightharpoonup> string) \<Rightarrow> texts \<times> string list \<Rightarrow> string \<Rightarrow> texts \<times> string list" where
  "scan_expr aliases st expr = scan_aliases aliases (ident_tokens expr) st"

definition relevant_aliases :: "(string \<rightharpoonup> string) \<Rightarrow> string list \<Rightarrow> texts \<Rightarrow> texts" where
  "relevant_aliases aliases args flds =
     (let (found, direct) = foldl (scan_expr aliases) ([], []) (args @ map snd (sort_key fst flds))
      in fst (foldl (\<lambda>st nm. scan_expr aliases st (the (map_of (fst st) nm))) (found, []) (sort direct)))"

definition aliases_relevant :: "alias_entry list \<Rightarrow> int \<Rightarrow> string list \<Rightarrow> texts \<Rightarrow> texts" where
  "aliases_relevant entries pos args flds = relevant_aliases (aliases_at entries pos) args flds"

end
