(* ===== verification/Ast_File.thy ===== *)
theory Ast_File
  imports Ast_Strings Store_Files Go_Path "HOL-Library.AList"
begin

text \<open>
  What one source file yields (\<open>internal/index/ast/filectx.go\<close>): its units, the edges between a unit and a
  named destination, the counters of its call sites, the outbound requests and the table accesses that wait
  for the rest of the package. A syntax node is its row and byte range. A file is scanned for the mark of a
  library when the mark is asked for; the code scans once and remembers, which a source that does not change
  does not show. Positions, rows and counters are integers without a bound.
\<close>

section \<open>Marks\<close>

definition src_mark_prefix :: string where "src_mark_prefix = ''#''"

definition src_mark :: "int \<Rightarrow> string" where
  "src_mark i = src_mark_prefix @ itoa i"

text \<open>
  \<open>Sscanf\<close> with \<open>%d\<close>: blanks, a sign, at least one digit, and anything after them; a number that does not fit
  into 64 bits is an error.
\<close>

definition scan_int :: "string \<Rightarrow> int option" where
  "scan_int s =
     (let s = dropWhile (\<lambda>c. is_space c \<and> c \<noteq> CHR 0x0A \<and> c \<noteq> CHR 0x0D) s;
          neg = (s \<noteq> [] \<and> hd s = CHR ''-'');
          s = (if s \<noteq> [] \<and> hd s \<in> {CHR ''-'', CHR ''+''} then tl s else s);
          ds = takeWhile is_digit s;
          v = int (dec_value ds)
      in if ds = [] then None
         else if neg then (if v \<le> 2 ^ 63 then Some (- v) else None)
         else if v < 2 ^ 63 then Some v else None)"

definition resolve_mark :: "string \<Rightarrow> int" where
  "resolve_mark s =
     (case cut_prefix s src_mark_prefix of
        None \<Rightarrow> - 1
      | Some rest \<Rightarrow> (case scan_int rest of None \<Rightarrow> - 1 | Some i \<Rightarrow> i))"

section \<open>The data of a file\<close>

record span =
  n_start_row :: int
  n_end_row :: int
  n_start_byte :: int
  n_end_byte :: int

record parsed_unit =
  pu_kind :: string
  pu_name :: string
  pu_qualified :: string
  pu_signature :: string
  pu_doc :: string
  pu_start_line :: int
  pu_end_line :: int
  pu_start_byte :: int
  pu_end_byte :: int
  pu_hash :: string
  pu_detected_by :: string

record site_meta =
  sm_args :: "string list"
  sm_fields :: texts
  sm_aliases :: texts
  sm_topic :: string
  sm_path :: string
  sm_method :: string
  sm_host :: string
  sm_source :: string
  sm_base_conf :: rat

definition no_meta :: site_meta where
  "no_meta = \<lparr> sm_args = [], sm_fields = [], sm_aliases = [], sm_topic = [], sm_path = [], sm_method = [], sm_host = [],
     sm_source = [], sm_base_conf = 0 \<rparr>"

record parsed_edge =
  pe_src :: string
  pe_kind :: string
  pe_name :: string
  pe_line :: int
  pe_conf :: rat
  pe_meta :: "site_meta option"

record http_site =
  hs_unit :: int
  hs_method :: string
  hs_path :: string
  hs_host :: string
  hs_url_expr :: string
  hs_method_expr :: string

record pending_table =
  pt_src :: string
  pt_ident :: string
  pt_kind :: string
  pt_line :: int
  pt_args :: "string list"

type_synonym counters = "(string \<times> coverage_counts) list"

record file_ctx =
  fc_path :: string
  fc_lang :: string
  fc_src :: string
  fc_units :: "parsed_unit list"
  fc_edges :: "parsed_edge list"
  fc_cov :: "counters option"
  fc_https :: "http_site list"
  fc_tables :: "pending_table list"
  fc_consts :: texts

definition new_file :: "string \<Rightarrow> string \<Rightarrow> string \<Rightarrow> counters option \<Rightarrow> file_ctx" where
  "new_file path lang src cov =
     \<lparr> fc_path = path, fc_lang = lang, fc_src = src, fc_units = [], fc_edges = [], fc_cov = cov, fc_https = [], fc_tables = [], fc_consts = [] \<rparr>"

section \<open>Counters\<close>

definition coverage_kinds :: "string list" where
  "coverage_kinds = [''http'', ''rpc'', ''messaging'', ''db'']"

definition zero_counts :: coverage_counts where
  "zero_counts = \<lparr> cc_candidates = 0, cc_edges = 0 \<rparr>"

definition new_coverage :: counters where
  "new_coverage = map (\<lambda>k. (k, zero_counts)) coverage_kinds"

definition count_of :: "counters \<Rightarrow> string \<Rightarrow> coverage_counts" where
  "count_of cov k = (case map_of cov k of Some c \<Rightarrow> c | None \<Rightarrow> zero_counts)"

definition bump :: "string \<Rightarrow> int \<Rightarrow> int \<Rightarrow> counters option \<Rightarrow> counters option" where
  "bump k candidates edges cov =
     (let cov = (case cov of None \<Rightarrow> new_coverage | Some m \<Rightarrow> m);
          c = count_of cov k
      in Some (AList.update k \<lparr> cc_candidates = cc_candidates c + candidates, cc_edges = cc_edges c + edges \<rparr> cov))"

definition contract_site :: "string \<Rightarrow> bool \<Rightarrow> file_ctx \<Rightarrow> file_ctx" where
  "contract_site k emitted fc = fc\<lparr> fc_cov := bump k 1 (if emitted then 1 else 0) (fc_cov fc) \<rparr>"

section \<open>What waits for later passes\<close>

definition http_candidate :: "int \<Rightarrow> string \<Rightarrow> string \<Rightarrow> file_ctx \<Rightarrow> file_ctx" where
  "http_candidate u url_expr method_expr fc =
     (if u < 0 then fc
      else fc\<lparr> fc_https := fc_https fc @ [\<lparr> hs_unit = u, hs_method = [], hs_path = [], hs_host = [], hs_url_expr = url_expr, hs_method_expr = method_expr \<rparr>] \<rparr>)"

definition max_pending_tables :: nat where "max_pending_tables = 512"
definition max_package_consts :: nat where "max_package_consts = 256"

definition table_candidate :: "int \<Rightarrow> string \<Rightarrow> string \<Rightarrow> int \<Rightarrow> string list \<Rightarrow> file_ctx \<Rightarrow> file_ctx" where
  "table_candidate u ident kd line args fc =
     (if u < 0 \<or> length (fc_tables fc) \<ge> max_pending_tables then fc
      else fc\<lparr> fc_tables := fc_tables fc @ [\<lparr> pt_src = src_mark u, pt_ident = ident, pt_kind = kd, pt_line = line, pt_args = args \<rparr>] \<rparr>)"

definition is_letter :: "char \<Rightarrow> bool" where
  "is_letter c \<longleftrightarrow> is_lower c \<or> is_upper c"

definition is_table_name_like :: "string \<Rightarrow> bool" where
  "is_table_name_like v \<longleftrightarrow>
     2 \<le> length v \<and> length v \<le> 64 \<and> list_all (\<lambda>c. is_letter c \<or> is_digit c \<or> c \<in> set ''_-.'') v \<and>
     length (filter is_letter v) \<ge> 2"

definition publish_const :: "string \<Rightarrow> string \<Rightarrow> file_ctx \<Rightarrow> file_ctx" where
  "publish_const nm value fc =
     (if \<not> is_table_name_like value \<or> length (fc_consts fc) \<ge> max_package_consts then fc
      else fc\<lparr> fc_consts := AList.update nm value (fc_consts fc) \<rparr>)"

section \<open>Units and edges\<close>

definition add_unit :: "span \<Rightarrow> string \<Rightarrow> string \<Rightarrow> string \<Rightarrow> string \<Rightarrow> string \<Rightarrow> file_ctx \<Rightarrow> file_ctx \<times> int" where
  "add_unit n kd nm qualified signature doc fc =
     (fc\<lparr> fc_units := fc_units fc @ [\<lparr> pu_kind = kd, pu_name = nm, pu_qualified = qualified, pu_signature = signature, pu_doc = doc,
        pu_start_line = n_start_row n + 1, pu_end_line = n_end_row n + 1, pu_start_byte = n_start_byte n, pu_end_byte = n_end_byte n,
        pu_hash = [], pu_detected_by = [] \<rparr>] \<rparr>,
      int (length (fc_units fc)))"

definition edge_needs_base_conf :: "string \<Rightarrow> bool" where
  "edge_needs_base_conf kd \<longleftrightarrow>
     kd \<in> {''call'', ''handled_by'', ''rpc_call'', ''implements_rpc'', ''http_call'', ''writes_to'', ''reads_from''}"

definition with_base_conf :: "string \<Rightarrow> rat \<Rightarrow> site_meta option \<Rightarrow> site_meta option" where
  "with_base_conf kd conf meta =
     (if edge_needs_base_conf kd then Some ((case meta of None \<Rightarrow> no_meta | Some m \<Rightarrow> m)\<lparr> sm_base_conf := conf \<rparr>) else meta)"

definition add_edge :: "int \<Rightarrow> string \<Rightarrow> string \<Rightarrow> int \<Rightarrow> rat \<Rightarrow> site_meta option \<Rightarrow> file_ctx \<Rightarrow> file_ctx" where
  "add_edge u kd dst line conf meta fc =
     (if u < 0 then fc
      else fc\<lparr> fc_https := fc_https fc @
                 (case meta of
                    Some m \<Rightarrow> if kd = ''http_call'' then [\<lparr> hs_unit = u, hs_method = sm_method m, hs_path = sm_path m, hs_host = sm_host m,
                      hs_url_expr = [], hs_method_expr = [] \<rparr>] else []
                  | None \<Rightarrow> []),
               fc_edges := fc_edges fc @ [\<lparr> pe_src = src_mark u, pe_kind = kd, pe_name = dst, pe_line = line, pe_conf = conf,
                 pe_meta = with_base_conf kd conf meta \<rparr>] \<rparr>)"

definition route_key :: "string \<Rightarrow> string \<Rightarrow> string" where
  "route_key meth path = mk_http meth path"

definition topic_key :: "string \<Rightarrow> string" where
  "topic_key nm = mk_topic nm"

definition add_route :: "span \<Rightarrow> string \<Rightarrow> string \<Rightarrow> string \<Rightarrow> int \<Rightarrow> rat \<Rightarrow> string \<Rightarrow> file_ctx \<Rightarrow> file_ctx \<times> int" where
  "add_route n meth path handler line conf detected_by fc =
     (let (fc, idx) = add_unit n ''http_route'' (meth @ '' '' @ path) (route_key meth path) (''path:'' @ path) [] fc;
          fc = (if detected_by \<noteq> []
                then fc\<lparr> fc_units := (fc_units fc)[nat idx := (fc_units fc ! nat idx)\<lparr> pu_detected_by := detected_by \<rparr>] \<rparr> else fc);
          fc = (if handler \<noteq> [] then add_edge idx ''handled_by'' (last_component handler) line conf None fc else fc)
      in (fc, idx))"

definition has_route :: "string \<Rightarrow> string \<Rightarrow> file_ctx \<Rightarrow> bool" where
  "has_route meth path fc = list_ex (\<lambda>u. pu_kind u = ''http_route'' \<and> pu_qualified u = route_key meth path) (fc_units fc)"

definition callable_kinds :: "string list" where
  "callable_kinds = [''function'', ''method'', ''http_route'']"

text \<open>The index of the smallest unit around a position, the first of those of equal size.\<close>

definition narrower :: "int \<Rightarrow> string list \<Rightarrow> int \<times> int \<Rightarrow> nat \<times> parsed_unit \<Rightarrow> int \<times> int" where
  "narrower pos kinds best iu =
     (case iu of (i, u) \<Rightarrow>
        if pu_start_byte u \<le> pos \<and> pos < pu_end_byte u \<and> (kinds = [] \<or> pu_kind u \<in> set kinds) \<and> pu_end_byte u - pu_start_byte u < snd best
        then (int i, pu_end_byte u - pu_start_byte u) else best)"

definition enclosing_unit :: "int \<Rightarrow> string list \<Rightarrow> file_ctx \<Rightarrow> int" where
  "enclosing_unit pos kinds fc = fst (foldl (narrower pos kinds) (- 1, 2 ^ 62) (enumerate 0 (fc_units fc)))"

section \<open>Marks of libraries\<close>

definition names_any :: "string list \<Rightarrow> string \<Rightarrow> bool" where
  "names_any markers src = list_ex (\<lambda>m. contains (to_lower src) m) markers"

definition grpc_source_markers :: "string list" where
  "grpc_source_markers =
     [''io.grpc'', ''google.golang.org/grpc'', ''@grpc/'', ''grpc-js'', ''grpc-web'', ''grpc.core'', ''grpc.net.client'', ''grpc.aspnetcore'',
      ''servercallcontext'', ''grpc.health.v1'', ''import grpc'', ''from grpc'', ''_pb2_grpc'', ''_grpc_pb'', ''grpc_pb'', ''_grpc.pb.go'',
      ''grpc.newblockingstub'', ''grpc.newstub'', ''grpc.newfuturestub'']"

definition has_grpc_import :: "string \<Rightarrow> bool" where
  "has_grpc_import src = names_any grpc_source_markers src"

definition has_grpc :: "file_ctx \<Rightarrow> bool" where
  "has_grpc fc = has_grpc_import (fc_src fc)"

definition memdb_marker :: string where "memdb_marker = ''go-memdb''"
definition alchemy_marker :: string where "alchemy_marker = ''sqlalchemy''"

definition has_memdb :: "file_ctx \<Rightarrow> bool" where
  "has_memdb fc = contains (fc_src fc) memdb_marker"

definition has_sqlalchemy :: "file_ctx \<Rightarrow> bool" where
  "has_sqlalchemy fc = contains (fc_src fc) alchemy_marker"

definition broker_vendor_markers :: "string list" where
  "broker_vendor_markers =
     [''kafka'', ''rabbit'', ''amqp'', ''sqs'', ''sns'', ''nats'', ''jetstream'', ''pubsub'', ''pub_sub'', ''servicebus'', ''service_bus'', ''eventhub'',
      ''event_hub'', ''eventbridge'', ''kinesis'', ''pulsar'', ''mqtt'', ''stomp'', ''jmstemplate'', ''streambridge'', ''redis'']"

definition broker_role_markers :: "string list" where
  "broker_role_markers =
     [''eventbus'', ''messagebus'', ''messagebroker'', ''broker'', ''publisher'', ''subscriber'', ''producer'', ''consumer'']"

definition broker_markers :: "string list" where
  "broker_markers = broker_vendor_markers @ broker_role_markers"

definition broker_source_markers :: "string list" where
  "broker_source_markers = broker_vendor_markers @
     [''sarama'', ''pika'', ''kombu'', ''amqplib'', ''amqp091'', ''streadway'', ''aio_pika'', ''easynetq'', ''masstransit'', ''nservicebus'', ''rebus'',
      ''javax.jms'', ''jakarta.jms'', ''activemq'', ''rocketmq'', ''org.springframework.jms'', ''ibmmq'', ''ibm.mq'', ''pymqi'', ''azure.messaging'',
      ''cloud.pubsub'', ''eventstore'', ''solace'', ''paho'', ''celery'', ''bullmq'', ''ioredis'', ''zeromq'', ''pyzmq'']"

definition has_broker_import :: "string \<Rightarrow> bool" where
  "has_broker_import src = names_any broker_source_markers src"

definition has_broker :: "file_ctx \<Rightarrow> bool" where
  "has_broker fc = has_broker_import (fc_src fc)"

end
