(* ===== verification/Ast_Detect.thy ===== *)
theory Ast_Detect
  imports Ast_File
begin

text \<open>
  The detection engine of the source parsers (\<open>internal/index/ast/frameworks.go\<close>): rules that recognise an
  outbound HTTP request, a publish or a subscription at a call site, the fallback that goes by the shape of
  the call, and the run of a language's rules over a call. An \<open>apply\<close> returns the file it has written to with
  the flags of the code: \<open>claimed\<close>, \<open>emitted\<close> and, for a subscription, \<open>handled\<close>.
\<close>

section \<open>Call sites and receivers\<close>

record call_site =
  cs_name :: string
  cs_object :: string
  cs_recv_type :: string
  cs_args :: "string list"
  cs_kwargs :: texts
  cs_fields :: texts
  cs_aliases :: texts
  cs_line :: int
  cs_src :: int

type_synonym list_resolver = "string \<Rightarrow> string list"

record object_match =
  om_exact :: "string list"
  om_suffix :: "string list"
  om_contains :: "string list"
  om_fold :: bool

definition any_object :: object_match where
  "any_object = \<lparr> om_exact = [], om_suffix = [], om_contains = [], om_fold = False \<rparr>"

definition match_empty :: "object_match \<Rightarrow> bool" where
  "match_empty m \<longleftrightarrow> length (om_exact m) = 0 \<and> length (om_suffix m) = 0 \<and> length (om_contains m) = 0"

definition object_matches :: "object_match \<Rightarrow> string \<Rightarrow> bool" where
  "object_matches m object \<longleftrightarrow>
     (if match_empty m then True
      else let object = (if om_fold m then to_lower object else object) in
        list_ex (\<lambda>e. object = e) (om_exact m) \<or> list_ex (has_suffix object) (om_suffix m) \<or> list_ex (contains object) (om_contains m))"

definition match_receiver :: "object_match \<Rightarrow> object_match \<Rightarrow> call_site \<Rightarrow> bool" where
  "match_receiver obj recv cs \<longleftrightarrow>
     (if match_empty obj \<and> match_empty recv then True
      else if \<not> match_empty obj \<and> object_matches obj (cs_object cs) then True
      else \<not> match_empty recv \<and> cs_recv_type cs \<noteq> [] \<and> object_matches recv (last_component (trim_space (cs_recv_type cs))))"

definition field_fold :: "texts \<Rightarrow> string \<Rightarrow> string option" where
  "field_fold flds nm =
     (case map_of flds nm of
        Some v \<Rightarrow> Some v
      | None \<Rightarrow> map_option snd (find (\<lambda>kv. equal_fold (fst kv) nm) flds))"

section \<open>Request targets\<close>

definition is_url_shaped :: "string \<Rightarrow> bool" where
  "is_url_shaped s \<longleftrightarrow>
     (let s = trim_space s in \<not> contains_any s blanks \<and> (has_prefix s ''/'' \<or> contains s ''://''))"

definition starts_with_letter :: "string \<Rightarrow> bool" where
  "starts_with_letter s \<longleftrightarrow> s \<noteq> [] \<and> is_letter (hd s)"

definition is_route_segment :: "string \<Rightarrow> bool" where
  "is_route_segment seg \<longleftrightarrow>
     seg \<noteq> [] \<and> seg \<noteq> ''.'' \<and> seg \<noteq> ''..'' \<and> list_all (\<lambda>c. is_word_byte c \<or> c \<in> set ''-.~%{}+'') seg"

definition is_relative_route :: "string \<Rightarrow> bool" where
  "is_relative_route s \<longleftrightarrow>
     (let s = trim_space s in
      if \<not> starts_with_letter s then False
      else if contains s ''://'' \<or> contains_any s (blanks @ [CHR 0x22, CHR 0x27, CHR 0x5C]) then False
      else let segs = split_on (CHR ''/'') (trim_suffix (trim_query s) ''/'') in
        if length segs < 2 then False else list_all is_route_segment segs)"

definition resolve_request_url :: "string \<Rightarrow> resolver \<Rightarrow> rat \<Rightarrow> bool \<Rightarrow> (string \<times> rat) option" where
  "resolve_request_url expr res conf relative =
     (let template = map_option (\<lambda>v. (v, conf_heuristic)) (interpolated_template expr relative) in
      case res expr of
        None \<Rightarrow> template
      | Some v \<Rightarrow>
          let conf = (if contains v ''{}'' then conf_heuristic else conf) in
          if is_url_shaped v then Some (v, conf)
          else if relative \<and> is_relative_route v then Some (''/'' @ trim_space v, conf)
          else if \<not> contains v ''${'' \<and> \<not> match_string printf_verb v then None
          else template)"

definition resolve_url :: "string \<Rightarrow> resolver \<Rightarrow> rat \<Rightarrow> (string \<times> rat) option" where
  "resolve_url expr res conf = resolve_request_url expr res conf False"

definition is_context_expr :: "string \<Rightarrow> bool" where
  "is_context_expr expr \<longleftrightarrow>
     (let e = trim_space expr in
      if e = ''ctx'' then True
      else case cut_prefix e ''context.'' of
        Some rest \<Rightarrow> has_suffix rest ''()'' \<and> \<not> contains_any rest [CHR '' '', CHR 0x09, CHR ''.'']
      | None \<Rightarrow> has_suffix e ''.Context()'')"

definition http_method_from_arg :: "string \<Rightarrow> resolver \<Rightarrow> string" where
  "http_method_from_arg expr res =
     (case res expr of
        Some v \<Rightarrow> to_upper (trim_space v)
      | None \<Rightarrow> to_upper (trim_prefix (last_component (trim_space expr)) ''Method''))"

definition http_method_names :: "string list" where
  "http_method_names = [''GET'', ''POST'', ''PUT'', ''DELETE'', ''PATCH'', ''HEAD'', ''OPTIONS'', ''TRACE'', ''CONNECT'']"

section \<open>Outbound requests\<close>

record http_client_rule =
  hr_object :: object_match
  hr_methods :: texts
  hr_url_arg :: nat
  hr_recv_type :: object_match
  hr_method_arg :: nat
  hr_method_field :: string
  hr_loose :: bool
  hr_url_from_fields :: bool
  hr_relative_url :: bool
  hr_conf :: rat

definition http_url_fields :: "string list" where
  "http_url_fields = [''url'', ''uri'', ''endpoint'', ''baseurl'', ''base_url'']"

text \<open>The target read out of the options object, and the expression it was, or would have been, read from.\<close>

fun url_in_fields :: "http_client_rule \<Rightarrow> texts \<Rightarrow> resolver \<Rightarrow> string \<Rightarrow> string list \<Rightarrow> (string \<times> rat) option \<times> string" where
  "url_in_fields r flds res expr [] = (None, expr)"
| "url_in_fields r flds res expr (nm # nms) =
     (case field_fold flds nm of
        None \<Rightarrow> url_in_fields r flds res expr nms
      | Some e \<Rightarrow>
          let expr = (if expr = [] then e else expr) in
          case resolve_url e res (hr_conf r) of
            None \<Rightarrow> url_in_fields r flds res expr nms
          | Some (u, conf) \<Rightarrow>
              let u = (if contains u ''://'' then u
                       else case field_fold flds ''baseurl'' of
                         None \<Rightarrow> u
                       | Some base \<Rightarrow>
                           (case resolve_url base res (hr_conf r) of
                              Some (b, _) \<Rightarrow> if contains b ''://'' then trim_suffix b ''/'' @ u else u
                            | None \<Rightarrow> u))
              in (Some (u, conf), e))"

definition url_from_fields :: "http_client_rule \<Rightarrow> texts \<Rightarrow> resolver \<Rightarrow> (string \<times> rat) option \<times> string" where
  "url_from_fields r flds res =
     (if \<not> hr_url_from_fields r \<or> length flds = 0 then (None, []) else url_in_fields r flds res [] http_url_fields)"

text \<open>What a rule reads at a call site: the method, the target if it resolves, and their expressions.\<close>

definition request_target :: "http_client_rule \<Rightarrow> call_site \<Rightarrow> resolver \<Rightarrow> bool \<Rightarrow> (string \<times> rat) option \<times> string" where
  "request_target r cs res positional =
     (let here = (if positional then resolve_request_url (cs_args cs ! hr_url_arg r) res (hr_conf r) (hr_relative_url r) else None);
          url_expr = (if positional then cs_args cs ! hr_url_arg r else [])
      in case here of
           Some t \<Rightarrow> (Some t, url_expr)
         | None \<Rightarrow>
             let (found, field_expr) = url_from_fields r (cs_fields cs) res
             in (found, if field_expr \<noteq> [] then field_expr else url_expr))"

definition request_method :: "http_client_rule \<Rightarrow> call_site \<Rightarrow> resolver \<Rightarrow> string \<Rightarrow> string \<times> string" where
  "request_method r cs res m =
     (let (m, expr) = (if m = ''ANY'' \<and> hr_method_arg r \<noteq> hr_url_arg r \<and> length (cs_args cs) > hr_method_arg r
                       then (http_method_from_arg (cs_args cs ! hr_method_arg r) res, cs_args cs ! hr_method_arg r) else (m, []))
      in if hr_method_field r = [] then (m, expr)
         else case field_fold (cs_fields cs) (hr_method_field r) of
           None \<Rightarrow> (m, expr)
         | Some e \<Rightarrow> (case unquote e of Some v \<Rightarrow> (to_upper v, e) | None \<Rightarrow> (m, e)))"

definition apply_http :: "http_client_rule \<Rightarrow> call_site \<Rightarrow> resolver \<Rightarrow> file_ctx \<Rightarrow> file_ctx \<times> bool \<times> bool" where
  "apply_http r cs res fc =
     (case map_of (hr_methods r) (cs_name cs) of
        None \<Rightarrow> (fc, False, False)
      | Some m \<Rightarrow>
          if \<not> match_receiver (hr_object r) (hr_recv_type r) cs then (fc, False, False)
          else let positional = (length (cs_args cs) > hr_url_arg r \<and> \<not> has_prefix (trim_space (cs_args cs ! hr_url_arg r)) ''{'') in
            if \<not> positional \<and> \<not> hr_url_from_fields r then (fc, False, False)
            else if positional \<and> is_context_expr (cs_args cs ! hr_url_arg r) then (fc, False, False)
            else let (target, url_expr) = request_target r cs res positional;
                     (m, method_expr) = request_method r cs res m
              in case target of
                   None \<Rightarrow>
                     if hr_loose r then (fc, False, False)
                     else (http_candidate (cs_src cs) url_expr method_expr fc, True, False)
                 | Some (u, conf) \<Rightarrow>
                     let (host, path) = split_url u in
                     (add_edge (cs_src cs) ''http_call'' (route_key m path) (cs_line cs) conf
                        (Some (no_meta\<lparr> sm_method := m, sm_path := path, sm_host := host, sm_args := cs_args cs,
                           sm_fields := cs_fields cs, sm_aliases := cs_aliases cs \<rparr>)) fc, True, True))"

section \<open>Stubs of gRPC services\<close>

definition non_grpc_client_types :: "string list" where
  "non_grpc_client_types =
     [''Client'', ''HttpClient'', ''HTTPClient'', ''WebClient'', ''RestClient'', ''ApiClient'', ''APIClient'', ''GraphQLClient'',
      ''RedisClient'', ''MongoClient'', ''S3Client'', ''SqsClient'', ''SnsClient'', ''DynamoDbClient'', ''ElasticClient'',
      ''KafkaClient'', ''AdminClient'', ''SchemaRegistryClient'']"

definition cut_suffix :: "string \<Rightarrow> string \<Rightarrow> string option" where
  "cut_suffix s suf = (if has_suffix s suf then Some (take (length s - length suf) s) else None)"

fun cut_stub :: "string list \<Rightarrow> string \<Rightarrow> string" where
  "cut_stub [] t = []"
| "cut_stub (suf # sufs) t =
     (case cut_suffix t suf of
        Some svc \<Rightarrow> if svc \<noteq> [] then svc else cut_stub sufs t
      | None \<Rightarrow> cut_stub sufs t)"

definition grpc_service_from_type :: "string \<Rightarrow> string" where
  "grpc_service_from_type typ =
     (let t = last_component (trim_right (\<lambda>c. c \<in> set ''?*&'') (trim_space typ));
          t = trim_left (\<lambda>c. c \<in> set ''*&'') t
      in if t \<in> set non_grpc_client_types then []
         else cut_stub [''BlockingStub'', ''FutureStub'', ''Stub'', ''Client''] t)"

definition is_generated_stub_type :: "string \<Rightarrow> bool" where
  "is_generated_stub_type typ \<longleftrightarrow>
     (let t = trim_set ''*&?'' (trim_space typ); nm = last_component t in
      if has_suffix nm ''Stub'' then True
      else if \<not> has_suffix nm ''Client'' then False
      else contains t ''.'' \<or> has_suffix nm ''ServiceClient'')"

definition grpc_stub_service :: "string \<Rightarrow> bool \<Rightarrow> string" where
  "grpc_stub_service typ file_has_grpc =
     (let svc = grpc_service_from_type typ in
      if svc = [] \<or> (\<not> file_has_grpc \<and> \<not> is_generated_stub_type typ) then [] else svc)"

definition call_head :: "string \<Rightarrow> string option" where
  "call_head expr =
     (let expr = trim_space expr in
      if \<not> has_suffix expr '')'' then None
      else case index_where (\<lambda>c. c = CHR ''('') expr of
        None \<Rightarrow> None
      | Some i \<Rightarrow>
          if i = 0 then None
          else let head = join_with '' '' (Go_Strings.fields (take i expr)) in
            if head = [] \<or> contains_any head (quotes @ ''{}[]'') then None else Some head)"

definition java_stub_factories :: "string list" where
  "java_stub_factories = [''newBlockingStub'', ''newStub'', ''newFutureStub'']"

definition constructed_by_name :: "string \<Rightarrow> string" where
  "constructed_by_name head =
     (let nm = last_component head; qualifier = trim_suffix head nm in
      if nm \<in> set java_stub_factories then
        (case cut_suffix (last_component (trim_suffix qualifier ''.'')) ''Grpc'' of
           Some svc \<Rightarrow> if svc \<noteq> [] then svc @ ''Stub'' else []
         | None \<Rightarrow> [])
      else let bare = (if nm = [] \<or> \<not> is_upper (hd nm) \<or> (\<not> has_suffix nm ''Client'' \<and> \<not> has_suffix nm ''Stub'') then [] else head) in
        case cut_prefix nm ''New'' of
          Some rest \<Rightarrow> if rest \<noteq> [] \<and> is_upper (hd rest) then qualifier @ rest else bare
        | None \<Rightarrow> bare)"

definition inline_constructed_type :: "string \<Rightarrow> string" where
  "inline_constructed_type object =
     (case call_head object of
        None \<Rightarrow> []
      | Some head \<Rightarrow>
          (case cut_prefix head ''new'' of
             Some rest \<Rightarrow> if rest \<noteq> [] \<and> \<not> is_word_byte (hd rest) then trim_space rest else constructed_by_name head
           | None \<Rightarrow> constructed_by_name head))"

definition inline_stub_service :: "string \<Rightarrow> bool \<Rightarrow> string" where
  "inline_stub_service object file_has_grpc =
     (let typ = inline_constructed_type object in if typ = [] then [] else grpc_stub_service typ file_has_grpc)"

section \<open>Destinations of messages\<close>

record topic_spec =
  ts_args :: "nat list"
  ts_by_arity :: "(nat \<times> nat) list"
  ts_kwargs :: "string list"
  ts_fields :: "string list"
  ts_list :: bool
  ts_ref :: bool

definition no_topic :: topic_spec where
  "no_topic = \<lparr> ts_args = [], ts_by_arity = [], ts_kwargs = [], ts_fields = [], ts_list = False, ts_ref = False \<rparr>"

definition spec_empty :: "topic_spec \<Rightarrow> bool" where
  "spec_empty s \<longleftrightarrow> length (ts_args s) = 0 \<and> length (ts_by_arity s) = 0 \<and> length (ts_kwargs s) = 0 \<and> length (ts_fields s) = 0"

definition spec_exprs :: "topic_spec \<Rightarrow> call_site \<Rightarrow> string list" where
  "spec_exprs s cs =
     (case map_of (ts_by_arity s) (length (cs_args cs)) of
        Some i \<Rightarrow> if i < length (cs_args cs) then [cs_args cs ! i] else []
      | None \<Rightarrow> []) @
     List.map_filter (field_fold (cs_kwargs cs)) (ts_kwargs s) @
     List.map_filter (field_fold (cs_fields cs)) (ts_fields s) @
     map (\<lambda>i. cs_args cs ! i) (filter (\<lambda>i. i < length (cs_args cs)) (ts_args s))"

definition broker_name :: "string \<Rightarrow> bool \<Rightarrow> string" where
  "broker_name v ref =
     (if \<not> ref then v
      else let v = trim_space v in
        if has_prefix v ''${'' then v
        else case index_where (\<lambda>c. c \<in> set ''/:'') (rev v) of
          Some k \<Rightarrow> if k > 0 then drop (length v - k) v else v
        | None \<Rightarrow> v)"

fun first_named :: "resolver \<Rightarrow> string list \<Rightarrow> string option" where
  "first_named res [] = None"
| "first_named res (e # es) =
     (case res e of Some v \<Rightarrow> if v = [] then first_named res es else Some v | None \<Rightarrow> first_named res es)"

definition spec_resolve :: "topic_spec \<Rightarrow> call_site \<Rightarrow> resolver \<Rightarrow> string \<times> bool" where
  "spec_resolve s cs res =
     (case first_named res (spec_exprs s cs) of
        Some v \<Rightarrow> (broker_name v (ts_ref s), True)
      | None \<Rightarrow> ([], spec_exprs s cs \<noteq> []))"

definition spec_resolve_list :: "topic_spec \<Rightarrow> call_site \<Rightarrow> list_resolver \<Rightarrow> string list \<times> bool" where
  "spec_resolve_list s cs lst =
     (case spec_exprs s cs of
        [] \<Rightarrow> ([], False)
      | e # _ \<Rightarrow> (map (\<lambda>v. broker_name v (ts_ref s)) (filter (\<lambda>v. v \<noteq> []) (lst e)), True))"

definition topic_edge_key :: "string \<Rightarrow> string \<times> string" where
  "topic_edge_key topic =
     (case split_placeholder_default topic of
        (ref, def, ok) \<Rightarrow> if ok then (topic_key (''${'' @ ref @ ''}''), def) else (topic_key topic, topic))"

section \<open>Evidence of a broker\<close>

definition contains_any_fold :: "string \<Rightarrow> string list \<Rightarrow> bool" where
  "contains_any_fold s markers \<longleftrightarrow> s \<noteq> [] \<and> list_ex (contains (to_lower s)) markers"

definition has_broker_marker :: "string \<Rightarrow> bool" where
  "has_broker_marker s = contains_any_fold s broker_markers"

definition has_broker_vendor :: "string \<Rightarrow> bool" where
  "has_broker_vendor s = contains_any_fold s broker_vendor_markers"

definition broker_evidence :: "file_ctx \<Rightarrow> call_site \<Rightarrow> bool" where
  "broker_evidence fc cs \<longleftrightarrow> has_broker_vendor (cs_object cs) \<or> has_broker_vendor (cs_recv_type cs) \<or> has_broker fc"

definition broker_handle :: "file_ctx \<Rightarrow> call_site \<Rightarrow> bool" where
  "broker_handle fc cs \<longleftrightarrow> has_broker_marker (cs_object cs) \<or> has_broker_marker (cs_recv_type cs) \<or> has_broker fc"

definition queue_name_like :: "string \<Rightarrow> bool" where
  "queue_name_like s \<longleftrightarrow>
     (let s = trim_space s in
      3 \<le> length s \<and> length s \<le> 96 \<and> \<not> contains_any s (blanks @ [CHR 0x22, CHR 0x27] @ ''{}()<>,;='') \<and>
      \<not> has_prefix s ''/'' \<and> \<not> contains s ''://'' \<and>
      list_all (\<lambda>c. is_letter c \<or> is_digit c \<or> c \<in> set ''.-_:/*$'') s \<and> length (filter is_letter s) \<ge> 3)"

section \<open>Publishing\<close>

record produce_rule =
  pr_object :: object_match
  pr_methods :: "string list"
  pr_topic_arg :: nat
  pr_topic_field :: string
  pr_topic :: topic_spec
  pr_recv_type :: object_match
  pr_omit_args :: bool
  pr_loose :: bool
  pr_needs_broker :: bool
  pr_conf :: rat

definition produce_spec :: "produce_rule \<Rightarrow> topic_spec" where
  "produce_spec r =
     (if \<not> spec_empty (pr_topic r) then pr_topic r
      else if pr_topic_field r \<noteq> [] then no_topic\<lparr> ts_fields := [pr_topic_field r] \<rparr>
      else no_topic\<lparr> ts_args := [pr_topic_arg r] \<rparr>)"

definition apply_produce :: "produce_rule \<Rightarrow> call_site \<Rightarrow> resolver \<Rightarrow> file_ctx \<Rightarrow> file_ctx \<times> bool \<times> bool" where
  "apply_produce r cs res fc =
     (if cs_name cs \<notin> set (pr_methods r) \<or> \<not> match_receiver (pr_object r) (pr_recv_type r) cs then (fc, False, False)
      else if pr_needs_broker r \<and> \<not> broker_handle fc cs then (fc, False, False)
      else let (topic, found) = spec_resolve (produce_spec r) cs res in
        if \<not> found \<or> topic = [] then (fc, \<not> pr_loose r, False)
        else let (key, nm) = topic_edge_key topic in
          (add_edge (cs_src cs) ''produces'' key (cs_line cs) (pr_conf r)
             (Some (no_meta\<lparr> sm_topic := nm, sm_fields := cs_fields cs, sm_aliases := cs_aliases cs,
                sm_args := (if pr_omit_args r then [] else cs_args cs) \<rparr>)) fc, True, True))"

section \<open>Subscribing\<close>

record consume_rule =
  cn_object :: object_match
  cn_methods :: "string list"
  cn_topic_arg :: nat
  cn_topic_arg_list :: bool
  cn_topics_fields :: "string list"
  cn_topic :: topic_spec
  cn_recv_type :: object_match
  cn_loose :: bool
  cn_needs_broker :: bool
  cn_conf :: rat

definition consume_spec :: "consume_rule \<Rightarrow> topic_spec" where
  "consume_spec r =
     (if \<not> spec_empty (cn_topic r) then cn_topic r
      else if length (cn_topics_fields r) > 0 then no_topic\<lparr> ts_fields := cn_topics_fields r, ts_list := True \<rparr>
      else no_topic\<lparr> ts_args := [cn_topic_arg r], ts_list := cn_topic_arg_list r \<rparr>)"

definition emit_consumes :: "consume_rule \<Rightarrow> call_site \<Rightarrow> file_ctx \<Rightarrow> string \<Rightarrow> file_ctx" where
  "emit_consumes r cs fc topic =
     (let (key, nm) = topic_edge_key topic in
      add_edge (cs_src cs) ''consumes'' key (cs_line cs) (cn_conf r) (Some (no_meta\<lparr> sm_topic := nm \<rparr>)) fc)"

definition apply_consume ::
    "consume_rule \<Rightarrow> call_site \<Rightarrow> resolver \<Rightarrow> list_resolver \<Rightarrow> file_ctx \<Rightarrow> file_ctx \<times> bool \<times> bool \<times> bool" where
  "apply_consume r cs res lst fc =
     (if cs_name cs \<notin> set (cn_methods r) \<or> \<not> match_receiver (cn_object r) (cn_recv_type r) cs then (fc, False, False, False)
      else if cn_needs_broker r \<and> \<not> broker_handle fc cs then (fc, False, False, False)
      else if ts_list (consume_spec r) then
        (let (topics, found) = spec_resolve_list (consume_spec r) cs lst in
         if \<not> found then (fc, \<not> cn_loose r, False, False)
         else (foldl (emit_consumes r cs) fc topics, True, topics \<noteq> [], True))
      else
        (let (topic, found) = spec_resolve (consume_spec r) cs res in
         if \<not> found \<or> topic = [] then (fc, \<not> cn_loose r, False, False)
         else (emit_consumes r cs fc topic, True, True, True)))"

section \<open>Fluent chains\<close>

definition fluent_http_verbs :: "string list" where
  "fluent_http_verbs = [''get'', ''post'', ''put'', ''delete'', ''patch'']"

definition fluent_chain_http :: "string \<Rightarrow> string \<Rightarrow> string list \<Rightarrow> resolver \<Rightarrow> (string \<times> string \<times> rat) option" where
  "fluent_chain_http nm object args res =
     (if nm \<noteq> ''uri'' \<or> length args < 1 \<or> object = [] then None
      else case resolve_request_url (hd args) res conf_cross_file True of
        None \<Rightarrow> None
      | Some (u, conf) \<Rightarrow>
          map_option (\<lambda>v. (to_upper v, u, conf)) (find (\<lambda>v. contains (to_lower object) (''.'' @ v @ ''()'')) fluent_http_verbs))"

section \<open>The fallback by shape\<close>

definition broker_publish_verbs :: "string list" where
  "broker_publish_verbs =
     [''publish'', ''publishasync'', ''publishmessage'', ''send'', ''sendasync'', ''sendmessage'', ''sendmessageasync'', ''sendtoqueue'',
      ''produce'', ''produceasync'', ''emit'', ''enqueue'', ''convertandsend'', ''basicpublish'', ''basicpublishasync'', ''basic_publish'',
      ''publish_message'', ''send_message'']"

definition broker_subscribe_verbs :: "string list" where
  "broker_subscribe_verbs =
     [''subscribe'', ''subscribeasync'', ''consume'', ''consumeasync'', ''receive'', ''receivemessage'', ''receivemessages'',
      ''basicconsume'', ''basicconsumeasync'', ''basic_consume'', ''receive_message'', ''receive_messages'', ''listen'', ''pull'',
      ''createprocessor'', ''createreceiver'']"

definition broker_dest_fields :: "string list" where
  "broker_dest_fields =
     [''routing_key'', ''routingkey'', ''queue'', ''queueurl'', ''queue_url'', ''queuename'', ''queue_name'', ''topic'', ''topicarn'',
      ''topic_arn'', ''topicname'', ''topic_name'', ''subject'', ''channel'', ''stream'', ''destination'', ''exchange'', ''subscription'']"

definition broker_dest_named :: "call_site \<Rightarrow> bool" where
  "broker_dest_named cs = list_ex (\<lambda>f. field_fold (cs_fields cs) f \<noteq> None \<or> field_fold (cs_kwargs cs) f \<noteq> None) broker_dest_fields"

definition broker_fallback_exprs :: "call_site \<Rightarrow> string list" where
  "broker_fallback_exprs cs =
     concat (map (\<lambda>f. (case field_fold (cs_fields cs) f of Some v \<Rightarrow> [v] | None \<Rightarrow> []) @
                      (case field_fold (cs_kwargs cs) f of Some v \<Rightarrow> [v] | None \<Rightarrow> [])) broker_dest_fields) @
     take 2 (cs_args cs)"

definition broker_direction :: "string \<Rightarrow> string option" where
  "broker_direction nm =
     (if to_lower nm \<in> set broker_publish_verbs then Some ''produces''
      else if to_lower nm \<in> set broker_subscribe_verbs then Some ''consumes'' else None)"

definition broker_fallback :: "call_site \<Rightarrow> resolver \<Rightarrow> file_ctx \<Rightarrow> file_ctx \<times> bool \<times> bool" where
  "broker_fallback cs res fc =
     (case broker_direction (cs_name cs) of
        None \<Rightarrow> (fc, False, False)
      | Some kd \<Rightarrow>
          if \<not> has_broker_marker (cs_object cs) \<and> \<not> has_broker_marker (cs_recv_type cs) then (fc, False, False)
          else let vs = List.map_filter res (broker_fallback_exprs cs) in
            case find queue_name_like vs of
              Some v \<Rightarrow>
                let (key, topic) = topic_edge_key (broker_name v True) in
                (add_edge (cs_src cs) kd key (cs_line cs) conf_weak
                   (Some (no_meta\<lparr> sm_topic := topic, sm_args := cs_args cs, sm_fields := cs_fields cs, sm_aliases := cs_aliases cs \<rparr>)) fc,
                 True, True)
            | None \<Rightarrow> (fc, (vs \<noteq> [] \<or> broker_dest_named cs) \<and> broker_evidence fc cs, False))"

section \<open>A run of the rules\<close>

record detector_set =
  ds_http :: "http_client_rule list"
  ds_produce :: "produce_rule list"
  ds_consume :: "consume_rule list"
  ds_broker :: bool

text \<open>A kind of contract is counted once for a call site, by the first rule that claims it.\<close>

definition record_site :: "string \<Rightarrow> bool \<Rightarrow> bool \<Rightarrow> file_ctx \<times> string list \<Rightarrow> file_ctx \<times> string list" where
  "record_site kd claimed emitted st =
     (if claimed \<and> kd \<notin> set (snd st) then (contract_site kd emitted (fst st), kd # snd st) else st)"

fun run_produce :: "produce_rule list \<Rightarrow> call_site \<Rightarrow> resolver \<Rightarrow> file_ctx \<times> string list \<Rightarrow> (file_ctx \<times> string list) \<times> bool" where
  "run_produce [] cs res st = (st, False)"
| "run_produce (r # rs) cs res st =
     (let (fc, claimed, emitted) = apply_produce r cs res (fst st);
          st = record_site ''messaging'' claimed emitted (fc, snd st)
      in if emitted then (st, True) else run_produce rs cs res st)"

fun run_consume ::
    "consume_rule list \<Rightarrow> call_site \<Rightarrow> resolver \<Rightarrow> list_resolver \<Rightarrow> file_ctx \<times> string list \<Rightarrow> (file_ctx \<times> string list) \<times> bool" where
  "run_consume [] cs res lst st = (st, False)"
| "run_consume (r # rs) cs res lst st =
     (let (fc, claimed, emitted, handled) = apply_consume r cs res lst (fst st);
          st = record_site ''messaging'' claimed emitted (fc, snd st)
      in if handled then (st, True) else run_consume rs cs res lst st)"

fun run_http :: "http_client_rule list \<Rightarrow> call_site \<Rightarrow> resolver \<Rightarrow> file_ctx \<times> string list \<Rightarrow> (file_ctx \<times> string list) \<times> bool" where
  "run_http [] cs res st = (st, False)"
| "run_http (r # rs) cs res st =
     (let (fc, claimed, emitted) = apply_http r cs res (fst st);
          st = record_site ''http'' claimed emitted (fc, snd st)
      in if emitted then (st, True) else run_http rs cs res st)"

definition run_fallback :: "bool \<Rightarrow> call_site \<Rightarrow> resolver \<Rightarrow> file_ctx \<times> string list \<Rightarrow> (file_ctx \<times> string list) \<times> bool" where
  "run_fallback enabled cs res st =
     (if enabled \<and> ''messaging'' \<notin> set (snd st)
      then (let (fc, claimed, emitted) = broker_fallback cs res (fst st)
            in if claimed then (record_site ''messaging'' True emitted (fc, snd st), emitted) else (st, False))
      else (st, False))"

definition single_names :: "resolver \<Rightarrow> list_resolver" where
  "single_names res expr = (case res expr of Some v \<Rightarrow> [v] | None \<Rightarrow> [])"

definition run_detectors ::
    "detector_set \<Rightarrow> call_site \<Rightarrow> resolver \<Rightarrow> list_resolver option \<Rightarrow> file_ctx \<Rightarrow> file_ctx \<times> bool" where
  "run_detectors ds cs res lst fc =
     (let lst = (case lst of None \<Rightarrow> single_names res | Some l \<Rightarrow> l);
          (st, hit) = run_produce (ds_produce ds) cs res (fc, [])
      in if hit then (fst st, True)
         else let (st, hit) = run_consume (ds_consume ds) cs res lst st
         in if hit then (fst st, True)
         else let (st, hit) = run_fallback (ds_broker ds) cs res st
         in if hit then (fst st, True)
         else let (st, hit) = run_http (ds_http ds) cs res st
         in (fst st, hit))"

end
