(* ===== verification/Ast_Wrappers.thy ===== *)
theory Ast_Wrappers
  imports Ast_Detect
begin

text \<open>
  Outbound calls made through a local helper (\<open>internal/index/ast/wrappers.go\<close>) and route registrations that
  no framework rule recognised (\<open>internal/index/ast/route_generic.go\<close>).
\<close>

section \<open>Helpers\<close>

record wrapper =
  w_name :: string
  w_dir :: string
  w_method :: string
  w_path :: string
  w_host :: string
  w_method_param :: int
  w_url_param :: int

definition min_wrapper_name :: nat where "min_wrapper_name = 3"

text \<open>The position of the parameter an expression forwards: that of its last token that names one.\<close>

definition param_index :: "string list \<Rightarrow> string \<Rightarrow> int" where
  "param_index params expr =
     (if expr = [] \<or> params = [] then - 1
      else foldl (\<lambda>found tok. foldl (\<lambda>found (i, p). if p = tok then int i else found) found (enumerate 0 params)) (- 1) (ident_tokens expr))"

function string_literals :: "string \<Rightarrow> string list" where
  "string_literals [] = []"
| "string_literals (c # cs) =
     (if c \<notin> set quotes then string_literals cs
      else case index_where (\<lambda>d. d = c) cs of
        None \<Rightarrow> []
      | Some j \<Rightarrow> take j cs # string_literals (drop (Suc j) cs))"
  by pat_completeness auto
termination by (relation "measure length") (auto simp: less_Suc_eq_le)

fun first_target_prefix :: "string list \<Rightarrow> string \<times> string" where
  "first_target_prefix [] = ([], [])"
| "first_target_prefix (l # ls) =
     (let l = placeholderize l;
          l = (case index_where (\<lambda>c. c = CHR ''{'') l of Some i \<Rightarrow> take i l | None \<Rightarrow> l)
      in if \<not> is_url_shaped l then first_target_prefix ls
         else let (host, prefix) = split_url l;
                  prefix = (if prefix = ''/'' then [] else prefix)
           in (host, trim_suffix prefix ''/''))"

definition url_template_prefix :: "string \<Rightarrow> string \<times> string" where
  "url_template_prefix expr = first_target_prefix (string_literals expr)"

definition new_wrapper :: "string \<Rightarrow> parsed_unit \<Rightarrow> http_site \<Rightarrow> wrapper option" where
  "new_wrapper lang u site =
     (let w = \<lparr> w_name = [], w_dir = [], w_method = [], w_path = [], w_host = [], w_method_param = - 1, w_url_param = - 1 \<rparr> in
      if hs_path site \<noteq> [] then Some (w\<lparr> w_method := hs_method site, w_path := hs_path site, w_host := hs_host site \<rparr>)
      else let params = param_names lang (pu_signature u);
               i = param_index params (hs_url_expr site)
        in if i < 0 then None
           else let meth = (case unquote (trim_space (hs_method_expr site)) of
                              Some v \<Rightarrow> if to_upper v \<in> set http_method_names then to_upper v else []
                            | None \<Rightarrow> []);
                    (host, prefix) = url_template_prefix (hs_url_expr site)
             in Some (w\<lparr> w_url_param := i, w_method_param := param_index params (hs_method_expr site), w_method := meth,
                  w_host := host, w_path := prefix \<rparr>))"

definition followable :: "wrapper \<Rightarrow> string \<Rightarrow> bool" where
  "followable w nm \<longleftrightarrow> w_url_param w \<ge> 0 \<or> to_upper nm \<notin> set http_method_names"

definition add_wrapper :: "file_ctx \<Rightarrow> wrapper list \<Rightarrow> http_site \<Rightarrow> wrapper list" where
  "add_wrapper fc out site =
     (if hs_unit site < 0 \<or> hs_unit site \<ge> int (length (fc_units fc)) then out
      else let u = fc_units fc ! nat (hs_unit site) in
        if pu_kind u \<noteq> ''function'' \<and> pu_kind u \<noteq> ''method'' then out
        else if length (pu_name u) < min_wrapper_name \<or> pu_name u \<in> w_name ` set out then out
        else case new_wrapper (fc_lang fc) u site of
          None \<Rightarrow> out
        | Some w \<Rightarrow>
            if \<not> followable w (pu_name u) then out
            else out @ [w\<lparr> w_name := pu_name u, w_dir := path_dir (fc_path fc) \<rparr>])"

definition wrappers :: "file_ctx \<Rightarrow> wrapper list" where
  "wrappers fc = foldl (add_wrapper fc) [] (fc_https fc)"

definition or_any_method :: "string \<Rightarrow> string" where
  "or_any_method m = (if m = [] then ''ANY'' else m)"

text \<open>The method, the path and the host that a call with these arguments reaches through a helper.\<close>

definition wrapper_target :: "wrapper \<Rightarrow> string list \<Rightarrow> (string \<times> string \<times> string) option" where
  "wrapper_target w args =
     (if w_url_param w < 0 then
        (if w_path w = [] then None else Some (or_any_method (w_method w), w_path w, w_host w))
      else if w_url_param w \<ge> int (length args) then None
      else case resolve_url (args ! nat (w_url_param w)) literal_only conf_weak of
        None \<Rightarrow> None
      | Some (u, _) \<Rightarrow>
          let (host, path) = split_url u;
              host = (if host = [] then w_host w else host);
              path = (if w_path w \<noteq> [] then join_path (w_path w) path else path);
              meth = (if w_method_param w \<ge> 0 \<and> w_method_param w < int (length args)
                      then let m = http_method_from_arg (args ! nat (w_method_param w)) literal_only
                           in if m \<in> set http_method_names then m else w_method w
                      else w_method w)
          in Some (or_any_method meth, path, host))"

section \<open>Following a helper\<close>

text \<open>
  Metadata is kept decoded. A call site is known by its source and its line; sites that already carry a
  request are left alone.
\<close>

type_synonym wrapper_table = "string \<rightharpoonup> wrapper"

definition site_of :: "parsed_edge \<Rightarrow> string \<times> int" where
  "site_of e = (pe_src e, pe_line e)"

definition edge_args :: "parsed_edge \<Rightarrow> string list" where
  "edge_args e = (case pe_meta e of None \<Rightarrow> [] | Some m \<Rightarrow> sm_args m)"

definition edge_aliases :: "parsed_edge \<Rightarrow> texts" where
  "edge_aliases e = (case pe_meta e of None \<Rightarrow> [] | Some m \<Rightarrow> sm_aliases m)"

definition followed_edge :: "wrapper \<Rightarrow> parsed_edge \<Rightarrow> string \<times> string \<times> string \<Rightarrow> parsed_edge" where
  "followed_edge w e target =
     (case target of (meth, route, host) \<Rightarrow>
       \<lparr> pe_src = pe_src e, pe_kind = ''http_call'', pe_name = route_key meth route, pe_line = pe_line e, pe_conf = conf_weak,
         pe_meta = Some (no_meta\<lparr> sm_method := meth, sm_path := route, sm_host := host, sm_args := edge_args e,
           sm_aliases := edge_aliases e, sm_source := ''wrapper:'' @ w_name w, sm_base_conf := conf_weak \<rparr>) \<rparr>)"

text \<open>The requests added for a list of edges, given the sites that carry one.\<close>

fun follow_calls :: "wrapper_table \<Rightarrow> (string \<times> int) set \<Rightarrow> parsed_edge list \<Rightarrow> parsed_edge list" where
  "follow_calls tab done_sites [] = []"
| "follow_calls tab done_sites (e # es) =
     (if pe_kind e \<noteq> ''call'' then follow_calls tab done_sites es
      else case tab (pe_name e) of
        None \<Rightarrow> follow_calls tab done_sites es
      | Some w \<Rightarrow>
          if site_of e \<in> done_sites then follow_calls tab done_sites es
          else case wrapper_target w (edge_args e) of
            None \<Rightarrow> follow_calls tab done_sites es
          | Some t \<Rightarrow> followed_edge w e t # follow_calls tab (insert (site_of e) done_sites) es)"

definition resolved_sites :: "parsed_edge list \<Rightarrow> (string \<times> int) set" where
  "resolved_sites es = set (map site_of (filter (\<lambda>e. pe_kind e = ''http_call'') es))"

definition link_wrapper_calls :: "parsed_edge list \<Rightarrow> wrapper_table \<Rightarrow> nat \<times> parsed_edge list" where
  "link_wrapper_calls es tab =
     (let new = follow_calls tab (resolved_sites es) es in (length new, es @ new))"

definition first_wrapper :: "wrapper_table \<Rightarrow> wrapper \<Rightarrow> wrapper_table" where
  "first_wrapper tab w = (if tab (w_name w) = None then tab(w_name w \<mapsto> w) else tab)"

definition link_wrappers :: "wrapper list \<Rightarrow> file_ctx \<Rightarrow> file_ctx" where
  "link_wrappers ws fc =
     (if length ws = 0 then fc
      else let (added, es) = link_wrapper_calls (fc_edges fc) (foldl first_wrapper Map.empty ws)
        in (contract_site ''http'' True ^^ added) (fc\<lparr> fc_edges := es \<rparr>))"

section \<open>Registrations\<close>

definition route_name_hints :: "string list" where
  "route_name_hints = [''route'', ''endpoint'', ''handler'', ''handle'', ''register'', ''mapping'']"

definition route_anti_hints :: "string list" where
  "route_anti_hints = [''request'', ''response'', ''options'', ''config'', ''client'', ''param'']"

definition generic_route_detector :: string where "generic_route_detector = ''generic-route''"

definition route_name_hint :: "string \<Rightarrow> bool" where
  "route_name_hint callee \<longleftrightarrow>
     (let nm = to_lower (last_component (trim_space callee)) in
      \<not> list_ex (contains nm) route_anti_hints \<and> list_ex (contains nm) route_name_hints)"

definition http_methods_in :: "string \<Rightarrow> resolver \<Rightarrow> list_resolver option \<Rightarrow> string list" where
  "http_methods_in expr res lst =
     (case res expr of
        Some v \<Rightarrow> (let m = to_upper (trim_space v) in if m \<in> set http_method_names then [m] else [])
      | None \<Rightarrow>
          let out = (case lst of None \<Rightarrow> []
                     | Some l \<Rightarrow> filter (\<lambda>m. m \<in> set http_method_names) (map (\<lambda>v. to_upper (trim_space v)) (l expr)))
          in if length out > 0 then out
             else let m = to_upper (trim_prefix (last_component (trim_space expr)) ''Method'')
               in if m \<in> set http_method_names then [m] else [])"

definition func_ref_body :: "string \<Rightarrow> string option" where
  "func_ref_body s =
     (if has_prefix s ''('' then
        (case find_at '').'' s of Some i \<Rightarrow> if i > 0 then Some (drop (i + 2) s) else None | None \<Rightarrow> None)
      else Some s)"

definition is_func_ref_expr :: "string \<Rightarrow> bool" where
  "is_func_ref_expr expr \<longleftrightarrow>
     (case func_ref_body (trim_space expr) of
        None \<Rightarrow> False
      | Some s \<Rightarrow>
          s \<noteq> [] \<and> \<not> contains_any s (blanks @ quotes @ ''(){}[]'') \<and>
          list_all (\<lambda>c. is_word_byte c \<or> c = CHR ''.'' \<or> c = CHR '':'') s \<and>
          list_ex (\<lambda>c. is_word_byte c \<and> \<not> is_digit c) s \<and> (hd s = CHR ''_'' \<or> is_letter (hd s)))"

definition rooted_path :: "resolver \<Rightarrow> string \<Rightarrow> string option" where
  "rooted_path res a =
     (case res a of Some v \<Rightarrow> if has_prefix v ''/'' \<and> is_url_shaped v then Some v else None | None \<Rightarrow> None)"

definition generic_route :: "string \<Rightarrow> string list \<Rightarrow> resolver \<Rightarrow> list_resolver option \<Rightarrow> (string list \<times> string \<times> string) option" where
  "generic_route callee args res lst =
     (if length args < 2 \<or> \<not> route_name_hint callee then None
      else case find (\<lambda>ia. rooted_path res (snd ia) \<noteq> None) (enumerate 0 args) of
        None \<Rightarrow> None
      | Some (pidx, a) \<Rightarrow>
          let others = map snd (filter (\<lambda>ia. fst ia \<noteq> pidx) (enumerate 0 args));
              methods = concat (map (\<lambda>a. http_methods_in a res lst) others);
              handler = (case find (\<lambda>a. http_methods_in a res lst = [] \<and> is_func_ref_expr a) others of Some h \<Rightarrow> h | None \<Rightarrow> [])
          in if handler = [] \<and> length methods = 0 then None
             else Some (if length methods = 0 then [''ANY''] else methods, the (rooted_path res a), handler))"

definition publish_route :: "span \<Rightarrow> string \<Rightarrow> string \<Rightarrow> file_ctx \<Rightarrow> string \<Rightarrow> file_ctx" where
  "publish_route n path handler fc m =
     (if has_route m path fc then fc
      else fst (add_route n m path handler (n_start_row n + 1) conf_heuristic generic_route_detector fc))"

definition apply_generic_route ::
    "span \<Rightarrow> string \<Rightarrow> string list \<Rightarrow> resolver \<Rightarrow> list_resolver option \<Rightarrow> string \<Rightarrow> file_ctx \<Rightarrow> file_ctx \<times> bool" where
  "apply_generic_route n callee args res lst prefix fc =
     (case generic_route callee args res lst of
        None \<Rightarrow> (fc, False)
      | Some (methods, path, handler) \<Rightarrow> (foldl (publish_route n (join_path prefix path) handler) fc methods, True))"

end
