(* ===== verification/Ast_Brokers.thy ===== *)
theory Ast_Brokers
  imports Ast_Wrappers
begin

text \<open>
  The rule tables (\<open>internal/index/ast/messaging.go\<close> and the \<open>detectorSet\<close> of each \<open>lang_*.go\<close>), transcribed
  rule by rule, and the destinations named by an event type or a type argument.
\<close>

section \<open>Messaging\<close>

definition produce_rule0 :: produce_rule where
  "produce_rule0 = \<lparr> pr_object = any_object, pr_methods = [], pr_topic_arg = 0, pr_topic_field = [], pr_topic = no_topic,
     pr_recv_type = any_object, pr_omit_args = False, pr_loose = False, pr_needs_broker = False, pr_conf = 0 \<rparr>"

definition consume_rule0 :: consume_rule where
  "consume_rule0 = \<lparr> cn_object = any_object, cn_methods = [], cn_topic_arg = 0, cn_topic_arg_list = False, cn_topics_fields = [],
     cn_topic = no_topic, cn_recv_type = any_object, cn_loose = False, cn_needs_broker = False, cn_conf = 0 \<rparr>"

definition http_rule0 :: http_client_rule where
  "http_rule0 = \<lparr> hr_object = any_object, hr_methods = [], hr_url_arg = 0, hr_recv_type = any_object, hr_method_arg = 0,
     hr_method_field = [], hr_loose = False, hr_url_from_fields = False, hr_relative_url = False, hr_conf = 0 \<rparr>"

definition go_amqp_recv :: object_match where
  "go_amqp_recv = any_object\<lparr> om_contains := [''rabbit'', ''amqp'', ''broker''], om_suffix := [''Chan'', ''Channel'', ''chan'', ''channel''], om_fold := False \<rparr>"

definition go_nats_recv :: object_match where
  "go_nats_recv = any_object\<lparr> om_exact := [''nc'', ''js'', ''nc1'', ''nc2''], om_contains := [''nats'', ''jetstream'', ''Nats'', ''JetStream''] \<rparr>"

definition go_broker_produce :: "produce_rule list" where
  "go_broker_produce =
    [produce_rule0\<lparr> pr_object := go_amqp_recv,
       pr_methods := [''Publish'', ''PublishMsg''],
       pr_topic := no_topic\<lparr> ts_args := [1, 0] \<rparr>,
       pr_conf := conf_high \<rparr>,
     produce_rule0\<lparr> pr_object := go_amqp_recv,
       pr_methods := [''PublishWithContext''],
       pr_topic := no_topic\<lparr> ts_args := [2, 1] \<rparr>,
       pr_conf := conf_high \<rparr>,
     produce_rule0\<lparr> pr_object := go_nats_recv,
       pr_methods := [''Publish'', ''PublishMsg'', ''PublishAsync''],
       pr_topic := no_topic\<lparr> ts_args := [0, 1] \<rparr>,
       pr_loose := True,
       pr_conf := conf_high \<rparr>,
     produce_rule0\<lparr> pr_methods := [''SendMessage'', ''SendMessageBatch'', ''SendMessageWithContext''],
       pr_topic := no_topic\<lparr> ts_fields := [''QueueUrl'', ''QueueName''], ts_ref := True \<rparr>,
       pr_loose := True,
       pr_conf := conf_high \<rparr>,
     produce_rule0\<lparr> pr_object := any_object\<lparr> om_contains := [''sns'', ''SNS'', ''Sns''] \<rparr>,
       pr_methods := [''Publish'', ''PublishWithContext'', ''PublishBatch''],
       pr_topic := no_topic\<lparr> ts_fields := [''TopicArn'', ''TargetArn''], ts_ref := True \<rparr>,
       pr_conf := conf_high \<rparr>,
     produce_rule0\<lparr> pr_methods := [''XAdd''],
       pr_topic := no_topic\<lparr> ts_fields := [''Stream''] \<rparr>,
       pr_loose := True,
       pr_conf := conf_high \<rparr>]"

definition go_broker_consume :: "consume_rule list" where
  "go_broker_consume =
    [consume_rule0\<lparr> cn_object := go_amqp_recv,
       cn_methods := [''Consume'', ''ConsumeWithContext''],
       cn_topic := no_topic\<lparr> ts_args := [0] \<rparr>,
       cn_conf := conf_high \<rparr>,
     consume_rule0\<lparr> cn_object := go_nats_recv,
       cn_methods := [''Subscribe'', ''SubscribeSync'', ''QueueSubscribe'', ''QueueSubscribeSync'', ''ChanSubscribe''],
       cn_topic := no_topic\<lparr> ts_args := [0] \<rparr>,
       cn_loose := True,
       cn_conf := conf_high \<rparr>,
     consume_rule0\<lparr> cn_methods := [''ReceiveMessage'', ''ReceiveMessageWithContext''],
       cn_topic := no_topic\<lparr> ts_fields := [''QueueUrl'', ''QueueName''], ts_ref := True \<rparr>,
       cn_loose := True,
       cn_conf := conf_high \<rparr>,
     consume_rule0\<lparr> cn_methods := [''XReadGroup'', ''XRead''],
       cn_topic := no_topic\<lparr> ts_fields := [''Stream'', ''Streams''], ts_list := True \<rparr>,
       cn_loose := True,
       cn_conf := conf_heuristic \<rparr>]"

definition py_broker_recv :: object_match where
  "py_broker_recv = any_object\<lparr> om_contains := [''channel'', ''rabbit'', ''amqp'', ''sqs'', ''sns'', ''nats'', ''nc'', ''publisher'', ''subscriber'', ''producer'', ''broker'', ''bus'', ''redis'', ''pubsub''], om_fold := True \<rparr>"

definition py_broker_produce :: "produce_rule list" where
  "py_broker_produce =
    [produce_rule0\<lparr> pr_methods := [''basic_publish''],
       pr_topic := no_topic\<lparr> ts_kwargs := [''routing_key'', ''exchange''], ts_args := [1, 0] \<rparr>,
       pr_conf := conf_high \<rparr>,
     produce_rule0\<lparr> pr_methods := [''send_message'', ''send_message_batch''],
       pr_topic := no_topic\<lparr> ts_kwargs := [''QueueUrl'', ''QueueName''], ts_args := [0], ts_ref := True \<rparr>,
       pr_needs_broker := True,
       pr_conf := conf_high \<rparr>,
     produce_rule0\<lparr> pr_object := py_broker_recv,
       pr_methods := [''publish'', ''publish_message'', ''xadd''],
       pr_topic := no_topic\<lparr> ts_kwargs := [''TopicArn'', ''TargetArn'', ''topic'', ''channel'', ''stream''], ts_args := [0], ts_ref := True \<rparr>,
       pr_loose := True,
       pr_conf := conf_heuristic \<rparr>]"

definition py_broker_consume :: "consume_rule list" where
  "py_broker_consume =
    [consume_rule0\<lparr> cn_methods := [''basic_consume'', ''basic_get''],
       cn_topic := no_topic\<lparr> ts_kwargs := [''queue''], ts_args := [0] \<rparr>,
       cn_conf := conf_high \<rparr>,
     consume_rule0\<lparr> cn_methods := [''receive_message'', ''receive_messages''],
       cn_topic := no_topic\<lparr> ts_kwargs := [''QueueUrl'', ''QueueName''], ts_args := [0], ts_ref := True \<rparr>,
       cn_needs_broker := True,
       cn_conf := conf_high \<rparr>,
     consume_rule0\<lparr> cn_object := py_broker_recv,
       cn_methods := [''xreadgroup'', ''xread''],
       cn_topic := no_topic\<lparr> ts_args := [2, 0], ts_list := True \<rparr>,
       cn_loose := True,
       cn_conf := conf_heuristic \<rparr>]"

definition jvm_amqp_recv :: object_match where
  "jvm_amqp_recv = any_object\<lparr> om_contains := [''channel'', ''rabbit'', ''amqp'', ''jms'', ''broker'', ''bus'', ''template''], om_fold := True \<rparr>"

definition jvm_broker_produce :: "produce_rule list" where
  "jvm_broker_produce =
    [produce_rule0\<lparr> pr_methods := [''basicPublish''],
       pr_topic := no_topic\<lparr> ts_args := [1, 0] \<rparr>,
       pr_conf := conf_high \<rparr>,
     produce_rule0\<lparr> pr_object := jvm_amqp_recv,
       pr_recv_type := jvm_amqp_recv,
       pr_methods := [''convertAndSend'', ''convertSendAndReceive'', ''send''],
       pr_topic := no_topic\<lparr> ts_by_arity := [(2, 0), (3, 1), (4, 1)] \<rparr>,
       pr_loose := True,
       pr_conf := conf_high \<rparr>,
     produce_rule0\<lparr> pr_object := any_object\<lparr> om_contains := [''streambridge''], om_fold := True \<rparr>,
       pr_methods := [''send''],
       pr_topic := no_topic\<lparr> ts_args := [0] \<rparr>,
       pr_conf := conf_high \<rparr>,
     produce_rule0\<lparr> pr_object := any_object\<lparr> om_contains := [''nats'', ''connection'', ''publisher''], om_fold := True \<rparr>,
       pr_methods := [''publish''],
       pr_topic := no_topic\<lparr> ts_args := [0] \<rparr>,
       pr_loose := True,
       pr_conf := conf_heuristic \<rparr>]"

definition jvm_broker_consume :: "consume_rule list" where
  "jvm_broker_consume =
    [consume_rule0\<lparr> cn_methods := [''basicConsume'', ''basicGet''],
       cn_topic := no_topic\<lparr> ts_args := [0] \<rparr>,
       cn_conf := conf_high \<rparr>,
     consume_rule0\<lparr> cn_object := jvm_amqp_recv,
       cn_recv_type := jvm_amqp_recv,
       cn_methods := [''receive'', ''receiveAndConvert''],
       cn_topic := no_topic\<lparr> ts_args := [0] \<rparr>,
       cn_loose := True,
       cn_conf := conf_high \<rparr>,
     consume_rule0\<lparr> cn_object := any_object\<lparr> om_contains := [''nats'', ''connection'', ''dispatcher''], om_fold := True \<rparr>,
       cn_methods := [''subscribe''],
       cn_topic := no_topic\<lparr> ts_args := [0] \<rparr>,
       cn_loose := True,
       cn_conf := conf_heuristic \<rparr>]"

definition cs_broker_recv :: object_match where
  "cs_broker_recv = any_object\<lparr> om_contains := [''channel'', ''rabbit'', ''amqp'', ''bus'', ''broker'', ''sqs'', ''sns'', ''queue'', ''topic'', ''publisher'', ''producer'', ''sender'', ''servicebus''], om_fold := True \<rparr>"

definition cs_broker_produce :: "produce_rule list" where
  "cs_broker_produce =
    [produce_rule0\<lparr> pr_methods := [''BasicPublish'', ''BasicPublishAsync''],
       pr_topic := no_topic\<lparr> ts_kwargs := [''routingKey'', ''exchange''], ts_args := [1, 0] \<rparr>,
       pr_conf := conf_high \<rparr>,
     produce_rule0\<lparr> pr_object := any_object\<lparr> om_contains := [''sqs'', ''sns''], om_fold := True \<rparr>,
       pr_methods := [''SendMessageAsync'', ''SendMessage'', ''PublishAsync'', ''Publish''],
       pr_topic := no_topic\<lparr> ts_kwargs := [''QueueUrl'', ''TopicArn''], ts_args := [0], ts_ref := True \<rparr>,
       pr_conf := conf_high \<rparr>,
     produce_rule0\<lparr> pr_object := cs_broker_recv,
       pr_methods := [''CreateSender''],
       pr_topic := no_topic\<lparr> ts_args := [0] \<rparr>,
       pr_conf := conf_heuristic \<rparr>]"

definition cs_broker_consume :: "consume_rule list" where
  "cs_broker_consume =
    [consume_rule0\<lparr> cn_methods := [''BasicConsume'', ''BasicConsumeAsync''],
       cn_topic := no_topic\<lparr> ts_kwargs := [''queue''], ts_args := [0] \<rparr>,
       cn_conf := conf_high \<rparr>,
     consume_rule0\<lparr> cn_object := any_object\<lparr> om_contains := [''sqs''], om_fold := True \<rparr>,
       cn_methods := [''ReceiveMessageAsync'', ''ReceiveMessage''],
       cn_topic := no_topic\<lparr> ts_kwargs := [''QueueUrl''], ts_args := [0], ts_ref := True \<rparr>,
       cn_conf := conf_high \<rparr>,
     consume_rule0\<lparr> cn_object := cs_broker_recv,
       cn_methods := [''CreateProcessor'', ''CreateReceiver''],
       cn_topic := no_topic\<lparr> ts_args := [0] \<rparr>,
       cn_conf := conf_heuristic \<rparr>]"

definition ts_broker_recv :: object_match where
  "ts_broker_recv = any_object\<lparr> om_contains := [''channel'', ''rabbit'', ''amqp'', ''sqs'', ''sns'', ''nats'', ''redis'', ''pubsub'', ''broker'', ''bus'', ''client'', ''publisher'', ''producer''], om_fold := True \<rparr>"

definition ts_broker_produce :: "produce_rule list" where
  "ts_broker_produce =
    [produce_rule0\<lparr> pr_object := ts_broker_recv,
       pr_methods := [''publish''],
       pr_topic := no_topic\<lparr> ts_args := [1, 0] \<rparr>,
       pr_loose := True,
       pr_conf := conf_high \<rparr>,
     produce_rule0\<lparr> pr_methods := [''sendToQueue''],
       pr_topic := no_topic\<lparr> ts_args := [0] \<rparr>,
       pr_conf := conf_high \<rparr>,
     produce_rule0\<lparr> pr_methods := [''sendMessage'', ''sendMessageBatch''],
       pr_topic := no_topic\<lparr> ts_fields := [''QueueUrl'', ''QueueName''], ts_ref := True \<rparr>,
       pr_loose := True,
       pr_conf := conf_high \<rparr>,
     produce_rule0\<lparr> pr_object := any_object\<lparr> om_contains := [''pubsub''], om_fold := True \<rparr>,
       pr_methods := [''topic''],
       pr_topic := no_topic\<lparr> ts_args := [0] \<rparr>,
       pr_loose := True,
       pr_conf := conf_heuristic \<rparr>,
     produce_rule0\<lparr> pr_object := ts_broker_recv,
       pr_methods := [''emit''],
       pr_topic := no_topic\<lparr> ts_args := [0] \<rparr>,
       pr_loose := True,
       pr_conf := conf_heuristic \<rparr>,
     produce_rule0\<lparr> pr_object := any_object\<lparr> om_contains := [''redis''], om_fold := True \<rparr>,
       pr_methods := [''xadd''],
       pr_topic := no_topic\<lparr> ts_args := [0] \<rparr>,
       pr_conf := conf_high \<rparr>]"

definition ts_broker_consume :: "consume_rule list" where
  "ts_broker_consume =
    [consume_rule0\<lparr> cn_object := ts_broker_recv,
       cn_methods := [''consume''],
       cn_topic := no_topic\<lparr> ts_args := [0] \<rparr>,
       cn_loose := True,
       cn_conf := conf_high \<rparr>,
     consume_rule0\<lparr> cn_methods := [''receiveMessage''],
       cn_topic := no_topic\<lparr> ts_fields := [''QueueUrl'', ''QueueName''], ts_ref := True \<rparr>,
       cn_loose := True,
       cn_conf := conf_high \<rparr>,
     consume_rule0\<lparr> cn_object := any_object\<lparr> om_contains := [''pubsub''], om_fold := True \<rparr>,
       cn_methods := [''subscription''],
       cn_topic := no_topic\<lparr> ts_args := [0], ts_ref := True \<rparr>,
       cn_loose := True,
       cn_conf := conf_heuristic \<rparr>,
     consume_rule0\<lparr> cn_object := any_object\<lparr> om_contains := [''redis''], om_fold := True \<rparr>,
       cn_methods := [''xreadgroup'', ''xread''],
       cn_topic := no_topic\<lparr> ts_args := [4, 0] \<rparr>,
       cn_loose := True,
       cn_conf := conf_heuristic \<rparr>]"


definition jvm_listener_annotations :: "(string \<times> string list) list" where
  "jvm_listener_annotations =
    [(''KafkaListener'', [''topics'', ''topicPattern'']), (''RabbitListener'', [''queues'', ''queuesToDeclare'']), (''StreamListener'', []),
     (''JmsListener'', [''destination'']), (''SqsListener'', [''value'', ''queueNames'']), (''ServiceActivator'', [''inputChannel'']),
     (''NatsListener'', [''subject'', ''subjects'']), (''PulsarListener'', [''topics''])]"

definition go_message_field_methods :: "string list" where
  "go_message_field_methods =
    [''SendMessage'', ''SendMessageBatch'', ''SendMessageWithContext'', ''Publish'', ''PublishWithContext'', ''PublishBatch'',
     ''XAdd'', ''XReadGroup'', ''XRead'', ''ReceiveMessage'', ''ReceiveMessageWithContext'']"

section \<open>The rules of a language\<close>

definition go_detectors :: detector_set where
  "go_detectors =
    \<lparr> ds_http = [http_rule0\<lparr> hr_object := any_object\<lparr> om_exact := [''http'', ''client''], om_suffix := [''Client''] \<rparr>,
         hr_methods := [(''Get'', ''GET''), (''Post'', ''POST''), (''Head'', ''HEAD''), (''PostForm'', ''POST'')], hr_conf := conf_cross_file \<rparr>],
      ds_produce = go_broker_produce,
      ds_consume = consume_rule0\<lparr> cn_methods := [''SubscribeTopics''], cn_topic_arg_list := True, cn_conf := conf_high \<rparr> # go_broker_consume,
      ds_broker = True \<rparr>"

definition csharp_detectors :: detector_set where
  "csharp_detectors =
    \<lparr> ds_http = [http_rule0\<lparr> hr_object := any_object\<lparr> om_contains := [''client'', ''http''], om_fold := True \<rparr>,
         hr_methods := [(''GetAsync'', ''GET''), (''GetStringAsync'', ''GET''), (''GetFromJsonAsync'', ''GET''), (''GetByteArrayAsync'', ''GET''),
           (''GetStreamAsync'', ''GET''), (''PostAsync'', ''POST''), (''PostAsJsonAsync'', ''POST''), (''PutAsync'', ''PUT''), (''PutAsJsonAsync'', ''PUT''),
           (''DeleteAsync'', ''DELETE''), (''DeleteFromJsonAsync'', ''DELETE''), (''PatchAsync'', ''PATCH''), (''PatchAsJsonAsync'', ''PATCH'')],
         hr_relative_url := True, hr_conf := conf_cross_file \<rparr>],
      ds_produce = produce_rule0\<lparr> pr_methods := [''Produce'', ''ProduceAsync''], pr_conf := conf_high \<rparr> # cs_broker_produce,
      ds_consume = consume_rule0\<lparr> cn_methods := [''Subscribe''], cn_loose := True, cn_conf := conf_high \<rparr> # cs_broker_consume,
      ds_broker = True \<rparr>"

definition java_http_client_match :: object_match where
  "java_http_client_match = any_object\<lparr> om_contains := [''resttemplate'', ''restoperations'', ''restclient'', ''webclient'', ''httpclient''], om_fold := True \<rparr>"

definition java_detectors :: detector_set where
  "java_detectors =
    \<lparr> ds_http =
        [http_rule0\<lparr> hr_methods := [(''getForObject'', ''GET''), (''getForEntity'', ''GET''), (''postForObject'', ''POST''), (''postForEntity'', ''POST''),
           (''postForLocation'', ''POST'')], hr_relative_url := True, hr_conf := conf_cross_file \<rparr>,
         http_rule0\<lparr> hr_methods := [(''exchange'', ''ANY''), (''execute'', ''ANY'')], hr_method_arg := 1, hr_loose := True, hr_conf := conf_cross_file \<rparr>,
         http_rule0\<lparr> hr_object := java_http_client_match, hr_recv_type := java_http_client_match,
           hr_methods := [(''put'', ''PUT''), (''delete'', ''DELETE'')], hr_conf := conf_cross_file \<rparr>],
      ds_produce = produce_rule0\<lparr> pr_object := any_object\<lparr> om_contains := [''kafka''], om_fold := True \<rparr>, pr_methods := [''send''], pr_conf := conf_high \<rparr> # jvm_broker_produce,
      ds_consume = jvm_broker_consume,
      ds_broker = True \<rparr>"

definition kt_detectors :: detector_set where
  "kt_detectors = java_detectors"

definition py_http_methods :: texts where
  "py_http_methods = [(''get'', ''GET''), (''post'', ''POST''), (''put'', ''PUT''), (''delete'', ''DELETE''), (''patch'', ''PATCH''),
     (''head'', ''HEAD''), (''options'', ''OPTIONS'')]"

definition py_http_client_object :: object_match where
  "py_http_client_object = any_object\<lparr> om_exact := [''requests'', ''httpx''], om_contains := [''client'', ''session''], om_fold := True \<rparr>"

definition py_http_client_no_session :: object_match where
  "py_http_client_no_session = any_object\<lparr> om_exact := [''requests'', ''httpx''], om_contains := [''client''], om_fold := True \<rparr>"

definition py_detectors :: detector_set where
  "py_detectors =
    \<lparr> ds_http = [http_rule0\<lparr> hr_object := py_http_client_object, hr_methods := py_http_methods, hr_relative_url := True, hr_conf := conf_cross_file \<rparr>],
      ds_produce = produce_rule0\<lparr> pr_methods := [''send'', ''produce'', ''send_and_wait''], pr_needs_broker := True, pr_conf := conf_high \<rparr> # py_broker_produce,
      ds_consume = [consume_rule0\<lparr> cn_methods := [''subscribe''], cn_topic_arg_list := True, cn_needs_broker := True, cn_conf := conf_high \<rparr>,
        consume_rule0\<lparr> cn_methods := [''KafkaConsumer'', ''AIOKafkaConsumer''], cn_conf := conf_high \<rparr>] @ py_broker_consume,
      ds_broker = True \<rparr>"

definition py_http_no_session_rule :: http_client_rule where
  "py_http_no_session_rule =
     http_rule0\<lparr> hr_object := py_http_client_no_session, hr_methods := py_http_methods, hr_relative_url := True, hr_conf := conf_cross_file \<rparr>"

definition py_detectors_orm :: detector_set where
  "py_detectors_orm = py_detectors\<lparr> ds_http := [py_http_no_session_rule] \<rparr>"

definition py_detectors_for :: "file_ctx \<Rightarrow> detector_set \<times> object_match" where
  "py_detectors_for fc =
     (if has_sqlalchemy fc then (py_detectors_orm, py_http_client_no_session) else (py_detectors, py_http_client_object))"

definition ts_http_methods :: texts where
  "ts_http_methods = py_http_methods @ [(''all'', ''ANY'')]"

definition ts_detectors :: detector_set where
  "ts_detectors =
    \<lparr> ds_http =
        [http_rule0\<lparr> hr_object := any_object\<lparr> om_contains := [''axios'', ''http''] \<rparr>, hr_methods := ts_http_methods, hr_conf := conf_cross_file \<rparr>,
         http_rule0\<lparr> hr_object := any_object\<lparr> om_exact := [''ky'', ''got'', ''superagent''] \<rparr>, hr_methods := ts_http_methods, hr_conf := conf_cross_file \<rparr>,
         http_rule0\<lparr> hr_methods := [(''fetch'', ''GET'')], hr_method_field := ''method'', hr_conf := conf_cross_file \<rparr>,
         http_rule0\<lparr> hr_object := any_object\<lparr> om_exact := [[]], om_contains := [''axios'', ''http'', ''helpers'', ''client''], om_fold := True \<rparr>,
           hr_methods := [(''axios'', ''GET''), (''request'', ''GET''), (''httpRequest'', ''GET''), (''requestWithAuthentication'', ''GET''),
             (''httpRequestWithAuthentication'', ''GET''), (''requestOAuth1'', ''GET''), (''requestOAuth2'', ''GET'')],
           hr_url_from_fields := True, hr_method_field := ''method'', hr_conf := conf_cross_file \<rparr>],
      ds_produce = produce_rule0\<lparr> pr_methods := [''send''], pr_topic_field := ''topic'', pr_omit_args := True, pr_loose := True, pr_conf := conf_high \<rparr> # ts_broker_produce,
      ds_consume = consume_rule0\<lparr> cn_methods := [''subscribe''], cn_topics_fields := [''topic'', ''topics''], cn_loose := True, cn_conf := conf_high \<rparr> # ts_broker_consume,
      ds_broker = True \<rparr>"

section \<open>Events as destinations\<close>

definition event_publish_verbs :: "string list" where
  "event_publish_verbs = [''Publish'', ''PublishAsync'', ''PublishThroughEventBusAsync'', ''Send'', ''SendAsync'', ''Dispatch'', ''DispatchAsync'', ''AddAndSaveEventAsync'']"

definition event_send_verbs :: "string list" where
  "event_send_verbs = [''Send'', ''SendAsync'']"

definition event_dispatcher_markers :: "string list" where
  "event_dispatcher_markers = [''mediator'', ''messenger'', ''bus'', ''broker'', ''publisher'', ''dispatcher'', ''queue'', ''eventservice'', ''integrationevent'']"

definition event_publish_receiver_ok :: "string \<Rightarrow> string \<Rightarrow> string \<Rightarrow> bool" where
  "event_publish_receiver_ok nm object recv_type \<longleftrightarrow>
     (if nm \<notin> set event_send_verbs then True
      else contains_any_fold object event_dispatcher_markers \<or> contains_any_fold recv_type event_dispatcher_markers)"

definition event_handler_interfaces :: "string list" where
  "event_handler_interfaces = [''IIntegrationEventHandler'', ''IEventHandler'', ''IConsumer'', ''IMessageHandler'', ''IHandleMessages'', ''IMessageConsumer'']"

definition event_type_suffixes :: "string list" where
  "event_type_suffixes = [''IntegrationEvent'', ''Event'', ''Message'', ''Command'', ''Notification'']"

definition event_base_types :: "string list" where
  "event_base_types = [''IntegrationEvent'', ''Event'', ''Message'', ''Command'', ''Notification'', ''DomainEvent'', ''IEvent'', ''IMessage'', ''INotification'', ''object'']"

definition event_topic_name :: "string \<Rightarrow> string" where
  "event_topic_name typ =
     (let t = last_component (trim_generic_args typ) in
      if t = [] \<or> t \<in> set event_base_types then []
      else if list_ex (\<lambda>suf. length t > length suf \<and> has_suffix_fold t suf) event_type_suffixes then t else [])"

definition generic_topic_verbs :: texts where
  "generic_topic_verbs =
    [(''addsubscription'', ''consumes''), (''addconsumer'', ''consumes''), (''addsubscriber'', ''consumes''), (''addeventhandler'', ''consumes''),
     (''addmessagehandler'', ''consumes''), (''addhandler'', ''consumes''), (''subscribe'', ''consumes''), (''subscribeasync'', ''consumes''),
     (''consume'', ''consumes''), (''consumeasync'', ''consumes''), (''register'', ''consumes''), (''registerhandler'', ''consumes''),
     (''registerconsumer'', ''consumes''), (''handle'', ''consumes''),
     (''publish'', ''produces''), (''publishasync'', ''produces''), (''send'', ''produces''), (''sendasync'', ''produces''),
     (''dispatch'', ''produces''), (''dispatchasync'', ''produces''), (''enqueue'', ''produces'')]"

definition generic_handler_suffixes :: "string list" where
  "generic_handler_suffixes = [''Handler'', ''Consumer'', ''Listener'', ''Subscriber'', ''Receiver'', ''Worker'']"

definition see_type_arg :: "string \<times> string \<Rightarrow> string \<Rightarrow> string \<times> string" where
  "see_type_arg th arg =
     (case th of (topic, handler) \<Rightarrow>
        if topic = [] \<and> event_topic_name arg \<noteq> [] then (event_topic_name arg, handler)
        else if handler = [] \<and> has_any_suffix_fold (last_component (trim_generic_args arg)) generic_handler_suffixes
        then (topic, last_component (trim_generic_args arg))
        else (topic, handler))"

definition generic_topic_contract :: "string \<Rightarrow> string list \<Rightarrow> (string \<times> string \<times> string) option" where
  "generic_topic_contract nm type_args =
     (case map_of generic_topic_verbs (to_lower nm) of
        None \<Rightarrow> None
      | Some kd \<Rightarrow>
          if length type_args = 0 then None
          else let (topic, handler) = foldl see_type_arg ([], []) type_args
            in if topic = [] then None else Some (kd, topic, handler))"

section \<open>Classes of generated services\<close>

definition java_grpc_service_from_base :: "string \<Rightarrow> string" where
  "java_grpc_service_from_base superclass =
     (let base = trim_generic_args (trim_space (trim_prefix (trim_space superclass) ''extends''));
          nm = last_component base
      in case cut_suffix nm ''ImplBase'' of
           None \<Rightarrow> []
         | Some stem \<Rightarrow>
             if stem = [] then []
             else let qualifier = last_component (trim_suffix base (''.'' @ nm)) in
               if qualifier = base then stem
               else case cut_suffix qualifier ''Grpc'' of
                 Some svc \<Rightarrow> if svc \<noteq> [] then svc else stem
               | None \<Rightarrow> stem)"

end
