(* ===== verification/Ast_Schema.thy ===== *)
theory Ast_Schema
  imports Ast_Wrappers
begin

text \<open>
  The parsers that need no syntax tree: SQL migrations and the statements inside string literals
  (\<open>internal/index/ast/lang_sql.go\<close>), protocol definitions (\<open>internal/index/ast/lang_proto.go\<close>) and
  configuration files (\<open>internal/index/ast/lang_config.go\<close>). The hash of a text is a parameter, as are the YAML
  and JSON decoders, whose result is the document below.
\<close>

type_synonym hasher = "string \<Rightarrow> string"

definition line_unit :: "hasher \<Rightarrow> int \<Rightarrow> string \<Rightarrow> string \<Rightarrow> string \<Rightarrow> string \<Rightarrow> string \<Rightarrow> parsed_unit" where
  "line_unit h line_no kd nm qualified signature hashed =
     \<lparr> pu_kind = kd, pu_name = nm, pu_qualified = qualified, pu_signature = signature, pu_doc = [], pu_start_line = line_no + 1,
       pu_end_line = line_no + 1, pu_start_byte = 0, pu_end_byte = 0, pu_hash = h hashed, pu_detected_by = [] \<rparr>"

definition lines_of :: "string \<Rightarrow> (nat \<times> string) list" where
  "lines_of content = enumerate 0 (split_on (CHR 0x0A) content)"

definition strip_comment :: "string \<Rightarrow> string \<Rightarrow> string" where
  "strip_comment mark raw =
     (let line = trim_space raw in
      case find_at mark line of Some i \<Rightarrow> trim_space (take i line) | None \<Rightarrow> line)"

section \<open>SQL\<close>

definition name_start :: re where "name_start = Class False False ((95, 95) # ascii_letters)"
definition name_char :: re where "name_char = Class False False ((95, 95) # ascii_letters @ digit_class)"
definition dotted_char :: re where "dotted_char = Class False False ((95, 95) # (46, 46) # ascii_letters @ digit_class)"
definition re_quote :: re where "re_quote = opt (one_of quotes)"
definition table_group :: re where "table_group = Capture 1 (Concat name_start (star dotted_char))"

definition re_create_table :: re where
  "re_create_table = ignore_case (seqs [BeginText, spaces0, lit ''CREATE'', spaces, lit ''TABLE'', spaces,
     opt (seqs [lit ''IF'', spaces, lit ''NOT'', spaces, lit ''EXISTS'', spaces]), re_quote, table_group])"

definition re_alter_add :: re where
  "re_alter_add = ignore_case (seqs [BeginText, spaces0, lit ''ALTER'', spaces, lit ''TABLE'', spaces, re_quote, table_group, re_quote, spaces,
     lit ''ADD'', spaces, opt (Concat (lit ''COLUMN'') spaces), re_quote, Capture 2 (Concat name_start (star name_char)), re_quote, spaces0,
     Capture 3 (star not_space)])"

definition sql_constraint_keywords :: "string list" where
  "sql_constraint_keywords = [''PRIMARY'', ''FOREIGN'', ''UNIQUE'', ''CONSTRAINT'', ''KEY'', ''INDEX'', ''CHECK'', ''LIKE'']"

definition sql_table_name :: "string \<Rightarrow> string" where
  "sql_table_name raw =
     join_with ''.'' (filter (\<lambda>p. p \<noteq> []) (map (\<lambda>p. to_lower (trim_space (trim_set (quotes @ ''[]'') p))) (split_on (CHR ''.'') raw)))"

record sql_state =
  sq_units :: "parsed_unit list"
  sq_table :: string
  sq_start :: nat

definition sql_add :: "hasher \<Rightarrow> nat \<Rightarrow> string \<Rightarrow> string \<Rightarrow> string \<Rightarrow> string \<Rightarrow> sql_state \<Rightarrow> sql_state" where
  "sql_add h i kd nm qualified signature st =
     st\<lparr> sq_units := sq_units st @ [line_unit h (int i) kd nm qualified signature (qualified @ signature)] \<rparr>"

definition sql_close :: "nat \<Rightarrow> sql_state \<Rightarrow> sql_state" where
  "sql_close i st =
     st\<lparr> sq_units := map (\<lambda>u. if pu_kind u = ''db_table'' \<and> pu_name u = sq_table st \<and> pu_start_line u = int (sq_start st) + 1
                              then u\<lparr> pu_end_line := int i + 1 \<rparr> else u) (sq_units st),
         sq_table := [] \<rparr>"

definition sql_column :: "hasher \<Rightarrow> nat \<Rightarrow> string \<Rightarrow> sql_state \<Rightarrow> sql_state" where
  "sql_column h i line st =
     (case Go_Strings.fields (trim_suffix line '','') of
        [] \<Rightarrow> st
      | f # fs \<Rightarrow>
          let nm = trim_set quotes f in
          if to_upper nm \<in> set sql_constraint_keywords \<or> has_prefix nm ''('' then st
          else if \<not> is_ident_like nm then st
          else sql_add h i ''db_column'' (to_lower nm) (''db:'' @ sq_table st @ ''.'' @ to_lower nm) (case fs of [] \<Rightarrow> [] | t # _ \<Rightarrow> t) st)"

definition sql_line :: "hasher \<Rightarrow> sql_state \<Rightarrow> nat \<times> string \<Rightarrow> sql_state" where
  "sql_line h st il =
     (case il of (i, raw) \<Rightarrow>
        let line = strip_comment ''--'' raw in
        if line = [] then st
        else case find_submatch re_create_table line of
          Some g \<Rightarrow>
            let table = sql_table_name (g 1) in
            sql_add h i ''db_table'' table (''db:'' @ table) [] (st\<lparr> sq_table := table, sq_start := i \<rparr>)
        | None \<Rightarrow>
            (case find_submatch re_alter_add line of
               Some g \<Rightarrow>
                 let table = sql_table_name (g 1); col = to_lower (g 2) in
                 sql_add h i ''db_column'' col (''db:'' @ table @ ''.'' @ col) (g 3) st
             | None \<Rightarrow>
                 if sq_table st = [] then st
                 else if has_prefix line '')'' then sql_close i st
                 else sql_column h i line st))"

definition sql_parse :: "hasher \<Rightarrow> string \<Rightarrow> parsed_unit list" where
  "sql_parse h content = sq_units (foldl (sql_line h) \<lparr> sq_units = [], sq_table = [], sq_start = 0 \<rparr> (lines_of content))"

section \<open>Statements in literals\<close>

definition re_insert :: re where
  "re_insert = ignore_case (seqs [lit ''INSERT'', spaces, lit ''INTO'', spaces, re_quote, table_group, re_quote, spaces0,
     opt (seqs [lit ''('', Capture 2 (star (none_of '')'')), lit '')''])])"

definition re_update :: re where
  "re_update = ignore_case (seqs [lit ''UPDATE'', spaces, re_quote, table_group, re_quote, spaces, lit ''SET'', spaces, Capture 2 (star (none_of '';''))])"

definition re_delete :: re where
  "re_delete = ignore_case (seqs [lit ''DELETE'', spaces, lit ''FROM'', spaces, re_quote, table_group])"

definition re_select :: re where
  "re_select = ignore_case (seqs [alts [lit ''FROM'', lit ''JOIN''], spaces, re_quote, table_group])"

definition sql_statements :: texts where
  "sql_statements = [(''INSERT '', '' INTO ''), (''UPDATE '', '' SET ''), (''DELETE '', '' FROM ''), (''SELECT '', '' FROM ''), (''WITH '', '' AS ('')]"

definition sql_statement_start :: "string \<Rightarrow> bool" where
  "sql_statement_start upper \<longleftrightarrow>
     (let s = join_with '' '' (Go_Strings.fields (trim_left (\<lambda>c. c \<in> set [CHR '' '', CHR 0x09, CHR 0x0D, CHR 0x0A, CHR ''('']) upper)) in
      case find (\<lambda>st. has_prefix s (fst st)) sql_statements of Some st \<Rightarrow> contains s (snd st) | None \<Rightarrow> False)"

definition insert_columns :: "string \<Rightarrow> texts" where
  "insert_columns cols =
     foldl (\<lambda>m col. let col = to_lower (trim_space (trim_set quotes col)) in
              if col \<noteq> [] \<and> is_ident_like col then AList.update col col m else m) [] (split_on (CHR '','') cols)"

definition update_columns :: "string \<Rightarrow> texts" where
  "update_columns assigns =
     foldl (\<lambda>m a. case index_where (\<lambda>c. c = CHR ''='') a of
              None \<Rightarrow> m
            | Some i \<Rightarrow>
                if i = 0 then m
                else let col = to_lower (trim_space (trim_set quotes (take i a))) in
                  if is_ident_like col then AList.update col col m else m) [] (split_on (CHR '','') assigns)"

definition sql_edge :: "int \<Rightarrow> int \<Rightarrow> string list \<Rightarrow> string \<Rightarrow> string \<Rightarrow> texts \<Rightarrow> file_ctx \<Rightarrow> file_ctx" where
  "sql_edge src line args kd table flds fc =
     add_edge src kd (mk_db (sql_table_name table)) line conf_high (Some (no_meta\<lparr> sm_args := args, sm_fields := flds \<rparr>)) fc"

text \<open>One literal: the file written to, whether it opens like a statement, whether it gave an edge.\<close>

definition sql_literal :: "int \<Rightarrow> int \<Rightarrow> string list \<Rightarrow> file_ctx \<times> bool \<times> bool \<Rightarrow> string \<Rightarrow> file_ctx \<times> bool \<times> bool" where
  "sql_literal src line args acc arg =
     (case acc of (fc, candidate, emitted) \<Rightarrow>
        (case unquote arg of
           None \<Rightarrow> acc
         | Some literal \<Rightarrow>
             let upper = to_upper literal in
             if \<not> contains upper ''INSERT'' \<and> \<not> contains upper ''UPDATE'' \<and> \<not> contains upper ''DELETE'' \<and> \<not> contains upper ''SELECT'' then acc
             else let candidate = (candidate \<or> sql_statement_start upper) in
               case find_submatch re_insert literal of
                 Some g \<Rightarrow> (sql_edge src line args ''writes_to'' (g 1) (insert_columns (g 2)) fc, candidate, True)
               | None \<Rightarrow>
                   (case find_submatch re_update literal of
                      Some g \<Rightarrow> (sql_edge src line args ''writes_to'' (g 1) (update_columns (g 2)) fc, candidate, True)
                    | None \<Rightarrow>
                        (case find_submatch re_delete literal of
                           Some g \<Rightarrow> (sql_edge src line args ''writes_to'' (g 1) [] fc, candidate, True)
                         | None \<Rightarrow>
                             if contains upper ''SELECT'' then
                               let tables = find_all_submatch re_select literal in
                               (foldl (\<lambda>fc g. sql_edge src line args ''reads_from'' (g 1) [] fc) fc tables, candidate, emitted \<or> tables \<noteq> [])
                             else (fc, candidate, emitted)))))"

definition sql_edges_from_args :: "int \<Rightarrow> int \<Rightarrow> string list \<Rightarrow> file_ctx \<Rightarrow> file_ctx \<times> bool" where
  "sql_edges_from_args src line args fc =
     (if src < 0 then (fc, False)
      else let (fc, candidate, emitted) = foldl (sql_literal src line args) (fc, False, False) args
        in (if candidate \<or> emitted then contract_site ''db'' emitted fc else fc, emitted))"

section \<open>Protocol definitions\<close>

datatype scope_kind = ServiceScope | MessageScope | EnumScope | RPCScope

record proto_scope =
  sc_kind :: scope_kind
  sc_name :: string
  sc_idx :: int
  sc_depth :: int

record proto_state =
  ps_fc :: file_ctx
  ps_pkg :: string
  ps_stack :: "proto_scope list"
  ps_depth :: int
  ps_rpc :: int
  ps_rpc_depth :: int

definition prefixed :: "string \<Rightarrow> string \<Rightarrow> string" where
  "prefixed pkg nm = (if pkg = [] then nm else pkg @ ''.'' @ nm)"

definition qualified_msg :: "string \<Rightarrow> string \<Rightarrow> string" where
  "qualified_msg pkg nm = ''proto:'' @ prefixed pkg nm"

definition ident_after :: "string \<Rightarrow> string \<Rightarrow> string" where
  "ident_after line prefix = takeWhile (\<lambda>c. is_word_byte c \<or> c = CHR ''.'') (trim_space (trim_prefix line prefix))"

text \<open>The text between the next parentheses at or after a position, and the position behind them.\<close>

definition extract_parens :: "string \<Rightarrow> nat \<Rightarrow> (string \<times> nat) option" where
  "extract_parens s pos =
     (case index_where (\<lambda>c. c = CHR ''('') (drop pos s) of
        None \<Rightarrow> None
      | Some k \<Rightarrow>
          let lo = pos + k in
          case index_where (\<lambda>c. c = CHR '')'') (drop lo s) of
            None \<Rightarrow> None
          | Some e \<Rightarrow> Some (trim_space (trim_prefix (trim_space (take (e - 1) (drop (lo + 1) s))) ''stream ''), lo + e + 1))"

definition parse_rpc :: "string \<Rightarrow> string \<times> string \<times> string" where
  "parse_rpc line =
     (let rest = trim_space (trim_prefix line ''rpc '') in
      case index_where (\<lambda>c. c \<in> set '' ('') rest of
        None \<Rightarrow> ([], [], [])
      | Some i \<Rightarrow>
          (case extract_parens rest i of
             None \<Rightarrow> (take i rest, [], [])
           | Some (req, next) \<Rightarrow>
               (take i rest, req, case extract_parens rest next of Some (resp, _) \<Rightarrow> resp | None \<Rightarrow> [])))"

definition parse_field :: "string \<Rightarrow> (string \<times> string) option" where
  "parse_field line =
     (if has_prefix line ''option '' \<or> has_prefix line ''reserved '' \<or> has_prefix line ''oneof '' then None
      else case index_where (\<lambda>c. c = CHR ''='') line of
        None \<Rightarrow> None
      | Some eq \<Rightarrow>
          let fs = Go_Strings.fields (trim_space (take eq line)) in
          if length fs < 2 then None
          else let fs = (if hd fs \<in> {''repeated'', ''optional'', ''required''} then tl fs else fs) in
            if length fs < 2 then None
            else if \<not> is_ident_like (last fs) then None
            else Some (join_with '' '' (butlast fs), last fs))"

definition gateway_verbs :: "string list" where
  "gateway_verbs = [''get'', ''put'', ''post'', ''delete'', ''patch'']"

definition re_gateway_binding :: re where
  "re_gateway_binding = seqs [WordBoundary, Capture 1 (alts (map lit gateway_verbs)), spaces0, lit '':'', spaces0,
     lit [CHR 0x22], Capture 2 (plus (none_of [CHR 0x22])), lit [CHR 0x22]]"

definition proto_add :: "hasher \<Rightarrow> nat \<Rightarrow> string \<Rightarrow> string \<Rightarrow> string \<Rightarrow> string \<Rightarrow> file_ctx \<Rightarrow> file_ctx \<times> int" where
  "proto_add h i kd nm qualified signature fc =
     (fc\<lparr> fc_units := fc_units fc @ [line_unit h (int i) kd nm qualified signature (qualified @ signature)] \<rparr>, int (length (fc_units fc)))"

definition gateway_route :: "hasher \<Rightarrow> nat \<Rightarrow> string \<Rightarrow> file_ctx \<Rightarrow> (nat \<Rightarrow> string) \<Rightarrow> file_ctx" where
  "gateway_route h i rpc fc g =
     (let meth = to_upper (g 1); path = g 2 in
      add_edge (int (length (fc_units fc))) ''handled_by'' rpc (int i + 1) conf_high None
        (fc\<lparr> fc_units := fc_units fc @ [line_unit h (int i) ''http_route'' (meth @ '' '' @ path) (route_key meth path) (''path:'' @ path)
               (''gateway:'' @ meth @ '' '' @ path)] \<rparr>))"

definition add_gateway_routes :: "hasher \<Rightarrow> string \<Rightarrow> nat \<Rightarrow> int \<Rightarrow> file_ctx \<Rightarrow> file_ctx" where
  "add_gateway_routes h line i rpc fc =
     (if rpc < 0 \<or> rpc \<ge> int (length (fc_units fc)) then fc
      else foldl (gateway_route h i (pu_name (fc_units fc ! nat rpc))) fc (find_all_submatch re_gateway_binding line))"

definition open_binding :: "string \<Rightarrow> proto_state \<Rightarrow> proto_state" where
  "open_binding line st =
     (if contains line ''google.api.http'' \<or> contains line ''additional_bindings''
      then st\<lparr> ps_rpc := (case find (\<lambda>s. sc_kind s = RPCScope) (ps_stack st) of Some s \<Rightarrow> sc_idx s | None \<Rightarrow> - 1), ps_rpc_depth := ps_depth st \<rparr>
      else st)"

definition push_scope :: "scope_kind \<Rightarrow> string \<Rightarrow> int \<Rightarrow> proto_state \<Rightarrow> proto_state" where
  "push_scope kd nm idx st =
     st\<lparr> ps_stack := \<lparr> sc_kind = kd, sc_name = nm, sc_idx = idx, sc_depth = ps_depth st + 1 \<rparr> # ps_stack st \<rparr>"

definition top_is :: "scope_kind \<Rightarrow> proto_state \<Rightarrow> bool" where
  "top_is kd st \<longleftrightarrow> ps_stack st \<noteq> [] \<and> sc_kind (hd (ps_stack st)) = kd"

definition proto_service :: "hasher \<Rightarrow> nat \<Rightarrow> string \<Rightarrow> proto_state \<Rightarrow> proto_state" where
  "proto_service h i line st =
     (let nm = ident_after line ''service '' in
      if nm = [] then st
      else let (fc, idx) = proto_add h i ''proto_service'' nm (''grpc:'' @ prefixed (ps_pkg st) nm) [] (ps_fc st)
        in push_scope ServiceScope nm idx (st\<lparr> ps_fc := fc \<rparr>))"

definition proto_message :: "hasher \<Rightarrow> nat \<Rightarrow> string \<Rightarrow> proto_state \<Rightarrow> proto_state" where
  "proto_message h i line st =
     (let nm = ident_after line ''message '' in
      if nm = [] then st
      else let full = (if top_is MessageScope st then sc_name (hd (ps_stack st)) @ ''.'' @ nm else nm);
               (fc, idx) = proto_add h i ''proto_message'' nm (qualified_msg (ps_pkg st) full) [] (ps_fc st)
        in push_scope MessageScope full idx (st\<lparr> ps_fc := fc \<rparr>))"

definition proto_rpc :: "hasher \<Rightarrow> nat \<Rightarrow> string \<Rightarrow> proto_state \<Rightarrow> proto_state" where
  "proto_rpc h i line st =
     (if \<not> top_is ServiceScope st then st
      else let (nm, req, resp) = parse_rpc line in
        if nm = [] then st
        else let q = ''grpc:'' @ prefixed (ps_pkg st) (sc_name (hd (ps_stack st))) @ ''/'' @ nm;
                 (fc, idx) = proto_add h i ''rpc_method'' nm q (''rpc '' @ nm @ ''('' @ req @ '') returns ('' @ resp @ '')'') (ps_fc st);
                 fc = (if req \<noteq> [] then add_edge idx ''rpc_request'' (qualified_msg (ps_pkg st) req) (int i + 1) conf_exact None fc else fc);
                 fc = (if resp \<noteq> [] then add_edge idx ''rpc_response'' (qualified_msg (ps_pkg st) resp) (int i + 1) conf_exact None fc else fc);
                 st = st\<lparr> ps_fc := fc \<rparr>
          in if contains line ''{'' then push_scope RPCScope nm idx st else st)"

definition proto_field :: "hasher \<Rightarrow> nat \<Rightarrow> string \<Rightarrow> proto_state \<Rightarrow> proto_state" where
  "proto_field h i line st =
     (if \<not> top_is MessageScope st then st
      else case parse_field line of
        None \<Rightarrow> st
      | Some (typ, nm) \<Rightarrow>
          st\<lparr> ps_fc := fst (proto_add h i ''proto_field'' nm (qualified_msg (ps_pkg st) (sc_name (hd (ps_stack st))) @ ''.'' @ nm) typ (ps_fc st)) \<rparr>)"

definition proto_statement :: "hasher \<Rightarrow> nat \<Rightarrow> string \<Rightarrow> proto_state \<Rightarrow> proto_state" where
  "proto_statement h i line st =
     (if has_prefix line ''package '' then st\<lparr> ps_pkg := trim_suffix (trim_space (trim_prefix line ''package '')) '';'' \<rparr>
      else if has_prefix line ''service '' then proto_service h i line st
      else if has_prefix line ''message '' then proto_message h i line st
      else if has_prefix line ''enum '' then
        (let nm = ident_after line ''enum '' in if nm \<noteq> [] then push_scope EnumScope nm (- 1) st else st)
      else if has_prefix line ''rpc '' then proto_rpc h i line st
      else if has_prefix line ''}'' then st
      else proto_field h i line st)"

fun close_scopes :: "nat \<Rightarrow> int \<Rightarrow> proto_scope list \<Rightarrow> parsed_unit list \<Rightarrow> proto_scope list \<times> parsed_unit list" where
  "close_scopes i depth [] us = ([], us)"
| "close_scopes i depth (s # ss) us =
     (if depth < sc_depth s
      then close_scopes i depth ss (if sc_idx s \<ge> 0 then us[nat (sc_idx s) := (us ! nat (sc_idx s))\<lparr> pu_end_line := int i + 1 \<rparr>] else us)
      else (s # ss, us))"

definition balance :: "nat \<Rightarrow> string \<Rightarrow> proto_state \<Rightarrow> proto_state" where
  "balance i line st =
     (let opens = int (count_byte (CHR ''{'') line); closes = int (count_byte (CHR ''}'') line) in
      if opens = 0 \<and> closes = 0 then st
      else let depth = ps_depth st + (opens - closes);
               (stack, us) = close_scopes i depth (ps_stack st) (fc_units (ps_fc st));
               st = st\<lparr> ps_depth := depth, ps_stack := stack, ps_fc := (ps_fc st)\<lparr> fc_units := us \<rparr> \<rparr>
        in if ps_rpc st \<ge> 0 \<and> depth \<le> ps_rpc_depth st then st\<lparr> ps_rpc := - 1 \<rparr> else st)"

definition proto_line :: "hasher \<Rightarrow> proto_state \<Rightarrow> nat \<times> string \<Rightarrow> proto_state" where
  "proto_line h st il =
     (case il of (i, raw) \<Rightarrow>
        let line = strip_comment ''//'' raw in
        if line = [] then st
        else let st = open_binding line st;
                 st = (if ps_rpc st \<ge> 0 then st\<lparr> ps_fc := add_gateway_routes h line i (ps_rpc st) (ps_fc st) \<rparr> else st)
          in balance i line (proto_statement h i line st))"

definition new_proto :: "string \<Rightarrow> string \<Rightarrow> proto_state" where
  "new_proto path content =
     \<lparr> ps_fc = new_file path [] content None, ps_pkg = [], ps_stack = [], ps_depth = 0, ps_rpc = - 1, ps_rpc_depth = 0 \<rparr>"

definition proto_parse :: "hasher \<Rightarrow> string \<Rightarrow> string \<Rightarrow> parsed_unit list \<times> parsed_edge list" where
  "proto_parse h path content =
     (let fc = ps_fc (foldl (proto_line h) (new_proto path content) (lines_of content)) in (fc_units fc, fc_edges fc))"

end
