(* ===== verification/Ast_Config.thy ===== *)
theory Ast_Config
  imports Ast_Schema
begin

text \<open>
  Configuration files as contract units (\<open>internal/index/ast/lang_config.go\<close>): flattened keys, the routes of an
  OpenAPI document and the channels of an AsyncAPI document. A decoded document is a tree whose maps list
  their entries in the order Go happens to iterate over them; a scalar that is not a string holds the text
  \<open>fmt.Sprint\<close> gives it.
\<close>

section \<open>Documents\<close>

datatype config_doc =
    DNull
  | DString string
  | DScalar string
  | DList "config_doc list"
  | DMap "(string \<times> config_doc) list"

definition max_config_keys :: nat where "max_config_keys = 500"

definition join_key :: "string \<Rightarrow> string \<Rightarrow> string" where
  "join_key prefix key = (if prefix = [] then key else prefix @ ''.'' @ key)"

definition put_leaf :: "string \<Rightarrow> string \<Rightarrow> texts \<Rightarrow> texts" where
  "put_leaf prefix v out = (if prefix \<noteq> [] then AList.update prefix v out else out)"

fun flatten :: "string \<Rightarrow> config_doc \<Rightarrow> texts \<Rightarrow> texts"
and flatten_entries :: "string \<Rightarrow> (string \<times> config_doc) list \<Rightarrow> texts \<Rightarrow> texts"
and flatten_items :: "string \<Rightarrow> nat \<Rightarrow> config_doc list \<Rightarrow> texts \<Rightarrow> texts" where
  "flatten prefix v out =
     (if length out > max_config_keys then out
      else case v of
        DNull \<Rightarrow> out
      | DString s \<Rightarrow> put_leaf prefix s out
      | DScalar s \<Rightarrow> put_leaf prefix s out
      | DList vs \<Rightarrow> flatten_items prefix 0 vs out
      | DMap kvs \<Rightarrow> flatten_entries prefix kvs out)"
| "flatten_entries prefix [] out = out"
| "flatten_entries prefix ((k, v) # kvs) out = flatten_entries prefix kvs (flatten (join_key prefix k) v out)"
| "flatten_items prefix i [] out = out"
| "flatten_items prefix i (v # vs) out = flatten_items prefix (Suc i) vs (flatten (join_key prefix (dec_nat i)) v out)"

fun as_string_map :: "config_doc option \<Rightarrow> (string \<times> config_doc) list option" where
  "as_string_map (Some (DMap kvs)) = Some kvs"
| "as_string_map _ = None"

definition present :: "(string \<times> config_doc) list \<Rightarrow> string \<Rightarrow> bool" where
  "present m k \<longleftrightarrow> (case map_of m k of None \<Rightarrow> False | Some v \<Rightarrow> v \<noteq> DNull)"

definition string_of :: "(string \<times> config_doc) list \<Rightarrow> string \<Rightarrow> string" where
  "string_of m k = (case map_of m k of Some (DString s) \<Rightarrow> s | _ \<Rightarrow> [])"

section \<open>OpenAPI\<close>

definition open_api_methods :: "string list" where
  "open_api_methods = [''get'', ''post'', ''put'', ''delete'', ''patch'', ''head'', ''options'']"

fun server_base :: "config_doc list \<Rightarrow> string" where
  "server_base [] = []"
| "server_base (s # ss) =
     (case as_string_map (Some s) of
        None \<Rightarrow> server_base ss
      | Some m \<Rightarrow>
          let raw = string_of m ''url'' in
          if raw = [] then server_base ss
          else let path = snd (split_url (apply_placeholder_defaults raw)) in
            if contains path ''{'' then server_base ss
            else let p = trim_set ''/'' path in if p \<noteq> [] then p else server_base ss)"

definition open_api_base_path :: "(string \<times> config_doc) list \<Rightarrow> string" where
  "open_api_base_path m =
     (case map_of m ''servers'' of
        Some (DList ss) \<Rightarrow> server_base ss
      | _ \<Rightarrow> trim_set ''/'' (string_of m ''basePath''))"

definition operation_unit :: "hasher \<Rightarrow> string \<Rightarrow> string \<Rightarrow> (string \<times> config_doc) list \<Rightarrow> parsed_unit" where
  "operation_unit h m path oper =
     (line_unit h 0 ''http_route'' (m @ '' '' @ path) (route_key m path) (''path:'' @ path) (''openapi:'' @ m @ '' '' @ path))
       \<lparr> pu_doc := string_of oper ''summary'' \<rparr>"

definition path_units :: "hasher \<Rightarrow> string \<Rightarrow> string \<times> config_doc \<Rightarrow> parsed_unit list" where
  "path_units h base kv =
     (case as_string_map (Some (snd kv)) of
        None \<Rightarrow> []
      | Some ops \<Rightarrow>
          List.map_filter (\<lambda>meth. map_option (operation_unit h (to_upper meth) (join_path base (fst kv))) (as_string_map (map_of ops meth)))
            open_api_methods)"

definition open_api_routes :: "hasher \<Rightarrow> config_doc \<Rightarrow> parsed_unit list" where
  "open_api_routes h doc =
     (case as_string_map (Some doc) of
        None \<Rightarrow> []
      | Some m \<Rightarrow>
          if \<not> present m ''openapi'' \<and> \<not> present m ''swagger'' then []
          else case as_string_map (map_of m ''paths'') of
            None \<Rightarrow> []
          | Some paths \<Rightarrow> concat (map (path_units h (open_api_base_path m)) (sort_key fst paths)))"

section \<open>AsyncAPI\<close>

definition channel_unit :: "hasher \<Rightarrow> string \<times> string \<times> string list \<Rightarrow> parsed_unit" where
  "channel_unit h ci =
     (case ci of (nm, description, ops) \<Rightarrow>
        (line_unit h 0 ''topic_channel'' nm (mk_topic nm) (if length ops > 0 then ''ops:'' @ join_with '','' ops else []) (''asyncapi:'' @ nm))
          \<lparr> pu_doc := description \<rparr>)"

definition channel_info :: "string \<times> config_doc \<Rightarrow> (string \<times> string \<times> string list) option" where
  "channel_info kv =
     map_option (\<lambda>ch. (if string_of ch ''address'' \<noteq> [] then string_of ch ''address'' else fst kv,
                       string_of ch ''description'', filter (present ch) [''publish'', ''subscribe'']))
       (as_string_map (Some (snd kv)))"

text \<open>No list is Go's nil, which says that the document is not an AsyncAPI document.\<close>

definition async_api_channels :: "hasher \<Rightarrow> config_doc \<Rightarrow> parsed_unit list option" where
  "async_api_channels h doc =
     (case as_string_map (Some doc) of
        None \<Rightarrow> None
      | Some m \<Rightarrow>
          if \<not> present m ''asyncapi'' \<or> map_of m ''asyncapi'' = Some (DString []) then None
          else let channels = (case as_string_map (map_of m ''channels'') of Some cs \<Rightarrow> cs | None \<Rightarrow> [])
            in Some (map (channel_unit h) (sort_key fst (List.map_filter channel_info channels))))"

section \<open>Files\<close>

definition property_line :: "texts \<Rightarrow> string \<Rightarrow> texts" where
  "property_line values raw =
     (let line = trim_space raw in
      if line = [] \<or> has_prefix line ''#'' \<or> has_prefix line ''!'' then values
      else case index_where (\<lambda>c. c \<in> set ''=:'') line of
        None \<Rightarrow> values
      | Some sep \<Rightarrow>
          if sep = 0 then values
          else let key = trim_space (take sep line); val = trim_space (drop (sep + 1) line)
            in if key \<noteq> [] \<and> val \<noteq> [] then AList.update key val values else values)"

definition config_unit :: "hasher \<Rightarrow> string \<times> string \<Rightarrow> parsed_unit" where
  "config_unit h kv =
     (let v = apply_placeholder_defaults (snd kv) in
      line_unit h 0 ''config_key'' (last_component (fst kv)) (mk_config (fst kv)) v (fst kv @ ''='' @ v))"

definition config_units :: "hasher \<Rightarrow> texts \<Rightarrow> parsed_unit list" where
  "config_units h values = map (config_unit h) (take max_config_keys (sort_key fst values))"

definition document_units :: "hasher \<Rightarrow> config_doc \<Rightarrow> parsed_unit list" where
  "document_units h doc =
     (let routes = open_api_routes h doc in
      if routes \<noteq> [] then routes
      else case async_api_channels h doc of
        Some channels \<Rightarrow> channels
      | None \<Rightarrow> config_units h (flatten [] doc []))"

text \<open>A decoder answers with no document when the content is not one; such a file is skipped.\<close>

definition config_parse ::
    "hasher \<Rightarrow> (string \<Rightarrow> config_doc option) \<Rightarrow> (string \<Rightarrow> config_doc option) \<Rightarrow> string \<Rightarrow> string \<Rightarrow> string + parsed_unit list" where
  "config_parse h yaml json lang content =
     (if lang = ''yaml'' then Inr (case yaml content of None \<Rightarrow> [] | Some doc \<Rightarrow> document_units h doc)
      else if lang = ''json'' then Inr (case json content of None \<Rightarrow> [] | Some doc \<Rightarrow> document_units h doc)
      else if lang = ''properties'' then Inr (config_units h (foldl property_line [] (split_on (CHR 0x0A) content)))
      else Inl (''unsupported config language: '' @ lang))"

end
