(* ===== verification/Ast_Indexer.thy ===== *)
theory Ast_Indexer
  imports Ast_Brokers Ast_Config Index_Pass
begin

text \<open>
  The AST indexer (\<open>internal/index/ast/indexer.go\<close>): parsing the files of a batch, joining the facts of a
  directory, and writing a window of files to the store. Parsers, the reading of a file and the encoding of
  metadata are parameters; the workers parse each file by itself, so their order does not show. The groups of
  a language come in the order of its first file, one of the orders Go may iterate a map in.
\<close>

section \<open>Requests and results\<close>

record ast_source =
  as_path :: string
  as_hash :: string
  as_language :: string
  as_content :: "string option"

record file_facts =
  ff_units :: "parsed_unit list"
  ff_edges :: "parsed_edge list"
  ff_wrappers :: "wrapper list"
  ff_coverage :: "counters option"
  ff_tables :: "pending_table list"
  ff_consts :: texts

type_synonym parser = "string \<Rightarrow> string \<Rightarrow> string + file_facts"

record parse_result =
  ps_units :: "parsed_unit list"
  ps_edges :: "parsed_edge list"
  ps_wrappers :: "wrapper list"
  ps_coverage :: "counters option"
  ps_tables :: "pending_table list"
  ps_consts :: texts
  ps_err :: "string option"

record ast_result =
  ar_indexed :: int
  ar_skipped :: int
  ar_failed :: int
  ar_errors :: "string list"
  ar_coverage :: "counters option"

definition failed_parse :: "string \<Rightarrow> parse_result" where
  "failed_parse err = \<lparr> ps_units = [], ps_edges = [], ps_wrappers = [], ps_coverage = None, ps_tables = [], ps_consts = [], ps_err = Some err \<rparr>"

definition max_parse_workers :: int where "max_parse_workers = 32"

definition parse_workers :: "int \<Rightarrow> int \<Rightarrow> int" where
  "parse_workers cpus n =
     (let n = (if n \<le> 0 then cpus else n); n = (if n > max_parse_workers then max_parse_workers else n) in if n < 1 then 1 else n)"

definition parse_file :: "(string \<Rightarrow> string + string) \<Rightarrow> parser \<Rightarrow> ast_source \<Rightarrow> parse_result" where
  "parse_file read parse f =
     (case (case as_content f of Some c \<Rightarrow> Inr c | None \<Rightarrow> read (as_path f)) of
        Inl err \<Rightarrow> failed_parse err
      | Inr content \<Rightarrow>
          (case parse (as_path f) content of
             Inl err \<Rightarrow> failed_parse (''parse: '' @ err)
           | Inr ff \<Rightarrow> \<lparr> ps_units = ff_units ff, ps_edges = ff_edges ff, ps_wrappers = ff_wrappers ff, ps_coverage = ff_coverage ff,
               ps_tables = ff_tables ff, ps_consts = ff_consts ff, ps_err = None \<rparr>))"

definition parse_files :: "(string \<Rightarrow> string + string) \<Rightarrow> parser \<Rightarrow> ast_source list \<Rightarrow> parse_result list" where
  "parse_files read parse files = map (parse_file read parse) files"

definition group_by_language :: "ast_source list \<Rightarrow> (string \<times> ast_source list) list" where
  "group_by_language files = map (\<lambda>l. (l, filter (\<lambda>f. as_language f = l) files)) (rev (remdups (rev (map as_language files))))"

section \<open>Facts of a directory\<close>

definition dir_wrappers :: "(string \<rightharpoonup> wrapper_table) \<Rightarrow> wrapper \<Rightarrow> (string \<rightharpoonup> wrapper_table)" where
  "dir_wrappers m w = m(w_dir w \<mapsto> first_wrapper (case m (w_dir w) of None \<Rightarrow> Map.empty | Some t \<Rightarrow> t) w)"

definition link_file_wrappers :: "(string \<rightharpoonup> wrapper_table) \<Rightarrow> ast_source \<times> parse_result \<Rightarrow> parse_result" where
  "link_file_wrappers by_dir fp =
     (case fp of (f, p) \<Rightarrow>
        (case by_dir (path_dir (as_path f)) of
           None \<Rightarrow> p
         | Some tab \<Rightarrow>
             if ps_err p \<noteq> None then p
             else let (added, es) = link_wrapper_calls (ps_edges p) tab;
                      p = p\<lparr> ps_edges := es \<rparr>
               in if added = 0 then p else p\<lparr> ps_coverage := bump ''http'' (int added) (int added) (ps_coverage p) \<rparr>))"

definition link_package_wrappers :: "ast_source list \<Rightarrow> parse_result list \<Rightarrow> parse_result list" where
  "link_package_wrappers files parsed =
     (let by_dir = foldl dir_wrappers Map.empty (concat (map ps_wrappers parsed))
      in map (link_file_wrappers by_dir) (zip files parsed))"

definition dir_consts :: "(string \<rightharpoonup> (string \<rightharpoonup> string)) \<Rightarrow> ast_source \<times> parse_result \<Rightarrow> (string \<rightharpoonup> (string \<rightharpoonup> string))" where
  "dir_consts m fp =
     (case fp of (f, p) \<Rightarrow>
        if length (ps_consts p) = 0 then m
        else let dir = path_dir (as_path f); names = (case m dir of None \<Rightarrow> Map.empty | Some t \<Rightarrow> t)
          in m(dir \<mapsto> foldl (\<lambda>names kv. if names (fst kv) = None then names(fst kv \<mapsto> snd kv) else names) names (ps_consts p)))"

definition table_edge :: "(string \<rightharpoonup> string) \<Rightarrow> pending_table \<Rightarrow> parsed_edge option" where
  "table_edge names t =
     (let tbl = sql_table_name (case names (pt_ident t) of None \<Rightarrow> [] | Some v \<Rightarrow> v) in
      if tbl = [] then None
      else Some \<lparr> pe_src = pt_src t, pe_kind = pt_kind t, pe_name = mk_db tbl, pe_line = pt_line t, pe_conf = conf_cross_file,
        pe_meta = Some (no_meta\<lparr> sm_args := pt_args t, sm_base_conf := conf_cross_file \<rparr>) \<rparr>)"

definition link_file_tables :: "(string \<rightharpoonup> (string \<rightharpoonup> string)) \<Rightarrow> ast_source \<times> parse_result \<Rightarrow> parse_result" where
  "link_file_tables by_dir fp =
     (case fp of (f, p) \<Rightarrow>
        if ps_err p \<noteq> None \<or> length (ps_tables p) = 0 then p
        else let names = (case by_dir (path_dir (as_path f)) of None \<Rightarrow> Map.empty | Some t \<Rightarrow> t);
                 new = List.map_filter (table_edge names) (ps_tables p);
                 p = p\<lparr> ps_edges := ps_edges p @ new \<rparr>
          in if length new = 0 then p else p\<lparr> ps_coverage := bump ''db'' 0 (int (length new)) (ps_coverage p) \<rparr>)"

definition link_package_tables :: "ast_source list \<Rightarrow> parse_result list \<Rightarrow> parse_result list" where
  "link_package_tables files parsed =
     (let by_dir = foldl dir_consts Map.empty (zip files parsed) in map (link_file_tables by_dir) (zip files parsed))"

definition add_file_coverage :: "counters option \<Rightarrow> counters option \<Rightarrow> counters option" where
  "add_file_coverage acc counts =
     (case counts of
        None \<Rightarrow> acc
      | Some m \<Rightarrow>
          if length m = 0 then acc
          else Some (foldl (\<lambda>acc kc. AList.update (fst kc) (add_counts (count_of acc (fst kc)) (snd kc)) acc) (case acc of None \<Rightarrow> [] | Some a \<Rightarrow> a) m))"

section \<open>Writing a window\<close>

text \<open>
  The faults of a store: whether a transaction over these paths or rows is refused, and with what message. A
  refused transaction leaves no trace; in the code the rows it was given may keep an id.
\<close>

record ast_faults =
  af_delete_units :: "string list \<Rightarrow> string option"
  af_delete_edges :: "string list \<Rightarrow> string option"
  af_units :: "ast_unit list \<Rightarrow> string option"
  af_edges :: "edge list \<Rightarrow> bool"

record ast_codec =
  ac_edge :: "site_meta option \<Rightarrow> string"
  ac_unit :: "string \<Rightarrow> string"

record window_file =
  wf_path :: string
  wf_units :: "ast_unit list"
  wf_edges :: "parsed_edge list"

definition store_window :: nat where "store_window = 256"

definition unit_row :: "ast_codec \<Rightarrow> string \<Rightarrow> string \<Rightarrow> string \<Rightarrow> parsed_unit \<Rightarrow> ast_unit" where
  "unit_row c repo path lang u =
     \<lparr> u_id = 0, u_repo = repo, u_file = path, u_language = lang, u_kind = pu_kind u, u_name = pu_name u, u_qualified = pu_qualified u,
       u_parent = 0, u_start_line = pu_start_line u, u_end_line = pu_end_line u, u_start_byte = pu_start_byte u, u_end_byte = pu_end_byte u,
       u_signature = pu_signature u, u_doc = pu_doc u, u_hash = pu_hash u, u_meta = ac_unit c (pu_detected_by u) \<rparr>"

text \<open>The id a source names: that of the unit it marks, or the number it spells; 0 when there is none.\<close>

definition int_or_zero :: "string \<Rightarrow> nat" where
  "int_or_zero s = (if s \<noteq> [] \<and> list_all is_digit s \<and> dec_value s < 2 ^ 63 then dec_value s else 0)"

definition edge_source :: "ast_unit list \<Rightarrow> parsed_edge \<Rightarrow> nat option" where
  "edge_source us e =
     (let i = resolve_mark (pe_src e) in
      if i \<ge> 0 then (if i \<ge> int (length us) then None else Some (u_id (us ! nat i)))
      else if pe_src e = [] then None else Some (int_or_zero (pe_src e)))"

definition edge_row :: "ast_codec \<Rightarrow> string \<Rightarrow> string \<Rightarrow> ast_unit list \<Rightarrow> parsed_edge \<Rightarrow> edge option" where
  "edge_row c repo path us e =
     map_option (\<lambda>src. \<lparr> e_id = 0, e_repo = repo, e_src = src, e_dst = 0, e_kind = pe_kind e, e_dst_name = pe_name e, e_file = path,
        e_line = pe_line e, e_dst_repo = [], e_conf = pe_conf e, e_meta = ac_edge c (pe_meta e) \<rparr>) (edge_source us e)"

definition resolve_edge_sources :: "ast_codec \<Rightarrow> string \<Rightarrow> window_file \<Rightarrow> edge list" where
  "resolve_edge_sources c repo w = List.map_filter (edge_row c repo (wf_path w) (wf_units w)) (wf_edges w)"

definition delete_window :: "ast_faults \<Rightarrow> string \<Rightarrow> string list \<Rightarrow> gdb \<Rightarrow> gdb \<times> string option" where
  "delete_window flt repo paths d =
     (if length paths = 0 then (d, None)
      else case af_delete_units flt paths of
        Some err \<Rightarrow> (d, Some err)
      | None \<Rightarrow>
          let d = delete_ast_units_by_files repo paths d in
          case af_delete_edges flt paths of
            Some err \<Rightarrow> (d, Some err)
          | None \<Rightarrow> (delete_edges_by_files repo paths d, None))"

definition fail_file :: "string \<Rightarrow> string \<Rightarrow> ast_result \<Rightarrow> ast_result" where
  "fail_file path msg r = r\<lparr> ar_failed := ar_failed r + 1, ar_errors := ar_errors r @ [path @ '': '' @ msg] \<rparr>"

text \<open>The files that parsed, as rows of the window; the others are failures.\<close>

fun window_files :: "ast_codec \<Rightarrow> string \<Rightarrow> string \<Rightarrow> (ast_source \<times> parse_result) list \<Rightarrow> ast_result \<Rightarrow> window_file list \<times> ast_result" where
  "window_files c repo lang [] r = ([], r)"
| "window_files c repo lang ((f, p) # fps) r =
     (case ps_err p of
        Some err \<Rightarrow> window_files c repo lang fps (fail_file (as_path f) err r)
      | None \<Rightarrow>
          let (ws, r) = window_files c repo lang fps r
          in (\<lparr> wf_path = as_path f, wf_units = map (unit_row c repo (as_path f) lang) (ps_units p), wf_edges = ps_edges p \<rparr> # ws, r))"

fun retry_deletes :: "ast_faults \<Rightarrow> string \<Rightarrow> window_file list \<Rightarrow> gdb \<Rightarrow> ast_result \<Rightarrow> window_file list \<times> gdb \<times> ast_result" where
  "retry_deletes flt repo [] d r = ([], d, r)"
| "retry_deletes flt repo (w # ws) d r =
     (case delete_window flt repo [wf_path w] d of
        (d, Some err) \<Rightarrow> retry_deletes flt repo ws d (fail_file (wf_path w) (''delete old data: '' @ err) r)
      | (d, None) \<Rightarrow> (case retry_deletes flt repo ws d r of (kept, d, r) \<Rightarrow> (w # kept, d, r)))"

definition clear_window :: "ast_faults \<Rightarrow> string \<Rightarrow> window_file list \<Rightarrow> gdb \<Rightarrow> ast_result \<Rightarrow> window_file list \<times> gdb \<times> ast_result" where
  "clear_window flt repo ws d r =
     (case delete_window flt repo (map wf_path ws) d of
        (d, None) \<Rightarrow> (ws, d, r)
      | (d, Some err) \<Rightarrow> retry_deletes flt repo ws d r)"

text \<open>Rows handed out to the files they came from, in order.\<close>

fun hand_out :: "ast_unit list \<Rightarrow> window_file list \<Rightarrow> window_file list" where
  "hand_out us [] = []"
| "hand_out us (w # ws) = w\<lparr> wf_units := take (length (wf_units w)) us \<rparr> # hand_out (drop (length (wf_units w)) us) ws"

fun retry_units :: "ast_faults \<Rightarrow> window_file list \<Rightarrow> gdb \<Rightarrow> ast_result \<Rightarrow> window_file list \<times> gdb \<times> ast_result" where
  "retry_units flt [] d r = ([], d, r)"
| "retry_units flt (w # ws) d r =
     (case af_units flt (wf_units w) of
        Some err \<Rightarrow> retry_units flt ws d (fail_file (wf_path w) (''store units: '' @ err) r)
      | None \<Rightarrow>
          let (d, us) = batch_store_ast_units (wf_units w) d
          in case retry_units flt ws d r of (kept, d, r) \<Rightarrow> (w\<lparr> wf_units := us \<rparr> # kept, d, r))"

definition put_units :: "ast_faults \<Rightarrow> window_file list \<Rightarrow> gdb \<Rightarrow> ast_result \<Rightarrow> window_file list \<times> gdb \<times> ast_result" where
  "put_units flt ws d r =
     (let us = concat (map wf_units ws) in
      case af_units flt us of
        None \<Rightarrow> (let (d, us) = batch_store_ast_units us d in (hand_out us ws, d, r))
      | Some err \<Rightarrow> retry_units flt ws d r)"

fun retry_edges :: "ast_faults \<Rightarrow> edge list list \<Rightarrow> gdb \<Rightarrow> gdb" where
  "retry_edges flt [] d = d"
| "retry_edges flt (es # ess) d = retry_edges flt ess (if af_edges flt es then d else fst (batch_store_edges es d))"

definition put_edges :: "ast_faults \<Rightarrow> edge list list \<Rightarrow> gdb \<Rightarrow> gdb" where
  "put_edges flt ess d =
     (if af_edges flt (concat ess) then retry_edges flt ess d else fst (batch_store_edges (concat ess) d))"

definition store_files ::
    "ast_faults \<Rightarrow> ast_codec \<Rightarrow> string \<Rightarrow> string \<Rightarrow> (ast_source \<times> parse_result) list \<Rightarrow> gdb \<times> ast_result \<Rightarrow> gdb \<times> ast_result" where
  "store_files flt c repo lang fps dr =
     (case dr of (d, r) \<Rightarrow>
        let (ws, r) = window_files c repo lang fps r;
            (ws, d, r) = clear_window flt repo ws d r;
            (ws, d, r) = put_units flt ws d r
        in (put_edges flt (map (resolve_edge_sources c repo) ws) d, r\<lparr> ar_indexed := ar_indexed r + int (length ws) \<rparr>))"

function store_windows ::
    "ast_faults \<Rightarrow> ast_codec \<Rightarrow> string \<Rightarrow> string \<Rightarrow> (ast_source \<times> parse_result) list \<Rightarrow> gdb \<times> ast_result \<Rightarrow> gdb \<times> ast_result" where
  "store_windows flt c repo lang fps dr =
     (if fps = [] then dr
      else store_windows flt c repo lang (drop store_window fps) (store_files flt c repo lang (take store_window fps) dr))"
  by auto
termination by (relation "measure (\<lambda>(_, _, _, _, fps, _). length fps)") (auto simp: store_window_def)

declare store_windows.simps [simp del]

section \<open>The indexer\<close>

record ast_env =
  ae_read :: "string \<Rightarrow> string + string"
  ae_parser :: "string \<rightharpoonup> parser"
  ae_faults :: ast_faults
  ae_codec :: ast_codec

definition index_language :: "ast_env \<Rightarrow> string \<Rightarrow> gdb \<times> ast_result \<Rightarrow> string \<times> ast_source list \<Rightarrow> gdb \<times> ast_result" where
  "index_language env repo dr lf =
     (case (dr, lf) of ((d, r), (lang, files)) \<Rightarrow>
        (case ae_parser env lang of
           None \<Rightarrow> (d, r\<lparr> ar_skipped := ar_skipped r + int (length files) \<rparr>)
         | Some parse \<Rightarrow>
             let parsed = parse_files (ae_read env) parse files;
                 parsed = link_package_tables files (link_package_wrappers files parsed);
                 r = r\<lparr> ar_coverage := foldl add_file_coverage (ar_coverage r) (map ps_coverage parsed) \<rparr>
             in store_windows (ae_faults env) (ae_codec env) repo lang (zip files parsed) (d, r)))"

definition new_result :: ast_result where
  "new_result = \<lparr> ar_indexed = 0, ar_skipped = 0, ar_failed = 0, ar_errors = [], ar_coverage = None \<rparr>"

definition ast_index :: "ast_env \<Rightarrow> string \<Rightarrow> ast_source list \<Rightarrow> gdb \<Rightarrow> gdb \<times> ast_result" where
  "ast_index env repo files d = foldl (index_language env repo) (d, new_result) (group_by_language files)"

definition ast_remove :: "ast_faults \<Rightarrow> string \<Rightarrow> string list \<Rightarrow> gdb \<Rightarrow> gdb \<times> string option" where
  "ast_remove flt repo paths d =
     (if length paths = 0
      then (case af_delete_units flt [] of
              Some err \<Rightarrow> (d, Some err)
            | None \<Rightarrow>
                let d = delete_ast_units_by_repo repo d in
                case af_delete_edges flt [] of Some err \<Rightarrow> (d, Some err) | None \<Rightarrow> (delete_edges_by_repo repo d, None))
      else delete_window flt repo paths d)"

end
