(* ===== verification/Ast_Facts.thy ===== *)
theory Ast_Facts
  imports Ast_Indexer
begin

text \<open>
  What a call site may add to its file: edges that are contracts, counted once for a kind; and what following
  local helpers changes.
\<close>

section \<open>A run of the rules\<close>

text \<open>A relation between states that every application of a rule keeps is kept by a run of a rule set.\<close>

locale rule_relation =
  fixes R :: "file_ctx \<times> string list \<Rightarrow> file_ctx \<times> string list \<Rightarrow> bool" and cs :: call_site and res :: resolver
  assumes refl: "R st st"
    and trans: "R a b \<Longrightarrow> R b c \<Longrightarrow> R a c"
    and produce: "apply_produce pr cs res (fst st) = (fc, claimed, emitted) \<Longrightarrow> R st (record_site ''messaging'' claimed emitted (fc, snd st))"
    and consume: "apply_consume cr cs res lst (fst st) = (fc, claimed, emitted, handled) \<Longrightarrow> R st (record_site ''messaging'' claimed emitted (fc, snd st))"
    and fallback: "broker_fallback cs res (fst st) = (fc, claimed, emitted) \<Longrightarrow> R st (record_site ''messaging'' True emitted (fc, snd st))"
    and http: "apply_http hr cs res (fst st) = (fc, claimed, emitted) \<Longrightarrow> R st (record_site ''http'' claimed emitted (fc, snd st))"
begin

lemma run_produce: "R st (fst (run_produce rs cs res st))"
proof (induction rs arbitrary: st)
  case (Cons r rs)
  obtain fc claimed emitted where ap: "apply_produce r cs res (fst st) = (fc, claimed, emitted)" by (metis prod_cases3)
  show ?case using produce [OF ap] trans [OF produce [OF ap] Cons.IH] by (cases emitted) (simp_all add: ap Let_def)
qed (simp add: refl)

lemma run_consume: "R st (fst (run_consume rs cs res lst st))"
proof (induction rs arbitrary: st)
  case (Cons r rs)
  obtain fc claimed emitted handled where ap: "apply_consume r cs res lst (fst st) = (fc, claimed, emitted, handled)" by (metis prod_cases4)
  show ?case using consume [OF ap] trans [OF consume [OF ap] Cons.IH] by (cases handled) (simp_all add: ap Let_def)
qed (simp add: refl)

lemma run_http: "R st (fst (run_http rs cs res st))"
proof (induction rs arbitrary: st)
  case (Cons r rs)
  obtain fc claimed emitted where ap: "apply_http r cs res (fst st) = (fc, claimed, emitted)" by (metis prod_cases3)
  show ?case using http [OF ap] trans [OF http [OF ap] Cons.IH] by (cases emitted) (simp_all add: ap Let_def)
qed (simp add: refl)

lemma run_fallback: "R st (fst (run_fallback enabled cs res st))"
proof -
  obtain fc claimed emitted where ap: "broker_fallback cs res (fst st) = (fc, claimed, emitted)" by (metis prod_cases3)
  show ?thesis using fallback [OF ap] by (simp add: run_fallback_def ap refl)
qed

lemma run_detectors: "\<exists>ks. R (fc, []) (fst (run_detectors ds cs res lst fc), ks)"
proof -
  let ?l = "case lst of None \<Rightarrow> single_names res | Some l \<Rightarrow> l"
  define p where "p = run_produce (ds_produce ds) cs res (fc, [])"
  define c where "c = run_consume (ds_consume ds) cs res ?l (fst p)"
  define f where "f = run_fallback (ds_broker ds) cs res (fst c)"
  define h where "h = run_http (ds_http ds) cs res (fst f)"
  have p: "R (fc, []) (fst p)" unfolding p_def by (rule run_produce)
  have c: "R (fc, []) (fst c)" unfolding c_def by (rule trans [OF p run_consume])
  have f: "R (fc, []) (fst f)" unfolding f_def by (rule trans [OF c run_fallback])
  have h: "R (fc, []) (fst h)" unfolding h_def by (rule trans [OF f run_http])
  define x where "x = (if snd p then p else if snd c then c else if snd f then f else h)"
  have "fst (run_detectors ds cs res lst fc) = fst (fst x)"
    by (simp add: run_detectors_def Let_def x_def p_def c_def f_def h_def split_beta)
  moreover have "R (fc, []) (fst x)" using p c f h by (simp add: x_def)
  ultimately have "R (fc, []) (fst (run_detectors ds cs res lst fc), snd (fst x))" by simp
  then show ?thesis by (rule exI)
qed

end

section \<open>Edges of a call site\<close>

definition contract_edge :: "call_site \<Rightarrow> parsed_edge \<Rightarrow> bool" where
  "contract_edge cs e \<longleftrightarrow>
     pe_src e = src_mark (cs_src cs) \<and> pe_line e = cs_line cs \<and>
     (case pe_meta e of
        None \<Rightarrow> False
      | Some m \<Rightarrow>
          pe_kind e = ''http_call'' \<and> pe_name e = mk_http (sm_method m) (sm_path m) \<and> has_prefix (sm_path m) ''/'' \<and> sm_base_conf m = pe_conf e \<or>
          pe_kind e \<in> {''produces'', ''consumes''} \<and> is_kind (pe_name e) KindTopic)"

definition adds :: "call_site \<Rightarrow> file_ctx \<Rightarrow> file_ctx \<Rightarrow> bool" where
  "adds cs fc fc' \<longleftrightarrow>
     (\<exists>new. fc_edges fc' = fc_edges fc @ new \<and> (\<forall>e \<in> set new. contract_edge cs e) \<and> (cs_src cs < 0 \<longrightarrow> new = [])) \<and>
     fc_units fc' = fc_units fc"

lemma adds_refl [simp, intro]: "adds cs fc fc"
  by (auto simp: adds_def)

lemma adds_trans: "adds cs a b \<Longrightarrow> adds cs b c \<Longrightarrow> adds cs a c"
  unfolding adds_def by (elim conjE exE, intro conjI, rule_tac x = "new @ newa" in exI) auto

lemma adds_site [simp]: "adds cs fc (contract_site k b fc') \<longleftrightarrow> adds cs fc fc'"
  by (simp add: adds_def contract_site_def)

lemma adds_candidate [simp]: "adds cs fc (http_candidate u a b fc') \<longleftrightarrow> adds cs fc fc'"
  by (simp add: adds_def http_candidate_def)

lemma adds_edge:
  assumes "\<And>e. e = \<lparr> pe_src = src_mark (cs_src cs), pe_kind = kd, pe_name = dst, pe_line = cs_line cs, pe_conf = conf,
       pe_meta = with_base_conf kd conf meta \<rparr> \<Longrightarrow> contract_edge cs e"
  shows "adds cs fc (add_edge (cs_src cs) kd dst (cs_line cs) conf meta fc)"
  using assms by (auto simp: adds_def add_edge_def)

lemma url_schemes_rooted: "url_schemes ss u = Some (host, path) \<Longrightarrow> has_prefix path ''/''"
proof (induction ss)
  case (Cons s ss)
  show ?case
  proof (cases "cut_prefix u s")
    case (Some rest)
    show ?thesis
    proof (cases "index_where (\<lambda>c. c = CHR ''/'') rest")
      case (Some i)
      then have "i < length rest" "rest ! i = CHR ''/''" by (auto dest!: index_where_SomeD)
      then have "has_prefix (drop i rest) ''/''" by (metis Cons_nth_drop_Suc append_Cons append_Nil has_prefix_iff)
      then show ?thesis using Cons.prems Some \<open>cut_prefix u s = Some rest\<close> by auto
    qed (use Cons.prems Some in \<open>auto simp: has_prefix_iff\<close>)
  qed (use Cons in simp)
qed simp

lemma split_url_rooted: "split_url u = (host, path) \<Longrightarrow> has_prefix path ''/''"
proof (cases "url_schemes [''http://'', ''https://'', ''grpc://''] u")
  case (Some hp)
  moreover assume "split_url u = (host, path)"
  ultimately show ?thesis using url_schemes_rooted by (metis option.simps(5) split_url_def)
qed (auto simp: split_url_def has_prefix_iff split: if_splits simp del: url_schemes.simps)

lemma topic_edge_key_kind: "topic_edge_key t = (key, nm) \<Longrightarrow> is_kind key KindTopic"
  by (auto simp: topic_edge_key_def topic_key_def mk_topic_def is_kind_def kind_prefix_def has_prefix_iff split: prod.splits if_splits)

lemma adds_topic:
  assumes "topic_edge_key t = (key, nm)" and "kd \<in> {''produces'', ''consumes''}"
  shows "adds cs fc (add_edge (cs_src cs) kd key (cs_line cs) conf (Some m) fc)"
  by (rule adds_edge) (use assms topic_edge_key_kind [OF assms(1)] in \<open>auto simp: contract_edge_def with_base_conf_def edge_needs_base_conf_def\<close>)

lemma adds_produce: "adds cs fc (fst (apply_produce r cs res fc))"
  by (auto simp: apply_produce_def Let_def adds_topic split: prod.splits)

lemma adds_emit: "adds cs fc (emit_consumes r cs fc t)"
  by (auto simp: emit_consumes_def adds_topic split: prod.splits)

lemma adds_emits: "adds cs fc (foldl (emit_consumes r cs) fc ts)"
proof (induction ts arbitrary: fc)
  case (Cons t ts)
  have "adds cs (emit_consumes r cs fc t) (foldl (emit_consumes r cs) (emit_consumes r cs fc t) ts)" by (rule Cons.IH)
  then show ?case using adds_trans [OF adds_emit [of cs fc r t]] by simp
qed simp

lemma adds_consume: "adds cs fc (fst (apply_consume r cs res lst fc))"
  by (auto simp: apply_consume_def Let_def adds_emits adds_emit split: prod.splits)

lemma adds_fallback: "adds cs fc (fst (broker_fallback cs res fc))"
  by (auto simp: broker_fallback_def broker_direction_def Let_def adds_topic split: prod.splits option.splits)

lemma adds_http: "adds cs fc (fst (apply_http r cs res fc))"
proof -
  have "adds cs fc (add_edge (cs_src cs) ''http_call'' (route_key m path) (cs_line cs) conf (Some (no_meta\<lparr> sm_method := m, sm_path := path, sm_host := host,
      sm_args := a, sm_fields := f, sm_aliases := al \<rparr>)) fc)" if "split_url u = (host, path)" for u host path m conf a f al
    by (rule adds_edge) (use split_url_rooted [OF that] in \<open>simp add: contract_edge_def with_base_conf_def edge_needs_base_conf_def route_key_def\<close>)
  then show ?thesis by (auto simp: apply_http_def Let_def split: prod.splits option.splits)
qed

lemma adds_record: "adds cs fc (fst st) \<Longrightarrow> adds cs fc (fst (record_site k c e st))"
  by (simp add: record_site_def)

interpretation added: rule_relation "\<lambda>st st'. adds cs (fst st) (fst st')" cs res for cs res
proof unfold_locales
  show "adds cs (fst a) (fst c)" if "adds cs (fst a) (fst b)" "adds cs (fst b) (fst c)" for a b c :: "file_ctx \<times> string list"
    using that by (rule adds_trans)
  show "adds cs (fst st) (fst (record_site k claimed emitted (fc, snd st)))" if "apply_produce r cs res (fst st) = (fc, claimed, emitted)" for r st fc claimed emitted k
    using adds_produce [of cs "fst st" r res] that by (intro adds_record) simp
  show "adds cs (fst st) (fst (record_site k claimed emitted (fc, snd st)))" if "apply_consume r cs res lst (fst st) = (fc, claimed, emitted, handled)"
    for r st fc claimed emitted handled lst k using adds_consume [of cs "fst st" r res lst] that by (intro adds_record) simp
  show "adds cs (fst st) (fst (record_site k True emitted (fc, snd st)))" if "broker_fallback cs res (fst st) = (fc, claimed, emitted)"
    for st fc claimed emitted k using adds_fallback [of cs "fst st" res] that by (intro adds_record) simp
  show "adds cs (fst st) (fst (record_site k claimed emitted (fc, snd st)))" if "apply_http r cs res (fst st) = (fc, claimed, emitted)" for r st fc claimed emitted k
    using adds_http [of cs "fst st" r res] that by (intro adds_record) simp
qed simp

lemma adds_run_detectors: "adds cs fc (fst (run_detectors ds cs res lst fc))"
  using added.run_detectors [of cs fc ds res lst] by simp

section \<open>Counting\<close>

definition counts :: "file_ctx \<Rightarrow> string \<Rightarrow> coverage_counts" where
  "counts fc k = count_of (case fc_cov fc of None \<Rightarrow> new_coverage | Some m \<Rightarrow> m) k"

lemma count_of_update: "count_of (AList.update k c cov) k' = (if k' = k then c else count_of cov k')"
  by (simp add: count_of_def update_conv')

lemma counts_site:
  "counts (contract_site k b fc) k' =
     (if k' = k then \<lparr> cc_candidates = cc_candidates (counts fc k) + 1, cc_edges = cc_edges (counts fc k) + (if b then 1 else 0) \<rparr> else counts fc k')"
  by (simp add: counts_def contract_site_def bump_def Let_def count_of_update)

lemma counts_cov: "fc_cov fc' = fc_cov fc \<Longrightarrow> counts fc' = counts fc"
  by (simp add: counts_def fun_eq_iff)

lemma cov_edge [simp]: "fc_cov (add_edge u k d l c m fc) = fc_cov fc"
  by (simp add: add_edge_def)

lemma cov_candidate [simp]: "fc_cov (http_candidate u a b fc) = fc_cov fc"
  by (simp add: http_candidate_def)

lemma cov_emits: "fc_cov (foldl (emit_consumes r cs) fc ts) = fc_cov fc"
  by (induction ts arbitrary: fc) (auto simp: emit_consumes_def split: prod.splits)

lemma cov_produce: "fc_cov (fst (apply_produce r cs res fc)) = fc_cov fc"
  by (auto simp: apply_produce_def Let_def split: prod.splits)

lemma cov_consume: "fc_cov (fst (apply_consume r cs res lst fc)) = fc_cov fc"
  using cov_emits [of r cs fc "[t]" for t] by (auto simp: apply_consume_def Let_def cov_emits split: prod.splits)

lemma cov_fallback: "fc_cov (fst (broker_fallback cs res fc)) = fc_cov fc"
  by (auto simp: broker_fallback_def Let_def split: prod.splits option.splits)

lemma cov_http: "fc_cov (fst (apply_http r cs res fc)) = fc_cov fc"
  by (auto simp: apply_http_def Let_def split: prod.splits option.splits)

text \<open>The counters moved by at most one call site, which gave an edge or did not.\<close>

definition moved :: "file_ctx \<Rightarrow> file_ctx \<Rightarrow> string \<Rightarrow> int \<Rightarrow> int \<Rightarrow> bool" where
  "moved fc fc' k c e \<longleftrightarrow> cc_candidates (counts fc' k) = cc_candidates (counts fc k) + c \<and> cc_edges (counts fc' k) = cc_edges (counts fc k) + e"

definition tallied :: "file_ctx \<times> string list \<Rightarrow> file_ctx \<times> string list \<Rightarrow> bool" where
  "tallied st st' \<longleftrightarrow>
     set (snd st) \<subseteq> set (snd st') \<and>
     (\<forall>k. if k \<in> set (snd st') - set (snd st) then moved (fst st) (fst st') k 1 0 \<or> moved (fst st) (fst st') k 1 1
          else moved (fst st) (fst st') k 0 0)"

lemma tallied_refl [simp]: "tallied st st"
  by (simp add: tallied_def moved_def)

lemma moved_trans: "moved a b k c e \<Longrightarrow> moved b c' k c2 e2 \<Longrightarrow> moved a c' k (c + c2) (e + e2)"
  by (simp add: moved_def)

lemma tallied_trans:
  assumes ab: "tallied a b" and bc: "tallied b c"
  shows "tallied a c"
proof -
  have sub: "set (snd a) \<subseteq> set (snd b)" "set (snd b) \<subseteq> set (snd c)" using ab bc by (auto simp: tallied_def)
  have "if k \<in> set (snd c) - set (snd a) then moved (fst a) (fst c) k 1 0 \<or> moved (fst a) (fst c) k 1 1 else moved (fst a) (fst c) k 0 0" for k
  proof -
    have "if k \<in> set (snd b) - set (snd a) then moved (fst a) (fst b) k 1 0 \<or> moved (fst a) (fst b) k 1 1 else moved (fst a) (fst b) k 0 0"
      using ab by (simp add: tallied_def)
    moreover have "if k \<in> set (snd c) - set (snd b) then moved (fst b) (fst c) k 1 0 \<or> moved (fst b) (fst c) k 1 1 else moved (fst b) (fst c) k 0 0"
      using bc by (simp add: tallied_def)
    ultimately show ?thesis using sub moved_trans [of "fst a" "fst b" k _ _ "fst c"] by (fastforce split: if_splits)
  qed
  then show ?thesis using sub by (auto simp: tallied_def)
qed

lemma tallied_record: "fc_cov fc = fc_cov (fst st) \<Longrightarrow> tallied st (record_site k claimed emitted (fc, snd st))"
  using counts_cov [of fc "fst st"] by (auto simp: record_site_def tallied_def moved_def counts_site)

interpretation counted: rule_relation tallied cs res for cs res
proof unfold_locales
  show "tallied a c" if "tallied a b" "tallied b c" for a b c using that by (rule tallied_trans)
  show "tallied st (record_site ''messaging'' claimed emitted (fc, snd st))" if "apply_produce r cs res (fst st) = (fc, claimed, emitted)" for r st fc claimed emitted
    using cov_produce [of r cs res "fst st"] that by (intro tallied_record) simp
  show "tallied st (record_site ''messaging'' claimed emitted (fc, snd st))" if "apply_consume r cs res lst (fst st) = (fc, claimed, emitted, handled)"
    for r st fc claimed emitted handled lst using cov_consume [of r cs res lst "fst st"] that by (intro tallied_record) simp
  show "tallied st (record_site ''messaging'' True emitted (fc, snd st))" if "broker_fallback cs res (fst st) = (fc, claimed, emitted)" for st fc claimed emitted
    using cov_fallback [of cs res "fst st"] that by (intro tallied_record) simp
  show "tallied st (record_site ''http'' claimed emitted (fc, snd st))" if "apply_http r cs res (fst st) = (fc, claimed, emitted)" for r st fc claimed emitted
    using cov_http [of r cs res "fst st"] that by (intro tallied_record) simp
qed simp

definition counted_once :: "file_ctx \<Rightarrow> file_ctx \<Rightarrow> bool" where
  "counted_once fc fc' \<longleftrightarrow> (\<forall>k. \<exists>c e. 0 \<le> e \<and> e \<le> c \<and> c \<le> 1 \<and> moved fc fc' k c e)"

lemma tallied_counted_once: "tallied st st' \<Longrightarrow> counted_once (fst st) (fst st')"
  unfolding tallied_def counted_once_def by (metis (full_types) order_refl zero_le_one)

lemma counted_run_detectors: "counted_once fc (fst (run_detectors ds cs res lst fc))"
  using counted.run_detectors [of fc ds cs res lst] tallied_counted_once by fastforce

text \<open>
  C31: Edges of detected contracts: whatever rules a language has, a call site adds edges of its own unit and line
  only, keyed by the method and the rooted path of a request or by a topic; it adds none when no unit
  encloses it, and no unit ever.
\<close>

theorem detected_edges_are_contracts:
  "\<exists>new. fc_edges (fst (run_detectors ds cs res lst fc)) = fc_edges fc @ new \<and> (\<forall>e \<in> set new. contract_edge cs e) \<and>
     (cs_src cs < 0 \<longrightarrow> new = []) \<and> fc_units (fst (run_detectors ds cs res lst fc)) = fc_units fc"
  using adds_run_detectors [of cs fc ds res lst] by (auto simp: adds_def)

definition get_items :: call_site where
  "get_items = \<lparr> cs_name = ''Get'', cs_object = ''http'', cs_recv_type = [], cs_args = [CHR 0x22 # ''http://cart/items/7?full=1'' @ [CHR 0x22]],
     cs_kwargs = [], cs_fields = [], cs_aliases = [], cs_line = 12, cs_src = 0 \<rparr>"

theorem detected_edges_are_contracts_witness:
  "\<exists>new. map pe_name new = [''http:GET /items/7''] \<and> (\<forall>e \<in> set new. contract_edge get_items e)"
proof -
  let ?fc = "new_file ''shop.go'' ''go'' [] None"
  have names: "map pe_name (fc_edges (fst (run_detectors go_detectors get_items literal_only None ?fc))) = [''http:GET /items/7'']"
    by code_simp
  obtain new where new: "fc_edges (fst (run_detectors go_detectors get_items literal_only None ?fc)) = fc_edges ?fc @ new"
    "\<forall>e \<in> set new. contract_edge get_items e"
    using detected_edges_are_contracts [of go_detectors get_items literal_only None ?fc] by blast
  moreover have "fc_edges ?fc = []" by (simp add: new_file_def)
  ultimately show ?thesis using names by (intro exI [of _ new]) simp
qed

section \<open>Statements\<close>

lemma cov_sql_edge [simp]: "fc_cov (sql_edge src line args k t f fc) = fc_cov fc"
  by (simp add: sql_edge_def)

lemma cov_sql_edges: "fc_cov (foldl (\<lambda>fc g. sql_edge src line args k (t g) [] fc) fc gs) = fc_cov fc"
  by (induction gs arbitrary: fc) auto

lemma cov_sql_literal: "fc_cov (fst (sql_literal src line args acc arg)) = fc_cov (fst acc)"
  by (cases acc) (auto simp: sql_literal_def Let_def cov_sql_edges split: option.splits)

lemma cov_sql_literals: "fc_cov (fst (foldl (sql_literal src line args) acc as)) = fc_cov (fst acc)"
  by (induction as arbitrary: acc) (simp_all add: cov_sql_literal)

lemma counted_once_cov: "fc_cov fc' = fc_cov fc \<Longrightarrow> counted_once fc fc'"
  unfolding counted_once_def moved_def using counts_cov [of fc' fc] by (intro allI exI [of _ 0]) simp

lemma counted_once_site:
  assumes "fc_cov fc' = fc_cov fc"
  shows "counted_once fc (contract_site k b fc')"
proof -
  have "moved fc (contract_site k b fc') k' (if k' = k then 1 else 0) (if k' = k \<and> b then 1 else 0)" for k'
    using counts_cov [OF assms] by (simp add: moved_def counts_site)
  moreover have "0 \<le> (if k' = k \<and> b then 1 else 0 :: int) \<and> (if k' = k \<and> b then 1 else 0) \<le> (if k' = k then 1 else 0 :: int) \<and> (if k' = k then 1 else 0 :: int) \<le> 1" for k'
    by simp
  ultimately show ?thesis unfolding counted_once_def by blast
qed

lemma counted_sql: "counted_once fc (fst (sql_edges_from_args src line args fc))"
proof (cases "src < 0")
  case True
  then show ?thesis by (simp add: sql_edges_from_args_def counted_once_cov)
next
  case False
  obtain fc' candidate emitted where run: "foldl (sql_literal src line args) (fc, False, False) args = (fc', candidate, emitted)" by (metis prod_cases3)
  have "fc_cov fc' = fc_cov fc" using cov_sql_literals [of src line args "(fc, False, False)" args] by (simp add: run)
  then show ?thesis using False by (simp add: sql_edges_from_args_def run counted_once_cov counted_once_site)
qed


section \<open>Following helpers\<close>

lemma followed_kind [simp]: "pe_kind (followed_edge w e t) = ''http_call''" "site_of (followed_edge w e t) = site_of e"
  by (simp_all add: followed_edge_def site_of_def split: prod.splits)

lemma follow_kinds: "e \<in> set (follow_calls tab S es) \<Longrightarrow> pe_kind e = ''http_call''"
  by (induction tab S es rule: follow_calls.induct) (auto split: if_splits option.splits)

lemma follow_sites: "e \<in> set (follow_calls tab S es) \<Longrightarrow> site_of e \<notin> S"
  by (induction tab S es rule: follow_calls.induct) (auto split: if_splits option.splits)

lemma follow_distinct: "distinct (map site_of (follow_calls tab S es))"
proof (induction tab S es rule: follow_calls.induct)
  case (2 tab S e es)
  have "site_of e \<notin> site_of ` set (follow_calls tab (insert (site_of e) S) es)"
  proof
    assume "site_of e \<in> site_of ` set (follow_calls tab (insert (site_of e) S) es)"
    then obtain x where "x \<in> set (follow_calls tab (insert (site_of e) S) es)" "site_of x = site_of e" by force
    then show False using follow_sites [of x tab "insert (site_of e) S" es] by simp
  qed
  then show ?case using 2 by (auto split: option.splits)
qed simp

text \<open>The calls a table explains.\<close>

definition followed :: "wrapper_table \<Rightarrow> parsed_edge \<Rightarrow> bool" where
  "followed tab e \<longleftrightarrow> pe_kind e = ''call'' \<and> (\<exists>w. tab (pe_name e) = Some w \<and> wrapper_target w (edge_args e) \<noteq> None)"

lemma follow_covers: "e \<in> set es \<Longrightarrow> followed tab e \<Longrightarrow> site_of e \<in> S \<union> site_of ` set (follow_calls tab S es)"
proof (induction tab S es rule: follow_calls.induct)
  case (2 tab S x es)
  show ?case
  proof (cases "e = x")
    case True
    with 2(7) obtain w t where "pe_kind x = ''call''" "tab (pe_name x) = Some w" "wrapper_target w (edge_args x) = Some t"
      by (auto simp: followed_def)
    then show ?thesis using True by simp
  next
    case False
    then have "e \<in> set es" using 2(6) by simp
    then show ?thesis using 2(1-5) 2(7) by (auto split: option.splits)
  qed
qed simp

lemma follow_nothing: "(\<And>e. e \<in> set es \<Longrightarrow> followed tab e \<Longrightarrow> site_of e \<in> S) \<Longrightarrow> follow_calls tab S es = []"
proof (induction tab S es rule: follow_calls.induct)
  case (2 tab S e es)
  then show ?case by (auto simp: followed_def split: option.splits)
qed simp

lemma resolved_sites_append: "resolved_sites (xs @ ys) = resolved_sites xs \<union> resolved_sites ys"
  by (auto simp: resolved_sites_def)

lemma resolved_followed: "resolved_sites (follow_calls tab S es) = site_of ` set (follow_calls tab S es)"
  using follow_kinds [of _ tab S es] by (auto simp: resolved_sites_def)

lemma link_wrapper_calls_settles:
  fixes es tab
  defines "linked \<equiv> snd (link_wrapper_calls es tab)"
  shows "link_wrapper_calls linked tab = (0, linked)" and "followed tab e \<Longrightarrow> e \<in> set es \<Longrightarrow> site_of e \<in> resolved_sites linked"
proof -
  let ?new = "follow_calls tab (resolved_sites es) es"
  have linked: "linked = es @ ?new" by (simp add: linked_def link_wrapper_calls_def Let_def)
  have sites: "resolved_sites linked = resolved_sites es \<union> site_of ` set ?new"
    by (simp add: linked resolved_sites_append resolved_followed)
  then show "followed tab e \<Longrightarrow> e \<in> set es \<Longrightarrow> site_of e \<in> resolved_sites linked"
    using follow_covers [of e es tab "resolved_sites es"] by blast
  have "follow_calls tab (resolved_sites linked) linked = []"
  proof (rule follow_nothing)
    fix x assume x: "x \<in> set linked" "followed tab x"
    then have "x \<in> set es" using follow_kinds [of x tab "resolved_sites es" es] by (auto simp: linked followed_def)
    then show "site_of x \<in> resolved_sites linked" using follow_covers [of x es tab "resolved_sites es"] x(2) sites by blast
  qed
  then show "link_wrapper_calls linked tab = (0, linked)" by (simp add: link_wrapper_calls_def)
qed

text \<open>
  C34: Following helpers is done once: the pass keeps the edges it is given and adds one request for each site at
  most, every call the table explains has a request on its site afterwards, and a second run changes nothing.
\<close>

theorem helpers_are_followed_once:
  assumes "link_wrapper_calls es tab = (n, linked)"
  shows "link_wrapper_calls linked tab = (0, linked) \<and>
    (\<exists>new. linked = es @ new \<and> length new = n \<and> distinct (map site_of new) \<and> (\<forall>e \<in> set new. pe_kind e = ''http_call'' \<and> site_of e \<notin> resolved_sites es)) \<and>
    (\<forall>e \<in> set es. followed tab e \<longrightarrow> site_of e \<in> resolved_sites linked)"
proof -
  have linked: "linked = snd (link_wrapper_calls es tab)" using assms by simp
  have "linked = es @ follow_calls tab (resolved_sites es) es \<and> length (follow_calls tab (resolved_sites es) es) = n"
    using assms by (auto simp: link_wrapper_calls_def Let_def)
  then have "\<exists>new. linked = es @ new \<and> length new = n \<and> distinct (map site_of new) \<and> (\<forall>e \<in> set new. pe_kind e = ''http_call'' \<and> site_of e \<notin> resolved_sites es)"
    by (intro exI [of _ "follow_calls tab (resolved_sites es) es"]) (simp add: follow_distinct follow_kinds follow_sites)
  moreover have "link_wrapper_calls linked tab = (0, linked)" unfolding linked by (rule link_wrapper_calls_settles(1))
  moreover have "\<forall>e \<in> set es. followed tab e \<longrightarrow> site_of e \<in> resolved_sites linked"
    unfolding linked using link_wrapper_calls_settles(2) by blast
  ultimately show ?thesis by (intro conjI)
qed

definition call_of :: "string \<Rightarrow> int \<Rightarrow> string list \<Rightarrow> parsed_edge" where
  "call_of nm line args = \<lparr> pe_src = ''#1'', pe_kind = ''call'', pe_name = nm, pe_line = line, pe_conf = conf_high, pe_meta = Some (no_meta\<lparr> sm_args := args \<rparr>) \<rparr>"

definition api_helper :: wrapper where
  "api_helper = \<lparr> w_name = ''apiRequest'', w_dir = ''nodes'', w_method = [], w_path = ''/v2'', w_host = ''api.io'', w_method_param = 0, w_url_param = 1 \<rparr>"

definition api_calls :: "parsed_edge list" where
  "api_calls =
     [call_of ''apiRequest'' 3 [CHR 0x22 # ''POST'' @ [CHR 0x22], CHR 0x22 # ''/items'' @ [CHR 0x22]], call_of ''apiRequest'' 4 [''method'', ''path''],
      call_of ''log'' 5 [CHR 0x22 # ''/items'' @ [CHR 0x22]]]"

theorem helpers_are_followed_once_witness:
  "\<exists>new. snd (link_wrapper_calls api_calls [''apiRequest'' \<mapsto> api_helper]) = api_calls @ new \<and> map pe_name new = [''http:POST /v2/items''] \<and>
     link_wrapper_calls (api_calls @ new) [''apiRequest'' \<mapsto> api_helper] = (0, api_calls @ new)"
proof -
  let ?tab = "[''apiRequest'' \<mapsto> api_helper]"
  have names: "map pe_name (drop 3 (snd (link_wrapper_calls api_calls ?tab))) = [''http:POST /v2/items'']" by code_simp
  obtain n linked where run: "link_wrapper_calls api_calls ?tab = (n, linked)" by (cases "link_wrapper_calls api_calls ?tab")
  from helpers_are_followed_once [OF run] obtain new where
    new: "linked = api_calls @ new" "link_wrapper_calls linked ?tab = (0, linked)" by blast
  moreover have "length api_calls = 3" by (simp add: api_calls_def)
  ultimately show ?thesis using names run by (intro exI [of _ new]) simp
qed

end
