(* ===== verification/Ast_Window_Facts.thy ===== *)
theory Ast_Window_Facts
  imports Ast_Facts Graph_Store_Facts
begin

text \<open>
  What the AST indexer leaves in the store, and how it accounts for the files it was given.
\<close>

section \<open>Rows of a file\<close>

definition file_units :: "string \<Rightarrow> string \<Rightarrow> gdb \<Rightarrow> ast_unit list" where
  "file_units repo path d = filter (\<lambda>u. u_repo u = repo \<and> u_file u = path) (g_units d)"

definition file_edges :: "string \<Rightarrow> string \<Rightarrow> gdb \<Rightarrow> edge list" where
  "file_edges repo path d = filter (\<lambda>e. e_repo e = repo \<and> e_file e = path) (g_edges d)"

abbreviation blank_unit :: "ast_unit \<Rightarrow> ast_unit" where "blank_unit u \<equiv> u\<lparr> u_id := 0 \<rparr>"
abbreviation blank_edge :: "edge \<Rightarrow> edge" where "blank_edge e \<equiv> e\<lparr> e_id := 0 \<rparr>"

lemma stored_units:
  "batch_store_ast_units us d = (d', us') \<Longrightarrow>
     g_units d' = g_units d @ us' \<and> g_edges d' = g_edges d \<and> map blank_unit us' = map blank_unit us"
proof (induction us arbitrary: d d' us')
  case (Cons u us)
  then show ?case by (fastforce simp: Let_def split: prod.splits)
qed simp

lemma stored_edges:
  "batch_store_edges es d = (d', es') \<Longrightarrow>
     g_edges d' = g_edges d @ es' \<and> g_units d' = g_units d \<and> map blank_edge es' = map blank_edge es"
proof (induction es arbitrary: d d' es')
  case (Cons e es)
  then show ?case by (fastforce simp: Let_def split: prod.splits)
qed simp

lemma filter_concat_tagged:
  assumes "distinct (map key xs)" and "\<And>x y. x \<in> set xs \<Longrightarrow> y \<in> set (g x) \<Longrightarrow> tag y = key x" and "x \<in> set xs"
  shows "filter (\<lambda>y. tag y = key x) (concat (map g xs)) = g x"
  using assms
proof (induction xs)
  case (Cons a xs)
  have a: "filter (\<lambda>y. tag y = k) (g a) = (if key a = k then g a else [])" for k
    using Cons.prems(2) [of a] by (auto simp: filter_empty_conv intro!: filter_True)
  show ?case
  proof (cases "x = a")
    case True
    have "filter (\<lambda>y. tag y = key a) (concat (map g xs)) = []"
      using Cons.prems(1,2) by (auto simp: filter_empty_conv) (metis image_eqI)
    then show ?thesis using True a by simp
  next
    case False
    then have "x \<in> set xs" "key a \<noteq> key x" using Cons.prems(1,3) by auto
    then show ?thesis using a Cons by simp
  qed
qed simp

lemma filter_concat_untagged:
  assumes "\<And>x y. x \<in> set xs \<Longrightarrow> y \<in> set (g x) \<Longrightarrow> tag y = key x" and "k \<notin> key ` set xs"
  shows "filter (\<lambda>y. tag y = k) (concat (map g xs)) = []"
  using assms by (force simp: filter_empty_conv)

section \<open>Clearing and filling a window\<close>

definition faultless :: "ast_faults \<Rightarrow> bool" where
  "faultless flt \<longleftrightarrow> (\<forall>ps. af_delete_units flt ps = None) \<and> (\<forall>ps. af_delete_edges flt ps = None) \<and> (\<forall>us. af_units flt us = None) \<and> (\<forall>es. \<not> af_edges flt es)"

lemma units_deleted: "delete_ast_units_by_files repo paths d = units_of_files repo paths d"
proof -
  have "delete_ast_units_by_files repo paths d = each_path_chunk paths (units_of_files repo) d"
    by (simp add: delete_ast_units_by_files_def units_of_files_def [abs_def])
  then show ?thesis using file_units.each_chunk by simp
qed

lemma edges_deleted: "delete_edges_by_files repo paths d = edges_of_files repo paths d"
proof -
  have "delete_edges_by_files repo paths d = each_path_chunk paths (edges_of_files repo) d"
    by (simp add: delete_edges_by_files_def edges_of_files_def [abs_def])
  then show ?thesis using file_edges.each_chunk by simp
qed

lemma delete_window_ok:
  assumes "faultless flt" and "delete_window flt repo paths d = (d', err)"
  shows "err = None" and "g_units d' = filter (\<lambda>u. \<not> (u_repo u = repo \<and> u_file u \<in> set paths)) (g_units d)"
    and "path \<in> set paths \<Longrightarrow> file_edges repo path d' = []"
    and "r \<noteq> repo \<or> path \<notin> set paths \<Longrightarrow> map unresolved (file_edges r path d') = map unresolved (file_edges r path d)"
proof -
  show "err = None" using assms by (auto simp: faultless_def delete_window_def Let_def split: if_splits)
  have d': "d' = (if paths = [] then d else edges_of_files repo paths (units_of_files repo paths d))"
    using assms by (auto simp: faultless_def delete_window_def Let_def units_deleted edges_deleted split: if_splits)
  show "g_units d' = filter (\<lambda>u. \<not> (u_repo u = repo \<and> u_file u \<in> set paths)) (g_units d)"
    by (simp add: d' edges_of_files_def units_of_files_def Let_def delete_edges_def delete_units_def unresolve_eq)
  show "path \<in> set paths \<Longrightarrow> file_edges repo path d' = []"
    by (auto simp: d' file_edges_def edges_of_files_def delete_edges_def filter_empty_conv)
  have un: "unresolved (if b then unresolved e else e) = unresolved e" for b e by (simp add: unresolved_def)
  have keep: "e_repo (if b then unresolved e else e) = e_repo e" "e_file (if b then unresolved e else e) = e_file e" for b e
    by (simp_all add: unresolved_def)
  show "map unresolved (file_edges r path d') = map unresolved (file_edges r path d)" if "r \<noteq> repo \<or> path \<notin> set paths"
  proof (cases "paths = []")
    case False
    let ?u = "\<lambda>e. if points_at (\<lambda>u. u_repo u = repo \<and> u_file u \<in> set paths) (g_units d) e then unresolved e else e"
    have "file_edges r path d' = filter (\<lambda>e. e_repo e = r \<and> e_file e = path) (map ?u (g_edges d))"
      using False that by (auto simp: d' file_edges_def edges_of_files_def units_of_files_def Let_def delete_edges_def delete_units_def unresolve_eq intro!: filter_cong)
    also have "\<dots> = map ?u (file_edges r path d)" by (simp add: file_edges_def filter_map comp_def keep)
    finally show ?thesis by (simp add: comp_def un)
  qed (simp add: d')
qed

lemma hand_out_spec:
  assumes "map blank_unit us = map blank_unit (concat (map wf_units ws))"
  shows "concat (map wf_units (hand_out us ws)) = us"
    and "map (\<lambda>w. (wf_path w, wf_edges w, map blank_unit (wf_units w))) (hand_out us ws) = map (\<lambda>w. (wf_path w, wf_edges w, map blank_unit (wf_units w))) ws"
proof -
  have "concat (map wf_units (hand_out us ws)) = us \<and>
      map (\<lambda>w. (wf_path w, wf_edges w, map blank_unit (wf_units w))) (hand_out us ws) = map (\<lambda>w. (wf_path w, wf_edges w, map blank_unit (wf_units w))) ws"
    using assms
  proof (induction us ws rule: hand_out.induct)
    case (2 us w ws)
    let ?n = "length (wf_units w)"
    have "map blank_unit (take ?n us) = map blank_unit (wf_units w)" and rest: "map blank_unit (drop ?n us) = map blank_unit (concat (map wf_units ws))"
      using arg_cong [OF 2(2), of "take ?n"] arg_cong [OF 2(2), of "drop ?n"] by (simp_all add: take_map drop_map)
    then show ?case using 2(1) [OF rest] by simp
  qed simp
  then show "concat (map wf_units (hand_out us ws)) = us"
    and "map (\<lambda>w. (wf_path w, wf_edges w, map blank_unit (wf_units w))) (hand_out us ws) = map (\<lambda>w. (wf_path w, wf_edges w, map blank_unit (wf_units w))) ws"
    by blast+
qed

definition window_row :: "ast_codec \<Rightarrow> string \<Rightarrow> string \<Rightarrow> ast_source \<times> parse_result \<Rightarrow> window_file" where
  "window_row c repo lang fp =
     \<lparr> wf_path = as_path (fst fp), wf_units = map (unit_row c repo (as_path (fst fp)) lang) (ps_units (snd fp)), wf_edges = ps_edges (snd fp) \<rparr>"

lemma window_files_eq: "fst (window_files c repo lang fps r) = map (window_row c repo lang) (filter (\<lambda>fp. ps_err (snd fp) = None) fps)"
  by (induction c repo lang fps r rule: window_files.induct) (auto simp: window_row_def Let_def split: option.splits prod.splits)

lemma window_row_path [simp]: "wf_path (window_row c repo lang fp) = as_path (fst fp)"
  by (simp add: window_row_def)

lemma window_row_units: "u \<in> set (wf_units (window_row c repo lang fp)) \<Longrightarrow> u_repo u = repo \<and> u_file u = as_path (fst fp)"
  by (auto simp: window_row_def unit_row_def)

lemma blank_rows: "map blank_unit (wf_units (window_row c repo lang fp)) = wf_units (window_row c repo lang fp)"
  by (auto simp: window_row_def unit_row_def)

lemma blank_resolved: "map blank_edge (resolve_edge_sources c repo w) = resolve_edge_sources c repo w"
  by (auto simp: resolve_edge_sources_def List.map_filter_def edge_row_def split: option.splits)

lemma resolved_tags: "e \<in> set (resolve_edge_sources c repo w) \<Longrightarrow> e_repo e = repo \<and> e_file e = wf_path w"
  by (auto simp: resolve_edge_sources_def List.map_filter_def edge_row_def split: option.splits)

text \<open>The three stages of a window without faults: what is deleted, the units stored, the edges stored.\<close>

lemma store_files_stages:
  assumes ok: "faultless flt" and run: "store_files flt c repo lang fps (d, r) = (d', r')"
  obtains ws d1 us es where "ws = map (window_row c repo lang) (filter (\<lambda>fp. ps_err (snd fp) = None) fps)"
    and "delete_window flt repo (map wf_path ws) d = (d1, None)"
    and "map blank_unit us = map blank_unit (concat (map wf_units ws))" and "g_units d' = g_units d1 @ us"
    and "g_edges d' = g_edges d1 @ es" and "map blank_edge es = concat (map (resolve_edge_sources c repo) (hand_out us ws))"
proof -
  define ws where "ws = map (window_row c repo lang) (filter (\<lambda>fp. ps_err (snd fp) = None) fps)"
  obtain r1 where wf: "window_files c repo lang fps r = (ws, r1)" by (metis prod.collapse window_files_eq ws_def)
  obtain d1 e1 where "delete_window flt repo (map wf_path ws) d = (d1, e1)" by fastforce
  with delete_window_ok(1) [OF ok] have del: "delete_window flt repo (map wf_path ws) d = (d1, None)" by blast
  then have clear: "clear_window flt repo ws d r1 = (ws, d1, r1)" by (simp add: clear_window_def)
  obtain d2 us where st: "batch_store_ast_units (concat (map wf_units ws)) d1 = (d2, us)" by fastforce
  have put: "put_units flt ws d1 r1 = (hand_out us ws, d2, r1)" using ok by (simp add: put_units_def faultless_def Let_def st)
  let ?ess = "map (resolve_edge_sources c repo) (hand_out us ws)"
  obtain d3 es where se: "batch_store_edges (concat ?ess) d2 = (d3, es)" by fastforce
  have "d' = d3" using run ok by (simp add: store_files_def Let_def wf clear put put_edges_def faultless_def se)
  have blank: "map blank_edge (concat (map (resolve_edge_sources c repo) xs)) = concat (map (resolve_edge_sources c repo) xs)" for xs
    by (induction xs) (simp_all add: blank_resolved)
  show ?thesis
    using that [OF ws_def del, of us es] stored_units [OF st] stored_edges [OF se] \<open>d' = d3\<close> blank by simp
qed

lemma handed_out:
  assumes us: "map blank_unit us = map blank_unit (concat (map wf_units ws))" and ws: "ws = map (window_row c repo lang) fps"
    and paths: "distinct (map (as_path \<circ> fst) fps)" and fp: "fp \<in> set fps"
  shows "\<exists>w \<in> set (hand_out us ws). wf_path w = as_path (fst fp) \<and> wf_edges w = ps_edges (snd fp) \<and>
      map blank_unit (wf_units w) = wf_units (window_row c repo lang fp) \<and>
      wf_units w = filter (\<lambda>u. u_repo u = repo \<and> u_file u = as_path (fst fp)) us"
    and "distinct (map wf_path (hand_out us ws))" and "wf_path ` set (hand_out us ws) = as_path ` fst ` set fps"
    and "u \<in> set us \<Longrightarrow> u_repo u = repo \<and> u_file u \<in> as_path ` fst ` set fps"
proof -
  let ?view = "\<lambda>w. (wf_path w, wf_edges w, map blank_unit (wf_units w))"
  note spec = hand_out_spec [OF us]
  have same: "?view ` set (hand_out us ws) = ?view ` set ws" using arg_cong [OF spec(2), of set] by simp
  have wpaths: "map wf_path (hand_out us ws) = map wf_path ws" using arg_cong [OF spec(2), of "map fst"] by (simp add: comp_def)
  then show d: "distinct (map wf_path (hand_out us ws))" using paths by (simp add: ws comp_def)
  show ps: "wf_path ` set (hand_out us ws) = as_path ` fst ` set fps"
    using arg_cong [OF wpaths, of set] by (simp add: ws image_image)
  have tag: "(u_repo u, u_file u) = (repo, wf_path w)" if "w \<in> set (hand_out us ws)" "u \<in> set (wf_units w)" for w u
  proof -
    from same that(1) obtain v where v: "v \<in> set ws" "?view w = ?view v" by (metis (no_types, lifting) image_iff)
    have "blank_unit u \<in> set (map blank_unit (wf_units w))" using that(2) by simp
    then have "blank_unit u \<in> set (map blank_unit (wf_units v))" using v(2) by (simp only: prod.inject)
    moreover obtain x where "v = window_row c repo lang x" using v(1) by (auto simp: ws)
    ultimately have "blank_unit u \<in> set (wf_units (window_row c repo lang x))" "v = window_row c repo lang x" by (simp_all only: blank_rows)
    then have "u_repo u = repo \<and> u_file u = wf_path v" using window_row_units [of "blank_unit u" c repo lang x] by simp
    then show ?thesis using v(2) by simp
  qed
  show "u_repo u = repo \<and> u_file u \<in> as_path ` fst ` set fps" if "u \<in> set us"
  proof -
    have "u \<in> set (concat (map wf_units (hand_out us ws)))" using that spec(1) by simp
    then obtain w where w: "w \<in> set (hand_out us ws)" "u \<in> set (wf_units w)" by auto
    have "wf_path w \<in> as_path ` fst ` set fps" unfolding ps [symmetric] using w(1) by (rule imageI)
    then show ?thesis using tag [OF w] by simp
  qed
  have "window_row c repo lang fp \<in> set ws" using fp by (simp add: ws)
  then obtain w where w: "w \<in> set (hand_out us ws)" "?view w = ?view (window_row c repo lang fp)" using same by (metis (no_types, lifting) image_iff)
  have "filter (\<lambda>u. (u_repo u, u_file u) = (repo, wf_path w)) (concat (map wf_units (hand_out us ws))) = wf_units w"
    by (rule filter_concat_tagged [of "\<lambda>w. (repo, wf_path w)"]) (use d w(1) tag in \<open>auto simp: distinct_map inj_on_def\<close>)
  then show "\<exists>w \<in> set (hand_out us ws). wf_path w = as_path (fst fp) \<and> wf_edges w = ps_edges (snd fp) \<and>
      map blank_unit (wf_units w) = wf_units (window_row c repo lang fp) \<and>
      wf_units w = filter (\<lambda>u. u_repo u = repo \<and> u_file u = as_path (fst fp)) us"
    using w by (intro bexI [of _ w]) (simp_all add: spec(1) blank_rows, simp add: window_row_def)
qed

lemma window_replaced:
  assumes ok: "faultless flt" and run: "store_files flt c repo lang fps (d, r) = (d', r')"
    and paths: "distinct (map (as_path \<circ> fst) (filter (\<lambda>fp. ps_err (snd fp) = None) fps))"
  shows "\<lbrakk>(f, p) \<in> set fps; ps_err p = None\<rbrakk> \<Longrightarrow>
      map blank_unit (file_units repo (as_path f) d') = map (unit_row c repo (as_path f) lang) (ps_units p) \<and>
      map blank_edge (file_edges repo (as_path f) d') =
        List.map_filter (edge_row c repo (as_path f) (file_units repo (as_path f) d')) (ps_edges p)"
    and "rp \<noteq> repo \<or> (\<forall>fp \<in> set fps. ps_err (snd fp) = None \<longrightarrow> as_path (fst fp) \<noteq> path) \<Longrightarrow>
      file_units rp path d' = file_units rp path d \<and> map unresolved (file_edges rp path d') = map unresolved (file_edges rp path d)"
proof -
  let ?good = "filter (\<lambda>fp. ps_err (snd fp) = None) fps"
  obtain ws d1 us es where st: "ws = map (window_row c repo lang) ?good" "delete_window flt repo (map wf_path ws) d = (d1, None)"
      "map blank_unit us = map blank_unit (concat (map wf_units ws))" "g_units d' = g_units d1 @ us"
      "g_edges d' = g_edges d1 @ es" "map blank_edge es = concat (map (resolve_edge_sources c repo) (hand_out us ws))"
    using store_files_stages [OF ok run] by blast
  have wpaths: "set (map wf_path ws) = as_path ` fst ` set ?good" by (simp add: st(1) image_image)
  have es_tag: "e_repo e = repo \<and> e_file e \<in> as_path ` fst ` set ?good" if "e \<in> set es" and "?good \<noteq> []" for e
  proof -
    have "blank_edge e \<in> set (concat (map (resolve_edge_sources c repo) (hand_out us ws)))" using that(1) by (simp flip: st(6))
    then obtain w where "w \<in> set (hand_out us ws)" "blank_edge e \<in> set (resolve_edge_sources c repo w)" by auto
    moreover from this have "wf_path w \<in> as_path ` fst ` set ?good"
      unfolding handed_out(3) [OF st(3) st(1) paths hd_in_set [OF that(2)], symmetric] by (intro imageI)
    ultimately show ?thesis using resolved_tags [of "blank_edge e" c repo w] by simp
  qed
  have none: "us = []" "es = []" if "?good = []"
    using st(3,6) that by (simp_all add: st(1))
  show "map blank_unit (file_units repo (as_path f) d') = map (unit_row c repo (as_path f) lang) (ps_units p) \<and>
      map blank_edge (file_edges repo (as_path f) d') =
        List.map_filter (edge_row c repo (as_path f) (file_units repo (as_path f) d')) (ps_edges p)"
    if "(f, p) \<in> set fps" "ps_err p = None"
  proof
    have fp: "(f, p) \<in> set ?good" using that by simp
    then have inp: "as_path f \<in> set (map wf_path ws)" unfolding wpaths by force
    from handed_out(1) [OF st(3) st(1) paths fp] obtain w where w: "w \<in> set (hand_out us ws)" "wf_path w = as_path f" "wf_edges w = ps_edges p"
      "map blank_unit (wf_units w) = wf_units (window_row c repo lang (f, p))"
      "wf_units w = filter (\<lambda>u. u_repo u = repo \<and> u_file u = as_path f) us" unfolding fst_conv snd_conv by blast
    have units: "file_units repo (as_path f) d' = wf_units w"
      unfolding file_units_def st(4) filter_append w(5) delete_window_ok(2) [OF ok st(2)] using inp by (auto simp: filter_empty_conv)
    then show "map blank_unit (file_units repo (as_path f) d') = map (unit_row c repo (as_path f) lang) (ps_units p)"
      using w(4) by (simp add: window_row_def)
    have "file_edges repo (as_path f) d' = filter (\<lambda>e. e_repo e = repo \<and> e_file e = as_path f) es"
      using delete_window_ok(3) [OF ok st(2) inp] by (simp add: file_edges_def st(5))
    then have "map blank_edge (file_edges repo (as_path f) d') = filter (\<lambda>e. (e_repo e, e_file e) = (repo, wf_path w)) (map blank_edge es)"
      by (simp add: filter_map comp_def w(2))
    also have "\<dots> = resolve_edge_sources c repo w" unfolding st(6)
      by (rule filter_concat_tagged [of "\<lambda>w. (repo, wf_path w)"])
        (use handed_out(2) [OF st(3) st(1) paths fp] w(1) resolved_tags in \<open>auto simp: distinct_map inj_on_def\<close>)
    finally show "map blank_edge (file_edges repo (as_path f) d') =
        List.map_filter (edge_row c repo (as_path f) (file_units repo (as_path f) d')) (ps_edges p)"
      by (simp add: resolve_edge_sources_def w(2,3) units)
  qed
  show "file_units rp path d' = file_units rp path d \<and> map unresolved (file_edges rp path d') = map unresolved (file_edges rp path d)"
    if other: "rp \<noteq> repo \<or> (\<forall>fp \<in> set fps. ps_err (snd fp) = None \<longrightarrow> as_path (fst fp) \<noteq> path)"
  proof
    have out: "rp \<noteq> repo \<or> path \<notin> as_path ` fst ` set ?good" using other by auto
    have "filter (\<lambda>u. u_repo u = rp \<and> u_file u = path) us = []"
    proof (cases "?good = []")
      case False
      then show ?thesis using handed_out(4) [OF st(3) st(1) paths hd_in_set] out by (fastforce simp: filter_empty_conv)
    qed (simp add: none)
    then show "file_units rp path d' = file_units rp path d"
      unfolding file_units_def st(4) filter_append delete_window_ok(2) [OF ok st(2)] wpaths using out by (auto intro: filter_cong)
    have "filter (\<lambda>e. e_repo e = rp \<and> e_file e = path) es = []"
    proof (cases "?good = []")
      case False
      then show ?thesis using es_tag out by (fastforce simp: filter_empty_conv)
    qed (simp add: none)
    then have "file_edges rp path d' = file_edges rp path d1" by (simp add: file_edges_def st(5))
    then show "map unresolved (file_edges rp path d') = map unresolved (file_edges rp path d)"
      using delete_window_ok(4) [OF ok st(2)] out unfolding wpaths by simp
  qed
qed


definition plain_codec :: ast_codec where
  "plain_codec = \<lparr> ac_edge = (\<lambda>_. []), ac_unit = (\<lambda>_. []) \<rparr>"

definition no_ast_faults :: ast_faults where
  "no_ast_faults = \<lparr> af_delete_units = (\<lambda>_. None), af_delete_edges = (\<lambda>_. None), af_units = (\<lambda>_. None), af_edges = (\<lambda>_. False) \<rparr>"

definition source_file :: "string \<Rightarrow> ast_source" where
  "source_file path = \<lparr> as_path = path, as_hash = [], as_language = ''sql'', as_content = Some [] \<rparr>"

definition schema_parse :: parse_result where
  "schema_parse = (failed_parse [])\<lparr> ps_units := sql_parse id ''ALTER TABLE users ADD email TEXT'', ps_err := None \<rparr>"

definition old_rows :: gdb where
  "old_rows = \<lparr> g_units = [unit_row plain_codec ''r'' ''a.sql'' ''sql'' (line_unit id 0 ''db_table'' ''users'' ''db:users'' [] []),
                           unit_row plain_codec ''r'' ''b.sql'' ''sql'' (line_unit id 0 ''db_table'' ''carts'' ''db:carts'' [] [])],
     g_edges = [], g_next_unit = 3, g_next_edge = 1 \<rparr>"


section \<open>Accounting\<close>

text \<open>A result that counts more failures and, for each of them, names a file.\<close>

definition failures :: "nat \<Rightarrow> ast_result \<Rightarrow> ast_result \<Rightarrow> bool" where
  "failures n r r' \<longleftrightarrow> ar_indexed r' = ar_indexed r \<and> ar_skipped r' = ar_skipped r \<and> ar_failed r' = ar_failed r + int n \<and>
     length (ar_errors r') = length (ar_errors r) + n"

lemma failures_none [simp]: "failures 0 r r"
  by (simp add: failures_def)

lemma failures_trans: "failures n a b \<Longrightarrow> failures k b c \<Longrightarrow> failures (n + k) a c"
  by (simp add: failures_def)

lemma failures_one: "failures 1 r (fail_file path msg r)"
  by (simp add: failures_def fail_file_def)

lemma failures_step: "failures n (fail_file path msg r) r' \<Longrightarrow> failures (Suc n) r r'"
  using failures_trans [OF failures_one] by fastforce

lemma window_files_account: "window_files c repo lang fps r = (ws, r') \<Longrightarrow> failures (length fps - length ws) r r' \<and> length ws \<le> length fps"
proof (induction c repo lang fps r arbitrary: ws rule: window_files.induct)
  case (2 c repo lang f p fps r)
  show ?case
  proof (cases "ps_err p")
    case None
    then obtain vs where "window_files c repo lang fps r = (vs, r')" "length ws = Suc (length vs)" using 2(3) by (auto simp: Let_def split: prod.splits)
    then show ?thesis using 2(1) None by fastforce
  next
    case (Some err)
    then have "failures (length fps - length ws) (fail_file (as_path f) err r) r' \<and> length ws \<le> length fps" using 2(2,3) by simp
    then show ?thesis using failures_step by (fastforce simp: Suc_diff_le)
  qed
qed simp

lemma retry_deletes_account: "retry_deletes flt repo ws d r = (kept, d', r') \<Longrightarrow> failures (length ws - length kept) r r' \<and> length kept \<le> length ws"
proof (induction flt repo ws d r arbitrary: kept rule: retry_deletes.induct)
  case (2 flt repo w ws d r)
  obtain d1 err where del: "delete_window flt repo [wf_path w] d = (d1, err)" by fastforce
  show ?case
  proof (cases err)
    case None
    then obtain k where "retry_deletes flt repo ws d1 r = (k, d', r')" "length kept = Suc (length k)" using 2(3) del by (auto split: prod.splits)
    then show ?thesis using 2(1) [OF del [symmetric] None] by fastforce
  next
    case (Some e)
    then have "failures (length ws - length kept) (fail_file (wf_path w) (''delete old data: '' @ e) r) r' \<and> length kept \<le> length ws"
      using 2(2) [OF del [symmetric] Some] 2(3) del Some by simp
    then show ?thesis using failures_step by (fastforce simp: Suc_diff_le)
  qed
qed simp

lemma retry_units_account: "retry_units flt ws d r = (kept, d', r') \<Longrightarrow> failures (length ws - length kept) r r' \<and> length kept \<le> length ws"
proof (induction flt ws d r arbitrary: kept rule: retry_units.induct)
  case (2 flt w ws d r)
  show ?case
  proof (cases "af_units flt (wf_units w)")
    case None
    obtain d1 us where st: "batch_store_ast_units (wf_units w) d = (d1, us)" by fastforce
    obtain k where "retry_units flt ws d1 r = (k, d', r')" "length kept = Suc (length k)" using 2(3) None st by (auto simp: Let_def split: prod.splits)
    then show ?thesis using 2(1) [OF None st [symmetric]] by fastforce
  next
    case (Some e)
    then have "failures (length ws - length kept) (fail_file (wf_path w) (''store units: '' @ e) r) r' \<and> length kept \<le> length ws"
      using 2(2,3) by simp
    then show ?thesis using failures_step by (fastforce simp: Suc_diff_le)
  qed
qed simp

lemma hand_out_length [simp]: "length (hand_out us ws) = length ws"
  by (induction us ws rule: hand_out.induct) simp_all

text \<open>The number of files a result accounts for, and how many failures it does not name.\<close>

definition accounted :: "nat \<Rightarrow> ast_result \<Rightarrow> ast_result \<Rightarrow> bool" where
  "accounted n r r' \<longleftrightarrow>
     ar_indexed r' + ar_skipped r' + ar_failed r' = ar_indexed r + ar_skipped r + ar_failed r + int n \<and>
     ar_failed r' - int (length (ar_errors r')) = ar_failed r - int (length (ar_errors r))"

lemma accounted_trans: "accounted n a b \<Longrightarrow> accounted k b c \<Longrightarrow> accounted (n + k) a c"
  by (simp add: accounted_def)

lemma store_files_account: "store_files flt c repo lang fps (d, r) = (d', r') \<Longrightarrow> accounted (length fps) r r'"
proof -
  assume run: "store_files flt c repo lang fps (d, r) = (d', r')"
  obtain ws r1 where w: "window_files c repo lang fps r = (ws, r1)" by fastforce
  obtain ws2 d2 r2 where cl: "clear_window flt repo ws d r1 = (ws2, d2, r2)" by (metis prod_cases3)
  obtain ws3 d3 r3 where pu: "put_units flt ws2 d2 r2 = (ws3, d3, r3)" by (metis prod_cases3)
  have r': "r' = r3\<lparr> ar_indexed := ar_indexed r3 + int (length ws3) \<rparr>" using run by (simp add: store_files_def w cl pu)
  have a: "failures (length fps - length ws) r r1" "length ws \<le> length fps" using window_files_account [OF w] by blast+
  have b: "failures (length ws - length ws2) r1 r2 \<and> length ws2 \<le> length ws"
    using cl retry_deletes_account by (fastforce simp: clear_window_def split: prod.splits option.splits)
  have c: "failures (length ws2 - length ws3) r2 r3 \<and> length ws3 \<le> length ws2"
    using pu retry_units_account by (fastforce simp: put_units_def Let_def split: prod.splits option.splits)
  show ?thesis using a b c by (auto simp: r' failures_def accounted_def of_nat_diff)
qed

lemma store_windows_account: "accounted (length fps) (snd dr) (snd (store_windows flt c repo lang fps dr))"
proof (induction flt c repo lang fps dr rule: store_windows.induct)
  case (1 flt c repo lang fps dr)
  show ?case
  proof (cases "fps = []")
    case True
    then show ?thesis by (simp add: store_windows.simps [of _ _ _ _ _ dr] accounted_def)
  next
    case False
    let ?mid = "store_files flt c repo lang (take store_window fps) dr"
    have "accounted (length (take store_window fps)) (snd dr) (snd ?mid)"
      using store_files_account [of flt c repo lang "take store_window fps" "fst dr" "snd dr" "fst ?mid" "snd ?mid"] by simp
    from accounted_trans [OF this 1 [OF False]] show ?thesis using False
      by (subst store_windows.simps) (simp add: min_def split: if_splits)
  qed
qed

lemma index_language_account: "accounted (length (snd lf)) (snd dr) (snd (index_language env repo dr lf))"
proof -
  obtain d r lang files where *: "dr = (d, r)" "lf = (lang, files)" by fastforce
  show ?thesis
  proof (cases "ae_parser env lang")
    case None
    then show ?thesis by (simp add: * index_language_def accounted_def)
  next
    case (Some parse)
    let ?parsed = "link_package_tables files (link_package_wrappers files (parse_files (ae_read env) parse files))"
    have len: "length ?parsed = length files"
      by (simp add: link_package_tables_def link_package_wrappers_def parse_files_def Let_def)
    have "accounted (length files) (r\<lparr> ar_coverage := cov \<rparr>)
        (snd (store_windows (ae_faults env) (ae_codec env) repo lang (zip files ?parsed) (d, r\<lparr> ar_coverage := cov \<rparr>)))" for cov
      using store_windows_account [of "zip files ?parsed" "(d, r\<lparr> ar_coverage := cov \<rparr>)"] by (simp add: len)
    then show ?thesis using Some by (simp add: * index_language_def Let_def accounted_def)
  qed
qed

lemma grouped_length: "sum_list (map (length \<circ> snd) (group_by_language files)) = length files"
proof -
  have count: "finite L \<Longrightarrow> as_language ` set fs \<subseteq> L \<Longrightarrow> (\<Sum>l \<in> L. length (filter (\<lambda>f. as_language f = l) fs)) = length fs" for L fs
  proof (induction fs)
    case (Cons f fs)
    have "(\<Sum>l \<in> L. length (filter (\<lambda>f. as_language f = l) (f # fs))) =
        (\<Sum>l \<in> L. (if as_language f = l then 1 else 0) + length (filter (\<lambda>f. as_language f = l) fs))"
      by (rule sum.cong) auto
    then show ?case using Cons by (simp add: sum.distrib)
  qed simp
  have "sum_list (map (length \<circ> snd) (group_by_language files)) =
      sum_list (map (\<lambda>l. length (filter (\<lambda>f. as_language f = l) files)) (rev (remdups (rev (map as_language files)))))"
    by (simp add: group_by_language_def comp_def)
  also have "\<dots> = (\<Sum>l \<in> as_language ` set files. length (filter (\<lambda>f. as_language f = l) files))"
    by (subst sum_list_distinct_conv_sum_set) simp_all
  also have "\<dots> = length files" by (rule count) simp_all
  finally show ?thesis .
qed


end
