(* ===== verification/Ast_Gaps.thy ===== *)
theory Ast_Gaps
  imports Ast_Brokers Ast_Config
begin

text \<open>Inputs on which the source parsers fall short of what they are for.\<close>

section \<open>SQL and protocol definitions\<close>

definition lines_joined :: "string list \<Rightarrow> string" where
  "lines_joined ls = join_with [CHR 0x0A] ls"

text \<open>
  A table created on one line stays open: the statement after it is read as one of its columns.
\<close>

theorem one_line_table_stays_open:
  "map (\<lambda>u. (pu_kind u, pu_qualified u)) (sql_parse h (lines_joined [''CREATE TABLE users (id INT);'', ''INSERT INTO carts VALUES (1);''])) =
     [(''db_table'', ''db:users''), (''db_column'', ''db:users.insert'')]"
  by code_simp

text \<open>
  The REST binding of an rpc that is written on one line is lost, the same binding over several lines is a
  route.
\<close>

theorem one_line_binding_is_lost:
  "''http_route'' \<notin> pu_kind ` set (fst (proto_parse h path (lines_joined [''service S {'',
       ''  rpc Get(A) returns (B) { option (google.api.http) = { get: '' @ [CHR 0x22] @ ''/v1/a'' @ [CHR 0x22] @ '' }; }'', ''}'']))) \<and>
   ''http_route'' \<in> pu_kind ` set (fst (proto_parse h path (lines_joined [''service S {'', ''  rpc Get(A) returns (B) {'',
       ''    option (google.api.http) = { get: '' @ [CHR 0x22] @ ''/v1/a'' @ [CHR 0x22] @ '' };'', ''  }'', ''}''])))"
  by (intro conjI) code_simp+

section \<open>Templates\<close>

text \<open>A percent escape before a letter is taken for a formatting verb, and so is the half of a doubled percent sign.\<close>

theorem escapes_read_as_verbs:
  "placeholderize ''/files/a%2Fb'' = ''/files/a{}b'' \<and> placeholderize ''/rate/100%%s'' = ''/rate/100%{}''"
  by (intro conjI) code_simp+

section \<open>Coverage\<close>

text \<open>
  A call outside every unit is counted as a contract that was found although its edge is dropped.
\<close>

theorem dropped_edge_is_counted:
  assumes "cs = \<lparr> cs_name = ''Get'', cs_object = ''http'', cs_recv_type = [], cs_args = [CHR 0x22 # ''/items'' @ [CHR 0x22]],
     cs_kwargs = [], cs_fields = [], cs_aliases = [], cs_line = 12, cs_src = - 1 \<rparr>"
    and "fc = fst (run_detectors go_detectors cs literal_only None (new_file path ''go'' [] None))"
  shows "fc_edges fc = [] \<and> count_of (the (fc_cov fc)) ''http'' = \<lparr> cc_candidates = 1, cc_edges = 1 \<rparr>"
  unfolding assms by code_simp

text \<open>
  A subscription a loose rule cannot resolve is counted as a missed contract when the rule reads a list.
\<close>

theorem loose_list_is_counted:
  "snd (apply_consume (hd (rev go_broker_consume)) \<lparr> cs_name = ''XRead'', cs_object = ''rdb'', cs_recv_type = [], cs_args = [''ctx'', ''args''],
     cs_kwargs = [], cs_fields = [(''Streams'', ''names'')], cs_aliases = [], cs_line = 1, cs_src = 0 \<rparr> literal_only (single_names literal_only) fc) =
     (True, False, True)"
  by code_simp

section \<open>Configuration\<close>

text \<open>
  A dotted key beside a nested one makes the indexed value depend on the order Go iterates the map in.
\<close>

theorem flattened_value_depends_on_order:
  "map_of (flatten [] (DMap [(''kafka.topic'', DString ''a''), (''kafka'', DMap [(''topic'', DString ''b'')])]) []) ''kafka.topic'' = Some ''b'' \<and>
   map_of (flatten [] (DMap [(''kafka'', DMap [(''topic'', DString ''b'')]), (''kafka.topic'', DString ''a'')]) []) ''kafka.topic'' = Some ''a''"
  by (intro conjI) code_simp+

end
