(* ===== verification/Index_Chunks.thy ===== *)
theory Index_Chunks
  imports Ast_File
begin

text \<open>
  Line windows of a file (\<open>internal/index/chunk.go\<close>) and the cache through which the AST indexer hands the
  symbols of a file to the other indexers (\<open>internal/index/symbols.go\<close>).
\<close>

section \<open>Windows\<close>

record chunk =
  ch_id :: string
  ch_file :: string
  ch_language :: string
  ch_start :: int
  ch_end :: int
  ch_text :: string
  ch_symbol :: string
  ch_kind :: string

record chunk_input =
  cin_path :: string
  cin_language :: string
  cin_content :: string

record chunk_config =
  cfg_method :: string
  cfg_window :: int
  cfg_overlap :: int

definition chunk_defaults :: "chunk_config \<Rightarrow> chunk_config" where
  "chunk_defaults c =
     (let c = (if cfg_window c \<le> 0 then c\<lparr> cfg_window := 60 \<rparr> else c);
          c = (if cfg_overlap c < 0 \<or> cfg_overlap c \<ge> cfg_window c then c\<lparr> cfg_overlap := 10 \<rparr> else c)
      in if cfg_method c = [] then c\<lparr> cfg_method := ''window'' \<rparr> else c)"

record window_chunker =
  wk_lines :: int
  wk_overlap :: int

definition new_window_chunker :: "chunk_config \<Rightarrow> window_chunker" where
  "new_window_chunker cfg = (let c = chunk_defaults cfg in \<lparr> wk_lines = cfg_window c, wk_overlap = cfg_overlap c \<rparr>)"

definition chunker_for_file :: "chunk_config \<Rightarrow> string \<Rightarrow> window_chunker" where
  "chunker_for_file cfg language = new_window_chunker (chunk_defaults cfg)"

definition line_slice :: "string list \<Rightarrow> int \<Rightarrow> int \<Rightarrow> string list" where
  "line_slice lines s e = take (nat (e - s)) (drop (nat s) lines)"

definition make_chunk :: "chunk_input \<Rightarrow> string list \<Rightarrow> nat \<Rightarrow> int \<Rightarrow> int \<Rightarrow> chunk" where
  "make_chunk f lines num s e =
     \<lparr> ch_id = cin_path f @ '':'' @ itoa (int num), ch_file = cin_path f, ch_language = cin_language f, ch_start = s + 1, ch_end = e,
       ch_text = join_with [CHR 0x0A] (line_slice lines s e), ch_symbol = [], ch_kind = [] \<rparr>"

function window_loop :: "window_chunker \<Rightarrow> chunk_input \<Rightarrow> string list \<Rightarrow> nat \<Rightarrow> int \<Rightarrow> chunk list" where
  "window_loop w f lines num s =
     (let n = int (length lines) in
      if s < n then
        let e = (if s + wk_lines w > n then n else s + wk_lines w) in
        if s \<ge> e then []
        else make_chunk f lines num s e #
             (if e \<ge> n then []
              else let next = e - wk_overlap w in
                if next \<le> s \<or> next < 0 then [] else window_loop w f lines (Suc num) next)
      else [])"
  by auto
termination by (relation "measure (\<lambda>(w, f, lines, num, s). nat (int (length lines) - s))") auto

declare window_loop.simps [simp del]

definition window_chunk :: "window_chunker \<Rightarrow> chunk_input \<Rightarrow> chunk list" where
  "window_chunk w f = window_loop w f (split_on (CHR 0x0A) (cin_content f)) 0 0"

section \<open>Symbols\<close>

record symbol =
  sy_name :: string
  sy_qualified :: string
  sy_kind :: string
  sy_start :: int
  sy_end :: int

definition annotated_languages :: "string list" where
  "annotated_languages = [''go'', ''java'', ''kotlin'', ''csharp'', ''typescript'', ''javascript'', ''python'', ''proto'']"

definition symbols_annotated :: "string \<Rightarrow> bool" where
  "symbols_annotated language \<longleftrightarrow> language \<in> set annotated_languages"

definition project_symbols :: "parsed_unit list \<Rightarrow> symbol list" where
  "project_symbols units =
     map (\<lambda>u. \<lparr> sy_name = pu_name u, sy_qualified = pu_qualified u, sy_kind = pu_kind u, sy_start = pu_start_line u, sy_end = pu_end_line u \<rparr>)
       (filter (\<lambda>u. pu_name u \<noteq> []) units)"

section \<open>The symbol cache\<close>

text \<open>The map of the cache is an association list with one entry for a key; its length is the size of the map.\<close>

record symbol_cache =
  sk_map :: "(string \<times> symbol list) list"
  sk_order :: "string list"
  sk_cap :: nat

definition default_symbol_cache_capacity :: int where "default_symbol_cache_capacity = 4096"

definition new_symbol_cache :: "int \<Rightarrow> symbol_cache" where
  "new_symbol_cache capacity =
     (let capacity = (if capacity < 1 then 1 else capacity) in \<lparr> sk_map = [], sk_order = [], sk_cap = nat capacity \<rparr>)"

definition symbol_key :: "string \<Rightarrow> string \<Rightarrow> string \<Rightarrow> string" where
  "symbol_key repo path hash = repo @ [CHR 0x00] @ path @ [CHR 0x00] @ hash"

fun drop_oldest :: "nat \<Rightarrow> (string \<times> symbol list) list \<Rightarrow> string list \<Rightarrow> (string \<times> symbol list) list \<times> string list" where
  "drop_oldest cap m [] = (m, [])"
| "drop_oldest cap m (k # ks) = (if length m \<ge> cap then drop_oldest cap (AList.delete k m) ks else (m, k # ks))"

definition evict :: "symbol_cache \<Rightarrow> symbol_cache" where
  "evict c =
     (let (m, order) = drop_oldest (sk_cap c) (sk_map c) (sk_order c);
          order = (if length order > 2 * sk_cap c then filter (\<lambda>k. map_of m k \<noteq> None) order else order)
      in c\<lparr> sk_map := m, sk_order := order \<rparr>)"

definition cache_put :: "string \<Rightarrow> string \<Rightarrow> string \<Rightarrow> symbol list \<Rightarrow> symbol_cache \<Rightarrow> symbol_cache" where
  "cache_put repo path hash syms c =
     (let k = symbol_key repo path hash;
          c = (if map_of (sk_map c) k = None then (let c = evict c in c\<lparr> sk_order := sk_order c @ [k] \<rparr>) else c)
      in c\<lparr> sk_map := AList.update k syms (sk_map c) \<rparr>)"

definition cache_take :: "string \<Rightarrow> string \<Rightarrow> string \<Rightarrow> symbol_cache \<Rightarrow> symbol_cache \<times> symbol list option" where
  "cache_take repo path hash c =
     (let k = symbol_key repo path hash in
      case map_of (sk_map c) k of
        None \<Rightarrow> (c, None)
      | Some syms \<Rightarrow> (c\<lparr> sk_map := AList.delete k (sk_map c) \<rparr>, Some syms))"

text \<open>The states a cache of a capacity can reach: any interleaving of its two operations.\<close>

inductive cached_state :: "int \<Rightarrow> symbol_cache \<Rightarrow> bool" where
  fresh: "cached_state cap (new_symbol_cache cap)"
| put: "cached_state cap c \<Longrightarrow> cached_state cap (cache_put repo path hash syms c)"
| taken: "cached_state cap c \<Longrightarrow> cached_state cap (fst (cache_take repo path hash c))"

section \<open>Windows cover the file\<close>

lemma slice_lengths:
  assumes "0 \<le> s" "s \<le> e" "e \<le> int (length lines)"
  shows "length (line_slice lines s e) = nat (e - s)"
  using assms by (simp add: line_slice_def)

lemma chunk_lines:
  assumes "0 \<le> s" "s < e" "e \<le> int (length lines)" and "\<forall>l \<in> set lines. CHR 0x0A \<notin> set l"
  shows "split_on (CHR 0x0A) (ch_text (make_chunk f lines num s e)) = line_slice lines s e"
proof -
  have "length (line_slice lines s e) > 0" using slice_lengths [of s e lines] assms(1-3) by simp
  moreover have "CHR 0x0A \<notin> set l" if "l \<in> set (line_slice lines s e)" for l
    using that assms(4) unfolding line_slice_def by (meson in_set_dropD in_set_takeD)
  ultimately have "split_on (CHR 0x0A) (join_with [CHR 0x0A] (line_slice lines s e)) = line_slice lines s e"
    by (intro split_on_join) auto
  then show ?thesis by (simp add: make_chunk_def)
qed

text \<open>The lines of a chunk that the chunk before it does not have.\<close>

definition fresh_lines :: "window_chunker \<Rightarrow> chunk \<Rightarrow> string list" where
  "fresh_lines w c = drop (if ch_start c = 1 then 0 else nat (wk_overlap w)) (split_on (CHR 0x0A) (ch_text c))"

definition proper_window :: "window_chunker \<Rightarrow> bool" where
  "proper_window w \<longleftrightarrow> 0 \<le> wk_overlap w \<and> wk_overlap w < wk_lines w"

lemma proper_config:
  "(cfg_window cfg \<le> 0 \<or> cfg_window cfg > 10 \<or> 0 \<le> cfg_overlap cfg \<and> cfg_overlap cfg < cfg_window cfg) \<Longrightarrow> proper_window (new_window_chunker cfg)"
  by (auto simp: proper_window_def new_window_chunker_def chunk_defaults_def Let_def)

lemma drop_slice:
  assumes "0 \<le> s" "0 \<le> k" "s + k \<le> e" "e \<le> int (length lines)"
  shows "drop (nat k) (line_slice lines s e) = line_slice lines (s + k) e"
  using assms by (simp add: line_slice_def drop_take nat_diff_distrib nat_add_distrib add.commute)

lemma slice_append:
  assumes "0 \<le> s" "s \<le> e" "e \<le> int (length lines)"
  shows "line_slice lines s e @ drop (nat e) lines = drop (nat s) lines"
proof -
  have "drop (nat e) lines = drop (nat (e - s)) (drop (nat s) lines)" using assms by (simp add: nat_diff_distrib)
  then show ?thesis unfolding line_slice_def by (simp only: append_take_drop_id)
qed

lemma window_loop_covers:
  assumes "proper_window w" and "\<forall>l \<in> set lines. CHR 0x0A \<notin> set l" and "0 \<le> s" and "s + (if s = 0 then 0 else wk_overlap w) < int (length lines)"
  shows "concat (map (fresh_lines w) (window_loop w f lines num s)) = drop (nat (s + (if s = 0 then 0 else wk_overlap w))) lines"
  using assms
proof (induction w f lines num s rule: window_loop.induct)
  case (1 w f lines num s)
  let ?n = "int (length lines)"
  define e where "e = (if s + wk_lines w > ?n then ?n else s + wk_lines w)"
  define k where "k = (if s = 0 then 0 else wk_overlap w)"
  have w: "0 \<le> wk_overlap w" "wk_overlap w < wk_lines w" using "1.prems"(1) by (simp_all add: proper_window_def)
  have s: "0 \<le> s" "s < ?n" "s + k < ?n" using "1.prems"(3,4) w by (auto simp: k_def split: if_splits)
  have e: "s < e" "e \<le> ?n" "s + k \<le> e" "0 \<le> k" using s w by (auto simp: e_def k_def)
  have ch: "fresh_lines w (make_chunk f lines num s e) = line_slice lines (s + k) e"
    using chunk_lines [OF s(1) e(1,2) "1.prems"(2), of f num] drop_slice [OF s(1) e(4,3,2)] by (cases "s = 0") (simp_all add: fresh_lines_def make_chunk_def k_def)
  show ?case
  proof (cases "e \<ge> ?n")
    case True
    then have "window_loop w f lines num s = [make_chunk f lines num s e]"
      using s e by (subst window_loop.simps) (simp add: Let_def e_def)
    moreover have "drop (nat e) lines = []" using True e(2) by simp
    ultimately show ?thesis using ch slice_append [of "s + k" e lines] s(1) e by (simp add: k_def)
  next
    case False
    then have ew: "e = s + wk_lines w" by (auto simp: e_def split: if_splits)
    have next_ok: "\<not> (e - wk_overlap w \<le> s \<or> e - wk_overlap w < 0)" using ew w s(1) by simp
    have step: "window_loop w f lines num s = make_chunk f lines num s e # window_loop w f lines (Suc num) (e - wk_overlap w)"
      using s e False next_ok by (subst window_loop.simps) (simp add: Let_def e_def [symmetric])
    have IH: "concat (map (fresh_lines w) (window_loop w f lines (Suc num) (e - wk_overlap w))) =
        drop (nat (e - wk_overlap w + (if e - wk_overlap w = 0 then 0 else wk_overlap w))) lines"
      by (rule "1.IH" [OF refl s(2) e_def _ False refl next_ok "1.prems"(1,2)]) (use e False next_ok w in auto)
    show ?thesis using next_ok slice_append [of "s + k" e lines] s(1) e by (simp add: step ch IH k_def)
  qed
qed

text \<open>A chunk is a window of the lines: in bounds, no longer than a window, and with the text of its lines.\<close>

definition window_of :: "window_chunker \<Rightarrow> chunk_input \<Rightarrow> chunk \<Rightarrow> bool" where
  "window_of w f c \<longleftrightarrow>
     (let lines = split_on (CHR 0x0A) (cin_content f) in
      ch_file c = cin_path f \<and> ch_language c = cin_language f \<and> 1 \<le> ch_start c \<and> ch_start c \<le> ch_end c \<and> ch_end c \<le> int (length lines) \<and>
      ch_end c - ch_start c < wk_lines w \<and> split_on (CHR 0x0A) (ch_text c) = line_slice lines (ch_start c - 1) (ch_end c))"

lemma window_loop_windows:
  assumes "lines = split_on (CHR 0x0A) (cin_content f)" and "0 \<le> s" and "c \<in> set (window_loop w f lines num s)"
  shows "window_of w f c"
  using assms
proof (induction w f lines num s rule: window_loop.induct)
  case (1 w f lines num s)
  let ?n = "int (length lines)"
  define e where "e = (if s + wk_lines w > ?n then ?n else s + wk_lines w)"
  have run: "s < ?n" "s < e" using "1.prems"(3) by (subst (asm) window_loop.simps; simp add: Let_def e_def split: if_splits)+
  have here: "window_of w f (make_chunk f lines num s e)"
    using chunk_lines [of s e lines f num] "1.prems"(1,2) run split_on_notin
    by (auto simp: window_of_def Let_def make_chunk_def e_def)
  show ?case
  proof (cases "c = make_chunk f lines num s e")
    case False
    have "\<not> e \<ge> ?n \<and> \<not> (e - wk_overlap w \<le> s \<or> e - wk_overlap w < 0) \<and> c \<in> set (window_loop w f lines (Suc num) (e - wk_overlap w))"
      using "1.prems"(3) False run by (subst (asm) window_loop.simps) (simp add: Let_def e_def [symmetric] split: if_splits)
    then show ?thesis using "1.IH" [OF refl run(1) e_def _ _ refl _ "1.prems"(1)] run(2) by simp
  qed (simp add: here)
qed


definition five_lines :: chunk_input where
  "five_lines = \<lparr> cin_path = ''notes.md'', cin_language = ''markdown'', cin_content = join_with [CHR 0x0A] [''a'', ''b'', ''c'', ''d'', ''e''] \<rparr>"


text \<open>
  A negative overlap is replaced by ten lines whatever the window: with a window of ten lines or fewer the
  second window would not move, so the file ends after the first one.
\<close>

theorem small_window_loses_lines:
  "map (\<lambda>c. (ch_start c, ch_end c)) (window_chunk (new_window_chunker \<lparr> cfg_method = [], cfg_window = 3, cfg_overlap = - 1 \<rparr>) five_lines) = [(1, 3)]"
  by code_simp

section \<open>The cache is bounded\<close>

definition live_places :: "(string \<times> symbol list) list \<Rightarrow> string list \<Rightarrow> nat" where
  "live_places m order = length (filter (\<lambda>k. k \<in> fst ` set m) order)"

definition ordered_cache :: "nat \<Rightarrow> (string \<times> symbol list) list \<Rightarrow> string list \<Rightarrow> bool" where
  "ordered_cache cap m order \<longleftrightarrow> distinct (map fst m) \<and> fst ` set m \<subseteq> set order \<and> live_places m order \<le> 2 * cap + length m"

definition bounded_cache :: "symbol_cache \<Rightarrow> bool" where
  "bounded_cache c \<longleftrightarrow>
     0 < sk_cap c \<and> length (sk_map c) \<le> sk_cap c \<and> length (sk_order c) \<le> 3 * sk_cap c \<and> ordered_cache (sk_cap c) (sk_map c) (sk_order c)"

lemma length_delete:
  "distinct (map fst m) \<Longrightarrow> k \<in> fst ` set m \<Longrightarrow> Suc (length (AList.delete k m)) = length m"
proof (induction m)
  case (Cons kv m)
  then show ?case by (cases "fst kv = k") (auto simp: AList.delete_eq filter_id_conv image_iff intro!: arg_cong [of _ _ length] filter_True)
qed simp

lemma delete_keys_subset: "fst ` set (AList.delete k m) \<subseteq> fst ` set m"
  by (auto simp: AList.delete_eq)

lemma update_fresh: "k \<notin> fst ` set m \<Longrightarrow> AList.update k v m = m @ [(k, v)]"
  by (induction m) auto

lemma update_present: "k \<in> fst ` set m \<Longrightarrow> map fst (AList.update k v m) = map fst m"
  by (induction m) auto

lemma live_places_delete:
  assumes "k \<in> set order" and "k \<in> fst ` set m"
  shows "live_places (AList.delete k m) order < live_places m order"
proof -
  have "fst ` set (AList.delete k m) = fst ` set m - {k}" by (auto simp: AList.delete_eq image_iff)
  then have "filter (\<lambda>x. x \<in> fst ` set (AList.delete k m)) order = filter (\<lambda>x. x \<noteq> k) (filter (\<lambda>x. x \<in> fst ` set m) order)"
    by (auto intro!: filter_cong)
  moreover have "k \<in> set (filter (\<lambda>x. x \<in> fst ` set m) order)" using assms by simp
  ultimately show ?thesis unfolding live_places_def by (metis (mono_tags, lifting) length_filter_less)
qed

lemma ordered_delete:
  assumes "ordered_cache cap m order"
  shows "ordered_cache cap (AList.delete k m) order"
proof (cases "k \<in> fst ` set m")
  case True
  then have "k \<in> set order" using assms by (auto simp: ordered_cache_def)
  from live_places_delete [OF this True] have "live_places (AList.delete k m) order < live_places m order" .
  moreover have "Suc (length (AList.delete k m)) = length m" using assms True by (intro length_delete) (simp_all add: ordered_cache_def)
  moreover have "fst ` set (AList.delete k m) \<subseteq> set order" by (rule subset_trans [OF delete_keys_subset]) (use assms in \<open>simp add: ordered_cache_def\<close>)
  moreover have "distinct (map fst (AList.delete k m))" using assms by (simp add: ordered_cache_def distinct_delete)
  ultimately show ?thesis using assms by (simp add: ordered_cache_def)
next
  case False
  then have "AList.delete k m = m" by (simp add: delete_idem)
  then show ?thesis using assms by simp
qed

lemma drop_oldest_ordered:
  "drop_oldest cap m order = (m', order') \<Longrightarrow> ordered_cache cap m order \<Longrightarrow>
   ordered_cache cap m' order' \<and> length order' \<le> length order \<and> (order' = [] \<or> length m' < cap) \<and> fst ` set m' \<subseteq> fst ` set m"
proof (induction cap m order rule: drop_oldest.induct)
  case (2 cap m k ks)
  show ?case
  proof (cases "length m \<ge> cap")
    case True
    have "ordered_cache cap (AList.delete k m) (k # ks)" using "2.prems"(2) by (rule ordered_delete)
    moreover have "k \<notin> fst ` set (AList.delete k m)" by (auto simp: AList.delete_eq)
    ultimately have "ordered_cache cap (AList.delete k m) ks" by (auto simp: ordered_cache_def live_places_def)
    moreover have "drop_oldest cap (AList.delete k m) ks = (m', order')" using "2.prems"(1) True by simp
    ultimately have "ordered_cache cap m' order' \<and> length order' \<le> length ks \<and> (order' = [] \<or> length m' < cap) \<and> fst ` set m' \<subseteq> fst ` set (AList.delete k m)"
      using "2.IH" [OF True] by blast
    then show ?thesis using subset_trans [of "fst ` set m'", OF _ delete_keys_subset [of k m]] by simp
  qed (use "2.prems" in auto)
qed auto

lemma evict_ordered:
  assumes "bounded_cache c"
  shows "ordered_cache (sk_cap c) (sk_map (evict c)) (sk_order (evict c)) \<and> length (sk_map (evict c)) < sk_cap c \<and>
    length (sk_order (evict c)) \<le> 2 * sk_cap c + length (sk_map (evict c)) \<and> fst ` set (sk_map (evict c)) \<subseteq> fst ` set (sk_map c) \<and> sk_cap (evict c) = sk_cap c"
proof -
  obtain m order where run: "drop_oldest (sk_cap c) (sk_map c) (sk_order c) = (m, order)" by fastforce
  note d = drop_oldest_ordered [OF run]
  have ord: "ordered_cache (sk_cap c) m order" and small: "order = [] \<or> length m < sk_cap c" and sub: "fst ` set m \<subseteq> fst ` set (sk_map c)"
    using d assms by (auto simp: bounded_cache_def)
  have len: "length m < sk_cap c" using small ord assms by (auto simp: ordered_cache_def bounded_cache_def)
  let ?order = "if length order > 2 * sk_cap c then filter (\<lambda>k. map_of m k \<noteq> None) order else order"
  have live: "(map_of m k \<noteq> None) = (k \<in> fst ` set m)" for k by (simp add: map_of_eq_None_iff)
  have "ordered_cache (sk_cap c) m ?order" and "length ?order \<le> 2 * sk_cap c + length m"
    using ord unfolding live by (auto simp: ordered_cache_def live_places_def)
  then show ?thesis using len sub by (simp add: evict_def run)
qed

lemma put_bounded:
  assumes "bounded_cache c"
  shows "bounded_cache (cache_put repo path hash syms c)"
proof -
  let ?k = "symbol_key repo path hash"
  show ?thesis
  proof (cases "map_of (sk_map c) ?k")
    case None
    note e = evict_ordered [OF assms]
    have fresh: "?k \<notin> fst ` set (sk_map (evict c))" using None e by (metis (no_types) map_of_eq_None_iff subsetD)
    have "live_places (sk_map (evict c) @ [(?k, syms)]) (sk_order (evict c) @ [?k]) \<le> length (sk_order (evict c)) + 1"
      unfolding live_places_def by (rule order_trans [OF length_filter_le]) simp
    then have "ordered_cache (sk_cap c) (sk_map (evict c) @ [(?k, syms)]) (sk_order (evict c) @ [?k])"
      using e fresh by (auto simp: ordered_cache_def)
    then show ?thesis using None e assms by (simp add: cache_put_def Let_def bounded_cache_def update_fresh [OF fresh])
  next
    case (Some s)
    then have here: "?k \<in> fst ` set (sk_map c)" by (metis map_of_eq_None_iff option.distinct(1))
    from update_present [OF here, of syms]
    have keys: "map fst (AList.update ?k syms (sk_map c)) = map fst (sk_map c)" .
    have set: "fst ` set (AList.update ?k syms (sk_map c)) = fst ` set (sk_map c)" using arg_cong [OF keys, of set] by simp
    have len: "length (AList.update ?k syms (sk_map c)) = length (sk_map c)" using arg_cong [OF keys, of length] by simp
    show ?thesis using Some assms by (simp add: cache_put_def Let_def bounded_cache_def ordered_cache_def live_places_def keys set len)
  qed
qed

lemma take_bounded:
  assumes "bounded_cache c"
  shows "bounded_cache (fst (cache_take repo path hash c))"
  using assms ordered_delete [of "sk_cap c" "sk_map c" "sk_order c"] length_delete_le [of "symbol_key repo path hash" "sk_map c"]
  by (auto simp: cache_take_def Let_def bounded_cache_def split: option.splits)

text \<open>
  C32: The symbol cache is bounded: however producers and consumers interleave, it holds at most its capacity of
  files and its order at most three times that, no key twice, and every file it holds has a place in the
  order, so it will be evicted.
\<close>

theorem symbol_cache_is_bounded:
  assumes "cached_state cap c"
  shows "int (length (sk_map c)) \<le> max cap 1 \<and> int (length (sk_order c)) \<le> 3 * max cap 1 \<and> distinct (map fst (sk_map c)) \<and>
    fst ` set (sk_map c) \<subseteq> set (sk_order c)"
proof -
  have "bounded_cache c \<and> int (sk_cap c) = max cap 1" using assms
  proof (induction rule: cached_state.induct)
    case (fresh cap)
    show ?case by (simp add: new_symbol_cache_def bounded_cache_def ordered_cache_def live_places_def)
  next
    case (put cap c repo path hash syms)
    have "sk_cap (cache_put repo path hash syms c) = sk_cap c"
      by (simp add: cache_put_def Let_def evict_def split: prod.splits)
    then show ?case using put by (simp add: put_bounded)
  next
    case (taken cap c repo path hash)
    have "sk_cap (fst (cache_take repo path hash c)) = sk_cap c" by (simp add: cache_take_def Let_def split: option.splits)
    then show ?case using taken by (simp add: take_bounded)
  qed
  then show ?thesis by (auto simp: bounded_cache_def ordered_cache_def)
qed

definition cart_symbols :: "symbol list" where
  "cart_symbols = [\<lparr> sy_name = ''add'', sy_qualified = ''cart.add'', sy_kind = ''function'', sy_start = 3, sy_end = 9 \<rparr>]"

definition a_taken_key :: symbol_cache where
  "a_taken_key = cache_put ''r'' ''c.go'' ''1'' [] (cache_put ''r'' ''a.go'' ''1'' cart_symbols (cache_put ''r'' ''b.go'' ''1'' []
     (fst (cache_take ''r'' ''a.go'' ''1'' (cache_put ''r'' ''a.go'' ''1'' cart_symbols (new_symbol_cache 2))))))"

theorem symbol_cache_is_bounded_witness:
  "cached_state 2 a_taken_key \<and> int (length (sk_map a_taken_key)) \<le> 2"
proof -
  have "cached_state 2 a_taken_key" unfolding a_taken_key_def by (intro cached_state.intros)
  then show ?thesis using symbol_cache_is_bounded [of 2 a_taken_key] by simp
qed

text \<open>
  The place a taken key leaves behind is taken for the key when it is published again: here the newest entry
  is evicted, and the older one stays.
\<close>

theorem taken_key_is_evicted_early:
  "snd (cache_take ''r'' ''a.go'' ''1'' a_taken_key) = None \<and> snd (cache_take ''r'' ''b.go'' ''1'' a_taken_key) = Some []"
  by (intro conjI) code_simp+

end
