(* ===== verification/Index_Keyword.thy ===== *)
theory Index_Keyword
  imports Index_Chunks Ast_Indexer
begin

text \<open>
  The keyword indexer (\<open>internal/index/bm25/indexer.go\<close>): the documents of a window of files, their labels, and
  the deletion of what a file no longer has. The full-text engine is a parameter: what it holds, its answers to
  the queries the indexer asks, and the effect of a batch. A batch is the engine's map from ids to a document
  or a deletion, as an association list; adding to one does not fail.
\<close>

section \<open>The engine\<close>

record keyword_doc =
  kd_repo :: string
  kd_file :: string
  kd_content :: string
  kd_language :: string
  kd_start :: int
  kd_end :: int
  kd_label :: "(string \<times> string) option"
  kd_split :: "string option"
  kd_path :: "string option"

type_synonym batch = "(string \<times> keyword_doc option) list"

text \<open>
  \<open>bl_scan x repo paths size from\<close>: a page of the ids of the documents of these files, by id; \<open>bl_repo x repo
  size\<close>: so many ids of documents of a repository, in some order; \<open>bl_docs\<close> is what the engine holds.
\<close>

record 'x bleve =
  bl_docs :: "'x \<Rightarrow> string \<Rightarrow> keyword_doc option"
  bl_scan :: "'x \<Rightarrow> string \<Rightarrow> string list \<Rightarrow> nat \<Rightarrow> nat \<Rightarrow> string + string list"
  bl_repo :: "'x \<Rightarrow> string \<Rightarrow> nat \<Rightarrow> string + string list"
  bl_apply :: "batch \<Rightarrow> 'x \<Rightarrow> string + 'x"

record keyword_settings =
  ks_split :: bool
  ks_paths :: bool

definition chunk_doc_id :: "string \<Rightarrow> string \<Rightarrow> nat \<Rightarrow> string" where
  "chunk_doc_id repo path ordinal = repo @ '':'' @ path @ '':chunk'' @ itoa (int ordinal)"

definition chunk_scan_page :: nat where "chunk_scan_page = 4096"

definition chunk_scan_paths :: nat where "chunk_scan_paths = 512"

function path_groups :: "string list \<Rightarrow> string list list" where
  "path_groups paths = (if paths = [] then [] else take chunk_scan_paths paths # path_groups (drop chunk_scan_paths paths))"
  by auto
termination by (relation "measure length") (auto simp: chunk_scan_paths_def)

declare path_groups.simps [simp del]

partial_function (option) scan_pages :: "'x bleve \<Rightarrow> 'x \<Rightarrow> string \<Rightarrow> string list \<Rightarrow> nat \<Rightarrow> string list \<Rightarrow> (string + string list) option" where
  "scan_pages bl x repo paths from ids =
     (case bl_scan bl x repo paths chunk_scan_page from of
        Inl err \<Rightarrow> Some (Inl (''search file chunks: '' @ err))
      | Inr hits \<Rightarrow>
          if length hits < chunk_scan_page then Some (Inr (ids @ hits))
          else scan_pages bl x repo paths (from + length hits) (ids @ hits))"

declare scan_pages.simps [code]

fun scan_groups :: "'x bleve \<Rightarrow> 'x \<Rightarrow> string \<Rightarrow> string list list \<Rightarrow> string list \<Rightarrow> (string + string list) option" where
  "scan_groups bl x repo [] ids = Some (Inr ids)"
| "scan_groups bl x repo (g # gs) ids =
     (case scan_pages bl x repo g 0 ids of
        None \<Rightarrow> None
      | Some (Inl err) \<Rightarrow> Some (Inl err)
      | Some (Inr ids) \<Rightarrow> scan_groups bl x repo gs ids)"

definition chunk_ids :: "'x bleve \<Rightarrow> 'x \<Rightarrow> string \<Rightarrow> string list \<Rightarrow> (string + string list) option" where
  "chunk_ids bl x repo paths = scan_groups bl x repo (path_groups paths) []"

section \<open>Labels\<close>

definition overlap_of :: "int \<Rightarrow> int \<Rightarrow> symbol \<Rightarrow> int" where
  "overlap_of s e u = min e (sy_end u) - max s (sy_start u) + 1"

definition symbol_size :: "symbol \<Rightarrow> int" where
  "symbol_size u = sy_end u - sy_start u + 1"

definition label_step :: "int \<Rightarrow> int \<Rightarrow> symbol option \<Rightarrow> symbol \<Rightarrow> symbol option" where
  "label_step s e best u =
     (if sy_name u = [] \<or> overlap_of s e u \<le> 0 then best
      else case best of
        None \<Rightarrow> Some u
      | Some b \<Rightarrow>
          if overlap_of s e u > overlap_of s e b \<or>
             overlap_of s e u = overlap_of s e b \<and> symbol_size u < symbol_size b \<or>
             overlap_of s e u = overlap_of s e b \<and> symbol_size u = symbol_size b \<and> sy_name u < sy_name b
          then Some u else best)"

definition dominant_unit :: "symbol list \<Rightarrow> int \<Rightarrow> int \<Rightarrow> string \<times> string" where
  "dominant_unit syms s e =
     (let e = (if e < s then s else e) in
      case foldl (label_step s e) None syms of
        None \<Rightarrow> ([], [])
      | Some b \<Rightarrow> (if sy_qualified b = [] then sy_name b else sy_qualified b, sy_kind b))"

section \<open>Indexing a window\<close>

record chunked_file =
  kf_path :: string
  kf_hash :: string
  kf_language :: string
  kf_content :: string
  kf_chunks :: "chunk list"

definition build_document :: "keyword_settings \<Rightarrow> string \<Rightarrow> string \<Rightarrow> string \<Rightarrow> chunk \<Rightarrow> keyword_doc" where
  "build_document ks repo path language c =
     \<lparr> kd_repo = repo, kd_file = path, kd_content = ch_text c, kd_language = language, kd_start = ch_start c, kd_end = ch_end c, kd_label = None,
       kd_split = (if ks_split ks then Some (ch_text c) else None), kd_path = (if ks_paths ks then Some path else None) \<rparr>"

definition label_document :: "symbol list \<Rightarrow> chunk \<Rightarrow> keyword_doc \<Rightarrow> keyword_doc" where
  "label_document syms c d =
     (case dominant_unit syms (ch_start c) (ch_end c) of (symbol, kd) \<Rightarrow> if symbol \<noteq> [] then d\<lparr> kd_label := Some (symbol, kd) \<rparr> else d)"

fun index_chunks_from :: "keyword_settings \<Rightarrow> string \<Rightarrow> chunked_file \<Rightarrow> symbol list \<Rightarrow> nat \<Rightarrow> chunk list \<Rightarrow> batch \<Rightarrow> batch" where
  "index_chunks_from ks repo cf syms i [] b = b"
| "index_chunks_from ks repo cf syms i (c # cs) b =
     index_chunks_from ks repo cf syms (Suc i) cs
       (AList.update (chunk_doc_id repo (kf_path cf) i) (Some (label_document syms c (build_document ks repo (kf_path cf) (kf_language cf) c))) b)"

definition index_chunks :: "keyword_settings \<Rightarrow> string \<Rightarrow> chunked_file \<Rightarrow> symbol list \<Rightarrow> batch \<Rightarrow> batch" where
  "index_chunks ks repo cf syms b = index_chunks_from ks repo cf syms 0 (kf_chunks cf) b"

fun cut_files :: "(string \<Rightarrow> string + string) \<Rightarrow> ast_source list \<Rightarrow> ast_result \<Rightarrow> chunked_file list \<times> ast_result" where
  "cut_files read [] r = ([], r)"
| "cut_files read (f # fs) r =
     (case (case as_content f of Some c \<Rightarrow> Inr c | None \<Rightarrow> read (as_path f)) of
        Inl err \<Rightarrow> cut_files read fs (fail_file (as_path f) err r)
      | Inr content \<Rightarrow>
          let cf = \<lparr> kf_path = as_path f, kf_hash = as_hash f, kf_language = as_language f, kf_content = content,
                kf_chunks = window_chunk (new_window_chunker \<lparr> cfg_method = [], cfg_window = 0, cfg_overlap = 0 \<rparr>)
                  \<lparr> cin_path = as_path f, cin_language = as_language f, cin_content = content \<rparr> \<rparr>;
              (cfs, r) = cut_files read fs (r\<lparr> ar_indexed := ar_indexed r + 1 \<rparr>)
          in (cf # cfs, r))"

definition kept_ids :: "string \<Rightarrow> chunked_file list \<Rightarrow> string list" where
  "kept_ids repo cfs = concat (map (\<lambda>cf. map (chunk_doc_id repo (kf_path cf)) [0..<length (kf_chunks cf)]) cfs)"

definition drop_stale_chunks :: "'x bleve \<Rightarrow> 'x \<Rightarrow> string \<Rightarrow> string list \<Rightarrow> chunked_file list \<Rightarrow> batch \<Rightarrow> (string + batch) option" where
  "drop_stale_chunks bl x repo reread cfs b =
     (if length reread = 0 then Some (Inr b)
      else case chunk_ids bl x repo reread of
        None \<Rightarrow> None
      | Some (Inl err) \<Rightarrow> Some (Inl err)
      | Some (Inr indexed) \<Rightarrow>
          if length indexed = 0 then Some (Inr b)
          else Some (Inr (foldl (\<lambda>b i. AList.update i None b) b (filter (\<lambda>i. i \<notin> set (kept_ids repo cfs)) indexed))))"

definition first_sweep :: "keyword_settings \<Rightarrow> string \<Rightarrow> batch \<times> symbol_cache \<times> chunked_file list \<Rightarrow> chunked_file \<Rightarrow> batch \<times> symbol_cache \<times> chunked_file list" where
  "first_sweep ks repo st cf =
     (case st of (b, c, held) \<Rightarrow>
        (case cache_take repo (kf_path cf) (kf_hash cf) c of
           (c, None) \<Rightarrow> (b, c, held @ [cf])
         | (c, Some syms) \<Rightarrow> (index_chunks ks repo cf syms b, c, held)))"

definition symbol_units :: "(string \<Rightarrow> string \<Rightarrow> string \<Rightarrow> parsed_unit list option) \<Rightarrow> chunked_file \<Rightarrow> symbol list" where
  "symbol_units parse cf =
     (if \<not> symbols_annotated (kf_language cf) then []
      else case parse (kf_language cf) (kf_path cf) (kf_content cf) of None \<Rightarrow> [] | Some us \<Rightarrow> project_symbols us)"

definition second_sweep :: "(string \<Rightarrow> string \<Rightarrow> string \<Rightarrow> parsed_unit list option) \<Rightarrow> keyword_settings \<Rightarrow> string \<Rightarrow> batch \<times> symbol_cache \<Rightarrow> chunked_file \<Rightarrow> batch \<times> symbol_cache" where
  "second_sweep parse ks repo st cf =
     (case st of (b, c) \<Rightarrow>
        (case cache_take repo (kf_path cf) (kf_hash cf) c of
           (c, Some syms) \<Rightarrow> (index_chunks ks repo cf syms b, c)
         | (c, None) \<Rightarrow> (index_chunks ks repo cf (if symbols_annotated (kf_language cf) then symbol_units parse cf else []) b, c)))"

text \<open>
  The AST indexer publishes symbols while this indexer runs: \<open>ke_between\<close> is what happens to the cache between
  the two sweeps, in a run where the other indexer pauses during each sweep.
\<close>

record keyword_env =
  ke_read :: "string \<Rightarrow> string + string"
  ke_parse :: "string \<Rightarrow> string \<Rightarrow> string \<Rightarrow> parsed_unit list option"
  ke_settings :: keyword_settings
  ke_between :: "symbol_cache \<Rightarrow> symbol_cache"

definition label_files :: "keyword_env \<Rightarrow> string \<Rightarrow> chunked_file list \<Rightarrow> batch \<Rightarrow> symbol_cache \<Rightarrow> batch \<times> symbol_cache" where
  "label_files env repo cfs b c =
     (let (b, c, held) = foldl (first_sweep (ke_settings env) repo) (b, c, []) cfs
      in foldl (second_sweep (ke_parse env) (ke_settings env) repo) (b, ke_between env c) held)"

definition stale_scan :: "'x bleve \<Rightarrow> 'x \<Rightarrow> string \<Rightarrow> chunked_file list \<Rightarrow> ast_result \<Rightarrow> (batch \<times> ast_result) option" where
  "stale_scan bl x repo cfs r =
     (case drop_stale_chunks bl x repo (map kf_path cfs) cfs [] of
        None \<Rightarrow> None
      | Some (Inr b) \<Rightarrow> Some (b, r)
      | Some (Inl err) \<Rightarrow> Some ([], r\<lparr> ar_failed := ar_failed r + 1, ar_errors := ar_errors r @ [''stale chunk scan: '' @ err] \<rparr>))"

definition keyword_index :: "'x bleve \<Rightarrow> keyword_env \<Rightarrow> string \<Rightarrow> ast_source list \<Rightarrow> 'x \<times> symbol_cache \<Rightarrow> ('x \<times> symbol_cache \<times> (string + ast_result)) option" where
  "keyword_index bl env repo files xc =
     (case xc of (x, c) \<Rightarrow>
        let (cfs, r) = cut_files (ke_read env) files new_result in
        (case stale_scan bl x repo cfs r of
           None \<Rightarrow> None
         | Some (b, r) \<Rightarrow>
             let (b, c) = label_files env repo cfs b c in
             (case bl_apply bl b x of
                Inl err \<Rightarrow> Some (x, c, Inl (''batch index: '' @ err))
              | Inr x \<Rightarrow> Some (x, c, Inr r))))"

section \<open>Removal\<close>

definition delete_ids :: "'x bleve \<Rightarrow> string list \<Rightarrow> 'x \<Rightarrow> string + 'x" where
  "delete_ids bl ids x = bl_apply bl (foldl (\<lambda>b i. AList.update i None b) [] ids) x"

partial_function (option) delete_by_repo :: "'x bleve \<Rightarrow> string \<Rightarrow> 'x \<Rightarrow> ('x \<times> string option) option" where
  "delete_by_repo bl repo x =
     (case bl_repo bl x repo 1000 of
        Inl err \<Rightarrow> Some (x, Some (''search for documents: '' @ err))
      | Inr hits \<Rightarrow>
          if length hits = 0 then Some (x, None)
          else (case delete_ids bl hits x of
                  Inl err \<Rightarrow> Some (x, Some (''batch delete: '' @ err))
                | Inr x \<Rightarrow> delete_by_repo bl repo x))"

declare delete_by_repo.simps [code]

definition keyword_remove :: "'x bleve \<Rightarrow> string \<Rightarrow> string list \<Rightarrow> 'x \<Rightarrow> ('x \<times> string option) option" where
  "keyword_remove bl repo paths x =
     (if length paths = 0 then delete_by_repo bl repo x
      else case chunk_ids bl x repo paths of
        None \<Rightarrow> None
      | Some (Inl err) \<Rightarrow> Some (x, Some err)
      | Some (Inr ids) \<Rightarrow>
          if length ids = 0 then Some (x, None)
          else (case delete_ids bl ids x of Inl err \<Rightarrow> Some (x, Some (''batch delete: '' @ err)) | Inr x \<Rightarrow> Some (x, None)))"

end
