(* ===== verification/Index_Keyword_Facts.thy ===== *)
theory Index_Keyword_Facts
  imports Index_Keyword
begin

text \<open>
  What the keyword index holds after a window of files: the chunks of each file that was read, and nothing
  else of it. The engine is assumed to answer the indexer's queries exactly and to apply a batch as a whole.
\<close>

section \<open>The engine as documented\<close>

definition docs_of :: "'x bleve \<Rightarrow> 'x \<Rightarrow> string \<Rightarrow> string list \<Rightarrow> string set" where
  "docs_of bl x repo paths = {i. \<exists>d. bl_docs bl x i = Some d \<and> kd_repo d = repo \<and> kd_file d \<in> set paths}"

definition repo_docs :: "'x bleve \<Rightarrow> 'x \<Rightarrow> string \<Rightarrow> string set" where
  "repo_docs bl x repo = {i. \<exists>d. bl_docs bl x i = Some d \<and> kd_repo d = repo}"

definition document_index :: "'x bleve \<Rightarrow> bool" where
  "document_index bl \<longleftrightarrow>
     (\<forall>x. finite (dom (bl_docs bl x))) \<and>
     (\<forall>x repo paths. \<exists>ids. set ids = docs_of bl x repo paths \<and> (\<forall>size off. bl_scan bl x repo paths size off = Inr (take size (drop off ids)))) \<and>
     (\<forall>x repo size. \<exists>hits. bl_repo bl x repo size = Inr hits \<and> set hits \<subseteq> repo_docs bl x repo \<and> (0 < size \<and> repo_docs bl x repo \<noteq> {} \<longrightarrow> hits \<noteq> [])) \<and>
     (\<forall>b x. \<exists>x'. bl_apply bl b x = Inr x' \<and> bl_docs bl x' = (\<lambda>i. case map_of b i of None \<Rightarrow> bl_docs bl x i | Some v \<Rightarrow> v))"

lemma scan_pages_all:
  assumes "\<forall>size off. bl_scan bl x repo paths size off = Inr (take size (drop off all))"
  shows "scan_pages bl x repo paths off ids = Some (Inr (ids @ drop off all))"
proof (induction "length all - off" arbitrary: off ids rule: less_induct)
  case less
  let ?hits = "take chunk_scan_page (drop off all)"
  show ?case
  proof (cases "length ?hits < chunk_scan_page")
    case True
    then have "?hits = drop off all" by simp
    then show ?thesis using assms True by (subst scan_pages.simps) simp
  next
    case False
    then have len: "length ?hits = chunk_scan_page" "chunk_scan_page \<le> length all - off" by simp_all
    have "length all - (off + chunk_scan_page) < length all - off" using len(2) by (simp add: chunk_scan_page_def)
    from less [OF this, of "ids @ ?hits"]
    have "scan_pages bl x repo paths (off + length ?hits) (ids @ ?hits) = Some (Inr ((ids @ ?hits) @ drop (off + chunk_scan_page) all))"
      unfolding len(1) .
    moreover have "?hits @ drop (off + chunk_scan_page) all = drop off all" by (metis add.commute append_take_drop_id drop_drop)
    moreover have "scan_pages bl x repo paths off ids = scan_pages bl x repo paths (off + length ?hits) (ids @ ?hits)"
      using assms False by (subst scan_pages.simps) (simp del: length_take length_drop)
    ultimately show ?thesis by (metis append.assoc)
  qed
qed

lemma path_groups_set: "(\<Union>g \<in> set (path_groups paths). set g) = set paths"
proof (induction paths rule: path_groups.induct)
  case (1 paths)
  show ?case
  proof (cases "paths = []")
    case False
    have "set paths = set (take chunk_scan_paths paths) \<union> set (drop chunk_scan_paths paths)" by (metis append_take_drop_id set_append)
    then show ?thesis using 1 [OF False] False by (subst path_groups.simps) simp
  qed (simp add: path_groups.simps)
qed

lemma scan_groups_all:
  assumes "document_index bl"
  shows "\<exists>all. scan_groups bl x repo gs ids = Some (Inr all) \<and> set all = set ids \<union> (\<Union>g \<in> set gs. docs_of bl x repo g)"
proof (induction gs arbitrary: ids)
  case (Cons g gs)
  obtain found where found: "set found = docs_of bl x repo g" "\<forall>size off. bl_scan bl x repo g size off = Inr (take size (drop off found))"
    using assms unfolding document_index_def by meson
  obtain all where "scan_groups bl x repo gs (ids @ found) = Some (Inr all)" "set all = set (ids @ found) \<union> (\<Union>g \<in> set gs. docs_of bl x repo g)"
    using Cons by blast
  then show ?case using scan_pages_all [OF found(2), of 0 ids] found(1) by (intro exI [of _ all]) auto
qed simp

lemma chunk_ids_all:
  assumes "document_index bl"
  shows "\<exists>all. chunk_ids bl x repo paths = Some (Inr all) \<and> set all = docs_of bl x repo paths"
proof -
  have "(\<Union>g \<in> set (path_groups paths). docs_of bl x repo g) = docs_of bl x repo paths"
    using path_groups_set [of paths] by (auto simp: docs_of_def)
  then show ?thesis using scan_groups_all [OF assms, of x repo "path_groups paths" "[]"] by (auto simp: chunk_ids_def)
qed

section \<open>Ids\<close>

definition plain_repo :: "string \<Rightarrow> bool" where
  "plain_repo repo \<longleftrightarrow> CHR '':'' \<notin> set repo"

lemma chunk_doc_id_inject:
  assumes "plain_repo r" and "plain_repo r'"
  shows "chunk_doc_id r p n = chunk_doc_id r' p' n' \<longleftrightarrow> r = r' \<and> p = p' \<and> n = n'"
proof
  assume eq: "chunk_doc_id r p n = chunk_doc_id r' p' n'"
  then have "r @ CHR '':'' # (p @ '':chunk'' @ itoa (int n)) = r' @ CHR '':'' # (p' @ '':chunk'' @ itoa (int n'))" by (simp add: chunk_doc_id_def)
  from split_on_head [OF this] assms have r: "r = r'" and rest: "p @ '':chunk'' @ itoa (int n) = p' @ '':chunk'' @ itoa (int n')"
    by (auto simp: plain_repo_def)
  have num: "CHR '':'' \<notin> set (''chunk'' @ itoa (int k))" for k :: nat using itoa_no_colon [of "int k"] by simp
  have "p @ CHR '':'' # (''chunk'' @ itoa (int n)) = p' @ CHR '':'' # (''chunk'' @ itoa (int n'))" using rest by simp
  from split_on_tail [OF this num num] show "r = r' \<and> p = p' \<and> n = n'" using r itoa_inject by simp
qed simp

definition keyed :: "'x bleve \<Rightarrow> 'x \<Rightarrow> bool" where
  "keyed bl x \<longleftrightarrow> (\<forall>i d. bl_docs bl x i = Some d \<longrightarrow> plain_repo (kd_repo d) \<and> (\<exists>n. i = chunk_doc_id (kd_repo d) (kd_file d) n))"

section \<open>The batch\<close>

lemma chunk_doc_id_ordinal [simp]: "chunk_doc_id r p n = chunk_doc_id r p m \<longleftrightarrow> n = m"
  by (simp add: chunk_doc_id_def)

lemma index_chunks_from_old:
  assumes "\<forall>j < length cs. k \<noteq> chunk_doc_id repo (kf_path cf) (i + j)"
  shows "map_of (index_chunks_from ks repo cf syms i cs b) k = map_of b k"
  using assms
proof (induction cs arbitrary: i b)
  case (Cons c cs)
  have "\<forall>j < length cs. k \<noteq> chunk_doc_id repo (kf_path cf) (Suc i + j)" using Cons.prems by force
  moreover have "k \<noteq> chunk_doc_id repo (kf_path cf) i" using Cons.prems by force
  ultimately show ?case using Cons.IH by (simp add: update_conv')
qed simp

lemma index_chunks_from_new:
  assumes "j < length cs"
  shows "map_of (index_chunks_from ks repo cf syms i cs b) (chunk_doc_id repo (kf_path cf) (i + j)) =
    Some (Some (label_document syms (cs ! j) (build_document ks repo (kf_path cf) (kf_language cf) (cs ! j))))"
  using assms
proof (induction cs arbitrary: i b j)
  case (Cons c cs)
  show ?case
  proof (cases j)
    case 0
    then show ?thesis by (simp add: index_chunks_from_old update_conv')
  next
    case (Suc j')
    then show ?thesis using Cons.IH [of j' "Suc i"] Cons.prems by simp
  qed
qed simp

text \<open>The labelled files of a window as pairs of a file and its symbols, in the order they are written.\<close>

definition write_file :: "keyword_settings \<Rightarrow> string \<Rightarrow> batch \<Rightarrow> chunked_file \<times> symbol list \<Rightarrow> batch" where
  "write_file ks repo b fs = index_chunks ks repo (fst fs) (snd fs) b"

lemma first_sweep_writes:
  "foldl (first_sweep ks repo) (b, c, held) cfs = (b', c', held') \<Longrightarrow>
   \<exists>ps. b' = foldl (write_file ks repo) b ps \<and> mset (map fst ps) + mset held' = mset held + mset cfs"
proof (induction cfs arbitrary: b c held)
  case (Cons cf cfs)
  obtain c1 took where t: "cache_take repo (kf_path cf) (kf_hash cf) c = (c1, took)" by fastforce
  show ?case
  proof (cases took)
    case None
    then have "first_sweep ks repo (b, c, held) cf = (b, c1, held @ [cf])" using t by (simp add: first_sweep_def)
    then have "foldl (first_sweep ks repo) (b, c1, held @ [cf]) cfs = (b', c', held')" using Cons.prems by simp
    from Cons.IH [OF this] show ?thesis by simp
  next
    case (Some syms)
    then have "first_sweep ks repo (b, c, held) cf = (write_file ks repo b (cf, syms), c1, held)" using t by (simp add: first_sweep_def write_file_def)
    then have "foldl (first_sweep ks repo) (write_file ks repo b (cf, syms), c1, held) cfs = (b', c', held')" using Cons.prems by simp
    from Cons.IH [OF this] obtain ps where "b' = foldl (write_file ks repo) (write_file ks repo b (cf, syms)) ps"
      "mset (map fst ps) + mset held' = mset held + mset cfs" by blast
    then show ?thesis by (intro exI [of _ "(cf, syms) # ps"]) simp
  qed
qed simp

lemma second_sweep_writes:
  "foldl (second_sweep parse ks repo) (b, c) cfs = (b', c') \<Longrightarrow> \<exists>ps. b' = foldl (write_file ks repo) b ps \<and> map fst ps = cfs"
proof (induction cfs arbitrary: b c)
  case (Cons cf cfs)
  obtain c1 took where t: "cache_take repo (kf_path cf) (kf_hash cf) c = (c1, took)" by fastforce
  obtain syms where "second_sweep parse ks repo (b, c) cf = (write_file ks repo b (cf, syms), c1)"
    using t by (cases took) (auto simp: second_sweep_def write_file_def)
  then have "foldl (second_sweep parse ks repo) (write_file ks repo b (cf, syms), c1) cfs = (b', c')" using Cons.prems by simp
  from Cons.IH [OF this] obtain ps where "b' = foldl (write_file ks repo) (write_file ks repo b (cf, syms)) ps" "map fst ps = cfs" by blast
  then show ?case by (intro exI [of _ "(cf, syms) # ps"]) simp
qed simp

lemma label_files_writes:
  assumes "label_files env repo cfs b c = (b', c')"
  shows "\<exists>ps. b' = foldl (write_file (ke_settings env) repo) b ps \<and> mset (map fst ps) = mset cfs"
proof -
  obtain b1 c1 held where one: "foldl (first_sweep (ke_settings env) repo) (b, c, []) cfs = (b1, c1, held)" by (metis prod.exhaust)
  obtain ps where ps: "b1 = foldl (write_file (ke_settings env) repo) b ps" "mset (map fst ps) + mset held = mset cfs"
    using first_sweep_writes [OF one] by auto
  have two: "foldl (second_sweep (ke_parse env) (ke_settings env) repo) (b1, ke_between env c1) held = (b', c')"
    using assms one by (simp add: label_files_def)
  obtain qs where "b' = foldl (write_file (ke_settings env) repo) b1 qs" "map fst qs = held" using second_sweep_writes [OF two] by blast
  then show ?thesis using ps by (intro exI [of _ "ps @ qs"]) simp
qed

definition ids_of :: "string \<Rightarrow> chunked_file \<Rightarrow> string set" where
  "ids_of repo cf = chunk_doc_id repo (kf_path cf) ` {..<length (kf_chunks cf)}"

lemma write_file_old: "k \<notin> ids_of repo (fst fs) \<Longrightarrow> map_of (write_file ks repo b fs) k = map_of b k"
  unfolding write_file_def index_chunks_def by (rule index_chunks_from_old) (auto simp: ids_of_def)

lemma write_files_old: "\<forall>fs \<in> set ps. k \<notin> ids_of repo (fst fs) \<Longrightarrow> map_of (foldl (write_file ks repo) b ps) k = map_of b k"
  by (induction ps arbitrary: b) (simp_all add: write_file_old)

lemma write_files_new:
  assumes "(cf, syms) \<in> set ps" and "distinct (map (kf_path \<circ> fst) ps)" and "plain_repo repo" and "n < length (kf_chunks cf)"
  shows "map_of (foldl (write_file ks repo) b ps) (chunk_doc_id repo (kf_path cf) n) =
    Some (Some (label_document syms (kf_chunks cf ! n) (build_document ks repo (kf_path cf) (kf_language cf) (kf_chunks cf ! n))))"
proof -
  obtain us vs where ps: "ps = us @ (cf, syms) # vs" using split_list [OF assms(1)] by blast
  have "\<forall>fs \<in> set vs. chunk_doc_id repo (kf_path cf) n \<notin> ids_of repo (fst fs)"
    using assms(2,3) by (auto simp: ps ids_of_def chunk_doc_id_inject image_iff)
  then show ?thesis using index_chunks_from_new [OF assms(4), of ks repo cf syms 0]
    by (simp add: ps write_files_old write_file_def index_chunks_def)
qed

lemma delete_entries: "map_of (foldl (\<lambda>b i. AList.update i None b) b ids) k = (if k \<in> set ids then Some None else map_of b k)"
  by (induction ids arbitrary: b) (auto simp: update_conv')

section \<open>A window\<close>

lemma cut_files_paths:
  "cut_files read files r = (cfs, r') \<Longrightarrow> map kf_path cfs = map as_path (filter (\<lambda>f. as_content f \<noteq> None \<or> \<not> isl (read (as_path f))) files)"
proof (induction files arbitrary: r cfs r')
  case (Cons f files)
  show ?case
  proof (cases "case as_content f of Some c \<Rightarrow> Inr c | None \<Rightarrow> read (as_path f)")
    case (Inl err)
    then have "as_content f = None \<and> isl (read (as_path f))" by (auto split: option.splits)
    then show ?thesis using Inl Cons.prems Cons.IH [of "fail_file (as_path f) err r"] by simp
  next
    case (Inr content)
    obtain cf cfs1 where "cut_files read files (r\<lparr> ar_indexed := ar_indexed r + 1 \<rparr>) = (cfs1, r')" "cfs = cf # cfs1" "kf_path cf = as_path f"
      using Cons.prems Inr by (auto simp: Let_def split: prod.splits)
    moreover have "as_content f \<noteq> None \<or> \<not> isl (read (as_path f))" using Inr by (auto split: option.splits)
    ultimately show ?thesis using Cons.IH [of "r\<lparr> ar_indexed := ar_indexed r + 1 \<rparr>"] by simp
  qed
qed simp

lemma cut_files_counts:
  "cut_files read files r = (cfs, r') \<Longrightarrow> ar_indexed r' = ar_indexed r + int (length cfs) \<and> ar_indexed r' + ar_failed r' = ar_indexed r + ar_failed r + int (length files)"
proof (induction files arbitrary: r cfs r')
  case (Cons f files)
  show ?case
  proof (cases "case as_content f of Some c \<Rightarrow> Inr c | None \<Rightarrow> read (as_path f)")
    case (Inl err)
    then show ?thesis using Cons.prems Cons.IH [of "fail_file (as_path f) err r"] by (simp add: fail_file_def)
  next
    case (Inr content)
    obtain cfs1 where "cut_files read files (r\<lparr> ar_indexed := ar_indexed r + 1 \<rparr>) = (cfs1, r')" "length cfs = Suc (length cfs1)"
      using Cons.prems Inr by (auto simp: Let_def split: prod.splits)
    then show ?thesis using Cons.IH [of "r\<lparr> ar_indexed := ar_indexed r + 1 \<rparr>"] by simp
  qed
qed simp

lemma stale_batch:
  assumes "document_index bl"
  shows "\<exists>b. stale_scan bl x repo cfs r = Some (b, r) \<and>
    (\<forall>k. map_of b k = (if k \<in> docs_of bl x repo (map kf_path cfs) \<and> k \<notin> set (kept_ids repo cfs) then Some None else None))"
proof (cases "length (map kf_path cfs) = 0")
  case True
  then show ?thesis by (simp add: stale_scan_def drop_stale_chunks_def docs_of_def)
next
  case False
  obtain all where all: "chunk_ids bl x repo (map kf_path cfs) = Some (Inr all)" "set all = docs_of bl x repo (map kf_path cfs)"
    using chunk_ids_all [OF assms] by blast
  let ?b = "foldl (\<lambda>b i. AList.update i None b) [] (filter (\<lambda>i. i \<notin> set (kept_ids repo cfs)) all) :: batch"
  have "drop_stale_chunks bl x repo (map kf_path cfs) cfs [] = Some (Inr ?b)"
    using False all by (simp add: drop_stale_chunks_def)
  then show ?thesis using all(2) by (intro exI [of _ ?b]) (simp add: stale_scan_def delete_entries)
qed

lemma kept_ids_set: "set (kept_ids repo cfs) = (\<Union>cf \<in> set cfs. ids_of repo cf)"
  by (auto simp: kept_ids_def ids_of_def)

lemma label_document_keys [simp]: "kd_repo (label_document syms c d) = kd_repo d" "kd_file (label_document syms c d) = kd_file d"
  by (simp_all add: label_document_def split: prod.splits)

lemma build_document_keys [simp]: "kd_repo (build_document ks repo path lang c) = repo" "kd_file (build_document ks repo path lang c) = path"
  by (simp_all add: build_document_def)

text \<open>
  C33: Indexing a window replaces its files: a document engine that keeps its promises ends up with one document
  for each chunk of each file that was read, in the fields the chunk has, and no other document of the file;
  the documents of every other file stay.
\<close>

theorem keyword_window_replaces_its_files:
  assumes "document_index bl" and "keyed bl x" and "plain_repo repo" and "distinct (map as_path files)"
  shows "\<exists>x' c' r. keyword_index bl env repo files (x, c) = Some (x', c', Inr r) \<and> keyed bl x' \<and>
    ar_indexed r + ar_failed r = int (length files) \<and>
    (\<forall>cf \<in> set (fst (cut_files (ke_read env) files new_result)). \<forall>n.
       if n < length (kf_chunks cf)
       then \<exists>syms. bl_docs bl x' (chunk_doc_id repo (kf_path cf) n) =
         Some (label_document syms (kf_chunks cf ! n) (build_document (ke_settings env) repo (kf_path cf) (kf_language cf) (kf_chunks cf ! n)))
       else bl_docs bl x' (chunk_doc_id repo (kf_path cf) n) = None) \<and>
    (\<forall>rp path n. plain_repo rp \<and> (rp \<noteq> repo \<or> path \<notin> kf_path ` set (fst (cut_files (ke_read env) files new_result))) \<longrightarrow>
       bl_docs bl x' (chunk_doc_id rp path n) = bl_docs bl x (chunk_doc_id rp path n))"
proof -
  obtain cfs r where cut: "cut_files (ke_read env) files new_result = (cfs, r)" by fastforce
  have paths: "distinct (map kf_path cfs)" using cut_files_paths [OF cut] assms(4) by (simp add: distinct_map_filter)
  obtain b where b: "stale_scan bl x repo cfs r = Some (b, r)"
    "\<And>k. map_of b k = (if k \<in> docs_of bl x repo (map kf_path cfs) \<and> k \<notin> set (kept_ids repo cfs) then Some None else None)"
    using stale_batch [OF assms(1)] by blast
  obtain b' c' where label: "label_files env repo cfs b c = (b', c')" by fastforce
  obtain ps where ps: "b' = foldl (write_file (ke_settings env) repo) b ps" "mset (map fst ps) = mset cfs"
    using label_files_writes [OF label] by blast
  have files: "fst ` set ps = set cfs" using mset_eq_setD [OF ps(2)] by simp
  have "mset (map (kf_path \<circ> fst) ps) = mset (map kf_path cfs)" using ps(2) by (metis map_map mset_map)
  then have dist: "distinct (map (kf_path \<circ> fst) ps)" using paths mset_eq_imp_distinct_iff by blast
  obtain x' where x': "bl_apply bl b' x = Inr x'" "bl_docs bl x' = (\<lambda>i. case map_of b' i of None \<Rightarrow> bl_docs bl x i | Some v \<Rightarrow> v)"
    using assms(1) unfolding document_index_def by meson
  have old: "map_of b' k = map_of b k" if "k \<notin> set (kept_ids repo cfs)" for k
    unfolding ps(1) by (rule write_files_old) (use that files in \<open>auto simp: kept_ids_set\<close>)
  have new: "\<exists>syms. bl_docs bl x' (chunk_doc_id repo (kf_path cf) n) =
      Some (label_document syms (kf_chunks cf ! n) (build_document (ke_settings env) repo (kf_path cf) (kf_language cf) (kf_chunks cf ! n)))"
    if "cf \<in> set cfs" "n < length (kf_chunks cf)" for cf n
  proof -
    have "cf \<in> fst ` set ps" using that(1) files by simp
    then obtain syms where "(cf, syms) \<in> set ps" by auto
    from write_files_new [OF this dist assms(3) that(2), of "ke_settings env" b] show ?thesis
      unfolding ps(1) [symmetric] by (intro exI [of _ syms]) (simp add: x'(2))
  qed
  have here: "chunk_doc_id repo path n \<in> set (kept_ids repo cfs) \<longleftrightarrow> (\<exists>cf \<in> set cfs. kf_path cf = path \<and> n < length (kf_chunks cf))" for path n
    using assms(3) by (auto simp: kept_ids_set ids_of_def chunk_doc_id_inject)
  have indexed: "chunk_doc_id rp path n \<in> docs_of bl x repo (map kf_path cfs) \<longleftrightarrow>
      bl_docs bl x (chunk_doc_id rp path n) \<noteq> None \<and> rp = repo \<and> path \<in> kf_path ` set cfs" if "plain_repo rp" for rp path n
  proof
    assume "chunk_doc_id rp path n \<in> docs_of bl x repo (map kf_path cfs)"
    then obtain d where d: "bl_docs bl x (chunk_doc_id rp path n) = Some d" "kd_repo d = repo" "kd_file d \<in> kf_path ` set cfs"
      by (auto simp: docs_of_def)
    obtain m where "chunk_doc_id rp path n = chunk_doc_id (kd_repo d) (kd_file d) m" using assms(2) d(1) unfolding keyed_def by blast
    then show "bl_docs bl x (chunk_doc_id rp path n) \<noteq> None \<and> rp = repo \<and> path \<in> kf_path ` set cfs"
      using d that assms(3) chunk_doc_id_inject by simp
  next
    assume a: "bl_docs bl x (chunk_doc_id rp path n) \<noteq> None \<and> rp = repo \<and> path \<in> kf_path ` set cfs"
    then obtain d where d: "bl_docs bl x (chunk_doc_id rp path n) = Some d" by auto
    obtain m where "chunk_doc_id rp path n = chunk_doc_id (kd_repo d) (kd_file d) m" "plain_repo (kd_repo d)"
      using assms(2) d unfolding keyed_def by blast
    then have "rp = kd_repo d \<and> path = kd_file d" using that chunk_doc_id_inject by simp
    then show "chunk_doc_id rp path n \<in> docs_of bl x repo (map kf_path cfs)" using a d by (simp add: docs_of_def)
  qed
  have gone: "bl_docs bl x' (chunk_doc_id repo (kf_path cf) n) = None" if "cf \<in> set cfs" "\<not> n < length (kf_chunks cf)" for cf n
  proof -
    have "chunk_doc_id repo (kf_path cf) n \<notin> set (kept_ids repo cfs)" unfolding here
      using that paths by (metis distinct_map inj_onD)
    then show ?thesis using that(1) indexed [OF assms(3)] by (auto simp: x'(2) old b(2))
  qed
  have kept: "bl_docs bl x' (chunk_doc_id rp path n) = bl_docs bl x (chunk_doc_id rp path n)"
    if "plain_repo rp" "rp \<noteq> repo \<or> path \<notin> kf_path ` set cfs" for rp path n
  proof -
    have "chunk_doc_id rp path n \<notin> set (kept_ids repo cfs)"
      using that assms(3) by (auto simp: kept_ids_set ids_of_def chunk_doc_id_inject)
    then show ?thesis using that indexed [OF that(1)] by (auto simp: x'(2) old b(2))
  qed
  have keyed': "keyed bl x'"
    unfolding keyed_def
  proof (intro allI impI)
    fix i d assume d: "bl_docs bl x' i = Some d"
    show "plain_repo (kd_repo d) \<and> (\<exists>n. i = chunk_doc_id (kd_repo d) (kd_file d) n)"
    proof (cases "i \<in> set (kept_ids repo cfs)")
      case True
      then obtain cf n where cf: "cf \<in> set cfs" "n < length (kf_chunks cf)" "i = chunk_doc_id repo (kf_path cf) n"
        by (auto simp: kept_ids_set ids_of_def)
      then obtain syms where "d = label_document syms (kf_chunks cf ! n) (build_document (ke_settings env) repo (kf_path cf) (kf_language cf) (kf_chunks cf ! n))"
        using new [OF cf(1,2)] d by auto
      then show ?thesis using cf(3) assms(3) by auto
    next
      case False
      then have "bl_docs bl x i = Some d" using d by (auto simp: x'(2) old b(2) split: if_splits)
      then show ?thesis using assms(2) by (auto simp: keyed_def)
    qed
  qed
  have "keyword_index bl env repo files (x, c) = Some (x', c', Inr r)"
    by (simp add: keyword_index_def cut b(1) label x'(1))
  moreover have "ar_indexed r + ar_failed r = int (length files)" using cut_files_counts [OF cut] by (simp add: new_result_def)
  moreover have "\<forall>cf \<in> set cfs. \<forall>n.
       if n < length (kf_chunks cf)
       then \<exists>syms. bl_docs bl x' (chunk_doc_id repo (kf_path cf) n) =
         Some (label_document syms (kf_chunks cf ! n) (build_document (ke_settings env) repo (kf_path cf) (kf_language cf) (kf_chunks cf ! n)))
       else bl_docs bl x' (chunk_doc_id repo (kf_path cf) n) = None"
    using new gone by (simp split: if_split)
  moreover have "\<forall>rp path n. plain_repo rp \<and> (rp \<noteq> repo \<or> path \<notin> kf_path ` set cfs) \<longrightarrow>
       bl_docs bl x' (chunk_doc_id rp path n) = bl_docs bl x (chunk_doc_id rp path n)"
    using kept by blast
  ultimately show ?thesis using keyed' unfolding cut fst_conv by (intro exI conjI)
qed

text \<open>An engine over a list of documents, which keeps the promises.\<close>

type_synonym doc_list = "(string \<times> keyword_doc) list"

definition listed :: "(keyword_doc \<Rightarrow> bool) \<Rightarrow> doc_list \<Rightarrow> string list" where
  "listed P x = filter (\<lambda>i. case map_of x i of None \<Rightarrow> False | Some d \<Rightarrow> P d) (remdups (map fst x))"

definition merged_doc :: "batch \<Rightarrow> doc_list \<Rightarrow> string \<Rightarrow> keyword_doc option" where
  "merged_doc b x i = (case map_of b i of None \<Rightarrow> map_of x i | Some v \<Rightarrow> v)"

definition list_engine :: "doc_list bleve" where
  "list_engine =
     \<lparr> bl_docs = map_of,
       bl_scan = (\<lambda>x repo paths size off. Inr (take size (drop off (listed (\<lambda>d. kd_repo d = repo \<and> kd_file d \<in> set paths) x)))),
       bl_repo = (\<lambda>x repo size. Inr (take size (listed (\<lambda>d. kd_repo d = repo) x))),
       bl_apply = (\<lambda>b x. Inr (map (\<lambda>i. (i, the (merged_doc b x i))) (filter (\<lambda>i. merged_doc b x i \<noteq> None) (remdups (map fst b @ map fst x))))) \<rparr>"

lemma listed_set: "set (listed P x) = {i. \<exists>d. map_of x i = Some d \<and> P d}"
  by (auto simp: listed_def split: option.splits dest: map_of_SomeD intro: rev_image_eqI)

lemma list_engine_ok: "document_index list_engine"
  unfolding document_index_def
proof (intro conjI allI)
  show "finite (dom (bl_docs list_engine x))" for x by (simp add: list_engine_def finite_dom_map_of)
  show "\<exists>ids. set ids = docs_of list_engine x repo paths \<and> (\<forall>size off. bl_scan list_engine x repo paths size off = Inr (take size (drop off ids)))"
    for x repo paths
    by (intro exI [of _ "listed (\<lambda>d. kd_repo d = repo \<and> kd_file d \<in> set paths) x"]) (simp add: list_engine_def docs_of_def listed_set)
  show "\<exists>hits. bl_repo list_engine x repo size = Inr hits \<and> set hits \<subseteq> repo_docs list_engine x repo \<and>
      (0 < size \<and> repo_docs list_engine x repo \<noteq> {} \<longrightarrow> hits \<noteq> [])" for x repo size
  proof -
    have "set (listed (\<lambda>d. kd_repo d = repo) x) = repo_docs list_engine x repo" by (simp add: list_engine_def repo_docs_def listed_set)
    then show ?thesis by (auto simp: list_engine_def dest: in_set_takeD)
  qed
  show "\<exists>x'. bl_apply list_engine b x = Inr x' \<and> bl_docs list_engine x' = (\<lambda>i. case map_of b i of None \<Rightarrow> bl_docs list_engine x i | Some v \<Rightarrow> v)"
    for b x
  proof -
    let ?ids = "filter (\<lambda>i. merged_doc b x i \<noteq> None) (remdups (map fst b @ map fst x))"
    have "map_of (map (\<lambda>i. (i, the (merged_doc b x i))) ?ids) i = merged_doc b x i" for i
    proof (cases "merged_doc b x i")
      case (Some d)
      then have "i \<in> fst ` set b \<union> fst ` set x" by (auto simp: merged_doc_def split: option.splits dest: map_of_SomeD intro: rev_image_eqI)
      then show ?thesis using Some by (simp add: map_of_map_restrict restrict_map_def)
    qed (simp add: map_of_map_restrict restrict_map_def)
    then have "map_of (map (\<lambda>i. (i, the (merged_doc b x i))) ?ids) = merged_doc b x" by (rule ext)
    moreover have "(\<lambda>i. case map_of b i of None \<Rightarrow> bl_docs list_engine x i | Some v \<Rightarrow> v) = merged_doc b x"
      by (rule ext) (simp add: merged_doc_def list_engine_def split: option.split)
    ultimately show ?thesis by (simp add: list_engine_def)
  qed
qed

definition stored_chunk :: "string \<Rightarrow> nat \<Rightarrow> string \<times> keyword_doc" where
  "stored_chunk path n =
     (chunk_doc_id ''r'' path n, \<lparr> kd_repo = ''r'', kd_file = path, kd_content = ''old'', kd_language = ''go'', kd_start = 1, kd_end = 1, kd_label = None,
        kd_split = None, kd_path = None \<rparr>)"

definition stored_docs :: doc_list where
  "stored_docs = [stored_chunk ''a.go'' 0, stored_chunk ''a.go'' 1, stored_chunk ''b.go'' 0]"

definition plain_env :: keyword_env where
  "plain_env = \<lparr> ke_read = (\<lambda>_. Inl ''no such file''), ke_parse = (\<lambda>_ _ _. None), ke_settings = \<lparr> ks_split = False, ks_paths = True \<rparr>, ke_between = id \<rparr>"

definition shorter_file :: ast_source where
  "shorter_file = \<lparr> as_path = ''a.go'', as_hash = ''2'', as_language = ''go'', as_content = Some ''package a'' \<rparr>"

theorem keyword_window_replaces_its_files_witness:
  "\<exists>x' c' r. keyword_index list_engine plain_env ''r'' [shorter_file] (stored_docs, new_symbol_cache 8) = Some (x', c', Inr r) \<and>
     map_of x' (chunk_doc_id ''r'' ''a.go'' 0) \<noteq> None \<and> map_of x' (chunk_doc_id ''r'' ''a.go'' 1) = None \<and>
     map_of x' (chunk_doc_id ''r'' ''b.go'' 0) = Some (snd (stored_chunk ''b.go'' 0))"
proof -
  have keyed: "keyed list_engine stored_docs"
    by (auto simp: keyed_def list_engine_def stored_docs_def stored_chunk_def plain_repo_def split: if_splits)
  have repo: "plain_repo ''r''" and dist: "distinct (map as_path [shorter_file])" by (simp_all add: plain_repo_def)
  obtain cf where cut: "fst (cut_files (ke_read plain_env) [shorter_file] new_result) = [cf]" and path: "kf_path cf = ''a.go''"
    by (simp add: shorter_file_def Let_def)
  have "map (length \<circ> kf_chunks) (fst (cut_files (ke_read plain_env) [shorter_file] new_result)) = [1]" by code_simp
  then have one: "length (kf_chunks cf) = 1" unfolding cut by simp
  from keyword_window_replaces_its_files [OF list_engine_ok keyed repo dist, of plain_env "new_symbol_cache 8"]
  obtain x' c' r where run: "keyword_index list_engine plain_env ''r'' [shorter_file] (stored_docs, new_symbol_cache 8) = Some (x', c', Inr r)"
    and mine: "\<forall>n. if n < length (kf_chunks cf)
       then \<exists>syms. bl_docs list_engine x' (chunk_doc_id ''r'' (kf_path cf) n) =
         Some (label_document syms (kf_chunks cf ! n) (build_document (ke_settings plain_env) ''r'' (kf_path cf) (kf_language cf) (kf_chunks cf ! n)))
       else bl_docs list_engine x' (chunk_doc_id ''r'' (kf_path cf) n) = None"
    and others: "\<forall>rp path n. plain_repo rp \<and> (rp \<noteq> ''r'' \<or> path \<notin> kf_path ` set [cf]) \<longrightarrow>
       bl_docs list_engine x' (chunk_doc_id rp path n) = bl_docs list_engine stored_docs (chunk_doc_id rp path n)"
    unfolding cut by (elim exE conjE) (simp only: list.set ball_simps simp_thms)
  have docs: "bl_docs list_engine = map_of" by (simp add: list_engine_def)
  have "map_of x' (chunk_doc_id ''r'' ''a.go'' 0) \<noteq> None" using spec [OF mine, of 0] by (auto simp: one path docs)
  moreover have "map_of x' (chunk_doc_id ''r'' ''a.go'' 1) = None" using spec [OF mine, of 1] by (simp add: one path docs)
  moreover have "map_of x' (chunk_doc_id ''r'' ''b.go'' 0) = map_of stored_docs (chunk_doc_id ''r'' ''b.go'' 0)"
    using others repo by (simp add: docs path)
  moreover have "map_of stored_docs (chunk_doc_id ''r'' ''b.go'' 0) = Some (snd (stored_chunk ''b.go'' 0))" by code_simp
  ultimately show ?thesis using run by (intro exI conjI) simp_all
qed

section \<open>Removal\<close>

lemma delete_ids_spec:
  assumes "document_index bl"
  shows "\<exists>x'. delete_ids bl ids x = Inr x' \<and> bl_docs bl x' = (\<lambda>i. if i \<in> set ids then None else bl_docs bl x i)"
proof -
  obtain x' where x': "delete_ids bl ids x = Inr x'"
    "bl_docs bl x' = (\<lambda>i. case map_of (foldl (\<lambda>b i. AList.update i None b) [] ids) i of None \<Rightarrow> bl_docs bl x i | Some v \<Rightarrow> v)"
    using assms unfolding document_index_def delete_ids_def by meson
  have "bl_docs bl x' = (\<lambda>i. if i \<in> set ids then None else bl_docs bl x i)" by (rule ext) (simp add: x'(2) delete_entries)
  then show ?thesis using x'(1) by blast
qed

lemma delete_by_repo_spec:
  assumes "document_index bl"
  shows "\<exists>x'. delete_by_repo bl repo x = Some (x', None) \<and> bl_docs bl x' = (\<lambda>i. if i \<in> repo_docs bl x repo then None else bl_docs bl x i)"
proof (induction "card (repo_docs bl x repo)" arbitrary: x rule: less_induct)
  case less
  obtain hits where hits: "bl_repo bl x repo 1000 = Inr hits" "set hits \<subseteq> repo_docs bl x repo" "repo_docs bl x repo \<noteq> {} \<Longrightarrow> hits \<noteq> []"
    using assms unfolding document_index_def by (metis zero_less_numeral)
  show ?case
  proof (cases "hits = []")
    case True
    then have "repo_docs bl x repo = {}" using hits(3) by blast
    moreover have "delete_by_repo bl repo x = Some (x, None)" using hits(1) True by (subst delete_by_repo.simps) simp
    ultimately show ?thesis by simp
  next
    case False
    obtain x1 where x1: "delete_ids bl hits x = Inr x1" "bl_docs bl x1 = (\<lambda>i. if i \<in> set hits then None else bl_docs bl x i)"
      using delete_ids_spec [OF assms] by blast
    have left: "repo_docs bl x1 repo = repo_docs bl x repo - set hits" by (auto simp: repo_docs_def x1(2) split: if_splits)
    have "finite (dom (bl_docs bl x))" using assms by (simp add: document_index_def)
    moreover have "repo_docs bl x repo \<subseteq> dom (bl_docs bl x)" by (auto simp: repo_docs_def)
    ultimately have "finite (repo_docs bl x repo)" by (rule finite_subset [rotated])
    then have "card (repo_docs bl x1 repo) < card (repo_docs bl x repo)"
      unfolding left using hits(2) False by (intro psubset_card_mono) (auto simp: neq_Nil_conv)
    from less [OF this] obtain x' where "delete_by_repo bl repo x1 = Some (x', None)"
      "bl_docs bl x' = (\<lambda>i. if i \<in> repo_docs bl x1 repo then None else bl_docs bl x1 i)" by blast
    moreover have "delete_by_repo bl repo x = delete_by_repo bl repo x1" using hits(1) False x1(1) by (subst delete_by_repo.simps) simp
    ultimately show ?thesis using hits(2) by (intro exI [of _ x']) (auto simp: left x1(2) fun_eq_iff)
  qed
qed

text \<open>
  Removing files, or a whole repository, ends and deletes exactly their documents.
\<close>

theorem keyword_removal_is_exact:
  assumes "document_index bl"
  shows "\<exists>x'. keyword_remove bl repo paths x = Some (x', None) \<and>
    bl_docs bl x' = (\<lambda>i. if i \<in> (if paths = [] then repo_docs bl x repo else docs_of bl x repo paths) then None else bl_docs bl x i)"
proof (cases "paths = []")
  case True
  then show ?thesis using delete_by_repo_spec [OF assms] by (simp add: keyword_remove_def)
next
  case False
  obtain all where all: "chunk_ids bl x repo paths = Some (Inr all)" "set all = docs_of bl x repo paths" using chunk_ids_all [OF assms] by blast
  obtain x' where "delete_ids bl all x = Inr x'" "bl_docs bl x' = (\<lambda>i. if i \<in> set all then None else bl_docs bl x i)"
    using delete_ids_spec [OF assms] by blast
  then show ?thesis using False all by (cases "all = []") (auto simp: keyword_remove_def)
qed

end
