(* ===== verification/Index_Vector.thy ===== *)
theory Index_Vector
  imports Index_Chunks Ast_Indexer Search_Filters "HOL-Library.Word"
begin

unbundle bit_operations_syntax

text \<open>
  The vector indexer (\<open>internal/index/vector/indexer.go\<close>): chunks or symbol cards of a file, their embeddings,
  and the points that replace the points of the file. The embedding model, the vector store, the parser of a
  language and the hash of a point id are parameters; a run is not cancelled. How the workers pack files into
  requests and in which order the writers store them is a parameter too.
\<close>

section \<open>Points\<close>

record vector_point =
  vp_id :: string
  vp_vector :: "rat list"
  vp_repo :: string
  vp_file :: string
  vp_language :: string
  vp_start :: int
  vp_end :: int
  vp_kind :: string
  vp_symbol :: string
  vp_body :: string
  vp_meta :: texts

type_synonym embedder = "string list \<Rightarrow> string + rat list list"

text \<open>\<open>vs_points\<close> is what a store holds by id.\<close>

record 'x vector_store =
  vs_points :: "'x \<Rightarrow> string \<Rightarrow> vector_point option"
  vs_delete :: "string \<Rightarrow> string \<Rightarrow> 'x \<Rightarrow> string + 'x"
  vs_upsert :: "vector_point list \<Rightarrow> 'x \<Rightarrow> string + 'x"

record vector_settings =
  vc_chunking :: chunk_config
  vc_cards :: bool
  vc_max_chars :: int
  vc_excludes :: "string list"
  vc_instruction :: string

definition new_excludes :: "string list \<Rightarrow> string list" where
  "new_excludes es = filter (\<lambda>e. e \<noteq> []) (map (\<lambda>e. to_lower (trim_space e)) es)"

definition excluded :: "vector_settings \<Rightarrow> string \<Rightarrow> bool" where
  "excluded vc path \<longleftrightarrow> list_ex (\<lambda>e. contains (''/'' @ to_lower path) e) (vc_excludes vc)"

definition embed_max_chars :: "vector_settings \<Rightarrow> int" where
  "embed_max_chars vc = (if vc_max_chars vc > 0 then vc_max_chars vc else 4096)"

text \<open>\<open>utf8.RuneStart\<close>: a byte that does not continue a rune.\<close>

definition rune_start :: "char \<Rightarrow> bool" where
  "rune_start c \<longleftrightarrow> \<not> (128 \<le> byte_of c \<and> byte_of c < 192)"

fun rune_cut :: "string \<Rightarrow> nat \<Rightarrow> nat" where
  "rune_cut t 0 = 0"
| "rune_cut t (Suc n) = (if rune_start (t ! Suc n) then Suc n else rune_cut t n)"

definition truncate_for_embed :: "string \<Rightarrow> int \<Rightarrow> string" where
  "truncate_for_embed t limit = (if int (length t) \<le> limit then t else take (rune_cut t (nat limit)) t)"

fun embed_attempts :: "embedder \<Rightarrow> chunk list \<Rightarrow> nat \<Rightarrow> int \<Rightarrow> string \<Rightarrow> string + rat list list" where
  "embed_attempts emb chunks 0 limit last_err = Inl last_err"
| "embed_attempts emb chunks (Suc n) limit last_err =
     (case emb (map (\<lambda>c. truncate_for_embed (ch_text c) limit) chunks) of
        Inr es \<Rightarrow> Inr es
      | Inl err \<Rightarrow> embed_attempts emb chunks n (limit div 2) err)"

definition embed_file_chunks :: "vector_settings \<Rightarrow> embedder \<Rightarrow> chunk list \<Rightarrow> string + rat list list" where
  "embed_file_chunks vc emb chunks = embed_attempts emb chunks 3 (embed_max_chars vc) []"

section \<open>Point ids\<close>

definition hex_digit :: "nat \<Rightarrow> char" where
  "hex_digit n = (if n < 10 then char_of (48 + n) else char_of (87 + n))"

definition hex_byte :: "8 word \<Rightarrow> string" where
  "hex_byte b = [hex_digit (unat (drop_bit 4 b)), hex_digit (unat (b AND 0x0F))]"

definition uuid_of :: "8 word list \<Rightarrow> string" where
  "uuid_of digest =
     (let bytes = take 16 digest;
          bytes = bytes[6 := (bytes ! 6 AND 0x0F) OR 0x40];
          bytes = bytes[8 := (bytes ! 8 AND 0x3F) OR 0x80];
          hexed = concat (map hex_byte bytes);
          part = (\<lambda>s e. take (e - s) (drop s hexed))
      in part 0 8 @ ''-'' @ part 8 12 @ ''-'' @ part 12 16 @ ''-'' @ part 16 20 @ ''-'' @ part 20 32)"

definition chunk_id_input :: "string \<Rightarrow> string \<Rightarrow> int \<Rightarrow> int \<Rightarrow> string" where
  "chunk_id_input repo path s e = repo @ path @ itoa s @ ''-'' @ itoa e"

definition generate_chunk_id :: "(string \<Rightarrow> 8 word list) \<Rightarrow> string \<Rightarrow> string \<Rightarrow> int \<Rightarrow> int \<Rightarrow> string" where
  "generate_chunk_id sha256 repo path s e = uuid_of (sha256 (chunk_id_input repo path s e))"

section \<open>Symbol cards\<close>

definition vectorizable :: "string list" where
  "vectorizable = [''go'', ''typescript'', ''javascript'', ''python'', ''java'', ''markdown'', ''rst'', ''text'', ''proto'', ''json'', ''yaml'', ''toml'']"

definition should_vectorize :: "string \<Rightarrow> bool" where
  "should_vectorize language \<longleftrightarrow> language \<in> set vectorizable"

definition card_languages :: "string list" where
  "card_languages = [''go'', ''java'', ''kotlin'', ''csharp'', ''typescript'', ''javascript'', ''python'', ''proto'']"

definition card_body_lines :: int where "card_body_lines = 40"

definition annotation_key :: "string \<Rightarrow> int \<Rightarrow> string" where
  "annotation_key path line = path @ '':'' @ itoa line"

definition with_line :: "string \<Rightarrow> string" where
  "with_line t = (if t = [] then [] else t @ [CHR 0x0A])"

definition card_body :: "string list \<Rightarrow> parsed_unit \<Rightarrow> string" where
  "card_body lines u =
     (let s = (if pu_start_line u < 1 then 1 else pu_start_line u);
          e = (if pu_end_line u > int (length lines) then int (length lines) else pu_end_line u);
          e = (if e \<ge> s + card_body_lines then s + card_body_lines - 1 else e)
      in if s \<le> int (length lines) \<and> s \<le> e then join_with [CHR 0x0A] (line_slice lines (s - 1) e) else [])"

definition build_card :: "string \<Rightarrow> string \<Rightarrow> texts \<Rightarrow> string list \<Rightarrow> parsed_unit \<Rightarrow> chunk" where
  "build_card path language notes lines u =
     \<lparr> ch_id = [], ch_file = path, ch_language = language, ch_start = pu_start_line u, ch_end = pu_end_line u,
       ch_text = path @ [CHR 0x0A] @ pu_kind u @ '' '' @ (if pu_qualified u \<noteq> [] then pu_qualified u else pu_name u) @ [CHR 0x0A] @
         with_line (pu_signature u) @ with_line (pu_doc u) @
         with_line (case map_of notes (annotation_key path (pu_start_line u)) of None \<Rightarrow> [] | Some n \<Rightarrow> n) @ card_body lines u,
       ch_symbol = pu_name u, ch_kind = pu_kind u \<rparr>"

definition build_cards :: "(string \<Rightarrow> string \<Rightarrow> string \<Rightarrow> parsed_unit list option) \<Rightarrow> string \<Rightarrow> string \<Rightarrow> string \<Rightarrow> texts \<Rightarrow> chunk list" where
  "build_cards parse path language content notes =
     (if language \<notin> set card_languages then []
      else case parse language path content of
        None \<Rightarrow> []
      | Some us \<Rightarrow> map (build_card path language notes (split_on (CHR 0x0A) content)) us)"

section \<open>Indexing a window\<close>

record file_job =
  fj_path :: string
  fj_language :: string
  fj_chunks :: "chunk list"

record vector_env =
  ve_read :: "string \<Rightarrow> string + string"
  ve_parse :: "string \<Rightarrow> string \<Rightarrow> string \<Rightarrow> parsed_unit list option"
  ve_settings :: vector_settings
  ve_embed :: embedder
  ve_sha256 :: "string \<Rightarrow> 8 word list"
  ve_groups :: "file_job list \<Rightarrow> file_job list list"
  ve_order :: "(file_job \<times> rat list list) list \<Rightarrow> (file_job \<times> rat list list) list"

definition skip_files :: "int \<Rightarrow> ast_result \<Rightarrow> ast_result" where
  "skip_files n r = r\<lparr> ar_skipped := ar_skipped r + n \<rparr>"

text \<open>What the producer does with one file: a job, or a file skipped or failed.\<close>

definition chunk_file :: "vector_env \<Rightarrow> texts \<Rightarrow> string \<Rightarrow> file_job list \<times> ast_result \<Rightarrow> ast_source \<Rightarrow> file_job list \<times> ast_result" where
  "chunk_file env notes language jr f =
     (case jr of (todo, r) \<Rightarrow>
        if excluded (ve_settings env) (as_path f) then (todo, skip_files 1 r)
        else (case (case as_content f of Some c \<Rightarrow> Inr c | None \<Rightarrow> ve_read env (as_path f)) of
                Inl err \<Rightarrow> (todo, fail_file (as_path f) (''read: '' @ err) r)
              | Inr content \<Rightarrow>
                  let cards = (if vc_cards (ve_settings env) then build_cards (ve_parse env) (as_path f) language content notes else []);
                      chunks = (if length cards = 0
                        then window_chunk (chunker_for_file (vc_chunking (ve_settings env)) language)
                          \<lparr> cin_path = as_path f, cin_language = language, cin_content = content \<rparr>
                        else cards)
                  in if length chunks = 0 then (todo, skip_files 1 r)
                     else (todo @ [\<lparr> fj_path = as_path f, fj_language = language, fj_chunks = chunks \<rparr>], r)))"

definition chunk_language :: "vector_env \<Rightarrow> texts \<Rightarrow> file_job list \<times> ast_result \<Rightarrow> string \<times> ast_source list \<Rightarrow> file_job list \<times> ast_result" where
  "chunk_language env notes jr lf =
     (case lf of (language, files) \<Rightarrow>
        if \<not> should_vectorize language then (fst jr, skip_files (int (length files)) (snd jr))
        else foldl (chunk_file env notes language) jr files)"

fun hand_embeddings :: "file_job list \<Rightarrow> rat list list \<Rightarrow> (file_job \<times> rat list list) list" where
  "hand_embeddings [] es = []"
| "hand_embeddings (j # js) es = (j, take (length (fj_chunks j)) es) # hand_embeddings js (drop (length (fj_chunks j)) es)"

fun embed_alone :: "vector_settings \<Rightarrow> embedder \<Rightarrow> file_job list \<Rightarrow> ast_result \<Rightarrow> (file_job \<times> rat list list) list \<times> ast_result" where
  "embed_alone vc emb [] r = ([], r)"
| "embed_alone vc emb (j # js) r =
     (case embed_file_chunks vc emb (fj_chunks j) of
        Inl err \<Rightarrow> embed_alone vc emb js (fail_file (fj_path j) (''embed: '' @ err) r)
      | Inr es \<Rightarrow> (case embed_alone vc emb js r of (stores, r) \<Rightarrow> ((j, es) # stores, r)))"

definition embed_group :: "vector_settings \<Rightarrow> embedder \<Rightarrow> (file_job \<times> rat list list) list \<times> ast_result \<Rightarrow> file_job list \<Rightarrow> (file_job \<times> rat list list) list \<times> ast_result" where
  "embed_group vc emb sr packed =
     (case sr of (stores, r) \<Rightarrow>
        let texts = concat (map (\<lambda>j. map (\<lambda>c. truncate_for_embed (ch_text c) (embed_max_chars vc)) (fj_chunks j)) packed) in
        (case emb texts of
           Inr es \<Rightarrow>
             if length es = length texts then (stores @ hand_embeddings packed es, r)
             else (case embed_alone vc emb packed r of (rest, r) \<Rightarrow> (stores @ rest, r))
         | Inl err \<Rightarrow> (case embed_alone vc emb packed r of (rest, r) \<Rightarrow> (stores @ rest, r))))"

definition make_point :: "(string \<Rightarrow> 8 word list) \<Rightarrow> string \<Rightarrow> string \<Rightarrow> string \<Rightarrow> chunk \<Rightarrow> rat list \<Rightarrow> vector_point" where
  "make_point sha256 repo path language c v =
     \<lparr> vp_id = generate_chunk_id sha256 repo path (ch_start c) (ch_end c), vp_vector = v, vp_repo = repo, vp_file = path, vp_language = language,
       vp_start = ch_start c, vp_end = ch_end c, vp_kind = ch_kind c, vp_symbol = ch_symbol c, vp_body = ch_text c,
       vp_meta = [(''file'', path), (''language'', language), (''chunk_type'', ch_kind c)] @
         (if ch_kind c \<noteq> [] then [(''kind'', ch_kind c)] else []) @ (if ch_symbol c \<noteq> [] then [(''symbol'', ch_symbol c)] else []) \<rparr>"

definition store_file :: "'x vector_store \<Rightarrow> (string \<Rightarrow> 8 word list) \<Rightarrow> string \<Rightarrow> 'x \<times> ast_result \<Rightarrow> file_job \<times> rat list list \<Rightarrow> 'x \<times> ast_result" where
  "store_file vs sha256 repo xr je =
     (case (xr, je) of ((x, r), (j, es)) \<Rightarrow>
        if length es \<noteq> length (fj_chunks j) then (x, fail_file (fj_path j) ''embed: embedding count mismatch'' r)
        else (case vs_delete vs repo (fj_path j) x of
                Inl err \<Rightarrow> (x, fail_file (fj_path j) (''delete old points: '' @ err) r)
              | Inr x \<Rightarrow>
                  (case vs_upsert vs (map2 (make_point sha256 repo (fj_path j) (fj_language j)) (fj_chunks j) es) x of
                     Inl err \<Rightarrow> (x, fail_file (fj_path j) (''upsert: '' @ err) r)
                   | Inr x \<Rightarrow> (x, r\<lparr> ar_indexed := ar_indexed r + 1 \<rparr>))))"

definition vector_index :: "'x vector_store \<Rightarrow> vector_env \<Rightarrow> string \<Rightarrow> texts \<Rightarrow> ast_source list \<Rightarrow> 'x \<Rightarrow> 'x \<times> ast_result" where
  "vector_index vs env repo notes files x =
     (let (todo, r) = foldl (chunk_language env notes) ([], new_result) (group_by_language files);
          (stores, r) = foldl (embed_group (ve_settings env) (ve_embed env)) ([], r) (ve_groups env todo)
      in foldl (store_file vs (ve_sha256 env) repo) (x, r) (ve_order env stores))"

fun vector_remove_files :: "'x vector_store \<Rightarrow> string \<Rightarrow> string list \<Rightarrow> 'x \<Rightarrow> 'x \<times> string list" where
  "vector_remove_files vs repo [] x = (x, [])"
| "vector_remove_files vs repo (p # ps) x =
     (case vs_delete vs repo p x of
        Inl err \<Rightarrow> (case vector_remove_files vs repo ps x of (x, errs) \<Rightarrow> (x, (''delete '' @ p @ '': '' @ err) # errs))
      | Inr x \<Rightarrow> vector_remove_files vs repo ps x)"

definition vector_remove :: "'x vector_store \<Rightarrow> string \<Rightarrow> string list \<Rightarrow> 'x \<Rightarrow> 'x \<times> string list" where
  "vector_remove vs repo paths x =
     (if length paths = 0 then (case vs_delete vs repo [] x of Inl err \<Rightarrow> (x, [err]) | Inr x \<Rightarrow> (x, []))
      else vector_remove_files vs repo paths x)"

section \<open>Search\<close>

record vector_result =
  vr_repo :: string
  vr_file :: string
  vr_line :: int
  vr_end :: int
  vr_score :: rat
  vr_body :: string
  vr_meta :: texts

record vector_search_opts =
  vo_query :: "rat list"
  vo_repos :: "string list"
  vo_languages :: "string list"
  vo_limit :: int
  vo_filter :: texts

definition over_fetch_factor :: int where "over_fetch_factor = 5"

definition max_over_fetch :: int where "max_over_fetch = 500"

definition fetch_limit :: "filters \<Rightarrow> int \<Rightarrow> int" where
  "fetch_limit f limit = (if \<not> filters_empty f \<and> limit > 0 then min (limit * over_fetch_factor) max_over_fetch else limit)"

definition search_opts :: "query \<Rightarrow> rat list \<Rightarrow> vector_search_opts" where
  "search_opts q v =
     (let f = parse_filters (q_filter q) in
      \<lparr> vo_query = v, vo_repos = q_repos q, vo_languages = languages f, vo_limit = fetch_limit f (q_limit q),
        vo_filter = (if length (languages f) = 1 then [(''language'', hd (languages f))] else []) @
          (if length (kinds f) = 1 then [(''kind'', hd (kinds f))] else []) \<rparr>)"

definition meta_text :: "texts \<Rightarrow> string \<Rightarrow> string" where
  "meta_text m k = (case map_of m k of None \<Rightarrow> [] | Some v \<Rightarrow> v)"

definition vector_hit :: "vector_result \<Rightarrow> hit" where
  "vector_hit r =
     \<lparr> h_repo = vr_repo r, h_file = vr_file r, h_path = vr_file r, h_line = vr_line r, h_end = vr_end r, h_symbol = meta_text (vr_meta r) ''symbol'',
       h_kind = meta_text (vr_meta r) ''kind'', h_lang = meta_text (vr_meta r) ''language'', h_score = vr_score r, h_snippet = vr_body r, h_reason = ''semantic'' \<rparr>"

fun matching_hits :: "filters \<Rightarrow> int \<Rightarrow> hit list \<Rightarrow> vector_result list \<Rightarrow> hit list" where
  "matching_hits f limit hits [] = hits"
| "matching_hits f limit hits (r # rs) =
     (let h = vector_hit r in
      if \<not> filters_match f (h_lang h) (h_kind h) (h_file h) then matching_hits f limit hits rs
      else let hits = hits @ [h] in
        if limit > 0 \<and> int (length hits) \<ge> limit then hits else matching_hits f limit hits rs)"

definition search_with_vector :: "(vector_search_opts \<Rightarrow> string + vector_result list) \<Rightarrow> query \<Rightarrow> rat list \<Rightarrow> string + hit list" where
  "search_with_vector ask q v =
     (case ask (search_opts q v) of
        Inl err \<Rightarrow> Inl (''vector search: '' @ err)
      | Inr rs \<Rightarrow> Inr (matching_hits (parse_filters (q_filter q)) (q_limit q) [] rs))"

definition vector_search :: "vector_settings \<Rightarrow> embedder \<Rightarrow> (vector_search_opts \<Rightarrow> string + vector_result list) \<Rightarrow> query \<Rightarrow> string + hit list" where
  "vector_search vc emb ask q =
     (if length (q_vector q) > 0 then search_with_vector ask q (q_vector q)
      else let text = (if vc_instruction vc \<noteq> [] then ''Instruct: '' @ vc_instruction vc @ [CHR 0x0A] @ ''Query: '' @ q_text q else q_text q) in
        (case emb [truncate_for_embed text (embed_max_chars vc)] of
           Inl err \<Rightarrow> Inl (''embed query: '' @ err)
         | Inr [] \<Rightarrow> Inl ''no embeddings returned''
         | Inr (v # vs) \<Rightarrow> search_with_vector ask q v))"

end
