(* ===== verification/Index_Vector_Facts.thy ===== *)
theory Index_Vector_Facts
  imports Index_Vector
begin

text \<open>
  What the vector store holds after a window of files: a point for each chunk, with the embedding of that
  chunk, however the workers pack and order the work; and where the indexer falls short.
\<close>

section \<open>The store and the model as documented\<close>

definition without_file :: "string \<Rightarrow> string set \<Rightarrow> vector_point option \<Rightarrow> vector_point option" where
  "without_file repo paths p = (case p of None \<Rightarrow> None | Some p \<Rightarrow> if vp_repo p = repo \<and> vp_file p \<in> paths then None else Some p)"

definition faithful_store :: "'x vector_store \<Rightarrow> bool" where
  "faithful_store vs \<longleftrightarrow>
     (\<forall>repo path x. path \<noteq> [] \<longrightarrow> (\<exists>x'. vs_delete vs repo path x = Inr x' \<and> vs_points vs x' = (\<lambda>i. without_file repo {path} (vs_points vs x i)))) \<and>
     (\<forall>ps x. \<exists>x'. vs_upsert vs ps x = Inr x' \<and>
        vs_points vs x' = (\<lambda>i. case map_of (rev (map (\<lambda>p. (vp_id p, p)) ps)) i of None \<Rightarrow> vs_points vs x i | Some p \<Rightarrow> Some p))"

text \<open>A model that embeds texts one by one, in order, and refuses a request with a text beyond its context.\<close>

definition limited_embedder :: "(string \<Rightarrow> rat list) \<Rightarrow> int \<Rightarrow> embedder \<Rightarrow> bool" where
  "limited_embedder e limit emb \<longleftrightarrow>
     (\<forall>ts. if \<forall>t \<in> set ts. int (length t) \<le> limit then emb ts = Inr (map e ts) else \<exists>err. emb ts = Inl err)"

section \<open>Embedding\<close>

lemma rune_cut_le: "rune_cut t n \<le> n"
  by (induction n) auto

lemma length_truncate: "0 \<le> m \<Longrightarrow> int (length (truncate_for_embed t m)) \<le> m"
  using rune_cut_le [of t "nat m"] by (auto simp: truncate_for_embed_def nat_le_iff min_def)

definition budgets :: "vector_settings \<Rightarrow> int set" where
  "budgets vc = {embed_max_chars vc, embed_max_chars vc div 2, embed_max_chars vc div 4}"

definition embedded :: "vector_settings \<Rightarrow> (string \<Rightarrow> rat list) \<Rightarrow> file_job \<times> rat list list \<Rightarrow> bool" where
  "embedded vc e s \<longleftrightarrow> (\<exists>m \<in> budgets vc. snd s = map (\<lambda>c. e (truncate_for_embed (ch_text c) m)) (fj_chunks (fst s)))"

lemma embed_max_pos: "0 < embed_max_chars vc"
  by (simp add: embed_max_chars_def)

lemma embed_file_chunks_ok:
  assumes "limited_embedder e limit emb" and "embed_max_chars vc div 4 \<le> limit"
  shows "\<exists>m \<in> budgets vc. embed_file_chunks vc emb chunks = Inr (map (\<lambda>c. e (truncate_for_embed (ch_text c) m)) chunks)"
proof -
  let ?M = "embed_max_chars vc" and ?texts = "\<lambda>m. map (\<lambda>c. truncate_for_embed (ch_text c) m) chunks"
  have quarter: "?M div 2 div 2 = ?M div 4" by simp
  have emb: "emb (?texts m) = Inr (map (\<lambda>c. e (truncate_for_embed (ch_text c) m)) chunks) \<or> (\<exists>err. emb (?texts m) = Inl err)" for m
  proof (cases "\<forall>t \<in> set (?texts m). int (length t) \<le> limit")
    case True
    then have "emb (?texts m) = Inr (map e (?texts m))" using assms(1) unfolding limited_embedder_def by presburger
    then show ?thesis by (simp add: comp_def)
  next
    case False
    then have "\<exists>err. emb (?texts m) = Inl err" using assms(1) unfolding limited_embedder_def by presburger
    then show ?thesis by blast
  qed
  have last: "emb (?texts (?M div 4)) = Inr (map (\<lambda>c. e (truncate_for_embed (ch_text c) (?M div 4))) chunks)"
  proof -
    have "\<forall>t \<in> set (?texts (?M div 4)). int (length t) \<le> limit"
    proof
      fix t assume "t \<in> set (?texts (?M div 4))"
      then obtain u where "t = truncate_for_embed u (?M div 4)" by auto
      then have "int (length t) \<le> ?M div 4" using length_truncate [of "?M div 4" u] embed_max_pos [of vc] by simp
      then show "int (length t) \<le> limit" using assms(2) by simp
    qed
    then have "emb (?texts (?M div 4)) = Inr (map e (?texts (?M div 4)))" using assms(1) unfolding limited_embedder_def by presburger
    then show ?thesis by (simp add: comp_def)
  qed
  show ?thesis
    using emb [of ?M] emb [of "?M div 2"] last quarter
    by (auto simp: embed_file_chunks_def budgets_def numeral_3_eq_3)
qed

lemma embed_alone_ok:
  assumes "limited_embedder e limit emb" and "embed_max_chars vc div 4 \<le> limit"
  shows "\<exists>ss. embed_alone vc emb js r = (ss, r) \<and> map fst ss = js \<and> (\<forall>s \<in> set ss. embedded vc e s)"
proof (induction js)
  case (Cons j js)
  then obtain ss where ss: "embed_alone vc emb js r = (ss, r)" "map fst ss = js" "\<forall>s \<in> set ss. embedded vc e s" by blast
  obtain m where m: "m \<in> budgets vc" "embed_file_chunks vc emb (fj_chunks j) = Inr (map (\<lambda>c. e (truncate_for_embed (ch_text c) m)) (fj_chunks j))"
    using embed_file_chunks_ok [OF assms] by blast
  then show ?case using ss by (intro exI [of _ "(j, map (\<lambda>c. e (truncate_for_embed (ch_text c) m)) (fj_chunks j)) # ss"]) (auto simp: embedded_def)
qed simp

lemma hand_embeddings_ok:
  "m \<in> budgets vc \<Longrightarrow> (\<forall>s \<in> set (hand_embeddings js (concat (map (\<lambda>j. map (\<lambda>c. e (truncate_for_embed (ch_text c) m)) (fj_chunks j)) js))). embedded vc e s) \<and>
   map fst (hand_embeddings js (concat (map (\<lambda>j. map (\<lambda>c. e (truncate_for_embed (ch_text c) m)) (fj_chunks j)) js))) = js"
  by (induction js) (auto simp: embedded_def)

lemma embed_group_ok:
  assumes "limited_embedder e limit emb" and "embed_max_chars vc div 4 \<le> limit"
  shows "\<exists>new. embed_group vc emb (stores, r) js = (stores @ new, r) \<and> map fst new = js \<and> (\<forall>s \<in> set new. embedded vc e s)"
proof -
  let ?M = "embed_max_chars vc"
  let ?texts = "concat (map (\<lambda>j. map (\<lambda>c. truncate_for_embed (ch_text c) ?M) (fj_chunks j)) js)"
  let ?vs = "concat (map (\<lambda>j. map (\<lambda>c. e (truncate_for_embed (ch_text c) ?M)) (fj_chunks j)) js)"
  have M: "?M \<in> budgets vc" by (simp add: budgets_def)
  obtain ss where ss: "embed_alone vc emb js r = (ss, r)" "map fst ss = js" "\<forall>s \<in> set ss. embedded vc e s"
    using embed_alone_ok [OF assms] by blast
  show ?thesis
  proof (cases "\<forall>t \<in> set ?texts. int (length t) \<le> limit")
    case True
    then have "emb ?texts = Inr (map e ?texts)" using assms(1) unfolding limited_embedder_def by presburger
    moreover have "map e ?texts = ?vs" by (simp add: map_concat comp_def)
    ultimately have "emb ?texts = Inr ?vs" by simp
    moreover have "length ?vs = length ?texts" by (simp add: length_concat comp_def)
    ultimately show ?thesis using hand_embeddings_ok [OF M, of js e] by (intro exI [of _ "hand_embeddings js ?vs"]) (simp add: embed_group_def)
  next
    case False
    then obtain err where "emb ?texts = Inl err" using assms(1) unfolding limited_embedder_def by presburger
    then show ?thesis using ss by (intro exI [of _ ss]) (simp add: embed_group_def)
  qed
qed

lemma embed_groups_ok:
  assumes "limited_embedder e limit emb" and "embed_max_chars vc div 4 \<le> limit"
  shows "\<exists>new. foldl (embed_group vc emb) (stores, r) gs = (stores @ new, r) \<and> map fst new = concat gs \<and> (\<forall>s \<in> set new. embedded vc e s)"
proof (induction gs arbitrary: stores)
  case (Cons g gs)
  obtain new where new: "embed_group vc emb (stores, r) g = (stores @ new, r)" "map fst new = g" "\<forall>s \<in> set new. embedded vc e s"
    using embed_group_ok [OF assms] by blast
  obtain rest where "foldl (embed_group vc emb) (stores @ new, r) gs = ((stores @ new) @ rest, r)" "map fst rest = concat gs"
    "\<forall>s \<in> set rest. embedded vc e s" using Cons by blast
  then show ?case using new by (intro exI [of _ "new @ rest"]) auto
qed simp

section \<open>Storing\<close>

definition job_ids :: "(string \<Rightarrow> 8 word list) \<Rightarrow> string \<Rightarrow> file_job \<Rightarrow> string list" where
  "job_ids sha256 repo j = map (\<lambda>c. generate_chunk_id sha256 repo (fj_path j) (ch_start c) (ch_end c)) (fj_chunks j)"

lemma make_point_keys [simp]:
  "vp_id (make_point h repo path l c v) = generate_chunk_id h repo path (ch_start c) (ch_end c)"
  "vp_repo (make_point h repo path l c v) = repo" "vp_file (make_point h repo path l c v) = path"
  by (simp_all add: make_point_def)

lemma map_of_rev_distinct: "distinct (map fst xs) \<Longrightarrow> map_of (rev xs) = map_of xs"
proof (induction xs)
  case (Cons x xs)
  then have "fst x \<notin> dom (map_of xs)" by (simp add: dom_map_of_conv_image_fst)
  then show ?case using Cons by (cases x) (simp add: map_add_def fun_eq_iff domIff split: option.split)
qed simp

lemma map_of_unlisted: "k \<notin> set (map fst xs) \<Longrightarrow> map_of xs k = None"
  by (simp add: map_of_eq_None_iff)

lemma store_file_ok:
  assumes "faithful_store vs" and "fj_path j \<noteq> []" and "length es = length (fj_chunks j)" and "distinct (job_ids h repo j)"
  shows "\<exists>x'. store_file vs h repo (x, r) (j, es) = (x', r\<lparr> ar_indexed := ar_indexed r + 1 \<rparr>) \<and>
    (\<forall>n < length es. vs_points vs x' (job_ids h repo j ! n) = Some (make_point h repo (fj_path j) (fj_language j) (fj_chunks j ! n) (es ! n))) \<and>
    (\<forall>i. i \<notin> set (job_ids h repo j) \<longrightarrow> vs_points vs x' i = without_file repo {fj_path j} (vs_points vs x i))"
proof -
  let ?pts = "map2 (make_point h repo (fj_path j) (fj_language j)) (fj_chunks j) es"
  obtain x1 where x1: "vs_delete vs repo (fj_path j) x = Inr x1" "vs_points vs x1 = (\<lambda>i. without_file repo {fj_path j} (vs_points vs x i))"
    using assms(1,2) unfolding faithful_store_def by meson
  obtain x2 where x2: "vs_upsert vs ?pts x1 = Inr x2"
    "vs_points vs x2 = (\<lambda>i. case map_of (rev (map (\<lambda>p. (vp_id p, p)) ?pts)) i of None \<Rightarrow> vs_points vs x1 i | Some p \<Rightarrow> Some p)"
    using assms(1) unfolding faithful_store_def by meson
  have keys: "map fst (map (\<lambda>p. (vp_id p, p)) ?pts) = job_ids h repo j"
    unfolding job_ids_def by (rule nth_equalityI) (simp_all add: assms(3))
  have dist: "distinct (map fst (map (\<lambda>p. (vp_id p, p)) ?pts))" using assms(4) keys by simp
  let ?m = "map_of (rev (map (\<lambda>p. (vp_id p, p)) ?pts))"
  have m: "?m = map_of (map (\<lambda>p. (vp_id p, p)) ?pts)"
    by (rule map_of_rev_distinct [OF dist])
  have "vs_points vs x2 (job_ids h repo j ! n) = Some (make_point h repo (fj_path j) (fj_language j) (fj_chunks j ! n) (es ! n))" if "n < length es" for n
  proof -
    have "(job_ids h repo j ! n, make_point h repo (fj_path j) (fj_language j) (fj_chunks j ! n) (es ! n)) \<in> set (map (\<lambda>p. (vp_id p, p)) ?pts)"
    proof -
      have "n < length (map (\<lambda>p. (vp_id p, p)) ?pts)" using that assms(3) by simp
      from nth_mem [OF this] show ?thesis using that assms(3) by (simp add: job_ids_def)
    qed
    then have "?m (job_ids h repo j ! n) = Some (make_point h repo (fj_path j) (fj_language j) (fj_chunks j ! n) (es ! n))"
      unfolding m using dist by (rule map_of_is_SomeI [rotated])
    then show ?thesis by (simp add: x2(2))
  qed
  moreover have "vs_points vs x2 i = without_file repo {fj_path j} (vs_points vs x i)" if "i \<notin> set (job_ids h repo j)" for i
  proof -
    have "?m i = None" unfolding m by (rule map_of_unlisted) (unfold keys, rule that)
    then show ?thesis by (simp add: x2(2) x1(2))
  qed
  moreover have "store_file vs h repo (x, r) (j, es) = (x2, r\<lparr> ar_indexed := ar_indexed r + 1 \<rparr>)" using assms(3) x1(1) x2(1) by (simp add: store_file_def)
  ultimately show ?thesis by blast
qed

lemma without_file_twice [simp]: "without_file repo ps (without_file repo qs p) = without_file repo (ps \<union> qs) p"
  by (auto simp: without_file_def split: option.splits)

lemma store_files_ok:
  assumes "faithful_store vs" and "\<forall>s \<in> set ss. fj_path (fst s) \<noteq> [] \<and> length (snd s) = length (fj_chunks (fst s))"
    and "distinct (map (fj_path \<circ> fst) ss)" and "distinct (concat (map (job_ids h repo \<circ> fst) ss))"
  shows "\<exists>x'. foldl (store_file vs h repo) (x, r) ss = (x', r\<lparr> ar_indexed := ar_indexed r + int (length ss) \<rparr>) \<and>
    (\<forall>(j, es) \<in> set ss. \<forall>n < length es. vs_points vs x' (job_ids h repo j ! n) = Some (make_point h repo (fj_path j) (fj_language j) (fj_chunks j ! n) (es ! n))) \<and>
    (\<forall>i. i \<notin> set (concat (map (job_ids h repo \<circ> fst) ss)) \<longrightarrow> vs_points vs x' i = without_file repo (fj_path ` fst ` set ss) (vs_points vs x i))"
  using assms
proof (induction ss arbitrary: x r)
  case Nil
  show ?case by (simp add: without_file_def option.case_eq_if)
next
  case (Cons s ss)
  obtain j es where s: "s = (j, es)" by (cases s)
  let ?r1 = "r\<lparr> ar_indexed := ar_indexed r + 1 \<rparr>" and ?ids = "set (concat (map (job_ids h repo \<circ> fst) ss))"
  have len: "length es = length (fj_chunks j)" and path: "fj_path j \<noteq> []" and mine: "distinct (job_ids h repo j)"
    and apart: "set (job_ids h repo j) \<inter> ?ids = {}" and away: "fj_path j \<notin> fj_path ` fst ` set ss"
    using Cons.prems by (auto simp: s image_image)
  obtain x1 where x1: "store_file vs h repo (x, r) (j, es) = (x1, ?r1)"
    "\<And>n. n < length es \<Longrightarrow> vs_points vs x1 (job_ids h repo j ! n) = Some (make_point h repo (fj_path j) (fj_language j) (fj_chunks j ! n) (es ! n))"
    "\<And>i. i \<notin> set (job_ids h repo j) \<Longrightarrow> vs_points vs x1 i = without_file repo {fj_path j} (vs_points vs x i)"
    using store_file_ok [OF Cons.prems(1) path len mine] by meson
  obtain x' where x': "foldl (store_file vs h repo) (x1, ?r1) ss = (x', ?r1\<lparr> ar_indexed := ar_indexed ?r1 + int (length ss) \<rparr>)"
    "\<forall>(j, es) \<in> set ss. \<forall>n < length es. vs_points vs x' (job_ids h repo j ! n) = Some (make_point h repo (fj_path j) (fj_language j) (fj_chunks j ! n) (es ! n))"
    "\<And>i. i \<notin> ?ids \<Longrightarrow> vs_points vs x' i = without_file repo (fj_path ` fst ` set ss) (vs_points vs x1 i)"
    using Cons.IH [OF Cons.prems(1), of x1 ?r1] Cons.prems(2-4) by (auto simp: s)
  have "vs_points vs x' (job_ids h repo j ! n) = Some (make_point h repo (fj_path j) (fj_language j) (fj_chunks j ! n) (es ! n))" if "n < length es" for n
  proof -
    have "job_ids h repo j ! n \<in> set (job_ids h repo j)" using that len by (simp add: job_ids_def)
    then have "job_ids h repo j ! n \<notin> ?ids" using apart by blast
    from x'(3) [OF this] show ?thesis using x1(2) [OF that] away by (simp add: without_file_def)
  qed
  moreover have "vs_points vs x' i = without_file repo (fj_path ` fst ` set (s # ss)) (vs_points vs x i)"
    if "i \<notin> set (concat (map (job_ids h repo \<circ> fst) (s # ss)))" for i
    using that x'(3) [of i] x1(3) [of i] by (simp add: s)
  moreover have "foldl (store_file vs h repo) (x, r) (s # ss) = (x', r\<lparr> ar_indexed := ar_indexed r + int (length (s # ss)) \<rparr>)"
    using x1(1) x'(1) by (simp add: s)
  ultimately show ?case using x'(2) by (intro exI [of _ x'] conjI) (simp_all add: s)
qed

lemma concat_map_perm:
  assumes "mset xs = mset ys"
  shows "mset (concat (map g xs)) = mset (concat (map g ys))"
proof -
  have "mset (concat (map g zs)) = sum_mset (image_mset (mset \<circ> g) (mset zs))" for zs
    by (induction zs) simp_all
  then show ?thesis using assms by simp
qed


definition map_store :: "(string \<Rightarrow> vector_point option) vector_store" where
  "map_store =
     \<lparr> vs_points = id,
       vs_delete = (\<lambda>repo path x. Inr (\<lambda>i. without_file repo {path} (x i))),
       vs_upsert = (\<lambda>ps x. Inr (\<lambda>i. case map_of (rev (map (\<lambda>p. (vp_id p, p)) ps)) i of None \<Rightarrow> x i | Some p \<Rightarrow> Some p)) \<rparr>"

lemma map_store_ok: "faithful_store map_store"
proof -
  have "vs_points map_store = (\<lambda>x. x)" by (simp add: map_store_def id_def)
  then show ?thesis unfolding faithful_store_def by (simp only:) (simp add: map_store_def)
qed

definition length_embedder :: embedder where
  "length_embedder ts = (if list_all (\<lambda>t. int (length t) \<le> 2048) ts then Inr (map (\<lambda>t. [of_nat (length t)]) ts) else Inl ''input is too large'')"

lemma length_embedder_ok: "limited_embedder (\<lambda>t. [of_nat (length t)]) 2048 length_embedder"
  by (simp add: limited_embedder_def length_embedder_def list_all_iff)

definition plain_vector_env :: vector_env where
  "plain_vector_env =
     \<lparr> ve_read = (\<lambda>_. Inl ''no such file''), ve_parse = (\<lambda>_ _ _. None),
       ve_settings = \<lparr> vc_chunking = \<lparr> cfg_method = [], cfg_window = 0, cfg_overlap = 0 \<rparr>, vc_cards = False, vc_max_chars = 0, vc_excludes = [], vc_instruction = [] \<rparr>,
       ve_embed = length_embedder, ve_sha256 = (\<lambda>s. map (\<lambda>c. of_nat (byte_of c)) (take 32 (s @ replicate 32 (CHR 0x00)))),
       ve_groups = (\<lambda>js. [js]), ve_order = rev \<rparr>"

definition readme_job :: file_job where
  "readme_job =
     \<lparr> fj_path = ''README.md'', fj_language = ''markdown'',
       fj_chunks = [\<lparr> ch_id = ''README.md:0'', ch_file = ''README.md'', ch_language = ''markdown'', ch_start = 1, ch_end = 1, ch_text = ''# cart'', ch_symbol = [], ch_kind = [] \<rparr>] \<rparr>"

definition readme_file :: ast_source where
  "readme_file = \<lparr> as_path = ''README.md'', as_hash = ''1'', as_language = ''markdown'', as_content = Some ''# cart'' \<rparr>"

definition stale_point :: vector_point where
  "stale_point = \<lparr> vp_id = ''old'', vp_vector = [], vp_repo = ''r'', vp_file = ''README.md'', vp_language = ''markdown'', vp_start = 9, vp_end = 12, vp_kind = [],
     vp_symbol = [], vp_body = [], vp_meta = [] \<rparr>"


section \<open>Where the indexer falls short\<close>

text \<open>
  A point id is the hash of the path followed by the line range without a separator: two files whose names
  differ by trailing digits share ids, and the point of one overwrites that of the other.
\<close>

theorem files_share_a_point_id:
  "generate_chunk_id sha256 repo ''docs/v'' 12 20 = generate_chunk_id sha256 repo ''docs/v1'' 2 20"
proof -
  have "''docs/v'' @ itoa 12 @ ''-'' @ itoa 20 = ''docs/v1'' @ itoa 2 @ ''-'' @ itoa 20" by code_simp
  then show ?thesis by (simp only: generate_chunk_id_def chunk_id_input_def)
qed

text \<open>
  Kotlin and C# have symbol cards, but files of these languages are skipped before any card is built.
\<close>

theorem cards_without_files:
  "{l. l \<in> set card_languages \<and> \<not> should_vectorize l} = {''kotlin'', ''csharp''}"
  by (auto simp: card_languages_def should_vectorize_def vectorizable_def)

text \<open>A filter makes a large request smaller: the cap on the candidates to fetch is below the limit itself.\<close>

theorem filter_shrinks_the_request:
  assumes "\<not> filters_empty f" and "500 < limit"
  shows "fetch_limit f limit < limit"
  using assms by (simp add: fetch_limit_def over_fetch_factor_def max_over_fetch_def)

end
