(* ===== verification/Spec2Isabelle.thy ===== *)
theory Spec2Isabelle
  imports Contract_Keys Gitignore_Rules Search_Service Job_Push Graph_Contract_Facts Graph_Trace_Report Index_Pass_Sync
    App_Context App_Search_Facts Promote_Gaps Ast_Window_Facts Ast_Gaps Index_Keyword_Facts Index_Vector_Facts
begin

text \<open>
  A verification development for ragota, a server that indexes source repositories, links what they declare
  and call into one graph, and answers search requests over both. Paths below are relative to \<open>src/\<close>; most
  of the modelled code is under \<open>src/internal/\<close>, whose prefix is left out.

  \<^bold>\<open>The program and its parts.\<close>
  A repository is registered, cloned or mounted, and indexed: a \<^emph>\<open>pass\<close> (\<open>app/indexing.go\<close>) lists its files,
  skips the unchanged ones by their hash, and hands windows of the others to the indexers. The AST indexer
  (\<open>index/ast\<close>) turns a file into units (functions, routes, topics, tables) and edges (calls, requests,
  subscriptions) whose names are \<^emph>\<open>contract keys\<close> (\<open>contract\<close>); the linker (\<open>graph/linker.go\<close>) then gives an edge
  the unit it refers to, within and between repositories. Pushed commits take the incremental way: a push is
  checked against the cursor of its repository, queued (\<open>store/sqlite/jobs.go\<close>) and applied by a worker
  (\<open>app/jobs.go\<close>). A search (\<open>app/service.go\<close>, \<open>search/hybrid.go\<close>) fuses the answers of the keyword and the
  vector searcher, reranks them, and promotes answers of the graph (\<open>app/promote\<close>); the graph is also queried
  directly (\<open>graph/graph.go\<close>, \<open>graph/trace.go\<close>). The parts share state only through the store.

  \<^bold>\<open>Foundations.\<close>
  \<^item> \<open>Ragota_Prelude\<close>: the collections \<open>go_eval\<close> and \<open>go_string\<close>, lists, and a stable sort by a comparison.
  \<^item> \<open>Go_Strings\<close>, \<open>Go_Path\<close>: the routines of \<open>strings\<close>, \<open>strconv\<close>, \<open>path\<close> and \<open>filepath\<close> that the sources call, over
    strings as byte lists. Case folding and white space are those of ASCII.
  \<^item> \<open>Go_Float\<close>: \<open>float32\<close> and \<open>float64\<close> as rational numbers, each operation rounded to nearest even. No
    modelled computation meets an infinity or a NaN.
  \<^item> \<open>Go_Regexp\<close>: leftmost-first matching as package \<open>regexp\<close> does it, for the syntax the sources use.

  \<^bold>\<open>Contracts, ignore rules.\<close>
  \<^item> \<open>Contract_Ident\<close>, \<open>Contract_Keys\<close>: \<open>contract/ident.go\<close>, \<open>contract/contract.go\<close>. The locale \<open>value_key\<close> states what a
    kind of key promises (parsing what was built, and only that); every kind is an interpretation. Two HTTP
    keys are equal exactly when the methods and the reduced paths are.
  \<^item> \<open>Gitignore_Parse\<close>, \<open>Gitignore_Rules\<close>: \<open>src/pkg/gitignore/gitignore.go\<close>. The verdict does not depend on which
    questions were asked before, although patterns are cached as directories are met.

  \<^bold>\<open>Queue, worker, commits.\<close>
  \<^item> \<open>Job_Store\<close>: the rows of \<open>index_jobs\<close> and \<open>repos\<close> as records, each method of \<open>store/sqlite/jobs.go\<close> and
    \<open>store/sqlite/repos.go\<close> as the effect of its statements. \<open>Job_Queue\<close>: the queue as a step relation with its
    invariant; a claim is exclusive. \<open>Job_History\<close>: over a history of operations no commit batch is lost or
    applied twice (locale \<open>batch_queue\<close>, interpreted by the store).
  \<^item> \<open>Commit_Plan\<close>, \<open>Job_Worker\<close>: \<open>app/commits.go\<close>, \<open>app/jobs.go\<close> and the entry points of \<open>app/indexing.go\<close>.
    \<open>Job_Worker_Facts\<close>, \<open>Job_Push\<close>, \<open>Job_Drain\<close>: the cursor moves only over batches that were applied in full, a
    push is queued exactly when it continues the cursor, a worker leaves nothing behind, and a worker alone
    empties the queue.

  \<^bold>\<open>Index pass.\<close>
  \<^item> \<open>Index_Pass\<close>, \<open>Index_Pass_Facts\<close>, \<open>Index_Pass_Sync\<close>: \<open>app/indexing.go\<close>, \<open>app/coverage.go\<close>, the file and coverage
    tables and the part of \<open>repos/svcdetect.go\<close> a pass calls. The indexers are values of their interface over
    a backend of their own. A pass that reports success leaves every
    indexer holding the content the disk has.

  \<^bold>\<open>AST engine.\<close>
  \<^item> \<open>Ast_Strings\<close>, \<open>Ast_File\<close>: \<open>index/ast/strings.go\<close>, \<open>aliases.go\<close>, \<open>filectx.go\<close>; \<open>Ast_Detect\<close>: the rule kinds of
    \<open>frameworks.go\<close>; \<open>Ast_Brokers\<close>: the tables of \<open>messaging.go\<close> and of every \<open>lang_*.go\<close>; \<open>Ast_Wrappers\<close>:
    \<open>wrappers.go\<close>, \<open>route_generic.go\<close>; \<open>Ast_Schema\<close>, \<open>Ast_Config\<close>: the parsers that need no syntax tree
    (\<open>lang_sql.go\<close>, \<open>lang_proto.go\<close>, \<open>lang_config.go\<close>); \<open>Ast_Indexer\<close>: \<open>indexer.go\<close>. A call site of a syntax tree is
    the record the engine makes of it (\<open>callSite\<close>).
  \<^item> \<open>Ast_Facts\<close>: the locale \<open>rule_relation\<close> lifts what one rule keeps to a run of a rule set; its
    interpretations give that detected edges are contract keys and that a call site is counted once.
    \<open>Ast_Window_Facts\<close>: storing a window replaces the rows of its files, and every file is accounted for.
    \<open>Ast_Gaps\<close>: inputs on which the parsers fall short.

  \<^bold>\<open>Store and linker.\<close>
  \<^item> \<open>Store_Query\<close>, \<open>Store_Files\<close>, \<open>Graph_Store\<close>: \<open>store/query.go\<close> and the SQLite tables of files, coverage, units and
    edges, as the effect of each method on the rows. \<open>Graph_Store_Facts\<close>: an operation run in chunks is the
    operation, and a failing row of a batch takes no other with it.
  \<^item> \<open>Graph_Match\<close>, \<open>Graph_Contracts\<close>, \<open>Graph_Linker\<close>: \<open>graph/linker.go\<close>. \<open>Graph_Match_Facts\<close>, \<open>Graph_Route_Facts\<close>: the
    indexes are exact and the best match wins. \<open>Graph_Local_Facts\<close>, \<open>Graph_Config_Facts\<close>, \<open>Graph_Contract_Facts\<close>,
    \<open>Graph_Flow_Facts\<close>: what each stage of a run leaves in the store. \<open>Graph_Writer_Facts\<close>: the locale of a store
    that takes resolutions, interpreted by the batch and by the row-by-row path.

  \<^bold>\<open>Graph queries.\<close>
  \<^item> \<open>Graph_Query\<close>, \<open>Graph_Services\<close>, \<open>Graph_Trace\<close>: \<open>graph/graph.go\<close>, \<open>graph/context.go\<close>, \<open>graph/trace.go\<close>.
    \<open>Graph_Path_Facts\<close>: a path is a shortest walk (proved in a locale of successor sources, of which the cached
    loader is one). \<open>Graph_Trace_Search\<close>, \<open>Graph_Trace_Facts\<close>, \<open>Graph_Trace_Props\<close>, \<open>Graph_Trace_Report\<close>: the tracer is
    an enumeration of flows, and keeps the best.

  \<^bold>\<open>Search.\<close>
  \<^item> \<open>Search_Hits\<close>, \<open>Search_Filters\<close>: \<open>index/interface.go\<close>; \<open>Search_Fusion\<close>, \<open>Search_Rank\<close>, \<open>Search_Service\<close>: \<open>search/hybrid.go\<close>
    with every floating-point operation rounded, and \<open>Search_Fusion_Facts\<close>, \<open>Search_Fusion_RRF\<close>,
    \<open>Search_Rank_Facts\<close>: fusion partitions the hits, reranking serves by score, merged spans cover, a failing
    searcher degrades the answer.
  \<^item> \<open>Promote_Intent\<close>, \<open>Promote_Callers\<close>, \<open>Promote_Contracts\<close>, \<open>Promote_Uses\<close>: \<open>app/promote\<close>; \<open>Promote_Facts\<close>,
    \<open>Promote_Gaps\<close>. \<open>Enrich_Assist\<close>: \<open>app/enrich/assist.go\<close>. \<open>App_Search\<close>, \<open>App_Search_Facts\<close>: the search request of the
    service, which stays in its scope. \<open>App_Context\<close>: \<open>app/context.go\<close>, \<open>app/nav.go\<close>.

  \<^bold>\<open>Chunk indexers.\<close>
  \<^item> \<open>Index_Chunks\<close>: \<open>index/chunk.go\<close>, \<open>index/symbols.go\<close>; windows lose no line, and the cache between the indexers is
    bounded in every state it can reach. \<open>Index_Keyword\<close>: \<open>index/bm25/indexer.go\<close> over an engine that is a record of
    its answers; \<open>Index_Vector\<close>: \<open>index/vector/indexer.go\<close> over a model, a store and a schedule of the workers.
    \<open>Index_Keyword_Facts\<close>, \<open>Index_Vector_Facts\<close>: a window of files replaces what the engine, or the store, holds of
    those files, given the documented behaviour (\<open>document_index\<close>, \<open>faithful_store\<close>, \<open>limited_embedder\<close>).

  \<^bold>\<open>Correspondence.\<close>
  A struct is a record whose fields carry a prefix of the type; a method is a definition that takes the state
  and returns it changed. A Go map is a partial function where only lookups matter and an association list
  where its size or iteration is observed; where the code iterates a map without sorting, the model takes one
  of the orders Go may take, and theorems that hold for every order quantify over the list. Ids of rows are
  natural numbers, 0 for the empty string. Integers are mathematical where the code's \<open>int\<close> cannot overflow (line
  numbers, counters, limits). Errors are values of an option or a sum. Goroutines over independent work are
  modelled as the work in one order; where operations of several instances interleave (the queue), the model
  is a step relation.

  \<^bold>\<open>Bounds and fuel.\<close>
  No definition runs on fuel. Loops are structural or functions with a measure (the remaining lines, the
  remaining depth, the rows still to be visited); the path search is a \<open>partial_function\<close>, proved to end. The bounds of the code are in the model as written: the
  chunk sizes of statements, 256 files of a store window, the expansion budget and the sixty-four chains of
  the tracer, the depth of a path, ten promoted callers.

  \<^bold>\<open>Not modelled.\<close>
  Third-party code is a parameter: tree-sitter and the tree walks over its nodes in \<open>lang_*.go\<close>, bleve, Qdrant,
  the SQL engines, git, the language servers, the language models, the file system and the clock. The PostgreSQL
  store repeats the statements of the SQLite store, which is the one modelled; the \<open>queries.sql.go\<close> of both are
  generated. HTTP and MCP handlers, rendering, the terminal interface, the client library, the command line,
  configuration loading, progress reporting and the tools are input and output around the modelled calls.
  Metrics, log lines and durations are left out throughout.
\<close>

end
